(* ===== verification/Lager_Prelude.thy ===== *)
theory Lager_Prelude
  imports Complex_Main "HOL-Library.AList" "HOL-Library.Word"
begin

text \<open>
  Prelude of the development: the Python values the box handles (what
  \<^verbatim>\<open>json.load\<close> can produce), dictionaries with insertion order, exceptions as values,
  and the built-ins the modelled code calls on them (\<^verbatim>\<open>bool\<close>, \<^verbatim>\<open>==\<close>, \<^verbatim>\<open>int\<close>,
  \<^verbatim>\<open>float\<close>, \<^verbatim>\<open>str.lower\<close>, \<^verbatim>\<open>str.strip\<close>), together with the list, option and
  dictionary lemmas the components share.

  Strings are lists of characters with codes 0 to 255, that is the Latin-1 part of
  Python's code points. A float is a finite value (a rational), an infinity or NaN;
  the two zeros are one value, and \<open>to_binary64\<close> is the rounding that
  \<^verbatim>\<open>float()\<close> applies to a decimal literal or to an integer.
\<close>

unbundle bit_operations_syntax

named_theorems dict_simps \<open>lookup and update laws of dictionaries\<close>
named_theorems res_simps \<open>evaluation of results that may be an exception\<close>

section \<open>Results that may be an exception\<close>

datatype pyexc =
    ValueError | UnicodeDecodeError | TypeError | OverflowError | KeyError | IndexError
  | AttributeError | OSError | AssertionError | StructError | RuntimeError | SecurityError

type_synonym 'a res = "pyexc + 'a"

definition res_bind :: "'a res \<Rightarrow> ('a \<Rightarrow> 'b res) \<Rightarrow> 'b res" where
  "res_bind m f = (case m of Inl e \<Rightarrow> Inl e | Inr x \<Rightarrow> f x)"

lemma res_bind_Inl [simp, res_simps]: "res_bind (Inl e) f = Inl e"
  by (simp add: res_bind_def)

lemma res_bind_Inr [simp, res_simps]: "res_bind (Inr x) f = f x"
  by (simp add: res_bind_def)

lemma res_bind_eq_Inr: "res_bind m f = Inr y \<longleftrightarrow> (\<exists>x. m = Inr x \<and> f x = Inr y)"
  by (cases m) simp_all

lemma res_bind_assoc: "res_bind (res_bind m f) g = res_bind m (\<lambda>x. res_bind (f x) g)"
  by (cases m) simp_all

fun res_map :: "('a \<Rightarrow> 'b res) \<Rightarrow> 'a list \<Rightarrow> 'b list res" where
  "res_map f [] = Inr []"
| "res_map f (x # xs) = res_bind (f x) (\<lambda>y. res_bind (res_map f xs) (\<lambda>ys. Inr (y # ys)))"

lemma res_map_length: "res_map f xs = Inr ys \<Longrightarrow> length ys = length xs"
  by (induction xs arbitrary: ys) (auto simp: res_bind_eq_Inr)

lemma res_map_mem: "res_map f xs = Inr ys \<Longrightarrow> x \<in> set xs \<Longrightarrow> \<exists>y\<in>set ys. f x = Inr y"
  by (induction xs arbitrary: ys) (auto simp: res_bind_eq_Inr)

section \<open>Python values\<close>

type_synonym byte = "8 word"

datatype pyfloat = Fin rat | PInf | NInf | NaN

datatype pyval =
    VNone
  | VBool bool
  | VInt int
  | VFloat pyfloat
  | VStr string
  | VList "pyval list"
  | VDict "(string \<times> pyval) list"

type_synonym dict = "(string \<times> pyval) list"

text \<open>
  A dictionary is an association list in insertion order: \<open>AList.update\<close> overwrites in
  place or appends, as Python's item assignment does.
\<close>

definition dict_get :: "dict \<Rightarrow> string \<Rightarrow> pyval" where
  "dict_get d k = (case map_of d k of None \<Rightarrow> VNone | Some v \<Rightarrow> v)"

definition dict_item :: "dict \<Rightarrow> string \<Rightarrow> pyval res" where
  "dict_item d k = (case map_of d k of None \<Rightarrow> Inl KeyError | Some v \<Rightarrow> Inr v)"

definition dict_has :: "dict \<Rightarrow> string \<Rightarrow> bool" where
  "dict_has d k = (map_of d k \<noteq> None)"

definition dict_set :: "dict \<Rightarrow> string \<Rightarrow> pyval \<Rightarrow> dict" where
  "dict_set d k v = AList.update k v d"

text \<open>\<^verbatim>\<open>d.update(kvs)\<close>.\<close>

definition update_dict :: "dict \<Rightarrow> dict \<Rightarrow> dict" where
  "update_dict d kvs = foldl (\<lambda>d (k, v). dict_set d k v) d kvs"

lemma map_of_dict_set [simp, dict_simps]: "map_of (dict_set d k v) = (map_of d)(k \<mapsto> v)"
  by (simp add: dict_set_def update_conv')

lemma dict_get_set [simp, dict_simps]:
  "dict_get (dict_set d k v) k' = (if k' = k then v else dict_get d k')"
  by (simp add: dict_get_def)

lemma dict_item_set [simp, dict_simps]:
  "dict_item (dict_set d k v) k' = (if k' = k then Inr v else dict_item d k')"
  by (simp add: dict_item_def)

lemma dict_has_set [simp, dict_simps]:
  "dict_has (dict_set d k v) k' \<longleftrightarrow> k' = k \<or> dict_has d k'"
  by (simp add: dict_has_def)

lemma dict_get_Nil [simp, dict_simps]: "dict_get [] k = VNone"
  by (simp add: dict_get_def)

lemma dict_get_Cons [simp, dict_simps]:
  "dict_get ((k, v) # d) k' = (if k' = k then v else dict_get d k')"
  by (simp add: dict_get_def)

lemma dict_item_get: "dict_get d k \<noteq> VNone \<Longrightarrow> dict_item d k = Inr (dict_get d k)"
  by (auto simp: dict_get_def dict_item_def split: option.splits)

lemma distinct_dict_set [simp]:
  "distinct (map fst d) \<Longrightarrow> distinct (map fst (dict_set d k v))"
  by (simp add: dict_set_def distinct_update)

text \<open>A file that is read with \<^verbatim>\<open>json.load\<close>.\<close>

datatype json_file = Missing | Unreadable | NotUtf8 | NotJson | JsonDoc pyval

subsection \<open>Truth value and equality\<close>

fun truthy :: "pyval \<Rightarrow> bool" where
  "truthy VNone = False"
| "truthy (VBool b) = b"
| "truthy (VInt i) = (i \<noteq> 0)"
| "truthy (VFloat f) = (f \<noteq> Fin 0)"
| "truthy (VStr s) = (s \<noteq> [])"
| "truthy (VList xs) = (xs \<noteq> [])"
| "truthy (VDict d) = (d \<noteq> [])"

text \<open>Python's \<^verbatim>\<open>a or b\<close>.\<close>

definition py_or :: "pyval \<Rightarrow> pyval \<Rightarrow> pyval" where
  "py_or a b = (if truthy a then a else b)"

definition float_eq :: "pyfloat \<Rightarrow> pyfloat \<Rightarrow> bool" where
  "float_eq a b = (a \<noteq> NaN \<and> a = b)"

text \<open>The numeric value of a bool, an int or a float; \<open>None\<close> for the other types.\<close>

fun num_of :: "pyval \<Rightarrow> pyfloat option" where
  "num_of (VBool b) = Some (Fin (if b then 1 else 0))"
| "num_of (VInt i) = Some (Fin (of_int i))"
| "num_of (VFloat f) = Some f"
| "num_of _ = None"

text \<open>
  \<^verbatim>\<open>==\<close>: numbers by value across bool, int and float, sequences item by item, and
  dictionaries by their items whatever the order. Values of different kinds are unequal.
\<close>

fun py_eq :: "pyval \<Rightarrow> pyval \<Rightarrow> bool"
and py_eq_list :: "pyval list \<Rightarrow> pyval list \<Rightarrow> bool"
and py_sub_dict :: "dict \<Rightarrow> dict \<Rightarrow> bool" where
  "py_eq VNone VNone = True"
| "py_eq (VStr s) (VStr t) = (s = t)"
| "py_eq (VList xs) (VList ys) = py_eq_list xs ys"
| "py_eq (VDict d) (VDict e) = (length d = length e \<and> py_sub_dict d e)"
| "py_eq a b = (case (num_of a, num_of b) of
                  (Some x, Some y) \<Rightarrow> float_eq x y
                | _ \<Rightarrow> False)"
| "py_eq_list [] [] = True"
| "py_eq_list (x # xs) (y # ys) = (py_eq x y \<and> py_eq_list xs ys)"
| "py_eq_list _ _ = False"
| "py_sub_dict [] e = True"
| "py_sub_dict ((k, v) # d) e =
     ((case map_of e k of None \<Rightarrow> False | Some w \<Rightarrow> py_eq v w) \<and> py_sub_dict d e)"

lemma py_eq_VStr [simp]: "py_eq v (VStr s) \<longleftrightarrow> v = VStr s"
  by (cases v) auto

lemma py_eq_VStr_left [simp]: "py_eq (VStr s) v \<longleftrightarrow> v = VStr s"
  by (cases v) auto

end
