(* ===== verification/Py_Builtins.thy ===== *)
theory Py_Builtins
  imports Lager_Prelude
begin

text \<open>
  The string and number built-ins of Python that the modelled code calls:
  \<^verbatim>\<open>str.strip\<close>, \<^verbatim>\<open>str.lower\<close>, \<^verbatim>\<open>str.startswith\<close>, \<^verbatim>\<open>int()\<close> and
  \<^verbatim>\<open>float()\<close> on the values of \<open>Lager_Prelude\<close>, with the exceptions they raise.
  \<open>to_binary64\<close> is round-to-nearest-even to an IEEE 754 double; \<open>to_binary64_int\<close>
  shows that integers of at most 53 bits are kept exactly.
\<close>

section \<open>Characters and strings\<close>

abbreviation code :: "char \<Rightarrow> nat" where
  "code c \<equiv> of_char c"

definition is_space :: "char \<Rightarrow> bool" where
  "is_space c = (code c \<in> {9, 10, 11, 12, 13, 28, 29, 30, 31, 32, 133, 160})"

definition is_digit :: "char \<Rightarrow> bool" where
  "is_digit c = (48 \<le> code c \<and> code c \<le> 57)"

definition digit_val :: "char \<Rightarrow> nat" where
  "digit_val c = code c - 48"

definition lower_char :: "char \<Rightarrow> char" where
  "lower_char c = (let n = code c in
     if (65 \<le> n \<and> n \<le> 90) \<or> (192 \<le> n \<and> n \<le> 222 \<and> n \<noteq> 215)
     then char_of (n + 32) else c)"

definition lower :: "string \<Rightarrow> string" where
  "lower = map lower_char"

definition lstrip :: "string \<Rightarrow> string" where
  "lstrip = dropWhile is_space"

definition strip :: "string \<Rightarrow> string" where
  "strip s = rev (dropWhile is_space (rev (dropWhile is_space s)))"

definition startswith :: "string \<Rightarrow> string \<Rightarrow> bool" where
  "startswith s p = (take (length p) s = p)"

definition endswith :: "string \<Rightarrow> string \<Rightarrow> bool" where
  "endswith s p = (length p \<le> length s \<and> drop (length s - length p) s = p)"

lemma lower_Nil [simp]: "lower [] = []"
  by (simp add: lower_def)

lemma length_lower [simp]: "length (lower s) = length s"
  by (simp add: lower_def)

lemma lower_char_idem [simp]: "lower_char (lower_char c) = lower_char c"
proof -
  have "code (char_of (n + 32)) = n + 32" if "n \<le> 222" for n :: nat
    using that by (simp add: of_char_of)
  then show ?thesis by (auto simp: lower_char_def Let_def)
qed

lemma lower_idem [simp]: "lower (lower s) = lower s"
  by (simp add: lower_def)

lemma strip_Nil [simp]: "strip [] = []"
  by (simp add: strip_def)

lemma dropWhile_none: "(\<forall>c\<in>set s. \<not> P c) \<Longrightarrow> dropWhile P s = s"
  by (cases s) auto

lemma strip_no_space: "(\<forall>c\<in>set s. \<not> is_space c) \<Longrightarrow> strip s = s"
  by (simp add: strip_def dropWhile_none)

lemma startswith_append [simp]: "startswith (p @ s) p"
  by (simp add: startswith_def)

lemma endswith_append [simp]: "endswith (s @ p) p"
  by (simp add: endswith_def)

section \<open>Decimal digits\<close>

text \<open>\<^verbatim>\<open>str(n)\<close> of a natural number.\<close>

fun str_of_nat :: "nat \<Rightarrow> string" where
  "str_of_nat n = (if n < 10 then [char_of (48 + n)] else str_of_nat (n div 10) @ [char_of (48 + n mod 10)])"

declare str_of_nat.simps [simp del]

lemma str_of_nat_nonempty: "str_of_nat n \<noteq> []"
  by (subst str_of_nat.simps) simp

lemma digit_inj:
  assumes "a < 10" "b < 10" "char_of (48 + a :: nat) = (char_of (48 + b) :: char)"
  shows "a = b"
proof -
  have "code (char_of (48 + a)) = code (char_of (48 + b))" using assms(3) by simp
  with assms(1,2) show ?thesis by (simp add: of_char_of)
qed

lemma str_of_nat_inj: "str_of_nat n = str_of_nat m \<Longrightarrow> n = m"
proof (induction n arbitrary: m rule: less_induct)
  case (less n)
  have d: "k mod 10 < 10" for k :: nat by simp
  show ?case
  proof (cases "n < 10 \<or> m < 10")
    case True
    with less.prems str_of_nat_nonempty [of "n div 10"] str_of_nat_nonempty [of "m div 10"] show ?thesis
      by (auto simp: str_of_nat.simps [of n] str_of_nat.simps [of m] dest: digit_inj split: if_splits)
  next
    case False
    with less.prems have "str_of_nat (n div 10) = str_of_nat (m div 10)"
      "char_of (48 + n mod 10) = (char_of (48 + m mod 10) :: char)"
      by (simp_all add: str_of_nat.simps [of n] str_of_nat.simps [of m])
    with False less.IH [of "n div 10" "m div 10"] digit_inj [OF d d] have "n div 10 = m div 10" "n mod 10 = m mod 10"
      by simp_all
    then show ?thesis by (metis div_mult_mod_eq)
  qed
qed

fun nat_of_digits :: "nat \<Rightarrow> nat list \<Rightarrow> nat" where
  "nat_of_digits acc [] = acc"
| "nat_of_digits acc (d # ds) = nat_of_digits (10 * acc + d) ds"

lemma nat_of_digits_append:
  "nat_of_digits acc (xs @ ys) = nat_of_digits (nat_of_digits acc xs) ys"
  by (induction xs arbitrary: acc) auto

text \<open>
  Digits with single underscores between them, as \<^verbatim>\<open>int()\<close> and \<^verbatim>\<open>float()\<close> accept
  them; \<open>prev\<close> says that the character before was a digit.
\<close>

fun us_digits :: "bool \<Rightarrow> string \<Rightarrow> nat list option" where
  "us_digits prev [] = (if prev then Some [] else None)"
| "us_digits prev (c # cs) =
     (if is_digit c then map_option (Cons (digit_val c)) (us_digits True cs)
      else if c = CHR ''_'' \<and> prev then us_digits False cs
      else None)"

text \<open>An optional sign, split off the front.\<close>

definition split_sign :: "string \<Rightarrow> bool \<times> string" where
  "split_sign s = (case s of
      [] \<Rightarrow> (False, [])
    | c # cs \<Rightarrow> if c = CHR ''-'' then (True, cs) else if c = CHR ''+'' then (False, cs)
               else (False, s))"

definition apply_sign :: "bool \<Rightarrow> 'a::uminus \<Rightarrow> 'a" where
  "apply_sign neg x = (if neg then - x else x)"

text \<open>\<^verbatim>\<open>int(s)\<close>; a literal of more than 4300 digits is refused by CPython.\<close>

definition int_of_str :: "string \<Rightarrow> int option" where
  "int_of_str s = (let (neg, t) = split_sign (strip s) in
     case us_digits False t of
       None \<Rightarrow> None
     | Some ds \<Rightarrow> if length ds > 4300 then None
                 else Some (apply_sign neg (int (nat_of_digits 0 ds))))"

subsection \<open>Printing and reading an integer\<close>

text \<open>\<^verbatim>\<open>str(i)\<close> of an integer.\<close>

definition dec_int :: "int \<Rightarrow> string" where
  "dec_int i = (if i < 0 then ''-'' @ str_of_nat (nat (- i)) else str_of_nat (nat i))"

lemma code_digit [simp]: "n < 10 \<Longrightarrow> code (char_of (48 + n)) = 48 + n"
  by (simp add: of_char_of)

lemma str_of_nat_digits: "c \<in> set (str_of_nat n) \<Longrightarrow> is_digit c"
proof (induction n rule: less_induct)
  case (less n)
  show ?case
  proof (cases "n < 10")
    case True
    with less.prems show ?thesis by (simp add: str_of_nat.simps [of n] is_digit_def)
  next
    case False
    have "is_digit (char_of (48 + n mod 10))" by (simp add: is_digit_def)
    with False less.prems less.IH [of "n div 10"] show ?thesis by (auto simp: str_of_nat.simps [of n])
  qed
qed

lemma nat_of_digits_str: "nat_of_digits 0 (map digit_val (str_of_nat n)) = n"
proof (induction n rule: less_induct)
  case (less n)
  then show ?case
    by (cases "n < 10") (simp_all add: str_of_nat.simps [of n] nat_of_digits_append digit_val_def)
qed

lemma length_str_of_nat: "n < 10 ^ k \<Longrightarrow> 0 < k \<Longrightarrow> length (str_of_nat n) \<le> k"
proof (induction n arbitrary: k rule: less_induct)
  case (less n)
  show ?case
  proof (cases "n < 10")
    case True
    with less.prems show ?thesis by (simp add: str_of_nat.simps [of n])
  next
    case False
    with less.prems obtain j where k: "k = Suc j" "0 < j" by (cases k; cases "k - 1") auto
    from less.prems(1) k have "n div 10 < 10 ^ j" by (simp add: less_mult_imp_div_less mult.commute)
    with False less.IH [of "n div 10" j] k show ?thesis by (simp add: str_of_nat.simps [of n])
  qed
qed

lemma us_digits_digits:
  "(\<forall>c\<in>set s. is_digit c) \<Longrightarrow> prev \<or> s \<noteq> [] \<Longrightarrow> us_digits prev s = Some (map digit_val s)"
  by (induction s arbitrary: prev) auto

lemma is_digit_not_space: "is_digit c \<Longrightarrow> \<not> is_space c"
  by (auto simp: is_digit_def is_space_def)

lemma is_digit_not_sign: "is_digit c \<Longrightarrow> c \<noteq> CHR ''-'' \<and> c \<noteq> CHR ''+''"
  by (auto simp: is_digit_def)

lemma split_sign_digits: "\<forall>c\<in>set s. is_digit c \<Longrightarrow> split_sign s = (False, s)"
  by (cases s) (auto simp: split_sign_def dest: is_digit_not_sign)

text \<open>Reading what \<^verbatim>\<open>str\<close> printed, below CPython's limit of 4300 digits.\<close>

definition int_limit :: nat where
  "int_limit = 10 ^ 4300"

lemma length_below_limit: "n < int_limit \<Longrightarrow> length (str_of_nat n) \<le> 4300"
  unfolding int_limit_def by (rule length_str_of_nat) (assumption, rule zero_less_numeral)

lemma below_limit: "n < 10 ^ k \<Longrightarrow> k \<le> 4300 \<Longrightarrow> n < int_limit"
  unfolding int_limit_def by (erule order_less_le_trans, rule power_increasing) (assumption, simp)

lemma dec_int_no_space: "c \<in> set (dec_int i) \<Longrightarrow> \<not> is_space c"
  using str_of_nat_digits is_digit_not_space by (auto simp: dec_int_def is_space_def split: if_splits)

lemma strip_dec_int [simp]: "strip (dec_int i) = dec_int i"
  by (rule strip_no_space) (use dec_int_no_space in blast)

lemma dec_int_nonempty [simp]: "dec_int i \<noteq> []"
  using str_of_nat_nonempty by (simp add: dec_int_def)

lemma split_sign_dec_int: "split_sign (dec_int i) = (i < 0, str_of_nat (nat \<bar>i\<bar>))"
proof (cases "i < 0")
  case True
  then show ?thesis by (simp add: dec_int_def split_sign_def)
next
  case False
  have "\<forall>c\<in>set (str_of_nat (nat i)). is_digit c" using str_of_nat_digits by blast
  with False show ?thesis by (simp add: dec_int_def split_sign_digits)
qed

lemma int_of_str_dec_int_eq:
  "int_of_str (dec_int i) = (if 4300 < length (str_of_nat (nat \<bar>i\<bar>)) then None else Some i)"
proof -
  let ?s = "str_of_nat (nat \<bar>i\<bar>)"
  have "\<forall>c\<in>set ?s. is_digit c" using str_of_nat_digits by blast
  then have "us_digits False ?s = Some (map digit_val ?s)" using us_digits_digits str_of_nat_nonempty by blast
  then show ?thesis by (simp add: int_of_str_def split_sign_dec_int nat_of_digits_str apply_sign_def)
qed

lemma int_of_str_dec_int: "nat \<bar>i\<bar> < int_limit \<Longrightarrow> int_of_str (dec_int i) = Some i"
  using length_below_limit [of "nat \<bar>i\<bar>"] by (simp add: int_of_str_dec_int_eq)

section \<open>Binary64\<close>

definition pow2 :: "int \<Rightarrow> rat" where
  "pow2 e = (if 0 \<le> e then 2 ^ nat e else 1 / 2 ^ nat (- e))"

fun log2_floor :: "nat \<Rightarrow> nat" where
  "log2_floor n = (if n < 2 then 0 else Suc (log2_floor (n div 2)))"

declare log2_floor.simps [simp del]

definition round_half_even :: "rat \<Rightarrow> int" where
  "round_half_even x = (let f = \<lfloor>x\<rfloor>; r = x - of_int f in
     if r < 1 / 2 then f else if 1 / 2 < r then f + 1
     else if even f then f else f + 1)"

text \<open>
  The exponent of the last place: 52 below the exponent of the leading bit, and never
  below the subnormal limit.
\<close>

definition ulp_exp :: "rat \<Rightarrow> int" where
  "ulp_exp x = (let (p, q) = quotient_of \<bar>x\<bar>;
                    e0 = int (log2_floor (nat p)) - int (log2_floor (nat q)) - 52;
                    e1 = (if \<bar>x\<bar> < pow2 (e0 + 52) then e0 - 1 else e0)
                in max e1 (- 1074))"

definition to_binary64 :: "rat \<Rightarrow> pyfloat" where
  "to_binary64 x = (if x = 0 then Fin 0 else
     let e = ulp_exp x; y = of_int (round_half_even (x / pow2 e)) * pow2 e
     in if 2 ^ 1024 \<le> y then PInf else if y \<le> - (2 ^ 1024) then NInf else Fin y)"

lemma log2_floor_le: "0 < n \<Longrightarrow> 2 ^ log2_floor n \<le> n"
proof (induction n rule: log2_floor.induct)
  case (1 n)
  show ?case
  proof (cases "n < 2")
    case True
    with "1.prems" show ?thesis by (simp add: log2_floor.simps [of n])
  next
    case False
    with "1.IH" have "2 ^ log2_floor (n div 2) \<le> n div 2" by simp
    then have "2 * 2 ^ log2_floor (n div 2) \<le> n" by linarith
    with False show ?thesis by (simp add: log2_floor.simps [of n])
  qed
qed

lemma round_half_even_of_int [simp]: "round_half_even (of_int i) = i"
  by (simp add: round_half_even_def)

lemma ulp_exp_int_le:
  assumes "i \<noteq> 0" and "\<bar>i\<bar> < 2 ^ 53"
  shows "ulp_exp (of_int i) \<le> 0"
proof -
  have q: "quotient_of \<bar>of_int i\<bar> = (\<bar>i\<bar>, 1)"
    using quotient_of_int [of "\<bar>i\<bar>"] by (simp add: Rat.of_int_def)
  have "2 ^ log2_floor (nat \<bar>i\<bar>) \<le> nat \<bar>i\<bar>"
    by (rule log2_floor_le) (use assms(1) in simp)
  then have "int (2 ^ log2_floor (nat \<bar>i\<bar>)) \<le> \<bar>i\<bar>" by linarith
  with assms(2) have "int (2 ^ log2_floor (nat \<bar>i\<bar>)) < 2 ^ 53" by (rule le_less_trans [rotated])
  then have "(2::int) ^ log2_floor (nat \<bar>i\<bar>) < 2 ^ 53" by simp
  then have "log2_floor (nat \<bar>i\<bar>) < 53"
    by (rule power_less_imp_less_exp [rotated]) simp
  moreover have "log2_floor 1 = 0" by (simp add: log2_floor.simps)
  ultimately show ?thesis by (simp add: ulp_exp_def q Let_def)
qed

text \<open>Integers of at most 53 bits are kept exactly.\<close>

lemma to_binary64_int:
  assumes "\<bar>i\<bar> < 2 ^ 53"
  shows "to_binary64 (of_int i) = Fin (of_int i)"
proof (cases "i = 0")
  case True
  then show ?thesis by (simp add: to_binary64_def)
next
  case False
  define e where "e = ulp_exp (of_int i)"
  have e: "e \<le> 0" using ulp_exp_int_le [of i] False assms by (simp add: e_def)
  have p: "pow2 e = 1 / 2 ^ nat (- e)"
    using e by (cases "e = 0") (auto simp: pow2_def)
  have "of_int i / pow2 e = (of_int (i * 2 ^ nat (- e)) :: rat)"
    by (simp add: p)
  then have "round_half_even (of_int i / pow2 e) = i * 2 ^ nat (- e)"
    by (metis round_half_even_of_int)
  then have y: "of_int (round_half_even (of_int i / pow2 e)) * pow2 e = (of_int i :: rat)"
    by (simp add: p)
  have "(of_int \<bar>i\<bar> :: rat) < of_int (2 ^ 53)"
    using assms by (simp only: of_int_less_iff)
  then have "\<bar>of_int i :: rat\<bar> < 2 ^ 53" by simp
  then have "\<not> (2 ^ 1024 \<le> (of_int i :: rat)) \<and> \<not> (of_int i :: rat) \<le> - (2 ^ 1024)"
    by (auto simp: abs_less_iff)
  with False y show ?thesis by (simp add: to_binary64_def Let_def e_def [symmetric])
qed

section \<open>float()\<close>

text \<open>
  A decimal literal: digits, a point and digits, an exponent. \<open>split_at\<close> cuts at the
  first character that satisfies the test.
\<close>

definition split_at :: "(char \<Rightarrow> bool) \<Rightarrow> string \<Rightarrow> string \<times> string option" where
  "split_at p s = (let a = takeWhile (\<lambda>c. \<not> p c) s; b = dropWhile (\<lambda>c. \<not> p c) s
                   in (a, case b of [] \<Rightarrow> None | _ # r \<Rightarrow> Some r))"

definition opt_digits :: "string \<Rightarrow> nat list option" where
  "opt_digits s = (if s = [] then Some [] else us_digits False s)"

definition decimal_of_str :: "string \<Rightarrow> rat option" where
  "decimal_of_str s =
     (let (mant, ex) = split_at (\<lambda>c. c = CHR ''e'' \<or> c = CHR ''E'') s;
          (ip, fp) = split_at (\<lambda>c. c = CHR ''.'') mant
      in case (opt_digits ip, opt_digits (case fp of None \<Rightarrow> [] | Some f \<Rightarrow> f),
               (case ex of None \<Rightarrow> Some 0
                | Some x \<Rightarrow> (let (neg, t) = split_sign x in
                    map_option (\<lambda>ds. apply_sign neg (int (nat_of_digits 0 ds)))
                      (us_digits False t)))) of
           (Some ids, Some fds, Some e) \<Rightarrow>
             if ids @ fds = [] then None
             else Some (of_nat (nat_of_digits 0 (ids @ fds)) *
                        (let k = e - int (length fds) in
                         if 0 \<le> k then 10 ^ nat k else 1 / 10 ^ nat (- k)))
         | _ \<Rightarrow> None)"

fun float_neg :: "pyfloat \<Rightarrow> pyfloat" where
  "float_neg (Fin r) = Fin (- r)"
| "float_neg PInf = NInf"
| "float_neg NInf = PInf"
| "float_neg NaN = NaN"

definition float_of_str :: "string \<Rightarrow> pyfloat option" where
  "float_of_str s =
     (let (neg, t) = split_sign (strip s); u = lower t;
          sg = (\<lambda>f. if neg then float_neg f else f)
      in if u = ''inf'' \<or> u = ''infinity'' then Some (sg PInf)
         else if u = ''nan'' then Some NaN
         else map_option (\<lambda>r. sg (to_binary64 r)) (decimal_of_str t))"

text \<open>
  \<^verbatim>\<open>float(v)\<close>. An integer too large for a double raises \<^verbatim>\<open>OverflowError\<close>, where a
  literal in a string becomes an infinity.
\<close>

fun py_float :: "pyval \<Rightarrow> pyfloat res" where
  "py_float (VBool b) = Inr (Fin (if b then 1 else 0))"
| "py_float (VInt i) = (case to_binary64 (of_int i) of
                          Fin r \<Rightarrow> Inr (Fin r) | _ \<Rightarrow> Inl OverflowError)"
| "py_float (VFloat f) = Inr f"
| "py_float (VStr s) = (case float_of_str s of None \<Rightarrow> Inl ValueError | Some f \<Rightarrow> Inr f)"
| "py_float _ = Inl TypeError"

text \<open>\<^verbatim>\<open>int(v)\<close>: truncation of a float, and the two exceptions for values that have none.\<close>

definition trunc :: "rat \<Rightarrow> int" where
  "trunc r = (if 0 \<le> r then \<lfloor>r\<rfloor> else \<lceil>r\<rceil>)"

fun py_int :: "pyval \<Rightarrow> int res" where
  "py_int (VBool b) = Inr (if b then 1 else 0)"
| "py_int (VInt i) = Inr i"
| "py_int (VFloat (Fin r)) = Inr (trunc r)"
| "py_int (VFloat NaN) = Inl ValueError"
| "py_int (VFloat _) = Inl OverflowError"
| "py_int (VStr s) = (case int_of_str s of None \<Rightarrow> Inl ValueError | Some i \<Rightarrow> Inr i)"
| "py_int _ = Inl TypeError"

subsection \<open>Comparison of floats\<close>

fun float_abs :: "pyfloat \<Rightarrow> pyfloat" where
  "float_abs (Fin r) = Fin \<bar>r\<bar>"
| "float_abs NaN = NaN"
| "float_abs _ = PInf"

text \<open>\<^verbatim>\<open>a > b\<close>; every comparison with NaN is false.\<close>

fun float_gt :: "pyfloat \<Rightarrow> pyfloat \<Rightarrow> bool" where
  "float_gt NaN _ = False"
| "float_gt _ NaN = False"
| "float_gt (Fin a) (Fin b) = (a > b)"
| "float_gt PInf b = (b \<noteq> PInf)"
| "float_gt (Fin _) b = (b = NInf)"
| "float_gt NInf _ = False"

lemma float_gt_NaN_right [simp]: "float_gt a NaN = False"
  by (cases a) auto

end
