(* ===== verification/Py_Utf8.thy ===== *)
theory Py_Utf8
  imports Py_Builtins
begin

text \<open>
  Python's \<^verbatim>\<open>str.encode\<close> and \<^verbatim>\<open>bytes.decode\<close> in UTF-8, for the code points 0 to 255 of the model's strings:
  two bytes from 128 on. Decoding what was encoded gives the string back.
\<close>

lemma code_less: "code c < 256"
  by (metis of_char_mod_256 mod_less_divisor zero_less_numeral)

lemma code_char: "n < 256 \<Longrightarrow> code (char_of n) = n"
  by (simp add: of_char_of)

definition utf8_char :: "char \<Rightarrow> byte list" where
  "utf8_char c = (if code c < 128 then [of_nat (code c)] else [of_nat (192 + code c div 64), of_nat (128 + code c mod 64)])"

definition utf8_encode :: "string \<Rightarrow> byte list" where
  "utf8_encode s = concat (map utf8_char s)"

fun utf8_read :: "byte list \<Rightarrow> string option" where
  "utf8_read [] = Some []"
| "utf8_read (a # bs) = (if unat a < 128 then map_option (Cons (char_of (unat a))) (utf8_read bs)
     else (case bs of
        b # r \<Rightarrow> if unat a \<in> {194, 195} \<and> 128 \<le> unat b \<and> unat b < 192
          then map_option (Cons (char_of ((unat a - 192) * 64 + (unat b - 128)))) (utf8_read r) else None
      | [] \<Rightarrow> None))"

text \<open>\<^verbatim>\<open>bytes.decode()\<close>.\<close>

definition decode_utf8 :: "byte list \<Rightarrow> string res" where
  "decode_utf8 bs = (case utf8_read bs of Some s \<Rightarrow> Inr s | None \<Rightarrow> Inl UnicodeDecodeError)"

lemma utf8_read_char: "utf8_read (utf8_char c @ bs) = map_option (Cons c) (utf8_read bs)"
proof (cases "code c < 128")
  case True
  then show ?thesis by (simp add: utf8_char_def unat_of_nat)
next
  case False
  have c: "code c < 256" by (rule code_less)
  let ?a = "192 + code c div 64" and ?b = "128 + code c mod 64"
  have "2 \<le> code c div 64" "code c div 64 < 4" using False c by (simp_all add: less_eq_div_iff_mult_less_eq less_mult_imp_div_less)
  then have "code c div 64 \<in> {2, 3}" by auto
  moreover have "code c mod 64 < 64" by simp
  ultimately have "?a < 256" "?b < 256" "?a \<in> {194, 195}" by (auto simp del: mod_less_divisor)
  then have u: "unat (of_nat ?a :: byte) = ?a" "unat (of_nat ?b :: byte) = ?b" "?a \<in> {194, 195}"
    by (simp_all only: unat_of_nat mod_less len_of_numeral_defs power_numeral) simp_all
  have "(?a - 192) * 64 + (?b - 128) = code c" by simp
  with u False show ?thesis by (simp add: utf8_char_def)
qed

lemma utf8_read_back: "utf8_read (concat (map utf8_char s)) = Some s"
  by (induction s) (simp_all add: utf8_read_char)

lemma utf8_decode_encode [simp]: "decode_utf8 (utf8_encode s) = Inr s"
  by (simp add: decode_utf8_def utf8_encode_def utf8_read_back)

end
