(* ===== verification/Py_Repr.thy ===== *)
theory Py_Repr
  imports Py_Builtins
begin

text \<open>
  \<^verbatim>\<open>repr\<close> of a float: the shortest decimal that is read back as the same binary64 number, the
  nearest one when there are two, in the format of Python. Seventeen digits are always enough
  (proved in \<open>Binary64\<close>), so the search stops there. The sign of a zero is not kept.
\<close>

definition pow10 :: "int \<Rightarrow> rat" where
  "pow10 e = (if 0 \<le> e then 10 ^ nat e else 1 / 10 ^ nat (- e))"

text \<open>The decimal exponent: the greatest power of ten that is not above the number.\<close>

definition dec_exp :: "rat \<Rightarrow> int" where
  "dec_exp r = (case quotient_of r of (n, d) \<Rightarrow>
     let k = int (length (str_of_nat (nat n))) - int (length (str_of_nat (nat d))) in
     if pow10 k \<le> r then k else k - 1)"

definition unit_at :: "nat \<Rightarrow> rat \<Rightarrow> rat" where
  "unit_at k r = pow10 (dec_exp r - int k + 1)"

definition digits_at :: "rat \<Rightarrow> nat \<Rightarrow> int option" where
  "digits_at r k =
    (let u = unit_at k r; lo = \<lfloor>r / u\<rfloor>; ok = (\<lambda>m. to_binary64 (of_int m * u) = Fin r);
         below = r - of_int lo * u; above = of_int (lo + 1) * u - r in
     if ok lo \<and> ok (lo + 1)
     then Some (if below < above \<or> (below = above \<and> even lo) then lo else lo + 1)
     else if ok lo then Some lo else if ok (lo + 1) then Some (lo + 1) else None)"

fun first_digits :: "rat \<Rightarrow> nat list \<Rightarrow> (int \<times> nat) option" where
  "first_digits r [] = None"
| "first_digits r (k # ks) = (case digits_at r k of Some m \<Rightarrow> Some (m, k) | None \<Rightarrow> first_digits r ks)"

definition strip_zeros :: "string \<Rightarrow> string" where
  "strip_zeros s = rev (dropWhile (\<lambda>c. c = CHR ''0'') (rev s))"

text \<open>The digits, and where the decimal point is in front of them.\<close>

definition decimal_of :: "rat \<Rightarrow> string \<times> int" where
  "decimal_of r = (case first_digits r [1..<18] of
     None \<Rightarrow> ([], 0)
   | Some (m, k) \<Rightarrow> (strip_zeros (dec_int m), int (length (dec_int m)) + dec_exp r - int k + 1))"

definition format_decimal :: "string \<Rightarrow> int \<Rightarrow> string" where
  "format_decimal ds pt =
    (if -4 < pt \<and> pt \<le> 16
     then (if pt \<le> 0 then ''0.'' @ replicate (nat (- pt)) (CHR ''0'') @ ds
           else if int (length ds) \<le> pt then ds @ replicate (nat pt - length ds) (CHR ''0'') @ ''.0''
           else take (nat pt) ds @ ''.'' @ drop (nat pt) ds)
     else let e = pt - 1; n = str_of_nat (nat \<bar>e\<bar>) in
       take 1 ds @ (if length ds = 1 then [] else CHR ''.'' # drop 1 ds) @ ''e'' @ (if e < 0 then ''-'' else ''+'') @
       (if length n = 1 then ''0'' else []) @ n)"

fun float_repr :: "pyfloat \<Rightarrow> string" where
  "float_repr NaN = ''nan''"
| "float_repr PInf = ''inf''"
| "float_repr NInf = ''-inf''"
| "float_repr (Fin r) = (if r = 0 then ''0.0''
     else (if r < 0 then ''-'' else []) @ (case decimal_of \<bar>r\<bar> of (ds, pt) \<Rightarrow> format_decimal ds pt))"

text \<open>\<^verbatim>\<open>str\<close> of a string or a number; other values do not get there.\<close>

fun scalar_str :: "pyval \<Rightarrow> string" where
  "scalar_str (VStr s) = s"
| "scalar_str (VInt i) = dec_int i"
| "scalar_str (VFloat f) = float_repr f"
| "scalar_str _ = []"

end
