(* ===== verification/Py_Path.thy ===== *)
theory Py_Path
  imports Py_Builtins
begin

text \<open>
  Paths as Python's \<^verbatim>\<open>posixpath\<close> builds them: \<^verbatim>\<open>join\<close>, \<^verbatim>\<open>normpath\<close> and \<^verbatim>\<open>abspath\<close>. The box
  checks paths that arrive with a request by normalising them and testing for the prefix of a
  directory. Shown: what passes this test is the directory followed by at least one plain
  component, none of them \<^verbatim>\<open>.\<close>, \<^verbatim>\<open>..\<close> or empty.
\<close>

section \<open>Components\<close>

fun split_on :: "char \<Rightarrow> string \<Rightarrow> string list" where
  "split_on sep [] = [[]]"
| "split_on sep (c # cs) = (if c = sep then [] # split_on sep cs
     else (case split_on sep cs of [] \<Rightarrow> [[c]] | w # ws \<Rightarrow> (c # w) # ws))"

fun join_on :: "char \<Rightarrow> string list \<Rightarrow> string" where
  "join_on sep [] = []"
| "join_on sep [w] = w"
| "join_on sep (w # ws) = w @ sep # join_on sep ws"

abbreviation slash :: char where "slash \<equiv> CHR ''/''"

definition plain :: "string \<Rightarrow> bool" where
  "plain w = (w \<noteq> [] \<and> w \<noteq> ''.'' \<and> w \<noteq> ''..'' \<and> slash \<notin> set w)"

lemma split_on_nonempty [simp]: "split_on sep s \<noteq> []"
  by (induction s) (auto split: list.splits)

lemma split_on_no_sep: "w \<in> set (split_on sep s) \<Longrightarrow> sep \<notin> set w"
  by (induction s arbitrary: w) (auto split: list.splits if_splits)

lemma join_split [simp]: "join_on sep (split_on sep s) = s"
proof (induction s)
  case (Cons c s)
  then show ?case by (cases "split_on sep s") (auto, metis join_on.simps(2,3) neq_Nil_conv append_Cons)
qed simp

lemma split_on_append_sep: "sep \<notin> set w \<Longrightarrow> split_on sep (w @ sep # s) = w # split_on sep s"
  by (induction w) auto

lemma split_on_word: "sep \<notin> set w \<Longrightarrow> split_on sep w = [w]"
  by (induction w) auto

lemma split_join: "ws \<noteq> [] \<Longrightarrow> \<forall>w\<in>set ws. sep \<notin> set w \<Longrightarrow> split_on sep (join_on sep ws) = ws"
  by (induction sep ws rule: join_on.induct) (auto simp: split_on_word split_on_append_sep)

lemma join_on_append: "xs \<noteq> [] \<Longrightarrow> ys \<noteq> [] \<Longrightarrow> join_on sep (xs @ ys) = join_on sep xs @ sep # join_on sep ys"
proof (induction sep xs rule: join_on.induct)
  case (2 sep w)
  then show ?case by (cases ys) simp_all
qed simp_all

section \<open>The functions\<close>

definition path_join :: "string \<Rightarrow> string \<Rightarrow> string" where
  "path_join a b = (if take 1 b = [slash] then b
     else if a = [] \<or> last a = slash then a @ b else a @ slash # b)"

definition keep_comp :: "bool \<Rightarrow> string list \<Rightarrow> string \<Rightarrow> string list" where
  "keep_comp rooted new part =
    (if part = [] \<or> part = ''.'' then new
     else if part \<noteq> ''..'' \<or> (\<not> rooted \<and> new = []) \<or> (new \<noteq> [] \<and> last new = ''..'') then new @ [part]
     else butlast new)"

definition norm_comps :: "bool \<Rightarrow> string list \<Rightarrow> string list" where
  "norm_comps rooted comps = foldl (keep_comp rooted) [] comps"

definition initial_slashes :: "string \<Rightarrow> nat" where
  "initial_slashes p = (if take 1 p \<noteq> [slash] then 0
     else if take 2 p = [slash, slash] \<and> take 3 p \<noteq> [slash, slash, slash] then 2 else 1)"

definition normpath :: "string \<Rightarrow> string" where
  "normpath p = (if p = [] then ''.''
     else let q = replicate (initial_slashes p) slash @ join_on slash (norm_comps (0 < initial_slashes p) (split_on slash p)) in
       if q = [] then ''.'' else q)"

definition abspath :: "string \<Rightarrow> string \<Rightarrow> string" where
  "abspath cwd p = normpath (if take 1 p = [slash] then p else path_join cwd p)"

text \<open>\<^verbatim>\<open>path.startswith(root + os.sep)\<close>.\<close>

definition inside :: "string \<Rightarrow> string \<Rightarrow> bool" where
  "inside dir p = startswith p (dir @ [slash])"

section \<open>Normal paths\<close>

definition rooted_at :: "string list \<Rightarrow> string" where
  "rooted_at comps = slash # join_on slash comps"

lemma keep_comp_plain:
  assumes "list_all plain new" "slash \<notin> set c"
  shows "list_all plain (keep_comp True new c)"
proof -
  from assms(1) have "new \<noteq> [] \<Longrightarrow> last new \<noteq> ''..''" by (metis last_in_set list_all_iff plain_def)
  moreover have "list_all plain (butlast new)" using assms(1) by (metis in_set_butlastD list_all_iff)
  moreover from assms(2) have "plain c \<or> c = [] \<or> c = ''.'' \<or> c = ''..''" by (auto simp: plain_def)
  ultimately show ?thesis using assms(1) by (auto simp: keep_comp_def)
qed

lemma norm_comps_rooted: "\<forall>c\<in>set comps. slash \<notin> set c \<Longrightarrow> list_all plain (norm_comps True comps)"
  unfolding norm_comps_def by (induction comps rule: rev_induct) (simp_all add: keep_comp_plain)

text \<open>Plain components are kept as they are.\<close>

lemma norm_comps_plain: "list_all plain cs \<Longrightarrow> foldl (keep_comp True) as cs = as @ cs"
  by (induction cs arbitrary: as) (auto simp: keep_comp_def plain_def)

lemma normpath_rooted:
  assumes "initial_slashes p = 1"
  shows "\<exists>cs. list_all plain cs \<and> normpath p = rooted_at cs \<and> cs = norm_comps True (split_on slash p)"
proof -
  from assms have "p \<noteq> []" by (auto simp: initial_slashes_def)
  with assms have "normpath p = rooted_at (norm_comps True (split_on slash p))"
    by (simp add: normpath_def rooted_at_def)
  moreover have "list_all plain (norm_comps True (split_on slash p))"
    using norm_comps_rooted split_on_no_sep by blast
  ultimately show ?thesis by blast
qed

lemma split_on_join_append:
  "ws \<noteq> [] \<Longrightarrow> \<forall>w\<in>set ws. sep \<notin> set w \<Longrightarrow> split_on sep (join_on sep ws @ sep # t) = ws @ split_on sep t"
  by (induction sep ws rule: join_on.induct) (auto simp: split_on_append_sep)

lemma plain_no_slash: "list_all plain cs \<Longrightarrow> \<forall>c\<in>set cs. slash \<notin> set c"
  by (auto simp: list_all_iff plain_def)

lemma inside_iff: "inside dir q \<longleftrightarrow> (\<exists>t. q = dir @ slash # t)"
proof
  assume "inside dir q"
  then have "take (length (dir @ [slash])) q @ drop (length (dir @ [slash])) q = (dir @ [slash]) @ drop (length (dir @ [slash])) q"
    by (simp only: inside_def startswith_def)
  then have "q = (dir @ [slash]) @ drop (length (dir @ [slash])) q" by (simp only: append_take_drop_id)
  then show "\<exists>t. q = dir @ slash # t" by (metis append.assoc append_Cons append_Nil)
qed (auto simp: inside_def startswith_def)

lemma join_hd_plain:
  assumes "cs \<noteq> []" "list_all plain cs"
  obtains c t where "join_on slash cs = c # t" "c \<noteq> slash"
proof -
  from assms obtain w ws where w: "cs = w # ws" "plain w" by (cases cs) auto
  then obtain c u where "w = c # u" "c \<noteq> slash" by (cases w) (auto simp: plain_def)
  with w that show ?thesis by (cases ws) auto
qed

text \<open>A path without a leading slash stays one when it is normalised.\<close>

lemma keep_comp_words:
  assumes "\<forall>c\<in>set new. c \<noteq> [] \<and> slash \<notin> set c" "slash \<notin> set w"
  shows "\<forall>c\<in>set (keep_comp r new w). c \<noteq> [] \<and> slash \<notin> set c"
proof -
  have "set (keep_comp r new w) \<subseteq> set new \<union> (if w = [] then {} else {w})"
    by (auto simp: keep_comp_def dest: in_set_butlastD split: if_splits)
  with assms show ?thesis by (auto split: if_splits)
qed

lemma norm_comps_words:
  "\<forall>c\<in>set comps. slash \<notin> set c \<Longrightarrow> \<forall>c\<in>set (norm_comps r comps). c \<noteq> [] \<and> slash \<notin> set c"
  unfolding norm_comps_def
proof (induction comps rule: rev_induct)
  case (snoc w comps)
  then have "\<forall>c\<in>set (foldl (keep_comp r) [] comps). c \<noteq> [] \<and> slash \<notin> set c" "slash \<notin> set w" by simp_all
  from keep_comp_words [OF this] show ?case by (simp only: foldl_append foldl.simps)
qed simp

lemma join_hd_words: "\<forall>c\<in>set cs. c \<noteq> [] \<and> slash \<notin> set c \<Longrightarrow> take 1 (join_on slash cs) \<noteq> [slash]"
  by (cases "(slash, cs)" rule: join_on.cases) (auto simp: neq_Nil_conv)

lemma normpath_relative: "initial_slashes p = 0 \<Longrightarrow> take 1 (normpath p) \<noteq> [slash]"
  using join_hd_words [OF norm_comps_words [of "split_on slash p" False]] split_on_no_sep [of _ slash p]
  by (simp add: normpath_def Let_def)

lemma normpath_double: "initial_slashes p = 2 \<Longrightarrow> take 2 (normpath p) = [slash, slash]"
  by (cases "p = []") (simp_all add: normpath_def Let_def numeral_2_eq_2 initial_slashes_def)

lemma initial_slashes_cases: "initial_slashes p \<in> {0, 1, 2}"
  by (simp add: initial_slashes_def)

text \<open>What the containment test accepts.\<close>

lemma inside_normpath:
  assumes "rs \<noteq> []" "list_all plain rs" "inside (rooted_at rs) (normpath p)"
  shows "\<exists>cs. cs \<noteq> [] \<and> list_all plain cs \<and> normpath p = rooted_at (rs @ cs)"
proof -
  from assms(3) obtain u where u: "normpath p = rooted_at rs @ slash # u" by (auto simp: inside_iff)
  from join_hd_plain [OF assms(1,2)] obtain c v where "join_on slash rs = c # v" "c \<noteq> slash" by blast
  with u have "take 1 (normpath p) = [slash]" "take 2 (normpath p) \<noteq> [slash, slash]"
    by (simp_all add: rooted_at_def numeral_2_eq_2)
  then have "initial_slashes p = 1"
    using normpath_relative [of p] normpath_double [of p] initial_slashes_cases [of p] by auto
  then obtain cs where cs: "list_all plain cs" "normpath p = rooted_at cs" using normpath_rooted by blast
  with assms(3) obtain t where t: "join_on slash cs = join_on slash rs @ slash # t"
    by (auto simp: inside_iff rooted_at_def)
  then have "cs \<noteq> []" by auto
  then have "cs = split_on slash (join_on slash cs)" using split_join plain_no_slash [OF cs(1)] by metis
  also have "\<dots> = rs @ split_on slash t" unfolding t using split_on_join_append assms(1) plain_no_slash [OF assms(2)] by blast
  finally have "cs = rs @ split_on slash t" .
  with cs show ?thesis by (intro exI [of _ "split_on slash t"]) simp
qed

lemma join_last_plain: "cs \<noteq> [] \<Longrightarrow> list_all plain cs \<Longrightarrow> join_on slash cs \<noteq> [] \<and> last (join_on slash cs) \<noteq> slash"
proof (induction slash cs rule: join_on.induct)
  case (2 w)
  then show ?case by (auto simp: plain_def dest: last_in_set)
qed auto

lemma path_join_plain:
  assumes "rs \<noteq> []" "list_all plain rs" "plain w"
  shows "path_join (rooted_at rs) w = rooted_at (rs @ [w])"
proof -
  from assms(3) have "take 1 w \<noteq> [slash]" by (cases w) (auto simp: plain_def)
  with join_last_plain [OF assms(1,2)] assms(1) show ?thesis
    by (simp add: path_join_def rooted_at_def join_on_append)
qed

lemma normpath_plain:
  assumes "cs \<noteq> []" "list_all plain cs"
  shows "normpath (rooted_at cs) = rooted_at cs"
proof -
  obtain c t where j: "join_on slash cs = c # t" "c \<noteq> slash" using join_hd_plain [OF assms] by blast
  then have "initial_slashes (rooted_at cs) = 1" by (simp add: initial_slashes_def rooted_at_def numeral_2_eq_2)
  moreover have "split_on slash (rooted_at cs) = [] # cs"
    using split_join [OF assms(1) plain_no_slash [OF assms(2)]] by (simp add: rooted_at_def)
  ultimately show ?thesis
    using norm_comps_plain [OF assms(2), of "[]"] by (simp add: normpath_def norm_comps_def rooted_at_def keep_comp_def)
qed

lemma inside_plain: "rs \<noteq> [] \<Longrightarrow> inside (rooted_at rs) (rooted_at (rs @ [w]))"
  by (auto simp: inside_iff rooted_at_def join_on_append)

end
