(* ===== verification/Scope_Migration.thy ===== *)
theory Scope_Migration
  imports Py_Builtins
begin

text \<open>
  The conversion of old oscilloscope nets, \<^verbatim>\<open>box/lager/nets/scope_migration.py\<close>: a saved
  net with role \<^verbatim>\<open>scope\<close> and a pin used to be a channel; it becomes a
  \<^verbatim>\<open>scope-channel\<close>, and every unit gets a pinless net of its own. Shown: the result needs
  no second conversion, every record is kept in place with at most its role changed, every
  channel has an instrument net of its unit, and the added names are new.
\<close>

section \<open>Records\<close>

definition SCOPE_ROLE :: string where "SCOPE_ROLE = ''scope''"

definition SCOPE_CHANNEL_ROLE :: string where "SCOPE_CHANNEL_ROLE = ''scope-channel''"

text \<open>\<^verbatim>\<open>rec.get(key)\<close> on any value: only an object has it.\<close>

definition get_key :: "pyval \<Rightarrow> string \<Rightarrow> pyval res" where
  "get_key v k = (case v of VDict d \<Rightarrow> Inr (dict_get d k) | _ \<Rightarrow> Inl AttributeError)"

text \<open>\<^verbatim>\<open>_pin_value\<close>; \<open>VNone\<close> is the answer \<^verbatim>\<open>None\<close>.\<close>

definition pin_value :: "pyval \<Rightarrow> pyval res" where
  "pin_value raw = (if raw = VNone \<or> raw = VStr [] then Inr VNone
     else (case py_int raw of
        Inr i \<Rightarrow> Inr (if i = 0 then VNone else raw)
      | Inl TypeError \<Rightarrow> Inr raw
      | Inl ValueError \<Rightarrow> Inr raw
      | Inl e \<Rightarrow> Inl e))"

definition mapping_pin :: "pyval \<Rightarrow> pyval res" where
  "mapping_pin m = res_bind (get_key m ''pin'') (\<lambda>p. res_bind (pin_value p) (\<lambda>found.
     if found \<noteq> VNone then Inr found
     else res_bind (get_key m ''channel'') pin_value))"

fun mappings_pin :: "pyval list \<Rightarrow> pyval res" where
  "mappings_pin [] = Inr VNone"
| "mappings_pin (m # ms) = res_bind (mapping_pin m) (\<lambda>found. if found \<noteq> VNone then Inr found else mappings_pin ms)"

text \<open>What \<^verbatim>\<open>for mapping in v or []\<close> goes through.\<close>

definition iter_or_empty :: "pyval \<Rightarrow> pyval list res" where
  "iter_or_empty v = (if \<not> truthy v then Inr []
     else (case v of
        VList xs \<Rightarrow> Inr xs
      | VStr s \<Rightarrow> Inr (map (\<lambda>c. VStr [c]) s)
      | VDict d \<Rightarrow> Inr (map (VStr \<circ> fst) d)
      | _ \<Rightarrow> Inl TypeError))"

definition pin_of :: "pyval \<Rightarrow> pyval res" where
  "pin_of rec = res_bind (get_key rec ''pin'') (\<lambda>p. res_bind (pin_value p) (\<lambda>direct.
     if direct \<noteq> VNone then Inr direct
     else res_bind (get_key rec ''mappings'') (\<lambda>ms. res_bind (iter_or_empty ms) mappings_pin)))"

text \<open>\<^verbatim>\<open>(v or "").lower()\<close>.\<close>

definition lower_or_empty :: "pyval \<Rightarrow> string res" where
  "lower_or_empty v = (if \<not> truthy v then Inr []
     else (case v of VStr s \<Rightarrow> Inr (lower s) | _ \<Rightarrow> Inl AttributeError))"

definition unit_of :: "pyval \<Rightarrow> (string \<times> string) res" where
  "unit_of rec = res_bind (get_key rec ''instrument'') (\<lambda>i. res_bind (lower_or_empty i) (\<lambda>inst.
     res_bind (get_key rec ''address'') (\<lambda>a. res_bind (lower_or_empty a) (\<lambda>addr. Inr (inst, addr)))))"

section \<open>Names\<close>

definition is_letter :: "char \<Rightarrow> bool" where
  "is_letter c = (65 \<le> code c \<and> code c \<le> 90 \<or> 97 \<le> code c \<and> code c \<le> 122)"

definition base_name :: "string \<Rightarrow> string" where
  "base_name instrument = (let word = takeWhile is_letter (dropWhile (Not \<circ> is_letter) instrument) in
     if word = [] then ''scope'' else lower word)"

definition candidates :: "string \<Rightarrow> string list" where
  "candidates base = map (\<lambda>i. base @ str_of_nat i) [1..<1000]"

definition unique_name :: "string \<Rightarrow> pyval list \<Rightarrow> string" where
  "unique_name base taken = (case find (\<lambda>c. VStr c \<notin> set taken) (candidates base) of
     Some c \<Rightarrow> c | None \<Rightarrow> base)"

definition opt_field :: "string \<Rightarrow> pyval \<Rightarrow> dict" where
  "opt_field k v = (if truthy v then [(k, v)] else [])"

definition instrument_net :: "dict \<Rightarrow> string \<Rightarrow> dict" where
  "instrument_net rec name =
     [(''name'', VStr name), (''role'', VStr SCOPE_ROLE), (''instrument'', py_or (dict_get rec ''instrument'') (VStr []))] @
     opt_field ''address'' (dict_get rec ''address'') @ opt_field ''unique_id'' (dict_get rec ''unique_id'') @
     [(''mappings'', VList [VDict ([(''net'', VStr name), (''pin'', VInt 0), (''location'', VStr ''0'')] @
         opt_field ''device_override'' (dict_get rec ''address''))]),
      (''scope_points'', VList [VList [VInt 0, VStr ''0'']])]"

section \<open>Conversion\<close>

definition is_old_channel :: "pyval \<Rightarrow> bool res" where
  "is_old_channel rec = res_bind (get_key rec ''role'') (\<lambda>r.
     if \<not> py_eq r (VStr SCOPE_ROLE) then Inr False
     else res_bind (pin_of rec) (\<lambda>p. Inr (p \<noteq> VNone)))"

fun needs_migration :: "pyval list \<Rightarrow> bool res" where
  "needs_migration [] = Inr False"
| "needs_migration (r # rs) = res_bind (is_old_channel r) (\<lambda>b. if b then Inr True else needs_migration rs)"

text \<open>A name in the set \<^verbatim>\<open>taken\<close> has to be hashable.\<close>

definition name_of :: "pyval \<Rightarrow> pyval res" where
  "name_of rec = res_bind (get_key rec ''name'') (\<lambda>n. case n of
     VList _ \<Rightarrow> Inl TypeError | VDict _ \<Rightarrow> Inl TypeError | _ \<Rightarrow> Inr n)"

text \<open>The units of the records that are instruments already.\<close>

fun have_instrument :: "pyval list \<Rightarrow> (string \<times> string) list res" where
  "have_instrument [] = Inr []"
| "have_instrument (r # rs) = res_bind (get_key r ''role'') (\<lambda>role.
     if \<not> py_eq role (VStr SCOPE_ROLE) then have_instrument rs
     else res_bind (pin_of r) (\<lambda>p.
       if p \<noteq> VNone then have_instrument rs
       else res_bind (unit_of r) (\<lambda>u. res_bind (have_instrument rs) (\<lambda>us. Inr (u # us)))))"

definition as_channel :: "dict \<Rightarrow> dict" where
  "as_channel rec = dict_set rec ''role'' (VStr SCOPE_CHANNEL_ROLE)"

text \<open>The loop: records done, instrument nets added, with the names and units taken so far.\<close>

fun migrate_loop :: "pyval list \<Rightarrow> (string \<times> string) list \<Rightarrow> pyval list \<Rightarrow> (pyval list \<times> pyval list) res" where
  "migrate_loop taken have [] = Inr ([], [])"
| "migrate_loop taken have (r # rs) = res_bind (is_old_channel r) (\<lambda>old.
     if \<not> old then res_bind (migrate_loop taken have rs) (\<lambda>(ms, is). Inr (r # ms, is))
     else (case r of
        VDict d \<Rightarrow> res_bind (unit_of r) (\<lambda>u.
          if u \<in> set have
          then res_bind (migrate_loop taken have rs) (\<lambda>(ms, is). Inr (VDict (as_channel d) # ms, is))
          else (let name = unique_name (base_name (case dict_get d ''instrument'' of VStr s \<Rightarrow> s | _ \<Rightarrow> [])) taken
            in res_bind (migrate_loop (VStr name # taken) (u # have) rs) (\<lambda>(ms, is).
                 Inr (VDict (as_channel d) # ms, VDict (instrument_net d name) # is))))
      | _ \<Rightarrow> Inl AttributeError))"

definition migrate :: "pyval list \<Rightarrow> (pyval list \<times> bool) res" where
  "migrate nets = res_bind (needs_migration nets) (\<lambda>needed.
     if \<not> needed then Inr (nets, False)
     else res_bind (res_map name_of nets) (\<lambda>taken. res_bind (have_instrument nets) (\<lambda>have.
       res_bind (migrate_loop taken have nets) (\<lambda>(migrated, new_instruments). Inr (migrated @ new_instruments, True)))))"

section \<open>New names\<close>

lemma unique_name_new:
  assumes "length taken < 999"
  shows "VStr (unique_name base taken) \<notin> set taken"
proof (cases "find (\<lambda>c. VStr c \<notin> set taken) (candidates base)")
  case (Some c)
  then have "VStr c \<notin> set taken" by (auto simp: find_Some_iff)
  with Some show ?thesis by (simp add: unique_name_def)
next
  case None
  have "distinct (candidates base)"
    by (auto simp: candidates_def distinct_map inj_on_def dest: str_of_nat_inj)
  moreover have "length (candidates base) = 999" by (simp add: candidates_def)
  ultimately have "card (set (candidates base)) = 999" by (simp add: distinct_card)
  then have "card (VStr ` set (candidates base)) = 999"
    by (subst card_image) (simp_all add: inj_on_def)
  moreover from None have "VStr ` set (candidates base) \<subseteq> set taken" by (auto simp: find_None_iff)
  ultimately have "999 \<le> length taken" by (metis List.finite_set card_length card_mono le_trans)
  with assms show ?thesis by simp
qed

section \<open>What the conversion leaves\<close>

lemma as_channel_done [simp]: "is_old_channel (VDict (as_channel d)) = Inr False"
  by (simp add: is_old_channel_def get_key_def as_channel_def SCOPE_ROLE_def SCOPE_CHANNEL_ROLE_def)

lemma instrument_net_gets [simp]:
  "dict_get (instrument_net d n) ''name'' = VStr n" "dict_get (instrument_net d n) ''role'' = VStr SCOPE_ROLE"
  "dict_get (instrument_net d n) ''pin'' = VNone"
  "dict_get (instrument_net d n) ''instrument'' = py_or (dict_get d ''instrument'') (VStr [])"
  "dict_get (instrument_net d n) ''address'' = (if truthy (dict_get d ''address'') then dict_get d ''address'' else VNone)"
  "dict_get (instrument_net d n) ''mappings'' = VList [VDict ([(''net'', VStr n), (''pin'', VInt 0), (''location'', VStr ''0'')] @
     opt_field ''device_override'' (dict_get d ''address''))]"
  by (simp_all add: instrument_net_def opt_field_def)

lemma instrument_net_pinless [simp]: "pin_of (VDict (instrument_net d n)) = Inr VNone"
  by (simp add: pin_of_def get_key_def pin_value_def iter_or_empty_def mapping_pin_def opt_field_def)

lemma instrument_net_done [simp]: "is_old_channel (VDict (instrument_net d n)) = Inr False"
  by (simp add: is_old_channel_def get_key_def)

lemma lower_or_empty_or [simp]: "lower_or_empty (py_or v (VStr [])) = lower_or_empty v"
  "lower_or_empty VNone = Inr []"
  by (simp_all add: py_or_def lower_or_empty_def)

lemma instrument_net_unit [simp]: "unit_of (VDict (instrument_net d n)) = unit_of (VDict d)"
proof -
  have "lower_or_empty (if truthy v then v else VNone) = lower_or_empty v" for v
    by (simp add: lower_or_empty_def)
  then show ?thesis by (simp add: unit_of_def get_key_def)
qed

lemma needs_migration_False: "needs_migration rs = Inr False \<longleftrightarrow> list_all (\<lambda>r. is_old_channel r = Inr False) rs"
  by (induction rs) (auto simp: res_bind_def split: sum.splits)

text \<open>A record and what becomes of it.\<close>

definition converted :: "pyval \<Rightarrow> pyval \<Rightarrow> bool" where
  "converted r m \<longleftrightarrow> (if is_old_channel r = Inr True then \<exists>d. r = VDict d \<and> m = VDict (as_channel d) else m = r)"

text \<open>A net that stands for an instrument: role \<^verbatim>\<open>scope\<close> and no pin.\<close>

definition is_instrument :: "pyval \<Rightarrow> bool" where
  "is_instrument r \<longleftrightarrow> get_key r ''role'' = Inr (VStr SCOPE_ROLE) \<and> pin_of r = Inr VNone"

lemma is_instrument_net [simp]: "is_instrument (VDict (instrument_net d n))"
  by (simp add: is_instrument_def get_key_def)

lemma migrate_loop_cases:
  assumes "migrate_loop taken have (r # rs) = Inr (ms, ins)"
  obtains (Keep) ms' where "is_old_channel r = Inr False" "ms = r # ms'" "migrate_loop taken have rs = Inr (ms', ins)"
  | (Old) d u ms' where "is_old_channel r = Inr True" "r = VDict d" "unit_of r = Inr u" "u \<in> set have"
      "ms = VDict (as_channel d) # ms'" "migrate_loop taken have rs = Inr (ms', ins)"
  | (New) d u ms' ins' name where "is_old_channel r = Inr True" "r = VDict d" "unit_of r = Inr u" "u \<notin> set have"
      "name = unique_name (base_name (case dict_get d ''instrument'' of VStr s \<Rightarrow> s | _ \<Rightarrow> [])) taken"
      "ms = VDict (as_channel d) # ms'" "ins = VDict (instrument_net d name) # ins'"
      "migrate_loop (VStr name # taken) (u # have) rs = Inr (ms', ins')"
proof -
  from assms obtain b where b: "is_old_channel r = Inr b" by (auto simp: res_bind_eq_Inr)
  show thesis
  proof (cases b)
    case False
    with assms b Keep show ?thesis by (auto simp: res_bind_eq_Inr)
  next
    case True
    then obtain d where d: "r = VDict d" using b by (cases r) (auto simp: is_old_channel_def get_key_def)
    with assms b True obtain u where u: "unit_of r = Inr u" by (auto simp: res_bind_eq_Inr)
    show ?thesis
    proof (cases "u \<in> set have")
      case True
      with assms b d u \<open>b\<close> show ?thesis by (auto simp: res_bind_eq_Inr intro: Old)
    next
      case False
      with assms b d u \<open>b\<close> show ?thesis by (auto simp: res_bind_eq_Inr Let_def intro: New [OF _ _ _ _ refl])
    qed
  qed
qed

lemma migrate_loop_shape:
  "migrate_loop taken have rs = Inr (ms, ins) \<Longrightarrow> list_all2 converted rs ms \<and>
   list_all (\<lambda>m. is_old_channel m = Inr False) ms \<and> (\<exists>dns. ins = map (\<lambda>(d, n). VDict (instrument_net d n)) dns)"
proof (induction rs arbitrary: taken "have" ms ins)
  case (Cons r rs)
  from Cons.prems show ?case
  proof (cases rule: migrate_loop_cases)
    case (Keep ms')
    with Cons.IH [OF Keep(3)] show ?thesis by (simp add: converted_def)
  next
    case (Old d u ms')
    with Cons.IH [OF Old(6)] show ?thesis by (simp add: converted_def)
  next
    case (New d u ms' ins' name)
    from Cons.IH [OF New(8)] obtain dns where "list_all2 converted rs ms'"
      "list_all (\<lambda>m. is_old_channel m = Inr False) ms'" "ins' = map (\<lambda>(d, n). VDict (instrument_net d n)) dns" by blast
    with New have "list_all2 converted (r # rs) ms" "list_all (\<lambda>m. is_old_channel m = Inr False) ms"
      "ins = map (\<lambda>(d, n). VDict (instrument_net d n)) ((d, name) # dns)" by (simp_all add: converted_def)
    then show ?thesis by blast
  qed
qed simp

lemma migrate_loop_units:
  "migrate_loop taken have rs = Inr (ms, ins) \<Longrightarrow> r \<in> set rs \<Longrightarrow> is_old_channel r = Inr True \<Longrightarrow>
   \<exists>u. unit_of r = Inr u \<and> (u \<in> set have \<or> (\<exists>i\<in>set ins. unit_of i = Inr u))"
proof (induction rs arbitrary: taken "have" ms ins)
  case (Cons x rs)
  from Cons.prems(1) show ?case
  proof (cases rule: migrate_loop_cases)
    case (Keep ms')
    with Cons.IH [OF Keep(3)] Cons.prems(2,3) show ?thesis by auto
  next
    case (Old d u ms')
    with Cons.IH [OF Old(6)] Cons.prems(2,3) show ?thesis by (cases u) auto
  next
    case (New d u ms' ins' name)
    with Cons.IH [OF New(8)] Cons.prems(2,3) show ?thesis by fastforce
  qed
qed simp

lemma migrate_loop_names:
  "migrate_loop taken have rs = Inr (ms, ins) \<Longrightarrow> length taken + length rs < 999 \<Longrightarrow>
   \<exists>ns. map (\<lambda>i. get_key i ''name'') ins = map (Inr \<circ> VStr) ns \<and> distinct ns \<and> VStr ` set ns \<inter> set taken = {}"
proof (induction rs arbitrary: taken "have" ms ins)
  case (Cons x rs)
  from Cons.prems(1) show ?case
  proof (cases rule: migrate_loop_cases)
    case (Keep ms')
    with Cons.IH [OF Keep(3)] Cons.prems(2) show ?thesis by simp
  next
    case (Old d u ms')
    with Cons.IH [OF Old(6)] Cons.prems(2) show ?thesis by simp
  next
    case (New d u ms' ins' name)
    have "length (VStr name # taken) + length rs < 999" using Cons.prems(2) by simp
    from Cons.IH [OF New(8) this] obtain ns where ns: "map (\<lambda>i. get_key i ''name'') ins' = map (Inr \<circ> VStr) ns"
      "distinct ns" "VStr ` set ns \<inter> set (VStr name # taken) = {}" by blast
    have "VStr name \<notin> set taken" unfolding New(5) using Cons.prems(2) by (intro unique_name_new) simp
    with ns New(7) have "map (\<lambda>i. get_key i ''name'') ins = map (Inr \<circ> VStr) (name # ns)"
      "distinct (name # ns)" "VStr ` set (name # ns) \<inter> set taken = {}" by (auto simp: get_key_def)
    then show ?thesis by blast
  qed
qed simp

lemma have_instrument_units:
  "have_instrument rs = Inr us \<Longrightarrow> u \<in> set us \<Longrightarrow> \<exists>r\<in>set rs. is_instrument r \<and> unit_of r = Inr u"
  by (induction rs arbitrary: us) (auto simp: res_bind_eq_Inr is_instrument_def split: if_splits)

lemma instrument_not_old: "is_instrument r \<Longrightarrow> is_old_channel r = Inr False"
  by (simp add: is_instrument_def is_old_channel_def)

lemma name_of_get: "name_of r = Inr t \<Longrightarrow> get_key r ''name'' = Inr t"
proof -
  assume n: "name_of r = Inr t"
  then obtain v where "get_key r ''name'' = Inr v" by (auto simp: name_of_def res_bind_eq_Inr)
  with n show ?thesis by (cases v) (simp_all add: name_of_def)
qed

lemma migrate_correct:
  assumes "migrate nets = Inr (out, True)" "2 * length nets < 999"
  shows "needs_migration out = Inr False \<and>
    (\<exists>ms added names. out = ms @ added \<and> list_all2 converted nets ms \<and> list_all is_instrument added \<and>
      map (\<lambda>i. get_key i ''name'') added = map (Inr \<circ> VStr) names \<and> distinct names \<and>
      (\<forall>r\<in>set nets. get_key r ''name'' \<notin> (Inr \<circ> VStr) ` set names)) \<and>
    (\<forall>r\<in>set nets. is_old_channel r = Inr True \<longrightarrow> (\<exists>i\<in>set out. is_instrument i \<and> unit_of i = unit_of r))"
proof -
  from assms(1) obtain taken owned ms ins where m: "res_map name_of nets = Inr taken" "have_instrument nets = Inr owned"
    "migrate_loop taken owned nets = Inr (ms, ins)" "out = ms @ ins"
    by (auto simp: migrate_def res_bind_eq_Inr split: if_splits)
  note shape = migrate_loop_shape [OF m(3)]
  have ins: "list_all is_instrument ins" using shape by (auto simp: list_all_iff)
  have finished: "needs_migration out = Inr False"
    using shape ins by (auto simp: needs_migration_False m(4) list_all_iff instrument_not_old)
  have "length taken + length nets < 999" using assms(2) res_map_length [OF m(1)] by simp
  from migrate_loop_names [OF m(3) this] obtain names where n: "map (\<lambda>i. get_key i ''name'') ins = map (Inr \<circ> VStr) names"
    "distinct names" "VStr ` set names \<inter> set taken = {}" by blast
  have new: "get_key r ''name'' \<notin> (Inr \<circ> VStr) ` set names" if "r \<in> set nets" for r
  proof -
    from res_map_mem [OF m(1) that] obtain t where t: "t \<in> set taken" "name_of r = Inr t" by blast
    then have "get_key r ''name'' = Inr t" by (simp add: name_of_get)
    with t n(3) show ?thesis by auto
  qed
  have inst: "\<exists>i\<in>set out. is_instrument i \<and> unit_of i = unit_of r" if r: "r \<in> set nets" "is_old_channel r = Inr True" for r
  proof -
    from migrate_loop_units [OF m(3) r] obtain u where u: "unit_of r = Inr u"
      "u \<in> set owned \<or> (\<exists>i\<in>set ins. unit_of i = Inr u)" by blast
    have "\<exists>i\<in>set ms. is_instrument i \<and> unit_of i = Inr u" if "u \<in> set owned"
    proof -
      from have_instrument_units [OF m(2) that] obtain q where q: "q \<in> set nets" "is_instrument q" "unit_of q = Inr u" by blast
      then obtain k where "k < length nets" "nets ! k = q" by (auto simp: in_set_conv_nth)
      with shape instrument_not_old [OF q(2)] have "q \<in> set ms" by (auto simp: list_all2_conv_all_nth converted_def in_set_conv_nth)
      with q show ?thesis by blast
    qed
    with u ins m(4) show ?thesis by (auto simp: list_all_iff)
  qed
  from finished new inst ins n shape m(4) show ?thesis by blast
qed

lemma migrate_untouched: "migrate nets = Inr (out, False) \<Longrightarrow> out = nets \<and> needs_migration nets = Inr False"
  by (auto simp: migrate_def res_bind_eq_Inr split: if_splits)

lemma migrate_again: "needs_migration out = Inr False \<Longrightarrow> migrate out = Inr (out, False)"
  by (simp add: migrate_def)

section \<open>The conversion\<close>

text \<open>
  C25. Old scope nets are converted once. A conversion leaves no old record, keeps every record
  in its place with only the role of old channels changed, adds instrument nets under new,
  distinct names, and gives every old channel an instrument net of its unit; converting the
  result again changes nothing. The store must hold fewer than 500 nets, since the search for
  a free name stops after 999.
\<close>

theorem scope_nets_migrated:
  assumes "migrate nets = Inr (out, True)" and "2 * length nets < 999"
  shows "migrate out = Inr (out, False) \<and>
    (\<exists>ms added names. out = ms @ added \<and> list_all2 converted nets ms \<and> list_all is_instrument added \<and>
      map (\<lambda>i. get_key i ''name'') added = map (Inr \<circ> VStr) names \<and> distinct names \<and>
      (\<forall>r\<in>set nets. get_key r ''name'' \<notin> (Inr \<circ> VStr) ` set names)) \<and>
    (\<forall>r\<in>set nets. is_old_channel r = Inr True \<longrightarrow> (\<exists>i\<in>set out. is_instrument i \<and> unit_of i = unit_of r))"
  using migrate_correct [OF assms] migrate_again by blast

definition sample_nets :: "pyval list" where
  "sample_nets = [VDict [(''name'', VStr ''ch1''), (''role'', VStr ''scope''), (''instrument'', VStr ''Rigol_MSO5072''), (''pin'', VInt 1)]]"

text \<open>The search stops at the first free name, so that evaluation does not build all of them.\<close>

lemma unique_name_first [code]:
  "unique_name base taken = (if VStr (base @ ''1'') \<notin> set taken then base @ ''1''
     else (case find (\<lambda>c. VStr c \<notin> set taken) (tl (candidates base)) of Some c \<Rightarrow> c | None \<Rightarrow> base))"
proof -
  have "candidates base = (base @ str_of_nat 1) # tl (candidates base)"
    unfolding candidates_def by (subst (1 2) upt_conv_Cons) simp_all
  moreover have "str_of_nat 1 = ''1''" by code_simp
  ultimately obtain cs where "candidates base = (base @ ''1'') # cs" by metis
  then show ?thesis by (simp add: unique_name_def)
qed

theorem scope_nets_migrated_witness:
  "case migrate sample_nets of Inr (out, ch) \<Rightarrow> ch \<and> migrate out = Inr (out, False) | Inl _ \<Rightarrow> False"
proof -
  have "map_sum id snd (migrate sample_nets) = Inr True" by code_simp
  then obtain out where m: "migrate sample_nets = Inr (out, True)" by (cases "migrate sample_nets") auto
  have "2 * length sample_nets < 999" by (simp add: sample_nets_def)
  from scope_nets_migrated [OF m this] have "migrate out = Inr (out, False)" by (rule conjunct1)
  then show ?thesis by (simp add: m)
qed

end
