(* ===== verification/Erase_Range.thy ===== *)
theory Erase_Range
  imports Py_Builtins
begin

text \<open>
  The range of a flash erase: the checks and reports of \<^verbatim>\<open>debug/erase_bounds.py\<close>, the
  request of \<^verbatim>\<open>debug/service.py\<close>, the range each backend resolves (\<^verbatim>\<open>debug/jlink.py\<close>,
  \<^verbatim>\<open>debug/openocd_flash.py\<close>) and the offset the DA1469x loader is given
  (\<^verbatim>\<open>debug/da1469x_loader.py\<close>). Shown: an accepted range lies in the 32-bit address space,
  its last address does not wrap, on a DA1469x the loader accepts it and erases inside the
  flash, and the words that are read back afterwards lie in the range.
\<close>

section \<open>Checks\<close>

definition KIB :: int where "KIB = 2 ^ 10"
definition MIB :: int where "MIB = 2 ^ 20"
definition ADDRESS_SPACE :: int where "ADDRESS_SPACE = 2 ^ 32"

definition QSPI_XIP_BASE :: int where "QSPI_XIP_BASE = 0x16000000"
definition QSPI_XIP_RANGE :: int where "QSPI_XIP_RANGE = 0x02000000"
definition QSPI_XIP_END :: int where "QSPI_XIP_END = QSPI_XIP_BASE + QSPI_XIP_RANGE"

text \<open>The range size, exact, and the range in hexadecimal.\<close>

fun hex_nat :: "nat \<Rightarrow> string" where
  "hex_nat n = (if n < 16 then [(''0123456789ABCDEF'') ! n] else hex_nat (n div 16) @ [''0123456789ABCDEF'' ! (n mod 16)])"

declare hex_nat.simps [simp del]

text \<open>\<^verbatim>\<open>{n:08X}\<close> for a number that is not negative.\<close>

definition hex8 :: "int \<Rightarrow> string" where
  "hex8 n = (let h = hex_nat (nat n) in replicate (8 - length h) (CHR ''0'') @ h)"

definition format_size :: "int \<Rightarrow> string" where
  "format_size len =
    (if len mod MIB = 0 then dec_int (len div MIB) @ '' MiB''
     else if len mod KIB = 0 then dec_int (len div KIB) @ '' KiB''
     else dec_int len @ '' bytes'')"

definition format_bounds :: "int \<Rightarrow> int \<Rightarrow> string" where
  "format_bounds start len = ''0x'' @ hex8 start @ ''-0x'' @ hex8 (start + len - 1) @ '' ('' @ format_size len @ '')''"

definition bounds_dict :: "int \<Rightarrow> int \<Rightarrow> string \<Rightarrow> dict" where
  "bounds_dict start len source =
    [(''start'', VInt start), (''end'', VInt (start + len - 1)), (''length'', VInt len),
     (''source'', VStr source), (''text'', VStr (format_bounds start len))]"

datatype erase_error =
    NotInts
  | NegativeStart int
  | EmptySize int
  | PastAddressSpace string
  | OutsideWindow string
  | NotTogether

definition is_int :: "pyval \<Rightarrow> int option" where
  "is_int v = (case v of VInt i \<Rightarrow> Some i | _ \<Rightarrow> None)"

definition validate_bounds :: "pyval \<Rightarrow> pyval \<Rightarrow> bool \<Rightarrow> erase_error + int \<times> int" where
  "validate_bounds start len da1469x = (case (is_int start, is_int len) of
     (Some s, Some n) \<Rightarrow>
       if s < 0 then Inl (NegativeStart s)
       else if n \<le> 0 then Inl (EmptySize n)
       else if s + n > ADDRESS_SPACE then Inl (PastAddressSpace (format_bounds s n))
       else if da1469x \<and> \<not> (QSPI_XIP_BASE \<le> s \<and> s + n \<le> QSPI_XIP_END) then Inl (OutsideWindow (format_bounds s n))
       else Inr (s, n)
   | _ \<Rightarrow> Inl NotInts)"

section \<open>Requests and backends\<close>

text \<open>
  \<^verbatim>\<open>str.upper\<close> on the characters that the device names are searched for; every other
  character stays outside these patterns.
\<close>

definition upper_char :: "char \<Rightarrow> char" where
  "upper_char c = (if 97 \<le> code c \<and> code c \<le> 122 then char_of (code c - 32) else c)"

fun contains :: "string \<Rightarrow> string \<Rightarrow> bool" where
  "contains [] p = (p = [])"
| "contains (c # s) p = (startswith (c # s) p \<or> contains s p)"

definition is_da1469x :: "string \<Rightarrow> bool" where
  "is_da1469x device = contains (map upper_char device) ''DA1469''"

definition is_nrf5340_app :: "string \<Rightarrow> bool" where
  "is_nrf5340_app device = (let name = map upper_char device in contains name ''NRF5340'' \<and> \<not> contains name ''_NET'')"

definition parse_erase_range :: "dict \<Rightarrow> string \<Rightarrow> erase_error + (int \<times> int) option" where
  "parse_erase_range d device = (let start = dict_get d ''erase_start''; size = dict_get d ''erase_size'' in
     if start = VNone \<and> size = VNone then Inr None
     else if start = VNone \<or> size = VNone then Inl NotTogether
     else map_sum id Some (validate_bounds start size (is_da1469x device)))"

text \<open>The line \<^verbatim>\<open>LAGER_ERASE_RANGE: 0x16000000 0x160FFFFF\<close> of a script, first occurrence.\<close>

definition is_hex_digit :: "char \<Rightarrow> bool" where
  "is_hex_digit c = (is_digit c \<or> 65 \<le> code c \<and> code c \<le> 70 \<or> 97 \<le> code c \<and> code c \<le> 102)"

definition hex_digit_val :: "char \<Rightarrow> int" where
  "hex_digit_val c = int (if is_digit c then code c - 48 else if code c \<le> 70 then code c - 55 else code c - 87)"

definition hex_val :: "string \<Rightarrow> int" where
  "hex_val s = foldl (\<lambda>a c. 16 * a + hex_digit_val c) 0 s"

text \<open>A number after its prefix, with what follows it.\<close>

definition take_hex :: "string \<Rightarrow> (int \<times> string) option" where
  "take_hex s = (if map upper_char (take 2 s) = ''0X'' \<and> takeWhile is_hex_digit (drop 2 s) \<noteq> []
     then Some (hex_val (takeWhile is_hex_digit (drop 2 s)), dropWhile is_hex_digit (drop 2 s)) else None)"

definition range_here :: "string \<Rightarrow> (int \<times> int) option" where
  "range_here s = (if map upper_char (take 17 s) \<noteq> ''LAGER_ERASE_RANGE'' then None
     else (case lstrip (drop 17 s) of
        [] \<Rightarrow> None
      | c # t \<Rightarrow> if c \<noteq> CHR '':'' then None
          else (case take_hex (lstrip t) of
             None \<Rightarrow> None
           | Some (a, u) \<Rightarrow> if u = [] \<or> \<not> is_space (hd u) then None
               else (case take_hex (lstrip u) of None \<Rightarrow> None | Some (b, _) \<Rightarrow> Some (a, b)))))"

fun search_range :: "string \<Rightarrow> (int \<times> int) option" where
  "search_range [] = None"
| "search_range (c # s) = (case range_here (c # s) of None \<Rightarrow> search_range s | Some r \<Rightarrow> Some r)"

definition parse_lager_erase_range_from_script :: "string option \<Rightarrow> (int \<times> int) option" where
  "parse_lager_erase_range_from_script script = (case script of
     None \<Rightarrow> None
   | Some txt \<Rightarrow> (case search_range txt of
       None \<Rightarrow> None | Some (a, b) \<Rightarrow> if a > b then None else Some (a, b)))"

definition jlink_resolve_erase_range :: "string \<Rightarrow> string option \<Rightarrow> (int \<times> int) option \<Rightarrow> (int \<times> int \<times> string) option" where
  "jlink_resolve_erase_range device script request = (case request of
     Some (s, n) \<Rightarrow> Some (s, n, ''request'')
   | None \<Rightarrow>
      if is_nrf5340_app device then Some (0, MIB, ''default'')
      else if \<not> is_da1469x device then None
      else (case parse_lager_erase_range_from_script script of
          Some (s, e) \<Rightarrow> Some (s, e - s + 1, ''script'')
        | None \<Rightarrow> Some (QSPI_XIP_BASE, MIB, ''default'')))"

definition openocd_resolve_erase_range :: "string \<Rightarrow> (int \<times> int) option \<Rightarrow> (int \<times> int \<times> string) option" where
  "openocd_resolve_erase_range device request = (case request of
     Some (s, n) \<Rightarrow> Some (s, n, ''request'')
   | None \<Rightarrow> if is_da1469x device then Some (QSPI_XIP_BASE, MIB, ''default'') else None)"

definition erase_range_report :: "(int \<times> int \<times> string) option \<Rightarrow> dict option" where
  "erase_range_report resolved = map_option (\<lambda>(s, n, source). bounds_dict s n source) resolved"

section \<open>The loader's offset\<close>

definition xip_range_to_flash_offset :: "int \<Rightarrow> int \<Rightarrow> int option" where
  "xip_range_to_flash_offset start len =
    (if len \<le> 0 then None
     else if \<not> (QSPI_XIP_BASE \<le> start \<and> start + len \<le> QSPI_XIP_END) then None
     else Some (start - QSPI_XIP_BASE))"

definition xip_to_flash_offset :: "int option \<Rightarrow> int option" where
  "xip_to_flash_offset addr = (case addr of
     None \<Rightarrow> Some 0
   | Some a \<Rightarrow> if a = 0 then Some 0
       else if \<not> (QSPI_XIP_BASE \<le> a \<and> a < QSPI_XIP_END) then None else Some (a - QSPI_XIP_BASE))"

text \<open>What \<^verbatim>\<open>erase_target\<close> asks of the daemon: every bank, the loader, or an address range.\<close>

datatype erase_plan = EraseAll | LoaderErase int int | BankErase int int

definition erase_target :: "string \<Rightarrow> (pyval \<times> pyval) option \<Rightarrow> erase_error + erase_plan" where
  "erase_target device request =
    (let bounds = (case request of
        Some r \<Rightarrow> Some r
      | None \<Rightarrow> if is_da1469x device then Some (VInt QSPI_XIP_BASE, VInt MIB) else None) in
     case bounds of
       None \<Rightarrow> Inr EraseAll
     | Some (start, len) \<Rightarrow> (case validate_bounds start len (is_da1469x device) of
         Inl e \<Rightarrow> Inl e
       | Inr (s, n) \<Rightarrow>
           if is_da1469x device
           then (case xip_range_to_flash_offset s n of
               None \<Rightarrow> Inl (OutsideWindow (format_bounds s n)) | Some off \<Rightarrow> Inr (LoaderErase off n))
           else Inr (BankErase s n)))"

text \<open>The words that are read back after an erase.\<close>

definition word_aligned :: "int \<Rightarrow> int" where
  "word_aligned a = a AND NOT 3"

definition readback_addresses :: "int \<Rightarrow> int \<Rightarrow> int list" where
  "readback_addresses start len =
    sort (remdups [word_aligned start, word_aligned (start + len div 2), word_aligned (start + max len 4 - 4)])"

section \<open>Accepted ranges\<close>

lemma validate_bounds_Inr:
  "validate_bounds st lv da = Inr (s, n) \<longleftrightarrow> st = VInt s \<and> lv = VInt n \<and> 0 \<le> s \<and> 0 < n \<and> s + n \<le> ADDRESS_SPACE \<and>
     (da \<longrightarrow> QSPI_XIP_BASE \<le> s \<and> s + n \<le> QSPI_XIP_END)"
  by (auto simp: validate_bounds_def is_int_def split: pyval.splits if_splits)

lemma parse_erase_range_Some:
  "parse_erase_range d device = Inr (Some (s, n)) \<Longrightarrow>
   validate_bounds (VInt s) (VInt n) (is_da1469x device) = Inr (s, n)"
proof -
  assume "parse_erase_range d device = Inr (Some (s, n))"
  then have "map_sum id Some (validate_bounds (dict_get d ''erase_start'') (dict_get d ''erase_size'') (is_da1469x device)) = Inr (Some (s, n))"
    by (auto simp: parse_erase_range_def Let_def split: if_splits)
  then show ?thesis
    by (cases "validate_bounds (dict_get d ''erase_start'') (dict_get d ''erase_size'') (is_da1469x device)")
      (auto simp: validate_bounds_Inr)
qed

lemma last_address_no_wrap:
  assumes "0 \<le> s" "0 < n" "s + n \<le> ADDRESS_SPACE"
  shows "uint (word_of_int s + word_of_int (n - 1) :: 32 word) = s + n - 1"
proof -
  have "(word_of_int s + word_of_int (n - 1) :: 32 word) = word_of_int (s + n - 1)"
    by (metis add_diff_eq wi_hom_add)
  moreover have "0 \<le> s + n - 1" "s + n - 1 < 2 ^ 32" using assms by (simp_all add: ADDRESS_SPACE_def)
  ultimately show ?thesis
    by (simp only: uint_word_of_int_eq) (simp add: take_bit_int_eq_self_iff)
qed

lemma word_aligned_eq: "word_aligned a = a - a mod 4"
proof -
  have "a AND NOT (mask 2) = push_bit 2 (drop_bit 2 a)"
  proof (rule bit_eqI)
    fix n show "bit (a AND NOT (mask 2)) n = bit (push_bit 2 (drop_bit 2 a)) n"
      by (cases "2 \<le> n") (auto simp: bit_simps simp flip: add_2_eq_Suc)
  qed
  then have "(a AND NOT (mask 2)) + take_bit 2 a = a" using bits_ident [of 2 a] by simp
  then show ?thesis by (simp add: word_aligned_def mask_eq_exp_minus_1 take_bit_eq_mod)
qed

lemma aligned_inside:
  fixes s n x :: int
  assumes "s mod 4 = 0" "s \<le> x" "x + 4 \<le> s + n \<or> 4 \<le> n \<and> 2 * (x - s) \<le> n"
  shows "s \<le> x - x mod 4 \<and> x - x mod 4 + 4 \<le> s + n \<and> (x - x mod 4) mod 4 = 0"
proof -
  obtain q where s: "s = 4 * q" using assms(1) by (auto simp: mod_eq_0_iff_dvd)
  obtain y r where x: "x = 4 * y + r" "0 \<le> r" "r < 4" and y: "x - x mod 4 = 4 * y"
    by (rule that [of "x div 4" "x mod 4"]) (simp_all add: minus_mod_eq_mult_div)
  have low: "q \<le> y" using s x assms(2) by linarith
  have "4 * y + 4 \<le> 4 * q + n" using assms(3)
  proof
    assume "4 \<le> n \<and> 2 * (x - s) \<le> n"
    with s x have "8 * (y - q) \<le> n" "4 \<le> n" by auto
    then show ?thesis using low by (cases "y \<le> q") auto
  qed (use s x in linarith)
  with low s show ?thesis unfolding y by simp
qed

lemma readback_inside:
  assumes "s mod 4 = 0" "4 \<le> n" "a \<in> set (readback_addresses s n)"
  shows "s \<le> a \<and> a + 4 \<le> s + n \<and> a mod 4 = 0"
proof -
  have "set (readback_addresses s n) = {word_aligned s, word_aligned (s + n div 2), word_aligned (s + max n 4 - 4)}"
    by (simp only: readback_addresses_def set_sort set_remdups list.set)
  with assms(3) obtain x where "a = x - x mod 4" "x \<in> {s, s + n div 2, s + max n 4 - 4}"
    unfolding word_aligned_eq by blast
  moreover from this(2) assms(2) have "s \<le> x" "x + 4 \<le> s + n \<or> 4 \<le> n \<and> 2 * (x - s) \<le> n" by auto
  ultimately show ?thesis using aligned_inside [OF assms(1)] by simp
qed

section \<open>Bounds of an accepted range\<close>

text \<open>
  C24. An accepted erase stays inside its range. A range that the debug service accepts lies in
  the 32-bit address space, and its last address, computed in 32 bits, does not wrap. On a
  DA1469x the loader gets an offset whose range lies inside the flash. When the range starts
  on a word and holds one, every word read back afterwards lies inside it.
\<close>

theorem erase_range_in_bounds:
  assumes "parse_erase_range d device = Inr (Some (s, n))"
  shows "0 \<le> s \<and> 0 < n \<and> s + n \<le> ADDRESS_SPACE \<and>
    uint (word_of_int s + word_of_int (n - 1) :: 32 word) = s + n - 1 \<and>
    (is_da1469x device \<longrightarrow> (\<exists>off. erase_target device (Some (VInt s, VInt n)) = Inr (LoaderErase off n) \<and>
       0 \<le> off \<and> off + n \<le> QSPI_XIP_RANGE)) \<and>
    (s mod 4 = 0 \<and> 4 \<le> n \<longrightarrow> (\<forall>a\<in>set (readback_addresses s n). s \<le> a \<and> a + 4 \<le> s + n))"
proof -
  note v = parse_erase_range_Some [OF assms]
  then have b: "0 \<le> s" "0 < n" "s + n \<le> ADDRESS_SPACE" by (simp_all add: validate_bounds_Inr)
  have "\<exists>off. erase_target device (Some (VInt s, VInt n)) = Inr (LoaderErase off n) \<and> 0 \<le> off \<and> off + n \<le> QSPI_XIP_RANGE"
    if d: "is_da1469x device"
  proof -
    from v d have val: "validate_bounds (VInt s) (VInt n) True = Inr (s, n)" by simp
    then have "QSPI_XIP_BASE \<le> s" "s + n \<le> QSPI_XIP_END" by (simp_all add: validate_bounds_Inr)
    with b val d show ?thesis by (auto simp: erase_target_def xip_range_to_flash_offset_def QSPI_XIP_END_def)
  qed
  moreover have "\<forall>a\<in>set (readback_addresses s n). s \<le> a \<and> a + 4 \<le> s + n" if w: "s mod 4 = 0 \<and> 4 \<le> n"
  proof
    fix a
    assume "a \<in> set (readback_addresses s n)"
    from readback_inside [OF conjunct1 [OF w] conjunct2 [OF w] this] show "s \<le> a \<and> a + 4 \<le> s + n" by (simp only: simp_thms)
  qed
  ultimately show ?thesis using b last_address_no_wrap [OF b] by blast
qed

theorem erase_range_in_bounds_witness:
  "uint (word_of_int 0x16000000 + word_of_int (0x1000 - 1) :: 32 word) = 0x16000000 + 0x1000 - 1"
proof -
  have "parse_erase_range [(''erase_start'', VInt 0x16000000), (''erase_size'', VInt 0x1000)] ''DA14695'' =
      Inr (Some (0x16000000, 0x1000))" by code_simp
  from erase_range_in_bounds [OF this] show ?thesis by simp
qed

end
