(* ===== verification/Serial_Id.thy ===== *)
theory Serial_Id
  imports Py_Utf8 Py_Repr Py_Path Scope_Migration Erase_Range "HOL-Library.Char_ord" "HOL-Library.List_Lexorder"
begin

text \<open>
  Durable identities of serial cables, \<^verbatim>\<open>box/lager/devices/serial_id.py\<close>: the \<^verbatim>\<open>serial://\<close> addresses, the walks
  through \<^verbatim>\<open>/sys/class/tty\<close> that find the USB device and the interface of a tty, the list of the connected
  cables, and the way from an identity back to the tty that the cable has now. Shown: an address is
  parsed into the identity it was made of, whatever characters the identity has, and the snapshot of a tty is
  resolved to the tty of the same device, port and interface after every renumbering.
\<close>

section \<open>Text of values\<close>

text \<open>\<^verbatim>\<open>str.isprintable\<close> of one character, and \<^verbatim>\<open>repr\<close> and \<^verbatim>\<open>str\<close> of any JSON value.\<close>

definition is_printable :: "char \<Rightarrow> bool" where
  "is_printable c = (32 \<le> code c \<and> code c \<le> 126 \<or> 161 \<le> code c \<and> code c \<noteq> 173)"

definition low_hex :: "nat \<Rightarrow> char" where
  "low_hex n = char_of (if n < 10 then 48 + n else 87 + n)"

definition hex_upper :: "nat \<Rightarrow> char" where
  "hex_upper n = char_of (if n < 10 then 48 + n else 55 + n)"

definition repr_char :: "char \<Rightarrow> char \<Rightarrow> string" where
  "repr_char q c = (if c = q \<or> c = CHR 0x5C then [CHR 0x5C, c]
     else if c = CHR 0x0A then [CHR 0x5C, CHR ''n''] else if c = CHR 0x0D then [CHR 0x5C, CHR ''r''] else if c = CHR 0x09 then [CHR 0x5C, CHR ''t'']
     else if is_printable c then [c] else [CHR 0x5C, CHR ''x'', low_hex (code c div 16), low_hex (code c mod 16)])"

definition str_repr :: "string \<Rightarrow> string" where
  "str_repr s = (let q = (if CHR 0x27 \<in> set s \<and> CHR 0x22 \<notin> set s then CHR 0x22 else CHR 0x27) in [q] @ concat (map (repr_char q) s) @ [q])"

fun comma_join :: "string list \<Rightarrow> string" where
  "comma_join [] = []"
| "comma_join [x] = x"
| "comma_join (x # y # xs) = x @ '', '' @ comma_join (y # xs)"

fun py_repr :: "pyval \<Rightarrow> string" where
  "py_repr VNone = ''None''"
| "py_repr (VBool b) = (if b then ''True'' else ''False'')"
| "py_repr (VStr s) = str_repr s"
| "py_repr (VList xs) = ''['' @ comma_join (map py_repr xs) @ '']''"
| "py_repr (VDict d) = ''{'' @ comma_join (map (\<lambda>(k, v). str_repr k @ '': '' @ py_repr v) d) @ ''}''"
| "py_repr v = scalar_str v"

definition py_str :: "pyval \<Rightarrow> string" where
  "py_str v = (case v of VStr s \<Rightarrow> s | _ \<Rightarrow> py_repr v)"

section \<open>Percent encoding\<close>

text \<open>\<^verbatim>\<open>urllib.parse.quote\<close> with no safe characters.\<close>

definition unreserved :: "char \<Rightarrow> bool" where
  "unreserved c = (65 \<le> code c \<and> code c \<le> 90 \<or> 97 \<le> code c \<and> code c \<le> 122 \<or> is_digit c \<or> c \<in> set ''_.-~'')"

definition quote_byte :: "byte \<Rightarrow> string" where
  "quote_byte b = (if unreserved (char_of (unat b)) then [char_of (unat b)]
     else [CHR ''%'', hex_upper (unat b div 16), hex_upper (unat b mod 16)])"

definition quote :: "string \<Rightarrow> string" where
  "quote s = concat (map quote_byte (utf8_encode s))"

text \<open>
  \<^verbatim>\<open>urllib.parse.unquote\<close>: the escapes of every run of ASCII characters are decoded as UTF-8. What bytes that are not UTF-8,
  or stand for characters beyond those of the model, are replaced by is a parameter.
\<close>

definition hex_nibble :: "char \<Rightarrow> nat option" where
  "hex_nibble c = (if is_digit c then Some (code c - 48)
     else if 97 \<le> code c \<and> code c \<le> 102 then Some (code c - 87)
     else if 65 \<le> code c \<and> code c \<le> 70 then Some (code c - 55) else None)"

fun unquote_to_bytes :: "string \<Rightarrow> byte list" where
  "unquote_to_bytes [] = []"
| "unquote_to_bytes (c # s) = (if c = CHR ''%'' then
     (case s of
        a # b # r \<Rightarrow> (case (hex_nibble a, hex_nibble b) of
            (Some x, Some y) \<Rightarrow> of_nat (16 * x + y) # unquote_to_bytes r
          | _ \<Rightarrow> 37 # unquote_to_bytes s)
      | _ \<Rightarrow> 37 # unquote_to_bytes s)
     else of_nat (code c) # unquote_to_bytes s)"

abbreviation is_ascii :: "char \<Rightarrow> bool" where
  "is_ascii c \<equiv> code c < 128"

definition decode_run :: "(byte list \<Rightarrow> string) \<Rightarrow> string \<Rightarrow> string" where
  "decode_run replaced s = (case utf8_read (unquote_to_bytes s) of Some t \<Rightarrow> t | None \<Rightarrow> replaced (unquote_to_bytes s))"

function unquote_runs :: "(byte list \<Rightarrow> string) \<Rightarrow> string \<Rightarrow> string" where
  "unquote_runs replaced s = (if s = [] then []
     else if is_ascii (hd s) then decode_run replaced (takeWhile is_ascii s) @ unquote_runs replaced (dropWhile is_ascii s)
     else hd s # unquote_runs replaced (tl s))"
  by pat_completeness auto

termination
proof (relation "measure (length \<circ> snd)")
  fix s :: string
  assume "s \<noteq> []" "is_ascii (hd s)"
  then show "\<And>replaced :: byte list \<Rightarrow> string. ((replaced, dropWhile is_ascii s), replaced, s) \<in> measure (length \<circ> snd)"
    by (cases s) (auto simp: le_imp_less_Suc length_dropWhile_le)
qed auto

declare unquote_runs.simps [simp del]

definition unquote :: "(byte list \<Rightarrow> string) \<Rightarrow> string \<Rightarrow> string" where
  "unquote replaced s = (if CHR ''%'' \<notin> set s then s else unquote_runs replaced s)"

section \<open>Addresses\<close>

definition SCHEME :: string where
  "SCHEME = ''serial://''"

definition is_serial_address :: "pyval \<Rightarrow> bool res" where
  "is_serial_address address = (if \<not> truthy address then Inr False
     else case address of VStr s \<Rightarrow> Inr (startswith (lower (strip s)) SCHEME) | _ \<Rightarrow> Inl AttributeError)"

definition make_address :: "pyval \<Rightarrow> pyval \<Rightarrow> pyval \<Rightarrow> pyval \<Rightarrow> string res" where
  "make_address vid pid serial port_path = res_bind (lower_or_empty vid) (\<lambda>v. res_bind (lower_or_empty pid) (\<lambda>p.
     if truthy serial then Inr (SCHEME @ v @ '':'' @ p @ ''/serial/'' @ quote (py_str serial))
     else if truthy port_path then Inr (SCHEME @ v @ '':'' @ p @ ''/port/'' @ quote (py_str port_path))
     else Inl ValueError))"

record identity =
  i_vid :: pyval
  i_pid :: pyval
  i_serial :: pyval
  i_port :: pyval

text \<open>
  \<^verbatim>\<open>_ADDR_RE\<close> on a stripped address, which has no newline at its end: two ids of four hexadecimal digits, the kind, and a value
  of at least one character and without newline.
\<close>

definition hex4 :: "string \<Rightarrow> bool" where
  "hex4 s = (length s = 4 \<and> list_all (\<lambda>c. hex_nibble c \<noteq> None) s)"

definition addr_value :: "string \<Rightarrow> (bool \<times> string) option" where
  "addr_value s = (if startswith s ''/serial/'' then Some (True, drop 8 s)
     else if startswith s ''/port/'' then Some (False, drop 6 s) else None)"

definition addr_match :: "string \<Rightarrow> (string \<times> string \<times> bool \<times> string) option" where
  "addr_match s = (let t = drop 9 s in
     if startswith s SCHEME \<and> hex4 (take 4 t) \<and> take 1 (drop 4 t) = '':'' \<and> hex4 (take 4 (drop 5 t))
     then (case addr_value (drop 9 t) of
        Some (kind, v) \<Rightarrow> if v \<noteq> [] \<and> CHR 0x0A \<notin> set v then Some (take 4 t, take 4 (drop 5 t), kind, v) else None
      | None \<Rightarrow> None)
     else None)"

definition parse_address :: "(byte list \<Rightarrow> string) \<Rightarrow> pyval \<Rightarrow> identity option res" where
  "parse_address replaced address = (if \<not> truthy address then Inr None else case address of
     VStr s \<Rightarrow> Inr (map_option (\<lambda>(vid, pid, kind, v). \<lparr>i_vid = VStr (lower vid), i_pid = VStr (lower pid),
         i_serial = (if kind then VStr (unquote replaced v) else VNone),
         i_port = (if kind then VNone else VStr (unquote replaced v))\<rparr>) (addr_match (strip s)))
   | _ \<Rightarrow> Inl AttributeError)"

section \<open>The tree of devices\<close>

text \<open>
  What is read of \<^verbatim>\<open>/sys/class/tty\<close>, \<^verbatim>\<open>/sys/devices\<close> and \<^verbatim>\<open>/dev/serial\<close>. A path is the list of its components. \<open>device_link\<close> is the
  resolved link of a tty to its device, if there is one that can be resolved; \<open>serial_dir\<close> lists the
  links of a directory of \<^verbatim>\<open>/dev/serial\<close> with the paths they lead to, and is \<open>None\<close> for a directory that cannot be read;
  \<open>real_path\<close> is \<^verbatim>\<open>os.path.realpath\<close> of a device name.
\<close>

type_synonym dirpath = "string list"

datatype sys_attr = NoAttr | NotReadable | Bytes "byte list"

record sysfs =
  tty_dir :: bool
  tty_names :: "string list"
  device_link :: "string \<Rightarrow> dirpath option"
  attr :: "dirpath \<Rightarrow> string \<Rightarrow> sys_attr"
  serial_dir :: "string \<Rightarrow> (string \<times> dirpath) list option"
  real_path :: "string \<Rightarrow> dirpath option"

definition path_name :: "dirpath \<Rightarrow> string" where
  "path_name p = (if p = [] then [] else last p)"

definition read_sysfs_text :: "sysfs \<Rightarrow> dirpath \<Rightarrow> string \<Rightarrow> string option" where
  "read_sysfs_text sys d f = (case attr sys d f of
     Bytes bs \<Rightarrow> (case decode_utf8 (take 256 bs) of Inr s \<Rightarrow> Some (strip s) | Inl _ \<Rightarrow> None)
   | _ \<Rightarrow> None)"

definition read_sysfs_display :: "sysfs \<Rightarrow> dirpath \<Rightarrow> string \<Rightarrow> string option" where
  "read_sysfs_display sys d f = (case read_sysfs_text sys d f of
     None \<Rightarrow> None
   | Some s \<Rightarrow> let t = strip (filter is_printable s) in if t = [] then None else Some t)"

text \<open>\<^verbatim>\<open>(_read_sysfs_text(...) or "").lower()\<close>.\<close>

definition sys_id :: "sysfs \<Rightarrow> dirpath \<Rightarrow> string \<Rightarrow> string" where
  "sys_id sys d f = (case read_sysfs_text sys d f of None \<Rightarrow> [] | Some s \<Rightarrow> lower s)"

fun usb_walk :: "nat \<Rightarrow> sysfs \<Rightarrow> dirpath \<Rightarrow> dirpath option" where
  "usb_walk 0 sys node = None"
| "usb_walk (Suc n) sys node = (if attr sys node ''idVendor'' \<noteq> NoAttr then Some node
     else let parent = butlast node in if parent = node \<or> parent = [''sys''] then None else usb_walk n sys parent)"

definition usb_device_dir_for_tty :: "sysfs \<Rightarrow> string \<Rightarrow> dirpath option" where
  "usb_device_dir_for_tty sys t = (case device_link sys t of None \<Rightarrow> None | Some node \<Rightarrow> usb_walk 10 sys node)"

text \<open>\<^verbatim>\<open>_IFACE_SUFFIX_RE.search\<close>, read from the end of the name.\<close>

definition iface_suffix :: "string \<Rightarrow> string option" where
  "iface_suffix name = (let r = rev name; r = (if take 1 r = [CHR 0x0A] then drop 1 r else r);
       after = dropWhile is_digit r; before = dropWhile is_digit (drop 1 after) in
     if takeWhile is_digit r \<noteq> [] \<and> take 1 after = ''.'' \<and> takeWhile is_digit (drop 1 after) \<noteq> [] \<and> take 1 before = '':''
     then Some (rev (takeWhile is_digit r)) else None)"

fun iface_walk :: "nat \<Rightarrow> dirpath \<Rightarrow> int option" where
  "iface_walk 0 node = None"
| "iface_walk (Suc n) node = (case iface_suffix (path_name node) of
     Some ds \<Rightarrow> int_of_str ds
   | None \<Rightarrow> let parent = butlast node in if parent = node \<or> parent = [''sys''] then None else iface_walk n parent)"

definition interface_for_tty :: "sysfs \<Rightarrow> string \<Rightarrow> int option" where
  "interface_for_tty sys t = (case device_link sys t of None \<Rightarrow> None | Some node \<Rightarrow> iface_walk 10 node)"

definition is_usb_tty :: "string \<Rightarrow> bool" where
  "is_usb_tty t = (startswith t ''ttyUSB'' \<or> startswith t ''ttyACM'')"

text \<open>The links of one directory: an entry is replaced only by one without \<^verbatim>\<open>-usbv2-\<close> in place of one with it.\<close>

definition add_link :: "string \<Rightarrow> string \<times> dirpath \<Rightarrow> (string \<times> string) list \<Rightarrow> (string \<times> string) list" where
  "add_link kind entry links = (case entry of (name, target) \<Rightarrow>
     if butlast target \<noteq> [''dev''] \<or> target = [] then links
     else let tty = last target; link = ''/dev/serial/'' @ kind @ ''/'' @ name in
       (case map_of links tty of
          None \<Rightarrow> AList.update tty link links
        | Some cur \<Rightarrow> if contains (last (split_on slash cur)) ''-usbv2-'' \<and> \<not> contains name ''-usbv2-'' then AList.update tty link links else links))"

definition serial_links :: "sysfs \<Rightarrow> string \<Rightarrow> (string \<times> string) list" where
  "serial_links sys kind = (case serial_dir sys kind of
     None \<Rightarrow> []
   | Some entries \<Rightarrow> fold (add_link kind) (sort_key fst entries) [])"

fun serial_unique_loop :: "sysfs \<Rightarrow> string \<Rightarrow> string \<Rightarrow> string \<Rightarrow> string \<Rightarrow> string list \<Rightarrow> string list \<Rightarrow> bool" where
  "serial_unique_loop sys vid pid serial own seen [] = True"
| "serial_unique_loop sys vid pid serial own seen (t # ts) = (if \<not> is_usb_tty t then serial_unique_loop sys vid pid serial own seen ts
     else case usb_device_dir_for_tty sys t of
        None \<Rightarrow> serial_unique_loop sys vid pid serial own seen ts
      | Some d \<Rightarrow> if path_name d = own \<or> path_name d \<in> set seen then serial_unique_loop sys vid pid serial own seen ts
          else if sys_id sys d ''idVendor'' = vid \<and> sys_id sys d ''idProduct'' = pid \<and> read_sysfs_text sys d ''serial'' = Some serial then False
          else serial_unique_loop sys vid pid serial own (path_name d # seen) ts)"

definition serial_is_unique :: "sysfs \<Rightarrow> string \<Rightarrow> string \<Rightarrow> string \<Rightarrow> string \<Rightarrow> bool" where
  "serial_is_unique sys vid pid serial own = (\<not> tty_dir sys \<or> serial_unique_loop sys vid pid serial own [] (tty_names sys))"

section \<open>Snapshots of a tty\<close>

definition str_or_none :: "string option \<Rightarrow> pyval" where
  "str_or_none s = (case s of None \<Rightarrow> VNone | Some t \<Rightarrow> VStr t)"

definition int_or_none :: "int option \<Rightarrow> pyval" where
  "int_or_none i = (case i of None \<Rightarrow> VNone | Some n \<Rightarrow> VInt n)"

definition SYS_TTY :: string where
  "SYS_TTY = ''/sys/class/tty''"

definition identity_for_tty :: "sysfs \<Rightarrow> pyval \<Rightarrow> dict option" where
  "identity_for_tty sys tty = (case tty of
     VStr p \<Rightarrow> if p = [] then None else (case real_path sys p of
        None \<Rightarrow> None
      | Some target \<Rightarrow> let name = path_name target in
          if \<not> inside SYS_TTY (normpath (path_join SYS_TTY name)) then None
          else (case usb_device_dir_for_tty sys name of
             None \<Rightarrow> None
           | Some d \<Rightarrow> let vid = sys_id sys d ''idVendor''; pid = sys_id sys d ''idProduct''; serial = read_sysfs_text sys d ''serial'' in
               if vid = [] \<or> pid = [] then None
               else Some [(''vid'', VStr vid), (''pid'', VStr pid),
                 (''serial'', case serial of None \<Rightarrow> VNone
                    | Some s \<Rightarrow> if s \<noteq> [] \<and> \<not> serial_is_unique sys vid pid s (path_name d) then VNone else VStr s),
                 (''port_path'', VStr (path_name d)), (''interface'', int_or_none (interface_for_tty sys name))]))
   | _ \<Rightarrow> None)"

text \<open>One candidate: the name of the tty, the name of its device directory and its serial.\<close>

definition candidate :: "sysfs \<Rightarrow> string \<Rightarrow> string \<Rightarrow> pyval \<Rightarrow> string \<Rightarrow> (string \<times> string \<times> string option) option" where
  "candidate sys vid pid want t = (if \<not> is_usb_tty t then None else case usb_device_dir_for_tty sys t of
     None \<Rightarrow> None
   | Some d \<Rightarrow> if sys_id sys d ''idVendor'' \<noteq> vid \<or> sys_id sys d ''idProduct'' \<noteq> pid then None
       else if want \<noteq> VNone \<and> (case interface_for_tty sys t of None \<Rightarrow> False | Some i \<Rightarrow> \<not> py_eq (VInt i) want) then None
       else Some (t, path_name d, read_sysfs_text sys d ''serial''))"

definition dev_node :: "string \<Rightarrow> string" where
  "dev_node t = ''/dev/'' @ t"

definition on_port :: "pyval \<Rightarrow> (string \<times> string \<times> string option) list \<Rightarrow> string option" where
  "on_port port cs = map_option (dev_node \<circ> fst) (find (\<lambda>(_, p, _). py_eq (VStr p) port) cs)"

definition resolve_candidates :: "pyval \<Rightarrow> pyval \<Rightarrow> (string \<times> string \<times> string option) list \<Rightarrow> string option" where
  "resolve_candidates serial port_path cs = (if truthy serial then
       (case filter (\<lambda>(_, _, s). py_eq (str_or_none s) serial) cs of
          [] \<Rightarrow> None
        | [c] \<Rightarrow> Some (dev_node (fst c))
        | ms \<Rightarrow> if \<not> truthy port_path then None else on_port port_path ms)
     else if truthy port_path then on_port port_path cs else None)"

definition resolve_identity :: "sysfs \<Rightarrow> pyval \<Rightarrow> string option" where
  "resolve_identity sys ident = (case ident of
     VDict d \<Rightarrow> (case (dict_get d ''vid'', dict_get d ''pid'') of
        (VStr vid, VStr pid) \<Rightarrow> if vid = [] \<or> pid = [] \<or> \<not> tty_dir sys then None
          else resolve_candidates (dict_get d ''serial'') (dict_get d ''port_path'')
            (List.map_filter (candidate sys (lower vid) (lower pid) (dict_get d ''interface'')) (sort (tty_names sys)))
      | _ \<Rightarrow> None)
   | _ \<Rightarrow> None)"

section \<open>Cables\<close>

definition matches_cable :: "sysfs \<Rightarrow> string \<Rightarrow> string \<Rightarrow> pyval \<Rightarrow> pyval \<Rightarrow> string \<Rightarrow> bool" where
  "matches_cable sys vid pid serial port_path t = (is_usb_tty t \<and> (case usb_device_dir_for_tty sys t of
     None \<Rightarrow> False
   | Some d \<Rightarrow> sys_id sys d ''idVendor'' = vid \<and> sys_id sys d ''idProduct'' = pid \<and>
       (if truthy serial then py_eq (str_or_none (read_sysfs_text sys d ''serial'')) serial
        else truthy port_path \<and> py_eq (VStr (path_name d)) port_path)))"

definition resolve_tty :: "sysfs \<Rightarrow> pyval \<Rightarrow> pyval \<Rightarrow> pyval \<Rightarrow> pyval \<Rightarrow> string option res" where
  "resolve_tty sys vid pid serial port_path = res_bind (lower_or_empty vid) (\<lambda>v. res_bind (lower_or_empty pid) (\<lambda>p.
     if \<not> tty_dir sys then Inr None
     else Inr (map_option dev_node (find (matches_cable sys v p serial port_path) (sort (tty_names sys))))))"

definition resolve_address_to_tty :: "(byte list \<Rightarrow> string) \<Rightarrow> sysfs \<Rightarrow> pyval \<Rightarrow> string option res" where
  "resolve_address_to_tty replaced sys address = res_bind (parse_address replaced address) (\<lambda>parts. case parts of
     None \<Rightarrow> Inr None
   | Some i \<Rightarrow> resolve_tty sys (i_vid i) (i_pid i) (i_serial i) (i_port i))"

record cable =
  c_vid :: string
  c_pid :: string
  c_serial :: "string option"
  c_port :: string
  c_tty :: string
  c_manufacturer :: "string option"
  c_product :: "string option"
  c_interface :: "int option"
  c_by_id :: "string option"
  c_by_path :: "string option"

definition cable_of :: "sysfs \<Rightarrow> string \<Rightarrow> cable option" where
  "cable_of sys t = (if \<not> is_usb_tty t then None else case usb_device_dir_for_tty sys t of
     None \<Rightarrow> None
   | Some d \<Rightarrow> let vid = sys_id sys d ''idVendor''; pid = sys_id sys d ''idProduct'' in
       if vid = [] \<or> pid = [] then None
       else Some \<lparr>c_vid = vid, c_pid = pid, c_serial = read_sysfs_text sys d ''serial'', c_port = path_name d, c_tty = dev_node t,
         c_manufacturer = read_sysfs_display sys d ''manufacturer'', c_product = read_sysfs_display sys d ''product'',
         c_interface = interface_for_tty sys t, c_by_id = map_of (serial_links sys ''by-id'') t, c_by_path = map_of (serial_links sys ''by-path'') t\<rparr>)"

definition list_cables :: "sysfs \<Rightarrow> cable list" where
  "list_cables sys = (if \<not> tty_dir sys then [] else List.map_filter (cable_of sys) (sort (tty_names sys)))"

section \<open>Laws of addresses\<close>

lemma hex_val_upper: "n < 16 \<Longrightarrow> hex_nibble (hex_upper n) = Some n"
  by (auto simp: hex_nibble_def hex_upper_def is_digit_def of_char_of)

lemma unreserved_ascii: "unreserved c \<Longrightarrow> is_ascii c \<and> c \<noteq> CHR ''%'' \<and> \<not> is_space c \<and> c \<noteq> CHR 0x0A"
  by (auto simp: unreserved_def is_digit_def is_space_def)

lemma hex_upper_chars: "n < 16 \<Longrightarrow> is_ascii (hex_upper n) \<and> \<not> is_space (hex_upper n)"
  by (auto simp: hex_upper_def is_space_def of_char_of)

lemma byte_below: "unat (b :: byte) < 256"
  using unsigned_less [of b, where 'a = nat] by simp

lemma byte_parts: "unat (b :: byte) div 16 < 16" "unat b mod 16 < 16" "(of_nat (16 * (unat b div 16) + unat b mod 16) :: byte) = b"
proof -
  show "unat b div 16 < 16" using byte_below [of b] by (simp add: less_mult_imp_div_less)
qed simp_all

lemma unquote_quote_byte: "unquote_to_bytes (quote_byte b @ s) = b # unquote_to_bytes s"
proof (cases "unreserved (char_of (unat b))")
  case True
  have "unat b < 256" by (rule byte_below)
  with True unreserved_ascii [OF True] show ?thesis by (simp add: quote_byte_def of_char_of)
next
  case False
  with byte_parts [of b] show ?thesis by (simp add: quote_byte_def hex_val_upper)
qed

lemma unquote_quote_bytes: "unquote_to_bytes (concat (map quote_byte bs)) = bs"
  by (induction bs) (simp_all add: unquote_quote_byte)

lemma quote_byte_chars: "c \<in> set (quote_byte b) \<Longrightarrow> is_ascii c \<and> \<not> is_space c"
  using byte_parts(1,2) [of b] unreserved_ascii [of "char_of (unat b)"] hex_upper_chars
  by (auto simp: quote_byte_def is_space_def split: if_splits)

lemma quote_chars: "c \<in> set (quote s) \<Longrightarrow> is_ascii c \<and> \<not> is_space c"
  using quote_byte_chars by (auto simp: quote_def)

lemma quote_byte_plain: "CHR ''%'' \<notin> set (quote_byte b) \<Longrightarrow> quote_byte b = [char_of (unat b)] \<and> unat b < 128"
  using unreserved_ascii [of "char_of (unat b)"] byte_below [of b] by (auto simp: quote_byte_def of_char_of split: if_splits)

lemma quote_plain: "CHR ''%'' \<notin> set (quote s) \<Longrightarrow> quote s = s"
proof (induction s)
  case (Cons c s)
  have c: "code c < 256" by (rule code_less)
  have q: "quote (c # s) = concat (map quote_byte (utf8_char c)) @ quote s" by (simp add: quote_def utf8_encode_def)
  with Cons.prems have no: "\<forall>b\<in>set (utf8_char c). CHR ''%'' \<notin> set (quote_byte b)" "CHR ''%'' \<notin> set (quote s)" by auto
  have "is_ascii c"
  proof (rule ccontr)
    assume n: "\<not> is_ascii c"
    have "code c div 64 < 4" using c by (simp add: less_mult_imp_div_less)
    then have "192 + code c div 64 < 256" by simp
    then have "unat (of_nat (192 + code c div 64) :: byte) = 192 + code c div 64" by (simp only: unat_of_nat mod_less len_of_numeral_defs power_numeral) simp
    with n no(1) quote_byte_plain show False by (fastforce simp: utf8_char_def)
  qed
  then have "utf8_char c = [of_nat (code c)]" "unat (of_nat (code c) :: byte) = code c" using c by (simp_all add: utf8_char_def unat_of_nat)
  moreover from this no(1) have "quote_byte (of_nat (code c)) = [c]" using quote_byte_plain [of "of_nat (code c)"] by simp
  ultimately show ?case using no(2) q Cons.IH by simp
qed (simp add: quote_def utf8_encode_def)

lemma unquote_runs_Nil [simp]: "unquote_runs replaced [] = []"
  by (simp add: unquote_runs.simps)

lemma unquote_runs_ascii: "list_all is_ascii s \<Longrightarrow> s \<noteq> [] \<Longrightarrow> unquote_runs replaced s = decode_run replaced s"
  by (subst unquote_runs.simps) (auto simp: list_all_iff takeWhile_eq_all_conv [THEN iffD2] dropWhile_eq_Nil_conv [THEN iffD2])

lemma unquote_quote [simp]: "unquote replaced (quote s) = s"
proof (cases "CHR ''%'' \<in> set (quote s)")
  case True
  then have "quote s \<noteq> []" by auto
  then have "unquote replaced (quote s) = decode_run replaced (quote s)"
    using True quote_chars unquote_runs_ascii [of "quote s"] by (auto simp: unquote_def list_all_iff)
  also have "\<dots> = s" by (simp add: decode_run_def quote_def unquote_quote_bytes utf8_encode_def utf8_read_back)
  finally show ?thesis .
next
  case False
  then show ?thesis using quote_plain [OF False] by (simp add: unquote_def)
qed

lemma quote_nonempty: "s \<noteq> [] \<Longrightarrow> quote s \<noteq> []"
  by (metis unquote_quote list.set(1) empty_iff unquote_def)

lemma hex_val_lower: "hex_nibble (lower_char c) = hex_nibble c"
  by (auto simp: hex_nibble_def lower_char_def Let_def is_digit_def of_char_of)

lemma hex4_lower [simp]: "hex4 (lower s) = hex4 s"
  by (simp add: hex4_def lower_def list.pred_map comp_def hex_val_lower)

lemma hex_val_not_space: "hex_nibble c \<noteq> None \<Longrightarrow> \<not> is_space c"
  by (auto simp: hex_nibble_def is_space_def is_digit_def split: if_splits)

lemma hex4_no_space: "hex4 s \<Longrightarrow> c \<in> set s \<Longrightarrow> \<not> is_space c"
  using hex_val_not_space by (auto simp: hex4_def list_all_iff)

lemma hex4_ne: "hex4 s \<Longrightarrow> s \<noteq> []"
  by (auto simp: hex4_def)

lemma lower_hex4: "hex4 s \<Longrightarrow> lower_or_empty (VStr s) = Inr (lower s)"
  by (simp add: lower_or_empty_def hex4_ne)

lemma addr_match_made:
  assumes "hex4 vid" "hex4 pid" "v \<noteq> []" "CHR 0x0A \<notin> set v" "addr_value w = Some (kind, v)"
  shows "addr_match (SCHEME @ vid @ '':'' @ pid @ w) = Some (vid, pid, kind, v)"
  using assms by (simp add: addr_match_def SCHEME_def hex4_def startswith_def Let_def)

lemma addr_value_kinds: "addr_value (''/serial/'' @ v) = Some (True, v)" "addr_value (''/port/'' @ v) = Some (False, v)"
  by (simp_all add: addr_value_def startswith_def)

lemma parse_made:
  assumes "hex4 vid" "hex4 pid" "s \<noteq> []" and w: "w = (if kind then ''/serial/'' else ''/port/'')"
  shows "parse_address replaced (VStr (SCHEME @ lower vid @ '':'' @ lower pid @ w @ quote s)) =
    Inr (Some \<lparr>i_vid = VStr (lower vid), i_pid = VStr (lower pid), i_serial = (if kind then VStr s else VNone), i_port = (if kind then VNone else VStr s)\<rparr>)"
proof -
  let ?a = "SCHEME @ lower vid @ '':'' @ lower pid @ w @ quote s"
  have "\<forall>c\<in>set ?a. \<not> is_space c"
    using hex4_no_space [of "lower vid"] hex4_no_space [of "lower pid"] quote_chars [of _ s] assms(1,2)
    by (auto simp: SCHEME_def w is_space_def)
  then have st: "strip ?a = ?a" by (rule strip_no_space)
  have "CHR 0x0A \<notin> set (quote s)" using quote_chars [of "CHR 0x0A" s] by (auto simp: is_space_def)
  then have "addr_match ?a = Some (lower vid, lower pid, kind, quote s)"
    using assms(1-3) addr_value_kinds by (intro addr_match_made) (auto simp: quote_nonempty w)
  with st show ?thesis by (simp add: parse_address_def SCHEME_def)
qed

text \<open>An address is parsed into the identity it was made of.\<close>

lemma address_round_trip:
  assumes "hex4 vid" "hex4 pid" "i = VStr s" "s \<noteq> []"
  shows "\<exists>a. make_address (VStr vid) (VStr pid) i port = Inr a \<and>
      parse_address replaced (VStr a) = Inr (Some \<lparr>i_vid = VStr (lower vid), i_pid = VStr (lower pid), i_serial = i, i_port = VNone\<rparr>)"
    "\<not> truthy no \<Longrightarrow> \<exists>a. make_address (VStr vid) (VStr pid) no i = Inr a \<and>
      parse_address replaced (VStr a) = Inr (Some \<lparr>i_vid = VStr (lower vid), i_pid = VStr (lower pid), i_serial = VNone, i_port = i\<rparr>)"
  using assms parse_made [OF assms(1,2,4) refl, of replaced True] parse_made [OF assms(1,2,4) refl, of replaced False]
  by (simp_all add: make_address_def lower_hex4 res_bind_def py_str_def)

section \<open>Laws of snapshots\<close>

text \<open>The tty \<open>u\<close> of one tree is the tty \<open>t\<close> of another after a renumbering: same port, ids, serial and interface.\<close>

definition same_tty :: "sysfs \<Rightarrow> string \<Rightarrow> sysfs \<Rightarrow> string \<Rightarrow> bool" where
  "same_tty a t b u = (case (usb_device_dir_for_tty a t, usb_device_dir_for_tty b u) of
     (Some d, Some e) \<Rightarrow> path_name e \<noteq> [] \<and> path_name d = path_name e \<and> sys_id a d ''idVendor'' = sys_id b e ''idVendor'' \<and>
       sys_id a d ''idProduct'' = sys_id b e ''idProduct'' \<and> read_sysfs_text a d ''serial'' = read_sysfs_text b e ''serial'' \<and>
       interface_for_tty a t = interface_for_tty b u
   | _ \<Rightarrow> False)"

text \<open>The other ttys of the device of \<open>u\<close> have interfaces of their own.\<close>

definition told_apart :: "sysfs \<Rightarrow> string \<Rightarrow> bool" where
  "told_apart sys u = list_all (\<lambda>w. w = u \<or> \<not> is_usb_tty w \<or>
     map_option path_name (usb_device_dir_for_tty sys w) \<noteq> map_option path_name (usb_device_dir_for_tty sys u) \<or>
     (interface_for_tty sys w \<noteq> None \<and> interface_for_tty sys u \<noteq> None \<and> interface_for_tty sys w \<noteq> interface_for_tty sys u)) (tty_names sys)"

definition bus_candidates :: "sysfs \<Rightarrow> dict \<Rightarrow> (string \<times> string \<times> string option) list" where
  "bus_candidates sys ident = List.map_filter (candidate sys (lower (py_str (dict_get ident ''vid''))) (lower (py_str (dict_get ident ''pid'')))
     (dict_get ident ''interface'')) (sort (tty_names sys))"

lemma find_only: "c \<in> set xs \<Longrightarrow> P c \<Longrightarrow> (\<And>x. x \<in> set xs \<Longrightarrow> P x \<Longrightarrow> x = c) \<Longrightarrow> find P xs = Some c"
proof (induction xs)
  case (Cons x xs)
  show ?case
  proof (cases "P x")
    case True
    with Cons.prems(3) [of x] show ?thesis by simp
  next
    case False
    with Cons show ?thesis by fastforce
  qed
qed simp

lemma find_SomeD: "find P xs = Some c \<Longrightarrow> c \<in> set xs \<and> P c"
  by (induction xs) (simp_all split: if_splits)

lemma py_eq_opt_str: "py_eq (str_or_none s) (str_or_none t) \<longleftrightarrow> s = t"
  by (cases s; cases t) (simp_all add: str_or_none_def)

lemma mem_map_filter: "x \<in> set (List.map_filter f xs) \<longleftrightarrow> (\<exists>y\<in>set xs. f y = Some x)"
  by (induction xs) (auto simp: map_filter_simps split: option.splits)

lemma on_port_only:
  assumes "c \<in> set cs" "fst (snd c) = p" "\<And>x. x \<in> set cs \<Longrightarrow> fst (snd x) = p \<Longrightarrow> x = c"
  shows "on_port (VStr p) cs = Some (dev_node (fst c))"
proof -
  have "(\<lambda>(_ :: string, q, _ :: string option). py_eq (VStr q) (VStr p)) = (\<lambda>x. fst (snd x) = p)" by (auto simp: fun_eq_iff)
  moreover have "find (\<lambda>x. fst (snd x) = p) cs = Some c" using assms by (intro find_only)
  ultimately show ?thesis by (simp add: on_port_def)
qed

lemma resolve_candidates_only:
  assumes "c \<in> set cs" "snd c = (p, s)" "p \<noteq> []" "\<And>x. x \<in> set cs \<Longrightarrow> fst (snd x) = p \<Longrightarrow> x = c"
    and "serial = VNone \<or> serial = str_or_none s"
  shows "resolve_candidates serial (VStr p) cs = Some (dev_node (fst c))"
proof (cases "truthy serial")
  case True
  with assms(5) have ser: "serial = str_or_none s" by auto
  let ?ms = "filter (\<lambda>(_, _, s). py_eq (str_or_none s) serial) cs"
  have c: "c \<in> set ?ms" using assms(1,2) by (simp add: ser split_beta py_eq_opt_str)
  have sub: "set ?ms \<subseteq> set cs" by (rule filter_is_subset)
  have only: "on_port (VStr p) ?ms = Some (dev_node (fst c))"
    by (rule on_port_only [OF c]) (use assms(2) in simp, rule assms(4), use sub in blast)
  show ?thesis
  proof (cases ?ms)
    case Nil
    with c show ?thesis by (metis empty_iff list.set(1))
  next
    case (Cons a ms)
    then show ?thesis
    proof (cases ms)
      case Nil
      with Cons c have "a = c" by (metis list.set_cases set_ConsD empty_iff list.set(1))
      with Nil Cons True show ?thesis by (simp add: resolve_candidates_def)
    next
      case (Cons b ms')
      with \<open>?ms = a # ms\<close> True only assms(3) show ?thesis by (simp add: resolve_candidates_def)
    qed
  qed
next
  case False
  have "on_port (VStr p) cs = Some (dev_node (fst c))"
    by (rule on_port_only [OF assms(1)]) (use assms(2) in simp, rule assms(4))
  with False assms(3) show ?thesis by (simp add: resolve_candidates_def)
qed

lemma resolve_identity_candidates:
  "dict_get d ''vid'' = VStr vid \<Longrightarrow> dict_get d ''pid'' = VStr pid \<Longrightarrow> vid \<noteq> [] \<Longrightarrow> pid \<noteq> [] \<Longrightarrow> tty_dir sys \<Longrightarrow>
    resolve_identity sys (VDict d) = resolve_candidates (dict_get d ''serial'') (dict_get d ''port_path'') (bus_candidates sys d)"
  by (simp add: resolve_identity_def bus_candidates_def py_str_def)

lemma candidate_iff:
  "candidate sys vid pid want w = Some c \<longleftrightarrow> is_usb_tty w \<and> (\<exists>e. usb_device_dir_for_tty sys w = Some e \<and>
     sys_id sys e ''idVendor'' = vid \<and> sys_id sys e ''idProduct'' = pid \<and> c = (w, path_name e, read_sysfs_text sys e ''serial'') \<and>
     (want = VNone \<or> (\<forall>i. interface_for_tty sys w = Some i \<longrightarrow> py_eq (VInt i) want)))"
  by (cases "interface_for_tty sys w") (auto simp add: candidate_def simp del: py_eq.simps split: option.splits)

lemma candidatesD:
  assumes "c \<in> set (bus_candidates sys d)" "dict_get d ''vid'' = VStr vid" "dict_get d ''pid'' = VStr pid"
  obtains w e where "w \<in> set (tty_names sys)" "is_usb_tty w" "usb_device_dir_for_tty sys w = Some e" "c = (w, path_name e, read_sysfs_text sys e ''serial'')"
    "sys_id sys e ''idVendor'' = lower vid" "sys_id sys e ''idProduct'' = lower pid"
    "dict_get d ''interface'' = VNone \<or> (\<forall>i. interface_for_tty sys w = Some i \<longrightarrow> py_eq (VInt i) (dict_get d ''interface''))"
proof -
  from assms obtain w where "w \<in> set (tty_names sys)" "candidate sys (lower vid) (lower pid) (dict_get d ''interface'') w = Some c"
    by (auto simp: bus_candidates_def mem_map_filter py_str_def)
  then show thesis using that unfolding candidate_iff by blast
qed

lemma identity_for_ttyD:
  assumes "identity_for_tty sys (VStr p) = Some ident" "real_path sys p = Some target"
  obtains d where "usb_device_dir_for_tty sys (path_name target) = Some d"
    "dict_get ident ''vid'' = VStr (sys_id sys d ''idVendor'')" "dict_get ident ''pid'' = VStr (sys_id sys d ''idProduct'')"
    "sys_id sys d ''idVendor'' \<noteq> []" "sys_id sys d ''idProduct'' \<noteq> []"
    "dict_get ident ''serial'' = VNone \<or> dict_get ident ''serial'' = str_or_none (read_sysfs_text sys d ''serial'')"
    "dict_get ident ''port_path'' = VStr (path_name d)" "dict_get ident ''interface'' = int_or_none (interface_for_tty sys (path_name target))"
  using assms by (auto simp: identity_for_tty_def Let_def str_or_none_def split: if_splits option.splits)

lemma sys_id_lower: "lower (sys_id sys d f) = sys_id sys d f"
  by (auto simp: sys_id_def split: option.splits)

lemma told_apartD:
  assumes "told_apart sys u" "w \<in> set (tty_names sys)" "is_usb_tty w" "usb_device_dir_for_tty sys w = Some e" "usb_device_dir_for_tty sys u = Some d"
    "path_name e = path_name d" "interface_for_tty sys u = i" "i = None \<or> interface_for_tty sys w = None \<or> interface_for_tty sys w = i"
  shows "w = u"
  using assms by (auto simp: told_apart_def list_all_iff)

lemma py_eq_int: "py_eq (VInt i) (int_or_none j) \<longleftrightarrow> j = Some i"
  by (cases j) (auto simp: int_or_none_def float_eq_def)

lemma opt_int_None: "int_or_none j = VNone \<longleftrightarrow> j = None"
  by (cases j) (auto simp: int_or_none_def)

lemma resolved_same_tty:
  assumes "identity_for_tty a (VStr p) = Some ident" "real_path a p = Some target" "same_tty a (path_name target) b u"
    "tty_dir b" "u \<in> set (tty_names b)" "is_usb_tty u" "told_apart b u"
  shows "resolve_identity b (VDict ident) = Some (dev_node u)"
proof -
  from identity_for_ttyD [OF assms(1,2)] obtain d where d: "usb_device_dir_for_tty a (path_name target) = Some d"
    "dict_get ident ''vid'' = VStr (sys_id a d ''idVendor'')" "dict_get ident ''pid'' = VStr (sys_id a d ''idProduct'')"
    "sys_id a d ''idVendor'' \<noteq> []" "sys_id a d ''idProduct'' \<noteq> []"
    "dict_get ident ''serial'' = VNone \<or> dict_get ident ''serial'' = str_or_none (read_sysfs_text a d ''serial'')"
    "dict_get ident ''port_path'' = VStr (path_name d)" "dict_get ident ''interface'' = int_or_none (interface_for_tty a (path_name target))" .
  from assms(3) d(1) obtain e where e: "usb_device_dir_for_tty b u = Some e" "path_name d = path_name e" "path_name e \<noteq> []"
    "sys_id a d ''idVendor'' = sys_id b e ''idVendor''" "sys_id a d ''idProduct'' = sys_id b e ''idProduct''"
    "read_sysfs_text a d ''serial'' = read_sysfs_text b e ''serial''" "interface_for_tty a (path_name target) = interface_for_tty b u"
    by (auto simp: same_tty_def split: option.splits)
  let ?c = "(u, path_name e, read_sysfs_text b e ''serial'')"
  have "candidate b (sys_id a d ''idVendor'') (sys_id a d ''idProduct'') (dict_get ident ''interface'') u = Some ?c"
    using assms(6) d(8) e by (simp add: candidate_iff py_eq_int del: py_eq.simps)
  then have c: "?c \<in> set (bus_candidates b ident)"
    using assms(5) d(2,3) by (auto simp: bus_candidates_def mem_map_filter py_str_def sys_id_lower)
  have only: "x = ?c" if x: "x \<in> set (bus_candidates b ident)" "fst (snd x) = path_name e" for x
  proof -
    obtain w f where w: "w \<in> set (tty_names b)" "is_usb_tty w" "usb_device_dir_for_tty b w = Some f" "x = (w, path_name f, read_sysfs_text b f ''serial'')"
      and i: "dict_get ident ''interface'' = VNone \<or> (\<forall>i. interface_for_tty b w = Some i \<longrightarrow> py_eq (VInt i) (dict_get ident ''interface''))"
      by (rule candidatesD [OF x(1) d(2,3)])
    have "interface_for_tty b u = None \<or> interface_for_tty b w = None \<or> interface_for_tty b w = interface_for_tty b u"
      using i unfolding d(8) e(7) opt_int_None py_eq_int by (cases "interface_for_tty b w") auto
    then have "w = u" using told_apartD [OF assms(7) w(1-3) e(1) _ refl] w(4) x(2) by simp
    with w e(1) show ?thesis by simp
  qed
  show ?thesis
    using resolve_candidates_only [OF c _ _ only] d e(2,3,6) resolve_identity_candidates [OF d(2-5) assms(4)] by simp
qed

lemma resolve_candidates_sound:
  assumes "resolve_candidates serial port cs = Some n"
  obtains c where "c \<in> set cs" "n = dev_node (fst c)"
    "py_eq (VStr (fst (snd c))) port \<or> truthy serial \<and> py_eq (str_or_none (snd (snd c))) serial \<and> (\<forall>x\<in>set cs. py_eq (str_or_none (snd (snd x))) serial \<longrightarrow> x = c)"
proof -
  have port: "\<exists>c\<in>set cs. n = dev_node (fst c) \<and> py_eq (VStr (fst (snd c))) port" if "on_port port xs = Some n" "set xs \<subseteq> set cs" for xs
    using that unfolding on_port_def by (auto simp: split_beta dest!: find_SomeD) force
  let ?ms = "filter (\<lambda>(_, _, s). py_eq (str_or_none s) serial) cs"
  show thesis
  proof (cases "truthy serial \<and> (\<exists>c. ?ms = [c])")
    case True
    then obtain c where c: "?ms = [c]" by blast
    then have "set (filter (\<lambda>x. py_eq (str_or_none (snd (snd x))) serial) cs) = {c}" by (simp add: case_prod_unfold)
    then have "{x \<in> set cs. py_eq (str_or_none (snd (snd x))) serial} = {c}" by (simp only: set_filter)
    then have "\<forall>x\<in>set cs. py_eq (str_or_none (snd (snd x))) serial \<longrightarrow> x = c" "c \<in> set cs" "py_eq (str_or_none (snd (snd c))) serial"
by blast+
    moreover from c True assms have "n = dev_node (fst c)" by (simp add: resolve_candidates_def)
    ultimately show thesis using True that by blast
  next
    case False
    then have "on_port port ?ms = Some n \<or> on_port port cs = Some n"
      using assms by (auto simp: resolve_candidates_def split: if_splits list.splits)
    with port [of ?ms] port [of cs] have "\<exists>c\<in>set cs. n = dev_node (fst c) \<and> py_eq (VStr (fst (snd c))) port" by auto
    with that show thesis by blast
  qed
qed

section \<open>Properties\<close>

text \<open>
  C36. A saved identity outlives renumbering. The snapshot of a tty is resolved, in any later tree of devices, to the tty that
  belongs to the same device on the same port with the same interface, when that device is connected and the ttys of
  its chip can be told apart, whatever other cables with the same serial have been connected. What a snapshot is resolved to is always a
  tty of the ids of the snapshot that is on its port or is the only one there with its serial.
\<close>

theorem identity_survives_renumbering:
  assumes "identity_for_tty a (VStr p) = Some ident" and "real_path a p = Some target" and "tty_dir b"
  shows "(\<forall>u\<in>set (tty_names b). same_tty a (path_name target) b u \<and> is_usb_tty u \<and> told_apart b u \<longrightarrow> resolve_identity b (VDict ident) = Some (dev_node u)) \<and>
    (\<forall>n. resolve_identity b (VDict ident) = Some n \<longrightarrow> (\<exists>w\<in>set (tty_names b). \<exists>e. n = dev_node w \<and> usb_device_dir_for_tty b w = Some e \<and>
       dict_get ident ''vid'' = VStr (sys_id b e ''idVendor'') \<and> dict_get ident ''pid'' = VStr (sys_id b e ''idProduct'') \<and>
       (dict_get ident ''port_path'' = VStr (path_name e) \<or> dict_get ident ''serial'' = str_or_none (read_sysfs_text b e ''serial'') \<and>
         (\<forall>x\<in>set (bus_candidates b ident). str_or_none (snd (snd x)) = dict_get ident ''serial'' \<longrightarrow> fst x = w))))"
proof (intro conjI ballI allI impI)
  fix u
  assume "u \<in> set (tty_names b)" "same_tty a (path_name target) b u \<and> is_usb_tty u \<and> told_apart b u"
  with resolved_same_tty [OF assms(1,2) _ assms(3)] show "resolve_identity b (VDict ident) = Some (dev_node u)" by blast
next
  fix n
  assume n: "resolve_identity b (VDict ident) = Some n"
  from identity_for_ttyD [OF assms(1,2)] obtain d where d: "dict_get ident ''vid'' = VStr (sys_id a d ''idVendor'')" "dict_get ident ''pid'' = VStr (sys_id a d ''idProduct'')"
    "sys_id a d ''idVendor'' \<noteq> []" "sys_id a d ''idProduct'' \<noteq> []"
    and s: "dict_get ident ''serial'' = VNone \<or> dict_get ident ''serial'' = str_or_none (read_sysfs_text a d ''serial'')" "dict_get ident ''port_path'' = VStr (path_name d)" by metis
  from n have "resolve_candidates (dict_get ident ''serial'') (VStr (path_name d)) (bus_candidates b ident) = Some n"
    unfolding resolve_identity_candidates [OF d assms(3)] s(2) .
  then obtain c where c: "c \<in> set (bus_candidates b ident)" "n = dev_node (fst c)"
    "py_eq (VStr (fst (snd c))) (VStr (path_name d)) \<or> truthy (dict_get ident ''serial'') \<and> py_eq (str_or_none (snd (snd c))) (dict_get ident ''serial'') \<and>
      (\<forall>x\<in>set (bus_candidates b ident). py_eq (str_or_none (snd (snd x))) (dict_get ident ''serial'') \<longrightarrow> x = c)"
    by (rule resolve_candidates_sound)
  obtain w e where w: "w \<in> set (tty_names b)" "usb_device_dir_for_tty b w = Some e" "c = (w, path_name e, read_sysfs_text b e ''serial'')"
    "sys_id b e ''idVendor'' = sys_id a d ''idVendor''" "sys_id b e ''idProduct'' = sys_id a d ''idProduct''"
    using candidatesD [OF c(1) d(1,2)] unfolding sys_id_lower by metis
  have "py_eq v (dict_get ident ''serial'') \<longleftrightarrow> v = dict_get ident ''serial''" if "truthy (dict_get ident ''serial'')" for v
    using s(1) that by (cases "read_sysfs_text a d ''serial''") (auto simp: str_or_none_def)
  with c(3) w(3) have "path_name d = path_name e \<or> dict_get ident ''serial'' = str_or_none (read_sysfs_text b e ''serial'') \<and>
     (\<forall>x\<in>set (bus_candidates b ident). str_or_none (snd (snd x)) = dict_get ident ''serial'' \<longrightarrow> fst x = w)" by fastforce
  with w c(2) d(1,2) s(2) show "\<exists>w\<in>set (tty_names b). \<exists>e. n = dev_node w \<and> usb_device_dir_for_tty b w = Some e \<and>
       dict_get ident ''vid'' = VStr (sys_id b e ''idVendor'') \<and> dict_get ident ''pid'' = VStr (sys_id b e ''idProduct'') \<and>
       (dict_get ident ''port_path'' = VStr (path_name e) \<or> dict_get ident ''serial'' = str_or_none (read_sysfs_text b e ''serial'') \<and>
         (\<forall>x\<in>set (bus_candidates b ident). str_or_none (snd (snd x)) = dict_get ident ''serial'' \<longrightarrow> fst x = w))" by auto
qed

text \<open>Cables of one kind and one serial on the given ports.\<close>

definition port_dir :: "string \<Rightarrow> dirpath" where
  "port_dir port = [''sys'', ''devices'', ''usb1'', port]"

definition sample_attr :: "string \<Rightarrow> sys_attr" where
  "sample_attr f = (if f = ''idVendor'' then Bytes (utf8_encode ''067b'') else if f = ''idProduct'' then Bytes (utf8_encode ''23a3'')
     else if f = ''serial'' then Bytes (utf8_encode ''0001'') else NoAttr)"

definition sample_tree :: "(string \<times> string) list \<Rightarrow> sysfs" where
  "sample_tree cs = \<lparr>tty_dir = True, tty_names = map fst cs,
     device_link = (\<lambda>t. map_option (\<lambda>p. port_dir p @ [p @ '':1.0'', t]) (map_of cs t)),
     attr = (\<lambda>d f. if d \<in> set (map (port_dir \<circ> snd) cs) then sample_attr f else NoAttr),
     serial_dir = (\<lambda>_. None), real_path = (\<lambda>_. Some [''dev'', ''ttyUSB0''])\<rparr>"

definition sample_ident :: dict where
  "sample_ident = [(''vid'', VStr ''067b''), (''pid'', VStr ''23a3''), (''serial'', VStr ''0001''), (''port_path'', VStr ''1-1''), (''interface'', VInt 0)]"

abbreviation "tree_before \<equiv> sample_tree [(''ttyUSB0'', ''1-1'')]"
abbreviation "tree_after \<equiv> sample_tree [(''ttyUSB0'', ''1-2''), (''ttyUSB3'', ''1-1'')]"

lemma sample_facts:
  "identity_for_tty tree_before (VStr ''/dev/ttyUSB0'') = Some sample_ident"
  "same_tty tree_before ''ttyUSB0'' tree_after ''ttyUSB3''" "told_apart tree_after ''ttyUSB3''"
  by code_simp+

theorem identity_survives_renumbering_witness:
  "identity_for_tty tree_before (VStr ''/dev/ttyUSB0'') = Some sample_ident \<and> resolve_identity tree_after (VDict sample_ident) = Some ''/dev/ttyUSB3''"
proof -
  have "real_path tree_before ''/dev/ttyUSB0'' = Some [''dev'', ''ttyUSB0'']" "tty_dir tree_after" by (simp_all add: sample_tree_def)
  note i = conjunct1 [OF identity_survives_renumbering [OF sample_facts(1) this]]
  have "''ttyUSB3'' \<in> set (tty_names tree_after)" "is_usb_tty ''ttyUSB3''" by (simp_all add: sample_tree_def is_usb_tty_def startswith_def)
  with i sample_facts show ?thesis by (auto simp: path_name_def dev_node_def)
qed

end
