(* ===== verification/Nets_Cache.thy ===== *)
theory Nets_Cache
  imports Py_Builtins
begin

text \<open>
  The cache of saved nets (\<^verbatim>\<open>box/lager/cache.py\<close>, class \<^verbatim>\<open>NetsCache\<close>). The state is
  the cached list, the modification time it was read at and the index by name; the file is an
  argument of every access: whether its time can be read, the time, and what reading it gives.
  The locale \<open>net_store\<close> is what the clients of the cache rely on.
\<close>

section \<open>State\<close>

datatype file_stat = StatMissing | StatError | MTime rat

record nets_file =
  fstat :: file_stat
  fdoc :: json_file

type_synonym name_index = "(pyval \<times> dict) list"

record nets_cache =
  cnets :: "pyval list option"
  cmtime :: rat
  cindex :: name_index

definition init_cache :: nets_cache where
  "init_cache = \<lparr>cnets = None, cmtime = 0, cindex = []\<rparr>"

section \<open>The index\<close>

text \<open>A Python dictionary with arbitrary hashable keys: equal keys share a slot.\<close>

fun idx_put :: "pyval \<Rightarrow> dict \<Rightarrow> name_index \<Rightarrow> name_index" where
  "idx_put k d [] = [(k, d)]"
| "idx_put k d ((k', d') # ix) = (if py_eq k' k then (k', d) # ix else (k', d') # idx_put k d ix)"

fun idx_get :: "pyval \<Rightarrow> name_index \<Rightarrow> dict option" where
  "idx_get k [] = None"
| "idx_get k ((k', d) # ix) = (if py_eq k' k then Some d else idx_get k ix)"

fun hashable :: "pyval \<Rightarrow> bool" where
  "hashable (VList _) = False"
| "hashable (VDict _) = False"
| "hashable _ = True"

text \<open>
  \<^verbatim>\<open>{n.get("name"): n for n in nets if n.get("name")}\<close>: an entry that is not an object has no
  \<^verbatim>\<open>get\<close>, and a name that is a list or an object cannot be a key.
\<close>

fun build_index :: "pyval list \<Rightarrow> name_index \<Rightarrow> name_index res" where
  "build_index [] ix = Inr ix"
| "build_index (VDict d # ns) ix =
     (let k = dict_get d ''name'' in
      if \<not> truthy k then build_index ns ix
      else if hashable k then build_index ns (idx_put k d ix)
      else Inl TypeError)"
| "build_index (_ # ns) ix = Inl AttributeError"

section \<open>Operations\<close>

text \<open>
  An exception while the index is built leaves the list and the time already updated and the
  old index in place.
\<close>

definition reload_if_needed :: "nets_file \<Rightarrow> nets_cache \<Rightarrow> unit res \<times> nets_cache" where
  "reload_if_needed f c = (case fstat f of
      StatMissing \<Rightarrow> (Inr (), c\<lparr>cnets := Some [], cindex := [], cmtime := 0\<rparr>)
    | StatError \<Rightarrow> (Inr (), if cnets c = None then c\<lparr>cnets := Some [], cindex := []\<rparr> else c)
    | MTime m \<Rightarrow>
        if m = cmtime c then (Inr (), c)
        else (case fdoc f of
            NotUtf8 \<Rightarrow> (Inl UnicodeDecodeError, c)
          | _ \<Rightarrow>
            let ns = (case fdoc f of JsonDoc (VList xs) \<Rightarrow> xs | _ \<Rightarrow> []);
                c' = c\<lparr>cnets := Some ns, cmtime := m\<rparr>
            in (case build_index ns [] of
                Inl e \<Rightarrow> (Inl e, c')
              | Inr ix \<Rightarrow> (Inr (), c'\<lparr>cindex := ix\<rparr>))))"

definition get_nets :: "nets_file \<Rightarrow> nets_cache \<Rightarrow> pyval list res \<times> nets_cache" where
  "get_nets f c = (case reload_if_needed f c of
      (Inl e, c') \<Rightarrow> (Inl e, c')
    | (Inr _, c') \<Rightarrow> (Inr (case cnets c' of None \<Rightarrow> [] | Some ns \<Rightarrow> ns), c'))"

definition find_by_name :: "string \<Rightarrow> nets_file \<Rightarrow> nets_cache \<Rightarrow> dict option res \<times> nets_cache" where
  "find_by_name name f c = (case reload_if_needed f c of
      (Inl e, c') \<Rightarrow> (Inl e, c')
    | (Inr _, c') \<Rightarrow> (Inr (idx_get (VStr name) (cindex c')), c'))"

fun scan_role :: "string \<Rightarrow> string \<Rightarrow> pyval list \<Rightarrow> dict option res" where
  "scan_role name role [] = Inr None"
| "scan_role name role (VDict d # ns) =
     (if py_eq (dict_get d ''name'') (VStr name) \<and> py_eq (dict_get d ''role'') (VStr role)
      then Inr (Some d) else scan_role name role ns)"
| "scan_role name role (_ # ns) = Inl AttributeError"

definition find_by_name_and_role ::
    "string \<Rightarrow> string \<Rightarrow> nets_file \<Rightarrow> nets_cache \<Rightarrow> dict option res \<times> nets_cache" where
  "find_by_name_and_role name role f c = (case reload_if_needed f c of
      (Inl e, c') \<Rightarrow> (Inl e, c')
    | (Inr _, c') \<Rightarrow>
        (case idx_get (VStr name) (cindex c') of
           Some d \<Rightarrow>
             if d \<noteq> [] \<and> py_eq (dict_get d ''role'') (VStr role) then (Inr (Some d), c')
             else (scan_role name role (case cnets c' of None \<Rightarrow> [] | Some ns \<Rightarrow> ns), c')
         | None \<Rightarrow> (scan_role name role (case cnets c' of None \<Rightarrow> [] | Some ns \<Rightarrow> ns), c')))"

definition invalidate :: "nets_cache \<Rightarrow> nets_cache" where
  "invalidate c = c\<lparr>cmtime := 0\<rparr>"

section \<open>The index against a scan of the list\<close>

text \<open>The reference: the last record with the name wins.\<close>

definition named :: "string \<Rightarrow> pyval \<Rightarrow> bool" where
  "named name v = (case v of VDict d \<Rightarrow> dict_get d ''name'' = VStr name | _ \<Rightarrow> False)"

definition last_named :: "string \<Rightarrow> pyval list \<Rightarrow> dict option" where
  "last_named name ns = (case filter (named name) (rev ns) of
      VDict d # _ \<Rightarrow> Some d | _ \<Rightarrow> None)"

definition records_ok :: "pyval list \<Rightarrow> bool" where
  "records_ok ns = list_all (\<lambda>v. case v of VDict d \<Rightarrow> hashable (dict_get d ''name'') | _ \<Rightarrow> False) ns"

lemma idx_get_put_str:
  "idx_get (VStr s) (idx_put k d ix) = (if k = VStr s then Some d else idx_get (VStr s) ix)"
proof (induction ix)
  case (Cons kd ix)
  obtain k' d' where "kd = (k', d')" by (cases kd)
  with Cons.IH show ?case by auto
qed auto

lemma build_index_ok: "records_ok ns \<Longrightarrow> \<exists>ix'. build_index ns ix = Inr ix'"
  by (induction ns ix rule: build_index.induct) (auto simp: records_ok_def Let_def)

lemma last_named_Cons:
  "last_named name (v # ns) = (case last_named name ns of
      Some d \<Rightarrow> Some d
    | None \<Rightarrow> if named name v then (case v of VDict d \<Rightarrow> Some d | _ \<Rightarrow> None) else None)"
proof (cases "filter (named name) (rev ns)")
  case Nil
  then show ?thesis by (auto simp: last_named_def named_def split: pyval.splits)
next
  case (Cons w ws)
  then have "w \<in> set (filter (named name) (rev ns))" by simp
  then have "named name w" by simp
  with Cons show ?thesis by (auto simp: last_named_def named_def split: pyval.splits)
qed

text \<open>The index built from the list finds the last record of a name.\<close>

lemma idx_get_build:
  assumes "build_index ns ix = Inr ix'" and "name \<noteq> []"
  shows "idx_get (VStr name) ix' = (case last_named name ns of
      Some d \<Rightarrow> Some d | None \<Rightarrow> idx_get (VStr name) ix)"
  using assms
proof (induction ns ix arbitrary: ix' rule: build_index.induct)
  case (1 ix)
  then show ?case by (simp add: last_named_def)
next
  case (2 d ns ix)
  then show ?case
    by (auto simp: last_named_Cons named_def Let_def idx_get_put_str split: if_splits option.splits)
qed simp_all

section \<open>Coherence with the file\<close>

text \<open>What the file holds for the cache: an absent or damaged file is an empty list.\<close>

definition file_nets :: "nets_file \<Rightarrow> pyval list" where
  "file_nets f = (case (fstat f, fdoc f) of (MTime _, JsonDoc (VList ns)) \<Rightarrow> ns | _ \<Rightarrow> [])"

definition file_ok :: "nets_file \<Rightarrow> bool" where
  "file_ok f = (fstat f \<noteq> StatError \<and> fdoc f \<noteq> NotUtf8 \<and> records_ok (file_nets f))"

definition fresh :: "nets_file \<Rightarrow> nets_cache \<Rightarrow> bool" where
  "fresh f c = (cnets c = Some (file_nets f) \<and> build_index (file_nets f) [] = Inr (cindex c))"

definition coherent :: "nets_file \<Rightarrow> nets_cache \<Rightarrow> bool" where
  "coherent f c = (file_ok f \<and> (\<forall>m. fstat f = MTime m \<longrightarrow> m = cmtime c \<longrightarrow> fresh f c))"

lemma reload_coherent:
  assumes "coherent f c"
  obtains c' where "reload_if_needed f c = (Inr (), c')" "fresh f c'" "coherent f c'"
proof (cases "fstat f")
  case StatMissing
  with assms that show ?thesis
    by (auto simp: reload_if_needed_def coherent_def fresh_def file_nets_def)
next
  case StatError
  with assms show ?thesis by (simp add: coherent_def file_ok_def)
next
  case (MTime m)
  show ?thesis
  proof (cases "m = cmtime c")
    case True
    with MTime assms that show ?thesis by (auto simp: reload_if_needed_def coherent_def)
  next
    case False
    have ns: "(case fdoc f of JsonDoc (VList xs) \<Rightarrow> xs | _ \<Rightarrow> []) = file_nets f"
      by (simp add: file_nets_def MTime split: json_file.splits pyval.splits)
    from assms obtain ix where ix: "build_index (file_nets f) [] = Inr ix"
      using build_index_ok [of "file_nets f" "[]"] by (auto simp: coherent_def file_ok_def)
    let ?c' = "c\<lparr>cnets := Some (file_nets f), cmtime := m, cindex := ix\<rparr>"
    have "fdoc f \<noteq> NotUtf8" using assms by (simp add: coherent_def file_ok_def)
    then have "reload_if_needed f c = (Inr (), ?c')"
      using MTime False ns ix by (cases "fdoc f") (simp_all add: reload_if_needed_def Let_def)
    moreover have "fresh f ?c'" using ix by (simp add: fresh_def)
    ultimately show ?thesis using assms that by (simp add: coherent_def)
  qed
qed

lemma coherent_records: "coherent f c \<Longrightarrow> records_ok (file_nets f)"
  by (simp add: coherent_def file_ok_def)

lemma find_by_name_coherent:
  assumes "coherent f c" and "name \<noteq> []"
  shows "\<exists>c'. find_by_name name f c = (Inr (last_named name (file_nets f)), c') \<and> coherent f c'"
proof -
  obtain c' where c': "reload_if_needed f c = (Inr (), c')" "fresh f c'" "coherent f c'"
    using reload_coherent [OF assms(1)] .
  with idx_get_build [of "file_nets f" "[]" "cindex c'" name] assms(2) show ?thesis
    by (auto simp: find_by_name_def fresh_def split: option.splits)
qed

lemma get_nets_coherent:
  assumes "coherent f c"
  shows "\<exists>c'. get_nets f c = (Inr (file_nets f), c') \<and> coherent f c'"
proof -
  obtain c' where "reload_if_needed f c = (Inr (), c')" "fresh f c'" "coherent f c'"
    using reload_coherent [OF assms(1)] .
  then show ?thesis by (auto simp: get_nets_def fresh_def)
qed

section \<open>Accesses and edits in sequence\<close>

datatype cache_op = Edit nets_file | Find string | FindRole string string | GetAll | Invalidate

datatype cache_ans = AFind "dict option" | AAll "pyval list" | ARaise pyexc | ANone

definition ans :: "('a \<Rightarrow> cache_ans) \<Rightarrow> 'a res \<Rightarrow> cache_ans" where
  "ans g r = (case r of Inl e \<Rightarrow> ARaise e | Inr x \<Rightarrow> g x)"

fun cache_step :: "cache_op \<Rightarrow> nets_file \<times> nets_cache \<Rightarrow> cache_ans \<times> nets_file \<times> nets_cache" where
  "cache_step (Edit f') (f, c) = (ANone, f', c)"
| "cache_step (Find n) (f, c) = (let (r, c') = find_by_name n f c in (ans AFind r, f, c'))"
| "cache_step (FindRole n r) (f, c) =
     (let (x, c') = find_by_name_and_role n r f c in (ans AFind x, f, c'))"
| "cache_step GetAll (f, c) = (let (r, c') = get_nets f c in (ans AAll r, f, c'))"
| "cache_step Invalidate (f, c) = (ANone, f, invalidate c)"

fun cache_run :: "cache_op list \<Rightarrow> nets_file \<times> nets_cache \<Rightarrow> cache_ans list" where
  "cache_run [] fc = []"
| "cache_run (x # xs) fc = (let (a, fc') = cache_step x fc in a # cache_run xs fc')"

text \<open>The reference reads the file at every access and has no cache.\<close>

definition first_with_role :: "string \<Rightarrow> string \<Rightarrow> pyval list \<Rightarrow> dict option" where
  "first_with_role name role ns = (case filter (\<lambda>v. named name v \<and>
      (case v of VDict d \<Rightarrow> dict_get d ''role'' = VStr role | _ \<Rightarrow> False)) ns of
      VDict d # _ \<Rightarrow> Some d | _ \<Rightarrow> None)"

definition with_role :: "string \<Rightarrow> string \<Rightarrow> pyval list \<Rightarrow> dict option" where
  "with_role name role ns = (case last_named name ns of
      Some d \<Rightarrow> if dict_get d ''role'' = VStr role then Some d else first_with_role name role ns
    | None \<Rightarrow> first_with_role name role ns)"

fun direct_run :: "cache_op list \<Rightarrow> nets_file \<Rightarrow> cache_ans list" where
  "direct_run [] f = []"
| "direct_run (Edit f' # xs) f = ANone # direct_run xs f'"
| "direct_run (Find n # xs) f = AFind (last_named n (file_nets f)) # direct_run xs f"
| "direct_run (FindRole n r # xs) f = AFind (with_role n r (file_nets f)) # direct_run xs f"
| "direct_run (GetAll # xs) f = AAll (file_nets f) # direct_run xs f"
| "direct_run (Invalidate # xs) f = ANone # direct_run xs f"

text \<open>Every edit leaves a readable file of records, with a later time than all before it.\<close>

fun edits_ok :: "rat \<Rightarrow> cache_op list \<Rightarrow> bool" where
  "edits_ok hi [] = True"
| "edits_ok hi (Edit f # xs) = (file_ok f \<and> (case fstat f of
      MTime m \<Rightarrow> hi < m \<and> edits_ok m xs | _ \<Rightarrow> edits_ok hi xs))"
| "edits_ok hi (Find n # xs) = (n \<noteq> [] \<and> edits_ok hi xs)"
| "edits_ok hi (FindRole n r # xs) = (n \<noteq> [] \<and> edits_ok hi xs)"
| "edits_ok hi (_ # xs) = edits_ok hi xs"

definition cache_inv :: "rat \<Rightarrow> nets_file \<Rightarrow> nets_cache \<Rightarrow> bool" where
  "cache_inv hi f c = (coherent f c \<and> 0 \<le> hi \<and> cmtime c \<le> hi \<and>
     (\<forall>m. fstat f = MTime m \<longrightarrow> 0 < m \<and> m \<le> hi))"

lemma reload_mtime:
  "cache_inv hi f c \<Longrightarrow> reload_if_needed f c = (r, c') \<Longrightarrow> cmtime c' \<le> hi"
  by (auto simp: cache_inv_def reload_if_needed_def Let_def
      split: file_stat.splits json_file.splits if_splits sum.splits)

lemma scan_role_ok:
  "records_ok ns \<Longrightarrow> scan_role name role ns = Inr (first_with_role name role ns)"
  by (induction name role ns rule: scan_role.induct)
    (auto simp: records_ok_def first_with_role_def named_def)

lemma reload_inv:
  assumes "cache_inv hi f c"
  obtains c' where "reload_if_needed f c = (Inr (), c')" "fresh f c'" "cache_inv hi f c'"
proof -
  have "coherent f c" using assms by (simp add: cache_inv_def)
  then obtain c' where "reload_if_needed f c = (Inr (), c')" "fresh f c'" "coherent f c'"
    by (rule reload_coherent)
  with reload_mtime [OF assms] assms that show ?thesis by (auto simp: cache_inv_def)
qed

lemma index_fresh:
  "fresh f c \<Longrightarrow> n \<noteq> [] \<Longrightarrow> idx_get (VStr n) (cindex c) = last_named n (file_nets f)"
  using idx_get_build [of "file_nets f" "[]" "cindex c" n]
  by (auto simp: fresh_def split: option.splits)

lemma find_by_name_and_role_inv:
  assumes "cache_inv hi f c" and "n \<noteq> []"
  shows "\<exists>c'. find_by_name_and_role n r f c = (Inr (with_role n r (file_nets f)), c') \<and> cache_inv hi f c'"
proof -
  obtain c' where c': "reload_if_needed f c = (Inr (), c')" "fresh f c'" "cache_inv hi f c'"
    using reload_inv [OF assms(1)] .
  have ok: "records_ok (file_nets f)"
    using assms(1) by (simp add: cache_inv_def coherent_def file_ok_def)
  show ?thesis
    using c' index_fresh [OF c'(2) assms(2)] scan_role_ok [OF ok, of n r] fresh_def [of f c']
    by (auto simp: find_by_name_and_role_def with_role_def split: option.splits)
qed

lemma cache_run_direct:
  "cache_inv hi f c \<Longrightarrow> edits_ok hi xs \<Longrightarrow> cache_run xs (f, c) = direct_run xs f"
proof (induction xs arbitrary: hi f c)
  case (Cons x xs)
  obtain c' where c': "reload_if_needed f c = (Inr (), c')" "fresh f c'" "cache_inv hi f c'"
    using reload_inv [OF Cons.prems(1)] .
  show ?case
  proof (cases x)
    case (Edit f')
    show ?thesis
    proof (cases "fstat f'")
      case (MTime m)
      with Cons.prems Edit have "cache_inv m f' c"
        by (auto simp: cache_inv_def coherent_def)
      with Cons Edit MTime show ?thesis by simp
    next
      case StatMissing
      with Cons.prems Edit have "cache_inv hi f' c" by (simp add: cache_inv_def coherent_def)
      with Cons Edit StatMissing show ?thesis by simp
    next
      case StatError
      with Cons.prems Edit show ?thesis by (simp add: file_ok_def)
    qed
  next
    case (Find n)
    with Cons.prems(2) c' index_fresh [OF c'(2), of n] Cons.IH [OF c'(3)] show ?thesis
      by (simp add: find_by_name_def ans_def)
  next
    case (FindRole n r)
    with Cons.prems find_by_name_and_role_inv [OF Cons.prems(1), of n r] Cons.IH show ?thesis
      by (auto simp: ans_def)
  next
    case GetAll
    with Cons.prems c' Cons.IH [OF c'(3)] show ?thesis by (simp add: get_nets_def ans_def fresh_def)
  next
    case Invalidate
    from Cons.prems(1) have "cache_inv hi f (invalidate c)"
      by (auto simp: cache_inv_def coherent_def invalidate_def)
    with Cons Invalidate show ?thesis by simp
  qed
qed simp

section \<open>What the clients rely on\<close>

record ('f, 'c) net_access =
  find_net :: "string \<Rightarrow> 'f \<Rightarrow> 'c \<Rightarrow> dict option res \<times> 'c"
  all_nets :: "'f \<Rightarrow> 'c \<Rightarrow> pyval list res \<times> 'c"

text \<open>
  A store that answers from the records \<open>recs f\<close> of the file while \<open>ok f\<close> holds of its
  state, and keeps \<open>ok f\<close>.
\<close>

locale net_store =
  fixes S :: "('f, 'c) net_access" and ok :: "'f \<Rightarrow> 'c \<Rightarrow> bool" and recs :: "'f \<Rightarrow> pyval list"
  assumes find_net: "ok f c \<Longrightarrow> n \<noteq> [] \<Longrightarrow>
      \<exists>c'. find_net S n f c = (Inr (last_named n (recs f)), c') \<and> ok f c'"
    and all_nets: "ok f c \<Longrightarrow> \<exists>c'. all_nets S f c = (Inr (recs f), c') \<and> ok f c'"
    and recs_ok: "ok f c \<Longrightarrow> records_ok (recs f)"

definition nets_cache_access :: "(nets_file, nets_cache) net_access" where
  "nets_cache_access = \<lparr>find_net = find_by_name, all_nets = get_nets\<rparr>"

interpretation cache_store: net_store nets_cache_access coherent file_nets
  by unfold_locales
    (auto simp: nets_cache_access_def find_by_name_coherent get_nets_coherent coherent_records)

end
