(* ===== verification/Atomic_File.thy ===== *)
theory Atomic_File
  imports Lager_Prelude
begin

text \<open>
  Replacing a file through a temporary one, as the writers of \<^verbatim>\<open>box_config/config.py\<close>,
  \<^verbatim>\<open>nets/net.py\<close> and \<^verbatim>\<open>devices/custom_store.py\<close> do: the old content stays until the
  rename has succeeded.
\<close>

text \<open>
  A file that is replaced through \<^verbatim>\<open>path.tmp\<close>. The flags of \<open>wio\<close> say which system call
  of one write succeeds.
\<close>

record 'a slot =
  target :: 'a
  tmp_left :: bool

record wio =
  dir_ok :: bool
  open_ok :: bool
  write_ok :: bool
  rename_ok :: bool
  unlink_ok :: bool

datatype write_err = RawOSError | RenderWriteError

definition replace_file :: "write_err \<Rightarrow> wio \<Rightarrow> 'a \<Rightarrow> 'a slot \<Rightarrow> (write_err + unit) \<times> 'a slot" where
  "replace_file err io content s =
    (if \<not> dir_ok io then (Inl RawOSError, s)
     else if open_ok io \<and> write_ok io \<and> rename_ok io
     then (Inr (), s\<lparr>target := content, tmp_left := False\<rparr>)
     else (Inl err, s\<lparr>tmp_left := (open_ok io \<or> tmp_left s) \<and> \<not> unlink_ok io\<rparr>))"

lemma replace_file_atomic:
  "case replace_file err io x s of
     (Inr _, s') \<Rightarrow> target s' = x \<and> \<not> tmp_left s'
   | (Inl _, s') \<Rightarrow> target s' = target s"
  by (auto simp: replace_file_def)

end
