(* ===== verification/Nets_Store.thy ===== *)
theory Nets_Store
  imports Nets_Cache Scope_Migration Atomic_File
begin

text \<open>
  The saved nets of a box, the class methods of \<^verbatim>\<open>Net\<close> in \<^verbatim>\<open>box/lager/nets/net.py\<close> that
  read and write \<^verbatim>\<open>saved_nets.json\<close> through the cache: reading converts old scope nets and
  saves the conversion, writing replaces the file and invalidates the cache. Shown: from a
  coherent cache every operation leaves a coherent one, a read gives the converted records
  whether or not they could be saved, and a deleted net is found neither in the file nor
  through the cache.
\<close>

section \<open>Operations\<close>

record nets_store =
  nslot :: "nets_file slot"
  scache :: nets_cache

abbreviation nfile :: "nets_store \<Rightarrow> nets_file" where
  "nfile s \<equiv> target (nslot s)"

text \<open>One write: which system calls succeed, and the modification time it leaves.\<close>

type_synonym write_event = "wio \<times> rat"

definition save_local_nets :: "write_event \<Rightarrow> pyval list \<Rightarrow> nets_store \<Rightarrow> unit res \<times> nets_store" where
  "save_local_nets ev nets s =
    (case replace_file RawOSError (fst ev) \<lparr>fstat = MTime (snd ev), fdoc = JsonDoc (VList nets)\<rparr> (nslot s) of
       (Inr _, sl) \<Rightarrow> (Inr (), \<lparr>nslot = sl, scache = invalidate (scache s)\<rparr>)
     | (Inl _, sl) \<Rightarrow> (Inl OSError, s\<lparr>nslot := sl\<rparr>))"

definition get_local_nets :: "write_event \<Rightarrow> nets_store \<Rightarrow> pyval list res \<times> nets_store" where
  "get_local_nets ev s = (case get_nets (nfile s) (scache s) of
     (Inl e, c) \<Rightarrow> (Inl e, s\<lparr>scache := c\<rparr>)
   | (Inr nets, c) \<Rightarrow>
       let s1 = s\<lparr>scache := c\<rparr> in
       (case needs_migration nets of
          Inl e \<Rightarrow> (Inl e, s1)
        | Inr False \<Rightarrow> (Inr nets, s1)
        | Inr True \<Rightarrow> (case migrate nets of
             Inl e \<Rightarrow> (Inl e, s1)
           | Inr (migrated, changed) \<Rightarrow>
               (Inr migrated, if changed then snd (save_local_nets ev migrated s1) else s1))))"

text \<open>\<^verbatim>\<open>filter_nets\<close>: the nets that are not of the name, and of the role when one is given.\<close>

definition keeps_net :: "string \<Rightarrow> string option \<Rightarrow> pyval \<Rightarrow> bool res" where
  "keeps_net name role net = res_bind (get_key net ''name'') (\<lambda>n. case role of
     None \<Rightarrow> Inr (\<not> py_eq n (VStr name))
   | Some r \<Rightarrow> if \<not> py_eq n (VStr name) then Inr True
       else res_bind (get_key net ''role'') (\<lambda>k. Inr (\<not> py_eq k (VStr r))))"

fun filter_nets :: "pyval list \<Rightarrow> string \<Rightarrow> string option \<Rightarrow> pyval list res" where
  "filter_nets [] name role = Inr []"
| "filter_nets (n # ns) name role = res_bind (keeps_net name role n) (\<lambda>k.
     res_bind (filter_nets ns name role) (\<lambda>ms. Inr (if k then n # ms else ms)))"

definition delete_local_net :: "write_event \<Rightarrow> write_event \<Rightarrow> string \<Rightarrow> string option \<Rightarrow> nets_store \<Rightarrow> bool res \<times> nets_store" where
  "delete_local_net ev1 ev2 name role s = (case get_local_nets ev1 s of
     (Inl e, s1) \<Rightarrow> (Inl e, s1)
   | (Inr nets, s1) \<Rightarrow> (case filter_nets nets name role of
        Inl e \<Rightarrow> (Inl e, s1)
      | Inr new_nets \<Rightarrow>
          if length new_nets \<noteq> length nets
          then (case save_local_nets ev2 new_nets s1 of
              (Inl e, s2) \<Rightarrow> (Inl e, s2) | (Inr _, s2) \<Rightarrow> (Inr True, s2))
          else (Inr False, s1)))"

definition delete_all_local_nets :: "write_event \<Rightarrow> nets_store \<Rightarrow> bool res \<times> nets_store" where
  "delete_all_local_nets ev s = (case save_local_nets ev [] s of
     (Inl e, s1) \<Rightarrow> (Inl e, s1) | (Inr _, s1) \<Rightarrow> (Inr True, s1))"

section \<open>Coherence\<close>

abbreviation store_ok :: "nets_store \<Rightarrow> bool" where
  "store_ok s \<equiv> coherent (nfile s) (scache s)"

text \<open>
  A file time of zero would look unchanged to an invalidated cache; the clock of a box is
  later.
\<close>

lemma save_local_nets_cases:
  assumes "store_ok s" "records_ok nets" "snd ev \<noteq> 0"
  obtains (Saved) s' where "save_local_nets ev nets s = (Inr (), s')" "store_ok s'" "file_nets (nfile s') = nets"
  | (Failed) s' where "save_local_nets ev nets s = (Inl OSError, s')" "store_ok s'" "nfile s' = nfile s" "scache s' = scache s"
proof -
  let ?f = "\<lparr>fstat = MTime (snd ev), fdoc = JsonDoc (VList nets)\<rparr>"
  have ok: "coherent ?f (invalidate (scache s))"
    using assms by (simp add: coherent_def file_ok_def file_nets_def invalidate_def)
  obtain r sl where r: "replace_file RawOSError (fst ev) ?f (nslot s) = (r, sl)" by fastforce
  show thesis
  proof (cases r)
    case (Inr u)
    with r replace_file_atomic [where err = RawOSError and io = "fst ev" and x = ?f and s = "nslot s"]
    have "target sl = ?f" by simp
    with Inr r ok show ?thesis
      using Saved [of "\<lparr>nslot = sl, scache = invalidate (scache s)\<rparr>"] by (simp add: save_local_nets_def file_nets_def)
  next
    case (Inl e)
    with r replace_file_atomic [where err = RawOSError and io = "fst ev" and x = ?f and s = "nslot s"]
    have "target sl = nfile s" by simp
    with Inl r assms(1) show ?thesis using Failed [of "s\<lparr>nslot := sl\<rparr>"] by (simp add: save_local_nets_def)
  qed
qed

definition named_ok :: "pyval \<Rightarrow> bool" where
  "named_ok v = (case v of VDict d \<Rightarrow> hashable (dict_get d ''name'') | _ \<Rightarrow> False)"

lemma records_ok_named: "records_ok ns = list_all named_ok ns"
  by (simp add: records_ok_def named_ok_def [abs_def])

lemma converted_named: "list_all2 converted rs ms \<Longrightarrow> list_all named_ok rs \<Longrightarrow> list_all named_ok ms"
proof (induction rule: list_all2_induct)
  case (Cons r rs m ms)
  from Cons.hyps(1) Cons.prems have "named_ok m"
    by (auto simp: converted_def named_ok_def as_channel_def split: if_splits)
  with Cons show ?case by simp
qed simp

lemma migrate_records_ok:
  assumes "migrate nets = Inr (out, ch)" "records_ok nets"
  shows "records_ok out"
proof (cases ch)
  case False
  with assms migrate_untouched show ?thesis by auto
next
  case True
  with assms(1) obtain taken owned ms ins where m: "migrate_loop taken owned nets = Inr (ms, ins)" "out = ms @ ins"
    by (auto simp: migrate_def res_bind_eq_Inr split: if_splits)
  have "list_all named_ok ms"
    using converted_named [of nets ms] migrate_loop_shape [OF m(1)] assms(2) by (simp add: records_ok_named)
  moreover have "list_all named_ok ins"
    using migrate_loop_shape [OF m(1)] by (auto simp: list_all_iff named_ok_def)
  ultimately show ?thesis by (simp add: m(2) records_ok_named)
qed

text \<open>What a reader is given: the records of the file, converted when they need it.\<close>

definition current_nets :: "pyval list \<Rightarrow> pyval list res" where
  "current_nets ns = res_bind (migrate ns) (\<lambda>(out, _). Inr out)"

lemma get_local_nets_spec:
  assumes "store_ok s" "snd ev \<noteq> 0" "current_nets (file_nets (nfile s)) = Inr ns"
  shows "\<exists>s'. get_local_nets ev s = (Inr ns, s') \<and> store_ok s' \<and> records_ok ns \<and>
    (file_nets (nfile s') = ns \<or> file_nets (nfile s') = file_nets (nfile s))"
proof -
  let ?f = "file_nets (nfile s)"
  obtain c where c: "get_nets (nfile s) (scache s) = (Inr ?f, c)" "coherent (nfile s) c"
    using get_nets_coherent [OF assms(1)] by blast
  from assms(3) obtain ch where m: "migrate ?f = Inr (ns, ch)" by (auto simp: current_nets_def res_bind_eq_Inr)
  have rec: "records_ok ns" using migrate_records_ok [OF m coherent_records [OF assms(1)]] .
  obtain b where b: "needs_migration ?f = Inr b" "b = ch"
    using m by (auto simp: migrate_def res_bind_eq_Inr split: if_splits)
  show ?thesis
  proof (cases ch)
    case False
    with m b c rec migrate_untouched [of ?f ns] show ?thesis by (auto simp: get_local_nets_def Let_def)
  next
    case True
    let ?s = "s\<lparr>scache := c\<rparr>"
    have g: "get_local_nets ev s = (Inr ns, snd (save_local_nets ev ns ?s))"
      using True m b c by (simp add: get_local_nets_def Let_def)
    have ok: "store_ok ?s" using c(2) by simp
    from ok rec assms(2) show ?thesis
    proof (cases rule: save_local_nets_cases)
      case (Saved s')
      with g rec show ?thesis by simp
    next
      case (Failed s')
      with g rec show ?thesis by simp
    qed
  qed
qed

section \<open>Deletion\<close>

lemma filter_nets_ok:
  "records_ok ns \<Longrightarrow> filter_nets ns name None = Inr (filter (Not \<circ> named name) ns)"
proof (induction ns)
  case (Cons n ns)
  then obtain d where "n = VDict d" by (cases n) (auto simp: records_ok_def)
  with Cons show ?case by (simp add: records_ok_def keeps_net_def get_key_def named_def)
qed simp

lemma last_named_filter: "last_named name (filter (Not \<circ> named name) ns) = None"
proof -
  have "filter (named name) (rev (filter (Not \<circ> named name) ns)) = []" by (auto simp: filter_empty_conv)
  then show ?thesis by (simp add: last_named_def)
qed

lemma delete_local_net_spec:
  assumes "store_ok s" "snd ev1 \<noteq> 0" "snd ev2 \<noteq> 0" "current_nets (file_nets (nfile s)) = Inr ns" "name \<noteq> []"
    and "delete_local_net ev1 ev2 name None s = (Inr True, s')"
  shows "file_nets (nfile s') = filter (Not \<circ> named name) ns \<and> store_ok s' \<and>
    (\<exists>c. find_by_name name (nfile s') (scache s') = (Inr None, c))"
proof -
  obtain s1 where s1: "get_local_nets ev1 s = (Inr ns, s1)" "store_ok s1" "records_ok ns"
    using get_local_nets_spec [OF assms(1,2,4)] by blast
  let ?new = "filter (Not \<circ> named name) ns"
  have new: "records_ok ?new" using s1(3) by (auto simp: records_ok_def list_all_iff)
  have sv: "save_local_nets ev2 ?new s1 = (Inr (), s')"
    using assms(6) s1(1) filter_nets_ok [OF s1(3), of name]
    by (auto simp: delete_local_net_def split: if_splits prod.splits sum.splits)
  have "file_nets (nfile s') = ?new \<and> store_ok s'"
    by (cases rule: save_local_nets_cases [OF s1(2) new assms(3)]) (use sv in auto)
  moreover have "\<exists>c. find_by_name name (nfile s') (scache s') = (Inr (last_named name ?new), c)"
    using calculation find_by_name_coherent [of "nfile s'" "scache s'" name] assms(5) by auto
  ultimately show ?thesis using last_named_filter by simp
qed

lemma delete_local_net_absent:
  assumes "store_ok s" "snd ev1 \<noteq> 0" "current_nets (file_nets (nfile s)) = Inr ns"
    and "delete_local_net ev1 ev2 name None s = (Inr False, s')"
  shows "list_all (Not \<circ> named name) ns"
proof -
  obtain s1 where s1: "get_local_nets ev1 s = (Inr ns, s1)" "records_ok ns"
    using get_local_nets_spec [OF assms(1-3)] by blast
  with assms(4) filter_nets_ok [OF s1(2), of name] have "length (filter (Not \<circ> named name) ns) = length ns"
    by (auto simp: delete_local_net_def split: if_splits prod.splits sum.splits)
  then show ?thesis by (metis filter_id_conv length_filter_less linorder_neq_iff list_all_iff)
qed

text \<open>
  A deleted net is gone. When a deletion by name succeeds, the file holds the nets a reader
  would have been given, converted where they needed it, without those of that name and in
  the same order; the cache is coherent with the file and finds no net of the name.
\<close>

lemma deleted_net_gone:
  assumes "store_ok s" and "snd ev1 \<noteq> 0" and "snd ev2 \<noteq> 0" and "current_nets (file_nets (nfile s)) = Inr ns" and "name \<noteq> []"
    and "delete_local_net ev1 ev2 name None s = (Inr True, s')"
  shows "file_nets (nfile s') = filter (Not \<circ> named name) ns \<and> store_ok s' \<and>
    (\<exists>c. find_by_name name (nfile s') (scache s') = (Inr None, c))"
  using assms by (rule delete_local_net_spec)

definition sample_nets_store :: nets_store where
  "sample_nets_store = \<lparr>nslot = \<lparr>target = \<lparr>fstat = MTime 1, fdoc = JsonDoc (VList [VDict [(''name'', VStr ''a'')], VDict [(''name'', VStr ''b'')]])\<rparr>,
     tmp_left = False\<rparr>, scache = init_cache\<rparr>"

definition all_works :: wio where
  "all_works = \<lparr>dir_ok = True, open_ok = True, write_ok = True, rename_ok = True, unlink_ok = True\<rparr>"

lemma sample_nets_store_ok: "store_ok sample_nets_store"
  by (simp add: coherent_def file_ok_def sample_nets_store_def init_cache_def file_nets_def records_ok_def)

end
