(* ===== verification/Device_Assign.thy ===== *)
theory Device_Assign
  imports Serial_Id Nets_Store
begin

text \<open>
  Instruments that a box cannot identify by itself, \<^verbatim>\<open>box/lager/devices/\<close>: the catalogue (\<^verbatim>\<open>catalog.py\<close>), the stored assignments of
  serial cables to its entries (\<^verbatim>\<open>custom_store.py\<close>), the operations behind \<^verbatim>\<open>lager nets assign\<close> (\<^verbatim>\<open>assign.py\<close>) and their
  endpoints (\<^verbatim>\<open>http_handlers/custom_devices_handler.py\<close>). An assignment reads the connected cables of \<open>Serial_Id\<close>, and replacing or removing
  one deletes the nets of \<open>Nets_Store\<close> that are bound to it. Shown: a cable has one assignment, and no net outlives its assignment.
\<close>

section \<open>The catalogue\<close>

definition DEVICE_CATALOG :: "(string \<times> dict) list" where
  "DEVICE_CATALOG = [(''Rigol_DP711'',
    [(''display_name'', VStr ''Rigol DP711''), (''manufacturer'', VStr ''Rigol''), (''roles'', VList [VStr ''power-supply'']),
     (''channels'', VDict [(''power-supply'', VList [VStr ''1''])]), (''single_channel'', VBool True), (''transport'', VStr ''serial''),
     (''serial'', VDict [(''baud'', VInt 9600), (''bytesize'', VInt 8), (''parity'', VStr ''N''), (''stopbits'', VInt 1)]),
     (''driver'', VStr ''lager.power.supply.rigol_dp700:RigolDP700''),
     (''idn_match'', VStr (''RIGOL'' @ [CHR 0x5C] @ ''s+TECHNOLOGIES,'' @ [CHR 0x5C] @ ''s*DP7'')),
     (''limits'', VDict [(''power-supply'', VDict [(''voltage_max'', VFloat (Fin 30)), (''current_max'', VFloat (Fin 5))])])])]"

text \<open>The name is looked up as it is, then without regard to case; an unhashable name raises, and so does one that has no \<^verbatim>\<open>strip\<close>.\<close>

definition catalog_entry :: "pyval \<Rightarrow> (string \<times> dict) option res" where
  "catalog_entry name = (if \<not> truthy name then Inr None else if \<not> hashable name then Inl TypeError else case name of
     VStr s \<Rightarrow> Inr (case map_of DEVICE_CATALOG s of
        Some e \<Rightarrow> Some (s, e)
      | None \<Rightarrow> find (\<lambda>(k, _). lower k = lower (strip s)) DEVICE_CATALOG)
   | _ \<Rightarrow> Inl AttributeError)"

definition get_device :: "pyval \<Rightarrow> dict option res" where
  "get_device name = res_bind (catalog_entry name) (\<lambda>e. Inr (map_option snd e))"

definition canonical_name :: "pyval \<Rightarrow> string option res" where
  "canonical_name name = res_bind (catalog_entry name) (\<lambda>e. Inr (map_option fst e))"

definition is_custom_device :: "pyval \<Rightarrow> bool res" where
  "is_custom_device name = res_bind (get_device name) (\<lambda>e. Inr (e \<noteq> None))"

definition dict_of :: "pyval \<Rightarrow> dict" where
  "dict_of v = (case v of VDict d \<Rightarrow> d | _ \<Rightarrow> [])"

definition serial_params :: "pyval \<Rightarrow> dict option res" where
  "serial_params name = res_bind (get_device name) (\<lambda>e. Inr (case e of
     None \<Rightarrow> None
   | Some d \<Rightarrow> if d = [] \<or> \<not> py_eq (dict_get d ''transport'') (VStr ''serial'') then None else Some (dict_of (dict_get d ''serial''))))"

definition is_serial_transport :: "pyval \<Rightarrow> bool res" where
  "is_serial_transport name = res_bind (get_device name) (\<lambda>e. Inr (case e of
     None \<Rightarrow> False | Some d \<Rightarrow> d \<noteq> [] \<and> py_eq (dict_get d ''transport'') (VStr ''serial'')))"

definition list_of :: "pyval \<Rightarrow> pyval list" where
  "list_of v = (case v of VList xs \<Rightarrow> xs | _ \<Rightarrow> [])"

definition roles_for :: "pyval \<Rightarrow> pyval list res" where
  "roles_for name = res_bind (get_device name) (\<lambda>e. Inr (case e of None \<Rightarrow> [] | Some d \<Rightarrow> list_of (dict_get d ''roles'')))"

definition channels_for :: "pyval \<Rightarrow> string \<Rightarrow> pyval list res" where
  "channels_for name role = res_bind (get_device name) (\<lambda>e. Inr (case e of
     None \<Rightarrow> [] | Some d \<Rightarrow> list_of (dict_get (dict_of (dict_get d ''channels'')) role)))"

definition limits_for :: "pyval \<Rightarrow> string \<Rightarrow> dict option res" where
  "limits_for name role = res_bind (get_device name) (\<lambda>e. Inr (case e of
     None \<Rightarrow> None
   | Some d \<Rightarrow> let l = dict_get (dict_of (dict_get d ''limits'')) role in if truthy l then Some (dict_of l) else None))"

section \<open>Stored assignments\<close>

definition load_raw :: "json_file \<Rightarrow> pyval list" where
  "load_raw f = (case f of JsonDoc (VList xs) \<Rightarrow> xs | _ \<Rightarrow> [])"

definition atomic_write :: "wio \<Rightarrow> pyval list \<Rightarrow> json_file slot \<Rightarrow> unit res \<times> json_file slot" where
  "atomic_write io records sl = (case replace_file RawOSError io (JsonDoc (VList records)) sl of
     (Inr _, sl') \<Rightarrow> (Inr (), sl') | (Inl _, sl') \<Rightarrow> (Inl OSError, sl'))"

definition norm_id :: "pyval \<Rightarrow> pyval res" where
  "norm_id v = (if \<not> truthy v then Inr VNone else case v of
     VStr s \<Rightarrow> Inr (if strip s = [] then VNone else VStr (lower (strip s)))
   | _ \<Rightarrow> Inl AttributeError)"

type_synonym cable_key = "pyval \<times> pyval \<times> pyval \<times> pyval"

definition identity_key :: "pyval \<Rightarrow> cable_key res" where
  "identity_key r = res_bind (get_key r ''vid'') (\<lambda>v. res_bind (norm_id v) (\<lambda>vid.
     res_bind (get_key r ''pid'') (\<lambda>p. res_bind (norm_id p) (\<lambda>pid.
     res_bind (get_key r ''serial'') (\<lambda>s. res_bind (get_key r ''port_path'') (\<lambda>pp. Inr (vid, pid, py_or s VNone, py_or pp VNone)))))))"

definition key_eq :: "cable_key \<Rightarrow> cable_key \<Rightarrow> bool" where
  "key_eq j k = (case (j, k) of ((a, b, c, d), (a', b', c', d')) \<Rightarrow> py_eq a a' \<and> py_eq b b' \<and> py_eq c c' \<and> py_eq d d')"

text \<open>\<^verbatim>\<open>[r for r in records if _identity_key(r) != key]\<close>.\<close>

fun without_key :: "cable_key \<Rightarrow> pyval list \<Rightarrow> pyval list res" where
  "without_key k [] = Inr []"
| "without_key k (r # rs) = res_bind (identity_key r) (\<lambda>j. res_bind (without_key k rs) (\<lambda>kept. Inr (if key_eq j k then kept else r # kept)))"

text \<open>\<^verbatim>\<open>if baud is not None: rec["baud"] = int(baud)\<close>.\<close>

definition with_baud :: "pyval \<Rightarrow> dict \<Rightarrow> dict res" where
  "with_baud baud r = (if baud = VNone then Inr r else res_bind (py_int baud) (\<lambda>b. Inr (r @ [(''baud'', VInt b)])))"

definition assignment_record :: "pyval \<Rightarrow> pyval \<Rightarrow> pyval \<Rightarrow> pyval \<Rightarrow> pyval \<Rightarrow> pyval \<Rightarrow> dict res" where
  "assignment_record instrument vid pid serial port_path baud = res_bind (canonical_name instrument) (\<lambda>c. case c of
     None \<Rightarrow> Inl ValueError
   | Some canonical \<Rightarrow> if \<not> truthy serial \<and> \<not> truthy port_path then Inl ValueError
       else res_bind (norm_id vid) (\<lambda>v. res_bind (norm_id pid) (\<lambda>p. with_baud baud
         [(''instrument'', VStr canonical), (''vid'', v), (''pid'', p), (''serial'', py_or serial VNone), (''port_path'', py_or port_path VNone)])))"

definition add_assignment :: "wio \<Rightarrow> pyval \<Rightarrow> pyval \<Rightarrow> pyval \<Rightarrow> pyval \<Rightarrow> pyval \<Rightarrow> pyval \<Rightarrow> json_file slot \<Rightarrow> dict res \<times> json_file slot" where
  "add_assignment io instrument vid pid serial port_path baud sl =
    (case res_bind (assignment_record instrument vid pid serial port_path baud) (\<lambda>r. res_bind (identity_key (VDict r)) (\<lambda>k.
        res_bind (without_key k (load_raw (target sl))) (\<lambda>kept. Inr (r, kept)))) of
       Inl e \<Rightarrow> (Inl e, sl)
     | Inr (r, kept) \<Rightarrow> (case atomic_write io (kept @ [VDict r]) sl of
          (Inl e, sl') \<Rightarrow> (Inl e, sl') | (Inr _, sl') \<Rightarrow> (Inr r, sl')))"

definition remove_assignment :: "wio \<Rightarrow> pyval \<Rightarrow> pyval \<Rightarrow> pyval \<Rightarrow> pyval \<Rightarrow> json_file slot \<Rightarrow> bool res \<times> json_file slot" where
  "remove_assignment io vid pid serial port_path sl = (let records = load_raw (target sl) in
    (case res_bind (identity_key (VDict [(''vid'', vid), (''pid'', pid), (''serial'', serial), (''port_path'', port_path)])) (\<lambda>k. without_key k records) of
       Inl e \<Rightarrow> (Inl e, sl)
     | Inr kept \<Rightarrow> if length kept = length records then (Inr False, sl)
         else (case atomic_write io kept sl of (Inl e, sl') \<Rightarrow> (Inl e, sl') | (Inr _, sl') \<Rightarrow> (Inr True, sl'))))"

definition matches_record :: "pyval \<Rightarrow> pyval \<Rightarrow> pyval \<Rightarrow> pyval \<Rightarrow> pyval \<Rightarrow> bool res" where
  "matches_record vid pid serial port_path r = res_bind (get_key r ''vid'') (\<lambda>v. res_bind (norm_id v) (\<lambda>v'.
     if \<not> py_eq v' vid then Inr False
     else res_bind (get_key r ''pid'') (\<lambda>p. res_bind (norm_id p) (\<lambda>p'.
       if \<not> py_eq p' pid then Inr False
       else res_bind (get_key r ''serial'') (\<lambda>s. res_bind (get_key r ''port_path'') (\<lambda>pp. Inr (
         if truthy s then truthy serial \<and> py_eq s serial else truthy pp \<and> truthy port_path \<and> py_eq pp port_path)))))))"

fun first_match :: "(pyval \<Rightarrow> bool res) \<Rightarrow> pyval list \<Rightarrow> dict option res" where
  "first_match f [] = Inr None"
| "first_match f (r # rs) = res_bind (f r) (\<lambda>b. if b then Inr (Some (dict_of r)) else first_match f rs)"

definition record_for :: "pyval \<Rightarrow> pyval \<Rightarrow> pyval \<Rightarrow> pyval \<Rightarrow> json_file \<Rightarrow> dict option res" where
  "record_for vid pid serial port_path f = res_bind (norm_id vid) (\<lambda>v. res_bind (norm_id pid) (\<lambda>p.
     first_match (matches_record v p serial port_path) (load_raw f)))"

definition resolve_assignment :: "pyval \<Rightarrow> pyval \<Rightarrow> pyval \<Rightarrow> pyval \<Rightarrow> json_file \<Rightarrow> pyval res" where
  "resolve_assignment vid pid serial port_path f = res_bind (record_for vid pid serial port_path f) (\<lambda>r. Inr (case r of
     None \<Rightarrow> VNone | Some d \<Rightarrow> dict_get d ''instrument''))"

definition instrument_for_address :: "(byte list \<Rightarrow> string) \<Rightarrow> pyval \<Rightarrow> json_file \<Rightarrow> pyval res" where
  "instrument_for_address replaced address f = res_bind (parse_address replaced address) (\<lambda>parts. case parts of
     None \<Rightarrow> Inr VNone
   | Some i \<Rightarrow> resolve_assignment (i_vid i) (i_pid i) (i_serial i) (i_port i) f)"

definition serial_settings_for_address :: "(byte list \<Rightarrow> string) \<Rightarrow> pyval \<Rightarrow> json_file \<Rightarrow> dict option res" where
  "serial_settings_for_address replaced address f = res_bind (parse_address replaced address) (\<lambda>parts. case parts of
     None \<Rightarrow> Inr None
   | Some i \<Rightarrow> res_bind (record_for (i_vid i) (i_pid i) (i_serial i) (i_port i) f) (\<lambda>r. case r of
       None \<Rightarrow> Inr None
     | Some d \<Rightarrow> if d = [] then Inr None else res_bind (serial_params (dict_get d ''instrument'')) (\<lambda>s. case s of
         None \<Rightarrow> Inr None
       | Some settings \<Rightarrow> if truthy (dict_get d ''baud'')
           then res_bind (py_int (dict_get d ''baud'')) (\<lambda>b. Inr (Some (dict_set settings ''baud'' (VInt b)))) else Inr (Some settings))))"

definition address_for :: "dict \<Rightarrow> string res" where
  "address_for r = res_bind (dict_item r ''vid'') (\<lambda>v. res_bind (dict_item r ''pid'') (\<lambda>p.
     make_address v p (dict_get r ''serial'') (dict_get r ''port_path'')))"

section \<open>Deleting nets\<close>

text \<open>The records a test holds of, and the others.\<close>

fun split_nets :: "(pyval \<Rightarrow> bool res) \<Rightarrow> pyval list \<Rightarrow> (pyval list \<times> pyval list) res" where
  "split_nets f [] = Inr ([], [])"
| "split_nets f (n # ns) = res_bind (f n) (\<lambda>b. res_bind (split_nets f ns) (\<lambda>(hit, kept). Inr (if b then (n # hit, kept) else (hit, n # kept))))"

text \<open>
  The common part of \<^verbatim>\<open>_delete_nets_for_address\<close> and \<^verbatim>\<open>_delete_uart_nets_for_cable\<close>: nets that cannot be read are left alone,
  and a file is written only when a net goes.
\<close>

definition delete_nets :: "write_event \<times> write_event \<Rightarrow> (pyval \<Rightarrow> bool res) \<Rightarrow> nets_store \<Rightarrow> pyval list res \<times> nets_store" where
  "delete_nets ev f s = (case get_local_nets (fst ev) s of
     (Inl _, s1) \<Rightarrow> (Inr [], s1)
   | (Inr nets, s1) \<Rightarrow> (case split_nets f nets of
        Inl e \<Rightarrow> (Inl e, s1)
      | Inr (hit, kept) \<Rightarrow> if hit = [] then (Inr [], s1)
          else (case save_local_nets (snd ev) kept s1 of
             (Inl e, s2) \<Rightarrow> (Inl e, s2) | (Inr _, s2) \<Rightarrow> (res_map (\<lambda>n. get_key n ''name'') hit, s2))))"

definition has_address :: "pyval \<Rightarrow> pyval \<Rightarrow> bool res" where
  "has_address address n = res_bind (get_key n ''address'') (\<lambda>a. Inr (py_eq a address))"

definition delete_nets_for_address :: "write_event \<times> write_event \<Rightarrow> pyval \<Rightarrow> nets_store \<Rightarrow> pyval list res \<times> nets_store" where
  "delete_nets_for_address ev address s = (if \<not> truthy address then (Inr [], s) else delete_nets ev (has_address address) s)"

definition references_cable :: "string \<Rightarrow> pyval \<Rightarrow> bool res" where
  "references_cable serial n = res_bind (get_key n ''role'') (\<lambda>role. if \<not> py_eq role (VStr ''uart'') then Inr False
     else res_bind (get_key n ''address'') (\<lambda>a. res_bind (get_key n ''pin'') (\<lambda>pin.
       Inr (contains (py_str (py_or a (VStr []))) (''::'' @ serial @ ''::'') \<or> py_str pin = serial))))"

definition delete_uart_nets_for_cable :: "write_event \<times> write_event \<Rightarrow> cable \<Rightarrow> nets_store \<Rightarrow> pyval list res \<times> nets_store" where
  "delete_uart_nets_for_cable ev c s = (case c_serial c of
     Some serial \<Rightarrow> if serial = [] then (Inr [], s) else delete_nets ev (references_cable serial) s
   | None \<Rightarrow> (Inr [], s))"

section \<open>The operations\<close>

datatype assign_err = AssignmentError | Escaped pyexc

record bench =
  b_devices :: "json_file slot"
  b_nets :: nets_store

text \<open>The outcomes of the writes: of the nets for each replaced record, of its removal, of the terminal nets, and of the new record.\<close>

record assign_io =
  io_nets :: "nat \<Rightarrow> write_event \<times> write_event"
  io_drop :: "nat \<Rightarrow> wio"
  io_uart :: "write_event \<times> write_event"
  io_add :: wio

definition safe_address :: "dict \<Rightarrow> pyval" where
  "safe_address r = (case address_for r of Inr a \<Rightarrow> VStr a | Inl _ \<Rightarrow> VNone)"

definition identity_from :: "dict \<Rightarrow> assign_err + pyval \<times> pyval" where
  "identity_from payload = (let serial = py_or (dict_get payload ''serial'') VNone; port_path = py_or (dict_get payload ''port_path'') VNone in
     if truthy serial = truthy port_path then Inl AssignmentError else Inr (serial, port_path))"

definition plugged :: "pyval \<Rightarrow> pyval \<Rightarrow> cable \<Rightarrow> bool" where
  "plugged serial port_path c = (truthy serial \<and> py_eq (str_or_none (c_serial c)) serial \<or> truthy port_path \<and> py_eq (VStr (c_port c)) port_path)"

text \<open>A stored record of the cable, under its serial or under its port.\<close>

definition same_cable :: "cable \<Rightarrow> dict \<Rightarrow> bool" where
  "same_cable c old = (py_eq (dict_get old ''vid'') (VStr (c_vid c)) \<and> py_eq (dict_get old ''pid'') (VStr (c_pid c)) \<and>
     (truthy (dict_get old ''serial'') \<and> py_eq (dict_get old ''serial'') (str_or_none (c_serial c)) \<or>
      truthy (dict_get old ''port_path'') \<and> py_eq (dict_get old ''port_path'') (VStr (c_port c))))"

definition old_key :: "dict \<Rightarrow> pyval \<times> pyval" where
  "old_key old = (py_or (dict_get old ''serial'') VNone, py_or (dict_get old ''port_path'') VNone)"

definition same_key :: "pyval \<times> pyval \<Rightarrow> pyval \<times> pyval \<Rightarrow> bool" where
  "same_key a b = (py_eq (fst a) (fst b) \<and> py_eq (snd a) (snd b))"

definition replaced_record :: "string \<Rightarrow> pyval \<times> pyval \<Rightarrow> cable \<Rightarrow> dict \<Rightarrow> bool" where
  "replaced_record instrument new_key c old = (same_cable c old \<and>
     \<not> (same_key (old_key old) new_key \<and> py_eq (dict_get old ''instrument'') (VStr instrument)))"

fun replace_loop :: "assign_io \<Rightarrow> string \<Rightarrow> pyval \<times> pyval \<Rightarrow> cable \<Rightarrow> nat \<Rightarrow> pyval list \<Rightarrow> bench \<Rightarrow> pyval list res \<times> bench" where
  "replace_loop io instrument new_key c i [] b = (Inr [], b)"
| "replace_loop io instrument new_key c i (r # rs) b = (case r of
     VDict old \<Rightarrow> if \<not> replaced_record instrument new_key c old then replace_loop io instrument new_key c (Suc i) rs b
       else (case delete_nets_for_address (io_nets io i) (safe_address old) (b_nets b) of
          (Inl e, ns) \<Rightarrow> (Inl e, b\<lparr>b_nets := ns\<rparr>)
        | (Inr deleted, ns) \<Rightarrow>
            let b1 = b\<lparr>b_nets := ns\<rparr>;
                (x, sl) = (if same_key (old_key old) new_key then (Inr False, b_devices b)
                  else remove_assignment (io_drop io i) (dict_get old ''vid'') (dict_get old ''pid'') (dict_get old ''serial'') (dict_get old ''port_path'') (b_devices b));
                b2 = b1\<lparr>b_devices := sl\<rparr>
            in (case x of
                 Inl e \<Rightarrow> (Inl e, b2)
               | Inr _ \<Rightarrow> (case replace_loop io instrument new_key c (Suc i) rs b2 of
                    (Inl e, b3) \<Rightarrow> (Inl e, b3) | (Inr others, b3) \<Rightarrow> (Inr (deleted @ others), b3))))
   | _ \<Rightarrow> (Inl AttributeError, b))"

definition assign_reply :: "dict \<Rightarrow> string \<Rightarrow> cable \<Rightarrow> dict \<Rightarrow> pyval list \<Rightarrow> dict" where
  "assign_reply rc address c entry deleted = update_dict rc [(''address'', VStr address), (''tty'', VStr (c_tty c)),
     (''roles'', VList (list_of (dict_get entry ''roles''))), (''channels'', VDict (dict_of (dict_get entry ''channels''))), (''deleted_nets'', VList deleted)]"

definition assign_cable :: "assign_io \<Rightarrow> string \<Rightarrow> pyval \<Rightarrow> pyval \<Rightarrow> cable \<Rightarrow> pyval \<Rightarrow> bench \<Rightarrow> dict res \<times> bench" where
  "assign_cable io instrument serial port_path c baud b =
    (case replace_loop io instrument (serial, port_path) c 0 (load_raw (target (b_devices b))) b of
       (Inl e, b1) \<Rightarrow> (Inl e, b1)
     | (Inr deleted, b1) \<Rightarrow> (case delete_uart_nets_for_cable (io_uart io) c (b_nets b1) of
          (Inl e, ns) \<Rightarrow> (Inl e, b1\<lparr>b_nets := ns\<rparr>)
        | (Inr uart, ns) \<Rightarrow> let b2 = b1\<lparr>b_nets := ns\<rparr> in
            (case add_assignment (io_add io) (VStr instrument) (VStr (c_vid c)) (VStr (c_pid c)) serial port_path baud (b_devices b2) of
               (Inl e, sl) \<Rightarrow> (Inl e, b2\<lparr>b_devices := sl\<rparr>)
             | (Inr rc, sl) \<Rightarrow> (res_bind (get_device (VStr instrument)) (\<lambda>entry. res_bind (address_for rc) (\<lambda>address.
                   Inr (assign_reply rc address c (case entry of Some e \<Rightarrow> e | None \<Rightarrow> []) (deleted @ uart)))), b2\<lparr>b_devices := sl\<rparr>))))"

definition escaped :: "'a res \<Rightarrow> assign_err + 'a" where
  "escaped r = (case r of Inl e \<Rightarrow> Inl (Escaped e) | Inr x \<Rightarrow> Inr x)"

definition assign :: "sysfs \<Rightarrow> assign_io \<Rightarrow> dict \<Rightarrow> bench \<Rightarrow> (assign_err + dict) \<times> bench" where
  "assign sys io payload b = (case canonical_name (dict_get payload ''instrument'') of
     Inl e \<Rightarrow> (Inl (Escaped e), b)
   | Inr None \<Rightarrow> (Inl AssignmentError, b)
   | Inr (Some instrument) \<Rightarrow> (case identity_from payload of
        Inl e \<Rightarrow> (Inl e, b)
      | Inr (serial, port_path) \<Rightarrow> (case filter (plugged serial port_path) (list_cables sys) of
           [c] \<Rightarrow> (case assign_cable io instrument serial port_path c (dict_get payload ''baud'') b of (r, b') \<Rightarrow> (escaped r, b'))
         | _ \<Rightarrow> (Inl AssignmentError, b))))"

text \<open>The last stored record that has the serial, or the port; a stored entry that is not an object raises.\<close>

fun last_record :: "pyval \<Rightarrow> pyval \<Rightarrow> dict option \<Rightarrow> pyval list \<Rightarrow> dict option res" where
  "last_record serial port_path found [] = Inr found"
| "last_record serial port_path found (r # rs) = (case r of
     VDict d \<Rightarrow> last_record serial port_path
       (if truthy serial \<and> py_eq (dict_get d ''serial'') serial \<or> truthy port_path \<and> py_eq (dict_get d ''port_path'') port_path then Some d else found) rs
   | _ \<Rightarrow> Inl AttributeError)"

definition drop_record :: "wio \<Rightarrow> write_event \<times> write_event \<Rightarrow> dict \<Rightarrow> bench \<Rightarrow> dict res \<times> bench" where
  "drop_record w ev d b = (case (dict_item d ''vid'', dict_item d ''pid'') of
     (Inr vid, Inr pid) \<Rightarrow> (case remove_assignment w vid pid (dict_get d ''serial'') (dict_get d ''port_path'') (b_devices b) of
        (Inl e, sl) \<Rightarrow> (Inl e, b\<lparr>b_devices := sl\<rparr>)
      | (Inr removed, sl) \<Rightarrow> let b1 = b\<lparr>b_devices := sl\<rparr> in
          (case (if removed then delete_nets_for_address ev (safe_address d) (b_nets b1) else (Inr [], b_nets b1)) of
             (Inl e, ns) \<Rightarrow> (Inl e, b1\<lparr>b_nets := ns\<rparr>)
           | (Inr deleted, ns) \<Rightarrow> (Inr [(''removed'', VBool removed), (''instrument'', dict_get d ''instrument''), (''address'', safe_address d),
               (''deleted_nets'', VList deleted)], b1\<lparr>b_nets := ns\<rparr>)))
   | _ \<Rightarrow> (Inl KeyError, b))"

definition unassign :: "wio \<Rightarrow> write_event \<times> write_event \<Rightarrow> dict \<Rightarrow> bench \<Rightarrow> (assign_err + dict) \<times> bench" where
  "unassign w ev payload b = (case identity_from payload of
     Inl e \<Rightarrow> (Inl e, b)
   | Inr (serial, port_path) \<Rightarrow> (case last_record serial port_path None (load_raw (target (b_devices b))) of
        Inl e \<Rightarrow> (Inl (Escaped e), b)
      | Inr None \<Rightarrow> (Inr [(''removed'', VBool False)], b)
      | Inr (Some d) \<Rightarrow> (case drop_record w ev d b of (r, b') \<Rightarrow> (escaped r, b'))))"

section \<open>Listing and endpoints\<close>

definition catalog_entries :: "pyval list" where
  "catalog_entries = map (\<lambda>(name, e). VDict [(''name'', VStr name),
     (''display_name'', if dict_has e ''display_name'' then dict_get e ''display_name'' else VStr name), (''manufacturer'', dict_get e ''manufacturer''),
     (''roles'', VList (list_of (dict_get e ''roles''))), (''channels'', VDict (dict_of (dict_get e ''channels''))), (''transport'', dict_get e ''transport''),
     (''default_baud'', dict_get (dict_of (dict_get e ''serial'')) ''baud'')]) (sort_key fst DEVICE_CATALOG)"

definition listed_record :: "sysfs \<Rightarrow> pyval \<Rightarrow> dict res" where
  "listed_record sys r = (case r of
     VDict d \<Rightarrow> res_bind (resolve_tty sys (dict_get d ''vid'') (dict_get d ''pid'') (dict_get d ''serial'') (dict_get d ''port_path'')) (\<lambda>tty.
       Inr (dict_set (dict_set d ''address'' (safe_address d)) ''tty'' (str_or_none tty)))
   | _ \<Rightarrow> Inl AttributeError)"

definition list_state_of :: "sysfs \<Rightarrow> json_file \<Rightarrow> (pyval list \<times> dict list \<times> cable list) res" where
  "list_state_of sys f = res_bind (res_map (listed_record sys) (load_raw f)) (\<lambda>assignments.
     let ttys = filter truthy (map (\<lambda>a. dict_get a ''tty'') assignments) in
     Inr (catalog_entries, assignments, filter (\<lambda>c. VStr (c_tty c) \<notin> set ttys) (list_cables sys)))"

definition custom_devices_assign :: "sysfs \<Rightarrow> assign_io \<Rightarrow> pyval res \<Rightarrow> bench \<Rightarrow> (int + dict) \<times> bench" where
  "custom_devices_assign sys io body b = (case body of
     Inl _ \<Rightarrow> (Inl 500, b)
   | Inr v \<Rightarrow> (case py_or v (VDict []) of
        VDict payload \<Rightarrow> (case assign sys io payload b of
           (Inl AssignmentError, b') \<Rightarrow> (Inl 400, b') | (Inl (Escaped _), b') \<Rightarrow> (Inl 500, b') | (Inr r, b') \<Rightarrow> (Inr r, b'))
      | _ \<Rightarrow> (Inl 500, b)))"

definition custom_devices_remove :: "wio \<Rightarrow> write_event \<times> write_event \<Rightarrow> pyval res \<Rightarrow> bench \<Rightarrow> (int + dict) \<times> bench" where
  "custom_devices_remove w ev body b = (case body of
     Inl _ \<Rightarrow> (Inl 500, b)
   | Inr v \<Rightarrow> (case py_or v (VDict []) of
        VDict payload \<Rightarrow> (case unassign w ev payload b of
           (Inl AssignmentError, b') \<Rightarrow> (Inl 400, b') | (Inl (Escaped _), b') \<Rightarrow> (Inl 500, b') | (Inr r, b') \<Rightarrow> (Inr r, b'))
      | _ \<Rightarrow> (Inl 500, b)))"

section \<open>Well-formed stores\<close>

text \<open>A record that \<open>add_assignment\<close> writes for a cable: normalised ids, and one of a serial and a port.\<close>

definition normal_id :: "pyval \<Rightarrow> bool" where
  "normal_id v = (case v of VStr s \<Rightarrow> s \<noteq> [] \<and> strip s = s \<and> lower s = s | _ \<Rightarrow> False)"

definition name_value :: "pyval \<Rightarrow> bool" where
  "name_value v = (case v of VStr s \<Rightarrow> s \<noteq> [] | _ \<Rightarrow> False)"

definition assignment_ok :: "dict \<Rightarrow> bool" where
  "assignment_ok d = (normal_id (dict_get d ''vid'') \<and> normal_id (dict_get d ''pid'') \<and>
     (name_value (dict_get d ''serial'') \<and> dict_get d ''port_path'' = VNone \<or> dict_get d ''serial'' = VNone \<and> name_value (dict_get d ''port_path'')) \<and>
     dict_has d ''vid'' \<and> dict_has d ''pid'')"

definition key_of :: "dict \<Rightarrow> cable_key" where
  "key_of d = (dict_get d ''vid'', dict_get d ''pid'', dict_get d ''serial'', dict_get d ''port_path'')"

definition store_wf :: "dict list \<Rightarrow> bool" where
  "store_wf ds = (list_all assignment_ok ds \<and> distinct (map key_of ds))"

lemma normal_id_iff: "normal_id v \<longleftrightarrow> (\<exists>s. v = VStr s \<and> s \<noteq> [] \<and> strip s = s \<and> lower s = s)"
  by (cases v) (auto simp: normal_id_def)

lemma name_value_iff: "name_value v \<longleftrightarrow> (\<exists>s. v = VStr s \<and> s \<noteq> [])"
  by (cases v) (auto simp: name_value_def)

lemma norm_id_normal: "normal_id v \<Longrightarrow> norm_id v = Inr v"
  by (auto simp: normal_id_iff norm_id_def)

lemma assignment_okD:
  assumes "assignment_ok d"
  obtains v p where "dict_get d ''vid'' = VStr v" "v \<noteq> []" "dict_get d ''pid'' = VStr p" "p \<noteq> []"
    "normal_id (VStr v)" "normal_id (VStr p)" "dict_item d ''vid'' = Inr (VStr v)" "dict_item d ''pid'' = Inr (VStr p)"
    "(\<exists>s. dict_get d ''serial'' = VStr s \<and> s \<noteq> [] \<and> dict_get d ''port_path'' = VNone) \<or> dict_get d ''serial'' = VNone \<and> (\<exists>s. dict_get d ''port_path'' = VStr s \<and> s \<noteq> [])"
  using assms by (auto simp: assignment_ok_def normal_id_iff name_value_iff dict_item_get)

lemma identity_key_ok: "assignment_ok d \<Longrightarrow> identity_key (VDict d) = Inr (key_of d)"
  by (auto elim!: assignment_okD simp: identity_key_def get_key_def norm_id_normal key_of_def py_or_def res_bind_def)

text \<open>A key of strings and \<^verbatim>\<open>None\<close> is compared as it is.\<close>

definition plain_key :: "cable_key \<Rightarrow> bool" where
  "plain_key k = (case k of (a, b, c, d) \<Rightarrow> list_all (\<lambda>v. v = VNone \<or> name_value v) [a, b, c, d])"

lemma py_eq_plain: "v = VNone \<or> name_value v \<Longrightarrow> w = VNone \<or> name_value w \<Longrightarrow> py_eq v w \<longleftrightarrow> v = w"
  by (auto simp: name_value_iff)

lemma key_eq_plain: "plain_key j \<Longrightarrow> plain_key k \<Longrightarrow> key_eq j k \<longleftrightarrow> j = k"
  by (cases j; cases k) (auto simp: plain_key_def key_eq_def py_eq_plain)

lemma plain_key_of: "assignment_ok d \<Longrightarrow> plain_key (key_of d)"
  by (auto elim!: assignment_okD simp: key_of_def plain_key_def name_value_iff)

lemma without_key_ok:
  "list_all assignment_ok ds \<Longrightarrow> plain_key k \<Longrightarrow> without_key k (map VDict ds) = Inr (map VDict (filter (\<lambda>d. key_of d \<noteq> k) ds))"
  by (induction ds) (auto simp: identity_key_ok key_eq_plain plain_key_of res_bind_def)

definition devices_of :: "bench \<Rightarrow> pyval list" where
  "devices_of b = load_raw (target (b_devices b))"

lemma atomic_write_ok: "atomic_write io rs sl = (Inr u, sl') \<Longrightarrow> load_raw (target sl') = rs"
  using replace_file_atomic [where err = RawOSError and io = io and x = "JsonDoc (VList rs)" and s = sl]
  by (auto simp: atomic_write_def load_raw_def split: prod.splits sum.splits)

lemma filter_same_length: "length (filter P xs) = length xs \<longleftrightarrow> filter P xs = xs"
proof
  assume "length (filter P xs) = length xs"
  then have "\<forall>x\<in>set xs. P x" using length_filter_less [of _ xs P] by fastforce
  then show "filter P xs = xs" by simp
qed simp

lemma remove_assignment_ok:
  assumes "load_raw (target sl) = map VDict ds" "list_all assignment_ok ds" "assignment_ok d"
    and "remove_assignment io (dict_get d ''vid'') (dict_get d ''pid'') (dict_get d ''serial'') (dict_get d ''port_path'') sl = (Inr x, sl')"
  shows "load_raw (target sl') = map VDict (filter (\<lambda>r. key_of r \<noteq> key_of d) ds) \<and> (x \<longleftrightarrow> key_of d \<in> key_of ` set ds)"
proof -
  let ?t = "[(''vid'', dict_get d ''vid''), (''pid'', dict_get d ''pid''), (''serial'', dict_get d ''serial''), (''port_path'', dict_get d ''port_path'')]"
  let ?kept = "filter (\<lambda>r. key_of r \<noteq> key_of d) ds"
  have "identity_key (VDict ?t) = Inr (key_of d)"
    using assms(3) by (auto elim!: assignment_okD simp: identity_key_def get_key_def norm_id_normal key_of_def py_or_def res_bind_def)
  with assms(1,2) have k: "res_bind (identity_key (VDict ?t)) (\<lambda>k. without_key k (load_raw (target sl))) = Inr (map VDict ?kept)"
    by (simp add: res_bind_def without_key_ok plain_key_of [OF assms(3)])
  have all: "length ?kept = length ds \<longleftrightarrow> key_of d \<notin> key_of ` set ds"
    unfolding filter_same_length filter_id_conv by (auto simp: image_iff)
  show ?thesis
  proof (cases "length ?kept = length ds")
    case True
    then have "?kept = ds" by (rule filter_same_length [THEN iffD1])
    with True assms(1,4) k all show ?thesis by (simp add: remove_assignment_def Let_def)
  next
    case False
    with assms(1,4) k obtain u where "atomic_write io (map VDict ?kept) sl = (Inr u, sl')" "x"
      by (auto simp: remove_assignment_def Let_def split: prod.splits sum.splits)
    with False all show ?thesis by (simp add: atomic_write_ok)
  qed
qed

section \<open>Laws of deleted nets\<close>

text \<open>What a reader of the saved nets is given.\<close>

abbreviation reader_nets :: "nets_store \<Rightarrow> pyval list res" where
  "reader_nets s \<equiv> current_nets (file_nets (nfile s))"

lemma migrate_done: "migrate nets = Inr (out, ch) \<Longrightarrow> needs_migration out = Inr False"
proof (cases ch)
  case True
  assume "migrate nets = Inr (out, ch)"
  with True obtain taken owned ms ins where "migrate_loop taken owned nets = Inr (ms, ins)" "out = ms @ ins"
    by (auto simp: migrate_def res_bind_eq_Inr split: if_splits)
  with migrate_loop_shape show ?thesis by (fastforce simp: needs_migration_False list_all_iff)
qed (auto dest: migrate_untouched)

lemma current_nets_settled: "current_nets f = Inr ns \<Longrightarrow> needs_migration ns = Inr False"
  by (auto simp: current_nets_def res_bind_eq_Inr dest: migrate_done)

lemma current_nets_id: "needs_migration ns = Inr False \<Longrightarrow> current_nets ns = Inr ns"
  by (simp add: current_nets_def migrate_again res_bind_def)

lemma current_nets_filter: "current_nets f = Inr ns \<Longrightarrow> current_nets (filter P ns) = Inr (filter P ns)"
  using current_nets_settled [of f ns] by (intro current_nets_id) (auto simp: needs_migration_False list_all_iff)

lemma split_nets_total:
  "list_all (\<lambda>n. \<exists>b. f n = Inr b) ns \<Longrightarrow> split_nets f ns = Inr (filter (\<lambda>n. f n = Inr True) ns, filter (\<lambda>n. f n \<noteq> Inr True) ns)"
  by (induction ns) (auto simp: res_bind_def)

definition total_test :: "(pyval \<Rightarrow> bool res) \<Rightarrow> bool" where
  "total_test f = (\<forall>d. \<exists>b. f (VDict d) = Inr b)"

lemma total_tests: "total_test (has_address a)" "total_test (references_cable serial)"
  by (auto simp: total_test_def has_address_def references_cable_def get_key_def res_bind_def)

lemma records_ok_dicts: "records_ok ns \<Longrightarrow> n \<in> set ns \<Longrightarrow> \<exists>d. n = VDict d"
  by (cases n) (auto simp: records_ok_def list_all_iff)

lemma delete_nets_spec:
  assumes "store_ok s" "reader_nets s = Inr ns" "snd (fst ev) \<noteq> 0" "snd (snd ev) \<noteq> 0" "total_test f" "delete_nets ev f s = (Inr deleted, s')"
  shows "store_ok s' \<and> reader_nets s' = Inr (filter (\<lambda>n. f n \<noteq> Inr True) ns)"
proof -
  obtain s1 where s1: "get_local_nets (fst ev) s = (Inr ns, s1)" "store_ok s1" "records_ok ns"
    "file_nets (nfile s1) = ns \<or> file_nets (nfile s1) = file_nets (nfile s)"
    using get_local_nets_spec [OF assms(1,3,2)] by blast
  then have r1: "reader_nets s1 = Inr ns" using assms(2) current_nets_id current_nets_settled by metis
  let ?kept = "filter (\<lambda>n. f n \<noteq> Inr True) ns"
  have "list_all (\<lambda>n. \<exists>b. f n = Inr b) ns"
    using s1(3) assms(5) records_ok_dicts by (fastforce simp: total_test_def list_all_iff)
  note sp = split_nets_total [OF this]
  show ?thesis
  proof (cases "filter (\<lambda>n. f n = Inr True) ns = []")
    case True
    then have "?kept = ns" by (simp add: filter_empty_conv)
    with True s1 sp r1 assms(6) show ?thesis by (simp add: delete_nets_def)
  next
    case False
    with s1(1) sp assms(6) have sv: "save_local_nets (snd ev) ?kept s1 = (Inr (), s')"
      by (auto simp: delete_nets_def split: prod.splits sum.splits)
    have kept: "records_ok ?kept" using s1(3) by (auto simp: records_ok_def list_all_iff)
    have "file_nets (nfile s') = ?kept \<and> store_ok s'"
      by (cases rule: save_local_nets_cases [OF s1(2) kept assms(4)]) (use sv in auto)
    with current_nets_filter [OF assms(2)] show ?thesis by simp
  qed
qed

section \<open>Laws of an assignment\<close>

definition write_time_ok :: "write_event \<times> write_event \<Rightarrow> bool" where
  "write_time_ok ev = (snd (fst ev) \<noteq> 0 \<and> snd (snd ev) \<noteq> 0)"

definition times_ok :: "assign_io \<Rightarrow> bool" where
  "times_ok io = ((\<forall>i. write_time_ok (io_nets io i)) \<and> write_time_ok (io_uart io))"

lemma safe_address_ok: "assignment_ok d \<Longrightarrow> \<exists>a. address_for d = Inr a \<and> safe_address d = VStr a \<and> a \<noteq> []"
  by (auto elim!: assignment_okD simp: safe_address_def address_for_def make_address_def lower_or_empty_def res_bind_def SCHEME_def)

lemma delete_nets_for_address_spec:
  assumes "store_ok s" "reader_nets s = Inr ns" "write_time_ok ev" "assignment_ok d" "delete_nets_for_address ev (safe_address d) s = (Inr deleted, s')"
  shows "store_ok s' \<and> reader_nets s' = Inr (filter (\<lambda>n. has_address (safe_address d) n \<noteq> Inr True) ns)"
proof -
  from safe_address_ok [OF assms(4)] assms(5) have "delete_nets ev (has_address (safe_address d)) s = (Inr deleted, s')"
    by (auto simp: delete_nets_for_address_def)
  with assms(1-3) total_tests(1) show ?thesis by (intro delete_nets_spec) (simp_all add: write_time_ok_def)
qed

lemma same_key_ok:
  assumes "assignment_ok d" "fst nk = VNone \<or> name_value (fst nk)" "snd nk = VNone \<or> name_value (snd nk)"
  shows "same_key (old_key d) nk \<longleftrightarrow> (dict_get d ''serial'', dict_get d ''port_path'') = nk"
  using assms by (cases nk) (auto elim!: assignment_okD simp: same_key_def old_key_def py_or_def name_value_iff)

lemma replace_loop_spec:
  assumes "times_ok io" and nk: "fst nk = VNone \<or> name_value (fst nk)" "snd nk = VNone \<or> name_value (snd nk)"
  shows "list_all assignment_ok os \<Longrightarrow> devices_of b = map VDict ds \<Longrightarrow> list_all assignment_ok ds \<Longrightarrow>
    store_ok (b_nets b) \<Longrightarrow> reader_nets (b_nets b) = Inr ns \<Longrightarrow> replace_loop io instrument nk c i (map VDict os) b = (Inr deleted, b') \<Longrightarrow>
    devices_of b' = map VDict (filter (\<lambda>d. \<forall>old\<in>set os. replaced_record instrument nk c old \<and> (dict_get old ''serial'', dict_get old ''port_path'') \<noteq> nk \<longrightarrow> key_of d \<noteq> key_of old) ds) \<and>
    store_ok (b_nets b') \<and>
    reader_nets (b_nets b') = Inr (filter (\<lambda>n. \<forall>old\<in>set os. replaced_record instrument nk c old \<longrightarrow> has_address (safe_address old) n \<noteq> Inr True) ns)"
proof (induction os arbitrary: i b ds ns deleted)
  case (Cons old os)
  have ok: "assignment_ok old" "list_all assignment_ok os" using Cons.prems(1) by simp_all
  note key = same_key_ok [OF ok(1) nk]
  show ?case
  proof (cases "replaced_record instrument nk c old")
    case False
    with Cons.prems have "replace_loop io instrument nk c (Suc i) (map VDict os) b = (Inr deleted, b')" by simp
    from Cons.IH [OF ok(2) Cons.prems(2-5) this] False show ?thesis by simp
  next
    case True
    with Cons.prems(6) obtain del ns1 x sl others where
      n1: "delete_nets_for_address (io_nets io i) (safe_address old) (b_nets b) = (Inr del, ns1)" and
      rm: "(if same_key (old_key old) nk then (Inr False, b_devices b)
        else remove_assignment (io_drop io i) (dict_get old ''vid'') (dict_get old ''pid'') (dict_get old ''serial'') (dict_get old ''port_path'') (b_devices b)) = (Inr x, sl)" and
      lp: "replace_loop io instrument nk c (Suc i) (map VDict os) (b\<lparr>b_nets := ns1, b_devices := sl\<rparr>) = (Inr others, b')"
      by (auto simp: Let_def split: prod.splits sum.splits)
    let ?ds = "if (dict_get old ''serial'', dict_get old ''port_path'') = nk then ds else filter (\<lambda>d. key_of d \<noteq> key_of old) ds"
    let ?ns = "filter (\<lambda>n. has_address (safe_address old) n \<noteq> Inr True) ns"
    have d1: "load_raw (target sl) = map VDict ?ds"
    proof (cases "(dict_get old ''serial'', dict_get old ''port_path'') = nk")
      case True
      with rm key Cons.prems(2) show ?thesis by (simp add: devices_of_def)
    next
      case False
      with rm key remove_assignment_ok [OF _ Cons.prems(3) ok(1)] Cons.prems(2) show ?thesis by (simp add: devices_of_def)
    qed
    have "list_all assignment_ok ?ds" using Cons.prems(3) by (auto simp: list_all_iff)
    moreover have "store_ok ns1 \<and> reader_nets ns1 = Inr ?ns"
      using delete_nets_for_address_spec [OF Cons.prems(4,5) _ ok(1) n1] assms(1) by (simp add: times_ok_def)
    ultimately have "devices_of b' = map VDict (filter (\<lambda>d. \<forall>old\<in>set os. replaced_record instrument nk c old \<and> (dict_get old ''serial'', dict_get old ''port_path'') \<noteq> nk \<longrightarrow> key_of d \<noteq> key_of old) ?ds) \<and>
        store_ok (b_nets b') \<and> reader_nets (b_nets b') = Inr (filter (\<lambda>n. \<forall>old\<in>set os. replaced_record instrument nk c old \<longrightarrow> has_address (safe_address old) n \<noteq> Inr True) ?ns)"
      using Cons.IH [OF ok(2) _ _ _ _ lp] d1 by (simp add: devices_of_def)
    with True show ?thesis by (auto simp: filter_filter conj_commute intro!: filter_cong)
  qed
qed (simp add: devices_of_def)

lemma is_space_lower: "is_space (lower_char c) = is_space c"
  by (auto simp: is_space_def lower_char_def Let_def of_char_of)

lemma strip_lower: "strip (lower s) = lower (strip s)"
proof -
  have "is_space \<circ> lower_char = is_space" by (simp add: fun_eq_iff is_space_lower)
  then show ?thesis by (simp add: strip_def lower_def dropWhile_map rev_map)
qed

lemma dropWhile_prefix: "dropWhile P (rev (dropWhile P (rev (dropWhile P s)))) = rev (dropWhile P (rev (dropWhile P s)))"
proof (cases "dropWhile P s")
  case (Cons c t)
  then have "\<not> P c" by (metis hd_dropWhile list.sel(1) list.distinct(1))
  then have "dropWhile P (rev t @ [c]) = dropWhile P (rev t) @ [c]" by (induction "rev t" rule: rev_induct) (simp_all add: dropWhile_append)
  with Cons \<open>\<not> P c\<close> show ?thesis by simp
next
  case Nil
  show ?thesis by (simp only: Nil dropWhile.simps rev.simps)
qed

lemma strip_idem: "strip (strip s) = strip s"
  by (simp add: strip_def dropWhile_prefix dropWhile_idem)

lemma cables_normal:
  assumes "c \<in> set (list_cables sys)"
  shows "normal_id (VStr (c_vid c)) \<and> normal_id (VStr (c_pid c))"
proof -
  have n: "sys_id sys d f \<noteq> [] \<Longrightarrow> normal_id (VStr (sys_id sys d f))" for d f
    by (auto simp: sys_id_def read_sysfs_text_def normal_id_def strip_lower strip_idem split: option.splits sys_attr.splits sum.splits)
  from assms obtain t where "cable_of sys t = Some c" by (auto simp: list_cables_def mem_map_filter split: if_splits)
  with n show ?thesis by (auto simp: cable_of_def Let_def split: if_splits option.splits)
qed

text \<open>The identity of an accepted request is that of the cable it found.\<close>

definition cable_identity :: "cable \<Rightarrow> pyval \<times> pyval \<Rightarrow> bool" where
  "cable_identity c nk = ((case c_serial c of Some s \<Rightarrow> s \<noteq> [] \<and> nk = (VStr s, VNone) | None \<Rightarrow> False) \<or> c_port c \<noteq> [] \<and> nk = (VNone, VStr (c_port c)))"

lemma plugged_identity:
  assumes "identity_from payload = Inr (serial, port)" "plugged serial port c"
  shows "cable_identity c (serial, port)"
proof -
  have v: "truthy v \<Longrightarrow> py_eq (str_or_none x) v \<Longrightarrow> \<exists>s. x = Some s \<and> v = VStr s \<and> s \<noteq> []" for v x
    by (cases x; cases v) (auto simp: str_or_none_def)
  have "truthy serial \<noteq> truthy port" "truthy serial \<or> serial = VNone" "truthy port \<or> port = VNone"
    using assms(1) by (auto simp: identity_from_def Let_def py_or_def split: if_splits)
  with assms(2) v [of serial "c_serial c"] show ?thesis by (auto simp: plugged_def cable_identity_def)
qed

lemma cable_identity_plain:
  "cable_identity c nk \<Longrightarrow> (fst nk = VNone \<or> name_value (fst nk)) \<and> (snd nk = VNone \<or> name_value (snd nk)) \<and> (truthy (fst nk) \<or> truthy (snd nk))"
  by (auto simp: cable_identity_def name_value_iff split: option.splits)

lemma canonical_again:
  assumes "canonical_name v = Inr (Some k)"
  shows "canonical_name (VStr k) = Inr (Some k)" "map_of DEVICE_CATALOG k \<noteq> None"
proof -
  have keys: "(k', e) \<in> set DEVICE_CATALOG \<Longrightarrow> map_of DEVICE_CATALOG k' \<noteq> None \<and> k' \<noteq> []" for k' e by (auto simp: DEVICE_CATALOG_def)
  from assms have m: "map_of DEVICE_CATALOG k \<noteq> None \<and> k \<noteq> []"
    using keys by (cases v) (auto simp: canonical_name_def catalog_entry_def res_bind_def dest!: map_of_SomeD find_SomeD split: if_splits option.splits)
  then show "map_of DEVICE_CATALOG k \<noteq> None" by blast
  from m show "canonical_name (VStr k) = Inr (Some k)" by (auto simp: canonical_name_def catalog_entry_def res_bind_def)
qed

text \<open>The record of an assignment.\<close>

definition record_of :: "string \<Rightarrow> cable \<Rightarrow> pyval \<times> pyval \<Rightarrow> dict \<Rightarrow> dict" where
  "record_of instrument c nk extra = [(''instrument'', VStr instrument), (''vid'', VStr (c_vid c)), (''pid'', VStr (c_pid c)),
     (''serial'', fst nk), (''port_path'', snd nk)] @ extra"

lemma record_of_gets:
  "dict_get (record_of i c nk x) ''instrument'' = VStr i" "dict_get (record_of i c nk x) ''vid'' = VStr (c_vid c)" "dict_get (record_of i c nk x) ''pid'' = VStr (c_pid c)"
  "dict_get (record_of i c nk x) ''serial'' = fst nk" "dict_get (record_of i c nk x) ''port_path'' = snd nk" "dict_has (record_of i c nk x) ''vid''" "dict_has (record_of i c nk x) ''pid''"
  by (simp_all add: record_of_def dict_has_def)

lemma record_of_ok:
  assumes "cable_identity c nk" "normal_id (VStr (c_vid c))" "normal_id (VStr (c_pid c))"
  shows "assignment_ok (record_of i c nk x)" "key_of (record_of i c nk x) = (VStr (c_vid c), VStr (c_pid c), nk)" "same_cable c (record_of i c nk x)"
  using assms by (auto simp: assignment_ok_def record_of_gets key_of_def same_cable_def cable_identity_def name_value_iff str_or_none_def split: option.splits)

lemma add_assignment_ok:
  assumes "load_raw (target sl) = map VDict ds" "list_all assignment_ok ds" "canonical_name (VStr i) = Inr (Some i)"
    "cable_identity c nk" "normal_id (VStr (c_vid c))" "normal_id (VStr (c_pid c))"
    and "add_assignment io (VStr i) (VStr (c_vid c)) (VStr (c_pid c)) (fst nk) (snd nk) baud sl = (Inr rc, sl')"
  shows "\<exists>x. rc = record_of i c nk x \<and> load_raw (target sl') = map VDict (filter (\<lambda>d. key_of d \<noteq> (VStr (c_vid c), VStr (c_pid c), nk)) ds @ [rc])"
proof -
  have "truthy (fst nk) \<or> truthy (snd nk)" "py_or (fst nk) VNone = fst nk" "py_or (snd nk) VNone = snd nk"
    using cable_identity_plain [OF assms(4)] by (auto simp: py_or_def name_value_iff)
  then have nr: "\<exists>x. r = record_of i c nk x" if "assignment_record (VStr i) (VStr (c_vid c)) (VStr (c_pid c)) (fst nk) (snd nk) baud = Inr r" for r
    using that assms(3,5,6) by (auto simp: assignment_record_def norm_id_normal with_baud_def record_of_def res_bind_eq_Inr split: if_splits)
  from assms(7) obtain r k kept u where r: "assignment_record (VStr i) (VStr (c_vid c)) (VStr (c_pid c)) (fst nk) (snd nk) baud = Inr r"
    "identity_key (VDict r) = Inr k" "without_key k (load_raw (target sl)) = Inr kept" "atomic_write io (kept @ [VDict r]) sl = (Inr u, sl')" "rc = r"
    by (auto simp: add_assignment_def res_bind_eq_Inr split: sum.splits prod.splits)
  from nr [OF r(1)] obtain x where x: "r = record_of i c nk x" by blast
  note ok = record_of_ok [OF assms(4-6), of i x]
  from r(2) x identity_key_ok [OF ok(1)] ok(2) have k: "k = (VStr (c_vid c), VStr (c_pid c), nk)" by simp
  have "plain_key k" using plain_key_of [OF ok(1)] ok(2) k by simp
  with r(3) assms(1,2) k have "kept = map VDict (filter (\<lambda>d. key_of d \<noteq> (VStr (c_vid c), VStr (c_pid c), nk)) ds)" by (simp add: without_key_ok)
  with r(4,5) x show ?thesis by (auto simp: atomic_write_ok)
qed

lemma same_cable_key: "key_of d = key_of e \<Longrightarrow> same_cable c d = same_cable c e"
  by (simp add: key_of_def same_cable_def)

text \<open>What the loop and the new record leave of the store: the records of other cables.\<close>

lemma kept_records:
  assumes "list_all assignment_ok ds" "cable_identity c nk" "normal_id (VStr (c_vid c))" "normal_id (VStr (c_pid c))"
  shows "filter (\<lambda>d. key_of d \<noteq> (VStr (c_vid c), VStr (c_pid c), nk)) (filter (\<lambda>d. \<forall>old\<in>set ds. replaced_record i nk c old \<and>
      (dict_get old ''serial'', dict_get old ''port_path'') \<noteq> nk \<longrightarrow> key_of d \<noteq> key_of old) ds) = filter (\<lambda>d. \<not> same_cable c d) ds"
proof -
  note rc = record_of_ok [OF assms(2-4), of i "[]"]
  have "key_of d \<noteq> (VStr (c_vid c), VStr (c_pid c), nk) \<and> (\<forall>old\<in>set ds. replaced_record i nk c old \<and> (dict_get old ''serial'', dict_get old ''port_path'') \<noteq> nk \<longrightarrow> key_of d \<noteq> key_of old) \<longleftrightarrow> \<not> same_cable c d"
    if d: "d \<in> set ds" for d
  proof (cases "same_cable c d")
    case True
    then have ids: "dict_get d ''vid'' = VStr (c_vid c)" "dict_get d ''pid'' = VStr (c_pid c)" by (simp_all add: same_cable_def)
    have ok: "assignment_ok d" using assms(1) d by (simp add: list_all_iff)
    show ?thesis
    proof (cases "(dict_get d ''serial'', dict_get d ''port_path'') = nk")
      case True
      with ids have "key_of d = (VStr (c_vid c), VStr (c_pid c), nk)" by (simp add: key_of_def)
      with \<open>same_cable c d\<close> show ?thesis by simp
    next
      case False
      with same_key_ok [OF ok] cable_identity_plain [OF assms(2)] have "\<not> same_key (old_key d) nk" by blast
      with True have "replaced_record i nk c d" by (simp add: replaced_record_def)
      with False d True show ?thesis by blast
    qed
  next
    case False
    then have "key_of d \<noteq> key_of old" if "same_cable c old" for old using same_cable_key that by blast
    with rc(2,3) False show ?thesis by (metis replaced_record_def)
  qed
  then show ?thesis unfolding filter_filter by (intro filter_cong refl) blast
qed

lemma matches_record_ok:
  assumes "assignment_ok d" "normal_id (VStr v)" "normal_id (VStr p)"
  shows "matches_record (VStr v) (VStr p) serial port (VDict d) = Inr (dict_get d ''vid'' = VStr v \<and> dict_get d ''pid'' = VStr p \<and>
    (if truthy (dict_get d ''serial'') then truthy serial \<and> py_eq (dict_get d ''serial'') serial
     else truthy (dict_get d ''port_path'') \<and> truthy port \<and> py_eq (dict_get d ''port_path'') port))"
  using assms by (auto elim!: assignment_okD simp: matches_record_def get_key_def norm_id_normal res_bind_def)

lemma first_match_last:
  "list_all (\<lambda>d. f (VDict d) = Inr False) ds \<Longrightarrow> f (VDict rc) = Inr True \<Longrightarrow> first_match f (map VDict (ds @ [rc])) = Inr (Some rc)"
  by (induction ds) (simp_all add: res_bind_def dict_of_def)

text \<open>The new record is the one that every identity of the cable finds.\<close>

lemma record_for_new:
  assumes "list_all assignment_ok ds" "list_all (\<lambda>d. \<not> same_cable c d) ds" "cable_identity c nk" "normal_id (VStr (c_vid c))" "normal_id (VStr (c_pid c))"
    and "load_raw f = map VDict (ds @ [record_of i c nk x])"
    and "truthy serial \<longrightarrow> serial = str_or_none (c_serial c)" "truthy port \<longrightarrow> port = VStr (c_port c)" "fst nk = VNone \<or> serial = fst nk" "snd nk = VNone \<or> port = snd nk"
  shows "record_for (VStr (c_vid c)) (VStr (c_pid c)) serial port f = Inr (Some (record_of i c nk x))"
proof -
  let ?m = "matches_record (VStr (c_vid c)) (VStr (c_pid c)) serial port"
  have "?m (VDict d) = Inr False" if "d \<in> set ds" for d
    using that assms(1,2,4,5,7,8) by (auto simp: list_all_iff matches_record_ok same_cable_def)
  then have no: "list_all (\<lambda>d. ?m (VDict d) = Inr False) ds" by (simp add: list_all_iff)
  have "?m (VDict (record_of i c nk x)) = Inr True"
    using matches_record_ok [OF record_of_ok(1) [OF assms(3-5)] assms(4,5)] cable_identity_plain [OF assms(3)] assms(3,9,10)
    by (auto simp: record_of_gets cable_identity_def name_value_iff split: option.splits)
  from first_match_last [OF no this] assms(4-6) show ?thesis by (simp add: record_for_def norm_id_normal res_bind_def)
qed

lemma delete_uart_spec:
  assumes "store_ok s" "reader_nets s = Inr ns" "write_time_ok ev" "delete_uart_nets_for_cable ev c s = (Inr deleted, s')"
  shows "store_ok s' \<and> reader_nets s' = Inr (filter (\<lambda>n. \<forall>serial. c_serial c = Some serial \<and> serial \<noteq> [] \<longrightarrow> references_cable serial n \<noteq> Inr True) ns)"
proof (cases "\<exists>serial. c_serial c = Some serial \<and> serial \<noteq> []")
  case True
  then obtain serial where s: "c_serial c = Some serial" "serial \<noteq> []" by blast
  with assms(4) have "delete_nets ev (references_cable serial) s = (Inr deleted, s')" by (simp add: delete_uart_nets_for_cable_def)
  with assms(1-3) total_tests(2) have "store_ok s' \<and> reader_nets s' = Inr (filter (\<lambda>n. references_cable serial n \<noteq> Inr True) ns)"
    by (intro delete_nets_spec) (simp_all add: write_time_ok_def)
  with s show ?thesis by simp
next
  case False
  with assms(4) have "s' = s" by (auto simp: delete_uart_nets_for_cable_def split: option.splits if_splits)
  moreover have "filter (\<lambda>n. \<forall>serial. c_serial c = Some serial \<and> serial \<noteq> [] \<longrightarrow> references_cable serial n \<noteq> Inr True) ns = ns"
    by (rule filter_True) (use False in blast)
  ultimately show ?thesis using assms(1,2) by simp
qed

definition nets_left :: "string \<Rightarrow> pyval \<times> pyval \<Rightarrow> cable \<Rightarrow> dict list \<Rightarrow> pyval list \<Rightarrow> pyval list" where
  "nets_left i nk c ds ns = filter (\<lambda>n. \<forall>serial. c_serial c = Some serial \<and> serial \<noteq> [] \<longrightarrow> references_cable serial n \<noteq> Inr True)
     (filter (\<lambda>n. \<forall>old\<in>set ds. replaced_record i nk c old \<longrightarrow> has_address (safe_address old) n \<noteq> Inr True) ns)"

lemma assign_cable_spec:
  assumes "devices_of b = map VDict ds" "list_all assignment_ok ds" "store_ok (b_nets b)" "reader_nets (b_nets b) = Inr ns" "times_ok io"
    and "canonical_name (VStr i) = Inr (Some i)" "cable_identity c nk" "normal_id (VStr (c_vid c))" "normal_id (VStr (c_pid c))"
    and "assign_cable io i (fst nk) (snd nk) c baud b = (Inr reply, b')"
  obtains x where "devices_of b' = map VDict (filter (\<lambda>d. \<not> same_cable c d) ds @ [record_of i c nk x])" "store_ok (b_nets b')"
    "reader_nets (b_nets b') = Inr (nets_left i nk c ds ns)" "\<forall>a. address_for (record_of i c nk x) = Inr a \<longrightarrow> dict_get reply ''address'' = VStr a"
proof -
  from assms(10) obtain deleted b1 uart ns1 rc sl where
    lp: "replace_loop io i nk c 0 (load_raw (target (b_devices b))) b = (Inr deleted, b1)" and
    ua: "delete_uart_nets_for_cable (io_uart io) c (b_nets b1) = (Inr uart, ns1)" and
    ad: "add_assignment (io_add io) (VStr i) (VStr (c_vid c)) (VStr (c_pid c)) (fst nk) (snd nk) baud (b_devices b1) = (Inr rc, sl)" and
    b': "b' = b1\<lparr>b_nets := ns1, b_devices := sl\<rparr>" and
    re: "res_bind (get_device (VStr i)) (\<lambda>entry. res_bind (address_for rc) (\<lambda>address.
       Inr (assign_reply rc address c (case entry of Some e \<Rightarrow> e | None \<Rightarrow> []) (deleted @ uart)))) = Inr reply"
    by (auto simp: assign_cable_def Let_def split: prod.splits sum.splits)
  note plain = cable_identity_plain [OF assms(7)]
  have l: "devices_of b1 = map VDict (filter (\<lambda>d. \<forall>old\<in>set ds. replaced_record i nk c old \<and> (dict_get old ''serial'', dict_get old ''port_path'') \<noteq> nk \<longrightarrow> key_of d \<noteq> key_of old) ds) \<and>
    store_ok (b_nets b1) \<and> reader_nets (b_nets b1) = Inr (filter (\<lambda>n. \<forall>old\<in>set ds. replaced_record i nk c old \<longrightarrow> has_address (safe_address old) n \<noteq> Inr True) ns)"
    by (rule replace_loop_spec [OF assms(5) _ _ assms(2,1,2,3,4)]) (use plain lp assms(1) in \<open>simp_all add: devices_of_def\<close>)
  let ?ds = "filter (\<lambda>d. \<forall>old\<in>set ds. replaced_record i nk c old \<and> (dict_get old ''serial'', dict_get old ''port_path'') \<noteq> nk \<longrightarrow> key_of d \<noteq> key_of old) ds"
  have "list_all assignment_ok ?ds" using assms(2) by (auto simp: list_all_iff)
  from add_assignment_ok [OF _ this assms(6-9) ad] l obtain x where x: "rc = record_of i c nk x"
    "load_raw (target sl) = map VDict (filter (\<lambda>d. key_of d \<noteq> (VStr (c_vid c), VStr (c_pid c), nk)) ?ds @ [rc])" by (auto simp: devices_of_def)
  have dev: "devices_of b' = map VDict (filter (\<lambda>d. \<not> same_cable c d) ds @ [record_of i c nk x])"
    using x unfolding kept_records [OF assms(2,7-9)] b' by (simp add: devices_of_def)
  have nets: "store_ok (b_nets b')" "reader_nets (b_nets b') = Inr (nets_left i nk c ds ns)"
    using delete_uart_spec [OF _ _ _ ua] l assms(5) unfolding b' nets_left_def by (auto simp: times_ok_def)
  have "\<forall>a. address_for (record_of i c nk x) = Inr a \<longrightarrow> dict_get reply ''address'' = VStr a"
    using re x(1) by (auto simp: res_bind_eq_Inr assign_reply_def update_dict_def)
  with that dev nets show thesis by blast
qed

lemma address_finds_instrument:
  assumes "list_all assignment_ok ds" "list_all (\<lambda>d. \<not> same_cable c d) ds" "cable_identity c nk" "normal_id (VStr (c_vid c))" "normal_id (VStr (c_pid c))"
    and "load_raw f = map VDict (ds @ [record_of i c nk x])" "hex4 (c_vid c)" "hex4 (c_pid c)"
  shows "\<exists>a. address_for (record_of i c nk x) = Inr a \<and> instrument_for_address replaced (VStr a) f = Inr (VStr i)"
proof -
  have low: "lower (c_vid c) = c_vid c" "lower (c_pid c) = c_pid c" using assms(4,5) by (simp_all add: normal_id_def)
  have "\<exists>a. make_address (VStr (c_vid c)) (VStr (c_pid c)) (fst nk) (snd nk) = Inr a \<and>
    parse_address replaced (VStr a) = Inr (Some \<lparr>i_vid = VStr (c_vid c), i_pid = VStr (c_pid c), i_serial = fst nk, i_port = snd nk\<rparr>)"
  proof (cases "fst nk = VNone")
    case True
    with assms(3) have "c_port c \<noteq> []" "nk = (VNone, VStr (c_port c))" by (auto simp: cable_identity_def split: option.splits)
    with address_round_trip(2) [OF assms(7,8) refl, where no = VNone] low show ?thesis by simp
  next
    case False
    with assms(3) obtain s where "s \<noteq> []" "nk = (VStr s, VNone)" by (auto simp: cable_identity_def split: option.splits)
    with address_round_trip(1) [OF assms(7,8) refl] low show ?thesis by simp
  qed
  then obtain a where a: "make_address (VStr (c_vid c)) (VStr (c_pid c)) (fst nk) (snd nk) = Inr a"
    "parse_address replaced (VStr a) = Inr (Some \<lparr>i_vid = VStr (c_vid c), i_pid = VStr (c_pid c), i_serial = fst nk, i_port = snd nk\<rparr>)" by blast
  have "record_for (VStr (c_vid c)) (VStr (c_pid c)) (fst nk) (snd nk) f = Inr (Some (record_of i c nk x))"
    using assms(3) by (intro record_for_new [OF assms(1-6)]) (auto simp: cable_identity_def str_or_none_def split: option.splits)
  moreover have "address_for (record_of i c nk x) = Inr a"
    using a(1) by (simp add: address_for_def record_of_gets dict_item_def record_of_def res_bind_def)
  ultimately show ?thesis using a(2) by (auto simp: instrument_for_address_def resolve_assignment_def res_bind_def record_of_gets)
qed

text \<open>Removing an assignment removes the nets of its address with it.\<close>

lemma last_record_mem: "last_record serial port found (map VDict ds) = Inr (Some d) \<Longrightarrow> found = Some d \<or> d \<in> set ds"
  by (induction ds arbitrary: found) (auto split: if_splits)

lemma unassign_spec:
  assumes "devices_of b = map VDict ds" "list_all assignment_ok ds" "store_ok (b_nets b)" "reader_nets (b_nets b) = Inr ns" "write_time_ok ev"
    and "unassign w ev payload b = (Inr reply, b')" "dict_get reply ''removed'' = VBool True"
  shows "\<exists>d\<in>set ds. devices_of b' = map VDict (filter (\<lambda>r. key_of r \<noteq> key_of d) ds) \<and> store_ok (b_nets b') \<and>
    reader_nets (b_nets b') = Inr (filter (\<lambda>n. has_address (safe_address d) n \<noteq> Inr True) ns)"
proof -
  from assms(6,7) obtain serial port d where l: "last_record serial port None (map VDict ds) = Inr (Some d)" and
    dr: "drop_record w ev d b = (Inr reply, b')"
    using assms(1) by (auto simp: unassign_def escaped_def devices_of_def split: sum.splits option.splits prod.splits)
  from last_record_mem [OF l] have d: "d \<in> set ds" by simp
  then have ok: "assignment_ok d" using assms(2) by (simp add: list_all_iff)
  have items: "dict_item d ''vid'' = Inr (dict_get d ''vid'')" "dict_item d ''pid'' = Inr (dict_get d ''pid'')"
    using ok by (auto elim!: assignment_okD)
  from dr items obtain x sl deleted s where
    rm: "remove_assignment w (dict_get d ''vid'') (dict_get d ''pid'') (dict_get d ''serial'') (dict_get d ''port_path'') (b_devices b) = (Inr x, sl)" and
    dn: "(if x then delete_nets_for_address ev (safe_address d) (b_nets b) else (Inr [], b_nets b)) = (Inr deleted, s)" and
    b': "b' = b\<lparr>b_devices := sl, b_nets := s\<rparr>"
    by (auto simp: drop_record_def Let_def split: prod.splits sum.splits if_splits)
  from remove_assignment_ok [OF _ assms(2) ok rm] assms(1) d have sl: "load_raw (target sl) = map VDict (filter (\<lambda>r. key_of r \<noteq> key_of d) ds)" "x"
    by (auto simp: devices_of_def)
  with dn have "delete_nets_for_address ev (safe_address d) (b_nets b) = (Inr deleted, s)" by simp
  from delete_nets_for_address_spec [OF assms(3-5) ok this] d sl show ?thesis unfolding b' by (auto simp: devices_of_def)
qed

section \<open>Properties\<close>

text \<open>
  C35. A cable has one assignment. An assignment that succeeds on a well-formed store replaces every stored record of the cable, be it under
  its serial or under its port, by the new one and leaves the records of other cables as they are; the store stays
  well formed, the connected cable is found as the assigned instrument, and so is the address in the answer. Of the saved nets
  exactly those go that are bound to the address of a replaced record (unless identity and instrument stayed the same) and the terminal nets
  of the cable.
\<close>

theorem one_assignment_per_cable:
  assumes "devices_of b = map VDict ds" and "store_wf ds" and "store_ok (b_nets b)" and "reader_nets (b_nets b) = Inr ns" and "times_ok io"
    and "assign sys io payload b = (Inr reply, b')"
  shows "\<exists>c\<in>set (list_cables sys). \<exists>nk i rc. canonical_name (dict_get payload ''instrument'') = Inr (Some i) \<and> cable_identity c nk \<and>
    devices_of b' = map VDict (filter (\<lambda>d. \<not> same_cable c d) ds @ [rc]) \<and> store_wf (filter (\<lambda>d. \<not> same_cable c d) ds @ [rc]) \<and> dict_get rc ''instrument'' = VStr i \<and>
    record_for (VStr (c_vid c)) (VStr (c_pid c)) (str_or_none (c_serial c)) (VStr (c_port c)) (target (b_devices b')) = Inr (Some rc) \<and>
    (hex4 (c_vid c) \<and> hex4 (c_pid c) \<longrightarrow> instrument_for_address replaced (dict_get reply ''address'') (target (b_devices b')) = Inr (VStr i)) \<and>
    store_ok (b_nets b') \<and> reader_nets (b_nets b') = Inr (nets_left i nk c ds ns)"
proof -
  have ok: "list_all assignment_ok ds" "distinct (map key_of ds)" using assms(2) by (simp_all add: store_wf_def)
  from assms(6) obtain i serial port c where
    can: "canonical_name (dict_get payload ''instrument'') = Inr (Some i)" and idf: "identity_from payload = Inr (serial, port)" and
    one: "filter (plugged serial port) (list_cables sys) = [c]" and
    ac: "assign_cable io i serial port c (dict_get payload ''baud'') b = (Inr reply, b')"
    by (auto simp: assign_def escaped_def split: sum.splits option.splits prod.splits list.splits)
  from one have "c \<in> set (filter (plugged serial port) (list_cables sys))" by simp
  then have c: "c \<in> set (list_cables sys)" "plugged serial port c" by simp_all
  note nk = plugged_identity [OF idf c(2)] and norm = cables_normal [OF c(1), THEN conjunct1] cables_normal [OF c(1), THEN conjunct2]
  obtain x where x: "devices_of b' = map VDict (filter (\<lambda>d. \<not> same_cable c d) ds @ [record_of i c (serial, port) x])" "store_ok (b_nets b')"
    "reader_nets (b_nets b') = Inr (nets_left i (serial, port) c ds ns)" "\<forall>a. address_for (record_of i c (serial, port) x) = Inr a \<longrightarrow> dict_get reply ''address'' = VStr a"
    by (rule assign_cable_spec [OF assms(1) ok(1) assms(3-5) canonical_again(1) [OF can] nk norm, of "dict_get payload ''baud''" reply b']) (use ac in simp)
  let ?ds = "filter (\<lambda>d. \<not> same_cable c d) ds" and ?rc = "record_of i c (serial, port) x"
  note rc = record_of_ok [OF nk norm, of i x]
  have ds: "list_all assignment_ok ?ds" "list_all (\<lambda>d. \<not> same_cable c d) ?ds" using ok(1) by (auto simp: list_all_iff)
  have "key_of ?rc \<notin> key_of ` set ?ds"
  proof
    assume "key_of ?rc \<in> key_of ` set ?ds"
    then obtain d where "d \<in> set ?ds" "key_of ?rc = key_of d" by blast
    with same_cable_key [of ?rc d c] rc(3) show False by simp
  qed
  with ok ds rc(1) have "store_wf (?ds @ [?rc])" by (simp add: store_wf_def distinct_map_filter)
  moreover have "record_for (VStr (c_vid c)) (VStr (c_pid c)) (str_or_none (c_serial c)) (VStr (c_port c)) (target (b_devices b')) = Inr (Some ?rc)"
    using nk x(1) by (intro record_for_new [OF ds nk norm]) (auto simp: devices_of_def cable_identity_def str_or_none_def split: option.splits)
  moreover have "hex4 (c_vid c) \<and> hex4 (c_pid c) \<longrightarrow> instrument_for_address replaced (dict_get reply ''address'') (target (b_devices b')) = Inr (VStr i)"
    using address_finds_instrument [OF ds nk norm] x(1,4) by (fastforce simp: devices_of_def)
  ultimately show ?thesis using c(1) can nk x(1-3) record_of_gets(1) by blast
qed

definition sample_write :: "write_event \<times> write_event" where
  "sample_write = ((all_works, 2), (all_works, 3))"

definition sample_assign_io :: assign_io where
  "sample_assign_io = \<lparr>io_nets = (\<lambda>_. sample_write), io_drop = (\<lambda>_. all_works), io_uart = sample_write, io_add = all_works\<rparr>"

definition by_port :: dict where
  "by_port = [(''instrument'', VStr ''Rigol_DP711''), (''vid'', VStr ''067b''), (''pid'', VStr ''23a3''), (''serial'', VNone), (''port_path'', VStr ''1-1'')]"

definition other_net :: pyval where
  "other_net = VDict [(''name'', VStr ''adc1''), (''role'', VStr ''adc''), (''address'', VStr ''USB0'')]"

definition psu_net :: pyval where
  "psu_net = VDict [(''name'', VStr ''psu''), (''role'', VStr ''power-supply''), (''address'', VStr ''serial://067b:23a3/port/1-1'')]"

definition sample_bench :: bench where
  "sample_bench = \<lparr>b_devices = \<lparr>target = JsonDoc (VList [VDict by_port]), tmp_left = False\<rparr>,
     b_nets = \<lparr>nslot = \<lparr>target = \<lparr>fstat = MTime 1, fdoc = JsonDoc (VList [psu_net, other_net])\<rparr>, tmp_left = False\<rparr>, scache = init_cache\<rparr>\<rparr>"

definition sample_payload :: "pyval \<Rightarrow> dict" where
  "sample_payload baud = [(''instrument'', VStr ''rigol_dp711''), (''serial'', VStr ''0001''), (''baud'', baud)]"

lemma sample_bench_ok: "store_ok (b_nets sample_bench)" "times_ok sample_assign_io" "store_wf [by_port]" "devices_of sample_bench = map VDict [by_port]"
  "reader_nets (b_nets sample_bench) = Inr [psu_net, other_net]"
proof -
  show "store_ok (b_nets sample_bench)"
    by (simp add: coherent_def file_ok_def sample_bench_def init_cache_def file_nets_def records_ok_def psu_net_def other_net_def)
  show "times_ok sample_assign_io" by (simp add: times_ok_def write_time_ok_def sample_assign_io_def sample_write_def)
qed code_simp+

theorem one_assignment_per_cable_witness:
  "\<exists>reply b'. assign tree_before sample_assign_io (sample_payload (VInt 19200)) sample_bench = (Inr reply, b') \<and>
     (\<exists>rc. devices_of b' = [VDict rc] \<and> dict_get rc ''serial'' = VStr ''0001'') \<and> reader_nets (b_nets b') = Inr [other_net]"
proof -
  have "map_sum id (\<lambda>_. ()) (fst (assign tree_before sample_assign_io (sample_payload (VInt 19200)) sample_bench)) = Inr ()" by code_simp
  then obtain reply b' where a: "assign tree_before sample_assign_io (sample_payload (VInt 19200)) sample_bench = (Inr reply, b')"
    by (cases "assign tree_before sample_assign_io (sample_payload (VInt 19200)) sample_bench"; cases "fst (assign tree_before sample_assign_io (sample_payload (VInt 19200)) sample_bench)") auto
  from one_assignment_per_cable [OF sample_bench_ok(4,3,1,5,2) a] obtain c nk i rc where c: "c \<in> set (list_cables tree_before)"
    "canonical_name (dict_get (sample_payload (VInt 19200)) ''instrument'') = Inr (Some i)" "cable_identity c nk"
    "devices_of b' = map VDict (filter (\<lambda>d. \<not> same_cable c d) [by_port] @ [rc])" "reader_nets (b_nets b') = Inr (nets_left i nk c [by_port] [psu_net, other_net])"
    by blast
  let ?c = "\<lparr>c_vid = ''067b'', c_pid = ''23a3'', c_serial = Some ''0001'', c_port = ''1-1'', c_tty = ''/dev/ttyUSB0'', c_manufacturer = None, c_product = None,
    c_interface = Some 0, c_by_id = None, c_by_path = None\<rparr>"
  have "list_cables tree_before = [?c]" "canonical_name (dict_get (sample_payload (VInt 19200)) ''instrument'') = Inr (Some ''Rigol_DP711'')" by code_simp+
  with c(1,2) have ci: "c = ?c" "i = ''Rigol_DP711''" by simp_all
  have "snd (assign tree_before sample_assign_io (sample_payload (VInt 19200)) sample_bench) = b'" using a by simp
  moreover have "(case devices_of (snd (assign tree_before sample_assign_io (sample_payload (VInt 19200)) sample_bench)) of [VDict d] \<Rightarrow> dict_get d ''serial'' = VStr ''0001'' | _ \<Rightarrow> False) \<and>
    reader_nets (b_nets (snd (assign tree_before sample_assign_io (sample_payload (VInt 19200)) sample_bench))) = Inr [other_net]" by code_simp
  moreover have "filter (\<lambda>d. \<not> same_cable ?c d) [by_port] = []" by code_simp
  ultimately show ?thesis using a c(4) ci by auto
qed

text \<open>
  A rate that is no number is found out after the old assignment and its net are gone: the request fails and the cable has no assignment.
\<close>

lemma bad_baud_loses_assignment:
  "custom_devices_assign tree_before sample_assign_io (Inr (VDict (sample_payload (VStr ''fast'')))) sample_bench =
     (Inl 500, snd (custom_devices_assign tree_before sample_assign_io (Inr (VDict (sample_payload (VStr ''fast'')))) sample_bench)) \<and>
   devices_of (snd (custom_devices_assign tree_before sample_assign_io (Inr (VDict (sample_payload (VStr ''fast'')))) sample_bench)) = [] \<and>
   reader_nets (b_nets (snd (custom_devices_assign tree_before sample_assign_io (Inr (VDict (sample_payload (VStr ''fast'')))) sample_bench))) = Inr [other_net]"
proof -
  let ?r = "custom_devices_assign tree_before sample_assign_io (Inr (VDict (sample_payload (VStr ''fast'')))) sample_bench"
  have "(case fst ?r of Inl n \<Rightarrow> n = 500 | Inr _ \<Rightarrow> False) \<and> devices_of (snd ?r) = [] \<and> reader_nets (b_nets (snd ?r)) = Inr [other_net]" by code_simp
  then show ?thesis by (cases ?r) (auto split: sum.splits)
qed

end
