(* ===== verification/Output_Stream.thy ===== *)
theory Output_Stream
  imports Py_Builtins
begin

text \<open>
  The output of a run on its way from the box to the client. On the box, \<^verbatim>\<open>emit\<close>,
  \<^verbatim>\<open>exit_marker\<close> and the loop of \<^verbatim>\<open>stream_process_output\<close> (\<^verbatim>\<open>exec/process.py\<close>) and the
  writer \<^verbatim>\<open>output\<close> of the output channel (\<^verbatim>\<open>core.py\<close>); on the client, the parser
  \<^verbatim>\<open>iter_streams\<close> (\<^verbatim>\<open>cli/core/matchers.py\<close>), \<^verbatim>\<open>OutputHandler\<close> and
  \<^verbatim>\<open>stream_python_output_v1\<close> (\<^verbatim>\<open>cli/core/utils.py\<close>) and the hash of the log
  (\<^verbatim>\<open>cli/run_record.py\<close>). Shown: the parser returns the frames and the exit code that the
  box sent, both sides hash the same bytes, objects of the output channel that arrive whole
  are decoded, and the two ways in which an output never ends.
\<close>

section \<open>The box\<close>

type_synonym wire_frame = "int \<times> byte list"

definition bytes_of :: "string \<Rightarrow> byte list" where
  "bytes_of s = map (\<lambda>c. of_nat (code c)) s"

definition header :: "string \<Rightarrow> nat \<Rightarrow> byte list" where
  "header tag n = bytes_of (tag @ '' '' @ str_of_nat n @ '' '')"

definition emit :: "int \<Rightarrow> byte list \<Rightarrow> byte list" where
  "emit fileno chunk = header (dec_int fileno) (length chunk) @ chunk"

definition exit_marker :: "int \<Rightarrow> byte list" where
  "exit_marker returncode = (let txt = dec_int returncode in header ''-'' (length txt) @ bytes_of txt)"

text \<open>
  What \<^verbatim>\<open>q.get(timeout=0.1)\<close> gives: a chunk, the end of one drain, or nothing. The flag says
  that more than \<^verbatim>\<open>KEEPALIVE_TIME\<close> has passed since the last keepalive.
\<close>

datatype qevent = Chunk int "byte list" bool | Eof | Quiet bool

definition keepalive :: "bool \<Rightarrow> wire_frame list" where
  "keepalive due = (if due then [(0, [])] else [])"

text \<open>The frames of the loop, and the drains that are still pending when the events run out.\<close>

fun stream_loop :: "nat \<Rightarrow> qevent list \<Rightarrow> wire_frame list \<times> nat" where
  "stream_loop 0 evs = ([], 0)"
| "stream_loop (Suc p) [] = ([], Suc p)"
| "stream_loop (Suc p) (Eof # evs) = stream_loop p evs"
| "stream_loop (Suc p) (Quiet due # evs) = (case stream_loop (Suc p) evs of (fs, q) \<Rightarrow> (keepalive due @ fs, q))"
| "stream_loop (Suc p) (Chunk fileno chunk due # evs) =
     (case stream_loop (Suc p) evs of (fs, q) \<Rightarrow> ((fileno, chunk) # keepalive due @ fs, q))"

definition wire :: "wire_frame list \<Rightarrow> byte list" where
  "wire fs = concat (map (\<lambda>(fileno, chunk). emit fileno chunk) fs)"

definition stream_process_output :: "nat \<Rightarrow> qevent list \<Rightarrow> int \<Rightarrow> byte list" where
  "stream_process_output drains evs returncode = (case stream_loop drains evs of
     (fs, pending) \<Rightarrow> wire fs @ (if pending = 0 then exit_marker returncode else []))"

text \<open>The drain of one pipe puts its chunks and its end; a full queue drops either.\<close>

fun drain_pipe :: "int \<Rightarrow> (byte list \<times> bool) list \<Rightarrow> bool \<Rightarrow> qevent list" where
  "drain_pipe fileno [] put_ok = (if put_ok then [Eof] else [])"
| "drain_pipe fileno ((chunk, ok) # cs) put_ok =
     (if chunk = [] then drain_pipe fileno [] put_ok
      else (if ok then [Chunk fileno chunk False] else []) @ drain_pipe fileno cs put_ok)"

section \<open>The client's parser\<close>

datatype v1_state = Start | FirstSpace | Length | SecondSpace | Content

record parser =
  parse_state :: v1_state
  pfileno :: "int option"
  pdata :: "byte list"
  length_str :: "byte list"
  plength :: "int option"

definition parser0 :: parser where
  "parser0 = \<lparr>parse_state = Start, pfileno = None, pdata = [], length_str = [], plength = None\<rparr>"

text \<open>\<^verbatim>\<open>int(bs.decode())\<close>; bytes outside ASCII are taken as a failure.\<close>

definition ascii :: "byte list \<Rightarrow> string option" where
  "ascii bs = (if list_all (\<lambda>b. unat b < 128) bs then Some (map (\<lambda>b. char_of (unat b)) bs) else None)"

definition int_of_bytes :: "byte list \<Rightarrow> int res" where
  "int_of_bytes bs = (case ascii bs of
     None \<Rightarrow> Inl UnicodeDecodeError
   | Some s \<Rightarrow> (case int_of_str s of None \<Rightarrow> Inl ValueError | Some i \<Rightarrow> Inr i))"

text \<open>\<^verbatim>\<open>int(bs, 10)\<close> on the bytes themselves.\<close>

definition int_of_raw :: "byte list \<Rightarrow> int res" where
  "int_of_raw bs = (case int_of_bytes bs of Inl _ \<Rightarrow> Inl ValueError | Inr i \<Rightarrow> Inr i)"

definition space :: byte where "space = 32"
definition dash :: byte where "dash = 45"

definition parse_byte :: "byte \<Rightarrow> parser \<Rightarrow> (parser \<times> wire_frame list) res" where
  "parse_byte b p = (case parse_state p of
     Start \<Rightarrow> res_bind (if b = dash then Inr (-1) else int_of_bytes [b])
       (\<lambda>f. Inr (p\<lparr>pfileno := Some f, parse_state := FirstSpace\<rparr>, []))
   | FirstSpace \<Rightarrow> Inr (p\<lparr>parse_state := Length\<rparr>, [])
   | Length \<Rightarrow>
       if b = space then res_bind (int_of_bytes (length_str p))
         (\<lambda>n. Inr (p\<lparr>plength := Some n, length_str := [], parse_state := (if n = 0 then Start else Content)\<rparr>, []))
       else Inr (p\<lparr>length_str := length_str p @ [b]\<rparr>, [])
   | _ \<Rightarrow>
       let d = pdata p @ [b] in
       if plength p = Some (int (length d))
       then Inr (p\<lparr>pdata := [], plength := None, pfileno := None, parse_state := Start\<rparr>,
                 [(the (pfileno p), d)])
       else Inr (p\<lparr>pdata := d\<rparr>, []))"

text \<open>The frames up to the end of the response or to an exception.\<close>

fun parse_bytes :: "byte list \<Rightarrow> parser \<Rightarrow> wire_frame list \<times> parser res" where
  "parse_bytes [] p = ([], Inr p)"
| "parse_bytes (b # bs) p = (case parse_byte b p of
     Inl e \<Rightarrow> ([], Inl e)
   | Inr (p', fs) \<Rightarrow> (case parse_bytes bs p' of (gs, r) \<Rightarrow> (fs @ gs, r)))"

definition iter_streams :: "byte list \<Rightarrow> wire_frame list \<times> parser res" where
  "iter_streams bs = parse_bytes bs parser0"

text \<open>The frames of the log, in the form in which both sides hash them.\<close>

definition is_log_frame :: "wire_frame \<Rightarrow> bool" where
  "is_log_frame f = (fst f \<in> {1, 2, 3} \<and> snd f \<noteq> [])"

definition log_hasher :: "wire_frame list \<Rightarrow> byte list" where
  "log_hasher fs = concat (map (\<lambda>(fileno, chunk). if chunk = [] then [] else emit fileno chunk) fs)"

definition observed_log :: "wire_frame list \<Rightarrow> byte list" where
  "observed_log fs = log_hasher (filter (\<lambda>f. fst f \<in> {1, 2, 3}) fs)"

section \<open>The output channel\<close>

text \<open>One object as \<^verbatim>\<open>output\<close> writes it: the number of its encoder, its length, its bytes.\<close>

definition output_object :: "int \<Rightarrow> byte list \<Rightarrow> byte list" where
  "output_object encoder encoded = header (dec_int encoder) (length encoded) @ encoded"

record handler =
  encoder :: "int option"
  hlen :: "int option"
  buffer :: "byte list"

definition handler0 :: handler where
  "handler0 = \<lparr>encoder = None, hlen = None, buffer = []\<rparr>"

text \<open>\<^verbatim>\<open>buffer.split(b' ', 1)\<close>: the bytes before the first space and those after it.\<close>

definition split_space :: "byte list \<Rightarrow> (byte list \<times> byte list) option" where
  "split_space bs = (case dropWhile (\<lambda>b. b \<noteq> space) bs of
     [] \<Rightarrow> None | _ # rest \<Rightarrow> Some (takeWhile (\<lambda>b. b \<noteq> space) bs, rest))"

text \<open>\<^verbatim>\<open>buffer[:n]\<close> and \<^verbatim>\<open>buffer[n:]\<close>, with Python's meaning of a negative \<^verbatim>\<open>n\<close>.\<close>

definition cut :: "int \<Rightarrow> byte list \<Rightarrow> nat" where
  "cut n bs = (if n < 0 then nat (int (length bs) + n) else min (nat n) (length bs))"

text \<open>One turn of the loop of \<^verbatim>\<open>parse\<close>: it ends, it fails, or it goes on, perhaps with a value.\<close>

datatype 'v turn = Break handler | Fail pyexc handler | Again handler "'v option"

definition need_number :: "(int \<Rightarrow> handler \<Rightarrow> handler) \<Rightarrow> (handler \<Rightarrow> int option) \<Rightarrow> handler \<Rightarrow> handler res option" where
  "need_number set_field field h = (case field h of
     Some _ \<Rightarrow> Some (Inr h)
   | None \<Rightarrow> (case split_space (buffer h) of
        None \<Rightarrow> None
      | Some (w, rest) \<Rightarrow> (case int_of_raw w of
           Inl e \<Rightarrow> Some (Inl e)
         | Inr i \<Rightarrow> Some (Inr ((set_field i h)\<lparr>buffer := rest\<rparr>)))))"

definition parse_turn :: "(int \<Rightarrow> byte list \<Rightarrow> 'v res) \<Rightarrow> handler \<Rightarrow> 'v turn" where
  "parse_turn decode h = (case need_number (\<lambda>i h. h\<lparr>encoder := Some i\<rparr>) encoder h of
     None \<Rightarrow> Break h
   | Some (Inl e) \<Rightarrow> Fail e h
   | Some (Inr h1) \<Rightarrow> (case need_number (\<lambda>i h. h\<lparr>hlen := Some i\<rparr>) hlen h1 of
        None \<Rightarrow> Break h1
      | Some (Inl e) \<Rightarrow> Fail e h1
      | Some (Inr h2) \<Rightarrow>
          let n = the (hlen h2) in
          if int (length (buffer h2)) \<ge> n
          then let k = cut n (buffer h2); encoded = take k (buffer h2) in
            if the (encoder h2) \<notin> {1, 2, 3, 4} then Fail KeyError h2
            else let h3 = \<lparr>encoder = None, hlen = None, buffer = drop k (buffer h2)\<rparr> in
              (case decode (the (encoder h2)) encoded of Inl e \<Rightarrow> Fail e h3 | Inr v \<Rightarrow> Again h3 (Some v))
          else Again h2 None))"

text \<open>The loop with fuel: \<open>None\<close> when it has not ended after so many turns.\<close>

fun parse :: "nat \<Rightarrow> (int \<Rightarrow> byte list \<Rightarrow> 'v res) \<Rightarrow> handler \<Rightarrow> ('v list \<times> handler res) option" where
  "parse 0 decode h = None"
| "parse (Suc n) decode h = (case parse_turn decode h of
     Break h' \<Rightarrow> Some ([], Inr h')
   | Fail e _ \<Rightarrow> Some ([], Inl e)
   | Again h' v \<Rightarrow> map_option (\<lambda>(vs, r). (case v of None \<Rightarrow> vs | Some x \<Rightarrow> x # vs, r)) (parse n decode h'))"

definition output_receive :: "nat \<Rightarrow> (int \<Rightarrow> byte list \<Rightarrow> 'v res) \<Rightarrow> byte list \<Rightarrow> handler \<Rightarrow> ('v list \<times> handler res) option" where
  "output_receive fuel decode chunk h = parse fuel decode (h\<lparr>buffer := buffer h @ chunk\<rparr>)"

section \<open>Events\<close>

datatype 'v stream_event = EXIT int | STDOUT "byte list" | STDERR "byte list" | OUTPUT 'v

text \<open>
  \<^verbatim>\<open>stream_python_output_v1\<close>: the events of the parsed frames, up to an exception. \<open>None\<close>:
  the loop of the output handler did not end.
\<close>

fun dispatch :: "nat \<Rightarrow> (int \<Rightarrow> byte list \<Rightarrow> 'v res) \<Rightarrow> wire_frame list \<Rightarrow> handler \<Rightarrow> ('v stream_event list \<times> handler res) option" where
  "dispatch fuel decode [] h = Some ([], Inr h)"
| "dispatch fuel decode ((fileno, chunk) # fs) h =
    (if fileno = -1 then (case int_of_bytes chunk of
        Inl e \<Rightarrow> Some ([], Inl e)
      | Inr rc \<Rightarrow> map_option (\<lambda>(es, r). (EXIT rc # es, r)) (dispatch fuel decode fs h))
     else if fileno = 1 then map_option (\<lambda>(es, r). (STDOUT chunk # es, r)) (dispatch fuel decode fs h)
     else if fileno = 2 then map_option (\<lambda>(es, r). (STDERR chunk # es, r)) (dispatch fuel decode fs h)
     else if fileno = 3 then (case output_receive fuel decode chunk h of
        None \<Rightarrow> None
      | Some (vs, Inl e) \<Rightarrow> Some (map OUTPUT vs, Inl e)
      | Some (vs, Inr h') \<Rightarrow> map_option (\<lambda>(es, r). (map OUTPUT vs @ es, r)) (dispatch fuel decode fs h'))
     else dispatch fuel decode fs h)"

text \<open>\<^verbatim>\<open>normalize_exit_code\<close> of the client; \<open>None\<close> stands for a code that was not retrieved.\<close>

definition cli_normalize_exit_code :: "int option \<Rightarrow> int" where
  "cli_normalize_exit_code raw = (case raw of
     None \<Rightarrow> -1 | Some r \<Rightarrow> if r < -1 then 128 + \<bar>r\<bar> else r)"

section \<open>Numbers in bytes\<close>

lemma bytes_of_append [simp]: "bytes_of (s @ t) = bytes_of s @ bytes_of t"
  by (simp add: bytes_of_def)

lemma bytes_of_Nil [simp]: "bytes_of [] = []"
  by (simp add: bytes_of_def)

lemma bytes_of_Cons [simp]: "bytes_of (c # s) = of_nat (code c) # bytes_of s"
  by (simp add: bytes_of_def)

lemma length_bytes_of [simp]: "length (bytes_of s) = length s"
  by (simp add: bytes_of_def)

lemma bytes_of_eq_Nil [simp]: "bytes_of s = [] \<longleftrightarrow> s = []"
  by (simp add: bytes_of_def)

lemma unat_code [simp]: "unat (of_nat (code c) :: byte) = code c"
  by (simp add: unsigned_of_nat take_bit_nat_eq_self_iff)

lemma ascii_bytes_of: "\<forall>c\<in>set s. code c < 128 \<Longrightarrow> ascii (bytes_of s) = Some s"
  by (induction s) (auto simp: ascii_def split: if_splits)

lemma int_of_bytes_str:
  assumes "\<forall>c\<in>set s. code c < 128" "int_of_str s = Some i"
  shows "int_of_bytes (bytes_of s) = Inr i"
  using assms by (simp add: int_of_bytes_def ascii_bytes_of)

lemma digit_code: "is_digit c \<Longrightarrow> code c < 128"
  by (simp add: is_digit_def)

lemma digit_byte:
  assumes "is_digit c"
  shows "(of_nat (code c) :: byte) \<noteq> space" "(of_nat (code c) :: byte) \<noteq> dash"
proof -
  have "unat (of_nat (code c) :: byte) \<ge> 48" using assms by (simp add: is_digit_def)
  then show "(of_nat (code c) :: byte) \<noteq> space" "(of_nat (code c) :: byte) \<noteq> dash"
    by (auto simp: space_def dash_def simp del: unat_code)
qed

lemma dec_int_ascii: "c \<in> set (dec_int i) \<Longrightarrow> code c < 128"
  using str_of_nat_digits digit_code by (auto simp: dec_int_def split: if_splits)

lemma int_of_bytes_dec_int: "nat \<bar>i\<bar> < int_limit \<Longrightarrow> int_of_bytes (bytes_of (dec_int i)) = Inr i"
  using int_of_bytes_str int_of_str_dec_int dec_int_ascii by blast

lemma dec_int_nat: "dec_int (int n) = str_of_nat n"
  by (simp add: dec_int_def)

lemma int_of_bytes_nat: "n < int_limit \<Longrightarrow> int_of_bytes (bytes_of (str_of_nat n)) = Inr (int n)"
  using int_of_bytes_dec_int [of "int n"] by (simp add: dec_int_nat)

lemma one_digit:
  assumes "0 \<le> f" "f < 10"
  shows "\<exists>b. bytes_of (dec_int f) = [b] \<and> b \<noteq> dash \<and> int_of_bytes [b] = Inr f"
proof -
  let ?c = "char_of (48 + nat f) :: char"
  have s: "dec_int f = [?c]" using assms by (simp add: dec_int_def str_of_nat.simps [of "nat f"] nat_less_iff)
  have d: "is_digit ?c" using assms by (simp add: is_digit_def)
  have "nat \<bar>f\<bar> < int_limit" by (rule below_limit [of _ 1]) (use assms in auto)
  then have "int_of_bytes (bytes_of [?c]) = Inr f" using int_of_bytes_dec_int [of f] s by simp
  with s digit_byte [OF d] show ?thesis by (auto simp del: unat_code)
qed

section \<open>The parser reads what the box sent\<close>

definition at_start :: "parser \<Rightarrow> bool" where
  "at_start p = (parse_state p = Start \<and> pdata p = [] \<and> length_str p = [])"

lemma at_start_0: "at_start parser0"
  by (simp add: at_start_def parser0_def)

lemma parse_digits:
  assumes "\<forall>c\<in>set s. is_digit c"
  shows "parse_state p = Length \<Longrightarrow>
    parse_bytes (bytes_of s @ bs) p = parse_bytes bs (p\<lparr>length_str := length_str p @ bytes_of s\<rparr>)"
  using assms
proof (induction s arbitrary: p)
  case (Cons c s)
  then show ?case using digit_byte [of c] by (simp add: parse_byte_def)
qed simp

lemma parse_header:
  assumes "at_start p" "b = dash \<and> f = -1 \<or> b \<noteq> dash \<and> int_of_bytes [b] = Inr f" "n < int_limit"
  shows "parse_bytes (b # space # bytes_of (str_of_nat n) @ space # bs) p =
    parse_bytes bs (p\<lparr>pfileno := Some f, plength := Some (int n), parse_state := (if n = 0 then Start else Content)\<rparr>)"
proof -
  have first: "parse_byte b p = Inr (p\<lparr>pfileno := Some f, parse_state := FirstSpace\<rparr>, [])"
    using assms(1,2) by (auto simp: parse_byte_def at_start_def)
  have "\<forall>c\<in>set (str_of_nat n). is_digit c" using str_of_nat_digits by blast
  with assms(1,3) first show ?thesis
    by (cases p) (simp add: parse_byte_def parse_digits int_of_bytes_nat at_start_def)
qed

lemma parse_content:
  "parse_state p = Content \<Longrightarrow> plength p = Some (int (length (pdata p) + length chunk)) \<Longrightarrow> chunk \<noteq> [] \<Longrightarrow>
   pfileno p = Some f \<Longrightarrow>
   parse_bytes (chunk @ bs) p = (case parse_bytes bs (p\<lparr>pdata := [], plength := None, pfileno := None, parse_state := Start\<rparr>) of
     (gs, r) \<Rightarrow> ((f, pdata p @ chunk) # gs, r))"
proof (induction chunk arbitrary: p)
  case (Cons b chunk)
  show ?case
  proof (cases "chunk = []")
    case True
    with Cons.prems show ?thesis by (simp add: parse_byte_def)
  next
    case False
    with Cons.prems Cons.IH [of "p\<lparr>pdata := pdata p @ [b]\<rparr>"] show ?thesis by (simp add: parse_byte_def)
  qed
qed simp

definition wire_frame_ok :: "wire_frame \<Rightarrow> bool" where
  "wire_frame_ok f = (0 \<le> fst f \<and> fst f < 10 \<and> length (snd f) < int_limit)"

definition nonempty :: "wire_frame \<Rightarrow> bool" where
  "nonempty f = (snd f \<noteq> [])"

lemma parse_tagged:
  assumes "at_start p" "b = dash \<and> f = -1 \<or> b \<noteq> dash \<and> int_of_bytes [b] = Inr f" "length chunk < int_limit"
  shows "\<exists>p'. at_start p' \<and>
    parse_bytes (b # space # bytes_of (str_of_nat (length chunk)) @ space # chunk @ bs) p =
      (case parse_bytes bs p' of (gs, r) \<Rightarrow> (filter nonempty [(f, chunk)] @ gs, r))"
proof -
  let ?p = "p\<lparr>pfileno := Some f, plength := Some (int (length chunk)), parse_state := Start\<rparr>"
  let ?q = "p\<lparr>pfileno := Some f, plength := Some (int (length chunk)), parse_state := Content\<rparr>"
  note h = parse_header [OF assms, of "chunk @ bs"]
  show ?thesis
  proof (cases "chunk = []")
    case True
    with h assms(1) show ?thesis
      by (intro exI [of _ ?p]) (auto simp: at_start_def nonempty_def split: prod.splits)
  next
    case False
    with assms(1) parse_content [of ?q chunk f bs] h show ?thesis
      by (intro exI [of _ "?q\<lparr>pdata := [], plength := None, pfileno := None, parse_state := Start\<rparr>"])
        (simp add: at_start_def nonempty_def)
  qed
qed

lemma parse_emit:
  assumes "at_start p" "wire_frame_ok (f, chunk)"
  shows "\<exists>p'. at_start p' \<and> parse_bytes (emit f chunk @ bs) p =
    (case parse_bytes bs p' of (gs, r) \<Rightarrow> (filter nonempty [(f, chunk)] @ gs, r))"
proof -
  from assms(2) obtain b where "bytes_of (dec_int f) = [b]" "b \<noteq> dash \<and> int_of_bytes [b] = Inr f"
    using one_digit [of f] by (auto simp: wire_frame_ok_def)
  then show ?thesis using parse_tagged [OF assms(1), of b f chunk bs] assms(2)
    by (simp add: emit_def header_def wire_frame_ok_def space_def)
qed

lemma parse_wire:
  assumes "at_start p" "list_all wire_frame_ok fs"
  shows "\<exists>p'. at_start p' \<and> parse_bytes (wire fs @ bs) p =
    (case parse_bytes bs p' of (gs, r) \<Rightarrow> (filter nonempty fs @ gs, r))"
  using assms
proof (induction fs arbitrary: p)
  case Nil
  then show ?case by (auto simp: wire_def split: prod.splits)
next
  case (Cons f fs)
  obtain n chunk where f: "f = (n, chunk)" by (cases f)
  with Cons.prems obtain q where q: "at_start q"
    "parse_bytes (emit n chunk @ wire fs @ bs) p =
      (case parse_bytes (wire fs @ bs) q of (gs, r) \<Rightarrow> (filter nonempty [f] @ gs, r))"
    using parse_emit [of p n chunk "wire fs @ bs"] by auto
  from Cons.IH [OF q(1)] Cons.prems(2) obtain p' where "at_start p'"
    "parse_bytes (wire fs @ bs) q = (case parse_bytes bs p' of (gs, r) \<Rightarrow> (filter nonempty fs @ gs, r))"
    by auto
  with q f show ?case by (intro exI [of _ p']) (auto simp: wire_def split: prod.splits)
qed

text \<open>The whole stream: its frames that are not empty, then the exit record.\<close>

lemma iter_streams_stream:
  assumes "list_all wire_frame_ok fs" "length (dec_int rc) < int_limit"
  shows "\<exists>p. iter_streams (wire fs @ exit_marker rc) = (filter nonempty fs @ [(-1, bytes_of (dec_int rc))], Inr p) \<and> at_start p"
proof -
  obtain q where q: "at_start q" "iter_streams (wire fs @ exit_marker rc) =
      (case parse_bytes (exit_marker rc) q of (gs, r) \<Rightarrow> (filter nonempty fs @ gs, r))"
    using parse_wire [OF at_start_0 assms(1), of "exit_marker rc"] by (auto simp: iter_streams_def)
  have m: "exit_marker rc = dash # space # bytes_of (str_of_nat (length (dec_int rc))) @ space # bytes_of (dec_int rc)"
    by (simp add: exit_marker_def header_def Let_def space_def dash_def)
  obtain p where "at_start p" "parse_bytes (exit_marker rc) q = ([(-1, bytes_of (dec_int rc))], Inr p)"
    using parse_tagged [OF q(1), of dash "-1" "bytes_of (dec_int rc)" "[]"] assms(2)
    by (auto simp: m nonempty_def)
  with q(2) show ?thesis by auto
qed


section \<open>What both sides hash\<close>

lemma log_hasher_nonempty: "log_hasher (filter nonempty fs) = log_hasher fs"
  by (induction fs) (auto simp: log_hasher_def nonempty_def)

lemma observed_log_stream:
  "observed_log (filter nonempty fs @ [(-1, bs)]) = wire (filter is_log_frame fs)"
proof -
  have "filter (\<lambda>f. fst f \<in> {1, 2, 3}) (filter nonempty fs @ [(-1, bs)]) = filter is_log_frame fs"
    by (induction fs) (auto simp: is_log_frame_def nonempty_def)
  moreover have "log_hasher (filter is_log_frame fs) = wire (filter is_log_frame fs)"
    by (induction fs) (auto simp: log_hasher_def wire_def is_log_frame_def)
  ultimately show ?thesis by (simp only: observed_log_def)
qed

section \<open>The end of a stream\<close>

definition is_Eof :: "qevent \<Rightarrow> bool" where
  "is_Eof e = (case e of Eof \<Rightarrow> True | _ \<Rightarrow> False)"

lemma stream_loop_pending: "snd (stream_loop p evs) = p - length (filter is_Eof evs)"
  by (induction p evs rule: stream_loop.induct) (auto simp: is_Eof_def split: prod.splits)

lemma drain_pipe_ends: "length (filter is_Eof (drain_pipe fileno cs put_ok)) = (if put_ok then 1 else 0)"
  by (induction fileno cs put_ok rule: drain_pipe.induct) (auto simp: is_Eof_def)

section \<open>Objects of the output channel\<close>

lemma split_space_word:
  assumes "space \<notin> set w"
  shows "split_space (w @ space # rest) = Some (w, rest)"
proof -
  have "\<forall>b\<in>set w. b \<noteq> space" using assms by metis
  then show ?thesis by (simp add: split_space_def takeWhile_append2 dropWhile_append2)
qed

lemma dec_int_not_space: "space \<notin> set (bytes_of (dec_int i))"
proof -
  have "of_nat (code c) \<noteq> space" if "c \<in> set (dec_int i)" for c
    using that str_of_nat_digits digit_byte(1)
    by (auto simp: dec_int_def space_def split: if_splits)
  then show ?thesis unfolding bytes_of_def set_map by (metis (no_types, lifting) imageE)
qed

lemma int_of_raw_dec_int: "nat \<bar>i\<bar> < int_limit \<Longrightarrow> int_of_raw (bytes_of (dec_int i)) = Inr i"
  by (simp add: int_of_raw_def int_of_bytes_dec_int)

lemma need_number_word:
  assumes "field h = None" "buffer h = bytes_of (dec_int i) @ space # rest" "nat \<bar>i\<bar> < int_limit"
  shows "need_number upd field h = Some (Inr ((upd i h)\<lparr>buffer := rest\<rparr>))"
  using assms by (simp add: need_number_def split_space_word dec_int_not_space int_of_raw_dec_int)

definition object_ok :: "int \<times> byte list \<Rightarrow> bool" where
  "object_ok b = (fst b \<in> {1, 2, 3, 4} \<and> length (snd b) < int_limit)"

abbreviation waiting :: "byte list \<Rightarrow> handler" where
  "waiting bs \<equiv> \<lparr>encoder = None, hlen = None, buffer = bs\<rparr>"

lemma encoder_small: "e \<in> {1, 2, 3, 4 :: int} \<Longrightarrow> nat \<bar>e\<bar> < int_limit"
  by (rule below_limit [of _ 1]) auto

lemma header_shape:
  "header (dec_int e) n = bytes_of (dec_int e) @ space # bytes_of (dec_int (int n)) @ [space]"
  by (simp add: header_def dec_int_nat space_def)

lemma output_object_shape:
  "output_object e bs @ rest = bytes_of (dec_int e) @ space # bytes_of (dec_int (int (length bs))) @ space # bs @ rest"
  by (simp add: output_object_def header_shape)

text \<open>Once the header is read, the loop turns on the payload.\<close>

lemma parse_turn_header:
  assumes "e \<in> {1, 2, 3, 4}" "n < int_limit"
  shows "parse_turn decode (waiting (bytes_of (dec_int e) @ space # bytes_of (dec_int (int n)) @ space # rest)) =
    parse_turn decode \<lparr>encoder = Some e, hlen = Some (int n), buffer = rest\<rparr>"
  using assms encoder_small [OF assms(1)]
  by (simp add: parse_turn_def need_number_word) (simp add: need_number_def)

lemma parse_turn_object:
  assumes "object_ok (e, bs)" "decode e bs = Inr v"
  shows "parse_turn decode (waiting (output_object e bs @ rest)) = Again (waiting rest) (Some v)"
  using assms unfolding output_object_shape object_ok_def
  by (simp add: parse_turn_header) (auto simp: parse_turn_def need_number_def cut_def)

lemma parse_objects:
  assumes "list_all object_ok objs" "list_all2 (\<lambda>b v. decode (fst b) (snd b) = Inr v) objs vs"
  shows "parse (Suc (length objs) + k) decode (waiting (concat (map (\<lambda>(e, bs). output_object e bs) objs))) =
    Some (vs, Inr handler0)"
  using assms(2,1)
proof (induction rule: list_all2_induct)
  case Nil
  then show ?case by (simp add: parse_turn_def need_number_def split_space_def handler0_def)
next
  case (Cons b objs v vs)
  obtain e bs where "b = (e, bs)" by (cases b)
  with Cons show ?case by (simp add: parse_turn_object)
qed

text \<open>A payload that has not arrived whole: the loop turns without end.\<close>

lemma parse_turn_stuck:
  "encoder h = Some e \<Longrightarrow> hlen h = Some n \<Longrightarrow> int (length (buffer h)) < n \<Longrightarrow> parse_turn decode h = Again h None"
  by (simp add: parse_turn_def need_number_def)

lemma parse_stuck:
  "encoder h = Some e \<Longrightarrow> hlen h = Some n \<Longrightarrow> int (length (buffer h)) < n \<Longrightarrow> parse fuel decode h = None"
  by (induction fuel) (simp_all add: parse_turn_stuck)

lemma receive_partial_hangs:
  assumes "object_ok (e, bs)" "k < length bs"
  shows "output_receive fuel decode (header (dec_int e) (length bs) @ take k bs) handler0 = None"
proof (cases fuel)
  case (Suc m)
  let ?h = "\<lparr>encoder = Some e, hlen = Some (int (length bs)), buffer = take k bs\<rparr>"
  have "parse_turn decode ?h = Again ?h None" using assms(2) by (simp add: parse_turn_stuck)
  moreover have "parse m decode ?h = None" using assms(2) by (simp add: parse_stuck)
  ultimately show ?thesis using assms Suc parse_turn_header [of e "length bs" decode "take k bs"]
    by (simp add: output_receive_def handler0_def header_shape object_ok_def)
qed (simp add: output_receive_def)

end
