(* ===== verification/Quiesce.thy ===== *)
theory Quiesce
  imports Py_Builtins
begin

text \<open>
  The registry of jobs that are shutting down (\<^verbatim>\<open>box/lager/exec/quiesce.py\<close>): reading
  \<^verbatim>\<open>/proc\<close>, the process tree, the progress snapshot, the registry itself and the wait
  before the next job. What a read of \<^verbatim>\<open>/proc\<close> gives is an argument; the contents of a
  file are its bytes as characters. The clock is a rational and differences are rounded to a
  double. The wait is a loop over the polls it makes: what each one sees is an element of a
  list, and a list that ends while the loop would go on is the result \<open>None\<close>.
\<close>

section \<open>Reading /proc\<close>

datatype proc_read = PNotFound | PLookupError | PDenied | PText string

text \<open>\<^verbatim>\<open>bytes.split()\<close> and \<^verbatim>\<open>bytes.rpartition(b')')\<close>.\<close>

definition byte_space :: "char \<Rightarrow> bool" where
  "byte_space c = (code c \<in> {9, 10, 11, 12, 13, 32})"

fun split_ws :: "string \<Rightarrow> string \<Rightarrow> string list" where
  "split_ws cur [] = (if cur = [] then [] else [rev cur])"
| "split_ws cur (c # cs) =
     (if byte_space c then (if cur = [] then split_ws [] cs else rev cur # split_ws [] cs)
      else split_ws (c # cur) cs)"

definition after_last :: "char \<Rightarrow> string \<Rightarrow> string" where
  "after_last c s = rev (takeWhile (\<lambda>x. x \<noteq> c) (rev s))"

definition fields_of :: "string \<Rightarrow> string list" where
  "fields_of stat = split_ws [] (after_last (CHR '')'') stat)"

text \<open>\<open>has_proc\<close> is \<^verbatim>\<open>os.path.isdir('/proc')\<close>, \<open>sig0\<close> the signal probe of the fallback.\<close>

definition pid_is_alive :: "bool \<Rightarrow> (int \<Rightarrow> bool) \<Rightarrow> (int \<Rightarrow> proc_read) \<Rightarrow> int \<Rightarrow> bool" where
  "pid_is_alive has_proc sig0 stat pid = (case stat pid of
      PLookupError \<Rightarrow> False
    | PDenied \<Rightarrow> False
    | PNotFound \<Rightarrow> if has_proc then False else sig0 pid
    | PText s \<Rightarrow> (case fields_of s of [] \<Rightarrow> False | f # _ \<Rightarrow> f \<noteq> ''Z''))"

definition stat_fields :: "(int \<Rightarrow> proc_read) \<Rightarrow> int \<Rightarrow> string list option" where
  "stat_fields stat pid = (case stat pid of
      PText s \<Rightarrow> (case fields_of s of [] \<Rightarrow> None | fs \<Rightarrow> Some fs)
    | _ \<Rightarrow> None)"

text \<open>\<^verbatim>\<open>int(field)\<close> on a field without whitespace.\<close>

definition int_of_field :: "string \<Rightarrow> int option" where
  "int_of_field s = (let (neg, t) = split_sign s in
     case us_digits False t of
       None \<Rightarrow> None
     | Some ds \<Rightarrow> if length ds > 4300 then None else Some (apply_sign neg (int (nat_of_digits 0 ds))))"

section \<open>The process tree\<close>

text \<open>\<open>entries\<close> are the names under \<^verbatim>\<open>/proc\<close> that hold a \<^verbatim>\<open>stat\<close>; the result
  lists (child, parent) in the order of the entries.\<close>

fun parent_links :: "(int \<Rightarrow> proc_read) \<Rightarrow> string list \<Rightarrow> (int \<times> int) list" where
  "parent_links stat [] = []"
| "parent_links stat (e # es) = (case int_of_str e of
      None \<Rightarrow> parent_links stat es
    | Some child \<Rightarrow> (case stat_fields stat child of
          Some (_ # p # _) \<Rightarrow> (case int_of_field p of
              None \<Rightarrow> parent_links stat es
            | Some parent \<Rightarrow> (child, parent) # parent_links stat es)
        | _ \<Rightarrow> parent_links stat es))"

definition children_of :: "(int \<times> int) list \<Rightarrow> int \<Rightarrow> int list" where
  "children_of links p = map fst (filter (\<lambda>(c, q). q = p) links)"

text \<open>The last element of \<open>pending\<close> is taken, as \<^verbatim>\<open>list.pop()\<close> does.\<close>

function tree_loop :: "(int \<times> int) list \<Rightarrow> int list \<Rightarrow> int set \<Rightarrow> int set" where
  "tree_loop links pending tree =
     (if pending = [] then tree
      else let current = last pending; rest = butlast pending in
        if current \<in> tree then tree_loop links rest tree
        else tree_loop links (rest @ children_of links current) (insert current tree))"
  by pat_completeness auto
termination
proof (relation "(\<lambda>(links, pending, tree). card ((set pending \<union> fst ` set links) - tree)) <*mlex*>
    measure (\<lambda>(links, pending, tree). length pending)", goal_cases)
  case 1
  show ?case by (intro wf_mlex) simp
next
  case (2 links pending tree current rest)
  then have "set rest \<subseteq> set pending" by (auto dest: in_set_butlastD)
  then have "card ((set rest \<union> fst ` set links) - tree) \<le> card ((set pending \<union> fst ` set links) - tree)"
    by (intro card_mono) auto
  moreover have "length rest < length pending" using 2 by (cases pending) auto
  ultimately show ?case by (auto simp: mlex_prod_def)
next
  case (3 links pending tree current rest)
  have "current \<in> set pending" using 3 by simp
  moreover have "set (rest @ children_of links current) \<subseteq> set pending \<union> fst ` set links"
    using 3 by (auto simp: children_of_def dest: in_set_butlastD)
  ultimately have "(set (rest @ children_of links current) \<union> fst ` set links) - insert current tree
      \<subset> (set pending \<union> fst ` set links) - tree"
    using 3 by blast
  then have "card ((set (rest @ children_of links current) \<union> fst ` set links) - insert current tree)
      < card ((set pending \<union> fst ` set links) - tree)"
    by (intro psubset_card_mono) auto
  then show ?case by (simp add: mlex_less)
qed

declare tree_loop.simps [simp del]

definition process_tree :: "(int \<Rightarrow> proc_read) \<Rightarrow> string list \<Rightarrow> int \<Rightarrow> int set" where
  "process_tree stat entries pid = tree_loop (parent_links stat entries) [pid] {}"

definition child_rel :: "(int \<times> int) list \<Rightarrow> (int \<times> int) set" where
  "child_rel links = {(p, c). (c, p) \<in> set links}"

lemma children_of_rel: "c \<in> set (children_of links p) \<longleftrightarrow> (p, c) \<in> child_rel links"
  by (force simp: children_of_def child_rel_def)

lemma pending_split: "pending \<noteq> [] \<Longrightarrow> set pending = insert (last pending) (set (butlast pending))"
  by (metis append_butlast_last_id set_append list.set Un_insert_right Un_empty_right)

lemma tree_loop_sound:
  "tree_loop links pending tree \<subseteq> tree \<union> (child_rel links)\<^sup>* `` set pending"
proof (induction links pending tree rule: tree_loop.induct)
  case (1 links pending tree)
  show ?case
  proof (cases "pending = []")
    case True
    then show ?thesis by (simp add: tree_loop.simps)
  next
    case False
    let ?c = "last pending" and ?r = "butlast pending"
    note sp = pending_split [OF False]
    have ch: "(child_rel links)\<^sup>* `` set (children_of links ?c) \<subseteq> (child_rel links)\<^sup>* `` {?c}"
      by (auto simp: children_of_rel intro: converse_rtrancl_into_rtrancl)
    show ?thesis
    proof (cases "?c \<in> tree")
      case True
      then show ?thesis using "1.IH"(1) [OF False refl refl True] False sp
        by (subst tree_loop.simps) (auto simp: Let_def)
    next
      case nt: False
      have "tree_loop links pending tree = tree_loop links (?r @ children_of links ?c) (insert ?c tree)"
        using False nt by (subst tree_loop.simps) (simp add: Let_def)
      also have "\<dots> \<subseteq> insert ?c tree \<union> (child_rel links)\<^sup>* `` set (?r @ children_of links ?c)"
        using "1.IH"(2) [OF False refl refl nt] .
      also have "\<dots> \<subseteq> tree \<union> (child_rel links)\<^sup>* `` set pending"
        using ch sp by auto
      finally show ?thesis .
    qed
  qed
qed

lemma tree_loop_closed:
  assumes "child_rel links `` tree \<subseteq> tree \<union> set pending"
  shows "tree \<union> set pending \<subseteq> tree_loop links pending tree \<and>
    child_rel links `` tree_loop links pending tree \<subseteq> tree_loop links pending tree"
  using assms
proof (induction links pending tree rule: tree_loop.induct)
  case (1 links pending tree)
  show ?case
  proof (cases "pending = []")
    case True
    with "1.prems" show ?thesis by (simp add: tree_loop.simps)
  next
    case False
    let ?c = "last pending" and ?r = "butlast pending"
    note sp = pending_split [OF False]
    show ?thesis
    proof (cases "?c \<in> tree")
      case True
      have eq: "tree_loop links pending tree = tree_loop links ?r tree"
        using False True by (subst tree_loop.simps) (simp add: Let_def)
      have inv: "child_rel links `` tree \<subseteq> tree \<union> set ?r"
        using "1.prems" sp True by auto
      show ?thesis using "1.IH"(1) [OF False refl refl True inv] eq sp True by auto
    next
      case nt: False
      have eq: "tree_loop links pending tree = tree_loop links (?r @ children_of links ?c) (insert ?c tree)"
        using False nt by (subst tree_loop.simps) (simp add: Let_def)
      have inv: "child_rel links `` insert ?c tree \<subseteq> insert ?c tree \<union> set (?r @ children_of links ?c)"
        using "1.prems" sp by (auto simp: children_of_rel)
      show ?thesis using "1.IH"(2) [OF False refl refl nt inv] eq sp by auto
    qed
  qed
qed

text \<open>The loop computes the descendants: everything reachable along child links.\<close>

lemma tree_loop_reachable: "tree_loop links [pid] {} = (child_rel links)\<^sup>* `` {pid}"
proof
  show "tree_loop links [pid] {} \<subseteq> (child_rel links)\<^sup>* `` {pid}"
    using tree_loop_sound [of links "[pid]" "{}"] by simp
  let ?T = "tree_loop links [pid] {}"
  have in_T: "pid \<in> ?T" and cl: "child_rel links `` ?T \<subseteq> ?T"
    using tree_loop_closed [of links "{}" "[pid]"] by auto
  have "q \<in> ?T" if "(pid, q) \<in> (child_rel links)\<^sup>*" for q
    using that by (induction rule: rtrancl_induct) (use in_T cl in auto)
  then show "(child_rel links)\<^sup>* `` {pid} \<subseteq> ?T" by auto
qed

section \<open>Progress\<close>

definition cpu_ticks :: "(int \<Rightarrow> proc_read) \<Rightarrow> int \<Rightarrow> int" where
  "cpu_ticks stat pid = (case stat_fields stat pid of
      None \<Rightarrow> 0
    | Some fs \<Rightarrow> if length fs < 13 then 0
        else (case (int_of_field (fs ! 11), int_of_field (fs ! 12)) of
            (Some u, Some s) \<Rightarrow> u + s
          | _ \<Rightarrow> 0))"

text \<open>\<^verbatim>\<open>bytes.splitlines()\<close>: lines end at \<^verbatim>\<open>\n\<close>, \<^verbatim>\<open>\r\<close> or \<^verbatim>\<open>\r\n\<close>.\<close>

fun split_lines :: "bool \<Rightarrow> string \<Rightarrow> string \<Rightarrow> string list" where
  "split_lines cr cur [] = (if cur = [] then [] else [rev cur])"
| "split_lines cr cur (c # cs) =
     (if code c = 10 then (if cr then split_lines False [] cs else rev cur # split_lines False [] cs)
      else if code c = 13 then rev cur # split_lines True [] cs
      else split_lines False (c # cur) cs)"

definition switch_line :: "string \<Rightarrow> int" where
  "switch_line line =
     (if startswith line ''voluntary_ctxt_switches:'' \<or> startswith line ''nonvoluntary_ctxt_switches:''
      then (case split_ws [] line of
          _ # n # _ \<Rightarrow> (case int_of_field n of None \<Rightarrow> 0 | Some i \<Rightarrow> i)
        | _ \<Rightarrow> 0)
      else 0)"

definition ctxt_switches :: "(int \<Rightarrow> proc_read) \<Rightarrow> int \<Rightarrow> int" where
  "ctxt_switches status pid = (case status pid of
      PText s \<Rightarrow> sum_list (map switch_line (split_lines False [] s))
    | _ \<Rightarrow> 0)"

definition progress_snapshot :: "bool \<Rightarrow> (int \<Rightarrow> proc_read) \<Rightarrow> (int \<Rightarrow> proc_read) \<Rightarrow> string list \<Rightarrow> int \<Rightarrow>
    (int \<times> int \<times> int set) option" where
  "progress_snapshot has_proc stat status entries pid =
     (if \<not> has_proc then None
      else let tree = process_tree stat entries pid in
        if tree = {} then None
        else Some (\<Sum>p\<in>tree. cpu_ticks stat p, \<Sum>p\<in>tree. ctxt_switches status p, tree))"

section \<open>The registry\<close>

type_synonym registry = "(int \<times> rat) list"

definition STUCK_AFTER_S :: pyfloat where
  "STUCK_AFTER_S = Fin 90"

fun begin_one :: "rat \<Rightarrow> int \<Rightarrow> registry \<Rightarrow> registry" where
  "begin_one now pid reg = (if map_of reg pid = None then reg @ [(pid, now)] else reg)"

definition begin_reap :: "rat \<Rightarrow> int list \<Rightarrow> registry \<Rightarrow> registry" where
  "begin_reap now pids reg = fold (begin_one now) pids reg"

definition finish :: "int list \<Rightarrow> registry \<Rightarrow> registry" where
  "finish pids reg = fold AList.delete pids reg"

text \<open>The context manager \<^verbatim>\<open>reaping_job\<close> drops absent pids once and then does both.\<close>

definition reaping_pids :: "int option list \<Rightarrow> int list" where
  "reaping_pids pids = List.map_filter (\<lambda>x. x) pids"

definition stuck :: "rat \<Rightarrow> rat \<Rightarrow> bool" where
  "stuck now started = float_gt (to_binary64 (now - started)) STUCK_AFTER_S"

definition reaping :: "rat \<Rightarrow> (int \<Rightarrow> bool) \<Rightarrow> registry \<Rightarrow> int list \<times> registry" where
  "reaping now alive reg =
     (let reg' = filter (\<lambda>(pid, started). alive pid \<and> \<not> stuck now started) reg
      in (map fst reg', reg'))"

section \<open>Waiting\<close>

text \<open>One poll: what other threads did to the registry before it, the clock and the live
  processes as \<^verbatim>\<open>reaping()\<close> sees them, and the clock at the deadline check.\<close>

record poll =
  others :: "registry \<Rightarrow> registry"
  reap_now :: rat
  live_pids :: "int \<Rightarrow> bool"
  check_now :: rat

fun wait_loop :: "pyfloat \<Rightarrow> poll list \<Rightarrow> registry \<Rightarrow> (bool \<times> int list) option \<times> registry" where
  "wait_loop deadline [] reg = (None, reg)"
| "wait_loop deadline (p # ps) reg =
     (let (pending, reg') = reaping (reap_now p) (live_pids p) (others p reg) in
      if pending = [] then (Some (True, []), reg')
      else if \<not> float_gt deadline (Fin (check_now p)) then (Some (False, pending), reg')
      else wait_loop deadline ps reg')"

definition wait_until_clear :: "rat \<Rightarrow> rat \<Rightarrow> poll list \<Rightarrow> registry \<Rightarrow> (bool \<times> int list) option \<times> registry" where
  "wait_until_clear start timeout ps reg = wait_loop (to_binary64 (start + max 0 timeout)) ps reg"

section \<open>The registry's invariant\<close>

definition reg_ok :: "registry \<Rightarrow> bool" where
  "reg_ok reg = distinct (map fst reg)"

lemma begin_one_ok: "reg_ok reg \<Longrightarrow> reg_ok (begin_one now pid reg)"
  by (auto simp: reg_ok_def map_of_eq_None_iff image_iff)

lemma begin_reap_ok: "reg_ok reg \<Longrightarrow> reg_ok (begin_reap now pids reg)"
  unfolding begin_reap_def by (induction pids arbitrary: reg) (auto simp: begin_one_ok simp del: begin_one.simps)

lemma finish_ok: "reg_ok reg \<Longrightarrow> reg_ok (finish pids reg)"
  unfolding finish_def by (induction pids arbitrary: reg) (auto simp: reg_ok_def distinct_delete)

lemma reaping_ok: "reg_ok reg \<Longrightarrow> reg_ok (snd (reaping now alive reg))"
  by (simp add: reg_ok_def reaping_def Let_def distinct_map_filter)

lemma map_of_begin_reap:
  "map_of (begin_reap now pids reg) pid = (case map_of reg pid of
      Some t \<Rightarrow> Some t | None \<Rightarrow> if pid \<in> set pids then Some now else None)"
  unfolding begin_reap_def
proof (induction pids arbitrary: reg)
  case (Cons p ps)
  then show ?case by (auto simp: map_add_def split: option.splits)
qed (simp split: option.split)

lemma map_of_finish:
  "map_of (finish pids reg) pid = (if pid \<in> set pids then None else map_of reg pid)"
  unfolding finish_def by (induction pids arbitrary: reg) (auto simp: delete_conv')

lemma map_of_reaping:
  assumes "reg_ok reg"
  shows "map_of (snd (reaping now alive reg)) pid = (case map_of reg pid of
      None \<Rightarrow> None | Some t \<Rightarrow> if alive pid \<and> \<not> stuck now t then Some t else None)"
proof -
  have "distinct (map fst (filter P reg))" for P
    using assms by (simp add: reg_ok_def distinct_map_filter)
  then show ?thesis
    using assms
    by (auto simp: reaping_def Let_def reg_ok_def map_of_eq_None_iff image_iff
        dest!: map_of_SomeD dest: eq_key_imp_eq_value split: option.splits)
qed

lemma reaping_members:
  "reg_ok reg \<Longrightarrow> pid \<in> set (fst (reaping now alive reg)) \<longleftrightarrow>
     (\<exists>t. map_of reg pid = Some t \<and> alive pid \<and> \<not> stuck now t)"
  by (force simp: reaping_def Let_def reg_ok_def)

section \<open>The wait\<close>

text \<open>Once a poll is made at or after the deadline the wait has returned.\<close>

lemma wait_loop_returns:
  "\<exists>p \<in> set ps. \<not> float_gt deadline (Fin (check_now p)) \<Longrightarrow> fst (wait_loop deadline ps reg) \<noteq> None"
  by (induction deadline ps reg rule: wait_loop.induct) (auto simp: Let_def split: prod.splits)

text \<open>A positive answer means that nothing is left in the registry.\<close>

lemma wait_loop_clear:
  "wait_loop deadline ps reg = (Some (True, pids), reg') \<Longrightarrow> pids = [] \<and> reg' = []"
  by (induction deadline ps reg rule: wait_loop.induct)
    (auto simp: Let_def reaping_def split: prod.splits if_splits)

text \<open>\<open>holds t0 pid p\<close>: at this poll the process lives, is not yet given up, and no other
  thread has taken it out of a registry that holds it.\<close>

definition holds :: "rat \<Rightarrow> int \<Rightarrow> poll \<Rightarrow> bool" where
  "holds t0 pid p = (live_pids p pid \<and> \<not> stuck (reap_now p) t0 \<and>
     (\<forall>reg. reg_ok reg \<longrightarrow> map_of reg pid = Some t0 \<longrightarrow>
        reg_ok (others p reg) \<and> map_of (others p reg) pid = Some t0))"

lemma wait_loop_blocked:
  "reg_ok reg \<Longrightarrow> map_of reg pid = Some t0 \<Longrightarrow> list_all (holds t0 pid) ps \<Longrightarrow>
     (case fst (wait_loop deadline ps reg) of None \<Rightarrow> True | Some (b, pids) \<Rightarrow> \<not> b \<and> pid \<in> set pids)"
proof (induction ps arbitrary: reg)
  case (Cons p ps)
  have h: "live_pids p pid" "\<not> stuck (reap_now p) t0" "reg_ok (others p reg)"
    "map_of (others p reg) pid = Some t0"
    using Cons.prems by (auto simp: holds_def)
  obtain pending reg' where r: "reaping (reap_now p) (live_pids p) (others p reg) = (pending, reg')" by fastforce
  have mem: "pid \<in> set pending" using reaping_members [OF h(3), of pid "reap_now p" "live_pids p"] h r by simp
  moreover have "reg_ok reg'" "map_of reg' pid = Some t0"
    using reaping_ok [OF h(3), of "reap_now p" "live_pids p"] map_of_reaping [OF h(3), of "reap_now p" "live_pids p" pid] h r
    by simp_all
  ultimately show ?case using Cons.IH [of reg'] Cons.prems(3) r by auto
qed simp

end
