(* ===== verification/Reap.thy ===== *)
theory Reap
  imports Quiesce
begin

text \<open>
  Stopping a job, \<^verbatim>\<open>wait_for_cleanup\<close> and \<^verbatim>\<open>terminate_process\<close> of
  \<^verbatim>\<open>box/lager/exec/process.py\<close> and the kill functions of \<^verbatim>\<open>box/lager/python/executor.py\<close>.
  An interrupted script keeps its time as long as it makes progress, up to a ceiling; a kill
  sends one signal per process group and waits for the whole job. Shown: the wait is bounded,
  it gives up only on a script that showed no progress for the idle budget or reached the
  ceiling, a live group leader of the job is the only member of its group that is signalled,
  and every process of a killed job is seen to exit or gets \<^verbatim>\<open>SIGKILL\<close>.
\<close>

section \<open>Waiting for a script to clean up\<close>

type_synonym snapshot = "int \<times> int \<times> int set"

text \<open>
  One turn of the loop: the process exits within the poll interval, or it still runs and the
  clock and a progress snapshot are read.
\<close>

datatype cpoll = Exits int | Runs rat "snapshot option"

definition CLEANUP_GRACE_S :: rat where "CLEANUP_GRACE_S = 5"
definition CLEANUP_MAX_S :: rat where "CLEANUP_MAX_S = 60"

text \<open>\<open>None\<close>: the polls are used up and the function has not returned.\<close>

fun cleanup_loop :: "rat \<Rightarrow> pyfloat \<Rightarrow> pyfloat \<Rightarrow> snapshot option \<Rightarrow> cpoll list \<Rightarrow> int option option" where
  "cleanup_loop idle_s hard_deadline idle_deadline prev [] = None"
| "cleanup_loop idle_s hard_deadline idle_deadline prev (Exits rc # ps) = Some (Some rc)"
| "cleanup_loop idle_s hard_deadline idle_deadline prev (Runs now current # ps) =
    (let moved = current \<noteq> None \<and> current \<noteq> prev;
         later = to_binary64 (now + idle_s);
         deadline = (if moved \<and> float_gt later idle_deadline then later else idle_deadline) in
     if \<not> float_gt hard_deadline (Fin now) then Some None
     else if \<not> float_gt deadline (Fin now) then Some None
     else cleanup_loop idle_s hard_deadline deadline (if moved then current else prev) ps)"

definition wait_for_cleanup :: "rat \<Rightarrow> rat \<Rightarrow> rat \<Rightarrow> snapshot option \<Rightarrow> cpoll list \<Rightarrow> int option option" where
  "wait_for_cleanup idle_s max_s started first ps =
    cleanup_loop idle_s (to_binary64 (started + max_s)) (to_binary64 (started + idle_s)) first ps"

section \<open>Escalation\<close>

datatype sig = SIGINT | SIGTERM | SIGKILL | OtherSignal int

text \<open>
  What happens to the process: the clock and snapshot when the wait begins, its polls, whether
  it exits within the grace after \<^verbatim>\<open>SIGTERM\<close>, and whether the last wait sees it gone.
\<close>

record term_env =
  t_started :: rat
  t_first :: "snapshot option"
  t_polls :: "cpoll list"
  t_after_term :: "int option"
  t_after_kill :: bool

datatype term_result = Returned int | TimeoutExpired

definition escalate :: "rat \<Rightarrow> term_env \<Rightarrow> (term_result \<times> sig list) option" where
  "escalate grace e = (case wait_for_cleanup grace CLEANUP_MAX_S (t_started e) (t_first e) (t_polls e) of
     None \<Rightarrow> None
   | Some (Some rc) \<Rightarrow> Some (Returned rc, [SIGINT])
   | Some None \<Rightarrow> (case t_after_term e of
        Some rc \<Rightarrow> Some (Returned rc, [SIGINT, SIGTERM])
      | None \<Rightarrow> Some (if t_after_kill e then Returned (-1) else TimeoutExpired, [SIGINT, SIGTERM, SIGKILL])))"

text \<open>
  The whole runs inside \<^verbatim>\<open>reaping_job\<close>: the process is in the registry of processes being
  reaped until the function returns. \<open>meanwhile\<close> is what other threads do to the registry.
\<close>

definition terminate_process ::
    "rat \<Rightarrow> rat \<Rightarrow> int \<Rightarrow> (registry \<Rightarrow> registry) \<Rightarrow> term_env \<Rightarrow> registry \<Rightarrow> (term_result \<times> sig list \<times> registry) option" where
  "terminate_process grace now pid meanwhile e reg = (case escalate grace e of
     None \<Rightarrow> None
   | Some (r, sent) \<Rightarrow> Some (r, sent, Quiesce.finish [pid] (meanwhile (begin_reap now [pid] reg))))"

section \<open>Killing a job\<close>

text \<open>The readable environment blocks of \<^verbatim>\<open>/proc\<close>, in the order of the directory.\<close>

fun contains_bytes :: "'a list \<Rightarrow> 'a list \<Rightarrow> bool" where
  "contains_bytes p [] = (p = [])"
| "contains_bytes p (b # bs) = (take (length p) (b # bs) = p \<or> contains_bytes p bs)"

definition scan_lager_pids :: "string \<Rightarrow> (int \<times> string option) list \<Rightarrow> int list" where
  "scan_lager_pids search entries = map fst (filter (\<lambda>(pid, e). case e of
     None \<Rightarrow> False | Some environ \<Rightarrow> contains_bytes search environ) entries)"

text \<open>
  \<open>getpgid\<close> gives no group for a process that is gone or of another user. Such a process is
  left out; one whose group leader belongs to the job and lives is covered by the leader.
\<close>

definition covered :: "(int \<Rightarrow> int option) \<Rightarrow> (int \<Rightarrow> bool) \<Rightarrow> int list \<Rightarrow> int \<Rightarrow> bool" where
  "covered getpgid alive pids pid = (case getpgid pid of
     None \<Rightarrow> True | Some leader \<Rightarrow> leader \<noteq> pid \<and> leader \<in> set pids \<and> alive leader)"

definition signal_targets :: "(int \<Rightarrow> int option) \<Rightarrow> (int \<Rightarrow> bool) \<Rightarrow> int list \<Rightarrow> sig \<Rightarrow> int list" where
  "signal_targets getpgid alive pids s = (if s = SIGKILL then pids else filter (Not \<circ> covered getpgid alive pids) pids)"

text \<open>
  A kill: the clock when it begins and what other threads do to the registry of processes
  being reaped, which signals reach their process, who lives when the wait begins, and the turns of
  the wait, each with the clock of its test and who lives after its pause.
\<close>

record kill_env =
  k_started :: rat
  k_others :: "registry \<Rightarrow> registry"
  k_getpgid :: "int \<Rightarrow> int option"
  k_leader_alive :: "int \<Rightarrow> bool"
  k_sent :: "int \<Rightarrow> bool"
  k_deadline :: pyfloat
  k_alive :: "int \<Rightarrow> bool"
  k_turns :: "(rat \<times> (int \<Rightarrow> bool)) list"

fun reap_loop :: "pyfloat \<Rightarrow> int list \<Rightarrow> (rat \<times> (int \<Rightarrow> bool)) list \<Rightarrow> int list option" where
  "reap_loop deadline [] turns = Some []"
| "reap_loop deadline remaining [] = None"
| "reap_loop deadline remaining ((now, alive) # turns) =
    (if float_gt deadline (Fin now) then reap_loop deadline (filter alive remaining) turns else Some remaining)"

text \<open>
  A call of \<^verbatim>\<open>os.kill\<close>: the process, the signal, and the registry at that moment. The other
  threads may have touched the registry before every call.
\<close>

type_synonym kill_call = "int \<times> sig \<times> registry"

fun kill_calls :: "kill_env \<Rightarrow> sig \<Rightarrow> int list \<Rightarrow> registry \<Rightarrow> kill_call list \<times> registry" where
  "kill_calls e s [] reg = ([], reg)"
| "kill_calls e s (p # ps) reg =
    (let reg1 = k_others e reg; (calls, reg2) = kill_calls e s ps reg1 in ((p, s, reg1) # calls, reg2))"

text \<open>
  The number of processes signalled, those that get \<^verbatim>\<open>SIGKILL\<close> in the end, and every call of
  \<^verbatim>\<open>os.kill\<close> on the way.
\<close>

definition reap_signalled :: "kill_env \<Rightarrow> int list \<Rightarrow> sig \<Rightarrow> registry \<Rightarrow> ((nat \<times> int list \<times> kill_call list) \<times> registry) option" where
  "reap_signalled e pids s reg =
    (let (calls, reg1) = kill_calls e s (signal_targets (k_getpgid e) (k_leader_alive e) pids s) reg;
         signalled = filter (k_sent e) (map fst calls) in
     if signalled = [] \<or> s = SIGKILL then Some ((length signalled, [], calls), reg1)
     else case reap_loop (k_deadline e) (filter (k_alive e) pids) (k_turns e) of
       None \<Rightarrow> None
     | Some remaining \<Rightarrow> (case kill_calls e SIGKILL remaining reg1 of
         (kills, reg2) \<Rightarrow> Some ((length signalled, remaining, calls @ kills), reg2)))"

text \<open>The whole runs inside \<^verbatim>\<open>reaping_job\<close>: registered before, taken out after it.\<close>

definition signal_and_reap :: "kill_env \<Rightarrow> int list \<Rightarrow> sig \<Rightarrow> registry \<Rightarrow> ((nat \<times> int list \<times> kill_call list) \<times> registry) option" where
  "signal_and_reap e pids s reg = map_option (\<lambda>(r, reg1). (r, Quiesce.finish pids (k_others e reg1)))
     (reap_signalled e pids s (begin_reap (k_started e) pids reg))"

definition kill_pids :: "kill_env \<Rightarrow> sig \<Rightarrow> int list \<Rightarrow> registry \<Rightarrow> ((nat \<times> int list \<times> kill_call list) \<times> registry) option" where
  "kill_pids e s pids reg = (if pids = [] then Some ((0, [], []), reg) else signal_and_reap e pids s reg)"

definition kill_by_proc_id :: "kill_env \<Rightarrow> sig \<Rightarrow> string \<Rightarrow> (int \<times> string option) list \<Rightarrow> registry \<Rightarrow>
    ((nat \<times> int list \<times> kill_call list) \<times> registry) option" where
  "kill_by_proc_id e s proc_id entries = kill_pids e s (scan_lager_pids (''LAGER_PROCESS_ID='' @ proc_id) entries)"

definition kill_all_lager_processes :: "kill_env \<Rightarrow> sig \<Rightarrow> (int \<times> string option) list \<Rightarrow> registry \<Rightarrow>
    ((nat \<times> int list \<times> kill_call list) \<times> registry) option" where
  "kill_all_lager_processes e s entries = kill_pids e s (scan_lager_pids ''LAGER_PROCESS_ID='' entries)"

section \<open>The wait for a cleanup\<close>

text \<open>A quiet poll: no snapshot, or the one before.\<close>

definition quiet :: "snapshot option \<Rightarrow> cpoll \<Rightarrow> bool" where
  "quiet prev p = (case p of Exits _ \<Rightarrow> False | Runs _ current \<Rightarrow> current = None \<or> current = prev)"

text \<open>The deadline and the snapshot that one poll leaves.\<close>

definition moved :: "snapshot option \<Rightarrow> snapshot option \<Rightarrow> bool" where
  "moved prev current = (current \<noteq> None \<and> current \<noteq> prev)"

definition next_deadline :: "rat \<Rightarrow> snapshot option \<Rightarrow> rat \<Rightarrow> snapshot option \<Rightarrow> pyfloat \<Rightarrow> pyfloat" where
  "next_deadline idle prev now current dl =
    (if moved prev current \<and> float_gt (to_binary64 (now + idle)) dl then to_binary64 (now + idle) else dl)"

lemma cleanup_loop_Runs:
  "cleanup_loop idle hard dl prev (Runs now current # ps) =
    (if \<not> float_gt hard (Fin now) \<or> \<not> float_gt (next_deadline idle prev now current dl) (Fin now) then Some None
     else cleanup_loop idle hard (next_deadline idle prev now current dl) (if moved prev current then current else prev) ps)"
  by (simp add: Let_def next_deadline_def moved_def)

declare cleanup_loop.simps(3) [simp del]

text \<open>A poll at which the wait returns whatever was before.\<close>

definition ends_wait :: "pyfloat \<Rightarrow> cpoll \<Rightarrow> bool" where
  "ends_wait hard p = (case p of Exits _ \<Rightarrow> True | Runs now _ \<Rightarrow> \<not> float_gt hard (Fin now))"

lemma cleanup_loop_returns:
  "\<exists>p\<in>set ps. ends_wait hard p \<Longrightarrow> cleanup_loop idle hard dl prev ps \<noteq> None"
proof (induction ps arbitrary: dl prev)
  case (Cons p ps)
  then show ?case by (cases p) (simp_all add: cleanup_loop_Runs ends_wait_def)
qed simp

lemma cleanup_loop_exit:
  "cleanup_loop idle hard dl prev ps = Some (Some rc) \<Longrightarrow>
   \<exists>pre post. ps = pre @ Exits rc # post \<and> (\<forall>p\<in>set pre. \<exists>now cur. p = Runs now cur \<and> float_gt hard (Fin now))"
proof (induction ps arbitrary: dl prev)
  case (Cons p ps)
  show ?case
  proof (cases p)
    case (Exits rc')
    with Cons.prems have "p # ps = [] @ Exits rc # ps" by simp
    then show ?thesis by fastforce
  next
    case (Runs now cur)
    with Cons.prems obtain dl' prev' where "float_gt hard (Fin now)" "cleanup_loop idle hard dl' prev' ps = Some (Some rc)"
      by (auto simp: cleanup_loop_Runs split: if_splits)
    moreover from Cons.IH [OF this(2)] obtain pre post where "ps = pre @ Exits rc # post"
      "\<forall>p\<in>set pre. \<exists>now cur. p = Runs now cur \<and> float_gt hard (Fin now)" by blast
    ultimately show ?thesis using Runs by (intro exI [of _ "p # pre"] exI [of _ post]) auto
  qed
qed simp

text \<open>
  Giving up: the ceiling has come, or the script was quiet since its last progress (or since
  the start) and the idle budget counted from there is used up.
\<close>

definition out_of_time :: "rat \<Rightarrow> pyfloat \<Rightarrow> pyfloat \<Rightarrow> snapshot option \<Rightarrow> cpoll list \<Rightarrow> rat \<Rightarrow> bool" where
  "out_of_time idle hard dl prev seen now = (\<not> float_gt hard (Fin now) \<or>
     (list_all (quiet prev) seen \<and> \<not> float_gt dl (Fin now)) \<or>
     (\<exists>before t s after. seen = before @ Runs t (Some s) # after \<and> list_all (quiet (Some s)) after \<and>
        \<not> float_gt (to_binary64 (t + idle)) (Fin now)))"

lemma float_gt_trans: "\<not> float_gt a (Fin x) \<Longrightarrow> \<not> float_gt b a \<Longrightarrow> a \<noteq> NaN \<Longrightarrow> \<not> float_gt b (Fin x)"
  by (cases a; cases b) auto

lemma float_gt_less: "\<not> float_gt a (Fin x) \<Longrightarrow> float_gt a b \<Longrightarrow> \<not> float_gt b (Fin x)"
  by (cases a; cases b) auto

lemma next_deadline_laws:
  assumes "dl \<noteq> NaN"
  shows "next_deadline idle prev now current dl \<noteq> NaN"
    and "\<not> float_gt (next_deadline idle prev now current dl) (Fin x) \<Longrightarrow> \<not> float_gt dl (Fin x)"
    and "moved prev current \<Longrightarrow> \<not> float_gt (next_deadline idle prev now current dl) (Fin x) \<Longrightarrow>
      \<not> float_gt (to_binary64 (now + idle)) (Fin x)"
  using assms float_gt_trans [of dl x "to_binary64 (now + idle)"] float_gt_less [of "to_binary64 (now + idle)" x dl]
  by (auto simp: next_deadline_def split: if_splits)

lemma out_of_time_Cons:
  assumes "out_of_time idle hard (next_deadline idle prev now current dl) (if moved prev current then current else prev) seen x"
    and dl: "dl \<noteq> NaN"
  shows "out_of_time idle hard dl prev (Runs now current # seen) x"
proof -
  let ?prev = "if moved prev current then current else prev"
  from assms(1) consider "\<not> float_gt hard (Fin x)"
    | "list_all (quiet ?prev) seen" "\<not> float_gt (next_deadline idle prev now current dl) (Fin x)"
    | before t s after where "seen = before @ Runs t (Some s) # after" "list_all (quiet (Some s)) after"
        "\<not> float_gt (to_binary64 (t + idle)) (Fin x)"
    unfolding out_of_time_def by blast
  then show ?thesis
  proof cases
    case 2
    show ?thesis
    proof (cases "moved prev current")
      case True
      then obtain s where "current = Some s" by (auto simp: moved_def)
      moreover from 2 True next_deadline_laws(3) [OF dl] have "\<not> float_gt (to_binary64 (now + idle)) (Fin x)" by blast
      ultimately show ?thesis using 2(1) True unfolding out_of_time_def by (metis append_Nil)
    next
      case False
      then have "quiet prev (Runs now current)" by (cases current) (auto simp: quiet_def moved_def)
      with 2 False next_deadline_laws(2) [OF dl] have "list_all (quiet prev) (Runs now current # seen)" "\<not> float_gt dl (Fin x)"
        by auto
      then show ?thesis unfolding out_of_time_def by blast
    qed
  next
    case 3
    then have "Runs now current # seen = (Runs now current # before) @ Runs t (Some s) # after" by simp
    with 3(2,3) show ?thesis unfolding out_of_time_def by blast
  qed (simp add: out_of_time_def)
qed

lemma cleanup_loop_gives_up:
  assumes "cleanup_loop idle hard dl prev ps = Some None" "dl \<noteq> NaN"
  shows "\<exists>pre now current post. ps = pre @ Runs now current # post \<and>
    out_of_time idle hard dl prev (pre @ [Runs now current]) now"
  using assms
proof (induction ps arbitrary: dl prev)
  case (Cons p ps)
  show ?case
  proof (cases p)
    case (Exits rc)
    with Cons.prems show ?thesis by simp
  next
    case (Runs now current)
    let ?dl = "next_deadline idle prev now current dl"
    let ?prev = "if moved prev current then current else prev"
    show ?thesis
    proof (cases "\<not> float_gt hard (Fin now) \<or> \<not> float_gt ?dl (Fin now)")
      case True
      then have "out_of_time idle hard ?dl ?prev [] now" by (auto simp: out_of_time_def)
      from out_of_time_Cons [OF this Cons.prems(2)] Runs show ?thesis by (intro exI [of _ "[]"]) auto
    next
      case False
      with Cons.prems(1) Runs have "cleanup_loop idle hard ?dl ?prev ps = Some None"
        by (simp only: cleanup_loop_Runs if_False)
      from Cons.IH [OF this next_deadline_laws(1) [OF Cons.prems(2)]] obtain pre n c post where
        "ps = pre @ Runs n c # post" "out_of_time idle hard ?dl ?prev (pre @ [Runs n c]) n" by blast
      with out_of_time_Cons [OF _ Cons.prems(2)] Runs show ?thesis by (intro exI [of _ "p # pre"]) auto
    qed
  qed
qed simp

lemma to_binary64_not_NaN: "to_binary64 r \<noteq> NaN"
  by (auto simp: to_binary64_def Let_def split: if_splits)

section \<open>Signals to a job\<close>

lemma targets_subset: "set (signal_targets getpgid alive pids s) \<subseteq> set pids"
  by (auto simp: signal_targets_def)

text \<open>Of a group with a live leader in the job only the leader is signalled.\<close>

lemma one_signal_per_group:
  assumes "s \<noteq> SIGKILL" "l \<in> set pids" "alive l" "getpgid l = Some l"
  shows "{p \<in> set (signal_targets getpgid alive pids s). getpgid p = Some l} = {l}"
  using assms by (auto simp: signal_targets_def covered_def)

text \<open>A member whose group is known is signalled, or its leader is.\<close>

lemma member_or_leader:
  assumes "p \<in> set pids" "getpgid p = Some l"
    and "l \<in> set pids \<Longrightarrow> alive l \<Longrightarrow> getpgid l = Some l"
  shows "p \<in> set (signal_targets getpgid alive pids s) \<or> l \<in> set (signal_targets getpgid alive pids s)"
  using assms by (cases "covered getpgid alive pids p") (auto simp: signal_targets_def covered_def)

lemma reap_loop_seen:
  "reap_loop deadline remaining turns = Some left \<Longrightarrow> p \<in> set remaining \<Longrightarrow>
   p \<in> set left \<or> (\<exists>(now, alive)\<in>set turns. \<not> alive p)"
  by (induction deadline remaining turns rule: reap_loop.induct) (fastforce split: if_splits)+

lemma reap_loop_returns:
  "\<exists>(now, alive)\<in>set turns. \<not> float_gt deadline (Fin now) \<Longrightarrow> reap_loop deadline remaining turns \<noteq> None"
  by (induction deadline remaining turns rule: reap_loop.induct) auto

lemma kill_calls_order:
  "kill_calls e s ps reg = (calls, reg') \<Longrightarrow> map (\<lambda>(p, sg, _). (p, sg)) calls = map (\<lambda>p. (p, s)) ps"
  by (induction ps arbitrary: reg calls) (auto simp: Let_def split: prod.splits)

lemma kill_calls_registered:
  assumes "kill_calls e s ps reg = (calls, reg')" and "\<And>r. map_of r q \<noteq> None \<Longrightarrow> map_of (k_others e r) q \<noteq> None"
    and "map_of reg q \<noteq> None"
  shows "(\<forall>(p, sg, r)\<in>set calls. map_of r q \<noteq> None) \<and> map_of reg' q \<noteq> None"
  using assms(1,3)
proof (induction ps arbitrary: reg calls)
  case (Cons p ps)
  obtain cs reg2 where cs: "kill_calls e s ps (k_others e reg) = (cs, reg2)" by fastforce
  with Cons.prems have eq: "calls = (p, s, k_others e reg) # cs" "reg' = reg2" by auto
  have "map_of (k_others e reg) q \<noteq> None" using assms(2) Cons.prems(2) by blast
  moreover from this Cons.IH [of "k_others e reg" cs] cs eq(2)
  have "(\<forall>(p, sg, r)\<in>set cs. map_of r q \<noteq> None) \<and> map_of reg' q \<noteq> None" by simp
  ultimately show ?case using eq(1) by simp
qed simp

lemma reap_signalledE:
  assumes "reap_signalled e pids s reg = Some ((n, left, calls), reg')" "n \<noteq> 0" "s \<noteq> SIGKILL"
  obtains cs kills reg1 where "kill_calls e s (signal_targets (k_getpgid e) (k_leader_alive e) pids s) reg = (cs, reg1)"
    "kill_calls e SIGKILL left reg1 = (kills, reg')" "calls = cs @ kills"
    "reap_loop (k_deadline e) (filter (k_alive e) pids) (k_turns e) = Some left"
  using assms by (auto simp: reap_signalled_def Let_def split: prod.splits if_splits option.splits)

lemma reap_signalled_seen:
  assumes "reap_signalled e pids s reg = Some ((n, left, calls), reg')" "n \<noteq> 0" "s \<noteq> SIGKILL" "p \<in> set pids"
  shows "p \<in> set left \<or> \<not> k_alive e p \<or> (\<exists>(now, alive)\<in>set (k_turns e). \<not> alive p)"
proof (cases "k_alive e p")
  case True
  from assms(1-3) have "reap_loop (k_deadline e) (filter (k_alive e) pids) (k_turns e) = Some left"
    by (rule reap_signalledE)
  from reap_loop_seen [OF this, of p] True assms(4) show ?thesis by auto
qed simp

lemma reap_signalled_calls:
  assumes "reap_signalled e pids s reg = Some ((n, left, calls), reg')" "n \<noteq> 0" "s \<noteq> SIGKILL"
  shows "map (\<lambda>(p, sg, _). (p, sg)) calls =
      map (\<lambda>p. (p, s)) (signal_targets (k_getpgid e) (k_leader_alive e) pids s) @ map (\<lambda>p. (p, SIGKILL)) left"
    and "\<lbrakk>\<And>r. map_of r q \<noteq> None \<Longrightarrow> map_of (k_others e r) q \<noteq> None; map_of reg q \<noteq> None\<rbrakk> \<Longrightarrow>
      \<forall>(p, sg, r)\<in>set calls. map_of r q \<noteq> None"
proof -
  from assms obtain cs kills reg1 where c: "kill_calls e s (signal_targets (k_getpgid e) (k_leader_alive e) pids s) reg = (cs, reg1)"
    "kill_calls e SIGKILL left reg1 = (kills, reg')" "calls = cs @ kills" by (rule reap_signalledE)
  from kill_calls_order [OF c(1)] kill_calls_order [OF c(2)] c(3)
  show "map (\<lambda>(p, sg, _). (p, sg)) calls =
      map (\<lambda>p. (p, s)) (signal_targets (k_getpgid e) (k_leader_alive e) pids s) @ map (\<lambda>p. (p, SIGKILL)) left" by simp
  assume k: "\<And>r. map_of r q \<noteq> None \<Longrightarrow> map_of (k_others e r) q \<noteq> None" and reg: "map_of reg q \<noteq> None"
  from kill_calls_registered [OF c(1) k reg] kill_calls_registered [OF c(2) k] c(3)
  show "\<forall>(p, sg, r)\<in>set calls. map_of r q \<noteq> None" by auto
qed

text \<open>
  Two kills of one job that overlap: the one that ends first takes the job out of the registry
  while the other still waits for it.
\<close>

lemma overlapping_reap_lost:
  "p \<in> set pids \<Longrightarrow> map_of (Quiesce.finish pids (begin_reap t2 pids (begin_reap t1 pids reg))) p = None"
  by (simp add: map_of_finish)

section \<open>Properties\<close>

text \<open>
  C30. An interrupted script gets the time it uses. The wait returns at the latest with the
  first poll at the ceiling; it reports the exit code of the process when it exits before; and
  when it gives up before the ceiling, the script showed no progress since its last progress
  (or since the interrupt) for the whole idle budget.
\<close>

theorem cleanup_gets_time:
  "((\<exists>p\<in>set ps. ends_wait (to_binary64 (started + max_s)) p) \<longrightarrow> wait_for_cleanup idle_s max_s started first ps \<noteq> None) \<and>
   (\<forall>rc. wait_for_cleanup idle_s max_s started first ps = Some (Some rc) \<longrightarrow> Exits rc \<in> set ps) \<and>
   (wait_for_cleanup idle_s max_s started first ps = Some None \<longrightarrow>
      (\<exists>pre now current post. ps = pre @ Runs now current # post \<and>
        out_of_time idle_s (to_binary64 (started + max_s)) (to_binary64 (started + idle_s)) first (pre @ [Runs now current]) now))"
  unfolding wait_for_cleanup_def
proof (intro conjI allI impI)
  fix rc
  assume "cleanup_loop idle_s (to_binary64 (started + max_s)) (to_binary64 (started + idle_s)) first ps = Some (Some rc)"
  from cleanup_loop_exit [OF this] show "Exits rc \<in> set ps" by auto
qed (use cleanup_loop_returns cleanup_loop_gives_up [OF _ to_binary64_not_NaN] in blast)+

text \<open>A script that works once after the interrupt and then hangs.\<close>

definition hanging_polls :: "cpoll list" where
  "hanging_polls = [Runs 1 (Some (1, 1, {})), Runs 7 (Some (1, 1, {}))]"

theorem cleanup_gets_time_witness:
  "wait_for_cleanup 5 60 0 None hanging_polls = Some None \<and>
   (\<exists>pre now current post. hanging_polls = pre @ Runs now current # post \<and>
     out_of_time 5 (to_binary64 60) (to_binary64 5) None (pre @ [Runs now current]) now)"
proof -
  have b: "to_binary64 60 = Fin 60" "to_binary64 5 = Fin 5" "to_binary64 6 = Fin 6" "to_binary64 12 = Fin 12"
    using to_binary64_int [of 60] to_binary64_int [of 5] to_binary64_int [of 6] to_binary64_int [of 12] by simp_all
  have "wait_for_cleanup 5 60 0 None hanging_polls = Some None"
    by (simp add: wait_for_cleanup_def hanging_polls_def cleanup_loop_Runs next_deadline_def moved_def b)
  with cleanup_gets_time [of hanging_polls 0 60 5 None] show ?thesis by simp
qed

text \<open>
  C31. A kill reaches the whole job, each process group once, while the job is registered.
  When a kill that can be caught was sent to some process, every process of the job was seen
  to be gone or gets \<^verbatim>\<open>SIGKILL\<close>; a live group leader in the job is the only signalled member
  of its group; and every process whose group is known is signalled itself or through its
  leader, since the leader of a group is in its own group. The calls of \<^verbatim>\<open>os.kill\<close> are, in
  this order, the signal to each of these targets and \<^verbatim>\<open>SIGKILL\<close> to those left; at every one
  of them, the first included, each process of the job that no other thread takes out of the
  registry is registered as being reaped; and at the end the job is out of the registry.
\<close>

theorem kill_reaches_job:
  assumes "signal_and_reap e pids s reg = Some ((n, left, calls), reg')" and "n \<noteq> 0" and "s \<noteq> SIGKILL"
    and "\<forall>l\<in>set pids. (\<exists>p. k_getpgid e p = Some l) \<and> k_leader_alive e l \<longrightarrow> k_getpgid e l = Some l"
  shows "(\<forall>p\<in>set pids. p \<in> set left \<or> \<not> k_alive e p \<or> (\<exists>(now, alive)\<in>set (k_turns e). \<not> alive p)) \<and>
    (\<forall>l\<in>set pids. k_leader_alive e l \<and> k_getpgid e l = Some l \<longrightarrow>
       {p \<in> set (signal_targets (k_getpgid e) (k_leader_alive e) pids s). k_getpgid e p = Some l} = {l}) \<and>
    (\<forall>p\<in>set pids. \<forall>l. k_getpgid e p = Some l \<longrightarrow>
       {p, l} \<inter> set (signal_targets (k_getpgid e) (k_leader_alive e) pids s) \<noteq> {}) \<and>
    map (\<lambda>(p, sg, _). (p, sg)) calls =
      map (\<lambda>p. (p, s)) (signal_targets (k_getpgid e) (k_leader_alive e) pids s) @ map (\<lambda>p. (p, SIGKILL)) left \<and>
    (\<forall>q\<in>set pids. (\<forall>r. map_of r q \<noteq> None \<longrightarrow> map_of (k_others e r) q \<noteq> None) \<longrightarrow>
       (\<forall>(p, sg, r)\<in>set calls. map_of r q \<noteq> None)) \<and>
    (\<forall>p\<in>set pids. map_of reg' p = None)"
proof -
  let ?reg = "begin_reap (k_started e) pids reg"
  obtain reg1 where r: "reap_signalled e pids s ?reg = Some ((n, left, calls), reg1)" "reg' = Quiesce.finish pids (k_others e reg1)"
    using assms(1) by (auto simp: signal_and_reap_def)
  have reg: "map_of ?reg q \<noteq> None" if "q \<in> set pids" for q
    using that by (auto simp: map_of_begin_reap split: option.splits)
  show ?thesis
  proof (intro conjI ballI impI allI)
    show "p \<in> set left \<or> \<not> k_alive e p \<or> (\<exists>(now, alive)\<in>set (k_turns e). \<not> alive p)" if "p \<in> set pids" for p
      by (rule reap_signalled_seen [OF r(1) assms(2,3) that])
    show "map (\<lambda>(p, sg, _). (p, sg)) calls =
        map (\<lambda>p. (p, s)) (signal_targets (k_getpgid e) (k_leader_alive e) pids s) @ map (\<lambda>p. (p, SIGKILL)) left"
      by (rule reap_signalled_calls(1) [OF r(1) assms(2,3)])
    show "case x of (p, sg, r) \<Rightarrow> map_of r q \<noteq> None"
      if "q \<in> set pids" "\<forall>r. map_of r q \<noteq> None \<longrightarrow> map_of (k_others e r) q \<noteq> None" "x \<in> set calls" for q x
      using reap_signalled_calls(2) [OF r(1) assms(2,3) _ reg [OF that(1)]] that(2,3) by blast
    show "map_of reg' p = None" if "p \<in> set pids" for p using that by (simp add: r(2) map_of_finish)
    show "{p, l} \<inter> set (signal_targets (k_getpgid e) (k_leader_alive e) pids s) \<noteq> {}"
      if "p \<in> set pids" "k_getpgid e p = Some l" for p l
      using that assms(4) member_or_leader [of p pids "k_getpgid e" l "k_leader_alive e" s] by blast
    show "{p \<in> set (signal_targets (k_getpgid e) (k_leader_alive e) pids s). k_getpgid e p = Some l} = {l}"
      if "l \<in> set pids" "k_leader_alive e l \<and> k_getpgid e l = Some l" for l
      using that one_signal_per_group [OF assms(3)] by blast
  qed
qed

text \<open>A wrapper 10 and its script 11 in one group; the script is still there at the deadline.\<close>

definition stubborn_job :: kill_env where
  "stubborn_job = \<lparr>k_started = 0, k_others = id, k_getpgid = (\<lambda>_. Some 10), k_leader_alive = (\<lambda>_. True), k_sent = (\<lambda>_. True),
     k_deadline = Fin 5, k_alive = (\<lambda>_. True), k_turns = [(1, \<lambda>p. p = 11), (6, \<lambda>p. True)]\<rparr>"

theorem kill_reaches_job_witness:
  "signal_and_reap stubborn_job [10, 11] SIGINT [] =
     Some ((1, [11], [(10, SIGINT, [(10, 0), (11, 0)]), (11, SIGKILL, [(10, 0), (11, 0)])]), []) \<and>
   {p \<in> set (signal_targets (\<lambda>_. Some 10) (\<lambda>_. True) [10, 11] SIGINT). True} = {10}"
proof -
  have k: "signal_and_reap stubborn_job [10, 11] SIGINT [] =
     Some ((1, [11], [(10, SIGINT, [(10, 0), (11, 0)]), (11, SIGKILL, [(10, 0), (11, 0)])]), [])" by code_simp
  from kill_reaches_job [OF k] have "{p \<in> set (signal_targets (\<lambda>_. Some 10) (\<lambda>_. True) [10, 11] SIGINT). True} = {10}"
    by (simp add: stubborn_job_def)
  with k show ?thesis by (rule conjI)
qed

end
