(* ===== verification/Job_Files.thy ===== *)
theory Job_Files
  imports Output_Stream Reap
begin

text \<open>
  The files of a detached job, \<^verbatim>\<open>output.log\<close> and \<^verbatim>\<open>meta.json\<close>, and a client that reattaches:
  \<^verbatim>\<open>write_meta\<close>, \<^verbatim>\<open>update_meta\<close>, \<^verbatim>\<open>append_failure\<close>, \<^verbatim>\<open>finalize_meta\<close>,
  \<^verbatim>\<open>stream_process_output_to_file\<close> and \<^verbatim>\<open>stream_log_file\<close> of \<^verbatim>\<open>box/lager/exec/process.py\<close>, with
  \<^verbatim>\<open>register_detached_job\<close> and \<^verbatim>\<open>_supervise_detached\<close> of \<^verbatim>\<open>box/lager/python/executor.py\<close>. The job's
  thread is the list of its visible actions, one per system call; the tail runs beside it in
  any interleaving. Shown: a tail that ends has sent the whole log with keepalives between its
  frames, so the client sees every frame and the exit code; it ends once the job has; and the
  job always leaves a terminal status when its files can be written.
\<close>

section \<open>The status file\<close>

definition TERMINAL_STATUSES :: "pyval list" where
  "TERMINAL_STATUSES = [VStr ''finished'', VStr ''failed'']"

definition write_meta :: "bool \<Rightarrow> dict \<Rightarrow> json_file \<Rightarrow> json_file" where
  "write_meta ok d j = (if ok then JsonDoc (VDict d) else j)"

definition read_meta :: "json_file \<Rightarrow> pyval" where
  "read_meta j = (case j of JsonDoc v \<Rightarrow> v | _ \<Rightarrow> VDict [])"

definition update_meta :: "bool \<Rightarrow> dict \<Rightarrow> json_file \<Rightarrow> json_file res" where
  "update_meta ok kvs j = (case read_meta j of
     VDict d \<Rightarrow> Inr (write_meta ok (update_dict d kvs) j)
   | _ \<Rightarrow> Inl AttributeError)"

text \<open>\<^verbatim>\<open>meta.get('status')\<close>, and what the tail makes of a file it cannot read.\<close>

definition status_of :: "json_file \<Rightarrow> pyval" where
  "status_of j = (case j of
     JsonDoc (VDict d) \<Rightarrow> (case map_of d ''status'' of Some v \<Rightarrow> v | None \<Rightarrow> VStr ''running'')
   | _ \<Rightarrow> VStr ''running'')"

definition terminal :: "json_file \<Rightarrow> bool" where
  "terminal j = (status_of j \<in> set TERMINAL_STATUSES)"

section \<open>The log file\<close>

text \<open>
  A buffered file: the pieces that reached the file, one per system call, and the buffer. A
  write that does not fit flushes the buffer; one larger than the buffer goes out directly.
\<close>

definition BUFFER_SIZE :: nat where "BUFFER_SIZE = 8192"

type_synonym wbuf = "byte list list \<times> byte list"

definition piece :: "byte list \<Rightarrow> byte list list" where
  "piece bs = (if bs = [] then [] else [bs])"

definition buf_write :: "byte list \<Rightarrow> wbuf \<Rightarrow> wbuf" where
  "buf_write data b = (case b of (out, buf) \<Rightarrow>
     if length buf + length data \<le> BUFFER_SIZE then (out, buf @ data)
     else if length data > BUFFER_SIZE then (out @ piece buf @ [data], [])
     else (out @ piece buf, data))"

definition buf_flush :: "wbuf \<Rightarrow> byte list list" where
  "buf_flush b = fst b @ piece (snd b)"

definition written :: "byte list list \<Rightarrow> byte list list" where
  "written parts = buf_flush (fold buf_write parts ([], []))"

definition emit_parts :: "int \<Rightarrow> byte list \<Rightarrow> byte list list" where
  "emit_parts fileno chunk = header (dec_int fileno) (length chunk) # (if chunk = [] then [] else [chunk])"

definition MAX_FAILURE_MESSAGE :: nat where "MAX_FAILURE_MESSAGE = 64 * 1024"

definition failure_text :: "byte list \<Rightarrow> byte list" where
  "failure_text message = (if length message > MAX_FAILURE_MESSAGE
     then take MAX_FAILURE_MESSAGE message @ bytes_of (CHR 0x0A # ''[truncated]'' @ [CHR 0x0A]) else message)"

definition append_failure :: "byte list \<Rightarrow> int \<Rightarrow> byte list list" where
  "append_failure message rc = written (emit_parts 2 (failure_text message) @ [exit_marker rc])"

section \<open>Capturing the output\<close>

datatype readable = POut | PErr | PChan

definition fileno_of :: "readable \<Rightarrow> int" where
  "fileno_of r = (case r of POut \<Rightarrow> 1 | PErr \<Rightarrow> 2 | PChan \<Rightarrow> 3)"

definition MAX_LOG_SIZE :: nat where "MAX_LOG_SIZE = 10 * 1024 * 1024"

text \<open>
  \<open>c_frames\<close> are the frames given to the recorder, \<open>c_pieces\<close> what was flushed, \<open>c_pos\<close> the
  position in the log.
\<close>

record capture =
  c_readables :: "readable list"
  c_full :: bool
  c_pieces :: "byte list list"
  c_pos :: nat
  c_frames :: "wire_frame list"

definition capture0 :: "bool \<Rightarrow> nat \<Rightarrow> capture" where
  "capture0 stderr pos = \<lparr>c_readables = POut # PChan # (if stderr then [PErr] else []), c_full = False,
     c_pieces = [], c_pos = pos, c_frames = []\<rparr>"

definition capture_read :: "readable \<times> byte list \<Rightarrow> capture \<Rightarrow> capture" where
  "capture_read rd c = (case rd of (r, chunk) \<Rightarrow>
     if chunk = [] \<and> r = PChan then c
     else let c1 = c\<lparr>c_readables := (if chunk = [] then remove1 r (c_readables c) else c_readables c),
                     c_frames := c_frames c @ [(fileno_of r, chunk)]\<rparr> in
       if c_full c then c1
       else let ps = written (emit_parts (fileno_of r) chunk); pos = c_pos c + length (concat ps) in
         c1\<lparr>c_pieces := c_pieces c @ ps, c_pos := pos, c_full := (MAX_LOG_SIZE \<le> pos)\<rparr>)"

text \<open>One round is what \<^verbatim>\<open>select\<close> found readable, with what was read. The flag: the loop ended.\<close>

fun capture_loop :: "(readable \<times> byte list) list list \<Rightarrow> capture \<Rightarrow> capture \<times> bool" where
  "capture_loop [] c = (c, c_readables c = [PChan])"
| "capture_loop (r # rs) c = (if c_readables c = [PChan] then (c, True)
     else capture_loop rs (fold capture_read r c))"

text \<open>The rest of the output channel and the exit marker, after the process is gone.\<close>

definition recorded_frames :: "byte list \<Rightarrow> capture \<Rightarrow> wire_frame list" where
  "recorded_frames rest c = c_frames c @ [(3, rest)]"

definition capture_end :: "byte list \<Rightarrow> int \<Rightarrow> capture \<Rightarrow> byte list list" where
  "capture_end rest rc c = written ((if c_full c then [] else emit_parts 3 rest) @ [exit_marker rc])"

section \<open>The thread of a job\<close>

datatype action = Append "byte list" | SetMeta json_file

text \<open>
  How the job goes: it cannot be started; it is captured to its end; or the capture breaks off
  with an exception after some rounds, with \<open>torn\<close> the bytes of a write that failed. The flags
  say which writes of the status file succeed.
\<close>

datatype job_outcome =
    StartFails "byte list"
  | Captured "(readable \<times> byte list) list list" "byte list" int
  | Breaks "(readable \<times> byte list) list list" "byte list"

record job_env =
  j_run :: job_outcome
  j_stderr :: bool
  j_pid :: int
  running_ok :: bool
  finished_ok :: bool
  failed_ok :: bool

definition START_FAILURE_EXIT_CODE :: int where "START_FAILURE_EXIT_CODE = 1"

text \<open>\<^verbatim>\<open>update_meta\<close> by the job's thread; a file that holds no object does not occur and is kept.\<close>

definition meta_after :: "bool \<Rightarrow> dict \<Rightarrow> json_file \<Rightarrow> json_file" where
  "meta_after ok kvs j = (case update_meta ok kvs j of Inr j' \<Rightarrow> j' | Inl _ \<Rightarrow> j)"

definition finalize_meta :: "bool \<Rightarrow> byte list \<Rightarrow> int \<Rightarrow> json_file \<Rightarrow> action list" where
  "finalize_meta ok message rc j = (if terminal j then []
     else map Append (append_failure message rc) @
       [SetMeta (meta_after ok [(''status'', VStr ''failed''), (''returncode'', VInt rc)] j)])"

definition no_exit_code :: "byte list" where
  "no_exit_code = bytes_of (''lager python: the detached job ended without reporting an exit code.'' @ [CHR 0x0A])"

definition supervise_detached :: "job_env \<Rightarrow> json_file \<Rightarrow> action list" where
  "supervise_detached e j0 =
    (let j1 = meta_after (running_ok e) [(''pid'', VInt (j_pid e)), (''status'', VStr ''running'')] j0;
         start = capture0 (j_stderr e) 0 in
     case j_run e of
       StartFails failure \<Rightarrow> finalize_meta (failed_ok e) failure START_FAILURE_EXIT_CODE j0
     | Captured rounds rest rc \<Rightarrow> (case capture_loop rounds start of (c, over) \<Rightarrow>
         SetMeta j1 # map Append (c_pieces c) @
         (if \<not> over then []
          else let j2 = meta_after (finished_ok e) [(''status'', VStr ''finished''), (''returncode'', VInt rc)] j1 in
            map Append (capture_end rest rc c) @ SetMeta j2 #
            finalize_meta (failed_ok e) no_exit_code START_FAILURE_EXIT_CODE j2))
     | Breaks rounds torn \<Rightarrow>
         SetMeta j1 # map Append (c_pieces (fst (capture_loop rounds start)) @ piece torn) @
         finalize_meta (failed_ok e) no_exit_code START_FAILURE_EXIT_CODE j1)"

text \<open>The entry made before the job starts.\<close>

definition register_detached_job :: "bool \<Rightarrow> string \<Rightarrow> pyfloat \<Rightarrow> json_file \<Rightarrow> json_file" where
  "register_detached_job ok pid started j = write_meta ok
     [(''lager_process_id'', VStr pid), (''pid'', VNone), (''started'', VFloat started),
      (''status'', VStr ''starting''), (''returncode'', VNone)] j"

section \<open>Reattaching\<close>

datatype tail_pc = Reading | Checking | Draining | Over

record tail =
  t_pc :: tail_pc
  t_pos :: nat
  t_sent :: "byte list"

text \<open>One turn of \<^verbatim>\<open>stream_log_file\<close>, cut where it looks at a file; \<open>k\<close>: a keepalive is due.\<close>

definition stream_log_file :: "bool \<Rightarrow> byte list \<Rightarrow> json_file \<Rightarrow> tail \<Rightarrow> tail" where
  "stream_log_file k lg j t = (case t_pc t of
     Reading \<Rightarrow>
       if t_pos t < length lg
       then t\<lparr>t_sent := t_sent t @ take 4096 (drop (t_pos t) lg), t_pos := min (t_pos t + 4096) (length lg)\<rparr>
       else t\<lparr>t_pc := Checking\<rparr>
   | Checking \<Rightarrow>
       if terminal j then t\<lparr>t_pc := Draining\<rparr>
       else t\<lparr>t_pc := Reading, t_sent := t_sent t @ (if k then emit 0 [] else [])\<rparr>
   | Draining \<Rightarrow> t\<lparr>t_pc := Over, t_sent := t_sent t @ drop (t_pos t) lg, t_pos := length lg\<rparr>
   | Over \<Rightarrow> t)"

definition tail0 :: tail where
  "tail0 = \<lparr>t_pc = Reading, t_pos = 0, t_sent = []\<rparr>"

text \<open>The job's thread and one tail, in any order.\<close>

record jsys =
  s_log :: "byte list list"
  s_meta :: json_file
  s_prog :: "action list"
  s_tail :: tail

inductive jstep :: "jsys \<Rightarrow> jsys \<Rightarrow> bool" where
  jappend: "s_prog s = Append bs # p \<Longrightarrow> jstep s (s\<lparr>s_log := s_log s @ [bs], s_prog := p\<rparr>)"
| jmeta: "s_prog s = SetMeta j # p \<Longrightarrow> jstep s (s\<lparr>s_meta := j, s_prog := p\<rparr>)"
| jtail: "jstep s (s\<lparr>s_tail := stream_log_file k (concat (s_log s)) (s_meta s) (s_tail s)\<rparr>)"

inductive_cases jstepE: "jstep s s'"

definition jsys0 :: "job_env \<Rightarrow> json_file \<Rightarrow> jsys" where
  "jsys0 e j = \<lparr>s_log = [], s_meta = j, s_prog = supervise_detached e j, s_tail = tail0\<rparr>"

section \<open>The tail sends the log\<close>

text \<open>The pieces of the log in order, with keepalives between them.\<close>

inductive spaced :: "byte list list \<Rightarrow> byte list \<Rightarrow> bool" where
  spaced_Nil: "spaced [] []"
| spaced_keepalive: "spaced ps bs \<Longrightarrow> spaced ps (bs @ emit 0 [])"
| spaced_piece: "spaced ps bs \<Longrightarrow> spaced (ps @ [p]) (bs @ p)"

lemma spaced_more: "spaced ps bs \<Longrightarrow> spaced (ps @ qs) (bs @ concat qs)"
proof (induction qs rule: rev_induct)
  case (snoc q qs)
  then show ?case using spaced_piece [of "ps @ qs" "bs @ concat qs" q] by simp
qed simp

fun appends :: "action list \<Rightarrow> byte list list" where
  "appends [] = []"
| "appends (Append bs # p) = bs # appends p"
| "appends (SetMeta j # p) = appends p"

lemma appends_append [simp]: "appends (p @ q) = appends p @ appends q"
  by (induction p rule: appends.induct) simp_all

lemma appends_map [simp]: "appends (map Append ps) = ps"
  by (induction ps) simp_all

text \<open>Nothing is appended once the status is terminal.\<close>

fun ends_last :: "json_file \<Rightarrow> action list \<Rightarrow> bool" where
  "ends_last j [] = True"
| "ends_last j (Append bs # p) = (\<not> terminal j \<and> ends_last j p)"
| "ends_last j (SetMeta j' # p) = ((terminal j \<longrightarrow> appends p = []) \<and> ends_last j' p)"

lemma ends_last_terminal: "ends_last j p \<Longrightarrow> terminal j \<Longrightarrow> appends p = []"
  by (induction j p rule: ends_last.induct) auto

definition tail_ok :: "byte list list \<Rightarrow> tail \<Rightarrow> bool" where
  "tail_ok lg t = (t_pos t \<le> length (concat lg) \<and> (\<exists>n bs cs. spaced (take n lg) bs \<and> t_sent t = bs @ cs \<and>
     concat (take n lg) @ cs = take (t_pos t) (concat lg) \<and> (t_pc t \<in> {Checking, Draining} \<longrightarrow> cs = [])))"

definition jinv :: "byte list list \<Rightarrow> jsys \<Rightarrow> bool" where
  "jinv all s = (s_log s @ appends (s_prog s) = all \<and> ends_last (s_meta s) (s_prog s) \<and>
     (t_pc (s_tail s) \<in> {Draining, Over} \<longrightarrow> appends (s_prog s) = []) \<and>
     (if t_pc (s_tail s) = Over then spaced (s_log s) (t_sent (s_tail s)) else tail_ok (s_log s) (s_tail s)))"

lemma tail_okI:
  "t_pos t \<le> length (concat lg) \<Longrightarrow> spaced (take n lg) bs \<Longrightarrow> t_sent t = bs @ cs \<Longrightarrow>
   concat (take n lg) @ cs = take (t_pos t) (concat lg) \<Longrightarrow> t_pc t \<in> {Checking, Draining} \<longrightarrow> cs = [] \<Longrightarrow> tail_ok lg t"
  unfolding tail_ok_def by blast

lemma tail_okE:
  assumes "tail_ok lg t"
  obtains n bs cs where "n \<le> length lg" "t_pos t \<le> length (concat lg)" "spaced (take n lg) bs" "t_sent t = bs @ cs"
    "concat (take n lg) @ cs = take (t_pos t) (concat lg)" "t_pc t \<in> {Checking, Draining} \<longrightarrow> cs = []"
proof -
  from assms obtain n bs cs where "t_pos t \<le> length (concat lg)" "spaced (take n lg) bs" "t_sent t = bs @ cs"
    "concat (take n lg) @ cs = take (t_pos t) (concat lg)" "t_pc t \<in> {Checking, Draining} \<longrightarrow> cs = []"
    unfolding tail_ok_def by blast
  moreover have "take n lg = take (min n (length lg)) lg" by (cases "n \<le> length lg") simp_all
  ultimately show ?thesis using that [of "min n (length lg)" bs cs] by simp
qed

lemma tail_ok_append: "tail_ok lg t \<Longrightarrow> tail_ok (lg @ [p]) t"
proof (elim tail_okE)
  fix n bs cs
  assume "n \<le> length lg" "t_pos t \<le> length (concat lg)" "spaced (take n lg) bs" "t_sent t = bs @ cs"
    "concat (take n lg) @ cs = take (t_pos t) (concat lg)" "t_pc t \<in> {Checking, Draining} \<longrightarrow> cs = []"
  then show ?thesis by (intro tail_okI [of t _ n bs cs]) simp_all
qed

text \<open>A tail at the end of the log has sent whole pieces.\<close>

lemma tail_ok_whole:
  assumes "tail_ok lg t" "t_pos t = length (concat lg)"
  shows "spaced lg (t_sent t)"
proof -
  from assms obtain n bs cs where t: "spaced (take n lg) bs" "t_sent t = bs @ cs" "concat (take n lg) @ cs = concat lg"
    by (auto simp: tail_ok_def)
  have "concat (take n lg) @ concat (drop n lg) = concat lg" by (metis append_take_drop_id concat_append)
  with t(3) have "cs = concat (drop n lg)" by (metis same_append_eq)
  with spaced_more [OF t(1), of "drop n lg"] t(2) show ?thesis by simp
qed

lemma tail_ok_step:
  assumes "tail_ok lg t" "t_pc t \<noteq> Over" "t' = stream_log_file k (concat lg) j t"
  shows "if t_pc t' = Over then spaced lg (t_sent t') else tail_ok lg t'"
proof -
  from assms(1) obtain n bs cs where t: "t_pos t \<le> length (concat lg)" "spaced (take n lg) bs" "t_sent t = bs @ cs"
    "concat (take n lg) @ cs = take (t_pos t) (concat lg)" "t_pc t \<in> {Checking, Draining} \<longrightarrow> cs = []"
    by (elim tail_okE)
  show ?thesis
  proof (cases "t_pc t")
    case Reading
    show ?thesis
    proof (cases "t_pos t < length (concat lg)")
      case True
      let ?more = "take 4096 (drop (t_pos t) (concat lg))"
      have "take (min (t_pos t + 4096) (length (concat lg))) (concat lg) = take (t_pos t) (concat lg) @ ?more"
        by (simp add: take_add min_def)
      then have "concat (take n lg) @ cs @ ?more = take (min (t_pos t + 4096) (length (concat lg))) (concat lg)"
        using t(4) by (metis append_assoc)
      with t True Reading assms(3) have "tail_ok lg t'"
        by (intro tail_okI [of t' lg n bs "cs @ ?more"]) (simp_all add: stream_log_file_def)
      moreover have "t_pc t' = Reading" using True Reading assms(3) by (simp add: stream_log_file_def)
      ultimately show ?thesis by simp
    next
      case False
      with t(1) have p: "t_pos t = length (concat lg)" by simp
      with False Reading assms(3) have "t' = t\<lparr>t_pc := Checking\<rparr>" by (simp add: stream_log_file_def)
      moreover from this p tail_ok_whole [OF assms(1) p] have "tail_ok lg t'"
        by (intro tail_okI [of t' lg "length lg" "t_sent t" "[]"]) simp_all
      ultimately show ?thesis by simp
    qed
  next
    case Checking
    with t(5) have "cs = []" by simp
    then show ?thesis
    proof (cases "terminal j \<or> \<not> k")
      case True
      with t \<open>cs = []\<close> Checking assms(3) have "tail_ok lg t'"
        by (intro tail_okI [of t' lg n bs "[]"]) (auto simp: stream_log_file_def)
      with True Checking assms(3) show ?thesis by (simp add: stream_log_file_def)
    next
      case False
      with t \<open>cs = []\<close> Checking assms(3) spaced_keepalive [OF t(2)] have "tail_ok lg t'"
        by (intro tail_okI [of t' lg n "bs @ emit 0 []" "[]"]) (simp_all add: stream_log_file_def)
      with False Checking assms(3) show ?thesis by (simp add: stream_log_file_def)
    qed
  next
    case Draining
    with t have d: "concat (take n lg) = take (t_pos t) (concat lg)" "t_sent t = bs" by simp_all
    have "drop (t_pos t) (concat lg) = concat (drop n lg)"
      using d(1) by (metis append_take_drop_id concat_append same_append_eq)
    with spaced_more [OF t(2), of "drop n lg"] d Draining assms(3) show ?thesis by (simp add: stream_log_file_def)
  qed (use assms in simp)
qed

lemma tail_draining:
  "t_pc (stream_log_file k lg j t) \<in> {Draining, Over} \<Longrightarrow> t_pc t \<in> {Draining, Over} \<or> terminal j"
  by (auto simp: stream_log_file_def split: tail_pc.splits if_splits)

lemma jinv_step:
  assumes "jinv all s" "jstep s s'"
  shows "jinv all s'"
  using assms(2)
proof (cases rule: jstep.cases)
  case (jappend bs p)
  with assms(1) have "t_pc (s_tail s) \<noteq> Over" by (auto simp: jinv_def)
  with assms(1) jappend tail_ok_append [of "s_log s" "s_tail s" bs] show ?thesis by (auto simp: jinv_def)
next
  case (jmeta j p)
  with assms(1) show ?thesis by (auto simp: jinv_def)
next
  case (jtail k)
  let ?t = "stream_log_file k (concat (s_log s)) (s_meta s) (s_tail s)"
  have "t_pc ?t \<in> {Draining, Over} \<longrightarrow> appends (s_prog s) = []"
    using tail_draining [of k "concat (s_log s)" "s_meta s" "s_tail s"] assms(1) ends_last_terminal [of "s_meta s" "s_prog s"]
    by (auto simp: jinv_def)
  moreover have "if t_pc ?t = Over then spaced (s_log s) (t_sent ?t) else tail_ok (s_log s) ?t"
  proof (cases "t_pc (s_tail s) = Over")
    case True
    with assms(1) show ?thesis by (simp add: jinv_def stream_log_file_def)
  next
    case False
    with assms(1) tail_ok_step [OF _ False refl] show ?thesis by (simp add: jinv_def)
  qed
  ultimately show ?thesis using assms(1) jtail by (auto simp: jinv_def)
qed

lemma jinv_reachable: "jstep\<^sup>*\<^sup>* s s' \<Longrightarrow> jinv all s \<Longrightarrow> jinv all s'"
  by (induction rule: rtranclp_induct) (auto intro: jinv_step)

lemma jinv_start: "ends_last j p \<Longrightarrow> jinv (appends p) \<lparr>s_log = [], s_meta = j, s_prog = p, s_tail = tail0\<rparr>"
  by (auto simp: jinv_def tail0_def intro!: tail_okI [of _ "[]" 0 "[]" "[]"] spaced_Nil)

text \<open>
  What a client has been sent at any moment: the first pieces of the log in their order, with
  keepalives only between pieces, and then the beginning of what follows them in the log.
\<close>

definition sent_so_far :: "byte list list \<Rightarrow> byte list \<Rightarrow> bool" where
  "sent_so_far lg bs = (\<exists>n cs ds. spaced (take n lg) cs \<and> bs = cs @ ds \<and> take (length ds) (concat (drop n lg)) = ds)"

lemma tail_ok_sent:
  assumes "tail_ok lg t"
  shows "sent_so_far lg (t_sent t)"
proof -
  from assms obtain n bs cs where t: "spaced (take n lg) bs" "t_sent t = bs @ cs"
    "concat (take n lg) @ cs = take (t_pos t) (concat lg)"
    by (auto simp: tail_ok_def)
  have "concat (take n lg) @ concat (drop n lg) = take (t_pos t) (concat lg) @ drop (t_pos t) (concat lg)"
    by (metis append_take_drop_id concat_append)
  also have "\<dots> = concat (take n lg) @ cs @ drop (t_pos t) (concat lg)" using t(3) by (metis append_assoc)
  finally have "concat (drop n lg) = cs @ drop (t_pos t) (concat lg)" by (rule same_append_eq [THEN iffD1])
  then have "take (length cs) (concat (drop n lg)) = cs" by simp
  with t(1,2) show ?thesis unfolding sent_so_far_def by blast
qed

lemma spaced_sent: "spaced lg bs \<Longrightarrow> sent_so_far lg bs"
  unfolding sent_so_far_def by (intro exI [of _ "length lg"] exI [of _ bs] exI [of _ "[]"]) simp

lemma jinv_sent: "jinv all s \<Longrightarrow> sent_so_far (s_log s) (t_sent (s_tail s))"
  by (auto simp: jinv_def intro: spaced_sent tail_ok_sent split: if_splits)

section \<open>What the client reads\<close>

text \<open>Bytes that the client's parser turns into some frames, from one boundary to another.\<close>

definition whole :: "byte list \<Rightarrow> wire_frame list \<Rightarrow> bool" where
  "whole p fs = (\<forall>q bs. at_start q \<longrightarrow> (\<exists>q'. at_start q' \<and>
     parse_bytes (p @ bs) q = (case parse_bytes bs q' of (gs, r) \<Rightarrow> (fs @ gs, r))))"

lemma whole_wire: "list_all wire_frame_ok fs \<Longrightarrow> whole (wire fs) (filter nonempty fs)"
  using parse_wire by (auto simp: whole_def)

lemma whole_append: "whole p fs \<Longrightarrow> whole p' fs' \<Longrightarrow> whole (p @ p') (fs @ fs')"
  unfolding whole_def
proof (intro allI impI)
  fix q bs
  assume h: "\<forall>q bs. at_start q \<longrightarrow> (\<exists>q'. at_start q' \<and> parse_bytes (p @ bs) q = (case parse_bytes bs q' of (gs, r) \<Rightarrow> (fs @ gs, r)))"
    "\<forall>q bs. at_start q \<longrightarrow> (\<exists>q'. at_start q' \<and> parse_bytes (p' @ bs) q = (case parse_bytes bs q' of (gs, r) \<Rightarrow> (fs' @ gs, r)))"
    "at_start q"
  then obtain q1 where q1: "at_start q1"
    "parse_bytes (p @ p' @ bs) q = (case parse_bytes (p' @ bs) q1 of (gs, r) \<Rightarrow> (fs @ gs, r))" by blast
  with h(2) obtain q2 where "at_start q2" "parse_bytes (p' @ bs) q1 = (case parse_bytes bs q2 of (gs, r) \<Rightarrow> (fs' @ gs, r))" by blast
  with q1 show "\<exists>q'. at_start q' \<and> parse_bytes ((p @ p') @ bs) q = (case parse_bytes bs q' of (gs, r) \<Rightarrow> ((fs @ fs') @ gs, r))"
    by (intro exI [of _ q2]) (auto split: prod.splits)
qed

lemma whole_Nil: "whole [] []"
  by (auto simp: whole_def split: prod.splits)

lemma int_limit_pos: "0 < int_limit"
  by (rule below_limit [of 0 0]) simp_all

lemma whole_keepalive: "whole (emit 0 []) []"
  using whole_wire [of "[(0, [])]"] by (simp add: wire_def wire_frame_ok_def nonempty_def int_limit_pos)

lemma whole_exit: "length (dec_int rc) < int_limit \<Longrightarrow> whole (exit_marker rc) [(-1, bytes_of (dec_int rc))]"
  unfolding whole_def
proof (intro allI impI)
  fix q bs
  assume "length (dec_int rc) < int_limit" "at_start q"
  then show "\<exists>q'. at_start q' \<and> parse_bytes (exit_marker rc @ bs) q =
      (case parse_bytes bs q' of (gs, r) \<Rightarrow> ([(-1, bytes_of (dec_int rc))] @ gs, r))"
    using parse_tagged [of q dash "-1" "bytes_of (dec_int rc)" bs]
    by (auto simp: exit_marker_def header_def Let_def space_def dash_def nonempty_def)
qed

lemma spaced_whole: "spaced ps bs \<Longrightarrow> list_all2 whole ps fss \<Longrightarrow> whole bs (concat fss)"
proof (induction arbitrary: fss rule: spaced.induct)
  case (spaced_keepalive ps bs)
  then show ?case using whole_append [OF _ whole_keepalive] by force
next
  case (spaced_piece ps bs p)
  then obtain gss fs where "fss = gss @ [fs]" "list_all2 whole ps gss" "whole p fs"
    by (auto simp: list_all2_append1 list_all2_Cons1)
  with spaced_piece.IH whole_append show ?case by auto
qed (simp add: whole_Nil)

lemma whole_iter_streams: "whole bs fs \<Longrightarrow> \<exists>q. iter_streams bs = (fs, Inr q) \<and> at_start q"
  using at_start_0 unfolding whole_def iter_streams_def
  by (metis (no_types, lifting) append.right_neutral old.prod.case parse_bytes.simps(1))

section \<open>The pieces of a job\<close>

lemma concat_emit_parts: "concat (emit_parts fileno chunk) = emit fileno chunk"
  by (simp add: emit_parts_def emit_def)

lemma concat_piece [simp]: "concat (piece bs) = bs"
  by (simp add: piece_def)

lemma fold_buf_write: "length (concat parts) + length buf \<le> BUFFER_SIZE \<Longrightarrow>
    fold buf_write parts (out, buf) = (out, buf @ concat parts)"
  by (induction parts arbitrary: buf) (simp_all add: buf_write_def)

text \<open>What fits into the buffer reaches the file at once.\<close>

lemma written_small: "length (concat parts) \<le> BUFFER_SIZE \<Longrightarrow> written parts = piece (concat parts)"
  by (simp add: written_def fold_buf_write buf_flush_def)

lemma emit_nonempty: "emit f chunk \<noteq> []"
  by (simp add: emit_def header_def)

lemma length_header: "length (header s n) = length s + length (str_of_nat n) + 2"
  by (simp add: header_def)

lemma small_frame:
  assumes "length chunk \<le> 8000"
  shows "length (str_of_nat (length chunk)) \<le> 4" "length chunk < int_limit"
proof -
  from assms have "length chunk < 10 ^ 4" by simp
  then show "length (str_of_nat (length chunk)) \<le> 4" by (rule length_str_of_nat) simp
  from \<open>length chunk < 10 ^ 4\<close> show "length chunk < int_limit" by (rule below_limit) simp
qed

lemma fileno_range: "fileno_of r \<in> {1, 2, 3}"
  by (cases r) (simp_all add: fileno_of_def)

lemma dec_int_digit: "f \<in> {1, 2, 3} \<Longrightarrow> length (dec_int f) = 1"
  by (elim insertE emptyE; simp; code_simp)

lemma written_emit:
  assumes "f \<in> {1, 2, 3}" "length chunk \<le> 8000"
  shows "written (emit_parts f chunk) = [emit f chunk]"
proof -
  have "length (emit f chunk) \<le> BUFFER_SIZE"
    using small_frame [OF assms(2)] dec_int_digit [OF assms(1)] assms(2)
    by (simp add: emit_def length_header BUFFER_SIZE_def)
  then show ?thesis using emit_nonempty [of f chunk] by (simp add: written_small concat_emit_parts piece_def)
qed

lemma whole_emit:
  assumes "f \<in> {1, 2, 3}" "length chunk \<le> 8000"
  shows "whole (emit f chunk) (filter nonempty [(f, chunk)])"
  using whole_wire [of "[(f, chunk)]"] assms small_frame [OF assms(2)] by (auto simp: wire_def wire_frame_ok_def)

lemma length_exit_marker: "length (dec_int rc) \<le> 20 \<Longrightarrow> length (exit_marker rc) \<le> 30"
proof -
  assume "length (dec_int rc) \<le> 20"
  then have "length (dec_int rc) < 10 ^ 2" by simp
  then have "length (str_of_nat (length (dec_int rc))) \<le> 2" by (rule length_str_of_nat) simp
  with \<open>length (dec_int rc) \<le> 20\<close> show ?thesis by (simp add: exit_marker_def length_header Let_def)
qed

lemma capture_end_whole:
  assumes "length rest \<le> 8000" "length (dec_int rc) \<le> 20"
  shows "\<exists>gs. list_all2 whole (capture_end rest rc c) [gs @ [(-1, bytes_of (dec_int rc))]] \<and>
    gs = (if c_full c then [] else filter nonempty [(3, rest)])"
proof -
  let ?b = "if c_full c then [] else emit 3 rest"
  have three: "(3::int) \<in> {1, 2, 3}" by simp
  have "length ?b + length (exit_marker rc) \<le> BUFFER_SIZE"
    using small_frame [OF assms(1)] dec_int_digit [OF three] assms(1) length_exit_marker [OF assms(2)]
    by (simp add: emit_def length_header BUFFER_SIZE_def)
  moreover have "exit_marker rc \<noteq> []" by (simp add: exit_marker_def Let_def header_def)
  ultimately have "capture_end rest rc c = [?b @ exit_marker rc]"
    by (auto simp: capture_end_def written_small concat_emit_parts piece_def)
  moreover have "whole ?b (if c_full c then [] else filter nonempty [(3, rest)])"
    using whole_emit [OF three assms(1)] whole_Nil by simp
  moreover have "length (dec_int rc) < int_limit" using assms(2) by (intro below_limit [of _ 2]) simp_all
  ultimately show ?thesis using whole_append [OF _ whole_exit] by auto
qed

text \<open>The frames that reach the log: all those before it is full.\<close>

definition logged :: "capture \<Rightarrow> wire_frame list \<Rightarrow> bool" where
  "logged c fs = (list_all2 whole (c_pieces c) (map (\<lambda>f. filter nonempty [f]) fs) \<and>
     (if c_full c then \<exists>gs. c_frames c = fs @ gs else c_frames c = fs))"

lemma logged_read:
  assumes "logged c fs" "length (snd rd) \<le> 1024"
  shows "\<exists>fs'. logged (capture_read rd c) fs'"
proof -
  obtain r chunk where rd: "rd = (r, chunk)" by (cases rd)
  with assms(2) have s: "length chunk \<le> 8000" by simp
  note w = written_emit [OF fileno_range s] whole_emit [OF fileno_range s]
  show ?thesis
  proof (cases "chunk = [] \<and> r = PChan")
    case True
    with assms rd show ?thesis by (auto simp: capture_read_def)
  next
    case False
    show ?thesis
    proof (cases "c_full c")
      case True
      with False assms(1) rd have "logged (capture_read rd c) fs" by (auto simp: logged_def capture_read_def)
      then show ?thesis ..
    next
      case notfull: False
      have "logged (capture_read rd c) (fs @ [(fileno_of r, chunk)])"
        using False notfull assms(1) rd w [of r] by (auto simp: logged_def capture_read_def Let_def intro!: list_all2_appendI)
      then show ?thesis ..
    qed
  qed
qed

lemma logged_fold:
  "logged c fs \<Longrightarrow> list_all (\<lambda>rd. length (snd rd) \<le> 1024) rds \<Longrightarrow> \<exists>fs'. logged (fold capture_read rds c) fs'"
  by (induction rds arbitrary: c fs) (use logged_read in \<open>fastforce+\<close>)

lemma logged_loop:
  "logged c fs \<Longrightarrow> list_all (list_all (\<lambda>rd. length (snd rd) \<le> 1024)) rounds \<Longrightarrow> \<exists>fs'. logged (fst (capture_loop rounds c)) fs'"
proof (induction rounds c arbitrary: fs rule: capture_loop.induct)
  case (2 r rs c)
  then show ?case using logged_fold by (fastforce split: if_splits)
qed auto

lemma logged_start: "logged (capture0 b n) []"
  by (simp add: logged_def capture0_def)

section \<open>The status of a job\<close>

text \<open>The file of a registered job: an object, or nothing when it could not be written.\<close>

definition meta_ok :: "json_file \<Rightarrow> bool" where
  "meta_ok j = (case j of JsonDoc (VDict _) \<Rightarrow> True | Missing \<Rightarrow> True | _ \<Rightarrow> False)"

lemma status_update [simp]: "map_of (update_dict d kvs) = map_of d ++ map_of (rev kvs)"
proof (induction kvs arbitrary: d)
  case (Cons kv kvs)
  obtain k v where "kv = (k, v)" by (cases kv)
  moreover have "update_dict d ((k, v) # kvs) = update_dict (dict_set d k v) kvs" by (simp add: update_dict_def)
  ultimately show ?case by (simp only: Cons map_of_dict_set) (auto simp: map_of_append map_add_def fun_eq_iff split: option.splits)
qed (simp add: update_dict_def)

lemma meta_okE:
  assumes "meta_ok j"
  obtains (Missing) "j = Missing" | (Object) d where "j = JsonDoc (VDict d)"
  using assms by (auto simp: meta_ok_def split: json_file.splits pyval.splits)

lemma status_meta_after:
  assumes "meta_ok j"
  shows "status_of (meta_after ok kvs j) =
    (if ok then (case map_of (rev kvs) ''status'' of Some v \<Rightarrow> v | None \<Rightarrow> status_of j) else status_of j)"
  using assms
  by (cases rule: meta_okE; cases "map_of (rev kvs) ''status''")
    (simp_all add: meta_after_def update_meta_def read_meta_def write_meta_def status_of_def map_add_def)

lemma meta_ok_after: "meta_ok j \<Longrightarrow> meta_ok (meta_after ok kvs j)"
  by (cases j rule: meta_okE) (simp_all add: meta_after_def update_meta_def read_meta_def write_meta_def meta_ok_def)

lemma ends_last_map: "\<not> terminal j \<Longrightarrow> ends_last j (map Append ps @ p) = ends_last j p"
  by (induction ps) simp_all

lemma ends_last_finalize: "ends_last j (finalize_meta ok msg rc j)"
  by (simp add: finalize_meta_def ends_last_map)

fun meta_end :: "json_file \<Rightarrow> action list \<Rightarrow> json_file" where
  "meta_end j [] = j"
| "meta_end j (Append bs # p) = meta_end j p"
| "meta_end j (SetMeta j' # p) = meta_end j' p"

lemma meta_end_map [simp]: "meta_end j (map Append ps @ p) = meta_end j p"
  by (induction ps) simp_all

lemma terminal_failed: "meta_ok j \<Longrightarrow> terminal (meta_end j (finalize_meta True msg rc j))"
  by (simp add: finalize_meta_def) (simp add: terminal_def TERMINAL_STATUSES_def status_meta_after)

lemma running_not_terminal:
  "meta_ok j \<Longrightarrow> \<not> terminal j \<Longrightarrow> \<not> terminal (meta_after ok [(''pid'', VInt p), (''status'', VStr ''running'')] j)"
  by (simp add: terminal_def status_meta_after TERMINAL_STATUSES_def)

lemma supervise_ends_last:
  assumes "meta_ok j" "\<not> terminal j"
  shows "ends_last j (supervise_detached e j)"
  using running_not_terminal [OF assms, of "running_ok e" "j_pid e"] assms(2)
  by (auto simp: supervise_detached_def Let_def ends_last_map ends_last_finalize split: job_outcome.splits prod.splits)

definition job_over :: "job_env \<Rightarrow> bool" where
  "job_over e = (case j_run e of
     Captured rounds rest rc \<Rightarrow> snd (capture_loop rounds (capture0 (j_stderr e) 0)) | _ \<Rightarrow> True)"

lemma supervise_terminal:
  assumes "meta_ok j" "job_over e" "failed_ok e"
  shows "terminal (meta_end j (supervise_detached e j))"
  using assms terminal_failed meta_ok_after
  by (auto simp: supervise_detached_def Let_def job_over_def split: job_outcome.splits prod.splits)

lemma meta_end_reachable: "jstep\<^sup>*\<^sup>* s s' \<Longrightarrow> meta_end (s_meta s') (s_prog s') = meta_end (s_meta s) (s_prog s)"
  by (induction rule: rtranclp_induct) (auto elim: jstep.cases)

section \<open>A tail comes to its end\<close>

definition tail_left :: "byte list \<Rightarrow> tail \<Rightarrow> nat" where
  "tail_left lg t = (case t_pc t of Reading \<Rightarrow> length lg - t_pos t + 3 | Checking \<Rightarrow> 2 | Draining \<Rightarrow> 1 | Over \<Rightarrow> 0)"

lemma tail_left_less: "terminal j \<Longrightarrow> t_pc t \<noteq> Over \<Longrightarrow> tail_left lg (stream_log_file k lg j t) < tail_left lg t"
  by (cases "t_pc t") (auto simp: tail_left_def stream_log_file_def)

lemma tail_ends:
  "terminal j \<Longrightarrow> \<exists>n \<le> tail_left lg t. t_pc ((stream_log_file k lg j ^^ n) t) = Over"
proof (induction "tail_left lg t" arbitrary: t rule: less_induct)
  case less
  show ?case
  proof (cases "t_pc t = Over")
    case False
    let ?t = "stream_log_file k lg j t"
    from less.hyps [OF tail_left_less [OF less.prems False] less.prems] obtain n where
      "n \<le> tail_left lg ?t" "t_pc ((stream_log_file k lg j ^^ n) ?t) = Over" by blast
    with tail_left_less [OF less.prems False, of lg k] show ?thesis
      by (intro exI [of _ "Suc n"]) (simp add: funpow_swap1)
  qed (intro exI [of _ 0], simp)
qed

section \<open>Properties\<close>

text \<open>The job's thread runs to its end, then the tail.\<close>

lemma jprog_runs: "jstep\<^sup>*\<^sup>* s (s\<lparr>s_log := s_log s @ appends (s_prog s), s_meta := meta_end (s_meta s) (s_prog s), s_prog := []\<rparr>)"
proof (induction "s_prog s" arbitrary: s)
  case (Cons a p)
  show ?case
  proof (cases a)
    case (Append bs)
    from jappend [of s bs p] Cons(2) Append have "jstep s (s\<lparr>s_log := s_log s @ [bs], s_prog := p\<rparr>)" by simp
    with Cons(1) [of "s\<lparr>s_log := s_log s @ [bs], s_prog := p\<rparr>"] Cons(2) [symmetric] Append show ?thesis
      by (simp add: converse_rtranclp_into_rtranclp)
  next
    case (SetMeta j)
    from jmeta [of s j p] Cons(2) SetMeta have "jstep s (s\<lparr>s_meta := j, s_prog := p\<rparr>)" by simp
    with Cons(1) [of "s\<lparr>s_meta := j, s_prog := p\<rparr>"] Cons(2) [symmetric] SetMeta show ?thesis
      by (simp add: converse_rtranclp_into_rtranclp)
  qed
next
  case Nil
  then have "s\<lparr>s_log := s_log s @ appends (s_prog s), s_meta := meta_end (s_meta s) (s_prog s), s_prog := []\<rparr> = s"
    by (cases s) (simp add: Nil [symmetric])
  then show ?case by simp
qed

lemma jtail_runs:
  "jstep\<^sup>*\<^sup>* s (s\<lparr>s_tail := (stream_log_file k (concat (s_log s)) (s_meta s) ^^ n) (s_tail s)\<rparr>)"
proof (induction n)
  case (Suc n)
  let ?s = "s\<lparr>s_tail := (stream_log_file k (concat (s_log s)) (s_meta s) ^^ n) (s_tail s)\<rparr>"
  from jtail [of ?s k] have "jstep ?s (s\<lparr>s_tail := (stream_log_file k (concat (s_log s)) (s_meta s) ^^ Suc n) (s_tail s)\<rparr>)"
    by simp
  with Suc show ?case by (rule rtranclp.rtrancl_into_rtrancl)
qed simp

lemma captured_frames:
  assumes sent: "spaced (appends (supervise_detached e j)) bs" and "meta_ok j"
    and "j_run e = Captured rounds rest rc" and "capture_loop rounds (capture0 (j_stderr e) 0) = (c, True)"
    and "finished_ok e" and "list_all (list_all (\<lambda>rd. length (snd rd) \<le> 1024)) rounds"
    and "length rest \<le> 8000" and "length (dec_int rc) \<le> 20"
  shows "\<exists>fs q. iter_streams bs = (filter nonempty fs @ [(-1, bytes_of (dec_int rc))], Inr q) \<and>
    (if c_full c then \<exists>gs. c_frames c = fs @ gs else fs = recorded_frames rest c)"
proof -
  let ?j1 = "meta_after (running_ok e) [(''pid'', VInt (j_pid e)), (''status'', VStr ''running'')] j"
  have "terminal (meta_after True [(''status'', VStr ''finished''), (''returncode'', VInt rc)] ?j1)"
    using meta_ok_after [OF assms(2)] by (simp add: terminal_def status_meta_after TERMINAL_STATUSES_def)
  then have pieces: "appends (supervise_detached e j) = c_pieces c @ capture_end rest rc c"
    using assms(3,4,5) by (simp add: supervise_detached_def Let_def finalize_meta_def)
  obtain fs where fs: "logged c fs" using logged_loop [OF logged_start assms(6), of "j_stderr e" 0] assms(4) by auto
  obtain gs where gs: "list_all2 whole (capture_end rest rc c) [gs @ [(-1, bytes_of (dec_int rc))]]"
    "gs = (if c_full c then [] else filter nonempty [(3, rest)])"
    using capture_end_whole [OF assms(7,8)] by blast
  from spaced_whole [OF sent, unfolded pieces, OF list_all2_appendI [OF _ gs(1)]] fs
  have "whole (bs) (concat (map (\<lambda>f. filter nonempty [f]) fs) @ gs @ [(-1, bytes_of (dec_int rc))])"
    by (fastforce simp: logged_def)
  moreover have "concat (map (\<lambda>f. filter nonempty [f]) fs) = filter nonempty fs" by (induction fs) auto
  ultimately have "whole (bs) (filter nonempty (fs @ (if c_full c then [] else [(3, rest)])) @ [(-1, bytes_of (dec_int rc))])"
    by (cases "c_full c"; cases "nonempty (3, rest)") (simp_all add: gs(2))
  from whole_iter_streams [OF this] fs show ?thesis
    by (intro exI [of _ "fs @ (if c_full c then [] else [(3, rest)])"]) (auto simp: logged_def recorded_frames_def)
qed

text \<open>
  The frame of a large rest is not written at once: its header, its bytes and the exit marker
  reach the log in three pieces, and a keepalive of a tail may come between them.
\<close>

lemma large_rest_split:
  assumes "BUFFER_SIZE < length rest" "length rest < 10 ^ 20" "length (dec_int rc) \<le> 20" "\<not> c_full c"
  shows "capture_end rest rc c = [header (dec_int 3) (length rest), rest, exit_marker rc]"
proof -
  have "length (str_of_nat (length rest)) \<le> 20" using assms(2) by (rule length_str_of_nat) simp
  then have h: "length (header (dec_int 3) (length rest)) \<le> BUFFER_SIZE" "header (dec_int 3) (length rest) \<noteq> []"
    using dec_int_digit [of 3] by (simp_all add: length_header BUFFER_SIZE_def header_def)
  have m: "length (exit_marker rc) \<le> BUFFER_SIZE" "exit_marker rc \<noteq> []"
    using length_exit_marker [OF assms(3)] by (simp_all add: BUFFER_SIZE_def exit_marker_def header_def Let_def)
  have "rest \<noteq> []" "0 < BUFFER_SIZE" using assms(1) by (auto simp: BUFFER_SIZE_def)
  then show ?thesis
    using assms(1,4) h m by (simp add: capture_end_def written_def emit_parts_def buf_write_def buf_flush_def piece_def)
qed

text \<open>
  C28. A reattached client sees the job. Whatever the order in which the thread of a detached
  job and a tail of its log take their steps, what the client has been sent at any moment is
  the log from its beginning, in order, with keepalives only between the pieces in which the
  log was written; when the tail has ended it is the whole of what the thread ever writes to
  the log, for every outcome of the job. If the job was captured to its end, its final status
  was written, the reads were of at most 1024 bytes and the rest of the output channel has at
  most 8000, so that it fits into the file buffer, then the client of an ended tail reads
  exactly the frames of the job's output that reached the log, all of them unless the log was
  full, and then the exit code.
\<close>

theorem reattach_complete:
  assumes "jstep\<^sup>*\<^sup>* (jsys0 e j) s" and "meta_ok j" and "\<not> terminal j"
  shows "sent_so_far (s_log s) (t_sent (s_tail s)) \<and>
    (t_pc (s_tail s) = Over \<longrightarrow> spaced (appends (supervise_detached e j)) (t_sent (s_tail s)) \<and>
      (\<forall>rounds rest rc c. j_run e = Captured rounds rest rc \<and>
         capture_loop rounds (capture0 (j_stderr e) 0) = (c, True) \<and> finished_ok e \<and>
         list_all (list_all (\<lambda>rd. length (snd rd) \<le> 1024)) rounds \<and> length rest \<le> 8000 \<and> length (dec_int rc) \<le> 20 \<longrightarrow>
         (\<exists>fs q. iter_streams (t_sent (s_tail s)) = (filter nonempty fs @ [(-1, bytes_of (dec_int rc))], Inr q) \<and>
           (if c_full c then \<exists>gs. c_frames c = fs @ gs else fs = recorded_frames rest c))))"
proof -
  have inv: "jinv (appends (supervise_detached e j)) s"
    using jinv_reachable [OF assms(1)] jinv_start [OF supervise_ends_last [OF assms(2,3)], of e] by (simp add: jsys0_def)
  have "spaced (appends (supervise_detached e j)) (t_sent (s_tail s))" if "t_pc (s_tail s) = Over"
    using inv that by (auto simp: jinv_def)
  then show ?thesis using jinv_sent [OF inv] captured_frames [OF _ assms(2)] by blast
qed

text \<open>A job that prints two letters and exits with 0, registered as usual.\<close>

definition hello_job :: job_env where
  "hello_job = \<lparr>j_run = Captured [[(POut, [104, 105])], [(POut, [])]] [] 0, j_stderr = False, j_pid = 7,
     running_ok = True, finished_ok = True, failed_ok = True\<rparr>"

definition hello_meta :: json_file where
  "hello_meta = register_detached_job True ''j1'' (Fin 1) Missing"

lemma hello_meta_ok: "meta_ok hello_meta" "\<not> terminal hello_meta"
  by (simp_all add: hello_meta_def register_detached_job_def write_meta_def meta_ok_def terminal_def status_of_def
      TERMINAL_STATUSES_def)

lemma tail_reaches_end:
  assumes "meta_ok j" "job_over e" "failed_ok e"
  shows "\<exists>s. jstep\<^sup>*\<^sup>* (jsys0 e j) s \<and> t_pc (s_tail s) = Over"
proof -
  let ?s = "(jsys0 e j)\<lparr>s_log := s_log (jsys0 e j) @ appends (s_prog (jsys0 e j)),
    s_meta := meta_end (s_meta (jsys0 e j)) (s_prog (jsys0 e j)), s_prog := []\<rparr>"
  have "terminal (s_meta ?s)" using supervise_terminal [OF assms] by (simp add: jsys0_def)
  from tail_ends [OF this] obtain n where
    "t_pc ((stream_log_file False (concat (s_log ?s)) (s_meta ?s) ^^ n) (s_tail ?s)) = Over" by blast
  then show ?thesis using rtranclp_trans [OF jprog_runs [of "jsys0 e j"] jtail_runs [of ?s, where k = False and n = n]]
    by (intro exI [of _ "?s\<lparr>s_tail := (stream_log_file False (concat (s_log ?s)) (s_meta ?s) ^^ n) (s_tail ?s)\<rparr>"]) simp
qed

lemma hello_captured: "\<exists>c. capture_loop [[(POut, [104, 105])], [(POut, [])]] (capture0 (j_stderr hello_job) 0) = (c, True) \<and>
    \<not> c_full c \<and> recorded_frames [] c = [(1, [104, 105]), (1, []), (3, [])]"
proof -
  have w: "written (emit_parts 1 [104, 105]) = [emit 1 [104, 105]]" "written (emit_parts 1 []) = [emit 1 []]"
    by (intro written_emit; simp)+
  have l: "length (emit 1 [104, 105]) = 6" "length (emit 1 []) = 4" by code_simp+
  show ?thesis
    by (simp add: hello_job_def capture0_def capture_read_def Let_def fileno_of_def MAX_LOG_SIZE_def w l recorded_frames_def)
qed

theorem reattach_complete_witness:
  "\<exists>s q. jstep\<^sup>*\<^sup>* (jsys0 hello_job hello_meta) s \<and>
    iter_streams (t_sent (s_tail s)) = ([(1, [104, 105]), (-1, bytes_of (dec_int 0))], Inr q)"
proof -
  have "job_over hello_job" using hello_captured by (auto simp: job_over_def hello_job_def)
  with tail_reaches_end [OF hello_meta_ok(1), of hello_job] obtain s where
    s: "jstep\<^sup>*\<^sup>* (jsys0 hello_job hello_meta) s" "t_pc (s_tail s) = Over" by (auto simp: hello_job_def)
  from hello_captured obtain c where c: "capture_loop [[(POut, [104, 105])], [(POut, [])]] (capture0 (j_stderr hello_job) 0) = (c, True)"
    "\<not> c_full c" "recorded_frames [] c = [(1, [104, 105]), (1, []), (3, [])]" by blast
  have "length (dec_int 0) \<le> 20" by code_simp
  with reattach_complete [OF s(1) hello_meta_ok] c s show ?thesis
    by (fastforce simp: hello_job_def nonempty_def)
qed

text \<open>
  C29. A reattached client is not left hanging. When the thread of a detached job has ended in
  whatever way, and the last status could be written, the status file is terminal and a tail
  ends after finitely many turns, as many as there are bytes left to send and three more at
  most.
\<close>

theorem reattach_ends:
  assumes "jstep\<^sup>*\<^sup>* (jsys0 e j) s" and "s_prog s = []" and "meta_ok j" and "job_over e" and "failed_ok e"
  shows "terminal (s_meta s) \<and> (\<exists>n \<le> length (concat (s_log s)) + 3.
    t_pc ((stream_log_file k (concat (s_log s)) (s_meta s) ^^ n) (s_tail s)) = Over)"
proof -
  have "terminal (s_meta s)"
    using meta_end_reachable [OF assms(1)] supervise_terminal [OF assms(3-5)] assms(2) by (simp add: jsys0_def)
  moreover have "tail_left (concat (s_log s)) (s_tail s) \<le> length (concat (s_log s)) + 3"
    by (auto simp: tail_left_def split: tail_pc.splits)
  ultimately show ?thesis using tail_ends [of "s_meta s" "concat (s_log s)" "s_tail s" k] order_trans by blast
qed

theorem reattach_ends_witness:
  "\<exists>s. jstep\<^sup>*\<^sup>* (jsys0 hello_job hello_meta) s \<and> s_prog s = [] \<and> terminal (s_meta s)"
proof -
  have over: "job_over hello_job" "failed_ok hello_job" using hello_captured by (auto simp: job_over_def hello_job_def)
  let ?s = "jsys0 hello_job hello_meta"
  let ?s' = "?s\<lparr>s_log := s_log ?s @ appends (s_prog ?s), s_meta := meta_end (s_meta ?s) (s_prog ?s), s_prog := []\<rparr>"
  from reattach_ends [OF jprog_runs [of ?s] _ hello_meta_ok(1) over] jprog_runs [of ?s] show ?thesis
    by (intro exI [of _ ?s']) auto
qed

end
