(* ===== verification/Py_Regex.thy ===== *)
theory Py_Regex
  imports Py_Builtins
begin

text \<open>
  The part of Python's \<^verbatim>\<open>re\<close> that the box configuration uses: character classes,
  greedy repetition of a class, optional parts, concatenation and alternatives.
  \<open>rests r s\<close> lists what is left of \<open>s\<close> after each way in which \<open>r\<close> matches a
  prefix, in the order in which the backtracking matcher tries them, so its head is the
  match that \<^verbatim>\<open>re.match\<close> reports. \<open>$\<close> also matches before a trailing newline.
\<close>

datatype rx =
    One "char \<Rightarrow> bool"
  | Many "char \<Rightarrow> bool"
  | Opt rx
  | Seq rx rx
  | Alt rx rx

fun many_rests :: "(char \<Rightarrow> bool) \<Rightarrow> string \<Rightarrow> string list" where
  "many_rests P [] = [[]]"
| "many_rests P (c # s) = (if P c then many_rests P s @ [c # s] else [c # s])"

fun rests :: "rx \<Rightarrow> string \<Rightarrow> string list" where
  "rests (One P) s = (case s of [] \<Rightarrow> [] | c # t \<Rightarrow> if P c then [t] else [])"
| "rests (Many P) s = many_rests P s"
| "rests (Opt r) s = rests r s @ [s]"
| "rests (Seq q r) s = concat (map (rests r) (rests q s))"
| "rests (Alt q r) s = rests q s @ rests r s"

abbreviation Plus :: "(char \<Rightarrow> bool) \<Rightarrow> rx" where
  "Plus P \<equiv> Seq (One P) (Many P)"

text \<open>Repetition up to and exactly a number of times, \<^verbatim>\<open>{0,n}\<close> and \<^verbatim>\<open>{n}\<close> for \<open>n\<close> from 1.\<close>

fun rx_upto :: "nat \<Rightarrow> (char \<Rightarrow> bool) \<Rightarrow> rx" where
  "rx_upto 0 P = Opt (One P)"
| "rx_upto (Suc n) P = (if n = 0 then Opt (One P) else Opt (Seq (One P) (rx_upto n P)))"

fun rx_exactly :: "nat \<Rightarrow> (char \<Rightarrow> bool) \<Rightarrow> rx" where
  "rx_exactly 0 P = One P"
| "rx_exactly (Suc n) P = (if n = 0 then One P else Seq (One P) (rx_exactly n P))"

abbreviation newline :: char where
  "newline \<equiv> CHR 0x0A"

text \<open>\<^verbatim>\<open>re.match('^r$', s)\<close>.\<close>

definition re_match :: "rx \<Rightarrow> string \<Rightarrow> bool" where
  "re_match r s = list_ex (\<lambda>t. t = [] \<or> t = [newline]) (rests r s)"

text \<open>Group 1 of \<^verbatim>\<open>re.match('^(r)', s)\<close>.\<close>

definition re_group :: "rx \<Rightarrow> string \<Rightarrow> string option" where
  "re_group r s = (case rests r s of [] \<Rightarrow> None | t # _ \<Rightarrow> Some (take (length s - length t) s))"

definition is_az :: "char \<Rightarrow> bool" where
  "is_az c = (97 \<le> code c \<and> code c \<le> 122)"

definition is_AZ :: "char \<Rightarrow> bool" where
  "is_AZ c = (65 \<le> code c \<and> code c \<le> 90)"

definition is_alnum :: "char \<Rightarrow> bool" where
  "is_alnum c = (is_az c \<or> is_AZ c \<or> is_digit c)"

definition is_lownum :: "char \<Rightarrow> bool" where
  "is_lownum c = (is_az c \<or> is_digit c)"

definition is_hex :: "char \<Rightarrow> bool" where
  "is_hex c = (is_digit c \<or> 97 \<le> code c \<and> code c \<le> 102)"

definition is_octal :: "char \<Rightarrow> bool" where
  "is_octal c = (48 \<le> code c \<and> code c \<le> 55)"

text \<open>The language of an expression, independent of the order of the search.\<close>

fun lang :: "rx \<Rightarrow> string \<Rightarrow> bool" where
  "lang (One P) s = (\<exists>c. s = [c] \<and> P c)"
| "lang (Many P) s = (\<forall>c\<in>set s. P c)"
| "lang (Opt r) s = (s = [] \<or> lang r s)"
| "lang (Seq q r) s = (\<exists>u v. s = u @ v \<and> lang q u \<and> lang r v)"
| "lang (Alt q r) s = (lang q s \<or> lang r s)"

lemma many_rests_iff: "t \<in> set (many_rests P s) \<longleftrightarrow> (\<exists>u. s = u @ t \<and> (\<forall>c\<in>set u. P c))"
proof (induction s)
  case (Cons c s)
  have "(\<exists>u. c # s = u @ t \<and> (\<forall>x\<in>set u. P x)) \<longleftrightarrow> t = c # s \<or> P c \<and> (\<exists>u. s = u @ t \<and> (\<forall>x\<in>set u. P x))"
    by (auto simp: Cons_eq_append_conv)
  with Cons show ?case by auto
qed auto

lemma rests_iff: "t \<in> set (rests r s) \<longleftrightarrow> (\<exists>u. s = u @ t \<and> lang r u)"
proof (induction r arbitrary: s t)
  case (One P)
  then show ?case by (cases s) auto
next
  case (Many P)
  then show ?case by (simp add: many_rests_iff)
next
  case (Opt r)
  then show ?case by auto
next
  case (Seq q r)
  then show ?case by simp (metis append.assoc)
next
  case (Alt q r)
  then show ?case by auto
qed

lemma lang_One_Seq: "lang (Seq (One P) r) s \<longleftrightarrow> (\<exists>c t. s = c # t \<and> P c \<and> lang r t)"
  by (auto intro: exI [of _ "[c]" for c])

lemma lang_upto: "0 < n \<Longrightarrow> lang (rx_upto n P) s \<longleftrightarrow> length s \<le> n \<and> (\<forall>c\<in>set s. P c)"
proof (induction n arbitrary: s)
  case (Suc n)
  show ?case
  proof (cases "n = 0")
    case True
    then show ?thesis by (cases s) auto
  next
    case False
    with Suc show ?thesis by (cases s) (auto simp: lang_One_Seq simp del: lang.simps(4))
  qed
qed simp

lemma lang_exactly: "0 < n \<Longrightarrow> lang (rx_exactly n P) s \<longleftrightarrow> length s = n \<and> (\<forall>c\<in>set s. P c)"
proof (induction n arbitrary: s)
  case (Suc n)
  show ?case
  proof (cases "n = 0")
    case True
    then show ?thesis by (cases s) auto
  next
    case False
    with Suc show ?thesis by (cases s) (auto simp: lang_One_Seq simp del: lang.simps(4))
  qed
qed simp

lemma re_match_lang: "re_match r s \<longleftrightarrow> lang r s \<or> (\<exists>u. s = u @ [newline] \<and> lang r u)"
  by (auto simp: re_match_def list_ex_iff rests_iff)

lemma re_group_prefix: "re_group r s = Some u \<Longrightarrow> \<exists>t. s = u @ t \<and> lang r u"
proof -
  assume "re_group r s = Some u"
  then obtain t ts where t: "rests r s = t # ts" and u: "u = take (length s - length t) s"
    by (auto simp: re_group_def split: list.splits)
  from t have "t \<in> set (rests r s)" by simp
  then obtain v where "s = v @ t" "lang r v" by (auto simp: rests_iff)
  with u show ?thesis by auto
qed

end
