(* ===== verification/Run_Record.thy ===== *)
theory Run_Record
  imports Output_Stream Py_Regex "HOL-Library.Char_ord" "HOL-Library.List_Lexorder"
begin

text \<open>
  Run records, \<^verbatim>\<open>box/lager/python/run_record.py\<close>: what the client and the script may
  assert, the store of open and final records, and the recorder of one run from its
  acceptance to its final file. Operations that touch the disk take the outcome of their
  system calls as arguments; the store is passed explicitly.
\<close>

section \<open>Grammar of identifiers\<close>

definition is_run_char :: "char \<Rightarrow> bool" where
  "is_run_char c = (is_alnum c \<or> c = CHR ''_'' \<or> c = CHR ''-'')"

definition is_key_char :: "char \<Rightarrow> bool" where
  "is_key_char c = (is_alnum c \<or> c \<in> {CHR ''.'', CHR ''_'', CHR '':'', CHR ''/'', CHR ''-''})"

definition run_id_re :: rx where
  "run_id_re = Seq (One is_alnum) (rx_upto 127 is_run_char)"

definition key_re :: rx where
  "key_re = Seq (One is_alnum) (rx_upto 127 is_key_char)"

definition env_name_re :: rx where
  "env_name_re = Seq (One (\<lambda>c. is_az c \<or> is_AZ c \<or> c = CHR ''_'')) (Many (\<lambda>c. is_alnum c \<or> c = CHR ''_''))"

definition git_sha_re :: rx where
  "git_sha_re = Seq (rx_exactly 40 is_hex) (Opt (rx_exactly 24 is_hex))"

definition sha256_re :: rx where
  "sha256_re = rx_exactly 64 is_hex"

definition valid_run_id :: "pyval \<Rightarrow> bool" where
  "valid_run_id v = (case v of VStr s \<Rightarrow> re_match run_id_re s | _ \<Rightarrow> False)"

text \<open>\<^verbatim>\<open>util/paths.py\<close>: every character outside the set becomes an underscore.\<close>

definition is_path_char :: "char \<Rightarrow> bool" where
  "is_path_char c = (is_alnum c \<or> c = CHR ''.'' \<or> c = CHR ''_'' \<or> c = CHR ''-'')"

definition fs_slug :: "string \<Rightarrow> string" where
  "fs_slug s = map (\<lambda>c. if is_path_char c then c else CHR ''_'') s"

section \<open>What the client and the script assert\<close>

definition MAX_LABELS :: nat where "MAX_LABELS = 32"
definition MAX_SCRIPT_KEYS :: nat where "MAX_SCRIPT_KEYS = 256"
definition MAX_VALUE_LEN :: nat where "MAX_VALUE_LEN = 4096"

definition scalar :: "pyval \<Rightarrow> bool \<times> pyval" where
  "scalar v = (case v of
     VNone \<Rightarrow> (True, v) | VBool _ \<Rightarrow> (True, v) | VInt _ \<Rightarrow> (True, v)
   | VFloat f \<Rightarrow> (f \<noteq> NaN \<and> f \<noteq> PInf \<and> f \<noteq> NInf, v)
   | VStr s \<Rightarrow> (length s \<le> MAX_VALUE_LEN, v)
   | _ \<Rightarrow> (False, VNone))"

text \<open>The client's field: absent, not JSON, or a document.\<close>

datatype client_raw = Absent | Malformed | Parsed pyval

record client_info =
  passenv :: "string list"
  downloads :: "string list"
  asserted :: "dict option"

definition no_client :: client_info where
  "no_client = \<lparr>passenv = [], downloads = [], asserted = None\<rparr>"

fun strs_of :: "pyval list \<Rightarrow> string list" where
  "strs_of [] = []"
| "strs_of (VStr s # vs) = s # strs_of vs"
| "strs_of (_ # vs) = strs_of vs"

definition str_list :: "nat \<Rightarrow> pyval \<Rightarrow> string list" where
  "str_list limit v = (case v of VList vs \<Rightarrow> take limit (strs_of vs) | _ \<Rightarrow> [])"

definition opt_str :: "pyval \<Rightarrow> pyval" where
  "opt_str v = (case v of VStr _ \<Rightarrow> v | _ \<Rightarrow> VNone)"

definition git_of :: "pyval \<Rightarrow> pyval" where
  "git_of v = (case v of
     VDict g \<Rightarrow> (case (dict_get g ''commit'', dict_get g ''dirty'') of
        (VStr c, VBool b) \<Rightarrow> if re_match git_sha_re c
          then VDict [(''commit'', VStr c), (''dirty'', VBool b)] else VNone
      | _ \<Rightarrow> VNone)
   | _ \<Rightarrow> VNone)"

text \<open>\<^verbatim>\<open>isinstance(v, int)\<close> holds of a bool too.\<close>

definition as_size :: "pyval \<Rightarrow> int option" where
  "as_size v = (case v of VInt i \<Rightarrow> if i \<ge> 0 then Some i else None | VBool b \<Rightarrow> Some (of_bool b) | _ \<Rightarrow> None)"

definition file_of :: "pyval \<Rightarrow> (string \<times> dict) option" where
  "file_of v = (case v of
     VDict e \<Rightarrow> (case (dict_get e ''path'', as_size (dict_get e ''size''), dict_get e ''sha256'') of
        (VStr p, Some _, VStr h) \<Rightarrow> if re_match sha256_re h
          then Some (p, [(''path'', VStr p), (''repoPath'', opt_str (dict_get e ''repoPath'')),
                         (''size'', dict_get e ''size''), (''sha256'', VStr h)])
          else None
      | _ \<Rightarrow> None)
   | _ \<Rightarrow> None)"

text \<open>Iterating over a value that need not be a list.\<close>

definition iterate :: "pyval \<Rightarrow> pyval list res" where
  "iterate v = (case v of
     VList vs \<Rightarrow> Inr vs
   | VDict d \<Rightarrow> Inr (map (VStr \<circ> fst) d)
   | VStr s \<Rightarrow> Inr (map (\<lambda>c. VStr [c]) s)
   | _ \<Rightarrow> Inl TypeError)"

fun labels_loop :: "dict \<Rightarrow> dict \<Rightarrow> dict" where
  "labels_loop labels [] = labels"
| "labels_loop labels ((k, v) # rest) =
    (if length labels \<ge> MAX_LABELS then labels
     else if re_match key_re k \<and> (case v of VStr s \<Rightarrow> length s \<le> MAX_VALUE_LEN | _ \<Rightarrow> False)
     then labels_loop (dict_set labels k v) rest
     else labels_loop labels rest)"

definition labels_of :: "pyval \<Rightarrow> dict" where
  "labels_of v = (case v of VDict d \<Rightarrow> labels_loop [] d | _ \<Rightarrow> [])"

definition parse_client_field :: "client_raw \<Rightarrow> client_info res" where
  "parse_client_field raw = (case raw of
     Parsed (VDict d) \<Rightarrow>
       res_bind (iterate (py_or (dict_get d ''files'') (VList []))) (\<lambda>entries.
         Inr \<lparr>passenv = sort (remdups (filter (re_match env_name_re) (str_list 4096 (dict_get d ''passenv'')))),
              downloads = str_list 256 (dict_get d ''downloads''),
              asserted = Some
                [(''cliVersion'', opt_str (dict_get d ''cliVersion'')),
                 (''argv'', VList (map VStr (str_list 4096 (dict_get d ''argv'')))),
                 (''git'', git_of (dict_get d ''git'')),
                 (''repoRelativeRoot'', opt_str (dict_get d ''repoRelativeRoot'')),
                 (''files'', VList (map (VDict \<circ> snd) (sort_key fst (List.map_filter file_of entries)))),
                 (''labels'', VDict (labels_of (dict_get d ''labels'')))]\<rparr>)
   | _ \<Rightarrow> Inr no_client)"

text \<open>
  The lines of the script's file, each as \<^verbatim>\<open>json.loads\<close> reads it; \<open>None\<close> for a line that is
  not JSON. No file gives no assertions.
\<close>

type_synonym script_lines = "pyval option list"

definition script_item :: "pyval option \<Rightarrow> (string \<times> pyval) option" where
  "script_item line = (case line of
     Some (VDict item) \<Rightarrow> (case (dict_get item ''key'', scalar (dict_get item ''value'')) of
        (VStr key, True, w) \<Rightarrow> if re_match key_re key then Some (key, w) else None
      | _ \<Rightarrow> None)
   | _ \<Rightarrow> None)"

fun assertions_loop :: "dict \<Rightarrow> script_lines \<Rightarrow> dict" where
  "assertions_loop values [] = values"
| "assertions_loop values (line # rest) = (case script_item line of
     None \<Rightarrow> assertions_loop values rest
   | Some (key, w) \<Rightarrow>
       if \<not> dict_has values key \<and> length values \<ge> MAX_SCRIPT_KEYS then assertions_loop values rest
       else assertions_loop (dict_set values key w) rest)"

definition read_script_assertions :: "script_lines option \<Rightarrow> pyval" where
  "read_script_assertions f = (case f of
     None \<Rightarrow> VNone
   | Some ls \<Rightarrow> let values = assertions_loop [] ls in if values = [] then VNone else VDict values)"

section \<open>The store\<close>

definition BLOB_SLACK :: int where "BLOB_SLACK = 16 * 2 ^ 20"
definition FINAL_KEEP :: nat where "FINAL_KEEP = 500"
definition DEFAULT_BLOB_MAX :: int where "DEFAULT_BLOB_MAX = 100 * 2 ^ 20"

text \<open>\<^verbatim>\<open>blob_max\<close>: the variable of the environment, when it reads as a number.\<close>

definition blob_max :: "string option \<Rightarrow> int" where
  "blob_max env = (case env of
     None \<Rightarrow> DEFAULT_BLOB_MAX
   | Some s \<Rightarrow> (case int_of_str s of None \<Rightarrow> DEFAULT_BLOB_MAX | Some i \<Rightarrow> i))"

datatype rmode = Local | Collected

definition read_mode :: "json_file \<Rightarrow> rmode" where
  "read_mode policy = (case policy of
     JsonDoc (VDict d) \<Rightarrow> if dict_get d ''mode'' = VStr ''collected'' then Collected else Local
   | _ \<Rightarrow> Local)"

text \<open>
  The files under the records root: the counter, the identity, the files of \<^verbatim>\<open>open/\<close> by
  run, the final records in the order of their modification times, the outbox and the blobs.
\<close>

record rstore =
  seq_file :: "string option"
  uid_file :: "string option"
  open_recs :: "string \<Rightarrow> dict option"
  cancels :: "string \<Rightarrow> string option"
  logs :: "string \<Rightarrow> byte list option"
  scripts :: "string \<Rightarrow> script_lines option"
  finals :: "(string \<times> dict) list"
  outbox :: "string \<Rightarrow> dict option"
  blobs :: "string \<Rightarrow> byte list option"

definition sequence_of :: "rstore \<Rightarrow> int res" where
  "sequence_of st = (case seq_file st of
     None \<Rightarrow> Inr 0
   | Some t \<Rightarrow> if strip t = [] then Inr 0
       else (case int_of_str (strip t) of None \<Rightarrow> Inl ValueError | Some i \<Rightarrow> Inr i))"

definition next_sequence :: "bool \<Rightarrow> rstore \<Rightarrow> int res \<times> rstore" where
  "next_sequence ok st = (case sequence_of st of
     Inl e \<Rightarrow> (Inl e, st)
   | Inr current \<Rightarrow> if ok then (Inr (current + 1), st\<lparr>seq_file := Some (dec_int (current + 1))\<rparr>)
       else (Inl OSError, st))"

definition store_box_id :: "bool \<Rightarrow> string \<Rightarrow> rstore \<Rightarrow> string res \<times> rstore" where
  "store_box_id ok fresh st = (let value = (case uid_file st of None \<Rightarrow> [] | Some t \<Rightarrow> strip t) in
     if value \<noteq> [] then (Inr value, st)
     else if ok then (Inr fresh, st\<lparr>uid_file := Some fresh\<rparr>) else (Inl OSError, st))"

section \<open>Opening a record\<close>

record recorder =
  r_id :: string
  r_mode :: rmode
  r_rec :: dict
  r_timeout :: int
  r_declared :: "string list"
  r_hashed :: "byte list"
  r_log_open :: bool
  r_finalized :: bool
  r_broken :: bool

text \<open>
  What \<^verbatim>\<open>begin\<close> meets outside: the policy file, free space (\<open>None\<close>: it cannot be read), the
  directories, the writes, the two identifiers \<^verbatim>\<open>uuid4\<close> would mint, the clock, and what the
  descriptions of the box, of its state and of the code give.
\<close>

record begin_env =
  policy :: json_file
  free_space :: "int option"
  bmax :: int
  dirs_made :: bool
  seq_written :: bool
  uid_written :: bool
  fresh_id :: string
  fresh_again :: string
  fresh_uid :: string
  started :: string
  box_fields :: "dict res"
  box_state :: "pyval res"
  code_section :: "pyval res"
  client :: client_raw
  timeout_seconds :: int
  log_created :: bool
  open_written :: bool

datatype begin_result = Recording recorder | Unrecorded | Refused

definition require_free_space :: "begin_env \<Rightarrow> unit res" where
  "require_free_space e = (case free_space e of
     None \<Rightarrow> Inl OSError
   | Some n \<Rightarrow> if n < 2 * bmax e + BLOB_SLACK then Inl OSError else Inr ())"

definition is_final :: "rstore \<Rightarrow> string \<Rightarrow> bool" where
  "is_final st rid = (map_of (finals st) rid \<noteq> None)"

definition choose_id :: "begin_env \<Rightarrow> pyval \<Rightarrow> rstore \<Rightarrow> string" where
  "choose_id e run_id st =
    (let rid = (case run_id of VStr s \<Rightarrow> if valid_run_id run_id then s else fresh_id e | _ \<Rightarrow> fresh_id e) in
     if open_recs st rid \<noteq> None \<or> is_final st rid then fresh_again e else rid)"

definition new_record :: "begin_env \<Rightarrow> rmode \<Rightarrow> string \<Rightarrow> client_info \<Rightarrow> int \<Rightarrow> string \<Rightarrow> dict \<Rightarrow> pyval \<Rightarrow> pyval \<Rightarrow> dict" where
  "new_record e mode rid c n uid boxf bstate code_v =
    [(''schema'', VStr ''lager.run-record/v1''),
     (''runId'', VStr rid),
     (''boxSequence'', VInt n),
     (''state'', VStr ''open''),
     (''startedAt'', VStr (started e)),
     (''finishedAt'', VNone),
     (''box'', VDict ((''boxId'', VStr uid) # boxf)),
     (''boxState'', bstate),
     (''code'', code_v),
     (''environmentPassed'', VList (map VStr (passenv c))),
     (''exit'', VNone),
     (''outputs'', VList []),
     (''log'', VNone),
     (''retention'', VDict [(''mode'', VStr (if mode = Collected then ''collected'' else ''local'')),
                           (''maxBlobBytes'', VInt (if mode = Collected then bmax e else 0))]),
     (''clientAsserted'', case asserted c of None \<Rightarrow> VNone | Some d \<Rightarrow> VDict d),
     (''scriptAsserted'', VNone)]"

text \<open>The constructor, then the open record on disk with its timeout.\<close>

definition open_run :: "begin_env \<Rightarrow> rmode \<Rightarrow> string \<Rightarrow> dict \<Rightarrow> client_info \<Rightarrow> rstore \<Rightarrow> recorder res \<times> rstore" where
  "open_run e mode rid rc c st =
    (if mode = Collected \<and> \<not> log_created e then (Inl OSError, st)
     else let st1 = (if mode = Collected then st\<lparr>logs := (logs st)(rid := Some [])\<rparr> else st);
              r = \<lparr>r_id = rid, r_mode = mode, r_rec = rc, r_timeout = timeout_seconds e, r_declared = downloads c,
                   r_hashed = [], r_log_open = (mode = Collected), r_finalized = False, r_broken = False\<rparr> in
       if open_written e
       then (Inr r, st1\<lparr>open_recs := (open_recs st1)(rid := Some (dict_set rc ''_effectiveTimeout'' (VInt (timeout_seconds e))))\<rparr>)
       else (Inl OSError, st1))"

text \<open>
  The body of the \<^verbatim>\<open>try\<close> in \<^verbatim>\<open>begin\<close>. A failure keeps what the store holds by then; the
  descriptions come after the number and the identity.
\<close>

definition try_begin :: "begin_env \<Rightarrow> rmode \<Rightarrow> pyval \<Rightarrow> rstore \<Rightarrow> recorder res \<times> rstore" where
  "try_begin e mode run_id st =
    (case (if mode = Collected then require_free_space e else Inr ()) of
       Inl x \<Rightarrow> (Inl x, st)
     | Inr _ \<Rightarrow>
    if \<not> dirs_made e then (Inl OSError, st)
    else let rid = choose_id e run_id st in
    case parse_client_field (client e) of
       Inl x \<Rightarrow> (Inl x, st)
     | Inr c \<Rightarrow>
    case next_sequence (seq_written e) st of
       (Inl x, st1) \<Rightarrow> (Inl x, st1)
     | (Inr n, st1) \<Rightarrow>
    case store_box_id (uid_written e) (fresh_uid e) st1 of
       (Inl x, st2) \<Rightarrow> (Inl x, st2)
     | (Inr uid, st2) \<Rightarrow>
    case (box_fields e, box_state e, code_section e) of
       (Inr boxf, Inr bstate, Inr code_v) \<Rightarrow>
         open_run e mode rid (new_record e mode rid c n uid boxf bstate code_v) c st2
     | _ \<Rightarrow> (Inl OSError, st2))"

definition begin_run :: "begin_env \<Rightarrow> pyval \<Rightarrow> rstore \<Rightarrow> begin_result \<times> rstore" where
  "begin_run e run_id st = (let mode = read_mode (policy e) in
     case try_begin e mode run_id st of
       (Inr r, st') \<Rightarrow> (Recording r, st')
     | (Inl _, st') \<Rightarrow> (if mode = Collected then Refused else Unrecorded, st'))"

section \<open>Capturing the log\<close>

text \<open>The flag says that the write (or the close of an oversized log) succeeds.\<close>

definition log_frame :: "int \<Rightarrow> bool \<Rightarrow> int \<Rightarrow> byte list \<Rightarrow> recorder \<times> rstore \<Rightarrow> recorder \<times> rstore" where
  "log_frame bm ok fileno chunk rs = (case rs of (r, st) \<Rightarrow>
     if r_broken r \<or> r_finalized r \<or> chunk = [] \<or> fileno \<notin> {1, 2, 3} then (r, st)
     else let fr = emit fileno chunk; r1 = r\<lparr>r_hashed := r_hashed r @ fr\<rparr> in
       if \<not> r_log_open r then (r1, st)
       else if int (length (r_hashed r1)) \<le> bm
       then if ok then (r1, st\<lparr>logs := (logs st)(r_id r := map_option (\<lambda>b. b @ fr) (logs st (r_id r)))\<rparr>)
            else (r1\<lparr>r_broken := True\<rparr>, st)
       else (r1\<lparr>r_log_open := False, r_broken := \<not> ok\<rparr>, st\<lparr>logs := (logs st)(r_id r := None)\<rparr>))"

section \<open>Finishing\<close>

definition normalize_exit_code :: "int option \<Rightarrow> int option" where
  "normalize_exit_code raw = (case raw of
     None \<Rightarrow> None | Some r \<Rightarrow> Some (if r < -1 then 128 + \<bar>r\<bar> else r))"

datatype ended = Exited | Disconnected | StartFailed

definition exit_reason :: "bool \<Rightarrow> ended \<Rightarrow> int \<Rightarrow> int option \<Rightarrow> rat \<Rightarrow> string" where
  "exit_reason cancelled how tmo rcode elapsed =
    (if cancelled then ''cancelled''
     else if how = Disconnected then ''disconnected''
     else if how = StartFailed then ''start-failed''
     else if tmo > 0 \<and> rcode \<in> {Some 124, Some 137} \<and> elapsed \<ge> of_int tmo - 1/2 then ''timeout''
     else ''exited'')"

text \<open>
  A declared output as the box finds it: not served (\<^verbatim>\<open>StoreError\<close>), unreadable, or the bytes
  that are hashed and the bytes that a copy finds afterwards, \<open>None\<close> when the copy fails. The
  file is read twice and may change in between.
\<close>

datatype out_file = NotServed | ReadFails | Contents "byte list" "byte list option"

text \<open>\<open>sha\<close> stands for \<^verbatim>\<open>hashlib.sha256\<close> in hexadecimal.\<close>

definition add_blob :: "string \<Rightarrow> byte list \<Rightarrow> rstore \<Rightarrow> rstore" where
  "add_blob h bs st = (if blobs st h \<noteq> None then st else st\<lparr>blobs := (blobs st)(h := Some bs)\<rparr>)"

definition hash_output :: "(byte list \<Rightarrow> string) \<Rightarrow> int \<Rightarrow> bool \<Rightarrow> out_file \<Rightarrow> string \<Rightarrow> rstore \<Rightarrow> dict \<times> rstore" where
  "hash_output sha bm retain f name st = (case f of
     Contents bs copied \<Rightarrow>
       let keep = retain \<and> int (length bs) \<le> bm; present = blobs st (sha bs) \<noteq> None in
       ([(''name'', VStr name), (''size'', VInt (int (length bs))), (''sha256'', VStr (sha bs)),
         (''retained'', VBool (keep \<and> (present \<or> copied \<noteq> None)))],
        case copied of Some cs \<Rightarrow> if keep then add_blob (sha bs) cs st else st | None \<Rightarrow> st)
   | _ \<Rightarrow> ([(''name'', VStr name), (''size'', VNone), (''sha256'', VNone), (''retained'', VBool False)], st))"

fun hash_outputs :: "(byte list \<Rightarrow> string) \<Rightarrow> int \<Rightarrow> bool \<Rightarrow> (string \<Rightarrow> out_file) \<Rightarrow> string list \<Rightarrow> rstore \<Rightarrow> pyval list \<times> rstore" where
  "hash_outputs sha bm retain disk [] st = ([], st)"
| "hash_outputs sha bm retain disk (name # names) st =
    (case hash_output sha bm retain (disk name) name st of (entry, st1) \<Rightarrow>
     (case hash_outputs sha bm retain disk names st1 of (entries, st2) \<Rightarrow> (VDict entry # entries, st2)))"

text \<open>The run's own files, at most \<^verbatim>\<open>MAX_OUTPUTS\<close>, then what an older client declared.\<close>

definition MAX_OUTPUTS :: nat where "MAX_OUTPUTS = 1000"

definition run_outputs :: "string list \<Rightarrow> string list" where
  "run_outputs found = take MAX_OUTPUTS (sort found)"

definition all_outputs :: "string list \<Rightarrow> string list \<Rightarrow> string list" where
  "all_outputs found declared = (let l = run_outputs found in l @ filter (\<lambda>n. n \<notin> set l) declared)"

text \<open>What the writes of \<^verbatim>\<open>publish_final\<close> meet: \<open>NoLink b\<close> is an error that is answered by a
  copy, which succeeds or not.\<close>

datatype link_io = Linked | NoLink bool | LinkFails

record publish_io =
  pub_dirs :: bool
  final_written :: bool
  link_out :: link_io
  prune_read :: bool

definition prune_final :: "bool \<Rightarrow> rstore \<Rightarrow> rstore" where
  "prune_final ok st = (if ok then st\<lparr>finals := drop (length (finals st) - FINAL_KEEP) (finals st)\<rparr> else st)"

definition put_final :: "string \<Rightarrow> dict \<Rightarrow> rstore \<Rightarrow> rstore" where
  "put_final rid rc st = st\<lparr>finals := filter (\<lambda>f. fst f \<noteq> rid) (finals st) @ [(rid, rc)]\<rparr>"

definition run_id_of :: "dict \<Rightarrow> string option" where
  "run_id_of rc = (case dict_get rc ''runId'' of VStr s \<Rightarrow> Some s | _ \<Rightarrow> None)"

definition publish_final :: "publish_io \<Rightarrow> rmode \<Rightarrow> dict \<Rightarrow> rstore \<Rightarrow> unit res \<times> rstore" where
  "publish_final io mode rc st = (case run_id_of rc of
     None \<Rightarrow> (Inl KeyError, st)
   | Some rid \<Rightarrow>
    if \<not> pub_dirs io \<or> \<not> final_written io then (Inl OSError, st)
    else let st1 = put_final rid rc st; out = st1\<lparr>outbox := (outbox st1)(rid := Some rc)\<rparr> in
      if mode = Collected \<and> outbox st rid = None
      then (case link_out io of
          Linked \<Rightarrow> (Inr (), prune_final (prune_read io) out)
        | NoLink ok \<Rightarrow> if ok then (Inr (), prune_final (prune_read io) out) else (Inl OSError, st1)
        | LinkFails \<Rightarrow> (Inl OSError, st1))
      else (Inr (), prune_final (prune_read io) st1))"

text \<open>What \<^verbatim>\<open>finalize\<close> meets outside the store.\<close>

record finish_env =
  returncode :: "int option"
  how_ended :: ended
  elapsed :: rat
  log_closed :: bool
  blob_moved :: bool
  found :: "string list"
  disk :: "string \<Rightarrow> out_file"
  finished :: string
  pub :: publish_io

definition unlink_open :: "string \<Rightarrow> rstore \<Rightarrow> rstore" where
  "unlink_open rid st = st\<lparr>open_recs := (open_recs st)(rid := None), cancels := (cancels st)(rid := None),
                          scripts := (scripts st)(rid := None)\<rparr>"

definition final_fields :: "pyval \<Rightarrow> int option \<Rightarrow> string \<Rightarrow> int \<Rightarrow> string option \<Rightarrow> pyval list \<Rightarrow> string \<Rightarrow> int \<Rightarrow> bool \<Rightarrow> pyval \<Rightarrow> dict" where
  "final_fields fin rcode reason tmo cancel_at outs h sz kept script =
    [(''state'', VStr ''final''),
     (''finishedAt'', fin),
     (''exit'', VDict [(''code'', case rcode of None \<Rightarrow> VNone | Some i \<Rightarrow> VInt i), (''reason'', VStr reason),
                      (''timeoutSeconds'', VInt tmo),
                      (''cancelRequestedAt'', case cancel_at of None \<Rightarrow> VNone | Some t \<Rightarrow> if t = [] then VNone else VStr t)]),
     (''outputs'', VList outs),
     (''log'', VDict [(''sha256'', VStr h), (''size'', VInt sz), (''retained'', VBool kept)]),
     (''scriptAsserted'', script)]"

definition keep_log :: "int \<Rightarrow> recorder \<Rightarrow> rstore \<Rightarrow> bool" where
  "keep_log bm r st = (r_mode r = Collected \<and> \<not> r_broken r \<and> int (length (r_hashed r)) \<le> bm \<and> logs st (r_id r) \<noteq> None)"

definition move_log :: "(byte list \<Rightarrow> string) \<Rightarrow> recorder \<Rightarrow> rstore \<Rightarrow> rstore" where
  "move_log sha r st = (add_blob (sha (r_hashed r)) (the (logs st (r_id r))) st)\<lparr>logs := (logs st)(r_id r := None)\<rparr>"

definition kept_store :: "(byte list \<Rightarrow> string) \<Rightarrow> bool \<Rightarrow> recorder \<Rightarrow> rstore \<Rightarrow> rstore" where
  "kept_store sha kept r st = (if kept then move_log sha r st else st\<lparr>logs := (logs st)(r_id r := None)\<rparr>)"

text \<open>
  \<^verbatim>\<open>finalize\<close> up to and including \<^verbatim>\<open>publish_final\<close>: what \<^verbatim>\<open>publish_final\<close> answers (or the
  error before it), the recorder and the store. Only then are the files of \<^verbatim>\<open>open/\<close> removed.
\<close>

definition finalize_publish :: "(byte list \<Rightarrow> string) \<Rightarrow> int \<Rightarrow> finish_env \<Rightarrow> recorder \<Rightarrow> rstore \<Rightarrow> unit res \<times> recorder \<times> rstore" where
  "finalize_publish sha bm e r st =
    (let r1 = r\<lparr>r_finalized := True\<rparr>;
         rcode = normalize_exit_code (returncode e);
         cancel_at = map_option strip (cancels st (r_id r));
         reason = exit_reason (cancel_at \<noteq> None) (how_ended e) (r_timeout r) rcode (elapsed e);
         kept = keep_log bm r st;
         h = sha (r_hashed r) in
     if r_log_open r \<and> \<not> log_closed e then (Inl OSError, r1, st)
     else if kept \<and> blobs st h = None \<and> \<not> blob_moved e then (Inl OSError, r1\<lparr>r_log_open := False\<rparr>, st)
     else case hash_outputs sha bm (r_mode r = Collected) (disk e) (all_outputs (found e) (r_declared r))
                 (kept_store sha kept r st) of
       (outs, st2) \<Rightarrow>
         let rc = update_dict (r_rec r) (final_fields (VStr (finished e)) rcode reason (r_timeout r) cancel_at outs h
                    (int (length (r_hashed r))) kept (read_script_assertions (scripts st2 (r_id r)))) in
         (case publish_final (pub e) (r_mode r) rc st2 of
            (res, st3) \<Rightarrow> (res, r1\<lparr>r_rec := rc, r_log_open := False\<rparr>, st3)))"

definition finalize :: "(byte list \<Rightarrow> string) \<Rightarrow> int \<Rightarrow> finish_env \<Rightarrow> recorder \<times> rstore \<Rightarrow> recorder \<times> rstore" where
  "finalize sha bm e rs = (case rs of (r, st) \<Rightarrow>
     if r_finalized r then (r, st)
     else case finalize_publish sha bm e r st of
       (Inl _, r', st') \<Rightarrow> (r', st')
     | (Inr _, r', st') \<Rightarrow> (r', unlink_open (r_id r) st'))"

section \<open>Box-wide entry points\<close>

text \<open>The marker holds the time of the first request; writing it is taken to succeed.\<close>

definition mark_one :: "string \<Rightarrow> string \<Rightarrow> rstore \<Rightarrow> rstore" where
  "mark_one now target st = (let rid = fs_slug target in
     if open_recs st rid = None \<or> cancels st rid \<noteq> None then st
     else st\<lparr>cancels := (cancels st)(rid := Some now)\<rparr>)"

definition mark_cancelled :: "string \<Rightarrow> pyval option \<Rightarrow> string list \<Rightarrow> rstore \<Rightarrow> rstore" where
  "mark_cancelled now run_id listed st = (case run_id of
     Some v \<Rightarrow> (case v of VStr s \<Rightarrow> if valid_run_id v then mark_one now s st else st | _ \<Rightarrow> st)
   | None \<Rightarrow> fold (mark_one now) (filter (\<lambda>n. \<not> startswith n ''.'') listed) st)"

text \<open>A run found open when the service starts; \<open>pubs\<close> gives the writes of each.\<close>

definition sweep_one :: "(byte list \<Rightarrow> string) \<Rightarrow> rmode \<Rightarrow> (string \<Rightarrow> publish_io) \<Rightarrow> string \<Rightarrow> nat \<times> rstore \<Rightarrow> nat \<times> rstore" where
  "sweep_one sha mode pubs rid ns = (case ns of (n, st) \<Rightarrow>
     (case open_recs st rid of
        None \<Rightarrow> (n, st)
      | Some d \<Rightarrow> (case py_int (py_or (dict_get d ''_effectiveTimeout'') (VInt 0)) of
          Inl _ \<Rightarrow> (n, st)
        | Inr tmo \<Rightarrow>
            let bs = (case logs st rid of None \<Rightarrow> [] | Some b \<Rightarrow> b);
                rc = update_dict (filter (\<lambda>kv. fst kv \<noteq> ''_effectiveTimeout'') d)
                  (final_fields VNone None ''lost'' tmo (map_option strip (cancels st rid)) [] (sha bs) (int (length bs)) False
                     (read_script_assertions (scripts st rid))) in
            (case publish_final (pubs rid) mode rc st of
               (Inl _, st1) \<Rightarrow> (n, st1)
             | (Inr _, st1) \<Rightarrow> (n + 1, (unlink_open rid st1)\<lparr>logs := (logs st1)(rid := None)\<rparr>)))))"

definition sweep_lost :: "(byte list \<Rightarrow> string) \<Rightarrow> rmode \<Rightarrow> (string \<Rightarrow> publish_io) \<Rightarrow> string list \<Rightarrow> rstore \<Rightarrow> nat \<times> rstore" where
  "sweep_lost sha mode pubs names st = fold (sweep_one sha mode pubs) (filter (\<lambda>n. \<not> startswith n ''.'') names) (0, st)"

text \<open>
  One turn of \<^verbatim>\<open>load_final\<close>: the final file, then the open one, then the final file again, each
  read from the store of its moment. \<open>None\<close>: still open, the loop goes on.
\<close>

datatype fetched = Found dict | NotFound | StillOpen

definition load_turn :: "string \<Rightarrow> rstore \<Rightarrow> rstore \<Rightarrow> rstore \<Rightarrow> fetched option" where
  "load_turn rid s1 s2 s3 = (case map_of (finals s1) (fs_slug rid) of
     Some d \<Rightarrow> Some (Found d)
   | None \<Rightarrow> if open_recs s2 (fs_slug rid) = None
       then Some (case map_of (finals s3) (fs_slug rid) of Some d \<Rightarrow> Found d | None \<Rightarrow> NotFound)
       else None)"

fun load_loop :: "string \<Rightarrow> (rstore \<times> rstore \<times> rstore) list \<Rightarrow> fetched" where
  "load_loop rid [] = StillOpen"
| "load_loop rid ((s1, s2, s3) # turns) = (case load_turn rid s1 s2 s3 of
     Some f \<Rightarrow> f | None \<Rightarrow> load_loop rid turns)"

definition load_final :: "pyval \<Rightarrow> (rstore \<times> rstore \<times> rstore) list \<Rightarrow> fetched" where
  "load_final run_id turns = (case run_id of
     VStr s \<Rightarrow> if valid_run_id run_id then load_loop s turns else NotFound | _ \<Rightarrow> NotFound)"

definition effective_timeout :: "int \<Rightarrow> bool \<Rightarrow> int \<Rightarrow> int" where
  "effective_timeout t detach max_timeout = (if t = 0 \<or> detach then t else min t max_timeout)"

end
