(* ===== verification/Job_Ids.thy ===== *)
theory Job_Ids
  imports Job_Files Run_Record Py_Path Py_Repr
begin

text \<open>
  The identity and the environment of a job, the pure parts of \<^verbatim>\<open>box/lager/python/executor.py\<close>: the
  deadline wrapper, the job's id, its directory, and the environment of its process. Shown: an
  id that passes \<^verbatim>\<open>uuid.UUID\<close> names a direct entry of the registry directory; the enforced
  deadline is the recorded one; and a process whose environment carries the id is found by the
  scan that kills it.
\<close>

section \<open>The deadline\<close>

definition MAX_TIMEOUT :: int where "MAX_TIMEOUT = 300"

definition timeout_argv :: "int \<Rightarrow> string list" where
  "timeout_argv seconds = [''/usr/bin/timeout'', ''--kill-after'', float_repr (Fin CLEANUP_GRACE_S), dec_int seconds]"

definition wrap_with_timeout :: "string list \<Rightarrow> int \<Rightarrow> bool \<Rightarrow> string list" where
  "wrap_with_timeout command timeout detach =
    (if timeout = 0 then (if detach then command else timeout_argv 0 @ command)
     else if detach then timeout_argv timeout @ command
     else timeout_argv (min timeout MAX_TIMEOUT) @ command)"

text \<open>The wrapper enforces what the record says, and only a detached job without limit has none.\<close>

lemma wrapped_deadline:
  "wrap_with_timeout command timeout detach =
    (if timeout = 0 \<and> detach then command else timeout_argv (effective_timeout timeout detach MAX_TIMEOUT) @ command)"
  by (simp add: wrap_with_timeout_def effective_timeout_def MAX_TIMEOUT_def)

section \<open>Ids\<close>

text \<open>\<^verbatim>\<open>s.replace(pat, '')\<close> and \<^verbatim>\<open>s.strip(chars)\<close>.\<close>

fun remove_all :: "string \<Rightarrow> string \<Rightarrow> string" where
  "remove_all pat [] = []"
| "remove_all pat (c # s) = (if pat \<noteq> [] \<and> startswith (c # s) pat then remove_all pat (drop (length pat - 1) s)
     else c # remove_all pat s)"

definition strip_chars :: "char list \<Rightarrow> string \<Rightarrow> string" where
  "strip_chars cs s = rev (dropWhile (\<lambda>c. c \<in> set cs) (rev (dropWhile (\<lambda>c. c \<in> set cs) s)))"

text \<open>What \<^verbatim>\<open>int(s, 16)\<close> accepts: white space around, a sign, a prefix, underscores between digits.\<close>

definition is_hex16 :: "char \<Rightarrow> bool" where
  "is_hex16 c = (is_digit c \<or> (97 \<le> code c \<and> code c \<le> 102) \<or> (65 \<le> code c \<and> code c \<le> 70))"

fun hex_run :: "bool \<Rightarrow> string \<Rightarrow> bool" where
  "hex_run after_digit [] = after_digit"
| "hex_run after_digit (c # s) = (if is_hex16 c then hex_run True s else c = CHR ''_'' \<and> after_digit \<and> hex_run False s)"

definition drop_prefix16 :: "string \<Rightarrow> string" where
  "drop_prefix16 s = (if startswith s ''0x'' \<or> startswith s ''0X''
     then (if startswith (drop 2 s) ''_'' then drop 3 s else drop 2 s) else s)"

definition int16_ok :: "string \<Rightarrow> bool" where
  "int16_ok s = (let t = strip s; u = (if take 1 t = ''+'' \<or> take 1 t = ''-'' then drop 1 t else t) in hex_run False (drop_prefix16 u))"

text \<open>\<^verbatim>\<open>uuid.UUID(s)\<close> returns. (Hyphens are gone before the digits are read, so no number is negative.)\<close>

definition uuid_hex :: "string \<Rightarrow> string" where
  "uuid_hex s = remove_all ''-'' (strip_chars ''{}'' (remove_all ''uuid:'' (remove_all ''urn:'' s)))"

definition uuid_ok :: "string \<Rightarrow> bool" where
  "uuid_ok s = (length (uuid_hex s) = 32 \<and> int16_ok (uuid_hex s))"

definition PROCESS_REGISTRY_DIR :: string where "PROCESS_REGISTRY_DIR = ''/tmp/lager_processes''"

definition process_dir_for :: "string \<Rightarrow> string res" where
  "process_dir_for pid = (let path = normpath (path_join PROCESS_REGISTRY_DIR pid) in
     if inside PROCESS_REGISTRY_DIR path then Inr path else Inl ValueError)"

definition PROCESS_ID :: string where "PROCESS_ID = ''LAGER_PROCESS_ID''"

text \<open>The first entry of a client's variables that carries an id, or the one that was minted.\<close>

fun first_id :: "string list \<Rightarrow> string option" where
  "first_id [] = None"
| "first_id (v # vs) = (if startswith v (PROCESS_ID @ ''='') \<and> drop 17 v \<noteq> [] then Some (drop 17 v) else first_id vs)"

definition resolve_lager_process_id :: "string \<Rightarrow> string list \<Rightarrow> string \<times> string list" where
  "resolve_lager_process_id minted env_vars = (case first_id env_vars of
     Some pid \<Rightarrow> (pid, env_vars)
   | None \<Rightarrow> (minted, env_vars @ [PROCESS_ID @ ''='' @ minted]))"

section \<open>The environment\<close>

text \<open>The permission bits of the secrets file after a read; the flag: \<^verbatim>\<open>stat\<close> and \<^verbatim>\<open>chmod\<close> succeed.\<close>

definition secrets_mode :: "bool \<Rightarrow> nat \<Rightarrow> nat" where
  "secrets_mode ok mode = (if ok \<and> mode mod 64 \<noteq> 0 then 6 * 64 else mode)"

definition load_box_secrets :: "json_file \<Rightarrow> pyval" where
  "load_box_secrets f = (case f of JsonDoc v \<Rightarrow> v | _ \<Rightarrow> VDict [])"

definition get_box_id :: "string option \<Rightarrow> string" where
  "get_box_id f = (case f of Some s \<Rightarrow> strip s | None \<Rightarrow> ''unknown'')"

definition local_address :: "string option \<Rightarrow> string option \<Rightarrow> string" where
  "local_address override socket_name =
    (case override of
       Some s \<Rightarrow> if strip s \<noteq> [] then strip s else (case socket_name of Some a \<Rightarrow> a | None \<Rightarrow> ''172.18.0.10'')
     | None \<Rightarrow> (case socket_name of Some a \<Rightarrow> a | None \<Rightarrow> ''172.18.0.10''))"

text \<open>What the environment is built from beside the client's variables.\<close>

record env_inputs =
  pigpio_addr :: string
  this_host :: string
  module_folder :: string
  channel_name :: string
  out_is_err :: bool
  address :: string
  box_id :: string
  secrets :: pyval
  client_ip :: string
  muxes :: pyval
  usb_mapping :: pyval
  dut_commands :: pyval

definition put_var :: "string \<Rightarrow> dict \<Rightarrow> dict" where
  "put_var v d = (case split_at (\<lambda>c. c = CHR ''='') v of
     (k, Some x) \<Rightarrow> dict_set d k (VStr x) | (_, None) \<Rightarrow> d)"

definition client_vars :: "string list \<Rightarrow> dict" where
  "client_vars env_vars = fold put_var env_vars []"

definition SECRET_PREFIX :: string where "SECRET_PREFIX = ''LAGER_SECRET_''"

definition put_truthy :: "string \<Rightarrow> pyval \<Rightarrow> dict \<Rightarrow> dict" where
  "put_truthy k v d = (if truthy v then dict_set d k v else d)"

definition build_env_vars :: "env_inputs \<Rightarrow> string list \<Rightarrow> dict res" where
  "build_env_vars e env_vars =
    (let d1 = update_dict (client_vars env_vars)
           [(''PIGPIO_ADDR'', VStr (pigpio_addr e)), (''LAGER_HOST'', VStr (this_host e)),
            (''LAGER_HOST_MODULE_FOLDER'', VStr (module_folder e)),
            (''LAGER_STDOUT_IS_STDERR'', VStr (if out_is_err e then ''True'' else ''False'')),
            (''LAGER_OUTPUT_CHANNEL'', VStr (channel_name e)), (''PYTHONBREAKPOINT'', VStr ''lager.breakpoint.pause''),
            (''LOCAL_ADDRESS'', VStr (address e))];
         d2 = dict_set d1 ''LAGER_BOX_ID'' (VStr (box_id e)) in
     case secrets e of
       VDict s \<Rightarrow>
         let d3 = fold (\<lambda>(k, v) d. dict_set d (SECRET_PREFIX @ k) v) s d2 in
         Inr (put_truthy ''LAGER_DUT_COMMANDS'' (dut_commands e) (put_truthy ''LAGER_USB_MAPPINGS'' (usb_mapping e)
           (put_truthy ''LAGER_MUXES'' (muxes e) (put_truthy ''LAGER_CLIENT_IP'' (VStr (client_ip e)) d3))))
     | _ \<Rightarrow> Inl AttributeError)"

text \<open>
  The environment block of the process, as \<^verbatim>\<open>/proc\<close> shows it: \<^verbatim>\<open>Popen\<close> refuses a value that is not
  a string, a name with an equals sign and an embedded NUL.
\<close>

abbreviation NUL :: char where "NUL \<equiv> CHR 0x00"

fun environ_block :: "dict \<Rightarrow> string res" where
  "environ_block [] = Inr []"
| "environ_block ((k, v) # d) = (case v of
     VStr s \<Rightarrow> if CHR ''='' \<in> set k \<or> NUL \<in> set k \<or> NUL \<in> set s then Inl ValueError
       else res_bind (environ_block d) (\<lambda>b. Inr (k @ ''='' @ s @ NUL # b))
   | _ \<Rightarrow> Inl TypeError)"

definition child_environ :: "dict \<Rightarrow> env_inputs \<Rightarrow> string list \<Rightarrow> string res" where
  "child_environ os_environ e env_vars =
     res_bind (build_env_vars e env_vars) (\<lambda>d. environ_block (update_dict os_environ d))"

section \<open>Ids that name a directory\<close>

lemma set_remove_all: "set s \<subseteq> set (remove_all pat s) \<union> set pat"
proof (induction pat s rule: remove_all.induct)
  case (2 pat c s)
  show ?case
  proof (cases "pat \<noteq> [] \<and> startswith (c # s) pat")
    case True
    then obtain q where q: "pat = c # q" "take (length q) s = q" by (cases pat) (auto simp: startswith_def)
    then have "set s \<subseteq> set q \<union> set (drop (length q) s)" by (metis append_take_drop_id set_append order_refl)
    moreover have "set (drop (length pat - 1) s) \<subseteq> set (remove_all pat (drop (length pat - 1) s)) \<union> set pat" using 2(1) True by blast
    moreover have "remove_all pat (c # s) = remove_all pat (drop (length pat - 1) s)" using True by simp
    ultimately show ?thesis using q(1) by auto
  qed (use 2(2) in auto)
qed simp

lemma set_dropWhile_stripped: "set s \<subseteq> set (dropWhile P s) \<union> {c. P c}"
  by (induction s) auto

lemma set_strip_chars: "set s \<subseteq> set (strip_chars cs s) \<union> set cs"
proof -
  let ?P = "\<lambda>c. c \<in> set cs"
  have "set s \<subseteq> set (dropWhile ?P s) \<union> set cs" using set_dropWhile_stripped [of s ?P] by simp
  also have "\<dots> \<subseteq> set (strip_chars cs s) \<union> set cs"
    using set_dropWhile_stripped [of "rev (dropWhile ?P s)" ?P] by (auto simp: strip_chars_def)
  finally show ?thesis .
qed

lemma hex_run_chars: "hex_run b s \<Longrightarrow> c \<in> set s \<Longrightarrow> is_hex16 c \<or> c = CHR ''_''"
  by (induction b s rule: hex_run.induct) (auto split: if_splits)

lemma set_strip: "set s \<subseteq> set (strip s) \<union> {c. is_space c}"
proof -
  have "set s \<subseteq> set (dropWhile is_space s) \<union> {c. is_space c}" by (rule set_dropWhile_stripped)
  also have "\<dots> \<subseteq> set (strip s) \<union> {c. is_space c}"
    using set_dropWhile_stripped [of "rev (dropWhile is_space s)" is_space] by (auto simp: strip_def lstrip_def)
  finally show ?thesis .
qed

lemma is_hex16_plain: "\<not> is_hex16 slash" "\<not> is_hex16 (CHR ''.'')" "\<not> is_space slash" "\<not> is_space (CHR ''.'')"
  by code_simp+

lemma int16_no_path:
  assumes "int16_ok s"
  shows "slash \<notin> set s \<and> CHR ''.'' \<notin> set s"
proof -
  let ?t = "strip s"
  let ?u = "if take 1 ?t = ''+'' \<or> take 1 ?t = ''-'' then drop 1 ?t else ?t"
  have run: "hex_run False (drop_prefix16 ?u)" using assms by (simp add: int16_ok_def Let_def)
  have "set ?u \<subseteq> set (drop_prefix16 ?u) \<union> set ''0xX_''"
    by (cases ?u; cases "tl ?u"; cases "tl (tl ?u)") (auto simp: drop_prefix16_def startswith_def split: if_splits)
  moreover have "set ?t \<subseteq> set ?u \<union> set ''+-''" by (cases ?t) auto
  ultimately have "set s \<subseteq> {c. is_hex16 c \<or> is_space c \<or> c \<in> set ''_0xX+-''}"
    using set_strip [of s] hex_run_chars [OF run] by fastforce
  with is_hex16_plain show ?thesis by (auto simp: subset_iff)
qed

lemma uuid_ok_plain: "uuid_ok s \<Longrightarrow> plain s"
proof -
  assume ok: "uuid_ok s"
  let ?a = "remove_all ''urn:'' s" and ?cs = "set ''urn:'' \<union> set ''uuid:'' \<union> set ''{}'' \<union> set ''-''"
  let ?b = "remove_all ''uuid:'' ?a"
  have "set s \<subseteq> set (uuid_hex s) \<union> ?cs"
    using set_remove_all [of s "''urn:''"] set_remove_all [of ?a "''uuid:''"] set_strip_chars [of ?b "''{}''"]
      set_remove_all [of "strip_chars ''{}'' ?b" "''-''"] unfolding uuid_hex_def by blast
  moreover have "slash \<notin> ?cs" "CHR ''.'' \<notin> ?cs" by simp_all
  moreover have "slash \<notin> set (uuid_hex s)" "CHR ''.'' \<notin> set (uuid_hex s)" using ok int16_no_path by (auto simp: uuid_ok_def)
  ultimately have c: "slash \<notin> set s" "CHR ''.'' \<notin> set s" by blast+
  moreover have "s \<noteq> []" using ok by (auto simp: uuid_ok_def uuid_hex_def strip_chars_def)
  ultimately show "plain s" by (auto simp: plain_def)
qed

lemma registry_dir: "PROCESS_REGISTRY_DIR = rooted_at [''tmp'', ''lager_processes'']"
  by (simp add: PROCESS_REGISTRY_DIR_def rooted_at_def)

lemma process_dir_plain: "plain s \<Longrightarrow> normpath (path_join PROCESS_REGISTRY_DIR s) = PROCESS_REGISTRY_DIR @ slash # s"
  unfolding registry_dir by (simp add: path_join_plain normpath_plain plain_def) (simp add: rooted_at_def)

lemma process_dir_for_plain: "plain s \<Longrightarrow> process_dir_for s = Inr (PROCESS_REGISTRY_DIR @ slash # s)"
  by (simp add: process_dir_for_def process_dir_plain inside_iff)

section \<open>Finding a job by its environment\<close>

lemma PROCESS_ID_facts: "CHR ''='' \<notin> set PROCESS_ID" "length PROCESS_ID = 16" "SECRET_PREFIX @ k \<noteq> PROCESS_ID"
  by (simp_all add: PROCESS_ID_def SECRET_PREFIX_def)

lemma put_var_get:
  "map_of (put_var v d) k = (if startswith v (k @ ''='') \<and> CHR ''='' \<notin> set k then Some (VStr (drop (Suc (length k)) v)) else map_of d k)"
proof (cases "CHR ''='' \<in> set v")
  case True
  then obtain a b where v: "v = a @ CHR ''='' # b" "CHR ''='' \<notin> set a" by (meson split_list_first)
  have tw: "takeWhile (\<lambda>c. c \<noteq> CHR ''='') (x @ CHR ''='' # y) = x" if "CHR ''='' \<notin> set x" for x y
    using that by (induction x) auto
  from v(2) have "dropWhile (\<lambda>c. c \<noteq> CHR ''='') (a @ CHR ''='' # b) = CHR ''='' # b" by (induction a) auto
  with tw [OF v(2)] have "put_var v d = dict_set d a (VStr b)" by (simp add: put_var_def split_at_def v(1))
  moreover have "startswith v (k @ ''='') \<and> CHR ''='' \<notin> set k \<longleftrightarrow> k = a"
  proof
    assume k: "startswith v (k @ ''='') \<and> CHR ''='' \<notin> set k"
    then have "v = k @ CHR ''='' # drop (Suc (length k)) v"
      by (metis append.assoc append_Cons append_Nil append_take_drop_id length_append_singleton startswith_def)
    with k v tw show "k = a" by metis
  qed (use v in \<open>simp add: startswith_def\<close>)
  ultimately show ?thesis by (auto simp: v(1) map_of_dict_set)
next
  case False
  then have "dropWhile (\<lambda>c. c \<noteq> CHR ''='') v = []" by (auto simp: dropWhile_eq_Nil_conv)
  then have "put_var v d = d" by (simp add: put_var_def split_at_def del: dropWhile_eq_Nil_conv)
  moreover have "\<not> startswith v (k @ ''='')" using False by (auto simp: startswith_def) (metis in_set_takeD in_set_conv_decomp)
  ultimately show ?thesis by simp
qed

abbreviation id_entries :: "string list \<Rightarrow> string list" where
  "id_entries \<equiv> filter (\<lambda>v. startswith v (PROCESS_ID @ ''=''))"

lemma client_vars_id:
  "map_of (fold put_var vs d) PROCESS_ID = (if id_entries vs = [] then map_of d PROCESS_ID else Some (VStr (drop 17 (last (id_entries vs)))))"
proof (induction vs arbitrary: d)
  case (Cons v vs)
  then show ?case using put_var_get [of v d PROCESS_ID] by (simp add: PROCESS_ID_facts)
qed simp

lemma first_id_entries: "first_id vs = first_id (id_entries vs)"
  by (induction vs) auto

lemma first_id_single: "first_id vs = Some pid \<Longrightarrow> length (id_entries vs) \<le> 1 \<Longrightarrow> \<exists>v. id_entries vs = [v] \<and> drop 17 v = pid"
  by (subst (asm) first_id_entries) (cases "id_entries vs", auto split: if_splits)

lemma first_id_append: "first_id (vs @ ws) = (case first_id vs of None \<Rightarrow> first_id ws | Some p \<Rightarrow> Some p)"
  by (induction vs) auto

lemma minted_entry: "startswith (PROCESS_ID @ ''='' @ m) (PROCESS_ID @ ''='')" "drop 17 (PROCESS_ID @ ''='' @ m) = m"
  by (simp_all add: startswith_def PROCESS_ID_def)

text \<open>The id is the one a second resolution finds, and, with at most one entry, the one the variables set.\<close>

lemma resolve_again:
  assumes "resolve_lager_process_id m vs = (pid, vs')" "m \<noteq> []"
  shows "first_id (vs' @ ws) = Some pid" "resolve_lager_process_id m' (vs' @ ws) = (pid, vs' @ ws)"
proof -
  show "first_id (vs' @ ws) = Some pid"
    using assms minted_entry by (auto simp: resolve_lager_process_id_def first_id_append split: option.splits)
  then show "resolve_lager_process_id m' (vs' @ ws) = (pid, vs' @ ws)" by (simp add: resolve_lager_process_id_def)
qed

lemma resolve_sets_id:
  assumes "resolve_lager_process_id m vs = (pid, vs')" "length (id_entries vs) \<le> 1" "id_entries ws = []"
  shows "map_of (client_vars (vs' @ ws)) PROCESS_ID = Some (VStr pid)"
proof (cases "first_id vs")
  case None
  then have "pid = m" "vs' = vs @ [PROCESS_ID @ ''='' @ m]" using assms(1) by (auto simp: resolve_lager_process_id_def)
  moreover have "startswith (PROCESS_ID @ CHR ''='' # m) (PROCESS_ID @ ''='')" using minted_entry(1) by simp
  ultimately have "id_entries (vs' @ ws) = id_entries vs @ [PROCESS_ID @ ''='' @ m]" using assms(3) by simp
  then have "map_of (fold put_var (vs' @ ws) []) PROCESS_ID = Some (VStr (drop 17 (PROCESS_ID @ ''='' @ m)))"
    unfolding client_vars_id by (simp del: filter_append)
  with minted_entry(2) [of m] \<open>pid = m\<close> show ?thesis by (simp only: client_vars_def)
next
  case (Some p)
  then have "p = pid" "vs' = vs" using assms(1) by (simp_all add: resolve_lager_process_id_def)
  with first_id_single [OF Some assms(2)] assms(3) show ?thesis by (auto simp: client_vars_def client_vars_id)
qed

lemma secrets_keep_id: "map_of (fold (\<lambda>(k, v) d. dict_set d (SECRET_PREFIX @ k) v) s d) PROCESS_ID = map_of d PROCESS_ID"
  by (induction s arbitrary: d) (auto simp: PROCESS_ID_facts(3) dest: PROCESS_ID_facts(3) [THEN notE, OF sym])

lemma build_env_id:
  assumes "build_env_vars e vs = Inr d"
  shows "map_of d PROCESS_ID = map_of (client_vars vs) PROCESS_ID"
proof -
  have put: "map_of (put_truthy k x d) PROCESS_ID = map_of d PROCESS_ID" if "k \<noteq> PROCESS_ID" for k x d
    using that by (simp add: put_truthy_def)
  have other: "''LAGER_DUT_COMMANDS'' \<noteq> PROCESS_ID" "''LAGER_USB_MAPPINGS'' \<noteq> PROCESS_ID" "''LAGER_MUXES'' \<noteq> PROCESS_ID"
    "''LAGER_CLIENT_IP'' \<noteq> PROCESS_ID" "''LAGER_BOX_ID'' \<noteq> PROCESS_ID" "''PIGPIO_ADDR'' \<noteq> PROCESS_ID" "''LAGER_HOST'' \<noteq> PROCESS_ID"
    "''LAGER_HOST_MODULE_FOLDER'' \<noteq> PROCESS_ID" "''LAGER_STDOUT_IS_STDERR'' \<noteq> PROCESS_ID" "''LAGER_OUTPUT_CHANNEL'' \<noteq> PROCESS_ID"
    "''PYTHONBREAKPOINT'' \<noteq> PROCESS_ID" "''LOCAL_ADDRESS'' \<noteq> PROCESS_ID" by (simp_all add: PROCESS_ID_def)
  obtain s where s: "secrets e = VDict s" using assms by (auto simp: build_env_vars_def Let_def split: pyval.splits)
  let ?kvs = "[(''PIGPIO_ADDR'', VStr (pigpio_addr e)), (''LAGER_HOST'', VStr (this_host e)),
      (''LAGER_HOST_MODULE_FOLDER'', VStr (module_folder e)), (''LAGER_STDOUT_IS_STDERR'', VStr (if out_is_err e then ''True'' else ''False'')),
      (''LAGER_OUTPUT_CHANNEL'', VStr (channel_name e)), (''PYTHONBREAKPOINT'', VStr ''lager.breakpoint.pause''), (''LOCAL_ADDRESS'', VStr (address e))]"
  have "map_of (rev ?kvs) PROCESS_ID = None" using other by (simp add: eq_commute [of PROCESS_ID])
  then have base: "map_of (update_dict (client_vars vs) ?kvs) PROCESS_ID = map_of (client_vars vs) PROCESS_ID"
    unfolding status_update map_add_def by simp
  have d: "d = put_truthy ''LAGER_DUT_COMMANDS'' (dut_commands e) (put_truthy ''LAGER_USB_MAPPINGS'' (usb_mapping e)
           (put_truthy ''LAGER_MUXES'' (muxes e) (put_truthy ''LAGER_CLIENT_IP'' (VStr (client_ip e))
      (fold (\<lambda>(k, v) d. dict_set d (SECRET_PREFIX @ k) v) s (dict_set (update_dict (client_vars vs) ?kvs) ''LAGER_BOX_ID'' (VStr (box_id e)))))))"
    using assms s by (simp add: build_env_vars_def Let_def)
  show ?thesis using other base by (simp only: d put secrets_keep_id map_of_dict_set fun_upd_apply eq_commute [of PROCESS_ID] if_False simp_thms)
qed

lemma contains_prefix: "contains_bytes p (p @ s)"
proof (cases "p @ s")
  case (Cons c t)
  then have "take (length p) (c # t) = p" by (metis append_eq_conv_conj)
  with Cons show ?thesis by simp
qed simp

lemma contains_append: "contains_bytes p s \<Longrightarrow> contains_bytes p (t @ s)"
  by (induction t) auto

lemma environ_block_contains: "environ_block d = Inr b \<Longrightarrow> map_of d k = Some (VStr s) \<Longrightarrow> contains_bytes (k @ ''='' @ s) b"
proof (induction d arbitrary: b rule: environ_block.induct)
  case (2 k' v d)
  show ?case
  proof (cases "k' = k")
    case True
    with 2(2,3) obtain b' where "b = (k @ ''='' @ s) @ NUL # b'" by (auto simp: res_bind_eq_Inr split: pyval.splits if_splits)
    then show ?thesis using contains_prefix by blast
  next
    case False
    from 2(2) obtain s' b' where v: "v = VStr s'" "\<not> (CHR ''='' \<in> set k' \<or> NUL \<in> set k' \<or> NUL \<in> set s')"
      and b: "environ_block d = Inr b'" "b = (k' @ ''='' @ s' @ [NUL]) @ b'"
      by (auto simp: res_bind_eq_Inr split: pyval.splits if_splits)
    with 2(1) [OF v b(1)] 2(3) False show ?thesis unfolding b(2) by (intro contains_append) simp
  qed
qed simp

lemma map_of_rev_distinct: "distinct (map fst d) \<Longrightarrow> map_of (rev d) = map_of d"
  by (intro map_of_inject_set [THEN iffD2]) (simp_all add: rev_map [symmetric])

lemma update_dict_keeps: "map_of d k = Some v \<Longrightarrow> distinct (map fst d) \<Longrightarrow> map_of (update_dict os d) k = Some v"
  by (simp add: map_add_def map_of_rev_distinct)

end
