(* ===== verification/Run_Record_Runs.thy ===== *)
theory Run_Record_Runs
  imports Run_Record_Laws
begin

text \<open>
  The record store as a system: the recorders in memory, the store on disk, and four ghosts,
  the number each accepted run was given, the records a consumer has taken, the blobs it has
  deleted, and the hashes of outputs that changed between being hashed and being copied. The
  step relation has one rule per operation, with a crash at any point and one between the
  publication of a record and the removal of its open file.
\<close>

section \<open>The system\<close>

record rsys =
  store :: rstore
  runs :: "string \<Rightarrow> recorder option"
  nums :: "string \<Rightarrow> int option"
  taken :: "(string \<times> dict) set"
  drift :: "string set"
  gone :: "string set"

abbreviation no_runs :: "string \<Rightarrow> recorder option" where
  "no_runs \<equiv> \<lambda>_. None"

definition finish_drift :: "(byte list \<Rightarrow> string) \<Rightarrow> finish_env \<Rightarrow> recorder \<Rightarrow> string set" where
  "finish_drift sha fe r = drifts sha (disk fe) (all_outputs (found fe) (r_declared r))"

text \<open>
  Identifiers are fresh: clients mint a UUID per run and so does the box. The policy does not
  change. The consumer deletes a blob only when no record in the outbox names it, and not while
  a run is being finished (the reference asks it to wait an hour).
\<close>

inductive rstep :: "(byte list \<Rightarrow> string) \<Rightarrow> int \<Rightarrow> rmode \<Rightarrow> rsys \<Rightarrow> rsys \<Rightarrow> bool" for sha bm mode where
  Accept: "begin_run e v (store s) = (Recording r, st') \<Longrightarrow> read_mode (policy e) = mode \<Longrightarrow>
    nums s (r_id r) = None \<Longrightarrow> sequence_of (store s) = Inr n \<Longrightarrow>
    rstep sha bm mode s (s\<lparr>store := st', runs := (runs s)(r_id r := Some r), nums := (nums s)(r_id r := Some (n + 1))\<rparr>)"
| Deny: "begin_run e v (store s) = (x, st') \<Longrightarrow> x \<in> {Refused, Unrecorded} \<Longrightarrow> read_mode (policy e) = mode \<Longrightarrow>
    nums s (choose_id e v (store s)) = None \<Longrightarrow> rstep sha bm mode s (s\<lparr>store := st'\<rparr>)"
| Frame: "runs s rid = Some r \<Longrightarrow> log_frame bm ok fileno chunk (r, store s) = (r', st') \<Longrightarrow>
    rstep sha bm mode s (s\<lparr>store := st', runs := (runs s)(rid := Some r')\<rparr>)"
| End: "runs s rid = Some r \<Longrightarrow> finalize sha bm fe (r, store s) = (r', st') \<Longrightarrow>
    rstep sha bm mode s (s\<lparr>store := st', runs := (runs s)(rid := Some r'), drift := drift s \<union> finish_drift sha fe r\<rparr>)"
| Crash: "runs s rid = Some r \<Longrightarrow> \<not> r_finalized r \<Longrightarrow> finalize_publish sha bm fe r (store s) = (res, r', st') \<Longrightarrow>
    rstep sha bm mode s (s\<lparr>store := st', runs := no_runs, drift := drift s \<union> finish_drift sha fe r\<rparr>)"
| Down: "rstep sha bm mode s (s\<lparr>runs := no_runs\<rparr>)"
| Sweep: "runs s = no_runs \<Longrightarrow> sweep_lost sha mode pubs names (store s) = (k, st') \<Longrightarrow>
    rstep sha bm mode s (s\<lparr>store := st'\<rparr>)"
| Cancel: "rstep sha bm mode s (s\<lparr>store := mark_cancelled now target listed (store s)\<rparr>)"
| Script: "rstep sha bm mode s (s\<lparr>store := (store s)\<lparr>scripts := sc\<rparr>\<rparr>)"
| Collect: "outbox (store s) rid = Some d \<Longrightarrow>
    rstep sha bm mode s (s\<lparr>store := (store s)\<lparr>outbox := (outbox (store s))(rid := None)\<rparr>, taken := insert (rid, d) (taken s)\<rparr>)"
| Discard: "(\<forall>rid d. outbox (store s) rid = Some d \<longrightarrow> h \<notin> set (retained_hashes d)) \<Longrightarrow>
    rstep sha bm mode s (s\<lparr>store := (store s)\<lparr>blobs := (blobs (store s))(h := None)\<rparr>, gone := insert h (gone s)\<rparr>)"

definition rsys0 :: rsys where
  "rsys0 = \<lparr>store = \<lparr>seq_file = None, uid_file = None, open_recs = \<lambda>_. None, cancels = \<lambda>_. None, logs = \<lambda>_. None,
      scripts = \<lambda>_. None, finals = [], outbox = \<lambda>_. None, blobs = \<lambda>_. None\<rparr>,
    runs = no_runs, nums = \<lambda>_. None, taken = {}, drift = {}, gone = {}\<rparr>"

inductive reachable :: "(byte list \<Rightarrow> string) \<Rightarrow> int \<Rightarrow> rmode \<Rightarrow> rsys \<Rightarrow> bool" for sha bm mode where
  Init: "reachable sha bm mode rsys0"
| Step: "reachable sha bm mode s \<Longrightarrow> rstep sha bm mode s t \<Longrightarrow> reachable sha bm mode t"

text \<open>The records of a run that exist somewhere, and those that have been published.\<close>

definition published :: "rsys \<Rightarrow> string \<Rightarrow> dict \<Rightarrow> bool" where
  "published s rid d = ((rid, d) \<in> set (finals (store s)) \<or> outbox (store s) rid = Some d \<or> (rid, d) \<in> taken s)"

definition num_ok :: "rsys \<Rightarrow> string \<Rightarrow> dict \<Rightarrow> bool" where
  "num_ok s rid d = (\<exists>n. nums s rid = Some n \<and> numbered rid n d)"

definition recs_ok :: "rsys \<Rightarrow> bool" where
  "recs_ok s = ((\<forall>rid d. open_recs (store s) rid = Some d \<longrightarrow> num_ok s rid d) \<and> (\<forall>rid d. published s rid d \<longrightarrow> num_ok s rid d))"

definition nums_ok :: "rsys \<Rightarrow> bool" where
  "nums_ok s = (inj_on (nums s) (dom (nums s)) \<and> (\<forall>i k rid. sequence_of (store s) = Inr i \<longrightarrow> nums s rid = Some k \<longrightarrow> k \<le> i))"

definition log_ok :: "rmode \<Rightarrow> recorder \<Rightarrow> rstore \<Rightarrow> bool" where
  "log_ok mode r st = (mode = Collected \<and> \<not> r_finalized r \<and> \<not> r_broken r \<longrightarrow>
     logs st (r_id r) = (if r_log_open r then Some (r_hashed r) else None))"

definition runs_ok :: "rmode \<Rightarrow> rsys \<Rightarrow> bool" where
  "runs_ok mode s = (\<forall>rid r. runs s rid = Some r \<longrightarrow> r_id r = rid \<and> r_mode r = mode \<and> num_ok s rid (r_rec r) \<and>
     (\<not> r_finalized r \<longrightarrow> open_recs (store s) rid \<noteq> None) \<and> log_ok mode r (store s))"

definition kept_ok :: "rmode \<Rightarrow> rsys \<Rightarrow> bool" where
  "kept_ok mode s = (mode = Collected \<longrightarrow> (\<forall>rid. nums s rid \<noteq> None \<longrightarrow>
     open_recs (store s) rid \<noteq> None \<or> outbox (store s) rid \<noteq> None \<or> (\<exists>d. (rid, d) \<in> taken s)))"

definition bytes_ok :: "(byte list \<Rightarrow> string) \<Rightarrow> rsys \<Rightarrow> bool" where
  "bytes_ok sha s = (blobs_ok sha (drift s) (store s) \<and>
     (\<forall>rid d. outbox (store s) rid = Some d \<longrightarrow> set (retained_hashes d) \<subseteq> dom (blobs (store s))) \<and>
     (\<forall>rid d. published s rid d \<longrightarrow> set (retained_hashes d) \<subseteq> dom (blobs (store s)) \<union> gone s))"

definition rinv :: "(byte list \<Rightarrow> string) \<Rightarrow> rmode \<Rightarrow> rsys \<Rightarrow> bool" where
  "rinv sha mode s = (recs_ok s \<and> nums_ok s \<and> runs_ok mode s \<and> kept_ok mode s \<and> bytes_ok sha s)"

lemmas rinv_defs = rinv_def recs_ok_def nums_ok_def runs_ok_def kept_ok_def bytes_ok_def

section \<open>Finishing a record\<close>

lemma kept_store_frame:
  "open_recs (kept_store sha kept r st) = open_recs st" "cancels (kept_store sha kept r st) = cancels st"
  "scripts (kept_store sha kept r st) = scripts st" "finals (kept_store sha kept r st) = finals st"
  "outbox (kept_store sha kept r st) = outbox st" "seq_file (kept_store sha kept r st) = seq_file st"
  "rid \<noteq> r_id r \<Longrightarrow> logs (kept_store sha kept r st) rid = logs st rid"
  by (simp_all add: kept_store_def move_log_def add_blob_frame)

lemma kept_store_blobs:
  assumes "kept \<Longrightarrow> logs st (r_id r) = Some (r_hashed r)"
  shows "dom (blobs st) \<subseteq> dom (blobs (kept_store sha kept r st))"
    "blobs_ok sha dr st \<Longrightarrow> blobs_ok sha dr (kept_store sha kept r st)"
    "kept \<Longrightarrow> blobs (kept_store sha kept r st) (sha (r_hashed r)) \<noteq> None"
  using assms by (auto simp: kept_store_def move_log_def add_blob_def blobs_ok_def)

text \<open>
  The outcome of \<^verbatim>\<open>finalize\<close> before the open files go: either the store has not changed, or a
  record with the run's number was handed to \<^verbatim>\<open>publish_final\<close>, all of whose retained bytes are
  in place.
\<close>

lemma finalize_publish_cases:
  assumes "finalize_publish sha bm e r st = (res, r', st')" "numbered rid n (r_rec r)" "r_id r = rid"
    and "log_ok (r_mode r) r st" "\<not> r_finalized r"
  obtains (Failed) "st' = st" "res \<noteq> Inr ()" "r_rec r' = r_rec r" "r_finalized r'" "r_id r' = rid" "r_mode r' = r_mode r"
  | (Published) st2 io rc where "publish_final io (r_mode r) rc st2 = (res, st')" "numbered rid n rc"
      "r_rec r' = rc" "r_finalized r'" "r_id r' = rid" "r_mode r' = r_mode r"
      "open_recs st2 = open_recs st" "finals st2 = finals st" "outbox st2 = outbox st" "seq_file st2 = seq_file st"
      "\<And>x. x \<noteq> rid \<Longrightarrow> logs st2 x = logs st x"
      "dom (blobs st) \<subseteq> dom (blobs st2)" "\<And>dr. blobs_ok sha dr st \<Longrightarrow> finish_drift sha e r \<subseteq> dr \<Longrightarrow> blobs_ok sha dr st2"
      "set (retained_hashes rc) \<subseteq> dom (blobs st2)"
proof -
  let ?kept = "keep_log bm r st" and ?h = "sha (r_hashed r)"
  obtain outs st2 where ho: "hash_outputs sha bm (r_mode r = Collected) (disk e) (all_outputs (found e) (r_declared r))
      (kept_store sha ?kept r st) = (outs, st2)" by fastforce
  have kept: "?kept \<Longrightarrow> logs st (r_id r) = Some (r_hashed r)"
    using assms(4,5) by (auto simp: keep_log_def log_ok_def split: if_splits)
  note b = hash_outputs_blobs [OF ho] and f = hash_outputs_frame [OF ho] and k = kept_store_blobs [where sha = sha, OF kept]
  show thesis
  proof (cases "r_log_open r \<and> \<not> log_closed e \<or> ?kept \<and> blobs st ?h = None \<and> \<not> blob_moved e")
    case True
    with assms(1,3) Failed show ?thesis
      by (auto simp: finalize_publish_def Let_def split: if_splits)
  next
    case False
    then obtain tmo rcode reason cancel_at script where
      p: "publish_final (pub e) (r_mode r) (r_rec r') st2 = (res, st')"
      and rc: "r_rec r' = update_dict (r_rec r) (final_fields (VStr (finished e)) rcode reason tmo cancel_at outs ?h
          (int (length (r_hashed r))) ?kept script)"
      and r': "r_finalized r'" "r_id r' = rid" "r_mode r' = r_mode r"
      using assms(1,3) ho by (auto simp: finalize_publish_def Let_def split: if_splits prod.splits)
    have "set (retained_hashes (r_rec r')) = (if ?kept then {?h} else {}) \<union> set (concat (map retained_hash outs))"
      by (simp add: rc retained_hashes_def final_written_fields retained_hash_def [of "VDict _"])
    moreover have "?kept \<Longrightarrow> ?h \<in> dom (blobs st2)" using b k(3) by (simp add: domIff subset_iff)
    ultimately have "set (retained_hashes (r_rec r')) \<subseteq> dom (blobs st2)" using b by (cases ?kept) auto
    moreover have "numbered rid n (r_rec r')" using assms(2) by (simp add: rc)
    moreover have "logs st2 x = logs st x" if "x \<noteq> rid" for x using f that assms(3) by (simp add: kept_store_frame)
    ultimately show ?thesis
    proof (intro Published [OF p])
      show "dom (blobs st) \<subseteq> dom (blobs st2)" using b k(1) by blast
      show "blobs_ok sha dr st2" if "blobs_ok sha dr st" "finish_drift sha e r \<subseteq> dr" for dr
        using b k(2) that unfolding finish_drift_def by blast
    qed (use r' f in \<open>simp_all add: kept_store_frame\<close>)
  qed
qed

section \<open>The invariant\<close>

lemma num_ok_cong: "nums t = nums s \<Longrightarrow> num_ok t = num_ok s"
  by (simp add: num_ok_def fun_eq_iff)

lemma recs_okI:
  "(\<And>x d. open_recs (store t) x = Some d \<Longrightarrow> num_ok t x d) \<Longrightarrow> (\<And>x d. published t x d \<Longrightarrow> num_ok t x d) \<Longrightarrow> recs_ok t"
  unfolding recs_ok_def by blast

lemma nums_ok_cong: "nums t = nums s \<Longrightarrow> sequence_of (store t) = sequence_of (store s) \<Longrightarrow> nums_ok t = nums_ok s"
  by (simp only: nums_ok_def)

lemma log_ok_simps [simp]:
  "log_ok mode r (st\<lparr>cancels := c\<rparr>) = log_ok mode r st" "log_ok mode r (st\<lparr>scripts := sc\<rparr>) = log_ok mode r st"
  "log_ok mode r (st\<lparr>outbox := out\<rparr>) = log_ok mode r st" "log_ok mode r (st\<lparr>blobs := bl\<rparr>) = log_ok mode r st"
  by (simp_all add: log_ok_def)

lemma rinv_0: "rinv sha mode rsys0"
  by (simp add: rinv_defs rsys0_def published_def blobs_ok_def)

lemma blobs_ok_cong: "blobs st' = blobs st \<Longrightarrow> blobs_ok sha dr st' = blobs_ok sha dr st"
  by (simp add: blobs_ok_def)

lemma blobs_ok_mono: "blobs_ok sha dr st \<Longrightarrow> dr \<subseteq> dr' \<Longrightarrow> blobs_ok sha dr' st"
  unfolding blobs_ok_def by blast

text \<open>A run reaches its record: what a store may look like after the record was handed on.\<close>

definition finishes :: "(byte list \<Rightarrow> string) \<Rightarrow> string set \<Rightarrow> rmode \<Rightarrow> string \<Rightarrow> int \<Rightarrow> dict \<Rightarrow> rstore \<Rightarrow> rstore \<Rightarrow> bool" where
  "finishes sha D mode rid n rc st st' = (seq_file st' = seq_file st \<and> numbered rid n rc \<and>
     set (finals st') \<subseteq> insert (rid, rc) (set (finals st)) \<and>
     (outbox st' = outbox st \<or> outbox st rid = None \<and> outbox st' = (outbox st)(rid := Some rc)) \<and>
     (open_recs st' = open_recs st \<or> open_recs st' = (open_recs st)(rid := None) \<and> (mode = Collected \<longrightarrow> outbox st' rid \<noteq> None)) \<and>
     (\<forall>x. x \<noteq> rid \<longrightarrow> logs st' x = logs st x) \<and> dom (blobs st) \<subseteq> dom (blobs st') \<and>
     (\<forall>dr. blobs_ok sha dr st \<and> D \<subseteq> dr \<longrightarrow> blobs_ok sha dr st') \<and> set (retained_hashes rc) \<subseteq> dom (blobs st'))"

definition run_over :: "rmode \<Rightarrow> string \<Rightarrow> int \<Rightarrow> rsys \<Rightarrow> (string \<Rightarrow> recorder option) \<Rightarrow> bool" where
  "run_over mode rid n s R = ((\<forall>x. x \<noteq> rid \<longrightarrow> R x = runs s x \<or> R x = None) \<and>
     (case R rid of None \<Rightarrow> True
      | Some r \<Rightarrow> r_finalized r \<and> r_id r = rid \<and> r_mode r = mode \<and> numbered rid n (r_rec r)))"

lemma published_finishes:
  assumes "finishes sha D mode rid n rc (store s) st'" "published (s\<lparr>store := st', runs := R, drift := E\<rparr>) x d"
  shows "published s x d \<or> x = rid \<and> d = rc"
  using assms by (auto simp: published_def finishes_def split: if_splits)

lemma rinv_finishes:
  assumes inv: "rinv sha mode s" and n: "nums s rid = Some n"
    and fin: "finishes sha D mode rid n rc (store s) st'" and over: "run_over mode rid n s R"
  shows "rinv sha mode (s\<lparr>store := st', runs := R, drift := drift s \<union> D\<rparr>)"
proof -
  let ?t = "s\<lparr>store := st', runs := R, drift := drift s \<union> D\<rparr>"
  have nt: "num_ok ?t = num_ok s" by (simp add: num_ok_def fun_eq_iff)
  have rc: "num_ok s rid rc" using fin n by (auto simp: finishes_def num_ok_def)
  have opened: "open_recs st' x = Some d \<Longrightarrow> open_recs (store s) x = Some d" for x d
    using fin by (auto simp: finishes_def split: if_splits)
  have recs: "recs_ok ?t"
  proof (rule recs_okI, unfold nt)
    fix x d
    show "num_ok s x d" if "open_recs (store ?t) x = Some d"
      using opened [of x d] that inv by (simp add: rinv_def recs_ok_def)
    show "num_ok s x d" if "published ?t x d"
      using published_finishes [OF fin that] inv rc by (auto simp: rinv_def recs_ok_def)
  qed
  have "seq_file st' = seq_file (store s)" using fin unfolding finishes_def by blast
  then have "sequence_of st' = sequence_of (store s)" by (rule sequence_of_cong)
  then have "nums_ok ?t = nums_ok s" by (intro nums_ok_cong) simp_all
  then have ns: "nums_ok ?t" using inv unfolding rinv_def by blast
  have "r_id r = x \<and> r_mode r = mode \<and> num_ok s x (r_rec r) \<and> (\<not> r_finalized r \<longrightarrow> open_recs st' x \<noteq> None) \<and> log_ok mode r st'"
    if r: "R x = Some r" for x r
  proof (cases "x = rid")
    case True
    with over r n show ?thesis by (auto simp: run_over_def num_ok_def log_ok_def)
  next
    case False
    with over r have "runs s x = Some r" by (auto simp: run_over_def)
    with inv have "r_id r = x \<and> r_mode r = mode \<and> num_ok s x (r_rec r) \<and>
        (\<not> r_finalized r \<longrightarrow> open_recs (store s) x \<noteq> None) \<and> log_ok mode r (store s)"
      by (simp add: rinv_def runs_ok_def)
    with False fin show ?thesis by (auto simp: finishes_def log_ok_def)
  qed
  then have runs: "runs_ok mode ?t" unfolding runs_ok_def nt by simp
  have kept: "kept_ok mode ?t"
  proof -
    have "open_recs st' x \<noteq> None \<or> outbox st' x \<noteq> None \<or> (\<exists>d. (x, d) \<in> taken s)"
      if "mode = Collected" "nums s x \<noteq> None" for x
    proof -
      from inv that have "open_recs (store s) x \<noteq> None \<or> outbox (store s) x \<noteq> None \<or> (\<exists>d. (x, d) \<in> taken s)"
        by (simp add: rinv_def kept_ok_def)
      with fin that(1) show ?thesis by (cases "x = rid") (auto simp: finishes_def)
    qed
    then show ?thesis by (simp add: kept_ok_def)
  qed
  have "set (retained_hashes d) \<subseteq> dom (blobs st') \<union> gone s" if "published ?t x d" for x d
    using published_finishes [OF fin that] fin inv by (auto simp: finishes_def rinv_def bytes_ok_def; blast)
  moreover have "set (retained_hashes d) \<subseteq> dom (blobs st')" if "outbox st' x = Some d" for x d
  proof -
    from that fin consider "outbox (store s) x = Some d" | "d = rc" by (auto simp: finishes_def split: if_splits)
    then show ?thesis using fin inv by cases (auto simp: finishes_def rinv_def bytes_ok_def; blast)+
  qed
  moreover have "blobs_ok sha (drift s \<union> D) st'"
    using fin inv blobs_ok_mono [of sha "drift s" "store s" "drift s \<union> D"] by (simp add: finishes_def rinv_def bytes_ok_def)
  ultimately have "bytes_ok sha ?t" by (simp add: bytes_ok_def)
  with recs ns runs kept show ?thesis by (simp add: rinv_def)
qed

lemma unlink_open_fields [simp]:
  "open_recs (unlink_open rid st) = (open_recs st)(rid := None)" "logs (unlink_open rid st) = logs st"
  "finals (unlink_open rid st) = finals st" "outbox (unlink_open rid st) = outbox st"
  "seq_file (unlink_open rid st) = seq_file st" "blobs (unlink_open rid st) = blobs st"
  by (simp_all add: unlink_open_def)

lemma finishes_unlink:
  assumes "finishes sha D mode rid n rc st st'" "mode = Collected \<longrightarrow> outbox st' rid \<noteq> None" "open_recs st' = open_recs st"
  shows "finishes sha D mode rid n rc st (unlink_open rid st')"
    and "finishes sha D mode rid n rc st ((unlink_open rid st')\<lparr>logs := (logs st')(rid := None)\<rparr>)"
  using assms unfolding finishes_def by (simp_all add: blobs_ok_cong [where st' = "unlink_open _ _"] blobs_ok_cong [where st' = "_\<lparr>logs := _\<rparr>"])

text \<open>Publication, with and without the removal of the open files.\<close>

lemma publish_finishes:
  assumes p: "publish_final io mode rc st2 = (res, st')" and rc: "numbered rid n rc"
    and st2: "open_recs st2 = open_recs st" "finals st2 = finals st" "outbox st2 = outbox st" "seq_file st2 = seq_file st"
      "\<And>x. x \<noteq> rid \<Longrightarrow> logs st2 x = logs st x" "dom (blobs st) \<subseteq> dom (blobs st2)" "\<And>dr. blobs_ok sha dr st \<Longrightarrow> D \<subseteq> dr \<Longrightarrow> blobs_ok sha dr st2"
      "set (retained_hashes rc) \<subseteq> dom (blobs st2)"
  shows "finishes sha D mode rid n rc st st'"
    and "res = Inr () \<Longrightarrow> finishes sha D mode rid n rc st (unlink_open rid st')"
    and "res = Inr () \<Longrightarrow> finishes sha D mode rid n rc st ((unlink_open rid st')\<lparr>logs := (logs st')(rid := None)\<rparr>)"
proof -
  note f = publish_final_frame [OF p] and q = publish_final_records [OF p numbered_run_id [OF rc]]
  have b: "blobs_ok sha dr st' = blobs_ok sha dr st2" for dr using f by (simp add: blobs_ok_def)
  show fin: "finishes sha D mode rid n rc st st'"
    unfolding finishes_def b using f q(1,2) rc st2(1-4,6-8) by (simp add: st2(5))
  show "finishes sha D mode rid n rc st (unlink_open rid st')"
    "finishes sha D mode rid n rc st ((unlink_open rid st')\<lparr>logs := (logs st')(rid := None)\<rparr>)" if "res = Inr ()"
    using finishes_unlink [OF fin] that q(3) f st2(1) by simp_all
qed

section \<open>Every step keeps it\<close>

lemma runs_okD:
  assumes "rinv sha mode s" "runs s rid = Some r"
  obtains n where "r_id r = rid" "r_mode r = mode" "nums s rid = Some n" "numbered rid n (r_rec r)"
    "\<not> r_finalized r \<Longrightarrow> open_recs (store s) rid \<noteq> None" "log_ok mode r (store s)"
  using assms unfolding rinv_def runs_ok_def num_ok_def by blast

lemma finishes_same: "\<exists>rc. finishes sha D mode rid n rc st st"
proof -
  let ?rc = "[(''runId'', VStr rid), (''boxSequence'', VInt n)]"
  have "numbered rid n ?rc" "retained_hashes ?rc = []"
    by (simp_all add: numbered_def retained_hashes_def retained_hash_def)
  then show ?thesis by (intro exI [of _ ?rc]) (auto simp: finishes_def)
qed

lemma finalize_publish_finishes:
  assumes "finalize_publish sha bm fe r st = (res, r', st')" "numbered rid n (r_rec r)" "r_id r = rid" "r_mode r = mode"
    "log_ok mode r st" "\<not> r_finalized r"
  shows "(\<exists>rc. finishes sha (finish_drift sha fe r) mode rid n rc st st') \<and>
    (res = Inr () \<longrightarrow> (\<exists>rc. finishes sha (finish_drift sha fe r) mode rid n rc st (unlink_open rid st'))) \<and>
    r_finalized r' \<and> r_id r' = rid \<and> r_mode r' = mode \<and> numbered rid n (r_rec r')"
proof (rule finalize_publish_cases [OF assms(1-3)])
  show "log_ok (r_mode r) r st" "\<not> r_finalized r" using assms(4-6) by simp_all
next
  assume "st' = st" "res \<noteq> Inr ()" "r_rec r' = r_rec r" "r_finalized r'" "r_id r' = rid" "r_mode r' = r_mode r"
  with assms(2,4) finishes_same show ?thesis by simp
next
  fix st2 io rc
  assume p: "publish_final io (r_mode r) rc st2 = (res, st')" and rc: "numbered rid n rc"
    and r': "r_rec r' = rc" "r_finalized r'" "r_id r' = rid" "r_mode r' = r_mode r"
    and st2: "open_recs st2 = open_recs st" "finals st2 = finals st" "outbox st2 = outbox st" "seq_file st2 = seq_file st"
      "\<And>x. x \<noteq> rid \<Longrightarrow> logs st2 x = logs st x" "dom (blobs st) \<subseteq> dom (blobs st2)"
      "\<And>dr. blobs_ok sha dr st \<Longrightarrow> finish_drift sha fe r \<subseteq> dr \<Longrightarrow> blobs_ok sha dr st2"
      "set (retained_hashes rc) \<subseteq> dom (blobs st2)"
  note p' = p [unfolded assms(4)]
  show ?thesis using publish_finishes(1,2) [OF p' rc st2] r' rc assms(4) by blast
qed

lemma end_step:
  assumes inv: "rinv sha mode s" and r: "runs s rid = Some r" "\<not> r_finalized r"
    and p: "finalize_publish sha bm fe r (store s) = (res, r', st')"
  shows "rinv sha mode (s\<lparr>store := st', runs := no_runs, drift := drift s \<union> finish_drift sha fe r\<rparr>)"
    and "rinv sha mode (s\<lparr>store := (if res = Inr () then unlink_open rid st' else st'), runs := (runs s)(rid := Some r'), drift := drift s \<union> finish_drift sha fe r\<rparr>)"
proof -
  obtain n where n: "r_id r = rid" "r_mode r = mode" "nums s rid = Some n" "numbered rid n (r_rec r)" "log_ok mode r (store s)"
    using runs_okD [OF inv r(1)] by metis
  note f = finalize_publish_finishes [OF p n(4,1,2,5) r(2)]
  have "run_over mode rid n s no_runs" by (simp add: run_over_def)
  then show "rinv sha mode (s\<lparr>store := st', runs := no_runs, drift := drift s \<union> finish_drift sha fe r\<rparr>)" using rinv_finishes [OF inv n(3)] f by blast
  have "run_over mode rid n s ((runs s)(rid := Some r'))" using f by (simp add: run_over_def)
  with f rinv_finishes [OF inv n(3)] show
    "rinv sha mode (s\<lparr>store := (if res = Inr () then unlink_open rid st' else st'), runs := (runs s)(rid := Some r'), drift := drift s \<union> finish_drift sha fe r\<rparr>)"
    by (cases "res = Inr ()") auto
qed

lemma rinv_drift:
  assumes "rinv sha mode s"
  shows "rinv sha mode (s\<lparr>drift := drift s \<union> D\<rparr>)"
proof -
  have "published (s\<lparr>drift := drift s \<union> D\<rparr>) = published s" "num_ok (s\<lparr>drift := drift s \<union> D\<rparr>) = num_ok s"
    by (simp_all add: published_def num_ok_def fun_eq_iff)
  with assms blobs_ok_mono [of sha "drift s" "store s" "drift s \<union> D"] show ?thesis by (simp add: rinv_defs)
qed

lemma finalize_step:
  assumes inv: "rinv sha mode s" and r: "runs s rid = Some r" and f: "finalize sha bm fe (r, store s) = (r', st')"
  shows "rinv sha mode (s\<lparr>store := st', runs := (runs s)(rid := Some r'), drift := drift s \<union> finish_drift sha fe r\<rparr>)"
proof (cases "r_finalized r")
  case True
  with f r have "s\<lparr>store := st', runs := (runs s)(rid := Some r'), drift := drift s \<union> finish_drift sha fe r\<rparr> =
      s\<lparr>drift := drift s \<union> finish_drift sha fe r\<rparr>" by (simp add: finalize_def fun_upd_idem)
  with rinv_drift [OF inv] show ?thesis by simp
next
  case False
  obtain res r1 st1 where p: "finalize_publish sha bm fe r (store s) = (res, r1, st1)" by (metis surj_pair)
  have "r_id r = rid" using runs_okD [OF inv r] by metis
  with f False p have "r' = r1" "st' = (if res = Inr () then unlink_open rid st1 else st1)"
    by (auto simp: finalize_def split: sum.splits)
  with end_step(2) [OF inv r False p] show ?thesis by simp
qed

text \<open>Sweeping one run after another.\<close>

lemma sweep_one_step:
  assumes inv: "rinv sha mode s" and q: "runs s = no_runs" and w: "sweep_one sha mode pubs rid (k, store s) = (k', st')"
  shows "rinv sha mode (s\<lparr>store := st'\<rparr>)"
proof (cases "\<exists>d tmo. open_recs (store s) rid = Some d \<and> py_int (py_or (dict_get d ''_effectiveTimeout'') (VInt 0)) = Inr tmo")
  case False
  with w have "st' = store s" by (auto simp: sweep_one_def split: option.splits sum.splits)
  with inv show ?thesis by simp
next
  case True
  then obtain d tmo where d: "open_recs (store s) rid = Some d" "py_int (py_or (dict_get d ''_effectiveTimeout'') (VInt 0)) = Inr tmo"
    by blast
  with inv obtain n where n: "nums s rid = Some n" "numbered rid n d" unfolding rinv_def recs_ok_def num_ok_def by blast
  obtain rc fin h sz script res st1 where
    rc: "rc = update_dict (filter (\<lambda>kv. fst kv \<noteq> ''_effectiveTimeout'') d)
        (final_fields VNone None ''lost'' tmo fin [] h sz False script)"
    and p: "publish_final (pubs rid) mode rc (store s) = (res, st1)"
    and st': "st' = (if res = Inr () then (unlink_open rid st1)\<lparr>logs := (logs st1)(rid := None)\<rparr> else st1)"
    using w d by (auto simp: sweep_one_def Let_def split: prod.splits sum.splits)
  have num: "numbered rid n rc" using n(2) by (simp add: rc numbered_def dict_get_filter)
  have "retained_hashes rc = []" by (simp add: rc retained_hashes_def final_written_fields retained_hash_def)
  then have "finishes sha {} mode rid n rc (store s) st'"
    using publish_finishes(1,3) [OF p num, of "store s" sha "{}"] by (auto simp: st')
  moreover have "run_over mode rid n s no_runs" by (simp add: run_over_def)
  ultimately have "rinv sha mode (s\<lparr>store := st', runs := no_runs, drift := drift s \<union> {}\<rparr>)"
    by (rule rinv_finishes [OF inv n(1)])
  moreover have "s\<lparr>store := st', runs := no_runs, drift := drift s \<union> {}\<rparr> = s\<lparr>store := st'\<rparr>" using q by (cases s) simp
  ultimately show ?thesis by simp
qed

lemma sweep_fold_step:
  "rinv sha mode s \<Longrightarrow> runs s = no_runs \<Longrightarrow> fold (sweep_one sha mode pubs) names (k, store s) = (k', st') \<Longrightarrow>
   rinv sha mode (s\<lparr>store := st'\<rparr>)"
proof (induction names arbitrary: k s)
  case (Cons name names)
  obtain k1 st1 where w: "sweep_one sha mode pubs name (k, store s) = (k1, st1)" by fastforce
  with Cons.prems Cons.IH [OF sweep_one_step [OF Cons.prems(1,2) w], of k1] show ?case by simp
qed auto

text \<open>Frames touch one log.\<close>

lemma log_frame_cases:
  assumes "log_frame bm ok fileno chunk (r, st) = (r', st')"
  shows "r_id r' = r_id r \<and> r_mode r' = r_mode r \<and> r_rec r' = r_rec r \<and> r_finalized r' = r_finalized r \<and>
    (\<exists>l. st' = st\<lparr>logs := (logs st)(r_id r := l)\<rparr>) \<and> (log_ok mode r st \<longrightarrow> log_ok mode r' st')"
proof -
  have same: "\<exists>l. st = st\<lparr>logs := (logs st)(r_id r := l)\<rparr>" by (rule exI [of _ "logs st (r_id r)"]) simp
  show ?thesis
  proof (cases "r_broken r \<or> r_finalized r \<or> chunk = [] \<or> fileno \<notin> {1, 2, 3}")
    case True
    with assms same show ?thesis by (simp add: log_frame_def)
  next
    case False
    let ?fr = "emit fileno chunk"
    from False consider "\<not> r_log_open r"
      | "r_log_open r" "int (length (r_hashed r @ ?fr)) \<le> bm" "ok"
      | "r_log_open r" "int (length (r_hashed r @ ?fr)) \<le> bm" "\<not> ok"
      | "r_log_open r" "\<not> int (length (r_hashed r @ ?fr)) \<le> bm" by blast
    then show ?thesis
    proof cases
      case 1
      with False assms have "r' = r\<lparr>r_hashed := r_hashed r @ ?fr\<rparr>" "st' = st" by (auto simp: log_frame_def Let_def)
      with 1 same show ?thesis by (simp add: log_ok_def)
    next
      case 2
      with False assms have "r' = r\<lparr>r_hashed := r_hashed r @ ?fr\<rparr>"
        "st' = st\<lparr>logs := (logs st)(r_id r := map_option (\<lambda>b. b @ ?fr) (logs st (r_id r)))\<rparr>" by (auto simp: log_frame_def Let_def)
      with 2 show ?thesis by (auto simp: log_ok_def)
    next
      case 3
      with False assms have "r' = r\<lparr>r_hashed := r_hashed r @ ?fr, r_broken := True\<rparr>" "st' = st" by (auto simp: log_frame_def Let_def)
      with same show ?thesis by (simp add: log_ok_def)
    next
      case 4
      with False assms have "r' = r\<lparr>r_hashed := r_hashed r @ ?fr, r_log_open := False, r_broken := \<not> ok\<rparr>"
        "st' = st\<lparr>logs := (logs st)(r_id r := None)\<rparr>" by (auto simp: log_frame_def Let_def)
      then show ?thesis by (auto simp: log_ok_def)
    qed
  qed
qed

text \<open>A step that keeps the records and the counter, and the logs of the runs in memory.\<close>

lemma rinv_frame:
  assumes inv: "rinv sha mode s" and t: "nums t = nums s" "taken t = taken s" "drift t = drift s" "gone t = gone s"
    and st: "open_recs (store t) = open_recs (store s)" "finals (store t) = finals (store s)"
      "outbox (store t) = outbox (store s)" "blobs (store t) = blobs (store s)"
    and seq: "seq_file (store t) = seq_file (store s) \<or>
      (\<exists>i. sequence_of (store s) = Inr i \<and> seq_file (store t) = Some (dec_int (i + 1)))"
    and runs: "\<And>rid r. runs t rid = Some r \<Longrightarrow> r_id r = rid \<and> r_mode r = mode \<and> num_ok s rid (r_rec r) \<and>
      (\<not> r_finalized r \<longrightarrow> open_recs (store s) rid \<noteq> None) \<and> log_ok mode r (store t)"
  shows "rinv sha mode t"
proof -
  have pub: "published t = published s" using t st by (simp add: published_def fun_eq_iff)
  have num: "num_ok t = num_ok s" using t by (simp add: num_ok_def fun_eq_iff)
  have "recs_ok t" using inv by (simp add: rinv_def recs_ok_def pub num st)
  moreover have "k \<le> j" if "sequence_of (store t) = Inr j" "nums t x = Some k" for j k x
    using seq
  proof
    assume "seq_file (store t) = seq_file (store s)"
    with that t inv sequence_of_cong show ?thesis by (metis rinv_def nums_ok_def)
  next
    assume "\<exists>i. sequence_of (store s) = Inr i \<and> seq_file (store t) = Some (dec_int (i + 1))"
    then obtain i where i: "sequence_of (store s) = Inr i" "seq_file (store t) = Some (dec_int (i + 1))" by blast
    with that(1) sequence_of_written have "j = i + 1" by blast
    moreover have "k \<le> i" using inv i(1) that(2) t by (metis rinv_def nums_ok_def)
    ultimately show ?thesis by simp
  qed
  then have "nums_ok t" using inv unfolding rinv_def nums_ok_def t by blast
  moreover have "runs_ok mode t" using runs unfolding runs_ok_def num st by blast
  moreover have "kept_ok mode t" using inv by (simp add: rinv_def kept_ok_def t st)
  moreover have "bytes_ok sha t" using inv by (simp add: rinv_def bytes_ok_def pub t st blobs_ok_cong [OF st(4)])
  ultimately show ?thesis by (simp add: rinv_def)
qed

lemma rinv_runs:
  assumes "rinv sha mode s" "runs s rid = Some r"
  shows "r_id r = rid \<and> r_mode r = mode \<and> num_ok s rid (r_rec r) \<and>
      (\<not> r_finalized r \<longrightarrow> open_recs (store s) rid \<noteq> None) \<and> log_ok mode r (store s)"
  using assms unfolding rinv_def runs_ok_def by blast

lemma frame_step:
  assumes inv: "rinv sha mode s" and r: "runs s rid = Some r" and f: "log_frame bm ok fileno chunk (r, store s) = (r', st')"
  shows "rinv sha mode (s\<lparr>store := st', runs := (runs s)(rid := Some r')\<rparr>)"
proof (rule rinv_frame [OF inv])
  note c = log_frame_cases [OF f] and old = rinv_runs [OF inv r]
  from c old obtain l where st': "st' = (store s)\<lparr>logs := (logs (store s))(rid := l)\<rparr>" by auto
  fix x q assume "runs (s\<lparr>store := st', runs := (runs s)(rid := Some r')\<rparr>) x = Some q"
  then consider "x = rid" "q = r'" | "x \<noteq> rid" "runs s x = Some q" by (auto split: if_splits)
  then show "r_id q = x \<and> r_mode q = mode \<and> num_ok s x (r_rec q) \<and>
      (\<not> r_finalized q \<longrightarrow> open_recs (store s) x \<noteq> None) \<and> log_ok mode q (store (s\<lparr>store := st', runs := (runs s)(rid := Some r')\<rparr>))"
  proof cases
    case 1
    with c old show ?thesis by simp
  next
    case 2
    with rinv_runs [OF inv 2(2)] show ?thesis by (auto simp: log_ok_def st')
  qed
qed (use log_frame_cases [OF f, of mode] in auto)

lemma deny_step:
  assumes inv: "rinv sha mode s" and b: "begin_run e v (store s) = (x, st')" "x \<in> {Refused, Unrecorded}"
    and new: "nums s (choose_id e v (store s)) = None"
  shows "rinv sha mode (s\<lparr>store := st'\<rparr>)"
proof -
  obtain m y where "try_begin e m v (store s) = (Inl y, st')"
    using b by (auto simp: begin_run_def Let_def split: prod.splits sum.splits)
  note f = try_begin_frame [OF this]
  show ?thesis
  proof (rule rinv_frame [OF inv])
    fix z q assume "runs (s\<lparr>store := st'\<rparr>) z = Some q"
    then have old: "runs s z = Some q" by simp
    from rinv_runs [OF inv old] new have "z \<noteq> choose_id e v (store s)" by (auto simp: num_ok_def)
    with f have "logs st' z = logs (store s) z" by auto
    with rinv_runs [OF inv old] show "r_id q = z \<and> r_mode q = mode \<and> num_ok s z (r_rec q) \<and>
        (\<not> r_finalized q \<longrightarrow> open_recs (store s) z \<noteq> None) \<and> log_ok mode q (store (s\<lparr>store := st'\<rparr>))"
      by (auto simp: log_ok_def)
  qed (use f in simp_all)
qed

lemma cancel_frame:
  "\<exists>c. mark_cancelled now target listed st = st\<lparr>cancels := c\<rparr>"
proof -
  have one: "\<exists>c'. mark_one now x (st\<lparr>cancels := c\<rparr>) = st\<lparr>cancels := c'\<rparr>" for x st c
    by (auto simp: mark_one_def Let_def)
  have "\<exists>c'. fold (mark_one now) xs (st\<lparr>cancels := c\<rparr>) = st\<lparr>cancels := c'\<rparr>" for xs c
  proof (induction xs arbitrary: c)
    case (Cons x xs)
    obtain c1 where "mark_one now x (st\<lparr>cancels := c\<rparr>) = st\<lparr>cancels := c1\<rparr>" using one by blast
    with Cons show ?case by simp
  qed auto
  from this [of _ "cancels st"] one [where st = st and c = "cancels st"] show ?thesis
    by (auto simp: mark_cancelled_def split: option.splits pyval.splits intro: exI [of _ "cancels st"])
qed


text \<open>A new run, under a number above every other.\<close>

lemma accept_step:
  assumes inv: "rinv sha mode s" and b: "begin_run e v (store s) = (Recording r, st')" "read_mode (policy e) = mode"
    and new: "nums s (r_id r) = None" and i: "sequence_of (store s) = Inr i"
  shows "rinv sha mode (s\<lparr>store := st', runs := (runs s)(r_id r := Some r), nums := (nums s)(r_id r := Some (i + 1))\<rparr>)"
proof -
  let ?rid = "r_id r"
  let ?t = "s\<lparr>store := st', runs := (runs s)(?rid := Some r), nums := (nums s)(?rid := Some (i + 1))\<rparr>"
  from b have "try_begin e mode v (store s) = (Inr r, st')" by (simp add: begin_run_cases)
  then obtain n where "sequence_of (store s) = Inr (n - 1)" and seq': "seq_file st' = Some (dec_int n)"
    and r: "numbered ?rid n (r_rec r)" "r_mode r = mode" "r_hashed r = []" "\<not> r_finalized r" "\<not> r_broken r" "r_log_open r = (mode = Collected)"
    and st': "open_recs st' = (open_recs (store s))(?rid := Some (dict_set (r_rec r) ''_effectiveTimeout'' (VInt (timeout_seconds e))))"
      "logs st' = (if mode = Collected then (logs (store s))(?rid := Some []) else logs (store s))"
      "finals st' = finals (store s)" "outbox st' = outbox (store s)" "blobs st' = blobs (store s)"
    by (rule try_begin_Inr)
  with i have n: "n = i + 1" by simp
  have pub: "published ?t = published s" by (simp add: published_def fun_eq_iff st')
  have keep: "num_ok s x d \<Longrightarrow> num_ok ?t x d" for x d using new by (auto simp: num_ok_def)
  have mine: "num_ok ?t ?rid (r_rec r)" "num_ok ?t ?rid (dict_set (r_rec r) ''_effectiveTimeout'' w)" for w
    using r(1) by (simp_all add: num_ok_def n numbered_def)
  have le: "k \<le> i" if "nums s x = Some k" for k x using inv i that unfolding rinv_def nums_ok_def by blast
  have "recs_ok ?t"
  proof (rule recs_okI)
    fix x d
    show "num_ok ?t x d" if "open_recs (store ?t) x = Some d"
    proof (cases "x = ?rid")
      case True
      with that have "d = dict_set (r_rec r) ''_effectiveTimeout'' (VInt (timeout_seconds e))" by (simp add: st')
      with True mine(2) show ?thesis by simp
    next
      case False
      with that have "open_recs (store s) x = Some d" by (simp add: st')
      with inv keep show ?thesis unfolding rinv_def recs_ok_def by blast
    qed
    show "num_ok ?t x d" if "published ?t x d" using that inv keep unfolding rinv_def recs_ok_def pub by blast
  qed
  moreover have "nums_ok ?t"
  proof -
    have "inj_on (nums s) (dom (nums s))" using inv unfolding rinv_def nums_ok_def by blast
    then have "inj_on ((nums s)(?rid := Some (i + 1))) (dom ((nums s)(?rid := Some (i + 1))))"
      using le new by (fastforce simp: inj_on_def dom_def)
    moreover have "k \<le> j" if "sequence_of st' = Inr j" "((nums s)(?rid := Some (i + 1))) x = Some k" for j k x
      using that sequence_of_written [OF seq', of j] le [of x k] n by (auto split: if_splits)
    ultimately show ?thesis unfolding nums_ok_def by simp
  qed
  moreover have "runs_ok mode ?t"
    unfolding runs_ok_def
  proof (intro allI impI)
    fix x q assume q: "runs ?t x = Some q"
    show "r_id q = x \<and> r_mode q = mode \<and> num_ok ?t x (r_rec q) \<and> (\<not> r_finalized q \<longrightarrow> open_recs (store ?t) x \<noteq> None) \<and> log_ok mode q (store ?t)"
    proof (cases "x = ?rid")
      case True
      with q r mine(1) show ?thesis by (simp add: st' log_ok_def)
    next
      case False
      with q have "runs s x = Some q" by simp
      from rinv_runs [OF inv this] keep False show ?thesis by (auto simp: st' log_ok_def)
    qed
  qed
  moreover have "kept_ok mode ?t" using inv by (auto simp: rinv_def kept_ok_def st')
  moreover have "bytes_ok sha ?t" using inv blobs_ok_cong [OF st'(5)] by (simp add: rinv_def bytes_ok_def pub st')
  ultimately show ?thesis by (simp add: rinv_def)
qed

lemma collect_step:
  assumes inv: "rinv sha mode s" and d: "outbox (store s) rid = Some d"
  shows "rinv sha mode (s\<lparr>store := (store s)\<lparr>outbox := (outbox (store s))(rid := None)\<rparr>, taken := insert (rid, d) (taken s)\<rparr>)"
proof -
  let ?t = "s\<lparr>store := (store s)\<lparr>outbox := (outbox (store s))(rid := None)\<rparr>, taken := insert (rid, d) (taken s)\<rparr>"
  have pub: "published ?t x c \<Longrightarrow> published s x c" for x c using d by (auto simp: published_def split: if_splits)
  have num: "num_ok ?t = num_ok s" by (simp add: num_ok_def fun_eq_iff)
  have "recs_ok ?t"
    by (rule recs_okI, unfold num) (use inv pub in \<open>simp_all add: rinv_def recs_ok_def\<close>)
  moreover have "nums_ok ?t"
    using inv nums_ok_cong [of ?t s] by (simp add: rinv_def sequence_of_def)
  moreover have "runs_ok mode ?t" using inv unfolding rinv_def runs_ok_def num by simp
  moreover have "kept_ok mode ?t" using inv by (auto simp: rinv_def kept_ok_def)
  moreover have "bytes_ok sha ?t"
    unfolding bytes_ok_def
  proof (intro conjI allI impI)
    have "blobs_ok sha (drift s) (store s)" using inv unfolding rinv_def bytes_ok_def by blast
    then show "blobs_ok sha (drift ?t) (store ?t)" by (simp add: blobs_ok_def)
    show "set (retained_hashes c) \<subseteq> dom (blobs (store ?t)) \<union> gone ?t" if "published ?t x c" for x c
      using pub [OF that] inv unfolding rinv_def bytes_ok_def by simp
    show "set (retained_hashes c) \<subseteq> dom (blobs (store ?t))" if "outbox (store ?t) x = Some c" for x c
      using that inv unfolding rinv_def bytes_ok_def by (simp split: if_splits)
  qed
  ultimately show ?thesis by (simp add: rinv_def)
qed

lemma discard_step:
  assumes inv: "rinv sha mode s" and h: "\<forall>rid d. outbox (store s) rid = Some d \<longrightarrow> h \<notin> set (retained_hashes d)"
  shows "rinv sha mode (s\<lparr>store := (store s)\<lparr>blobs := (blobs (store s))(h := None)\<rparr>, gone := insert h (gone s)\<rparr>)"
proof -
  let ?t = "s\<lparr>store := (store s)\<lparr>blobs := (blobs (store s))(h := None)\<rparr>, gone := insert h (gone s)\<rparr>"
  have same: "published ?t = published s" "num_ok ?t = num_ok s" by (simp_all add: published_def num_ok_def fun_eq_iff)
  have "recs_ok ?t" using inv unfolding rinv_def recs_ok_def same by simp
  moreover have "nums_ok ?t" using inv nums_ok_cong [of ?t s] by (simp add: rinv_def sequence_of_def)
  moreover have "runs_ok mode ?t" using inv unfolding rinv_def runs_ok_def same by simp
  moreover have "kept_ok mode ?t" using inv by (simp add: rinv_def kept_ok_def)
  moreover have "bytes_ok sha ?t"
    unfolding bytes_ok_def same
  proof (intro conjI allI impI)
    show "blobs_ok sha (drift ?t) (store ?t)" using inv by (auto simp: rinv_def bytes_ok_def blobs_ok_def split: if_splits)
    show "set (retained_hashes d) \<subseteq> dom (blobs (store ?t))" if "outbox (store ?t) x = Some d" for x d
      using that h inv by (fastforce simp: rinv_def bytes_ok_def)
    show "set (retained_hashes d) \<subseteq> dom (blobs (store ?t)) \<union> gone ?t" if "published s x d" for x d
      using that inv unfolding rinv_def bytes_ok_def by fastforce
  qed
  ultimately show ?thesis by (simp add: rinv_def)
qed

lemma rinv_step: "rstep sha bm mode s t \<Longrightarrow> rinv sha mode s \<Longrightarrow> rinv sha mode t"
proof (induction rule: rstep.induct)
  case (Accept e v s r st' n)
  then show ?case using accept_step by blast
next
  case (Deny e v s x st')
  then show ?case using deny_step by blast
next
  case (Frame s rid r ok fileno chunk r' st')
  then show ?case using frame_step by blast
next
  case (End s rid r fe r' st')
  then show ?case using finalize_step by blast
next
  case (Crash s rid r fe res r' st')
  then show ?case using end_step(1) by blast
next
  case (Down s)
  then show ?case by (rule rinv_frame) simp_all
next
  case (Sweep s pubs names k st')
  then show ?case using sweep_fold_step unfolding sweep_lost_def by blast
next
  case (Cancel s now target listed)
  obtain c where "mark_cancelled now target listed (store s) = (store s)\<lparr>cancels := c\<rparr>" using cancel_frame by blast
  with Cancel rinv_runs [OF Cancel] show ?case by (intro rinv_frame [OF Cancel]) simp_all
next
  case (Script s sc)
  from rinv_runs [OF Script] show ?case by (intro rinv_frame [OF Script]) simp_all
next
  case (Collect s rid d)
  then show ?case using collect_step by blast
next
  case (Discard s h)
  then show ?case using discard_step by blast
qed

lemma rinv_reachable: "reachable sha bm mode s \<Longrightarrow> rinv sha mode s"
  by (induction rule: reachable.induct) (auto intro: rinv_0 rinv_step)

end
