(* ===== verification/Run_Record_Facts.thy ===== *)
theory Run_Record_Facts
  imports Run_Record_Runs
begin

text \<open>
  What a run record may hold and how it is read: the bounds and shapes of what clients and
  scripts assert, the agreement of the box's log with the bytes a client hashes, a fetch that
  meets a record being finished, and a sweep that meets one that was already published.
\<close>

section \<open>Asserted values\<close>

lemma length_dict_set: "length (dict_set d k v) = (if dict_has d k then length d else Suc (length d))"
  by (induction d) (auto simp: dict_set_def dict_has_def)

lemma set_dict_set: "kv \<in> set (dict_set d k v) \<Longrightarrow> kv = (k, v) \<or> kv \<in> set d"
  by (induction d) (auto simp: dict_set_def split: if_splits)

definition label_ok :: "string \<times> pyval \<Rightarrow> bool" where
  "label_ok kv = (re_match key_re (fst kv) \<and> (case snd kv of VStr s \<Rightarrow> length s \<le> MAX_VALUE_LEN | _ \<Rightarrow> False))"

lemma labels_loop_ok:
  "length ls \<le> MAX_LABELS \<Longrightarrow> list_all label_ok ls \<Longrightarrow> distinct (map fst ls) \<Longrightarrow>
   length (labels_loop ls d) \<le> MAX_LABELS \<and> list_all label_ok (labels_loop ls d) \<and> distinct (map fst (labels_loop ls d))"
proof (induction ls d rule: labels_loop.induct)
  case (2 ls k v rest)
  show ?case
  proof (cases "MAX_LABELS \<le> length ls \<or> \<not> label_ok (k, v)")
    case True
    with 2 show ?thesis by (auto simp: label_ok_def)
  next
    case False
    with 2(4) have "list_all label_ok (dict_set ls k v)" by (auto simp: list_all_iff dest: set_dict_set)
    moreover have "re_match key_re k \<and> (case v of VStr s \<Rightarrow> length s \<le> MAX_VALUE_LEN | _ \<Rightarrow> False)"
      using False by (simp add: label_ok_def)
    ultimately show ?thesis using False 2 by (simp add: length_dict_set)
  qed
qed simp

definition assertion_ok :: "string \<times> pyval \<Rightarrow> bool" where
  "assertion_ok kv = (re_match key_re (fst kv) \<and> fst (scalar (snd kv)))"

lemma scalar_again: "scalar v = (True, w) \<Longrightarrow> fst (scalar w)"
  by (auto simp: scalar_def split: pyval.splits)

lemma script_item_ok: "script_item line = Some kv \<Longrightarrow> assertion_ok kv"
  by (auto simp: script_item_def assertion_ok_def dest: scalar_again split: option.splits pyval.splits bool.splits if_splits prod.splits)

lemma assertions_loop_ok:
  "length vs \<le> MAX_SCRIPT_KEYS \<Longrightarrow> list_all assertion_ok vs \<Longrightarrow> distinct (map fst vs) \<Longrightarrow>
   length (assertions_loop vs ls) \<le> MAX_SCRIPT_KEYS \<and> list_all assertion_ok (assertions_loop vs ls) \<and>
   distinct (map fst (assertions_loop vs ls))"
proof (induction ls arbitrary: vs)
  case (Cons line rest)
  show ?case
  proof (cases "\<exists>k w. script_item line = Some (k, w) \<and> (dict_has vs k \<or> length vs < MAX_SCRIPT_KEYS)")
    case True
    then obtain k w where k: "script_item line = Some (k, w)" "dict_has vs k \<or> length vs < MAX_SCRIPT_KEYS" by blast
    with Cons.prems have "list_all assertion_ok (dict_set vs k w)" "length (dict_set vs k w) \<le> MAX_SCRIPT_KEYS"
      using script_item_ok [OF k(1)] by (auto simp: list_all_iff length_dict_set dest!: set_dict_set)
    with k Cons show ?thesis by auto
  next
    case False
    with Cons show ?thesis by (auto split: option.splits)
  qed
qed simp

definition file_entry_ok :: "pyval \<Rightarrow> bool" where
  "file_entry_ok v = (case v of VDict d \<Rightarrow>
     (\<exists>p h. d = [(''path'', VStr p), (''repoPath'', dict_get d ''repoPath''), (''size'', dict_get d ''size''), (''sha256'', VStr h)] \<and>
        opt_str (dict_get d ''repoPath'') = dict_get d ''repoPath'' \<and> as_size (dict_get d ''size'') \<noteq> None \<and> re_match sha256_re h)
   | _ \<Rightarrow> False)"

lemma file_of_ok: "file_of v = Some (p, d) \<Longrightarrow> file_entry_ok (VDict d)"
  by (auto simp: file_of_def file_entry_ok_def opt_str_def split: pyval.splits option.splits if_splits)

lemma map_filter_mem: "y \<in> set (List.map_filter f xs) \<Longrightarrow> \<exists>x. f x = Some y"
  by (auto simp: List.map_filter_def)

lemma parse_client_field_ok:
  assumes "parse_client_field raw = Inr c"
  shows "sorted (passenv c) \<and> distinct (passenv c) \<and> list_all (re_match env_name_re) (passenv c) \<and>
    length (downloads c) \<le> 256 \<and>
    (case asserted c of None \<Rightarrow> True | Some a \<Rightarrow>
       (\<exists>files labels. dict_get a ''files'' = VList files \<and> list_all file_entry_ok files \<and>
          dict_get a ''labels'' = VDict labels \<and> length labels \<le> MAX_LABELS \<and> list_all label_ok labels \<and>
          distinct (map fst labels)))"
proof (cases "\<exists>d. raw = Parsed (VDict d)")
  case False
  with assms show ?thesis by (auto simp: parse_client_field_def no_client_def split: client_raw.splits pyval.splits)
next
  case True
  then obtain d where d: "raw = Parsed (VDict d)" by blast
  with assms obtain es where "iterate (py_or (dict_get d ''files'') (VList [])) = Inr es"
    by (auto simp: parse_client_field_def res_bind_eq_Inr)
  with assms d have c: "passenv c = sort (remdups (filter (re_match env_name_re) (str_list 4096 (dict_get d ''passenv''))))"
    "downloads c = str_list 256 (dict_get d ''downloads'')"
    "\<exists>a. asserted c = Some a \<and> dict_get a ''files'' = VList (map (VDict \<circ> snd) (sort_key fst (List.map_filter file_of es))) \<and>
      dict_get a ''labels'' = VDict (labels_of (dict_get d ''labels''))"
    by (auto simp: parse_client_field_def)
  have "file_entry_ok v" if "v \<in> (VDict \<circ> snd) ` set (List.map_filter file_of es)" for v
    using that file_of_ok by (auto dest!: map_filter_mem)
  moreover have "length (labels_of v) \<le> MAX_LABELS \<and> list_all label_ok (labels_of v) \<and> distinct (map fst (labels_of v))" for v
    using labels_loop_ok [of "[]"] by (auto simp: labels_of_def split: pyval.splits)
  moreover have "length (str_list n v) \<le> n" for n v by (auto simp: str_list_def split: pyval.splits)
  ultimately show ?thesis using c by (auto simp: list_all_iff)
qed

lemma read_script_assertions_ok:
  "case read_script_assertions f of
     VNone \<Rightarrow> True
   | VDict vs \<Rightarrow> vs \<noteq> [] \<and> length vs \<le> MAX_SCRIPT_KEYS \<and> list_all assertion_ok vs \<and> distinct (map fst vs)
   | _ \<Rightarrow> False"
  using assertions_loop_ok [of "[]"] by (auto simp: read_script_assertions_def Let_def split: option.splits)

section \<open>The log on both sides\<close>

text \<open>The calls of \<^verbatim>\<open>log_frame\<close> that the stream makes, one per frame; the flags say which writes succeed.\<close>

definition log_frames :: "int \<Rightarrow> (wire_frame \<times> bool) list \<Rightarrow> recorder \<times> rstore \<Rightarrow> recorder \<times> rstore" where
  "log_frames bm fs rs = fold (\<lambda>((fileno, chunk), ok). log_frame bm ok fileno chunk) fs rs"

lemma log_frames_broken: "r_broken r \<Longrightarrow> log_frames bm fs (r, st) = (r, st)"
  by (induction fs) (auto simp: log_frames_def log_frame_def)

lemma log_frame_hashed:
  assumes "\<not> r_broken r" "\<not> r_finalized r"
  shows "\<exists>r' st'. log_frame bm ok fileno chunk (r, st) = (r', st') \<and> (r_broken r' \<longrightarrow> \<not> ok) \<and> \<not> r_finalized r' \<and>
    r_hashed r' = r_hashed r @ (if is_log_frame (fileno, chunk) then emit fileno chunk else [])"
  using assms by (auto simp: log_frame_def Let_def is_log_frame_def)

text \<open>
  The bytes hashed are the log frames from the first on, all of them unless the recorder broke;
  it breaks only on a failing write.
\<close>

lemma log_frames_hashed:
  "\<not> r_broken r \<Longrightarrow> \<not> r_finalized r \<Longrightarrow> log_frames bm fs (r, st) = (r', st') \<Longrightarrow>
   (\<exists>more. r_hashed r @ wire (filter is_log_frame (map fst fs)) = r_hashed r' @ more \<and> (\<not> r_broken r' \<longrightarrow> more = [])) \<and>
   (r_broken r' \<longrightarrow> False \<in> snd ` set fs)"
proof (induction fs arbitrary: r st)
  case Nil
  then show ?case by (simp add: log_frames_def wire_def)
next
  case (Cons f fs)
  obtain fileno chunk ok where f: "f = ((fileno, chunk), ok)" by (cases f) auto
  let ?fr = "if is_log_frame (fileno, chunk) then emit fileno chunk else []"
  obtain r1 st1 where l: "log_frame bm ok fileno chunk (r, st) = (r1, st1)" "r_broken r1 \<longrightarrow> \<not> ok" "\<not> r_finalized r1"
    "r_hashed r1 = r_hashed r @ ?fr"
    using log_frame_hashed [OF Cons.prems(1,2)] by blast
  have rest: "log_frames bm fs (r1, st1) = (r', st')" using Cons.prems(3) l(1) by (simp add: f log_frames_def)
  have w: "wire (filter is_log_frame (map fst (f # fs))) = ?fr @ wire (filter is_log_frame (map fst fs))"
    by (simp add: f wire_def)
  show ?case
  proof (cases "r_broken r1")
    case True
    with rest log_frames_broken have "r' = r1" by simp
    with True l(2,4) show ?thesis by (intro conjI exI [of _ "wire (filter is_log_frame (map fst fs))"]) (simp_all add: w f wire_def)
  next
    case False
    from Cons.IH [OF False l(3) rest] l(4) show ?thesis unfolding w by auto
  qed
qed

lemma keep_log_not_broken: "keep_log bm r st \<Longrightarrow> \<not> r_broken r"
  by (simp add: keep_log_def)

section \<open>Fetching while a record is finished\<close>

lemma map_of_last: "map_of (drop n ys @ [(rid, d)]) rid = Some d" if "\<forall>y\<in>set ys. fst y \<noteq> rid"
proof -
  have "map_of (drop n ys) rid = None" using that by (auto simp: map_of_eq_None_iff dest: in_set_dropD)
  then show ?thesis by (simp add: map_add_def)
qed

lemma put_final_found:
  "map_of (finals (put_final rid d st)) rid = Some d"
  "map_of (finals (prune_final ok (put_final rid d st))) rid = Some d"
  "map_of (finals (prune_final ok ((put_final rid d st)\<lparr>outbox := out\<rparr>))) rid = Some d"
proof -
  let ?ys = "filter (\<lambda>f. fst f \<noteq> rid) (finals st)"
  have drop: "map_of (drop n (?ys @ [(rid, d)])) rid = Some d" if "n \<le> length ?ys" for n
    using map_of_last [of ?ys rid n d] that by simp
  show "map_of (finals (put_final rid d st)) rid = Some d" using drop [of 0] by (simp add: put_final_def)
  have "length (?ys @ [(rid, d)]) - FINAL_KEEP \<le> length ?ys" by (simp add: FINAL_KEEP_def)
  from drop [OF this] drop [of 0]
  show "map_of (finals (prune_final ok (put_final rid d st))) rid = Some d"
    "map_of (finals (prune_final ok ((put_final rid d st)\<lparr>outbox := out\<rparr>))) rid = Some d"
    unfolding prune_final_def put_final_def by (simp_all del: drop_append map_of_append)
qed

lemma publish_final_found:
  assumes "publish_final io mode rc st = (Inr u, st')" "run_id_of rc = Some rid"
  shows "map_of (finals st') rid = Some rc"
  using assms put_final_found [where rid = rid and d = rc and st = st]
  by (auto simp: publish_final_def Let_def split: if_splits link_io.splits)

lemma finalize_publish_found:
  assumes "finalize_publish sha bm fe r st = (Inr u, r', st')" "run_id_of (r_rec r) = Some (r_id r)"
  shows "map_of (finals st') (r_id r) = Some (r_rec r') \<and> open_recs st' = open_recs st"
proof -
  obtain outs st2 where ho: "hash_outputs sha bm (r_mode r = Collected) (disk fe) (all_outputs (found fe) (r_declared r))
      (kept_store sha (keep_log bm r st) r st) = (outs, st2)" by fastforce
  from assms(1) ho have p: "publish_final (pub fe) (r_mode r) (r_rec r') st2 = (Inr u, st')" "run_id_of (r_rec r') = run_id_of (r_rec r)"
    by (auto simp: finalize_publish_def Let_def run_id_of_def split: if_splits prod.splits)
  have "open_recs st2 = open_recs st" using hash_outputs_frame [OF ho] by (simp add: kept_store_frame)
  with publish_final_found [OF p(1)] publish_final_frame [OF p(1)] p(2) assms(2) show ?thesis by simp
qed

text \<open>A reader whose three looks fall anywhere between the stages of one \<^verbatim>\<open>finalize\<close>.\<close>

lemma load_turn_finds:
  assumes open_: "open_recs st rid \<noteq> None" and slug: "fs_slug rid = rid"
    and pub: "open_recs st1 = open_recs st" "map_of (finals st1) rid \<noteq> None"
    and looks: "i \<le> j" "j \<le> k" "k < 3"
  shows "load_turn rid ([st, st1, unlink_open rid st1] ! i) ([st, st1, unlink_open rid st1] ! j)
    ([st, st1, unlink_open rid st1] ! k) \<noteq> Some NotFound"
proof -
  have "k = 0 \<or> k = 1 \<or> k = 2" using looks by auto
  moreover have "j = 0 \<or> j = 1 \<or> j = 2" using looks by auto
  ultimately show ?thesis using assms by (auto simp: load_turn_def split: option.splits)
qed

section \<open>A sweep after a crash\<close>

text \<open>
  The service died after it had published a record and before it removed the open file: the
  next start finalizes the run again, as lost, over the record that was already final.
\<close>

definition reason_of :: "dict \<Rightarrow> pyval" where
  "reason_of d = (case dict_get d ''exit'' of VDict e \<Rightarrow> dict_get e ''reason'' | _ \<Rightarrow> VNone)"

lemma reason_of_final [simp]:
  "reason_of (update_dict d (final_fields fin rcode reason tmo cancel_at outs h sz kept script)) = VStr reason"
  by (simp add: reason_of_def update_dict_def final_fields_def)

lemma exit_reason_not_lost: "exit_reason c how tmo rcode el \<noteq> ''lost''"
  by (simp add: exit_reason_def)

lemma finalize_publish_reason:
  assumes "finalize_publish sha bm fe r st = (Inr u, r', st')"
  shows "reason_of (r_rec r') = VStr (exit_reason (cancels st (r_id r) \<noteq> None) (how_ended fe) (r_timeout r)
    (normalize_exit_code (returncode fe)) (elapsed fe))"
  using assms by (auto simp: finalize_publish_def Let_def split: if_splits prod.splits)

lemma finalize_publish_outbox:
  assumes "finalize_publish sha bm fe r st = (Inr u, r', st')" "run_id_of (r_rec r) = Some (r_id r)" "r_mode r = Collected"
  shows "outbox st' (r_id r) \<noteq> None"
proof -
  from assms obtain st2 where p: "publish_final (pub fe) (r_mode r) (r_rec r') st2 = (Inr u, st')" "run_id_of (r_rec r') = run_id_of (r_rec r)"
    by (auto simp: finalize_publish_def Let_def run_id_of_def split: if_splits prod.splits)
  with assms(2,3) publish_final_records(3) [OF p(1)] show ?thesis by simp
qed

lemma sweep_one_lost:
  assumes "open_recs st rid = Some d" "run_id_of d = Some rid"
    and "py_int (py_or (dict_get d ''_effectiveTimeout'') (VInt 0)) = Inr tmo"
    and io: "pub_dirs (pubs rid)" "final_written (pubs rid)" "link_out (pubs rid) = Linked"
  shows "\<exists>rc st'. sweep_one sha mode pubs rid (k, st) = (k + 1, st') \<and> map_of (finals st') rid = Some rc \<and>
    reason_of rc = VStr ''lost'' \<and> open_recs st' rid = None \<and> (outbox st rid \<noteq> None \<longrightarrow> outbox st' = outbox st)"
proof -
  obtain rc fin h sz script where rc: "rc = update_dict (filter (\<lambda>kv. fst kv \<noteq> ''_effectiveTimeout'') d)
      (final_fields VNone None ''lost'' tmo fin [] h sz False script)"
    and w: "sweep_one sha mode pubs rid (k, st) = (case publish_final (pubs rid) mode rc st of
               (Inl _, st1) \<Rightarrow> (k, st1)
             | (Inr _, st1) \<Rightarrow> (k + 1, (unlink_open rid st1)\<lparr>logs := (logs st1)(rid := None)\<rparr>))"
    using assms(1,3) by (simp add: sweep_one_def Let_def)
  have rid: "run_id_of rc = Some rid" using assms(2) by (simp add: rc run_id_of_def dict_get_filter)
  with io obtain st1 where p: "publish_final (pubs rid) mode rc st = (Inr (), st1)"
    by (cases "mode = Collected \<and> outbox st rid = None") (auto simp: publish_final_def Let_def)
  have "outbox st rid \<noteq> None \<Longrightarrow> outbox st1 = outbox st"
    using publish_final_records(2) [OF p rid] by auto
  with w p publish_final_found [OF p rid] show ?thesis by (simp add: rc)
qed

end
