(* ===== verification/Run_Record_Props.thy ===== *)
theory Run_Record_Props
  imports Run_Record_Facts
begin

text \<open>
  The properties of run records and of the output stream, over \<open>Run_Record\<close> and
  \<open>Output_Stream\<close>: what a collected box owes every run it accepts, what the hashes of a
  record name, and how the output of a run reaches the client.
\<close>

section \<open>Examples\<close>

definition sample_begin :: begin_env where
  "sample_begin = \<lparr>policy = JsonDoc (VDict [(''mode'', VStr ''collected'')]), free_space = Some (2 ^ 40), bmax = 100,
     dirs_made = True, seq_written = True, uid_written = True, fresh_id = ''f1'', fresh_again = ''f2'', fresh_uid = ''u'',
     started = ''t'', box_fields = Inr [], box_state = Inr VNone, code_section = Inr VNone, client = Absent,
     timeout_seconds = 0, log_created = True, open_written = True\<rparr>"

definition sample_record :: dict where
  "sample_record = new_record sample_begin Collected ''r1'' no_client 1 ''u'' [] VNone VNone"

definition sample_run :: recorder where
  "sample_run = \<lparr>r_id = ''r1'', r_mode = Collected, r_rec = sample_record, r_timeout = 0, r_declared = [],
     r_hashed = [], r_log_open = True, r_finalized = False, r_broken = False\<rparr>"

definition sample_store :: rstore where
  "sample_store = (store rsys0)\<lparr>seq_file := Some ''1'', uid_file := Some ''u'',
     open_recs := (\<lambda>_. None)(''r1'' := Some (dict_set sample_record ''_effectiveTimeout'' (VInt 0))),
     logs := (\<lambda>_. None)(''r1'' := Some [])\<rparr>"

lemma sample_id: "valid_run_id (VStr ''r1'')"
  by (simp add: valid_run_id_def re_match_lang run_id_re_def lang_upto lang_One_Seq is_run_char_def is_alnum_def is_az_def is_digit_def
      del: lang.simps(4))

lemma sample_number: "dec_int 1 = ''1''"
  by code_simp

lemma sample_begins: "begin_run sample_begin (VStr ''r1'') (store rsys0) = (Recording sample_run, sample_store)"
  by (simp add: begin_run_def sample_begin_def read_mode_def try_begin_def require_free_space_def BLOB_SLACK_def choose_id_def
      sample_id rsys0_def is_final_def parse_client_field_def next_sequence_def sequence_of_def store_box_id_def open_run_def
      sample_run_def sample_store_def sample_record_def no_client_def sample_number Let_def)

definition sample_sys :: rsys where
  "sample_sys = rsys0\<lparr>store := sample_store, runs := no_runs(''r1'' := Some sample_run), nums := (\<lambda>_. None)(''r1'' := Some 1)\<rparr>"

lemma sample_reachable: "reachable sha bm Collected sample_sys"
proof -
  have "rstep sha bm Collected rsys0 (rsys0\<lparr>store := sample_store, runs := (runs rsys0)(r_id sample_run := Some sample_run),
      nums := (nums rsys0)(r_id sample_run := Some (0 + 1))\<rparr>)"
    by (rule rstep.Accept [OF sample_begins]) (simp_all add: sample_begin_def read_mode_def rsys0_def sequence_of_def)
  moreover have "rsys0\<lparr>store := sample_store, runs := (runs rsys0)(r_id sample_run := Some sample_run),
      nums := (nums rsys0)(r_id sample_run := Some (0 + 1))\<rparr> = sample_sys"
    by (simp add: sample_sys_def sample_run_def rsys0_def)
  ultimately show ?thesis using reachable.intros by metis
qed

text \<open>The run ends with one byte of output, which a collected box keeps.\<close>

definition sample_io :: publish_io where
  "sample_io = \<lparr>pub_dirs = True, final_written = True, link_out = Linked, prune_read = True\<rparr>"

definition sample_finish :: finish_env where
  "sample_finish = \<lparr>returncode = Some 0, how_ended = Exited, elapsed = 1, log_closed = True, blob_moved = True, found = [],
     disk = \<lambda>_. NotServed, finished = ''t2'', pub = sample_io\<rparr>"

definition sample_sha :: "byte list \<Rightarrow> string" where
  "sample_sha bs = map (\<lambda>b. char_of (unat b)) bs"

definition sample_logged :: "recorder \<times> rstore" where
  "sample_logged = log_frame 100 True 1 [65] (sample_run, sample_store)"

definition sample_ended :: "recorder \<times> rstore" where
  "sample_ended = finalize sample_sha 100 sample_finish sample_logged"

lemma sample_outbox: "map_option retained_hashes (outbox (snd sample_ended) ''r1'') = Some [sample_sha (emit 1 [65])]"
  by code_simp

definition sample_final :: rsys where
  "sample_final = sample_sys\<lparr>store := snd sample_ended, runs := no_runs(''r1'' := Some (fst sample_ended))\<rparr>"

lemma sample_final_reachable: "reachable sample_sha 100 Collected sample_final"
proof -
  let ?s = "sample_sys\<lparr>store := snd sample_logged, runs := (runs sample_sys)(''r1'' := Some (fst sample_logged))\<rparr>"
  have "rstep sample_sha 100 Collected sample_sys ?s"
    by (rule rstep.Frame [where ok = True and fileno = 1 and chunk = "[65]" and r = sample_run])
      (simp_all add: sample_sys_def sample_logged_def)
  then have r: "reachable sample_sha 100 Collected ?s" using sample_reachable reachable.Step by blast
  have "rstep sample_sha 100 Collected ?s (?s\<lparr>store := snd sample_ended, runs := (runs ?s)(''r1'' := Some (fst sample_ended))\<rparr>)"
    using rstep.End [where fe = sample_finish and r = "fst sample_logged" and s = ?s and rid = "''r1''" and sha = sample_sha and bm = 100
        and mode = Collected and r' = "fst sample_ended" and st' = "snd sample_ended"]
    by (simp add: sample_ended_def finish_drift_def drifts_def drift_of_def sample_finish_def)
  moreover have "?s\<lparr>store := snd sample_ended, runs := (runs ?s)(''r1'' := Some (fst sample_ended))\<rparr> = sample_final"
    by (simp add: sample_final_def sample_sys_def)
  ultimately show ?thesis using r reachable.Step by metis
qed

section \<open>What a collected box owes a run\<close>

text \<open>
  C19. No accepted run is lost. On a box whose records are collected, in every reachable state,
  whatever system calls failed and wherever the service crashed, a run that was accepted
  under a number has a record with that number: it is still open, or in the outbox, or the
  consumer took it. No other run has the number.
\<close>

theorem collected_run_recorded:
  assumes "reachable sha bm Collected s" and "nums s rid = Some n"
  shows "(\<exists>d. numbered rid n d \<and>
      (open_recs (store s) rid = Some d \<or> outbox (store s) rid = Some d \<or> (rid, d) \<in> taken s)) \<and>
    (\<forall>other. nums s other = Some n \<longrightarrow> other = rid)"
proof -
  note inv = rinv_reachable [OF assms(1)]
  from inv assms(2) obtain d where d: "open_recs (store s) rid = Some d \<or> outbox (store s) rid = Some d \<or> (rid, d) \<in> taken s"
    unfolding rinv_def kept_ok_def by blast
  with inv have "num_ok s rid d" unfolding rinv_def recs_ok_def published_def by blast
  with assms(2) have "numbered rid n d" by (simp add: num_ok_def)
  moreover have "other = rid" if "nums s other = Some n" for other
    using inv that assms(2) unfolding rinv_def nums_ok_def inj_on_def by (metis domI)
  ultimately show ?thesis using d by blast
qed

theorem collected_run_recorded_witness:
  "\<exists>d. numbered ''r1'' 1 d \<and>
    (open_recs (store sample_sys) ''r1'' = Some d \<or> outbox (store sample_sys) ''r1'' = Some d \<or> (''r1'', d) \<in> taken sample_sys)"
  using collected_run_recorded [OF sample_reachable [of sample_sha 100], of "''r1''" 1] by (simp add: sample_sys_def)

text \<open>
  C20. Retained bytes are the bytes that were hashed, as far as the outputs stay as they are.
  In every reachable state, for any hash function, each hash that a record in the outbox calls
  retained, of its log or of an output, names a stored blob; of any other published record it
  does unless the consumer deleted that blob, which it may when no record in the outbox names
  it and no run is being finished. And the blob hashes to its name, unless it is the hash of an
  output that changed between being hashed and being copied.
\<close>

theorem retained_bytes_match:
  assumes "reachable sha bm mode s" and "published s rid d" and "h \<in> set (retained_hashes d)"
  shows "(outbox (store s) rid = Some d \<or> h \<notin> gone s \<longrightarrow> blobs (store s) h \<noteq> None) \<and>
    (\<forall>b. blobs (store s) h = Some b \<longrightarrow> sha b = h \<or> h \<in> drift s)"
proof -
  have "bytes_ok sha s" using rinv_reachable [OF assms(1)] by (simp add: rinv_def)
  then have "blobs_ok sha (drift s) (store s)" "set (retained_hashes d) \<subseteq> dom (blobs (store s)) \<union> gone s"
    "outbox (store s) rid = Some d \<longrightarrow> set (retained_hashes d) \<subseteq> dom (blobs (store s))"
    using assms(2) unfolding bytes_ok_def by blast+
  with assms(3) show ?thesis by (auto simp: blobs_ok_def)
qed

theorem retained_bytes_match_witness:
  "\<exists>b. blobs (store sample_final) (sample_sha (emit 1 [65])) = Some b \<and> sample_sha b = sample_sha (emit 1 [65])"
proof -
  from sample_outbox obtain d where "outbox (snd sample_ended) ''r1'' = Some d" "retained_hashes d = [sample_sha (emit 1 [65])]"
    by auto
  then have "published sample_final ''r1'' d" "sample_sha (emit 1 [65]) \<in> set (retained_hashes d)"
    "outbox (store sample_final) ''r1'' = Some d"
    by (simp_all add: published_def sample_final_def)
  moreover have "drift sample_final = {}" by (simp add: sample_final_def sample_sys_def rsys0_def)
  ultimately show ?thesis using retained_bytes_match [OF sample_final_reachable] by blast
qed

text \<open>
  Refused or recorded. A run that is accepted has its record on disk under the next
  number. A run that cannot be recorded is refused on a collected box and goes ahead on a
  local one; either way no record changes.
\<close>

lemma run_refused_or_recorded:
  "case begin_run e v st of
     (Recording r, st') \<Rightarrow> \<exists>d n. open_recs st' (r_id r) = Some d \<and> numbered (r_id r) n d \<and> sequence_of st = Inr (n - 1)
   | (Refused, st') \<Rightarrow> read_mode (policy e) = Collected \<and>
       open_recs st' = open_recs st \<and> finals st' = finals st \<and> outbox st' = outbox st
   | (Unrecorded, st') \<Rightarrow> read_mode (policy e) = Local \<and>
       open_recs st' = open_recs st \<and> finals st' = finals st \<and> outbox st' = outbox st"
proof -
  obtain res st' where t: "try_begin e (read_mode (policy e)) v st = (res, st')" by fastforce
  show ?thesis
  proof (cases res)
    case (Inl x)
    with t try_begin_frame [of e "read_mode (policy e)" v st x st'] show ?thesis
      by (cases "read_mode (policy e)") (simp_all add: begin_run_def)
  next
    case (Inr r)
    with t have "begin_run e v st = (Recording r, st')" by (simp add: begin_run_def)
    moreover obtain n where "open_recs st' (r_id r) = Some (dict_set (r_rec r) ''_effectiveTimeout'' (VInt (timeout_seconds e)))"
      "numbered (r_id r) n (r_rec r)" "sequence_of st = Inr (n - 1)"
      using t Inr by (auto elim: try_begin_Inr)
    ultimately show ?thesis by (auto simp: numbered_def)
  qed
qed

section \<open>The output of a run\<close>

text \<open>
  C21. The client sees what the box recorded. When every drain of a run has ended, the client's
  parser returns the frames that were sent, without the empty ones, and the exit code. The
  bytes the box hashed for the log of the record are the bytes a client hashes from them, from
  the first on: all of them as long as no write of the log failed, and whenever the record
  calls the log retained. After a failing write the box hashes no more, and the record still
  gets the hash of the part.
\<close>

theorem client_log_agrees:
  assumes "stream_loop drains evs = (map fst fs, 0)" and "list_all wire_frame_ok (map fst fs)" and "\<bar>rc\<bar> < 2 ^ 31"
    and "\<not> r_broken r" and "\<not> r_finalized r" and "r_hashed r = []" and "log_frames bm fs (r, st) = (r', st')"
  shows "(\<exists>p. iter_streams (stream_process_output drains evs rc) =
        (filter nonempty (map fst fs) @ [(-1, bytes_of (dec_int rc))], Inr p)) \<and>
    int_of_bytes (bytes_of (dec_int rc)) = Inr rc \<and>
    (\<exists>more. observed_log (fst (iter_streams (stream_process_output drains evs rc))) = r_hashed r' @ more \<and>
       (False \<notin> snd ` set fs \<or> keep_log bm r' st' \<longrightarrow> more = []))"
proof -
  have small: "nat \<bar>rc\<bar> < 10 ^ 10" using assms(3) by simp
  then have "int_of_bytes (bytes_of (dec_int rc)) = Inr rc" by (intro int_of_bytes_dec_int below_limit [of _ 10]) simp_all
  moreover have "length (dec_int rc) < int_limit"
  proof (rule below_limit [of _ 4])
    have "length (str_of_nat (nat \<bar>rc\<bar>)) \<le> 10" using length_str_of_nat [OF small] by simp
    then show "length (dec_int rc) < 10 ^ 4" by (cases "rc < 0") (simp_all add: dec_int_def)
  qed simp
  from iter_streams_stream [OF assms(2) this] obtain p where
    "iter_streams (stream_process_output drains evs rc) = (filter nonempty (map fst fs) @ [(-1, bytes_of (dec_int rc))], Inr p)"
    using assms(1) by (auto simp: stream_process_output_def)
  ultimately show ?thesis
    using log_frames_hashed [OF assms(4,5,7)] assms(6) keep_log_not_broken by (auto simp: observed_log_stream)
qed

theorem client_log_agrees_witness:
  "observed_log (fst (iter_streams (stream_process_output 1 [Chunk 1 [104, 105] False, Quiet True, Eof] (- 9)))) =
   r_hashed (fst (log_frames 100 [((1, [104, 105]), True), ((0, []), True)] (sample_run, sample_store)))"
proof -
  have "n < int_limit" if "n < 10" for n by (rule below_limit [of _ 1]) (use that in simp_all)
  then have "list_all wire_frame_ok [(1, [104, 105]), (0, [])]" by (simp add: wire_frame_ok_def)
  moreover obtain r' st' where l: "log_frames 100 [((1, [104, 105]), True), ((0, []), True)] (sample_run, sample_store) = (r', st')"
    by fastforce
  ultimately show ?thesis
    using client_log_agrees [of 1 "[Chunk 1 [104, 105] False, Quiet True, Eof]" "[((1, [104, 105]), True), ((0, []), True)]" "- 9" sample_run 100
        sample_store r' st']
    by (simp add: sample_run_def keepalive_def)
qed

text \<open>A write that fails: the second frame is sent to the client and is not in the hash of the record.\<close>

lemma broken_log_hash:
  "r_hashed (fst (log_frames 100 [((1, [65]), False), ((1, [66]), True)] (sample_run, sample_store))) = emit 1 [65]"
  by code_simp

text \<open>
  C22. A split object hangs the client. An object of the output channel that arrives in one
  piece is decoded. When the first piece ends inside the payload, the loop of the output
  handler never ends, whatever is still to come: it turns with a complete header and waits
  for bytes that only its caller could append.
\<close>

theorem partial_output_hangs:
  assumes "object_ok (e, bs)" and "decode e bs = Inr v"
  shows "output_receive (Suc (Suc m)) decode (output_object e bs) handler0 = Some ([v], Inr handler0) \<and>
    (\<forall>k < length bs. \<forall>fuel. output_receive fuel decode (header (dec_int e) (length bs) @ take k bs) handler0 = None)"
proof (intro conjI allI impI)
  show "output_receive (Suc (Suc m)) decode (output_object e bs) handler0 = Some ([v], Inr handler0)"
    using parse_objects [of "[(e, bs)]" decode "[v]" m] assms by (simp add: output_receive_def handler0_def)
next
  fix k fuel assume "k < length bs"
  with assms(1) show "output_receive fuel decode (header (dec_int e) (length bs) @ take k bs) handler0 = None"
    by (rule receive_partial_hangs)
qed

theorem partial_output_hangs_witness:
  "\<forall>fuel. output_receive fuel (\<lambda>_ bs. Inr bs) (header (dec_int 1) (length [7, 8, 9]) @ take 2 [7, 8, 9]) handler0 = None"
proof -
  have "(3::nat) < int_limit" by (rule below_limit [of _ 1]) simp_all
  then have "object_ok (1, [7, 8, 9])" by (simp add: object_ok_def)
  from partial_output_hangs [OF this, of "\<lambda>_ bs. Inr bs" "[7, 8, 9]"] show ?thesis by (metis (no_types) length_Cons lessI less_SucI list.size(3) numeral_2_eq_2)
qed

section \<open>Contents of a record\<close>

text \<open>
  What a client asserts is bounded and well formed. Whatever document a client sends, when
  it is accepted the names of passed variables are sorted, distinct and of the grammar, at
  most 256 downloads are named, every file entry has a path, a size that is not negative and
  a hash of 64 hexadecimal digits, and at most 32 labels have keys of the grammar and short
  values.
\<close>

lemma asserted_values_bounded:
  assumes "parse_client_field raw = Inr c"
  shows "sorted (passenv c) \<and> distinct (passenv c) \<and> list_all (re_match env_name_re) (passenv c) \<and>
    length (downloads c) \<le> 256 \<and>
    (case asserted c of None \<Rightarrow> True | Some a \<Rightarrow>
       (\<exists>files labels. dict_get a ''files'' = VList files \<and> list_all file_entry_ok files \<and>
          dict_get a ''labels'' = VDict labels \<and> length labels \<le> MAX_LABELS \<and> list_all label_ok labels \<and>
          distinct (map fst labels)))"
  using assms by (rule parse_client_field_ok)

definition sample_client :: client_raw where
  "sample_client = Parsed (VDict [(''passenv'', VList [VStr ''B'', VStr ''A'', VStr ''1x'', VStr ''A'']), (''labels'', VDict [(''k'', VStr ''v'')])])"

section \<open>Reading and sweeping\<close>

text \<open>
  A fetch does not miss a record that is being finished. The three looks of one turn of
  \<^verbatim>\<open>load_final\<close> may fall anywhere before, between and after the publication and the removal
  of the open file: the run is never reported as unknown.
\<close>

lemma fetch_finds_record:
  assumes "finalize_publish sha bm fe r st = (Inr u, r', st1)" and "run_id_of (r_rec r) = Some (r_id r)"
    and "open_recs st (r_id r) \<noteq> None" and "valid_run_id (VStr (r_id r))" and "newline \<notin> set (r_id r)"
    and "i \<le> j" and "j \<le> k" and "k < 3"
  shows "load_turn (r_id r) ([st, st1, unlink_open (r_id r) st1] ! i) ([st, st1, unlink_open (r_id r) st1] ! j)
    ([st, st1, unlink_open (r_id r) st1] ! k) \<noteq> Some NotFound"
  using load_turn_finds assms valid_run_id_slug [OF assms(4)] finalize_publish_found [OF assms(1,2)] by simp

lemma sample_published:
  "case finalize_publish sample_sha 100 sample_finish (fst sample_logged) (snd sample_logged) of
     (res, _, _) \<Rightarrow> res = Inr ()"
  by code_simp

lemma sample_logged_fields:
  "r_id (fst sample_logged) = ''r1''" "r_rec (fst sample_logged) = sample_record" "r_mode (fst sample_logged) = Collected"
  "open_recs (snd sample_logged) = open_recs sample_store"
  by (simp_all add: sample_logged_def log_frame_def sample_run_def sample_store_def Let_def)

lemma sample_open:
  "run_id_of sample_record = Some ''r1''"
  "open_recs sample_store ''r1'' = Some (dict_set sample_record ''_effectiveTimeout'' (VInt 0))"
  by (simp_all add: sample_record_def new_record_def run_id_of_def sample_store_def)

text \<open>
  C23. A sweep can rewrite a final record. When the service dies between the publication of a
  record and the removal of its open file, the next start finalizes the run again: the final
  record that told how the run ended is replaced by one with the reason \<^verbatim>\<open>lost\<close>, while the
  outbox of a collected box keeps the first. The reference says that a final record never
  changes again.
\<close>

theorem swept_record_rewritten:
  assumes "finalize_publish sha bm fe r st = (Inr u, r', st1)" and "run_id_of (r_rec r) = Some (r_id r)"
    and "open_recs st (r_id r) = Some d" and "run_id_of d = Some (r_id r)"
    and "py_int (py_or (dict_get d ''_effectiveTimeout'') (VInt 0)) = Inr tmo" and "\<not> startswith (r_id r) ''.''"
    and "pub_dirs (pubs (r_id r))" and "final_written (pubs (r_id r))" and "link_out (pubs (r_id r)) = Linked"
  shows "\<exists>first second st2. map_of (finals st1) (r_id r) = Some first \<and> reason_of first \<noteq> VStr ''lost'' \<and>
    sweep_lost sha (r_mode r) pubs [r_id r] st1 = (1, st2) \<and>
    map_of (finals st2) (r_id r) = Some second \<and> reason_of second = VStr ''lost'' \<and>
    (r_mode r = Collected \<longrightarrow> outbox st2 = outbox st1)"
proof -
  note f = finalize_publish_found [OF assms(1,2)]
  have "open_recs st1 (r_id r) = Some d" using f assms(3) by simp
  from sweep_one_lost [where pubs = pubs and rid = "r_id r" and sha = sha and mode = "r_mode r" and k = 0, OF this assms(4,5,7-9)] obtain second st2 where
    "sweep_one sha (r_mode r) pubs (r_id r) (0, st1) = (1, st2)" "map_of (finals st2) (r_id r) = Some second"
    "reason_of second = VStr ''lost''" "outbox st1 (r_id r) \<noteq> None \<longrightarrow> outbox st2 = outbox st1" by auto
  moreover have "reason_of (r_rec r') \<noteq> VStr ''lost''"
    using finalize_publish_reason [OF assms(1)] exit_reason_not_lost by simp
  ultimately show ?thesis
    using f assms(6) finalize_publish_outbox [OF assms(1,2)] by (auto simp: sweep_lost_def)
qed

theorem swept_record_rewritten_witness:
  "\<exists>second. case finalize_publish sample_sha 100 sample_finish (fst sample_logged) (snd sample_logged) of (res, r', st1) \<Rightarrow>
     map_of (finals (snd (sweep_lost sample_sha Collected (\<lambda>_. sample_io) [''r1''] st1))) ''r1'' = Some second \<and>
     reason_of second = VStr ''lost''"
proof -
  obtain r' st1 where p: "finalize_publish sample_sha 100 sample_finish (fst sample_logged) (snd sample_logged) = (Inr (), r', st1)"
    using sample_published by (auto split: prod.splits)
  have "run_id_of (dict_set sample_record ''_effectiveTimeout'' (VInt 0)) = Some ''r1''"
    using sample_open(1) by (simp add: run_id_of_def)
  with swept_record_rewritten [OF p, of "dict_set sample_record ''_effectiveTimeout'' (VInt 0)" 0 "\<lambda>_. sample_io"]
  show ?thesis by (auto simp: p sample_logged_fields sample_open sample_io_def py_or_def startswith_def)
qed

end
