(* ===== verification/Job_Service.thy ===== *)
theory Job_Service
  imports Job_Ids Py_Utf8 Run_Record_Props
begin

text \<open>
  The job requests of the execution service, \<^verbatim>\<open>box/lager/python/service.py\<close>: the fields of an upload,
  the acceptance of a run (with its record, its registry entry and the environment and argument
  vector of its process), and the kill, attach and breakpoint requests that name a job by its
  id. Shown: one id names a job in the answer, the registry, the record and the environment, so
  that the kill finds it; the recorded timeout is the enforced one; and a request that names a
  job touches nothing outside that job's directory and record.
\<close>

section \<open>Fields\<close>

text \<open>What the multipart decoder of the web framework gives for a body.\<close>

datatype mp_event = MField string | MFile string string | MData "byte list" | MOther | MEnd | MRaise pyexc

text \<open>A field: bytes, a file object for an upload named \<^verbatim>\<open>.py\<close> or \<^verbatim>\<open>.zip\<close>, a list of bytes for a repeated name.\<close>

datatype field = FBytes "byte list" | FStream "byte list" | FMany "byte list list"

type_synonym part = "string \<times> string option \<times> byte list"

definition boundary_from :: "string \<Rightarrow> string option" where
  "boundary_from content_type =
    map_option (strip_chars [CHR 0x22] \<circ> snd)
      (find (\<lambda>(n, v). lower n = ''boundary'')
        (map (\<lambda>p. case split_at (\<lambda>c. c = CHR ''='') (strip p) of (n, v) \<Rightarrow> (n, case v of None \<Rightarrow> [] | Some x \<Rightarrow> x))
          (tl (split_on (CHR '';'') content_type))))"

text \<open>The parts in reverse; data goes to the last one.\<close>

definition add_data :: "byte list \<Rightarrow> part list \<Rightarrow> part list" where
  "add_data bs ps = (case ps of [] \<Rightarrow> [] | (n, f, d) # r \<Rightarrow> (n, f, d @ bs) # r)"

fun collect_parts :: "part list \<Rightarrow> mp_event list \<Rightarrow> part list res" where
  "collect_parts ps [] = Inr (rev ps)"
| "collect_parts ps (e # es) = (case e of
     MEnd \<Rightarrow> Inr (rev ps)
   | MField n \<Rightarrow> collect_parts ((n, None, []) # ps) es
   | MFile n f \<Rightarrow> collect_parts ((n, Some f, []) # ps) es
   | MData bs \<Rightarrow> collect_parts (add_data bs ps) es
   | MOther \<Rightarrow> collect_parts ps es
   | MRaise x \<Rightarrow> Inl x)"

definition is_real_file :: "string option \<Rightarrow> bool" where
  "is_real_file f = (case f of Some n \<Rightarrow> n \<noteq> [] \<and> (endswith n ''.py'' \<or> endswith n ''.zip'') | None \<Rightarrow> False)"

definition field_of :: "part list \<Rightarrow> field" where
  "field_of ps = (case ps of
     [(_, f, d)] \<Rightarrow> if is_real_file f then FStream d else FBytes d
   | _ \<Rightarrow> FMany (map (snd \<circ> snd) ps))"

text \<open>The names in the order of their first part.\<close>

definition group_parts :: "part list \<Rightarrow> (string \<times> field) list" where
  "group_parts ps = map (\<lambda>n. (n, field_of (filter (\<lambda>p. fst p = n) ps))) (rev (remdups (rev (map fst ps))))"

definition parse_multipart :: "(string \<Rightarrow> byte list \<Rightarrow> mp_event list) \<Rightarrow> string \<Rightarrow> byte list \<Rightarrow> (string \<times> field) list res" where
  "parse_multipart decoder content_type body =
    (if \<not> startswith content_type ''multipart/form-data'' then Inr []
     else case boundary_from content_type of
       None \<Rightarrow> Inr []
     | Some b \<Rightarrow> if b = [] \<or> body = [] then Inr [] else map_sum id group_parts (collect_parts [] (decoder b body)))"

definition read_field :: "field \<Rightarrow> byte list option" where
  "read_field f = (case f of FBytes b \<Rightarrow> Some b | FStream b \<Rightarrow> Some b | FMany _ \<Rightarrow> None)"

definition is_truthy_string :: "field \<Rightarrow> bool res" where
  "is_truthy_string f = (case read_field f of
     None \<Rightarrow> Inr False
   | Some b \<Rightarrow> res_bind (decode_utf8 b) (\<lambda>s. Inr (lower s \<in> {''true'', ''1'', ''yes'', ''on''})))"

definition field_truthy :: "field option \<Rightarrow> bool" where
  "field_truthy f = (case f of None \<Rightarrow> False | Some (FBytes b) \<Rightarrow> b \<noteq> [] | Some (FStream _) \<Rightarrow> True | Some (FMany bs) \<Rightarrow> bs \<noteq> [])"

definition field_list :: "field option \<Rightarrow> byte list list" where
  "field_list f = (case f of None \<Rightarrow> [] | Some (FBytes b) \<Rightarrow> [b] | Some (FStream b) \<Rightarrow> [b] | Some (FMany bs) \<Rightarrow> bs)"

text \<open>A repeated configuration field stays a list of byte strings, of which the number is kept.\<close>

definition config_field :: "field option \<Rightarrow> pyval res" where
  "config_field f = (case f of
     None \<Rightarrow> Inr VNone
   | Some (FMany bs) \<Rightarrow> Inr (VList (map (\<lambda>_. VNone) bs))
   | Some (FBytes b) \<Rightarrow> map_sum id VStr (decode_utf8 b)
   | Some (FStream b) \<Rightarrow> map_sum id VStr (decode_utf8 b))"

definition timeout_field :: "field option \<Rightarrow> int res" where
  "timeout_field f = (case f of
     None \<Rightarrow> Inr 300
   | Some g \<Rightarrow> (case read_field g of None \<Rightarrow> Inl TypeError | Some b \<Rightarrow> res_bind (decode_utf8 b) (\<lambda>s. py_int (VStr s))))"

record run_request =
  q_detach :: bool
  q_stdout_is_stderr :: bool
  q_timeout :: int
  q_script :: bool
  q_module :: bool
  q_args :: "byte list list"
  q_env :: "string list"
  q_muxes :: pyval
  q_usb :: pyval
  q_dut :: pyval
  q_holder :: pyval

definition parse_request :: "(string \<times> field) list \<Rightarrow> run_request res" where
  "parse_request form =
    (let get = map_of form; flag = (\<lambda>n d. case get n of None \<Rightarrow> Inr d | Some f \<Rightarrow> is_truthy_string f) in
     res_bind (flag ''detach'' False) (\<lambda>detach.
     res_bind (flag ''stdout_is_stderr'' True) (\<lambda>oie.
     res_bind (timeout_field (get ''timeout'')) (\<lambda>timeout.
     res_bind (res_map decode_utf8 (field_list (get ''env''))) (\<lambda>env.
     res_bind (config_field (get ''muxes'')) (\<lambda>mx.
     res_bind (config_field (get ''usb_mapping'')) (\<lambda>usb.
     res_bind (config_field (get ''dut_commands'')) (\<lambda>dut.
     res_bind (config_field (get ''lock_holder'')) (\<lambda>holder.
       Inr \<lparr>q_detach = detach, q_stdout_is_stderr = oie, q_timeout = timeout,
         q_script = field_truthy (get ''script''), q_module = field_truthy (get ''module''),
         q_args = field_list (get ''args''), q_env = env, q_muxes = mx, q_usb = usb, q_dut = dut, q_holder = holder\<rparr>)))))))))"

section \<open>Accepting a run\<close>

datatype exec_error = MissingModuleFolderError | InvalidSignalError | LagerPythonInvalidProcessIdError | LagerPythonProcessNotFoundError

text \<open>An error of the executor, any other exception, or an answer with a status of its own.\<close>

datatype failure = Exec exec_error | Raises pyexc | Http int

definition http_status :: "failure \<Rightarrow> int" where
  "http_status f = (case f of Exec _ \<Rightarrow> 422 | Raises _ \<Rightarrow> 500 | Http n \<Rightarrow> n)"

definition validate_request :: "bool \<Rightarrow> bool \<Rightarrow> failure + unit" where
  "validate_request script_file module_zip = (if \<not> script_file \<and> \<not> module_zip then Inl (Exec MissingModuleFolderError) else Inr ())"

text \<open>The status files of the registered jobs, by directory.\<close>

type_synonym metas = "string \<Rightarrow> json_file"

text \<open>
  What an acceptance meets: the ids minted, the begin of the record, the directories of its
  script file and outputs, and whether the registry entry can be made and written.
\<close>

record accept_io =
  a_minted :: string
  a_minted2 :: string
  a_begin :: begin_env
  a_open_dir :: string
  a_output_root :: string
  a_output_made :: bool
  a_registered :: bool
  a_meta_ok :: bool
  a_started :: pyfloat
  a_finish :: finish_env

definition output_env :: "accept_io \<Rightarrow> string \<Rightarrow> string list" where
  "output_env io rid = (if a_output_made io then [''LAGER_OUTPUT_DIR='' @ path_join (a_output_root io) (fs_slug rid)] else [])"

definition recorder_env :: "accept_io \<Rightarrow> recorder \<Rightarrow> string list" where
  "recorder_env io r = [''LAGER_RUN_ASSERTIONS='' @ path_join (a_open_dir io) (r_id r @ ''.script'')]"

text \<open>What the job's thread is handed.\<close>

record job_plan =
  p_id :: string
  p_vars :: "string list"
  p_timeout :: int
  p_detach :: bool
  p_recorder :: "recorder option"

definition detached_reply :: "string \<Rightarrow> pyval \<Rightarrow> dict" where
  "detached_reply pid holder = [(''status'', VStr ''detached''), (''pid'', VNone), (''lager_process_id'', VStr pid),
     (''lock_held_by_box'', VBool (truthy holder))]"

definition start_failed :: "(byte list \<Rightarrow> string) \<Rightarrow> accept_io \<Rightarrow> recorder option \<Rightarrow> rstore \<Rightarrow> rstore" where
  "start_failed sha io r st = (case r of None \<Rightarrow> st
     | Some r \<Rightarrow> snd (finalize sha (bmax (a_begin io)) ((a_finish io)\<lparr>returncode := None, how_ended := StartFailed\<rparr>) (r, st)))"

definition start_detached :: "(byte list \<Rightarrow> string) \<Rightarrow> accept_io \<Rightarrow> run_request \<Rightarrow> string list \<Rightarrow> recorder option \<Rightarrow> rstore \<Rightarrow> metas \<Rightarrow>
    (failure + dict \<times> job_plan) \<times> rstore \<times> metas" where
  "start_detached sha io q env_vars r st ms = (case validate_request (q_script q) (q_module q) of
     Inl f \<Rightarrow> (Inl f, st, ms)
   | Inr _ \<Rightarrow> (case resolve_lager_process_id (a_minted2 io) env_vars of
       (pid, vars) \<Rightarrow> (case process_dir_for pid of
           Inl x \<Rightarrow> (Inl (Raises x), start_failed sha io r st, ms)
         | Inr dir \<Rightarrow>
             if \<not> a_registered io then (Inl (Raises OSError), start_failed sha io r st, ms)
             else (Inr (detached_reply pid (q_holder q),
                    \<lparr>p_id = pid, p_vars = vars, p_timeout = q_timeout q, p_detach = True, p_recorder = r\<rparr>), st,
                   ms(dir := register_detached_job (a_meta_ok io) pid (a_started io) (ms dir))))))"

definition run_accepted :: "(byte list \<Rightarrow> string) \<Rightarrow> accept_io \<Rightarrow> run_request \<Rightarrow> string \<Rightarrow> string list \<Rightarrow> recorder option \<Rightarrow> rstore \<Rightarrow> metas \<Rightarrow>
    (failure + dict \<times> job_plan) \<times> rstore \<times> metas" where
  "run_accepted sha io q pid env_vars r st ms =
    (if q_detach q then start_detached sha io q env_vars r st ms
     else (Inr ([], \<lparr>p_id = pid, p_vars = env_vars, p_timeout = q_timeout q, p_detach = False, p_recorder = r\<rparr>), st, ms))"

text \<open>
  \<^verbatim>\<open>POST /python\<close> after the fields were parsed. An attached run is handed to \<^verbatim>\<open>execute\<close>, which answers
  with the stream of the process; its reply is empty here.
\<close>

definition handle_execute :: "(byte list \<Rightarrow> string) \<Rightarrow> accept_io \<Rightarrow> run_request \<Rightarrow> rstore \<Rightarrow> metas \<Rightarrow>
    (failure + dict \<times> job_plan) \<times> rstore \<times> metas" where
  "handle_execute sha io q st ms = (case validate_request (q_script q) (q_module q) of
     Inl f \<Rightarrow> (Inl f, st, ms)
   | Inr _ \<Rightarrow> (case resolve_lager_process_id (a_minted io) (q_env q) of
       (pid, vars) \<Rightarrow>
         (case begin_run ((a_begin io)\<lparr>timeout_seconds := effective_timeout (q_timeout q) (q_detach q) MAX_TIMEOUT\<rparr>) (VStr pid) st of
            (Refused, st1) \<Rightarrow> (Inl (Http 503), st1, ms)
          | (Unrecorded, st1) \<Rightarrow> run_accepted sha io q pid (vars @ output_env io pid) None st1 ms
          | (Recording r, st1) \<Rightarrow> run_accepted sha io q pid (vars @ recorder_env io r @ output_env io (r_id r)) (Some r) st1 ms)))"

text \<open>What \<^verbatim>\<open>_prepare_and_spawn\<close> starts: the argument vector and the environment block.\<close>

definition SCRIPT_PYTHON :: string where "SCRIPT_PYTHON = ''/usr/local/bin/python3''"

definition spawn_plan :: "dict \<Rightarrow> env_inputs \<Rightarrow> string \<Rightarrow> byte list list \<Rightarrow> job_plan \<Rightarrow> (string list \<times> string) res" where
  "spawn_plan os_environ e script args p =
    res_bind (build_env_vars e (p_vars p)) (\<lambda>d.
    res_bind (res_map decode_utf8 args) (\<lambda>as.
    res_bind (environ_block (update_dict os_environ d)) (\<lambda>b.
      Inr (wrap_with_timeout ([SCRIPT_PYTHON, ''-u'', script] @ as) (p_timeout p) (p_detach p), b))))"

section \<open>Killing a job\<close>

datatype node = NDir | NFile string

text \<open>The run records, the processes being reaped and the files of the registry directory.\<close>

record jobs =
  j_store :: rstore
  j_reg :: registry
  j_files :: "string \<Rightarrow> node option"

text \<open>Which entries go: all, unless the removal fails on the way.\<close>

definition rmtree :: "(string \<Rightarrow> bool) \<Rightarrow> string \<Rightarrow> (string \<Rightarrow> node option) \<Rightarrow> string \<Rightarrow> node option" where
  "rmtree removed dir fs = (if fs dir = Some NDir then (\<lambda>q. if (q = dir \<or> inside dir q) \<and> removed q then None else fs q) else fs)"

definition sig_of_int :: "int \<Rightarrow> sig" where
  "sig_of_int i = (if i = 2 then SIGINT else if i = 15 then SIGTERM else if i = 9 then SIGKILL else OtherSignal i)"

text \<open>
  \<^verbatim>\<open>sig in range(0, NSIG)\<close>; the flag marks a float, which equals the number but is refused by
  \<^verbatim>\<open>os.kill\<close>.
\<close>

definition kill_signal :: "pyval \<Rightarrow> (sig \<times> bool) option" where
  "kill_signal v = (case v of
     VInt i \<Rightarrow> if 0 \<le> i \<and> i < 65 then Some (sig_of_int i, False) else None
   | VBool b \<Rightarrow> Some (OtherSignal (if b then 1 else 0), False)
   | VFloat (Fin r) \<Rightarrow> if r = of_int \<lfloor>r\<rfloor> \<and> 0 \<le> r \<and> r < 65 then Some (sig_of_int \<lfloor>r\<rfloor>, True) else None
   | _ \<Rightarrow> None)"

definition kill_found :: "kill_env \<Rightarrow> sig \<times> bool \<Rightarrow> int list \<Rightarrow> registry \<Rightarrow> (pyexc + nat \<times> int list) option \<times> registry" where
  "kill_found e s pids reg =
    (if snd s \<and> pids \<noteq> [] \<and> signal_targets (k_getpgid e) (k_leader_alive e) pids (fst s) \<noteq> []
     then (Some (Inl TypeError), Quiesce.finish pids (k_others e (begin_reap (k_started e) pids reg)))
     else case kill_pids e (fst s) pids reg of None \<Rightarrow> (None, reg) | Some ((n, left, _), reg') \<Rightarrow> (Some (Inr (n, left)), reg'))"

text \<open>\<open>None\<close>: the polls of the wait are used up and it has not returned.\<close>

definition kill_process :: "kill_env \<Rightarrow> string \<Rightarrow> string list \<Rightarrow> (int \<times> string option) list \<Rightarrow> (string \<Rightarrow> bool) \<Rightarrow> pyval \<Rightarrow> pyval \<Rightarrow> jobs \<Rightarrow>
    ((failure + nat \<times> int list) \<times> jobs) option" where
  "kill_process e now listed entries removed lager_process_id s js =
    (case kill_signal s of
       None \<Rightarrow> Some (Inl (Exec InvalidSignalError), js)
     | Some sg \<Rightarrow>
        let finish_kill = (\<lambda>target search dir.
              let js1 = js\<lparr>j_store := mark_cancelled now target listed (j_store js)\<rparr> in
              case kill_found e sg (scan_lager_pids search entries) (j_reg js) of
                (None, _) \<Rightarrow> None
              | (Some (Inl x), reg) \<Rightarrow> Some (Inl (Raises x), js1\<lparr>j_reg := reg\<rparr>)
              | (Some (Inr r), reg) \<Rightarrow> (case dir of
                    None \<Rightarrow> Some (Inl (Exec LagerPythonInvalidProcessIdError), js1\<lparr>j_reg := reg\<rparr>)
                  | Some p \<Rightarrow> Some (Inr r, js1\<lparr>j_reg := reg, j_files := rmtree removed p (j_files js)\<rparr>))) in
        if \<not> truthy lager_process_id then finish_kill None (PROCESS_ID @ ''='') (Some PROCESS_REGISTRY_DIR)
        else (case lager_process_id of
            VStr i \<Rightarrow> if \<not> uuid_ok i then Some (Inl (Exec LagerPythonInvalidProcessIdError), js)
              else let p = normpath (path_join PROCESS_REGISTRY_DIR i) in
                finish_kill (Some (VStr i)) (PROCESS_ID @ ''='' @ i) (if inside PROCESS_REGISTRY_DIR p then Some p else None)
          | _ \<Rightarrow> Some (Inl (Raises AttributeError), js)))"

definition handle_kill :: "kill_env \<Rightarrow> string \<Rightarrow> string list \<Rightarrow> (int \<times> string option) list \<Rightarrow> (string \<Rightarrow> bool) \<Rightarrow> pyval res \<Rightarrow> jobs \<Rightarrow>
    ((failure + dict) \<times> jobs) option" where
  "handle_kill e now listed entries removed body js = (case body of
     Inl x \<Rightarrow> Some (Inl (Raises x), js)
   | Inr (VDict d) \<Rightarrow> map_option (map_prod (map_sum id (\<lambda>_. [(''status'', VStr ''killed'')])) id)
       (kill_process e now listed entries removed (dict_get d ''lager_process_id'')
          (if dict_has d ''signal'' then dict_get d ''signal'' else VInt 15) js)
   | Inr _ \<Rightarrow> Some (Inl (Raises AttributeError), js))"

section \<open>Requests that name a job\<close>

text \<open>The checks the attach, continue and breakpoint requests share.\<close>

definition job_dir :: "pyval res \<Rightarrow> failure + string" where
  "job_dir body = (case body of
     Inl x \<Rightarrow> Inl (Raises x)
   | Inr (VDict d) \<Rightarrow> let v = dict_get d ''lager_process_id'' in
       if \<not> truthy v then Inl (Http 400)
       else (case v of
           VStr i \<Rightarrow> if \<not> uuid_ok i then Inl (Exec LagerPythonInvalidProcessIdError)
             else let p = normpath (path_join PROCESS_REGISTRY_DIR i) in
               if inside PROCESS_REGISTRY_DIR p then Inr p else Inl (Exec LagerPythonInvalidProcessIdError)
         | _ \<Rightarrow> Inl (Raises AttributeError))
   | Inr _ \<Rightarrow> Inl (Raises AttributeError))"

text \<open>The two files the reattached stream reads.\<close>

definition handle_attach :: "(string \<Rightarrow> node option) \<Rightarrow> pyval res \<Rightarrow> failure + string \<times> string" where
  "handle_attach fs body = (case job_dir body of
     Inl f \<Rightarrow> Inl f
   | Inr p \<Rightarrow> if fs p = Some NDir then Inr (path_join p ''output.log'', path_join p ''meta.json'')
       else Inl (Exec LagerPythonProcessNotFoundError))"

section \<open>Laws\<close>

lemma uuid_dir: "uuid_ok i \<Longrightarrow> normpath (path_join PROCESS_REGISTRY_DIR i) = PROCESS_REGISTRY_DIR @ slash # i"
  by (simp add: uuid_ok_plain process_dir_plain)

lemma uuid_inside: "uuid_ok i \<Longrightarrow> inside PROCESS_REGISTRY_DIR (normpath (path_join PROCESS_REGISTRY_DIR i))"
  by (auto simp: uuid_dir inside_iff)

lemma distinct_put_var: "distinct (map fst d) \<Longrightarrow> distinct (map fst (put_var v d))"
  by (simp add: put_var_def split: prod.splits option.splits)

lemma distinct_client_vars: "distinct (map fst (client_vars vs))"
proof -
  have "distinct (map fst d) \<Longrightarrow> distinct (map fst (fold put_var vs d))" for d
    by (induction vs arbitrary: d) (simp_all add: distinct_put_var)
  then show ?thesis by (simp add: client_vars_def)
qed

lemma distinct_update_dict: "distinct (map fst d) \<Longrightarrow> distinct (map fst (update_dict d kvs))"
proof -
  have "distinct (map fst d) \<Longrightarrow> distinct (map fst (foldl (\<lambda>d (k, v). dict_set d k v) d kvs))"
    by (induction kvs arbitrary: d) auto
  then show "distinct (map fst d) \<Longrightarrow> distinct (map fst (update_dict d kvs))" by (simp add: update_dict_def)
qed

lemma distinct_put_truthy: "distinct (map fst d) \<Longrightarrow> distinct (map fst (put_truthy k v d))"
  by (simp add: put_truthy_def)

lemma distinct_secrets: "distinct (map fst d) \<Longrightarrow> distinct (map fst (fold (\<lambda>(k, v) d. dict_set d (SECRET_PREFIX @ k) v) s d))"
  by (induction s arbitrary: d) auto

lemma distinct_build_env: "build_env_vars e vs = Inr d \<Longrightarrow> distinct (map fst d)"
  by (auto simp: build_env_vars_def Let_def intro!: distinct_put_truthy distinct_secrets distinct_dict_set distinct_update_dict distinct_client_vars
      split: pyval.splits)

text \<open>A process that carries the id is found by the scan.\<close>

lemma spawned_found:
  assumes "spawn_plan os e script args p = Inr (argv, b)" "map_of (client_vars (p_vars p)) PROCESS_ID = Some (VStr i)" "(pid, Some b) \<in> set entries"
  shows "pid \<in> set (scan_lager_pids (PROCESS_ID @ ''='' @ i) entries)"
proof -
  from assms(1) obtain d where d: "build_env_vars e (p_vars p) = Inr d" "environ_block (update_dict os d) = Inr b"
    by (auto simp: spawn_plan_def res_bind_eq_Inr)
  with assms(2) build_env_id have "map_of (update_dict os d) PROCESS_ID = Some (VStr i)"
    using update_dict_keeps distinct_build_env by (metis (no_types))
  with d(2) environ_block_contains have "contains_bytes (PROCESS_ID @ ''='' @ i) b" by blast
  with assms(3) show ?thesis unfolding scan_lager_pids_def by force
qed

lemma spawn_argv: "spawn_plan os e script args p = Inr (argv, b) \<Longrightarrow>
    \<exists>as. argv = wrap_with_timeout ([SCRIPT_PYTHON, ''-u'', script] @ as) (p_timeout p) (p_detach p)"
  by (auto simp: spawn_plan_def res_bind_eq_Inr)

lemma extra_vars_no_id: "id_entries (recorder_env io r) = []" "id_entries (output_env io rid) = []"
  by (simp_all add: recorder_env_def output_env_def startswith_def PROCESS_ID_def)

text \<open>What an accepted run is handed.\<close>

lemma begin_run_timeout: "begin_run e v st = (Recording r, st') \<Longrightarrow> r_timeout r = timeout_seconds e \<and> r_id r = choose_id e v st"
  by (auto simp: begin_run_def try_begin_def open_run_def Let_def split: sum.splits prod.splits if_splits option.splits)

lemma handle_execute_cases:
  assumes "handle_execute sha io q st ms = (Inr (resp, p), st', ms')"
  obtains pid vars extra st1 where "resolve_lager_process_id (a_minted io) (q_env q) = (pid, vars)"
    "run_accepted sha io q pid (vars @ extra) (p_recorder p) st1 ms = (Inr (resp, p), st', ms')" "id_entries extra = []"
    "\<forall>r. p_recorder p = Some r \<longrightarrow> r_timeout r = effective_timeout (q_timeout q) (q_detach q) MAX_TIMEOUT \<and>
       (valid_run_id (VStr pid) \<and> open_recs st pid = None \<and> \<not> is_final st pid \<longrightarrow> r_id r = pid)"
proof -
  obtain pid vars where res: "resolve_lager_process_id (a_minted io) (q_env q) = (pid, vars)" by (cases "resolve_lager_process_id (a_minted io) (q_env q)")
  let ?e = "(a_begin io)\<lparr>timeout_seconds := effective_timeout (q_timeout q) (q_detach q) MAX_TIMEOUT\<rparr>"
  obtain br st1 where b: "begin_run ?e (VStr pid) st = (br, st1)" by (cases "begin_run ?e (VStr pid) st")
  have plan: "p_recorder p = r" if "run_accepted sha io q pid vs r st1 ms = (Inr (resp, p), st', ms')" for vs r
    using that by (auto simp: run_accepted_def start_detached_def validate_request_def split: if_splits prod.splits sum.splits)
  show ?thesis
  proof (cases br)
    case (Recording r)
    then have "run_accepted sha io q pid (vars @ recorder_env io r @ output_env io (r_id r)) (Some r) st1 ms = (Inr (resp, p), st', ms')"
      using assms b res by (simp add: handle_execute_def validate_request_def split: if_splits)
    moreover have "r_timeout r = effective_timeout (q_timeout q) (q_detach q) MAX_TIMEOUT" "r_id r = choose_id ?e (VStr pid) st"
      using begin_run_timeout [of ?e "VStr pid" st r st1] b Recording by simp_all
    ultimately show ?thesis using that [OF res] plan extra_vars_no_id by (simp add: choose_id_def)
  next
    case Unrecorded
    then have "run_accepted sha io q pid (vars @ output_env io pid) None st1 ms = (Inr (resp, p), st', ms')"
      using assms b res by (simp add: handle_execute_def validate_request_def split: if_splits)
    then show ?thesis using that [OF res] plan extra_vars_no_id by simp
  qed (use assms b res in \<open>simp add: handle_execute_def validate_request_def split: if_splits\<close>)
qed

lemma mark_cancelled_named:
  "mark_cancelled now (Some (VStr i)) listed st =
    (if valid_run_id (VStr i) \<and> open_recs st (fs_slug i) \<noteq> None \<and> cancels st (fs_slug i) = None
     then st\<lparr>cancels := (cancels st)(fs_slug i := Some now)\<rparr> else st)"
  by (auto simp: mark_cancelled_def mark_one_def Let_def)

lemma rmtree_outside: "q \<noteq> p \<Longrightarrow> \<not> inside p q \<Longrightarrow> rmtree removed p fs q = fs q"
  by (simp add: rmtree_def)

text \<open>The outcome of a kill that names a job, and of one that does not.\<close>

lemma kill_named_cases:
  assumes "kill_process e now listed entries removed (VStr i) s js = Some (r, js')" "uuid_ok i" "kill_signal s \<noteq> None"
  shows "j_store js' = mark_cancelled now (Some (VStr i)) listed (j_store js) \<and>
    (j_files js' = j_files js \<and> (\<exists>x. r = Inl (Raises x)) \<or>
     j_files js' = rmtree removed (PROCESS_REGISTRY_DIR @ slash # i) (j_files js) \<and> (\<exists>x. r = Inr x))"
proof -
  have "i \<noteq> []" using uuid_ok_plain [OF assms(2)] by (auto simp: plain_def)
  with assms uuid_inside [OF assms(2)] show ?thesis
    by (auto simp: kill_process_def Let_def uuid_dir split: option.splits prod.splits sum.splits)
qed

lemma kill_error_cases:
  assumes "kill_process e now listed entries removed v s js = Some (r, js')" "\<nexists>i. v = VStr i \<and> uuid_ok i" "truthy v \<or> kill_signal s = None"
  shows "js' = js \<and> (\<exists>f. r = Inl f)"
  using assms by (cases v) (auto simp: kill_process_def Let_def split: option.splits if_splits)

lemma kill_all_cases:
  assumes "kill_process e now listed entries removed v s js = Some (r, js')" "\<not> truthy v"
  shows "j_files js' = j_files js \<or> j_files js' = rmtree removed PROCESS_REGISTRY_DIR (j_files js)"
  using assms by (auto simp: kill_process_def Let_def split: option.splits prod.splits sum.splits)

section \<open>Examples\<close>

text \<open>With two ids in a request the answer names the first and the process carries the second.\<close>

lemma two_ids_differ:
  "resolve_lager_process_id m [PROCESS_ID @ ''=a'', PROCESS_ID @ ''=b''] = (''a'', [PROCESS_ID @ ''=a'', PROCESS_ID @ ''=b'']) \<and>
   map_of (client_vars [PROCESS_ID @ ''=a'', PROCESS_ID @ ''=b'']) PROCESS_ID = Some (VStr ''b'')"
  by (simp add: resolve_lager_process_id_def startswith_def client_vars_def put_var_get PROCESS_ID_facts)

definition sample_accept :: accept_io where
  "sample_accept = \<lparr>a_minted = ''m'', a_minted2 = ''m'', a_begin = sample_begin, a_open_dir = ''/r/open'', a_output_root = ''/o'',
     a_output_made = True, a_registered = True, a_meta_ok = True, a_started = Fin 1, a_finish = sample_finish\<rparr>"

definition sample_request :: run_request where
  "sample_request = \<lparr>q_detach = True, q_stdout_is_stderr = True, q_timeout = 0, q_script = True, q_module = False, q_args = [],
     q_env = [PROCESS_ID @ ''=r1''], q_muxes = VNone, q_usb = VNone, q_dut = VNone, q_holder = VNone\<rparr>"

definition sample_plan :: job_plan where
  "sample_plan = \<lparr>p_id = ''r1'', p_vars = [PROCESS_ID @ ''=r1'', ''LAGER_RUN_ASSERTIONS=/r/open/r1.script'', ''LAGER_OUTPUT_DIR=/o/r1''],
     p_timeout = 0, p_detach = True, p_recorder = Some sample_run\<rparr>"

definition sample_metas :: metas where
  "sample_metas = (\<lambda>_. Missing)(PROCESS_REGISTRY_DIR @ ''/r1'' := register_detached_job True ''r1'' (Fin 1) Missing)"

lemma sample_accepted:
  "handle_execute sample_sha sample_accept sample_request (store rsys0) (\<lambda>_. Missing) =
    (Inr (detached_reply ''r1'' VNone, sample_plan), sample_store, sample_metas)"
proof -
  have id: "first_id ((PROCESS_ID @ ''=r1'') # vs) = Some ''r1''" for vs
    by (simp add: startswith_def PROCESS_ID_facts)
  have b: "sample_begin\<lparr>timeout_seconds := effective_timeout 0 True MAX_TIMEOUT\<rparr> = sample_begin"
    by (simp add: sample_begin_def effective_timeout_def)
  have dir: "process_dir_for ''r1'' = Inr (PROCESS_REGISTRY_DIR @ ''/r1'')" using process_dir_for_plain [of "''r1''"] by (simp add: plain_def)
  have env: "recorder_env sample_accept sample_run = [''LAGER_RUN_ASSERTIONS=/r/open/r1.script'']"
    "output_env sample_accept (r_id sample_run) = [''LAGER_OUTPUT_DIR=/o/r1'']"
    by (simp_all add: recorder_env_def output_env_def sample_accept_def sample_run_def path_join_def) code_simp
  have f: "a_begin sample_accept = sample_begin" "q_script sample_request" "q_timeout sample_request = 0" "q_detach sample_request"
    "q_env sample_request = [PROCESS_ID @ ''=r1'']" "a_registered sample_accept" "a_meta_ok sample_accept" "a_started sample_accept = Fin 1"
    "q_holder sample_request = VNone" by (simp_all add: sample_accept_def sample_request_def)
  show ?thesis
    by (simp add: handle_execute_def validate_request_def f b resolve_lager_process_id_def id sample_begins env run_accepted_def start_detached_def dir
        sample_plan_def sample_metas_def del: first_id.simps)
qed

section \<open>Properties\<close>

text \<open>
  C32. A job has one id. When a request for a detached run is accepted and the client sent at
  most one \<^verbatim>\<open>LAGER_PROCESS_ID\<close>, the id of the answer is the one the registry entry is under, the
  one the run record is under (unless the id was used before or is not a valid record id), and
  the one in the environment of every process that is started for the job: the scan of a kill
  by that id finds the process. The timeout in the record is the deadline in the argument vector,
  and a process without a deadline wrapper has no timeout in its record.
\<close>

theorem job_has_one_id:
  assumes "handle_execute sha io q st ms = (Inr (resp, p), st', ms')" and "q_detach q"
    and "length (id_entries (q_env q)) \<le> 1" and "a_minted io \<noteq> []"
  shows "dict_get resp ''lager_process_id'' = VStr (p_id p) \<and>
    (\<exists>dir. process_dir_for (p_id p) = Inr dir \<and>
       ms' = ms(dir := register_detached_job (a_meta_ok io) (p_id p) (a_started io) (ms dir))) \<and>
    (\<forall>os e script args argv b pid entries. spawn_plan os e script args p = Inr (argv, b) \<and> (pid, Some b) \<in> set entries \<longrightarrow>
       pid \<in> set (scan_lager_pids (PROCESS_ID @ ''='' @ p_id p) entries)) \<and>
    (\<forall>r. p_recorder p = Some r \<longrightarrow>
       (valid_run_id (VStr (p_id p)) \<and> open_recs st (p_id p) = None \<and> \<not> is_final st (p_id p) \<longrightarrow> r_id r = p_id p) \<and>
       (\<forall>os e script args argv b. spawn_plan os e script args p = Inr (argv, b) \<longrightarrow>
          (\<exists>as. argv = (if r_timeout r = 0 then [] else timeout_argv (r_timeout r)) @ [SCRIPT_PYTHON, ''-u'', script] @ as)))"
proof -
  from handle_execute_cases [OF assms(1)] obtain pid vars extra st1 where
    res: "resolve_lager_process_id (a_minted io) (q_env q) = (pid, vars)" and
    acc: "run_accepted sha io q pid (vars @ extra) (p_recorder p) st1 ms = (Inr (resp, p), st', ms')" and
    extra: "id_entries extra = []" and
    rec: "\<forall>r. p_recorder p = Some r \<longrightarrow> r_timeout r = effective_timeout (q_timeout q) (q_detach q) MAX_TIMEOUT \<and>
       (valid_run_id (VStr pid) \<and> open_recs st pid = None \<and> \<not> is_final st pid \<longrightarrow> r_id r = pid)" by blast
  note again = resolve_again(2) [OF res assms(4)]
  from acc assms(2) again obtain dir where dir: "process_dir_for pid = Inr dir"
    "resp = detached_reply pid (q_holder q)" "p = \<lparr>p_id = pid, p_vars = vars @ extra, p_timeout = q_timeout q, p_detach = True, p_recorder = p_recorder p\<rparr>"
    "ms' = ms(dir := register_detached_job (a_meta_ok io) pid (a_started io) (ms dir))"
    by (auto simp: run_accepted_def start_detached_def split: sum.splits if_splits)
  then have f: "p_id p = pid" "p_vars p = vars @ extra" "p_timeout p = q_timeout q" "p_detach p" by (metis job_plan.select_convs)+
  have var: "map_of (client_vars (p_vars p)) PROCESS_ID = Some (VStr pid)" using resolve_sets_id [OF res assms(3) extra] f(2) by simp
  have argv: "\<exists>as. argv = (if r_timeout r = 0 then [] else timeout_argv (r_timeout r)) @ [SCRIPT_PYTHON, ''-u'', script] @ as"
    if r: "p_recorder p = Some r" and sp: "spawn_plan os e script args p = Inr (argv, b)" for r os e script args argv b
    using spawn_argv [OF sp] rec [rule_format, OF r] assms(2) f(3,4) by (auto simp: wrapped_deadline effective_timeout_def)
  show ?thesis unfolding f(1) using dir rec argv spawned_found [OF _ var] by (auto simp: detached_reply_def)
qed

theorem job_has_one_id_witness:
  "dict_get (detached_reply ''r1'' VNone) ''lager_process_id'' = VStr (p_id sample_plan) \<and>
   (\<exists>dir. process_dir_for ''r1'' = Inr dir \<and> sample_metas = (\<lambda>_. Missing)(dir := register_detached_job True ''r1'' (Fin 1) Missing))"
proof -
  have "q_detach sample_request" "length (id_entries (q_env sample_request)) \<le> 1" "a_minted sample_accept \<noteq> []"
    by (simp_all add: sample_request_def sample_accept_def)
  note j = job_has_one_id [OF sample_accepted this]
  have "p_id sample_plan = ''r1''" "a_meta_ok sample_accept" "a_started sample_accept = Fin 1" by (simp_all add: sample_plan_def sample_accept_def)
  with conjunct1 [OF j] conjunct1 [OF conjunct2 [OF j]] show ?thesis by auto
qed

text \<open>
  C33. A kill stays with its job. A kill that names a job and passes the checks changes the files
  of that job's directory and the cancellation mark of that job's record, and nothing else of the
  registry or of the records; an answered one has removed the directory, as far as the removal succeeds; a kill of a job whose record is open leaves it marked, before the
  first signal; a kill that fails the check of its id or signal changes nothing; and a kill of
  all jobs removes nothing outside the registry directory.
\<close>

theorem kill_stays_with_job:
  assumes "kill_process e now listed entries removed v s js = Some (r, js')"
  shows "(\<forall>x. r = Inl (Exec x) \<longrightarrow> js' = js) \<and>
    (\<forall>i. v = VStr i \<and> uuid_ok i \<longrightarrow>
       (\<forall>q. q \<noteq> PROCESS_REGISTRY_DIR @ slash # i \<and> \<not> inside (PROCESS_REGISTRY_DIR @ slash # i) q \<longrightarrow> j_files js' q = j_files js q) \<and>
       (\<exists>c. j_store js' = (j_store js)\<lparr>cancels := c\<rparr> \<and> (\<forall>rid. rid \<noteq> fs_slug i \<longrightarrow> c rid = cancels (j_store js) rid)) \<and>
       (\<forall>x. r = Inr x \<and> (\<forall>q. removed q) \<and> j_files js (PROCESS_REGISTRY_DIR @ slash # i) = Some NDir \<longrightarrow>
          (\<forall>q. inside (PROCESS_REGISTRY_DIR @ slash # i) q \<longrightarrow> j_files js' q = None)) \<and>
       (kill_signal s \<noteq> None \<and> valid_run_id v \<and> open_recs (j_store js) (fs_slug i) \<noteq> None \<longrightarrow> cancels (j_store js') (fs_slug i) \<noteq> None)) \<and>
    (\<forall>q. q \<noteq> PROCESS_REGISTRY_DIR \<and> \<not> inside PROCESS_REGISTRY_DIR q \<longrightarrow> j_files js' q = j_files js q)"
proof (cases "\<exists>i. v = VStr i \<and> uuid_ok i \<and> kill_signal s \<noteq> None")
  case True
  then obtain i where i: "v = VStr i" "uuid_ok i" "kill_signal s \<noteq> None" by blast
  note k = kill_named_cases [OF assms [unfolded i(1)] i(2,3)]
  have out: "j_files js' q = j_files js q" if "q \<noteq> PROCESS_REGISTRY_DIR @ slash # i" "\<not> inside (PROCESS_REGISTRY_DIR @ slash # i) q" for q
    using k rmtree_outside [OF that] by metis
  have "\<not> inside PROCESS_REGISTRY_DIR q \<Longrightarrow> q \<noteq> PROCESS_REGISTRY_DIR @ slash # i \<and> \<not> inside (PROCESS_REGISTRY_DIR @ slash # i) q" for q
    by (auto simp: inside_iff)
  moreover have "\<exists>c. j_store js' = (j_store js)\<lparr>cancels := c\<rparr> \<and> (\<forall>rid. rid \<noteq> fs_slug i \<longrightarrow> c rid = cancels (j_store js) rid)"
    using k by (auto simp: mark_cancelled_named intro: exI [of _ "cancels (j_store js)"])
  moreover have "inside (PROCESS_REGISTRY_DIR @ slash # i) q \<Longrightarrow> j_files js' q = None"
    if "r = Inr x" "\<forall>q. removed q" "j_files js (PROCESS_REGISTRY_DIR @ slash # i) = Some NDir" for x q
    using k that by (auto simp: rmtree_def)
  ultimately show ?thesis using i k out by (auto simp: mark_cancelled_named)
next
  case False
  show ?thesis
  proof (cases "truthy v \<or> kill_signal s = None")
    case True
    have "js' = js \<and> (\<exists>f. r = Inl f)"
    proof (cases "kill_signal s")
      case None
      with assms show ?thesis by (auto simp: kill_process_def)
    next
      case (Some a)
      with False True kill_error_cases [OF assms] show ?thesis by auto
    qed
    moreover have "\<exists>c. j_store js = (j_store js)\<lparr>cancels := c\<rparr> \<and> (\<forall>rid. rid \<noteq> x \<longrightarrow> c rid = cancels (j_store js) rid)" for x
      by (intro exI [of _ "cancels (j_store js)"]) simp
    ultimately show ?thesis using False by auto
  next
    case all: False
    with kill_all_cases [OF assms] rmtree_outside have "\<forall>q. q \<noteq> PROCESS_REGISTRY_DIR \<and> \<not> inside PROCESS_REGISTRY_DIR q \<longrightarrow> j_files js' q = j_files js q" by metis
    moreover have "r \<noteq> Inl (Exec x)" for x using all assms by (auto simp: kill_process_def Let_def split: option.splits prod.splits sum.splits)
    moreover have "\<not> (v = VStr i \<and> uuid_ok i)" for i using all uuid_ok_plain by (auto simp: plain_def)
    ultimately show ?thesis by blast
  qed
qed

definition sample_uuid :: string where "sample_uuid = ''0f8fad5b-d9cb-469f-a165-70867728950e''"

definition sample_jobs :: jobs where
  "sample_jobs = \<lparr>j_store = store rsys0, j_reg = [],
     j_files = (\<lambda>_. None)(PROCESS_REGISTRY_DIR @ slash # sample_uuid := Some NDir,
       PROCESS_REGISTRY_DIR @ slash # sample_uuid @ ''/output.log'' := Some (NFile []), ''/tmp/other'' := Some (NFile []))\<rparr>"

theorem kill_stays_with_job_witness:
  "\<exists>r js'. kill_process stubborn_job ''t'' [] [] (\<lambda>_. True) (VStr sample_uuid) (VInt 15) sample_jobs = Some (r, js') \<and>
     j_files js' ''/tmp/other'' = Some (NFile []) \<and> j_files js' (PROCESS_REGISTRY_DIR @ slash # sample_uuid @ ''/output.log'') = None"
proof -
  have u: "uuid_ok sample_uuid" "sample_uuid \<noteq> []" by code_simp+
  have s: "kill_signal (VInt 15) = Some (SIGTERM, False)" by code_simp
  obtain js' where k: "kill_process stubborn_job ''t'' [] [] (\<lambda>_. True) (VStr sample_uuid) (VInt 15) sample_jobs = Some (Inr (0, []), js')"
    using u uuid_inside [OF u(1)] by (simp add: kill_process_def s Let_def kill_found_def kill_pids_def scan_lager_pids_def)
  have "inside (PROCESS_REGISTRY_DIR @ slash # sample_uuid) (PROCESS_REGISTRY_DIR @ slash # sample_uuid @ ''/output.log'')"
    "\<not> inside PROCESS_REGISTRY_DIR ''/tmp/other''" "''/tmp/other'' \<noteq> PROCESS_REGISTRY_DIR" by code_simp+
  moreover have "j_files sample_jobs (PROCESS_REGISTRY_DIR @ slash # sample_uuid) = Some NDir" "j_files sample_jobs ''/tmp/other'' = Some (NFile [])"
    by (simp_all add: sample_jobs_def PROCESS_REGISTRY_DIR_def)
  ultimately show ?thesis using kill_stays_with_job [OF k] u(1) k by auto
qed

end
