(* ===== verification/Breakpoint.thy ===== *)
theory Breakpoint
  imports Job_Service
begin

text \<open>
  Breakpoints of a running script, \<^verbatim>\<open>box/lager/breakpoint.py\<close>, with the requests that resume and
  report them in \<^verbatim>\<open>box/lager/python/service.py\<close>. The two sides share two files of the job's
  directory: the script writes \<^verbatim>\<open>breakpoint.json\<close> and polls for \<^verbatim>\<open>resume\<close>, a request looks for the first
  and writes the second. Shown: a wait with a deadline ends, for one of its two reasons; a
  script is resumed only by a request that has seen a state file of it; the request saw this
  very breakpoint unless it was on its way when the script got there, or the old marker could
  not be removed, and then it may have seen an earlier one. A state file that could not be
  written or removed outlives its breakpoint, and a request finds a breakpoint that is not there.
\<close>

section \<open>Settings\<close>

definition enabled :: "string option \<Rightarrow> bool" where
  "enabled env = (lower (strip (case env of None \<Rightarrow> [] | Some s \<Rightarrow> s)) \<notin> {''0'', ''off'', ''false'', ''no''})"

definition coerce_number :: "pyval \<Rightarrow> pyval \<Rightarrow> pyval" where
  "coerce_number v fallback = (case v of
     VBool _ \<Rightarrow> fallback
   | VInt i \<Rightarrow> VInt i
   | VFloat f \<Rightarrow> VFloat f
   | _ \<Rightarrow> (case py_int v of
        Inr i \<Rightarrow> VInt i
      | Inl _ \<Rightarrow> (case py_float v of Inr f \<Rightarrow> VFloat f | Inl _ \<Rightarrow> fallback)))"

definition DEFAULT_TIMEOUT :: pyval where "DEFAULT_TIMEOUT = VInt 300"

definition resolve_timeout :: "string option \<Rightarrow> pyval \<Rightarrow> pyval" where
  "resolve_timeout env timeout =
    (if timeout = VNone then (case env of None \<Rightarrow> DEFAULT_TIMEOUT | Some s \<Rightarrow> coerce_number (VStr s) DEFAULT_TIMEOUT)
     else coerce_number timeout DEFAULT_TIMEOUT)"

section \<open>The wait\<close>

text \<open>\<^verbatim>\<open>time.monotonic() + timeout if timeout and timeout > 0 else None\<close>.\<close>

definition bp_deadline :: "rat \<Rightarrow> pyval \<Rightarrow> pyfloat option res" where
  "bp_deadline now timeout = (case timeout of
     VInt i \<Rightarrow> if i \<le> 0 then Inr None
       else (case to_binary64 (of_int i) of Fin x \<Rightarrow> Inr (Some (to_binary64 (now + x))) | _ \<Rightarrow> Inl OverflowError)
   | VFloat (Fin r) \<Rightarrow> if r \<le> 0 then Inr None else Inr (Some (to_binary64 (now + r)))
   | VFloat PInf \<Rightarrow> Inr (Some PInf)
   | _ \<Rightarrow> Inr None)"

datatype wake = Resumed | TimedOut

text \<open>The polls: whether the marker is there, and the clock. \<open>None\<close>: they are used up.\<close>

fun wait_resume :: "pyfloat option \<Rightarrow> (bool \<times> rat) list \<Rightarrow> wake option" where
  "wait_resume deadline [] = None"
| "wait_resume deadline ((marker, now) # polls) =
    (if marker then Some Resumed
     else if (case deadline of None \<Rightarrow> False | Some d \<Rightarrow> \<not> float_gt d (Fin now)) then Some TimedOut
     else wait_resume deadline polls)"

text \<open>
  \<^verbatim>\<open>pause\<close>: it does nothing when breakpoints are off or the script does not run under the box. Errors
  in at_rest (the directory, the state file, the deadline) are caught; the outcome says how the
  script got on. The flag: the directory and the state file were written.
\<close>

datatype pause_result = Skipped | Failed | Woken wake

definition pause :: "string option \<Rightarrow> string option \<Rightarrow> string option \<Rightarrow> pyval \<Rightarrow> bool \<Rightarrow> rat \<Rightarrow> (bool \<times> rat) list \<Rightarrow> pause_result option" where
  "pause env_on env_timeout env_id timeout files_ok now polls =
    (if \<not> enabled env_on then Some Skipped
     else if env_id = None \<or> env_id = Some [] then Some Skipped
     else if \<not> files_ok then Some Failed
     else case bp_deadline now (resolve_timeout env_timeout timeout) of
       Inl _ \<Rightarrow> Some Failed
     | Inr d \<Rightarrow> map_option Woken (wait_resume d polls))"

section \<open>Requests\<close>

text \<open>The files of one job.\<close>

record bp_dir =
  b_state :: json_file
  b_resume :: bool

definition paused_file :: "bp_dir \<Rightarrow> bool" where
  "paused_file d = (b_state d \<noteq> Missing)"

text \<open>
  \<^verbatim>\<open>POST /python/continue\<close> in its two parts: the look and the write. The marker is there once it
  is opened; the flags say whether the open and the write succeed.
\<close>

definition continue_check :: "(string \<Rightarrow> bp_dir) \<Rightarrow> pyval res \<Rightarrow> failure + string \<times> bool" where
  "continue_check dirs body = (case body of
     Inl _ \<Rightarrow> Inl (Http 400)
   | Inr v \<Rightarrow> map_sum id (\<lambda>p. (p, paused_file (dirs p))) (job_dir (Inr v)))"

definition continue_write :: "bool \<Rightarrow> bool \<Rightarrow> string \<times> bool \<Rightarrow> (string \<Rightarrow> bp_dir) \<Rightarrow> (failure + dict) \<times> (string \<Rightarrow> bp_dir)" where
  "continue_write opened ok pw dirs = (case pw of (p, was_paused) \<Rightarrow>
     if \<not> was_paused then (Inr [(''resumed'', VBool False)], dirs)
     else if \<not> opened then (Inl (Raises OSError), dirs)
     else (if ok then Inr [(''resumed'', VBool True)] else Inl (Raises OSError), dirs(p := (dirs p)\<lparr>b_resume := True\<rparr>)))"

definition handle_breakpoint :: "(string \<Rightarrow> bp_dir) \<Rightarrow> pyval res \<Rightarrow> failure + pyval" where
  "handle_breakpoint dirs body = (case body of
     Inl _ \<Rightarrow> Inl (Http 400)
   | Inr v \<Rightarrow> map_sum id (\<lambda>p. case b_state (dirs p) of JsonDoc d \<Rightarrow> d | _ \<Rightarrow> VDict [(''paused'', VBool False)]) (job_dir (Inr v)))"

section \<open>Script and requests together\<close>

text \<open>
  The script at its breakpoint number \<open>gen\<close>, and the files of its job. Ghosts: \<open>wrote\<close> is what
  the request saw which wrote the marker last, \<open>seen\<close> what the requests saw that are on their
  way: the number of the script's last breakpoint, and whether the script was at it; \<open>woken\<close> how
  the script left each breakpoint. \<open>left_state\<close>: a state file has outlived its breakpoint;
  \<open>left_marker\<close>: an old marker could not be removed when the script got to a breakpoint.
\<close>

datatype bp_pc = Running | Cleared | Opened | BWaiting | BLeaving | Unmarked

record bsys =
  pc :: bp_pc
  gen :: nat
  bfiles :: bp_dir
  wrote :: "nat \<times> bool"
  seen :: "(nat \<times> bool) list"
  woken :: "(nat \<times> wake \<times> nat \<times> bool) list"
  left_state :: bool
  left_marker :: bool

definition at_breakpoint :: "bsys \<Rightarrow> bool" where
  "at_breakpoint s = (pc s \<in> {Opened, BWaiting, BLeaving, Unmarked})"

text \<open>
  Steps of the script: clear an old marker, open and write the state file, poll (with any
  deadline and clock), remove the two files. The removals are quiet: \<open>ok\<close> says whether they
  succeed. An error of the open or of the write (a full disk, a label that is no JSON value) is
  outside the \<^verbatim>\<open>try\<close> with the removals, so the script runs on and a half-written state file
  stays; an error of the wait is inside. Steps of a request: look for the state file, write
  the marker, or fail to. With \<open>overlap\<close> a request may be on its way when the script gets to a
  breakpoint.
\<close>

inductive bstep :: "bool \<Rightarrow> bsys \<Rightarrow> bsys \<Rightarrow> bool" for overlap where
  Arrive: "pc s = Running \<Longrightarrow> overlap \<or> seen s = [] \<Longrightarrow>
    bstep overlap s (s\<lparr>pc := Cleared, gen := Suc (gen s),
      bfiles := (bfiles s)\<lparr>b_resume := b_resume (bfiles s) \<and> \<not> ok\<rparr>, left_marker := left_marker s \<or> \<not> ok\<rparr>)"
| OpenState: "pc s = Cleared \<Longrightarrow> bstep overlap s (s\<lparr>pc := Opened, bfiles := (bfiles s)\<lparr>b_state := NotJson\<rparr>\<rparr>)"
| OpenFails: "pc s = Cleared \<Longrightarrow> bstep overlap s (s\<lparr>pc := Running\<rparr>)"
| WriteState: "pc s = Opened \<Longrightarrow> bstep overlap s (s\<lparr>pc := BWaiting, bfiles := (bfiles s)\<lparr>b_state := JsonDoc v\<rparr>\<rparr>)"
| WriteStateFails: "pc s = Opened \<Longrightarrow> bstep overlap s (s\<lparr>pc := Running, left_state := True\<rparr>)"
| Poll: "pc s = BWaiting \<Longrightarrow> wait_resume d [(b_resume (bfiles s), now)] = Some w \<Longrightarrow>
    bstep overlap s (s\<lparr>pc := BLeaving, woken := (gen s, w, wrote s) # woken s\<rparr>)"
| WaitRaises: "pc s = BWaiting \<Longrightarrow> bstep overlap s (s\<lparr>pc := BLeaving\<rparr>)"
| UnlinkMarker: "pc s = BLeaving \<Longrightarrow>
    bstep overlap s (s\<lparr>pc := Unmarked, bfiles := (bfiles s)\<lparr>b_resume := b_resume (bfiles s) \<and> \<not> ok\<rparr>\<rparr>)"
| UnlinkState: "pc s = Unmarked \<Longrightarrow>
    bstep overlap s (s\<lparr>pc := Running, bfiles := (bfiles s)\<lparr>b_state := (if ok then Missing else b_state (bfiles s))\<rparr>,
      left_state := left_state s \<or> \<not> ok\<rparr>)"
| Look: "continue_check (\<lambda>_. bfiles s) body = Inr (p, True) \<Longrightarrow>
    bstep overlap s (s\<lparr>seen := (gen s, at_breakpoint s) # seen s\<rparr>)"
| Write: "seen s = xs @ g # ys \<Longrightarrow> continue_write True ok (p, True) (\<lambda>_. bfiles s) = (r, dirs) \<Longrightarrow>
    bstep overlap s (s\<lparr>seen := xs @ ys, bfiles := dirs p, wrote := g\<rparr>)"
| WriteFails: "seen s = xs @ g # ys \<Longrightarrow> continue_write False ok (p, True) (\<lambda>_. bfiles s) = (r, dirs) \<Longrightarrow>
    bstep overlap s (s\<lparr>seen := xs @ ys, bfiles := dirs p\<rparr>)"

definition bsys0 :: bsys where
  "bsys0 = \<lparr>pc = Running, gen = 0, bfiles = \<lparr>b_state = Missing, b_resume = False\<rparr>, wrote = (0, True), seen = [], woken = [],
     left_state = False, left_marker = False\<rparr>"

abbreviation bp_reachable :: "bool \<Rightarrow> bsys \<Rightarrow> bool" where
  "bp_reachable overlap s \<equiv> (bstep overlap)\<^sup>*\<^sup>* bsys0 s"

section \<open>Laws\<close>

lemma continue_check_paused: "continue_check (\<lambda>_. d) body = Inr (p, True) \<Longrightarrow> b_state d \<noteq> Missing"
  by (cases body; cases "job_dir body") (simp_all add: continue_check_def paused_file_def)

lemma continue_write_resume: "continue_write True ok (p, True) (\<lambda>_. d) = (r, dirs) \<Longrightarrow> dirs p = d\<lparr>b_resume := True\<rparr>"
  by (auto simp: continue_write_def split: if_splits)

lemma continue_write_fails: "continue_write False ok (p, True) (\<lambda>_. d) = (r, dirs) \<Longrightarrow> dirs p = d"
  by (auto simp: continue_write_def split: if_splits)

text \<open>
  What a request saw: a breakpoint that was there; the script was at it unless a state file had
  been left behind; and it is the last one unless requests overlap.
\<close>

definition sight_ok :: "bsys \<Rightarrow> nat \<times> bool \<Rightarrow> bool" where
  "sight_ok s v = (0 < fst v \<and> fst v \<le> gen s \<and> (\<not> left_state s \<longrightarrow> snd v))"

definition woken_ok :: "bool \<Rightarrow> bsys \<Rightarrow> nat \<times> wake \<times> nat \<times> bool \<Rightarrow> bool" where
  "woken_ok overlap s = (\<lambda>(k, w, g, there). k \<le> gen s \<and> (w = Resumed \<longrightarrow> 0 < g \<and> g \<le> k \<and> (\<not> left_state s \<longrightarrow> there) \<and>
     (\<not> overlap \<and> \<not> left_marker s \<longrightarrow> g = k)))"

definition binv :: "bool \<Rightarrow> bsys \<Rightarrow> bool" where
  "binv overlap s =
    ((b_state (bfiles s) \<noteq> Missing \<longrightarrow> 0 < gen s \<and> (at_breakpoint s \<or> left_state s)) \<and> (pc s \<noteq> Running \<longrightarrow> 0 < gen s) \<and>
     list_all (sight_ok s) (seen s) \<and> (b_resume (bfiles s) \<longrightarrow> sight_ok s (wrote s)) \<and>
     list_all (woken_ok overlap s) (woken s) \<and>
     (\<not> overlap \<and> \<not> left_marker s \<longrightarrow> (\<forall>v\<in>set (seen s). fst v = gen s) \<and> (b_resume (bfiles s) \<longrightarrow> fst (wrote s) = gen s)))"

lemmas binv_defs = binv_def sight_ok_def woken_ok_def at_breakpoint_def list_all_iff

lemma poll_resumed: "wait_resume d [(m, now)] = Some Resumed \<Longrightarrow> m"
  by (simp split: if_splits)

lemma binv_step: "bstep overlap s t \<Longrightarrow> binv overlap s \<Longrightarrow> binv overlap t"
proof (induction rule: bstep.induct)
  case (Poll s d now w)
  then have "w = Resumed \<Longrightarrow> b_resume (bfiles s)" using poll_resumed by blast
  with Poll(1,3) show ?case by (cases "wrote s") (auto simp: binv_defs)
next
  case (Look s body p)
  from continue_check_paused [OF Look(1)] Look(2) show ?case by (auto simp: binv_defs)
next
  case (Write s xs g ys ok p r dirs)
  from continue_write_resume [OF Write(2)] Write(1,3) show ?case by (auto simp: binv_defs)
next
  case (WriteFails s xs g ys ok p r dirs)
  from continue_write_fails [OF WriteFails(2)] WriteFails(1,3) show ?case by (auto simp: binv_defs)
next
  case (Arrive s ok)
  then show ?case by (cases ok) (fastforce simp: binv_defs)+
qed (fastforce simp: binv_defs split: if_splits)+

lemma binv_0: "binv overlap bsys0"
  by (simp add: binv_defs bsys0_def)

lemma binv_reachable: "bp_reachable overlap s \<Longrightarrow> binv overlap s"
  by (induction rule: rtranclp_induct) (auto simp: binv_0 binv_step)

lemma wait_resume_reason:
  "wait_resume d polls = Some w \<Longrightarrow> \<exists>m t. (m, t) \<in> set polls \<and>
     (if w = Resumed then m else \<not> m \<and> (\<exists>x. d = Some x \<and> \<not> float_gt x (Fin t)))"
  by (induction d polls rule: wait_resume.induct) (auto split: if_splits option.splits)

lemma wait_resume_ends: "(m, t) \<in> set polls \<Longrightarrow> m \<or> (\<exists>x. d = Some x \<and> \<not> float_gt x (Fin t)) \<Longrightarrow> wait_resume d polls \<noteq> None"
  by (induction d polls rule: wait_resume.induct) auto

text \<open>Neither \<^verbatim>\<open>nan\<close> nor a number that is not positive gives a deadline.\<close>

lemma nan_waits_forever: "bp_deadline now (resolve_timeout (Some ''nan'') VNone) = Inr None"
proof -
  have "py_int (VStr ''nan'') = Inl ValueError" "py_float (VStr ''nan'') = Inr NaN" by code_simp+
  then show ?thesis by (simp add: resolve_timeout_def coerce_number_def bp_deadline_def)
qed

section \<open>Examples\<close>

definition sample_body :: "pyval res" where
  "sample_body = Inr (VDict [(''lager_process_id'', VStr sample_uuid)])"

lemma sample_check: "continue_check (\<lambda>_. d) sample_body = Inr (PROCESS_REGISTRY_DIR @ slash # sample_uuid, paused_file d)"
proof -
  have u: "uuid_ok sample_uuid" "sample_uuid \<noteq> []" by code_simp+
  then show ?thesis using uuid_inside [OF u(1)] by (simp add: continue_check_def sample_body_def job_dir_def uuid_dir)
qed

text \<open>The state of a script that waits at a breakpoint, and the steps to it and away from it.\<close>

definition at_bp :: "nat \<Rightarrow> bool \<Rightarrow> nat \<times> bool \<Rightarrow> (nat \<times> bool) list \<Rightarrow> (nat \<times> wake \<times> nat \<times> bool) list \<Rightarrow> bsys" where
  "at_bp k m g ss ws = \<lparr>pc = BWaiting, gen = k, bfiles = \<lparr>b_state = JsonDoc VNone, b_resume = m\<rparr>, wrote = g, seen = ss, woken = ws,
     left_state = False, left_marker = False\<rparr>"

definition at_rest :: "nat \<Rightarrow> nat \<times> bool \<Rightarrow> (nat \<times> bool) list \<Rightarrow> (nat \<times> wake \<times> nat \<times> bool) list \<Rightarrow> bsys" where
  "at_rest k g ss ws = \<lparr>pc = Running, gen = k, bfiles = \<lparr>b_state = Missing, b_resume = False\<rparr>, wrote = g, seen = ss, woken = ws,
     left_state = False, left_marker = False\<rparr>"

lemma steps_arrive:
  assumes "overlap \<or> ss = []"
  shows "(bstep overlap)\<^sup>*\<^sup>* (at_rest k g ss ws) (at_bp (Suc k) False g ss ws)"
proof -
  let ?c = "(at_rest k g ss ws)\<lparr>pc := Cleared, gen := Suc k\<rparr>" and ?o = "(at_bp (Suc k) False g ss ws)\<lparr>pc := Opened, bfiles := \<lparr>b_state = NotJson, b_resume = False\<rparr>\<rparr>"
  have "bstep overlap (at_rest k g ss ws) ?c" using bstep.Arrive [of "at_rest k g ss ws" overlap True] assms by (simp add: at_rest_def)
  moreover have "bstep overlap ?c ?o" using bstep.OpenState [of ?c overlap] by (simp add: at_rest_def at_bp_def)
  moreover have "bstep overlap ?o (at_bp (Suc k) False g ss ws)" using bstep.WriteState [of ?o overlap VNone] by (simp add: at_bp_def)
  ultimately show ?thesis by (meson converse_rtranclp_into_rtranclp rtranclp.rtrancl_refl)
qed

lemma steps_leave:
  assumes "w = Resumed \<longleftrightarrow> m"
  shows "(bstep overlap)\<^sup>*\<^sup>* (at_bp k m g ss ws) (at_rest k g ss ((k, w, g) # ws))"
proof -
  let ?l = "(at_bp k m g ss ((k, w, g) # ws))\<lparr>pc := BLeaving\<rparr>" and ?u = "(at_bp k False g ss ((k, w, g) # ws))\<lparr>pc := Unmarked\<rparr>"
  have "wait_resume (Some (Fin 0)) [(m, 0)] = Some w" using assms by (cases w) auto
  then have "bstep overlap (at_bp k m g ss ws) ?l" using bstep.Poll [of "at_bp k m g ss ws" "Some (Fin 0)" 0 w overlap] by (simp add: at_bp_def)
  moreover have "bstep overlap ?l ?u" using bstep.UnlinkMarker [of ?l overlap True] by (simp add: at_bp_def)
  moreover have "bstep overlap ?u (at_rest k g ss ((k, w, g) # ws))" using bstep.UnlinkState [of ?u overlap True] by (simp add: at_bp_def at_rest_def)
  ultimately show ?thesis by (meson converse_rtranclp_into_rtranclp rtranclp.rtrancl_refl)
qed

lemma steps_look: "(bstep overlap)\<^sup>*\<^sup>* (at_bp k m g ss ws) (at_bp k m g ((k, True) # ss) ws)"
  by (rule r_into_rtranclp) (use bstep.Look [of "at_bp k m g ss ws" sample_body "PROCESS_REGISTRY_DIR @ slash # sample_uuid" overlap]
    in \<open>simp add: sample_check at_bp_def paused_file_def at_breakpoint_def\<close>)

lemma steps_write: "(bstep overlap)\<^sup>*\<^sup>* (at_bp k m g (x # ss) ws) (at_bp k True x ss ws)"
  by (rule r_into_rtranclp) (use bstep.Write [of "at_bp k m g (x # ss) ws" "[]" x ss True "[]" "fst (continue_write True True ([], True) (\<lambda>_. bfiles (at_bp k m g (x # ss) ws)))"
      "snd (continue_write True True ([], True) (\<lambda>_. bfiles (at_bp k m g (x # ss) ws)))" overlap]
    in \<open>simp add: continue_write_def at_bp_def\<close>)

lemma start_at_rest: "bsys0 = at_rest 0 (0, True) [] []"
  by (simp add: bsys0_def at_rest_def)

text \<open>A request that saw the first breakpoint resumes the second.\<close>

lemma request_skips_next: "\<exists>s. bp_reachable True s \<and> \<not> left_marker s \<and> (2, Resumed, 1, True) \<in> set (woken s)"
proof -
  let ?t = "[(1, TimedOut, 0, True)]"
  have "bp_reachable True (at_bp 1 False (0, True) [] [])" unfolding start_at_rest using steps_arrive [of True "[]" 0 "(0, True)" "[]"] by simp
  also note steps_look
  also have "(bstep True)\<^sup>*\<^sup>* (at_bp 1 False (0, True) [(1, True)] []) (at_rest 1 (0, True) [(1, True)] ?t)" by (rule steps_leave) simp
  also have "(bstep True)\<^sup>*\<^sup>* \<dots> (at_bp (Suc 1) False (0, True) [(1, True)] ?t)" by (rule steps_arrive) simp
  also note steps_write
  also have "(bstep True)\<^sup>*\<^sup>* (at_bp (Suc 1) True (1, True) [] ?t) (at_rest (Suc 1) (1, True) [] ((Suc 1, Resumed, 1, True) # ?t))"
    by (rule steps_leave) simp
  finally have "bp_reachable True (at_rest (Suc 1) (1, True) [] ((Suc 1, Resumed, 1, True) # ?t))" .
  then show ?thesis by (intro exI conjI) (auto simp: at_rest_def)
qed

text \<open>
  After a state file that could not be written, the script runs and a request still finds a
  breakpoint of it.
\<close>

lemma failed_write_leaves_state:
  "\<exists>s. bp_reachable False s \<and> pc s = Running \<and> continue_check (\<lambda>_. bfiles s) sample_body = Inr (PROCESS_REGISTRY_DIR @ slash # sample_uuid, True)"
proof -
  let ?c = "bsys0\<lparr>pc := Cleared, gen := 1\<rparr>" and ?o = "bsys0\<lparr>pc := Opened, gen := 1, bfiles := \<lparr>b_state = NotJson, b_resume = False\<rparr>\<rparr>"
  let ?s = "?o\<lparr>pc := Running, left_state := True\<rparr>"
  have "bstep False bsys0 ?c" using bstep.Arrive [of bsys0 False True] by (simp add: bsys0_def)
  moreover have "bstep False ?c ?o" using bstep.OpenState [of ?c False] by (simp add: bsys0_def)
  moreover have "bstep False ?o ?s" using bstep.WriteStateFails [of ?o False] by simp
  ultimately have "bp_reachable False ?s" by (meson converse_rtranclp_into_rtranclp rtranclp.rtrancl_refl)
  moreover have "pc ?s = Running" "continue_check (\<lambda>_. bfiles ?s) sample_body = Inr (PROCESS_REGISTRY_DIR @ slash # sample_uuid, True)"
    by (simp_all add: sample_check paused_file_def)
  ultimately show ?thesis by blast
qed

section \<open>Properties\<close>

text \<open>
  C34. A breakpoint is left for a reason. In every interleaving of a script with any number of
  continue requests, and whichever file operations of either side fail, a script that was
  resumed at a breakpoint was resumed by a request that had found a state file of it, when the
  script had come to this breakpoint or an earlier one. As long as no state file has outlived
  its breakpoint, because it could not be written to its end or not be removed, the request had
  found the script at the breakpoint, and a state file is there only while the script is at one.
  And it was this breakpoint when no request was on its way at the moments the script got to a
  breakpoint and every old marker could be removed there.
\<close>

theorem breakpoint_not_skipped:
  assumes "bp_reachable overlap s" and "(k, Resumed, g, there) \<in> set (woken s)"
  shows "0 < g \<and> g \<le> k \<and> k \<le> gen s \<and> (\<not> left_state s \<longrightarrow> there \<and> (paused_file (bfiles s) \<longrightarrow> at_breakpoint s)) \<and>
    (\<not> overlap \<and> \<not> left_marker s \<longrightarrow> g = k)"
proof -
  have "binv overlap s" by (rule binv_reachable [OF assms(1)])
  moreover from this assms(2) have "woken_ok overlap s (k, Resumed, g, there)" by (simp add: binv_def list_all_iff)
  ultimately show ?thesis by (auto simp: binv_def woken_ok_def paused_file_def)
qed

theorem breakpoint_not_skipped_witness:
  "bp_reachable False (at_rest 1 (1, True) [] [(1, Resumed, 1, True)]) \<and> (0 :: nat) < 1 \<and>
   \<not> paused_file (bfiles (at_rest 1 (1, True) [] [(1, Resumed, 1, True)]))"
proof -
  have "bp_reachable False (at_bp 1 False (0, True) [] [])" unfolding start_at_rest using steps_arrive [of False "[]" 0 "(0, True)" "[]"] by simp
  also note steps_look
  also note steps_write
  also have "(bstep False)\<^sup>*\<^sup>* (at_bp 1 True (1, True) [] []) (at_rest 1 (1, True) [] [(1, Resumed, 1, True)])" by (rule steps_leave) simp
  finally have r: "bp_reachable False (at_rest 1 (1, True) [] [(1, Resumed, 1, True)])" .
  with breakpoint_not_skipped [OF r, of 1 1 True] show ?thesis by (auto simp: at_rest_def at_breakpoint_def)
qed

end
