(* ===== verification/Driver_Manifest.thy ===== *)
theory Driver_Manifest
  imports Py_Repr Py_Regex
begin

text \<open>
  The manifest of a custom driver, \<^verbatim>\<open>box/lager/drivers/manifest.py\<close>: parsing a decoded manifest
  and checking the arguments of a call and the parameters of a net against it. A text that is
  only shown (\<^verbatim>\<open>help\<close>, \<^verbatim>\<open>description\<close>) is kept as the value whose \<^verbatim>\<open>str\<close> it is, and the
  messages of \<^verbatim>\<open>ManifestError\<close> are left out. Shown: an accepted manifest has sound names,
  bounds, choices, defaults and time limits; checked values have the declared type and lie
  within the declared bounds, required ones are there, and checking them again changes nothing.
\<close>

section \<open>Names and types\<close>

definition is_type_char :: "char \<Rightarrow> bool" where
  "is_type_char c = (is_az c \<or> is_digit c \<or> c = CHR ''_'' \<or> c = CHR ''-'')"

definition is_name_char :: "char \<Rightarrow> bool" where
  "is_name_char c = (is_az c \<or> is_digit c \<or> c = CHR ''_'')"

definition is_req_char :: "char \<Rightarrow> bool" where
  "is_req_char c = (is_alnum c \<or> c = CHR ''.'' \<or> c = CHR ''_'' \<or> c = CHR ''-'')"

definition is_char :: "char \<Rightarrow> char \<Rightarrow> bool" where "is_char c d = (d = c)"

definition TYPE_RE :: rx where
  "TYPE_RE = Seq (One is_az) (Seq (One is_type_char) (rx_upto 30 is_type_char))"

definition NAME_RE :: rx where
  "NAME_RE = Seq (One is_az) (rx_upto 31 is_name_char)"

definition REQUIREMENTS_RE :: rx where
  "REQUIREMENTS_RE = Seq (One is_alnum) (Seq (rx_upto 63 is_req_char)
     (Seq (One (is_char (CHR ''.''))) (Seq (One (is_char (CHR ''t''))) (Seq (One (is_char (CHR ''x''))) (One (is_char (CHR ''t'')))))))"

definition DEFAULT_TIMEOUT_S :: int where "DEFAULT_TIMEOUT_S = 60"
definition MAX_TIMEOUT_S :: int where "MAX_TIMEOUT_S = 600"

definition RESERVED_ARG_NAMES :: "string list" where
  "RESERVED_ARG_NAMES = [''box'', ''json'', ''as_json'', ''help'', ''netname'', ''action'', ''role'', ''quiet'',
    ''http_timeout'', ''ctx'', ''box_addr'', ''params'']"

definition RESERVED_TYPES :: "string list" where
  "RESERVED_TYPES =
   [''actuate'', ''adc'', ''analog'', ''arm'', ''battery'', ''dac'', ''debug'', ''dmm'', ''eload'',
    ''energy-analyzer'', ''gpi'', ''gpio'', ''gpo'', ''hsm'', ''i2c'', ''logic'', ''mikrotik'',
    ''power-supply'', ''power-supply-2q'', ''rotation'', ''router'', ''scope'',
    ''scope-channel'', ''solar'', ''spi'', ''thermocouple'', ''uart'', ''usb'',
    ''watt-meter'', ''waveform'', ''webcam'', ''wifi'',
    ''authorize'', ''bench'', ''binaries'', ''ble'', ''blufi'', ''box'', ''box-config'',
    ''boxes'', ''custom'', ''defaults'', ''devenv'', ''diagnose'', ''drivers'', ''dut'',
    ''energy'', ''exec'', ''hello'', ''install'', ''install-wheel'', ''instruments'', ''lease'',
    ''login'', ''logout'', ''logs'', ''nets'', ''python'', ''ssh'', ''ssh-setup'', ''supply'',
    ''terminal'', ''uninstall'', ''update'', ''watt'', ''whoami'',
    ''custom-net'', ''driver'', ''help'', ''net'', ''version'']"

datatype kind = KStr | KInt | KFloat | KBool | KChoice | KNet

definition KINDS :: "(string \<times> kind) list" where
  "KINDS = [(''str'', KStr), (''int'', KInt), (''float'', KFloat), (''bool'', KBool), (''choice'', KChoice), (''net'', KNet)]"

definition SCALAR_TYPES :: "kind list" where "SCALAR_TYPES = [KStr, KInt, KFloat, KBool, KChoice]"
definition PARAM_TYPES :: "kind list" where "PARAM_TYPES = SCALAR_TYPES @ [KNet]"

record field_spec =
  f_kind :: kind
  f_help :: pyval
  f_required :: bool
  f_role :: string
  f_choices :: "string list"
  f_min :: "pyval option"
  f_max :: "pyval option"
  f_default :: "pyval option"

record action_spec =
  a_help :: pyval
  a_timeout :: int
  a_args :: "(string \<times> field_spec) list"

record manifest =
  m_type :: string
  m_version :: string
  m_api :: pyval
  m_description :: pyval
  m_timeout :: int
  m_requirements :: "string option"
  m_params :: "(string \<times> field_spec) list"
  m_actions :: "(string \<times> action_spec) list"

text \<open>The exception of the module, or another one that passes through it.\<close>

datatype merr = ManifestError | Escapes pyexc

type_synonym 'a mres = "merr + 'a"

definition bind :: "'a mres \<Rightarrow> ('a \<Rightarrow> 'b mres) \<Rightarrow> 'b mres" where
  "bind m f = (case m of Inl e \<Rightarrow> Inl e | Inr x \<Rightarrow> f x)"

definition require :: "bool \<Rightarrow> 'a mres \<Rightarrow> 'a mres" where
  "require b m = (if b then m else Inl ManifestError)"

definition get_default :: "dict \<Rightarrow> string \<Rightarrow> pyval \<Rightarrow> pyval" where
  "get_default d k v = (case map_of d k of None \<Rightarrow> v | Some x \<Rightarrow> x)"

section \<open>Values\<close>

definition TRUE_WORDS :: "string list" where "TRUE_WORDS = [''1'', ''true'', ''yes'', ''on'']"
definition FALSE_WORDS :: "string list" where "FALSE_WORDS = [''0'', ''false'', ''no'', ''off'']"

definition whole_float :: "pyfloat \<Rightarrow> bool" where
  "whole_float f = (case f of Fin r \<Rightarrow> r = of_int \<lfloor>r\<rfloor> | _ \<Rightarrow> False)"

definition typed_value :: "kind \<Rightarrow> pyval \<Rightarrow> pyval res" where
  "typed_value k raw = (case k of
     KBool \<Rightarrow> (case raw of
        VBool b \<Rightarrow> Inr raw
      | VStr s \<Rightarrow> (let w = lower (strip s) in
          if w \<in> set TRUE_WORDS \<union> set FALSE_WORDS then Inr (VBool (w \<in> set TRUE_WORDS)) else Inl ValueError)
      | _ \<Rightarrow> Inl ValueError)
   | KInt \<Rightarrow> (case raw of
        VBool _ \<Rightarrow> Inl ValueError
      | VFloat f \<Rightarrow> if whole_float f then map_sum id VInt (py_int raw) else Inl ValueError
      | _ \<Rightarrow> map_sum id VInt (py_int raw))
   | KFloat \<Rightarrow> (case raw of
        VBool _ \<Rightarrow> Inl ValueError
      | _ \<Rightarrow> res_bind (py_float raw) (\<lambda>f. case f of Fin _ \<Rightarrow> Inr (VFloat f) | _ \<Rightarrow> Inl ValueError))
   | _ \<Rightarrow> (case raw of
        VStr _ \<Rightarrow> Inr (VStr (scalar_str raw)) | VInt _ \<Rightarrow> Inr (VStr (scalar_str raw)) | VFloat _ \<Rightarrow> Inr (VStr (scalar_str raw))
      | _ \<Rightarrow> Inl ValueError))"

text \<open>\<^verbatim>\<open>a < b\<close> on numbers.\<close>

definition num_less :: "pyval \<Rightarrow> pyval \<Rightarrow> bool" where
  "num_less a b = (case (num_of a, num_of b) of (Some x, Some y) \<Rightarrow> float_gt y x | _ \<Rightarrow> False)"

definition in_bounds :: "field_spec \<Rightarrow> pyval \<Rightarrow> bool" where
  "in_bounds sp v = ((case f_min sp of None \<Rightarrow> True | Some m \<Rightarrow> \<not> num_less v m) \<and>
     (case f_max sp of None \<Rightarrow> True | Some m \<Rightarrow> \<not> num_less m v))"

definition is_choice :: "field_spec \<Rightarrow> pyval \<Rightarrow> bool" where
  "is_choice sp v = (f_kind sp = KChoice \<longrightarrow> v \<in> VStr ` set (f_choices sp))"

definition coerce_value :: "pyval \<Rightarrow> field_spec \<Rightarrow> pyval mres" where
  "coerce_value raw sp = (case typed_value (f_kind sp) raw of
     Inl e \<Rightarrow> Inl (if e = TypeError \<or> e = ValueError then ManifestError else Escapes e)
   | Inr v \<Rightarrow> require (is_choice sp v) (require (in_bounds sp v) (Inr v)))"

section \<open>Parsing\<close>

definition check_timeout :: "pyval \<Rightarrow> int mres" where
  "check_timeout v = (case v of VInt i \<Rightarrow> require (1 \<le> i \<and> i \<le> MAX_TIMEOUT_S) (Inr i) | _ \<Rightarrow> Inl ManifestError)"

text \<open>\<^verbatim>\<open>math.isfinite\<close> raises \<^verbatim>\<open>OverflowError\<close> for an integer too large for a float.\<close>

definition is_finite_number :: "pyval \<Rightarrow> bool mres" where
  "is_finite_number v = (case v of
     VInt i \<Rightarrow> (case py_float v of Inl e \<Rightarrow> Inl (Escapes e) | Inr _ \<Rightarrow> Inr True)
   | VFloat f \<Rightarrow> Inr (case f of Fin _ \<Rightarrow> True | _ \<Rightarrow> False)
   | _ \<Rightarrow> Inr False)"

definition parse_bound :: "dict \<Rightarrow> kind \<Rightarrow> string \<Rightarrow> pyval option mres" where
  "parse_bound d k bound = (case map_of d bound of
     None \<Rightarrow> Inr None
   | Some v \<Rightarrow> require (k = KInt \<or> k = KFloat) (bind (is_finite_number v) (\<lambda>ok. require ok (Inr (Some v)))))"

definition FIELD_KEYS :: "string list" where
  "FIELD_KEYS = [''type'', ''help'', ''required'', ''default'', ''min'', ''max'', ''choices'', ''role'']"

fun all_strs :: "pyval list \<Rightarrow> string list option" where
  "all_strs [] = Some []"
| "all_strs (VStr s # vs) = map_option (Cons s) (all_strs vs)"
| "all_strs _ = None"

definition parse_choices :: "dict \<Rightarrow> kind \<Rightarrow> string list mres" where
  "parse_choices d k = (if k \<noteq> KChoice then Inr []
     else (case dict_get d ''choices'' of
        VList vs \<Rightarrow> (case all_strs vs of Some (c # cs) \<Rightarrow> Inr (c # cs) | _ \<Rightarrow> Inl ManifestError)
      | _ \<Rightarrow> Inl ManifestError))"

definition parse_default :: "dict \<Rightarrow> field_spec \<Rightarrow> field_spec mres" where
  "parse_default d sp = (case map_of d ''default'' of
     None \<Rightarrow> Inr sp
   | Some v \<Rightarrow> bind (coerce_value v sp) (\<lambda>x. Inr (sp\<lparr>f_default := Some x\<rparr>)))"

definition min_above_max :: "pyval option \<Rightarrow> pyval option \<Rightarrow> bool" where
  "min_above_max lo hi = (case (lo, hi) of (Some a, Some b) \<Rightarrow> num_less b a | _ \<Rightarrow> False)"

definition kind_of :: "pyval \<Rightarrow> kind list \<Rightarrow> kind option" where
  "kind_of v allowed = (case v of
     VStr s \<Rightarrow> (case map_of KINDS s of Some k \<Rightarrow> if k \<in> set allowed then Some k else None | None \<Rightarrow> None)
   | _ \<Rightarrow> None)"

definition parse_spec :: "dict \<Rightarrow> kind \<Rightarrow> field_spec mres" where
  "parse_spec d k =
    (let sp = \<lparr>f_kind = k, f_help = get_default d ''help'' (VStr []), f_required = truthy (get_default d ''required'' (VBool False)),
               f_role = [], f_choices = [], f_min = None, f_max = None, f_default = None\<rparr> in
     if k = KNet
     then (case dict_get d ''role'' of VStr r \<Rightarrow> require (r \<noteq> []) (Inr (sp\<lparr>f_role := r\<rparr>)) | _ \<Rightarrow> Inl ManifestError)
     else bind (parse_choices d k) (\<lambda>cs. bind (parse_bound d k ''min'') (\<lambda>lo. bind (parse_bound d k ''max'') (\<lambda>hi.
       require (\<not> min_above_max lo hi) (parse_default d (sp\<lparr>f_choices := cs, f_min := lo, f_max := hi\<rparr>))))))"

definition parse_field :: "string \<Rightarrow> pyval \<Rightarrow> kind list \<Rightarrow> field_spec mres" where
  "parse_field name spec allowed =
    require (re_match NAME_RE name) (case spec of
      VDict d \<Rightarrow> require (set (map fst d) \<subseteq> set FIELD_KEYS)
        (case kind_of (get_default d ''type'' (VStr ''str'')) allowed of None \<Rightarrow> Inl ManifestError | Some k \<Rightarrow> parse_spec d k)
    | _ \<Rightarrow> Inl ManifestError)"

definition parse_arg :: "string \<Rightarrow> pyval \<Rightarrow> field_spec mres" where
  "parse_arg name spec = require (name \<notin> set RESERVED_ARG_NAMES) (parse_field name spec SCALAR_TYPES)"

text \<open>A dictionary built from the items of another one.\<close>

fun build_items :: "(string \<Rightarrow> pyval \<Rightarrow> 'a mres) \<Rightarrow> dict \<Rightarrow> (string \<times> 'a) list \<Rightarrow> (string \<times> 'a) list mres" where
  "build_items f [] acc = Inr acc"
| "build_items f ((k, v) # d) acc = bind (f k v) (\<lambda>x. build_items f d (AList.update k x acc))"

definition parse_action :: "int \<Rightarrow> string \<Rightarrow> pyval \<Rightarrow> action_spec mres" where
  "parse_action timeout name spec =
    require (re_match NAME_RE name) (require (\<not> startswith name ''_'' \<and> name \<noteq> ''setup'' \<and> name \<noteq> ''teardown'') (case spec of
      VDict d \<Rightarrow> require (set (map fst d) \<subseteq> {''help'', ''args'', ''timeout_s''})
        (case get_default d ''args'' (VDict []) of
           VDict args_in \<Rightarrow> bind (check_timeout (get_default d ''timeout_s'' (VInt timeout))) (\<lambda>t.
             bind (build_items parse_arg args_in []) (\<lambda>args.
               Inr \<lparr>a_help = get_default d ''help'' (VStr []), a_timeout = t, a_args = args\<rparr>))
         | _ \<Rightarrow> Inl ManifestError)
    | _ \<Rightarrow> Inl ManifestError))"

definition MANIFEST_KEYS :: "string list" where
  "MANIFEST_KEYS = [''type'', ''version'', ''lager_api'', ''description'', ''timeout_s'', ''params'', ''actions'', ''requirements'']"

definition parse_requirements_name :: "pyval \<Rightarrow> string option mres" where
  "parse_requirements_name v = (case v of
     VNone \<Rightarrow> Inr None
   | VStr s \<Rightarrow> require (re_match REQUIREMENTS_RE s) (Inr (Some s))
   | _ \<Rightarrow> Inl ManifestError)"

definition parse_body :: "dict \<Rightarrow> string \<Rightarrow> string \<Rightarrow> manifest mres" where
  "parse_body d dtype version =
    require (py_eq (dict_get d ''lager_api'') (VInt 1))
     (bind (check_timeout (get_default d ''timeout_s'' (VInt DEFAULT_TIMEOUT_S))) (\<lambda>timeout.
      bind (parse_requirements_name (dict_get d ''requirements'')) (\<lambda>requirements.
      case get_default d ''params'' (VDict []) of
        VDict params_in \<Rightarrow> bind (build_items (\<lambda>n sp. parse_field n sp PARAM_TYPES) params_in []) (\<lambda>params.
          case dict_get d ''actions'' of
            VDict actions_in \<Rightarrow> require (actions_in \<noteq> []) (bind (build_items (parse_action timeout) actions_in []) (\<lambda>actions.
              Inr \<lparr>m_type = dtype, m_version = strip version, m_api = dict_get d ''lager_api'',
                   m_description = get_default d ''description'' (VStr []), m_timeout = timeout,
                   m_requirements = requirements, m_params = params, m_actions = actions\<rparr>))
          | _ \<Rightarrow> Inl ManifestError)
      | _ \<Rightarrow> Inl ManifestError)))"

definition parse_manifest :: "pyval \<Rightarrow> manifest mres" where
  "parse_manifest data = (case data of
     VDict d \<Rightarrow> require (set (map fst d) \<subseteq> set MANIFEST_KEYS) (case dict_get d ''type'' of
       VStr dtype \<Rightarrow> require (re_match TYPE_RE dtype) (require (dtype \<notin> set RESERVED_TYPES) (case dict_get d ''version'' of
         VStr version \<Rightarrow> require (strip version \<noteq> []) (parse_body d dtype version)
       | _ \<Rightarrow> Inl ManifestError))
     | _ \<Rightarrow> Inl ManifestError)
   | _ \<Rightarrow> Inl ManifestError)"

definition load_manifest :: "json_file \<Rightarrow> manifest mres" where
  "load_manifest f = (case f of JsonDoc v \<Rightarrow> parse_manifest v | _ \<Rightarrow> Inl ManifestError)"

section \<open>Checking values\<close>

fun coerce_loop :: "(string \<times> field_spec) list \<Rightarrow> dict \<Rightarrow> dict mres" where
  "coerce_loop [] raw = Inr []"
| "coerce_loop ((name, sp) # fs) raw =
    (case map_of raw name of
       Some v \<Rightarrow> if v \<noteq> VNone
         then bind (coerce_value v sp) (\<lambda>x. map_sum id (Cons (name, x)) (coerce_loop fs raw))
         else (case f_default sp of
            Some x \<Rightarrow> map_sum id (Cons (name, x)) (coerce_loop fs raw)
          | None \<Rightarrow> require (\<not> f_required sp) (coerce_loop fs raw))
     | None \<Rightarrow> (case f_default sp of
          Some x \<Rightarrow> map_sum id (Cons (name, x)) (coerce_loop fs raw)
        | None \<Rightarrow> require (\<not> f_required sp) (coerce_loop fs raw)))"

definition coerce_fields :: "(string \<times> field_spec) list \<Rightarrow> pyval \<Rightarrow> dict mres" where
  "coerce_fields fs raw = (case raw of
     VNone \<Rightarrow> coerce_loop fs []
   | VDict d \<Rightarrow> require (set (map fst d) \<subseteq> set (map fst fs)) (coerce_loop fs d)
   | _ \<Rightarrow> Inl ManifestError)"

definition coerce_args :: "manifest \<Rightarrow> string \<Rightarrow> pyval \<Rightarrow> dict mres" where
  "coerce_args m action raw = (case map_of (m_actions m) action of
     None \<Rightarrow> Inl (Escapes KeyError) | Some a \<Rightarrow> coerce_fields (a_args a) raw)"

definition coerce_params :: "manifest \<Rightarrow> pyval \<Rightarrow> dict mres" where
  "coerce_params m raw = coerce_fields (m_params m) raw"

section \<open>Checked values\<close>

lemma bind_eq_Inr: "bind m f = Inr y \<longleftrightarrow> (\<exists>x. m = Inr x \<and> f x = Inr y)"
  by (cases m) (simp_all add: bind_def)

lemma require_eq_Inr: "require b m = Inr y \<longleftrightarrow> b \<and> m = Inr y"
  by (simp add: require_def)

lemma map_sum_eq_Inr: "map_sum f g m = Inr y \<longleftrightarrow> (\<exists>x. m = Inr x \<and> y = g x)"
  by (cases m) auto

lemma case_dict_Inr: "(case v of VDict d \<Rightarrow> f d | _ \<Rightarrow> Inl e) = Inr y \<longleftrightarrow> (\<exists>d. v = VDict d \<and> f d = Inr y)"
  by (cases v) auto

lemma case_str_Inr: "(case v of VStr s \<Rightarrow> f s | _ \<Rightarrow> Inl e) = Inr y \<longleftrightarrow> (\<exists>s. v = VStr s \<and> f s = Inr y)"
  by (cases v) auto

lemmas mres_simps = bind_eq_Inr require_eq_Inr map_sum_eq_Inr case_dict_Inr case_str_Inr

text \<open>A value of the declared type.\<close>

definition has_kind :: "kind \<Rightarrow> pyval \<Rightarrow> bool" where
  "has_kind k v = (case k of
     KBool \<Rightarrow> (\<exists>b. v = VBool b) | KInt \<Rightarrow> (\<exists>i. v = VInt i) | KFloat \<Rightarrow> (\<exists>r. v = VFloat (Fin r)) | _ \<Rightarrow> (\<exists>s. v = VStr s))"

text \<open>The bounds as inequations between numbers.\<close>

definition keeps_bounds :: "field_spec \<Rightarrow> pyval \<Rightarrow> bool" where
  "keeps_bounds sp v = (\<forall>m x y. num_of v = Some (Fin y) \<and> num_of m = Some (Fin x) \<longrightarrow>
     (f_min sp = Some m \<longrightarrow> x \<le> y) \<and> (f_max sp = Some m \<longrightarrow> y \<le> x))"

lemma in_bounds_keeps: "in_bounds sp v \<Longrightarrow> keeps_bounds sp v"
  by (auto simp: in_bounds_def keeps_bounds_def num_less_def)

definition conforms :: "field_spec \<Rightarrow> pyval \<Rightarrow> bool" where
  "conforms sp v = (has_kind (f_kind sp) v \<and> is_choice sp v \<and> in_bounds sp v \<and> keeps_bounds sp v)"

lemma finite_float_iff: "(case f of Fin _ \<Rightarrow> Inr (VFloat f) | _ \<Rightarrow> Inl e) = Inr v \<longleftrightarrow> (\<exists>r. f = Fin r \<and> v = VFloat (Fin r))"
  by (cases f) auto

lemma typed_value_kind: "typed_value k raw = Inr v \<Longrightarrow> has_kind k v"
  by (cases k; cases raw)
    (auto simp: typed_value_def has_kind_def map_sum_eq_Inr res_bind_eq_Inr finite_float_iff Let_def split: if_splits)

lemma typed_value_id: "has_kind k v \<Longrightarrow> typed_value k v = Inr v"
  by (cases k) (auto simp: typed_value_def has_kind_def)

lemma coerce_value_iff: "coerce_value raw sp = Inr v \<longleftrightarrow> typed_value (f_kind sp) raw = Inr v \<and> is_choice sp v \<and> in_bounds sp v"
  by (auto simp: coerce_value_def mres_simps split: sum.splits)

lemma coerce_conforms: "coerce_value raw sp = Inr v \<Longrightarrow> conforms sp v"
  by (auto simp: coerce_value_iff conforms_def intro: typed_value_kind in_bounds_keeps)

lemma conforms_coerce: "conforms sp v \<Longrightarrow> coerce_value v sp = Inr v"
  by (simp add: coerce_value_iff conforms_def typed_value_id)

lemma conforms_not_None: "conforms sp v \<Longrightarrow> v \<noteq> VNone"
  by (cases "f_kind sp") (auto simp: conforms_def has_kind_def)

definition default_ok :: "field_spec \<Rightarrow> bool" where
  "default_ok sp = (case f_default sp of None \<Rightarrow> True | Some v \<Rightarrow> conforms sp v)"

text \<open>What \<^verbatim>\<open>_coerce_fields\<close> gives.\<close>

definition args_ok :: "(string \<times> field_spec) list \<Rightarrow> dict \<Rightarrow> bool" where
  "args_ok fs out = ((\<forall>(name, v)\<in>set out. \<exists>sp. (name, sp) \<in> set fs \<and> conforms sp v) \<and>
     (\<forall>(name, sp)\<in>set fs. f_required sp \<longrightarrow> name \<in> fst ` set out))"

lemma coerce_loop_Cons:
  "coerce_loop ((name, sp) # fs) raw = Inr out \<Longrightarrow> default_ok sp \<Longrightarrow>
   \<exists>rest. coerce_loop fs raw = Inr rest \<and> ((\<exists>v. out = (name, v) # rest \<and> conforms sp v) \<or> (out = rest \<and> \<not> f_required sp \<and> f_default sp = None))"
  by (auto simp: mres_simps default_ok_def coerce_conforms split: option.splits if_splits)

lemma coerce_loop_ok:
  "coerce_loop fs raw = Inr out \<Longrightarrow> \<forall>(name, sp)\<in>set fs. default_ok sp \<Longrightarrow> args_ok fs out \<and> fst ` set out \<subseteq> fst ` set fs"
proof (induction fs arbitrary: out)
  case (Cons f fs)
  obtain name sp where f: "f = (name, sp)" by (cases f)
  with Cons.prems obtain rest where r: "coerce_loop fs raw = Inr rest"
    "(\<exists>v. out = (name, v) # rest \<and> conforms sp v) \<or> (out = rest \<and> \<not> f_required sp \<and> f_default sp = None)"
    using coerce_loop_Cons [of name sp fs raw out] by auto
  from Cons.IH [OF r(1)] Cons.prems(2) have IH: "args_ok fs rest" "fst ` set rest \<subseteq> fst ` set fs" by auto
  from r(2) show ?case
  proof
    assume "\<exists>v. out = (name, v) # rest \<and> conforms sp v"
    then obtain v where "out = (name, v) # rest" "conforms sp v" by blast
    with IH f show ?thesis unfolding args_ok_def by auto
  next
    assume "out = rest \<and> \<not> f_required sp \<and> f_default sp = None"
    with IH f show ?thesis unfolding args_ok_def by auto
  qed
qed (simp add: args_ok_def)

text \<open>Checking the result again: for distinct names nothing changes.\<close>

lemma coerce_loop_again:
  assumes "coerce_loop fs raw = Inr out" "\<forall>(name, sp)\<in>set fs. default_ok sp" "distinct (map fst fs)"
    "\<forall>name\<in>fst ` set fs. map_of d name = map_of out name"
  shows "coerce_loop fs d = Inr out"
  using assms
proof (induction fs arbitrary: out)
  case (Cons f fs)
  obtain name sp where f: "f = (name, sp)" by (cases f)
  with Cons.prems obtain rest where r: "coerce_loop fs raw = Inr rest"
    "(\<exists>v. out = (name, v) # rest \<and> conforms sp v) \<or> (out = rest \<and> \<not> f_required sp \<and> f_default sp = None)"
    using coerce_loop_Cons [of name sp fs raw out] by auto
  have sub: "fst ` set rest \<subseteq> fst ` set fs" using coerce_loop_ok [OF r(1)] Cons.prems(2) by auto
  with Cons.prems(3) f have notin: "map_of rest name = None" by (force simp: map_of_eq_None_iff)
  have "map_of d n = map_of rest n" if "n \<in> fst ` set fs" for n
  proof -
    from that Cons.prems(3) f have "n \<noteq> name" by auto
    moreover from that Cons.prems(4) have "map_of d n = map_of out n" by auto
    ultimately show ?thesis using r(2) by auto
  qed
  then have "\<forall>n\<in>fst ` set fs. map_of d n = map_of rest n" by blast
  from Cons.IH [OF r(1) _ _ this] Cons.prems(2,3) have again: "coerce_loop fs d = Inr rest" by simp
  from r(2) show ?case
  proof
    assume "\<exists>v. out = (name, v) # rest \<and> conforms sp v"
    then obtain v where v: "out = (name, v) # rest" "conforms sp v" by blast
    with Cons.prems(4) f have "map_of d name = Some v" by simp
    with v conforms_coerce [OF v(2)] conforms_not_None [OF v(2)] again f show ?thesis by (simp add: bind_def)
  next
    assume o: "out = rest \<and> \<not> f_required sp \<and> f_default sp = None"
    with Cons.prems(4) f notin have "map_of d name = None" by simp
    with o again f show ?thesis by (simp add: require_def)
  qed
qed simp

lemma coerce_fields_ok:
  assumes "coerce_fields fs raw = Inr out" "\<forall>(name, sp)\<in>set fs. default_ok sp" "distinct (map fst fs)"
  shows "args_ok fs out \<and> coerce_fields fs (VDict out) = Inr out"
proof -
  from assms(1) obtain d where d: "coerce_loop fs d = Inr out" by (auto simp: coerce_fields_def mres_simps split: pyval.splits)
  have sub: "args_ok fs out" "fst ` set out \<subseteq> fst ` set fs" using coerce_loop_ok [OF d assms(2)] by auto
  have "coerce_loop fs out = Inr out" using coerce_loop_again [OF d assms(2,3), of out] by blast
  with sub show ?thesis by (simp add: coerce_fields_def require_def)
qed

section \<open>Accepted manifests\<close>

definition finite_bound :: "pyval option \<Rightarrow> bool" where
  "finite_bound b = (case b of None \<Rightarrow> True | Some v \<Rightarrow> \<exists>x. num_of v = Some (Fin x))"

definition field_ok :: "field_spec \<Rightarrow> bool" where
  "field_ok sp = (default_ok sp \<and> (f_kind sp = KChoice \<longrightarrow> f_choices sp \<noteq> []) \<and> (f_kind sp = KNet \<longrightarrow> f_role sp \<noteq> []) \<and>
     \<not> min_above_max (f_min sp) (f_max sp) \<and> finite_bound (f_min sp) \<and> finite_bound (f_max sp) \<and>
     (f_min sp \<noteq> None \<or> f_max sp \<noteq> None \<longrightarrow> f_kind sp = KInt \<or> f_kind sp = KFloat))"

definition timeout_ok :: "int \<Rightarrow> bool" where
  "timeout_ok t = (1 \<le> t \<and> t \<le> MAX_TIMEOUT_S)"

definition arg_ok :: "string \<Rightarrow> field_spec \<Rightarrow> bool" where
  "arg_ok name sp = (re_match NAME_RE name \<and> name \<notin> set RESERVED_ARG_NAMES \<and> f_kind sp \<noteq> KNet \<and> field_ok sp)"

definition action_ok :: "string \<Rightarrow> action_spec \<Rightarrow> bool" where
  "action_ok name a = (re_match NAME_RE name \<and> name \<noteq> ''setup'' \<and> name \<noteq> ''teardown'' \<and> timeout_ok (a_timeout a) \<and>
     distinct (map fst (a_args a)) \<and> (\<forall>(n, sp)\<in>set (a_args a). arg_ok n sp))"

definition manifest_ok :: "manifest \<Rightarrow> bool" where
  "manifest_ok m = (re_match TYPE_RE (m_type m) \<and> m_type m \<notin> set RESERVED_TYPES \<and> m_version m \<noteq> [] \<and> timeout_ok (m_timeout m) \<and>
     distinct (map fst (m_params m)) \<and> (\<forall>(n, sp)\<in>set (m_params m). re_match NAME_RE n \<and> field_ok sp) \<and>
     m_actions m \<noteq> [] \<and> distinct (map fst (m_actions m)) \<and> (\<forall>(n, a)\<in>set (m_actions m). action_ok n a))"

lemma set_update_subset: "set (AList.update k v al) \<subseteq> insert (k, v) (set al)"
  by (induction al) auto

lemma build_items_ok:
  assumes "build_items f d acc = Inr out" "\<And>k v x. f k v = Inr x \<Longrightarrow> P k x"
    "\<forall>(k, x)\<in>set acc. P k x" "distinct (map fst acc)"
  shows "distinct (map fst out) \<and> (\<forall>(k, x)\<in>set out. P k x) \<and> (d \<noteq> [] \<or> acc \<noteq> [] \<longrightarrow> out \<noteq> [])"
  using assms
proof (induction f d acc rule: build_items.induct)
  case (2 f k v d acc)
  from "2.prems"(1) obtain x where x: "f k v = Inr x" "build_items f d (AList.update k x acc) = Inr out"
    by (auto simp: mres_simps)
  have "P k x" using "2.prems"(2) x(1) .
  with "2.prems"(3) set_update_subset [of k x acc] have acc: "\<forall>(k, x)\<in>set (AList.update k x acc). P k x" by blast
  have "AList.update k x acc \<noteq> []" by (cases acc) auto
  with "2.IH" [OF x(2) _ acc distinct_update [OF "2.prems"(4)]] "2.prems"(2) show ?case by blast
qed auto

lemma check_timeout_ok: "check_timeout v = Inr t \<Longrightarrow> timeout_ok t"
  by (auto simp: check_timeout_def timeout_ok_def mres_simps split: pyval.splits)

lemma parse_default_ok:
  assumes "parse_default d sp = Inr sp'" "f_default sp = None"
  shows "default_ok sp' \<and> f_kind sp' = f_kind sp \<and> f_choices sp' = f_choices sp \<and> f_role sp' = f_role sp \<and>
    f_min sp' = f_min sp \<and> f_max sp' = f_max sp"
proof (cases "map_of d ''default''")
  case None
  with assms show ?thesis by (simp add: parse_default_def default_ok_def)
next
  case (Some v)
  with assms obtain x where x: "coerce_value v sp = Inr x" "sp' = sp\<lparr>f_default := Some x\<rparr>"
    by (auto simp: parse_default_def mres_simps)
  from coerce_conforms [OF x(1)] have "conforms sp' x" by (auto simp: x(2) conforms_def is_choice_def in_bounds_def keeps_bounds_def)
  with x(2) show ?thesis by (simp add: default_ok_def)
qed

lemma parse_bound_kind: "parse_bound d k b = Inr (Some v) \<Longrightarrow> k = KInt \<or> k = KFloat"
  by (auto simp: parse_bound_def mres_simps split: option.splits)

lemma parse_bound_finite: "parse_bound d k b = Inr v \<Longrightarrow> finite_bound v"
  by (auto simp: parse_bound_def finite_bound_def is_finite_number_def mres_simps split: option.splits pyval.splits pyfloat.splits sum.splits)

lemma parse_choices_ok: "parse_choices d KChoice = Inr cs \<Longrightarrow> cs \<noteq> []"
  by (auto simp: parse_choices_def split: pyval.splits option.splits list.splits)

lemma parse_spec_ok:
  assumes "parse_spec d k = Inr sp"
  shows "field_ok sp \<and> f_kind sp = k"
proof (cases "k = KNet")
  case True
  with assms show ?thesis
    by (auto simp: parse_spec_def mres_simps field_ok_def default_ok_def min_above_max_def finite_bound_def split: pyval.splits)
next
  case False
  let ?sp = "\<lparr>f_kind = k, f_help = get_default d ''help'' (VStr []), f_required = truthy (get_default d ''required'' (VBool False)),
               f_role = [], f_choices = [], f_min = None, f_max = None, f_default = None\<rparr>"
  from assms False obtain cs lo hi where p: "parse_choices d k = Inr cs" "parse_bound d k ''min'' = Inr lo"
    "parse_bound d k ''max'' = Inr hi" "\<not> min_above_max lo hi"
    "parse_default d (?sp\<lparr>f_choices := cs, f_min := lo, f_max := hi\<rparr>) = Inr sp"
    by (auto simp: parse_spec_def mres_simps)
  have "lo \<noteq> None \<or> hi \<noteq> None \<longrightarrow> k = KInt \<or> k = KFloat" using p(2,3) parse_bound_kind by blast
  moreover have "k = KChoice \<longrightarrow> cs \<noteq> []" using p(1) parse_choices_ok by blast
  moreover have "finite_bound lo" "finite_bound hi" using p(2,3) parse_bound_finite by blast+
  ultimately show ?thesis using p(4) parse_default_ok [OF p(5)] False by (simp add: field_ok_def)
qed

lemma parse_field_ok:
  assumes "parse_field name v allowed = Inr sp"
  shows "re_match NAME_RE name \<and> field_ok sp \<and> f_kind sp \<in> set allowed"
proof -
  from assms obtain d k where "re_match NAME_RE name" "kind_of (get_default d ''type'' (VStr ''str'')) allowed = Some k" "parse_spec d k = Inr sp"
    by (auto simp: parse_field_def mres_simps split: pyval.splits option.splits)
  moreover have "k \<in> set allowed"
    using calculation(2) by (auto simp: kind_of_def split: pyval.splits option.splits if_splits)
  ultimately show ?thesis using parse_spec_ok by blast
qed

lemma parse_arg_ok: "parse_arg name v = Inr sp \<Longrightarrow> arg_ok name sp"
  using parse_field_ok by (fastforce simp: parse_arg_def mres_simps arg_ok_def SCALAR_TYPES_def)

lemma parse_action_ok:
  assumes "parse_action t name v = Inr a"
  shows "action_ok name a"
proof -
  from assms obtain d args_in tm args where p: "re_match NAME_RE name" "name \<noteq> ''setup''" "name \<noteq> ''teardown''"
    "check_timeout (get_default d ''timeout_s'' (VInt t)) = Inr tm" "build_items parse_arg args_in [] = Inr args"
    "a = \<lparr>a_help = get_default d ''help'' (VStr []), a_timeout = tm, a_args = args\<rparr>"
    by (auto simp: parse_action_def mres_simps split: pyval.splits)
  from build_items_ok [OF p(5), of arg_ok] parse_arg_ok have "distinct (map fst args)" "\<forall>(n, sp)\<in>set args. arg_ok n sp" by auto
  with p check_timeout_ok show ?thesis by (auto simp: action_ok_def)
qed

lemma parse_manifest_ok:
  assumes "parse_manifest v = Inr m"
  shows "manifest_ok m"
proof -
  from assms obtain d dtype version where t: "re_match TYPE_RE dtype" "dtype \<notin> set RESERVED_TYPES" "strip version \<noteq> []"
    "parse_body d dtype version = Inr m"
    by (auto simp: parse_manifest_def mres_simps)
  from t(4) obtain timeout requirements params_in params actions_in actions where b:
    "check_timeout (get_default d ''timeout_s'' (VInt DEFAULT_TIMEOUT_S)) = Inr timeout"
    "build_items (\<lambda>n sp. parse_field n sp PARAM_TYPES) params_in [] = Inr params"
    "actions_in \<noteq> []" "build_items (parse_action timeout) actions_in [] = Inr actions"
    "m = \<lparr>m_type = dtype, m_version = strip version, m_api = dict_get d ''lager_api'',
          m_description = get_default d ''description'' (VStr []), m_timeout = timeout,
          m_requirements = requirements, m_params = params, m_actions = actions\<rparr>"
    by (auto simp: parse_body_def mres_simps)
  have ps: "distinct (map fst params)" "\<forall>(n, sp)\<in>set params. re_match NAME_RE n \<and> field_ok sp"
    using build_items_ok [OF b(2), of "\<lambda>n sp. re_match NAME_RE n \<and> field_ok sp"] parse_field_ok by auto
  have as: "distinct (map fst actions)" "\<forall>(n, a)\<in>set actions. action_ok n a" "actions \<noteq> []"
    using build_items_ok [OF b(4), of action_ok] parse_action_ok b(3) by auto
  from t b ps as check_timeout_ok show ?thesis by (simp add: manifest_ok_def)
qed

section \<open>Property\<close>

lemma action_args:
  assumes "manifest_ok m" "map_of (m_actions m) action = Some a"
  shows "distinct (map fst (a_args a))" "\<forall>(n, sp)\<in>set (a_args a). default_ok sp"
proof -
  from map_of_SomeD [OF assms(2)] assms(1) have "action_ok action a" by (auto simp: manifest_ok_def)
  then show "distinct (map fst (a_args a))" "\<forall>(n, sp)\<in>set (a_args a). default_ok sp"
    by (auto simp: action_ok_def arg_ok_def field_ok_def)
qed

text \<open>
  C38. Calls of a custom driver are checked. An accepted manifest has sound names, kinds,
  bounds, choices, defaults and time limits. When the arguments of a call are accepted, every
  value handed to the driver has the declared type, lies within the declared bounds or among
  the choices, and every required argument is there; checking the result again gives it back.
\<close>

theorem driver_call_checked:
  assumes "parse_manifest v = Inr m"
  shows "manifest_ok m \<and> (\<forall>action a raw out. map_of (m_actions m) action = Some a \<and> coerce_args m action raw = Inr out \<longrightarrow>
    args_ok (a_args a) out \<and> coerce_args m action (VDict out) = Inr out)"
proof -
  note ok = parse_manifest_ok [OF assms]
  have "args_ok (a_args a) out \<and> coerce_args m action (VDict out) = Inr out"
    if "map_of (m_actions m) action = Some a" "coerce_args m action raw = Inr out" for action a raw out
    using coerce_fields_ok [OF _ action_args(2,1) [OF ok that(1)]] that by (simp add: coerce_args_def)
  with ok show ?thesis by blast
qed

definition stepper_manifest :: pyval where
  "stepper_manifest = VDict [(''type'', VStr ''stepper''), (''version'', VStr ''1.0.0''), (''lager_api'', VInt 1),
     (''params'', VDict [(''enable'', VDict [(''type'', VStr ''net''), (''role'', VStr ''gpio''), (''required'', VBool True)])]),
     (''actions'', VDict [(''jog'', VDict [(''args'', VDict [(''steps'', VDict
        [(''type'', VStr ''int''), (''min'', VInt 1), (''max'', VInt 30), (''required'', VBool True)])])])])]"

lemma finite_small: "\<bar>i\<bar> < 2 ^ 53 \<Longrightarrow> is_finite_number (VInt i) = Inr True"
  by (simp add: is_finite_number_def to_binary64_int)

lemma stepper_names: "re_match TYPE_RE ''stepper''" "re_match NAME_RE ''jog''" "re_match NAME_RE ''steps''" "re_match NAME_RE ''enable''"
  by code_simp+

lemma stepper_five: "int_of_str ''5'' = Some 5" "strip ''1.0.0'' = ''1.0.0''"
  by code_simp+

lemma stepper_parsed:
  "\<exists>m. parse_manifest stepper_manifest = Inr m \<and> m_type m = ''stepper'' \<and> m_requirements m = None \<and>
     m_params m = [(''enable'', \<lparr>f_kind = KNet, f_help = VStr [], f_required = True, f_role = ''gpio'', f_choices = [], f_min = None,
       f_max = None, f_default = None\<rparr>)] \<and>
     map_of (m_actions m) ''jog'' \<noteq> None \<and> coerce_args m ''jog'' (VDict [(''steps'', VStr ''5'')]) = Inr [(''steps'', VInt 5)]"
  using stepper_names finite_small [of 1] finite_small [of 30]
  by (simp add: stepper_manifest_def parse_manifest_def parse_body_def require_def bind_def MANIFEST_KEYS_def RESERVED_TYPES_def
      dict_get_def get_default_def check_timeout_def MAX_TIMEOUT_S_def DEFAULT_TIMEOUT_S_def parse_requirements_name_def
      parse_action_def startswith_def parse_arg_def RESERVED_ARG_NAMES_def parse_field_def FIELD_KEYS_def kind_of_def KINDS_def
      SCALAR_TYPES_def PARAM_TYPES_def parse_spec_def parse_choices_def parse_bound_def min_above_max_def num_less_def parse_default_def
      coerce_args_def coerce_fields_def coerce_value_def typed_value_def is_choice_def in_bounds_def stepper_five float_eq_def)

theorem driver_call_checked_witness:
  "case parse_manifest stepper_manifest of
     Inr m \<Rightarrow> manifest_ok m \<and> coerce_args m ''jog'' (VDict [(''steps'', VStr ''5'')]) = Inr [(''steps'', VInt 5)] \<and>
       coerce_args m ''jog'' (VDict [(''steps'', VInt 5)]) = Inr [(''steps'', VInt 5)]
   | Inl _ \<Rightarrow> False"
proof -
  from stepper_parsed obtain m a where m: "parse_manifest stepper_manifest = Inr m" "map_of (m_actions m) ''jog'' = Some a"
    "coerce_args m ''jog'' (VDict [(''steps'', VStr ''5'')]) = Inr [(''steps'', VInt 5)]" by auto
  with driver_call_checked [OF m(1)] show ?thesis by auto
qed

end
