(* ===== verification/Driver_Store.thy ===== *)
theory Driver_Store
  imports Driver_Manifest Py_Path
begin

text \<open>
  The installed custom drivers, \<^verbatim>\<open>box/lager/drivers/registry.py\<close> and \<^verbatim>\<open>loader.py\<close>. The store
  holds one bundle per type and what failed swaps left in the staging directory. An upload is
  its size, its hash and its archive as \<^verbatim>\<open>zipfile\<close> lists it; how a file's text is read as JSON
  and what the installation of packages answers are inputs. Shown: unpacking stays inside the
  staging directory; an installation replaces a driver by a complete one, leaves it, or loses
  it when the second rename fails; a net that resolves has its parameters checked and its base
  nets of the needed roles; and a bundle can bring its own package directory past the check
  that forbids it.
\<close>

section \<open>Bundles\<close>

text \<open>Files by their path inside the bundle; whether the packages are usable.\<close>

record drv_bundle =
  b_files :: "(string \<times> string) list"
  b_deps_ok :: bool

record dstore =
  drivers :: "(string \<times> drv_bundle) list"
  left_over :: "drv_bundle list"

text \<open>\<^verbatim>\<open>DriverStoreError\<close> with its status, \<^verbatim>\<open>DriverUnavailable\<close>, or another exception.\<close>

datatype derr = DriverStoreError int | DriverUnavailable | DManifest | DRaises pyexc

definition MANIFEST_FILE :: string where "MANIFEST_FILE = ''lager_driver.json''"
definition DRIVER_FILE :: string where "DRIVER_FILE = ''driver.py''"
definition DEPS_DIR :: string where "DEPS_DIR = ''.deps''"
definition SHA_FILE :: string where "SHA_FILE = ''.sha256''"
definition MAX_BUNDLE_BYTES :: nat where "MAX_BUNDLE_BYTES = 5 * 1024 * 1024"
definition MAX_UNPACKED_BYTES :: nat where "MAX_UNPACKED_BYTES = 20 * 1024 * 1024"
definition MAX_FILES :: nat where "MAX_FILES = 200"

definition validate_type :: "string \<Rightarrow> derr + unit" where
  "validate_type dtype = (if \<not> re_match TYPE_RE dtype then Inl (DriverStoreError 400)
     else if dtype \<in> set RESERVED_TYPES then Inl (DriverStoreError 400) else Inr ())"

definition is_file :: "drv_bundle \<Rightarrow> string \<Rightarrow> bool" where
  "is_file b p = (map_of (b_files b) p \<noteq> None)"

text \<open>A name with a slash would be a directory below; the type expression has none.\<close>

definition has :: "dstore \<Rightarrow> pyval \<Rightarrow> bool" where
  "has st v = (case v of
     VStr dtype \<Rightarrow> re_match TYPE_RE dtype \<and> (case map_of (drivers st) dtype of None \<Rightarrow> False | Some b \<Rightarrow> is_file b MANIFEST_FILE)
   | _ \<Rightarrow> False)"

definition bundle_manifest :: "(string \<Rightarrow> json_file) \<Rightarrow> drv_bundle \<Rightarrow> manifest mres" where
  "bundle_manifest decode b = load_manifest (case map_of (b_files b) MANIFEST_FILE of None \<Rightarrow> Missing | Some t \<Rightarrow> decode t)"

text \<open>\<^verbatim>\<open>_describe\<close>: the manifest of a driver that can be loaded, \<open>None\<close> for status \<^verbatim>\<open>error\<close>.\<close>

definition describe :: "(string \<Rightarrow> json_file) \<Rightarrow> string \<Rightarrow> drv_bundle \<Rightarrow> derr + manifest option" where
  "describe decode dtype b = (case bundle_manifest decode b of
     Inl ManifestError \<Rightarrow> Inr None
   | Inl (Escapes e) \<Rightarrow> Inl (DRaises e)
   | Inr m \<Rightarrow>
       if m_type m \<noteq> dtype then Inr None
       else if \<not> is_file b DRIVER_FILE then Inr None
       else if m_requirements m \<noteq> None \<and> \<not> b_deps_ok b then Inr None
       else Inr (Some m))"

definition get_driver :: "(string \<Rightarrow> json_file) \<Rightarrow> dstore \<Rightarrow> pyval \<Rightarrow> derr + manifest" where
  "get_driver decode st v = (case v of
     VStr dtype \<Rightarrow> if \<not> has st v then Inl DriverUnavailable
       else (case map_of (drivers st) dtype of
          None \<Rightarrow> Inl DriverUnavailable
        | Some b \<Rightarrow> (case describe decode dtype b of
            Inl e \<Rightarrow> Inl e | Inr None \<Rightarrow> Inl DriverUnavailable | Inr (Some m) \<Rightarrow> Inr m))
   | _ \<Rightarrow> Inl DriverUnavailable)"

section \<open>Unpacking\<close>

record zinfo =
  z_name :: string
  z_isdir :: bool
  z_size :: nat
  z_link :: bool
  z_data :: string

text \<open>What \<^verbatim>\<open>zipfile\<close> makes of the upload: not an archive, or its entries.\<close>

type_synonym archive = "zinfo list option"

definition top :: "string \<Rightarrow> string" where
  "top name = takeWhile (\<lambda>c. c \<noteq> slash) name"

definition bundle_root :: "string list \<Rightarrow> derr + string" where
  "bundle_root names = (if MANIFEST_FILE \<in> set names then Inr []
     else (case remdups (map top names) of
        [t] \<Rightarrow> if t @ slash # MANIFEST_FILE \<in> set names then Inr (t @ [slash]) else Inl (DriverStoreError 400)
      | _ \<Rightarrow> Inl (DriverStoreError 400)))"

definition bad_name :: "string \<Rightarrow> bool" where
  "bad_name name = (let norm = normpath name in
     startswith name [slash] \<or> CHR 0x5C \<in> set name \<or> norm = ''..'' \<or> startswith norm ''../'' \<or> CHR '':'' \<in> set (top name))"

definition target_of :: "string \<Rightarrow> string \<Rightarrow> string" where
  "target_of dest rel = normpath (foldl path_join dest (split_on slash rel))"

text \<open>
  One entry is written whole, or its directory or file cannot be made, or the copy breaks off
  (a full disk, a bad checksum) with the first bytes written.
\<close>

datatype entry_write = EntryWritten | NotOpened | Torn nat pyexc

text \<open>How the loop ends, with the files written till then by their absolute path, in order.\<close>

fun extract_loop :: "(string \<Rightarrow> entry_write) \<Rightarrow> string \<Rightarrow> string \<Rightarrow> zinfo list \<Rightarrow> (derr + unit) \<times> (string \<times> string) list" where
  "extract_loop wr dest prefix [] = (Inr (), [])"
| "extract_loop wr dest prefix (i # infos) =
    (let rel = drop (length prefix) (z_name i); target = target_of dest rel in
     if \<not> startswith (z_name i) prefix \<or> rel = [] then extract_loop wr dest prefix infos
     else if top rel = DEPS_DIR then (Inl (DriverStoreError 400), [])
     else if \<not> inside dest target then (Inl (DriverStoreError 400), [])
     else (case wr target of
         NotOpened \<Rightarrow> (Inl (DRaises OSError), [])
       | Torn k e \<Rightarrow> (Inl (DRaises e), [(target, take k (z_data i))])
       | EntryWritten \<Rightarrow> map_prod id (Cons (target, z_data i)) (extract_loop wr dest prefix infos)))"

definition extract_zip :: "(string \<Rightarrow> entry_write) \<Rightarrow> archive \<Rightarrow> string \<Rightarrow> (derr + unit) \<times> (string \<times> string) list" where
  "extract_zip wr data dest = (case data of
     None \<Rightarrow> (Inl (DriverStoreError 400), [])
   | Some entries \<Rightarrow>
      let infos = filter (Not \<circ> z_isdir) entries; names = map z_name infos in
      if length infos > MAX_FILES then (Inl (DriverStoreError 413), [])
      else if sum_list (map z_size infos) > MAX_UNPACKED_BYTES then (Inl (DriverStoreError 413), [])
      else if list_ex bad_name names then (Inl (DriverStoreError 400), [])
      else if list_ex z_link infos then (Inl (DriverStoreError 400), [])
      else (case bundle_root names of Inl e \<Rightarrow> (Inl e, []) | Inr prefix \<Rightarrow> extract_loop wr dest prefix infos))"

section \<open>Installing and removing\<close>

text \<open>
  The outcome of the steps of an installation: directories, writes, the packages, the hash
  file and the two renames. \<^verbatim>\<open>deps.install\<close> succeeds, raises \<^verbatim>\<open>DepsError\<close> with a status, or
  another exception, such as the error of making a directory that is already there.
\<close>

datatype deps_outcome = DepsInstalled | DepsRefused int | DepsBroken pyexc

record install_io =
  staging_made :: bool
  entry_io :: "string \<Rightarrow> entry_write"
  deps_result :: deps_outcome
  sha_ok :: bool
  rename_old :: bool
  rename_new :: bool
  old_removed :: bool

definition relative :: "string \<Rightarrow> string \<times> string \<Rightarrow> string \<times> string" where
  "relative dest f = (drop (length dest + 1) (fst f), snd f)"

text \<open>The staged bundle: the files as they lie in the directory, the last write of a path last.\<close>

definition staged_files :: "string \<Rightarrow> (string \<times> string) list \<Rightarrow> (string \<times> string) list" where
  "staged_files dest ws = fold (\<lambda>(p, t). AList.update p t) (map (relative dest) ws) []"

definition stage :: "(string \<Rightarrow> json_file) \<Rightarrow> install_io \<Rightarrow> string \<Rightarrow> string \<Rightarrow> string \<Rightarrow> archive \<Rightarrow> derr + drv_bundle" where
  "stage decode io dest dtype sha data = (case extract_zip (entry_io io) data dest of
     (Inl e, _) \<Rightarrow> Inl e
   | (Inr _, ws) \<Rightarrow>
      let b = \<lparr>b_files = staged_files dest ws, b_deps_ok = True\<rparr> in
      (case bundle_manifest decode b of
         Inl ManifestError \<Rightarrow> Inl (DriverStoreError 400)
       | Inl (Escapes e) \<Rightarrow> Inl (DRaises e)
       | Inr m \<Rightarrow>
          if m_type m \<noteq> dtype then Inl (DriverStoreError 400)
          else if \<not> is_file b DRIVER_FILE then Inl (DriverStoreError 400)
          else (case (if m_requirements m = None then DepsInstalled else deps_result io) of
             DepsRefused status \<Rightarrow> Inl (DriverStoreError status)
           | DepsBroken e \<Rightarrow> Inl (DRaises e)
           | DepsInstalled \<Rightarrow> if \<not> sha_ok io then Inl (DRaises OSError)
               else Inr (b\<lparr>b_files := AList.update SHA_FILE (sha @ [CHR 0x0A]) (b_files b)\<rparr>))))"

text \<open>The swap: the old driver aside, the new one in its place, the old one removed.\<close>

definition swap :: "install_io \<Rightarrow> string \<Rightarrow> drv_bundle \<Rightarrow> dstore \<Rightarrow> (derr + bool) \<times> dstore" where
  "swap io dtype b st = (case map_of (drivers st) dtype of
     None \<Rightarrow> if \<not> rename_new io then (Inl (DRaises OSError), st)
       else (Inr False, st\<lparr>drivers := AList.update dtype b (drivers st)\<rparr>)
   | Some old \<Rightarrow> if \<not> rename_old io then (Inl (DRaises OSError), st)
       else if \<not> rename_new io
       then (Inl (DRaises OSError), st\<lparr>drivers := AList.delete dtype (drivers st), left_over := old # left_over st\<rparr>)
       else (Inr True, st\<lparr>drivers := AList.update dtype b (drivers st),
               left_over := (if old_removed io then left_over st else old # left_over st)\<rparr>))"

definition install :: "(string \<Rightarrow> json_file) \<Rightarrow> install_io \<Rightarrow> string \<Rightarrow> string \<Rightarrow> nat \<Rightarrow> string \<Rightarrow> archive \<Rightarrow> dstore \<Rightarrow> (derr + bool) \<times> dstore" where
  "install decode io staging dtype n sha data st = (case validate_type dtype of
     Inl e \<Rightarrow> (Inl e, st)
   | Inr _ \<Rightarrow>
      if n = 0 then (Inl (DriverStoreError 400), st)
      else if n > MAX_BUNDLE_BYTES then (Inl (DriverStoreError 413), st)
      else if \<not> staging_made io then (Inl (DRaises OSError), st)
      else (case stage decode io staging dtype sha data of Inl e \<Rightarrow> (Inl e, st) | Inr b \<Rightarrow> swap io dtype b st))"

definition remove_driver :: "bool \<Rightarrow> string \<Rightarrow> string list \<Rightarrow> bool \<Rightarrow> dstore \<Rightarrow> (derr + unit) \<times> dstore" where
  "remove_driver ok dtype nets_using force st = (case validate_type dtype of
     Inl e \<Rightarrow> (Inl e, st)
   | Inr _ \<Rightarrow>
      if map_of (drivers st) dtype = None then (Inl (DriverStoreError 404), st)
      else if nets_using \<noteq> [] \<and> \<not> force then (Inl (DriverStoreError 409), st)
      else if \<not> ok then (Inl (DRaises OSError), st)
      else (Inr (), st\<lparr>drivers := AList.delete dtype (drivers st)\<rparr>))"

section \<open>Resolving a net\<close>

text \<open>The records of a name, and the first of them with the role.\<close>

definition matches :: "dict list \<Rightarrow> pyval \<Rightarrow> dict list" where
  "matches nets target = filter (\<lambda>n. py_eq (dict_get n ''name'') target) nets"

definition has_role :: "string \<Rightarrow> dict \<Rightarrow> bool" where
  "has_role role n = py_eq (dict_get n ''role'') (VStr role)"

fun base_loop :: "(string \<times> field_spec) list \<Rightarrow> dict \<Rightarrow> dict list \<Rightarrow> derr + (string \<times> dict) list" where
  "base_loop [] params nets = Inr []"
| "base_loop ((pname, sp) # fs) params nets =
    (case (if f_kind sp = KNet then map_of params pname else None) of
       None \<Rightarrow> base_loop fs params nets
     | Some target \<Rightarrow> (case find (has_role (f_role sp)) (matches nets target) of
          None \<Rightarrow> Inl DManifest
        | Some base \<Rightarrow> map_sum id (Cons (pname, base)) (base_loop fs params nets)))"

text \<open>\<^verbatim>\<open>find_net\<close>: the first record of the name whose role is an installed driver.\<close>

definition find_net :: "dstore \<Rightarrow> string \<Rightarrow> dict list \<Rightarrow> derr + dict" where
  "find_net st netname nets = (case find (\<lambda>n. py_eq (dict_get n ''name'') (VStr netname) \<and> has st (dict_get n ''role'')) nets of
     None \<Rightarrow> Inl DManifest | Some n \<Rightarrow> Inr n)"

definition resolve :: "(string \<Rightarrow> json_file) \<Rightarrow> dstore \<Rightarrow> dict \<Rightarrow> dict list \<Rightarrow> derr + manifest \<times> dict \<times> (string \<times> dict) list" where
  "resolve decode st rec nets = (case get_driver decode st (dict_get rec ''role'') of
     Inl e \<Rightarrow> Inl e
   | Inr m \<Rightarrow> (case coerce_params m (dict_get rec ''params'') of
        Inl ManifestError \<Rightarrow> Inl DManifest
      | Inl (Escapes e) \<Rightarrow> Inl (DRaises e)
      | Inr params \<Rightarrow> (case base_loop (m_params m) params nets of
          Inl e \<Rightarrow> Inl e | Inr bases \<Rightarrow> Inr (m, params, bases))))"

section \<open>Unpacking stays inside\<close>

lemma extract_loop_inside:
  "extract_loop wr dest prefix infos = (x, ws) \<Longrightarrow> (p, t) \<in> set ws \<Longrightarrow> inside dest p \<and> (\<exists>y. p = normpath y)"
proof (induction infos arbitrary: x ws)
  case (Cons i infos)
  let ?rel = "drop (length prefix) (z_name i)"
  show ?case
  proof (cases "\<not> startswith (z_name i) prefix \<or> ?rel = []")
    case True
    with Cons show ?thesis by simp
  next
    case False
    obtain y ws' where more: "extract_loop wr dest prefix infos = (y, ws')" by fastforce
    from Cons.prems False more have "(p, t) \<in> set ws' \<or> p = target_of dest ?rel \<and> inside dest (target_of dest ?rel)"
      by (auto simp: Let_def split: if_splits entry_write.splits)
    with Cons.IH [OF more] show ?thesis by (auto simp: target_of_def)
  qed
qed simp

lemma extract_inside:
  assumes "extract_zip wr data (rooted_at rs) = (x, ws)" "rs \<noteq> []" "list_all plain rs" "(p, t) \<in> set ws"
  shows "\<exists>cs. cs \<noteq> [] \<and> list_all plain cs \<and> p = rooted_at (rs @ cs)"
proof -
  from assms(1,4) obtain prefix infos where "extract_loop wr (rooted_at rs) prefix infos = (x, ws)"
    by (auto simp: extract_zip_def Let_def split: option.splits if_splits sum.splits)
  from extract_loop_inside [OF this assms(4)] inside_normpath [OF assms(2,3)] show ?thesis by blast
qed

section \<open>Installing\<close>

lemma stage_ok:
  assumes "stage decode io dest dtype sha data = Inr b"
  shows "\<exists>ws m. extract_zip (entry_io io) data dest = (Inr (), ws) \<and> b_files b = AList.update SHA_FILE (sha @ [CHR 0x0A]) (staged_files dest ws) \<and>
    bundle_manifest decode b = Inr m \<and> m_type m = dtype \<and> is_file b DRIVER_FILE \<and> b_deps_ok b"
proof -
  from assms obtain ws where ws: "extract_zip (entry_io io) data dest = (Inr (), ws)"
    by (auto simp: stage_def split: prod.splits sum.splits)
  let ?b = "\<lparr>b_files = staged_files dest ws, b_deps_ok = True\<rparr>"
  from assms ws obtain m where m: "bundle_manifest decode ?b = Inr m" "m_type m = dtype" "is_file ?b DRIVER_FILE"
    "b = ?b\<lparr>b_files := AList.update SHA_FILE (sha @ [CHR 0x0A]) (b_files ?b)\<rparr>"
    by (auto simp: stage_def Let_def split: sum.splits merr.splits if_splits deps_outcome.splits)
  have "MANIFEST_FILE \<noteq> SHA_FILE" "DRIVER_FILE \<noteq> SHA_FILE" by code_simp+
  with m(1,3) have "bundle_manifest decode b = Inr m" "is_file b DRIVER_FILE"
    by (simp_all add: m(4) bundle_manifest_def is_file_def update_conv')
  with ws m show ?thesis by auto
qed

lemma stage_described:
  assumes "stage decode io dest dtype sha data = Inr b"
  shows "\<exists>m. describe decode dtype b = Inr (Some m) \<and> manifest_ok m"
proof -
  from stage_ok [OF assms] obtain m where m: "bundle_manifest decode b = Inr m" "m_type m = dtype" "is_file b DRIVER_FILE" "b_deps_ok b"
    by blast
  from m(1) have "manifest_ok m"
    by (auto simp: bundle_manifest_def load_manifest_def parse_manifest_ok split: json_file.splits option.splits)
  with m show ?thesis by (simp add: describe_def)
qed

text \<open>The old driver is moved aside and the new one cannot take its place.\<close>

definition swap_breaks :: "install_io \<Rightarrow> string \<Rightarrow> dstore \<Rightarrow> bool" where
  "swap_breaks io dtype st = (map_of (drivers st) dtype \<noteq> None \<and> rename_old io \<and> \<not> rename_new io)"

lemma swap_cases:
  assumes "swap io dtype b st = (r, st')"
  shows "(\<forall>other. other \<noteq> dtype \<longrightarrow> map_of (drivers st') other = map_of (drivers st) other) \<and>
    (if swap_breaks io dtype st
     then r = Inl (DRaises OSError) \<and> map_of (drivers st') dtype = None \<and> the (map_of (drivers st) dtype) \<in> set (left_over st')
     else case r of
       Inr replaced \<Rightarrow> map_of (drivers st') dtype = Some b \<and> replaced = (map_of (drivers st) dtype \<noteq> None)
     | Inl _ \<Rightarrow> st' = st)"
  using assms by (auto simp: swap_def swap_breaks_def update_conv' delete_conv' split: option.splits if_splits)

text \<open>An installation that comes to the swap: everything before it succeeded.\<close>

definition comes_to_swap :: "(string \<Rightarrow> json_file) \<Rightarrow> install_io \<Rightarrow> string \<Rightarrow> string \<Rightarrow> nat \<Rightarrow> string \<Rightarrow> archive \<Rightarrow> bool" where
  "comes_to_swap decode io staging dtype n sha data =
    (validate_type dtype = Inr () \<and> n \<noteq> 0 \<and> n \<le> MAX_BUNDLE_BYTES \<and> staging_made io \<and>
     (\<exists>b. stage decode io staging dtype sha data = Inr b))"

lemma install_cases:
  assumes "install decode io staging dtype n sha data st = (r, st')"
  obtains (swaps) b where "comes_to_swap decode io staging dtype n sha data" "stage decode io staging dtype sha data = Inr b"
      "swap io dtype b st = (r, st')"
  | (fails) e where "\<not> comes_to_swap decode io staging dtype n sha data" "r = Inl e" "st' = st"
  using assms by (auto simp: install_def comes_to_swap_def split: sum.splits if_splits)

section \<open>Properties\<close>

text \<open>
  C39. A driver is installed whole or not at all, but it can be lost. An installation changes
  no other driver, and the files that unpacking has written, also when it fails on the way,
  all lie below the staging directory. When the installation succeeds, the new bundle loads:
  its manifest is sound and of the type, and the driver file is there. When everything is
  staged, the old driver was moved aside and the second rename fails, the installation fails
  and no driver of the type is left; its old bundle lies in the staging directory. In every
  other failing installation nothing changes.
\<close>

theorem driver_installed_whole:
  assumes "install decode io (rooted_at rs) dtype n sha data st = (r, st')" and "rs \<noteq> []" and "list_all plain rs"
  shows "(\<forall>other. other \<noteq> dtype \<longrightarrow> map_of (drivers st') other = map_of (drivers st) other) \<and>
    (\<forall>x ws p t. extract_zip (entry_io io) data (rooted_at rs) = (x, ws) \<and> (p, t) \<in> set ws \<longrightarrow>
       (\<exists>cs. cs \<noteq> [] \<and> list_all plain cs \<and> p = rooted_at (rs @ cs))) \<and>
    (if comes_to_swap decode io (rooted_at rs) dtype n sha data \<and> swap_breaks io dtype st
     then r = Inl (DRaises OSError) \<and> map_of (drivers st') dtype = None \<and> the (map_of (drivers st) dtype) \<in> set (left_over st')
     else case r of
       Inr replaced \<Rightarrow> replaced = (map_of (drivers st) dtype \<noteq> None) \<and>
         (\<exists>b m. map_of (drivers st') dtype = Some b \<and> describe decode dtype b = Inr (Some m) \<and> manifest_ok m)
     | Inl _ \<Rightarrow> st' = st)"
proof -
  have inner: "\<forall>x ws p t. extract_zip (entry_io io) data (rooted_at rs) = (x, ws) \<and> (p, t) \<in> set ws \<longrightarrow>
       (\<exists>cs. cs \<noteq> [] \<and> list_all plain cs \<and> p = rooted_at (rs @ cs))"
    using extract_inside [OF _ assms(2,3)] by blast
  from assms(1) show ?thesis
  proof (cases rule: install_cases)
    case (swaps b)
    from stage_described [OF swaps(2)] swap_cases [OF swaps(3)] swaps(1) inner show ?thesis by (auto split: sum.splits if_splits)
  next
    case (fails e)
    with inner show ?thesis by simp
  qed
qed

definition good_install :: install_io where
  "good_install = \<lparr>staging_made = True, entry_io = (\<lambda>_. EntryWritten), deps_result = DepsInstalled, sha_ok = True, rename_old = True,
     rename_new = True, old_removed = True\<rparr>"

definition zip_file :: "string \<Rightarrow> zinfo" where
  "zip_file name = \<lparr>z_name = name, z_isdir = False, z_size = 1, z_link = False, z_data = ''x''\<rparr>"

definition stepper_zip :: "zinfo list" where
  "stepper_zip = [zip_file ''stepper/lager_driver.json'', zip_file ''stepper/driver.py'']"

lemma stepper_extracted:
  "extract_zip (\<lambda>_. EntryWritten) (Some stepper_zip) ''/d/.staging/x'' =
     (Inr (), [(''/d/.staging/x/lager_driver.json'', ''x''), (''/d/.staging/x/driver.py'', ''x'')])"
proof -
  have "extract_loop (\<lambda>_. EntryWritten) ''/d/.staging/x'' ''stepper/'' stepper_zip =
      (Inr (), [(''/d/.staging/x/lager_driver.json'', ''x''), (''/d/.staging/x/driver.py'', ''x'')])" by code_simp
  moreover have "bundle_root [''stepper/lager_driver.json'', ''stepper/driver.py''] = Inr ''stepper/''" by code_simp
  moreover have "\<not> bad_name ''stepper/lager_driver.json''" "\<not> bad_name ''stepper/driver.py''" by code_simp+
  ultimately show ?thesis by (simp add: extract_zip_def stepper_zip_def zip_file_def MAX_FILES_def MAX_UNPACKED_BYTES_def)
qed

definition old_stepper :: drv_bundle where
  "old_stepper = \<lparr>b_files = [], b_deps_ok = True\<rparr>"

lemma stepper_stage:
  "\<exists>b. stage (\<lambda>_. JsonDoc stepper_manifest) (good_install\<lparr>rename_new := w\<rparr>) ''/d/.staging/x'' ''stepper'' ''h'' (Some stepper_zip) = Inr b"
proof -
  obtain m where m: "parse_manifest stepper_manifest = Inr m" "m_type m = ''stepper''" "m_requirements m = None"
    using stepper_parsed by blast
  then show ?thesis
    by (simp add: stage_def good_install_def stepper_extracted staged_files_def relative_def
      bundle_manifest_def load_manifest_def MANIFEST_FILE_def DRIVER_FILE_def is_file_def)
qed

theorem driver_installed_whole_witness:
  "(\<exists>st b m. install (\<lambda>_. JsonDoc stepper_manifest) good_install (rooted_at [''d'', ''.staging'', ''x'']) ''stepper'' 9 ''h''
     (Some stepper_zip) \<lparr>drivers = [], left_over = []\<rparr> = (Inr False, st) \<and>
   map_of (drivers st) ''stepper'' = Some b \<and> describe (\<lambda>_. JsonDoc stepper_manifest) ''stepper'' b = Inr (Some m) \<and> manifest_ok m) \<and>
   (\<exists>st. install (\<lambda>_. JsonDoc stepper_manifest) (good_install\<lparr>rename_new := False\<rparr>) (rooted_at [''d'', ''.staging'', ''x'']) ''stepper'' 9 ''h''
     (Some stepper_zip) \<lparr>drivers = [(''stepper'', old_stepper)], left_over = []\<rparr> = (Inl (DRaises OSError), st) \<and>
   map_of (drivers st) ''stepper'' = None \<and> old_stepper \<in> set (left_over st))"
proof -
  let ?in = "\<lambda>w. install (\<lambda>_. JsonDoc stepper_manifest) (good_install\<lparr>rename_new := w\<rparr>) (rooted_at [''d'', ''.staging'', ''x'']) ''stepper'' 9 ''h''
     (Some stepper_zip)"
  let ?e = "\<lparr>drivers = [], left_over = []\<rparr>" and ?o = "\<lparr>drivers = [(''stepper'', old_stepper)], left_over = []\<rparr>"
  have g: "good_install\<lparr>rename_new := True\<rparr> = good_install" by (simp add: good_install_def)
  have p: "list_all plain [''d'', ''.staging'', ''x'']" by code_simp
  have v: "validate_type ''stepper'' = Inr ()" by (simp add: validate_type_def stepper_names RESERVED_TYPES_def)
  have d: "rooted_at [''d'', ''.staging'', ''x''] = ''/d/.staging/x''" by code_simp
  have c: "comes_to_swap (\<lambda>_. JsonDoc stepper_manifest) (good_install\<lparr>rename_new := w\<rparr>) (rooted_at [''d'', ''.staging'', ''x''])
      ''stepper'' 9 ''h'' (Some stepper_zip)" for w
    using stepper_stage [of w] v d by (simp add: comes_to_swap_def MAX_BUNDLE_BYTES_def good_install_def)
  have "fst (?in True ?e) = Inr False"
    using stepper_stage [of True] v d by (auto simp: install_def MAX_BUNDLE_BYTES_def swap_def good_install_def)
  then obtain st where st: "?in True ?e = (Inr False, st)" by (cases "?in True ?e") auto
  obtain r st' where st': "?in False ?o = (r, st')" by fastforce
  have "swap_breaks (good_install\<lparr>rename_new := False\<rparr>) ''stepper'' ?o" by (simp add: swap_breaks_def good_install_def)
  with driver_installed_whole [OF st' _ p] c st'
  have "?in False ?o = (Inl (DRaises OSError), st') \<and> map_of (drivers st') ''stepper'' = None \<and> old_stepper \<in> set (left_over st')" by simp
  moreover have "\<not> swap_breaks (good_install\<lparr>rename_new := True\<rparr>) ''stepper'' ?e" by (simp add: swap_breaks_def)
  with driver_installed_whole [OF st _ p] st
  have "\<exists>b m. map_of (drivers st) ''stepper'' = Some b \<and> describe (\<lambda>_. JsonDoc stepper_manifest) ''stepper'' b = Inr (Some m) \<and> manifest_ok m"
    by simp
  ultimately show ?thesis using st g by auto
qed

text \<open>
  The check on the package directory can be passed by. A bundle may not bring its own
  package directory, but only the first component of a name is looked at before the path is
  normalised: a file below \<^verbatim>\<open>./.deps/\<close> is accepted and lands in the package directory.
\<close>

lemma bundle_brings_packages:
  "extract_zip (\<lambda>_. EntryWritten) (Some [zip_file ''lager_driver.json'', zip_file ''./.deps/numpy.py'']) ''/d/.staging/x'' =
     (Inr (), [(''/d/.staging/x/lager_driver.json'', ''x''), (''/d/.staging/x/.deps/numpy.py'', ''x'')]) \<and>
   extract_zip (\<lambda>_. EntryWritten) (Some [zip_file ''lager_driver.json'', zip_file ''.deps/numpy.py'']) ''/d/.staging/x'' =
     (Inl (DriverStoreError 400), [(''/d/.staging/x/lager_driver.json'', ''x'')])"
proof -
  let ?a = "zip_file ''lager_driver.json''"
  have "extract_loop (\<lambda>_. EntryWritten) ''/d/.staging/x'' [] [?a, zip_file ''./.deps/numpy.py''] =
      (Inr (), [(''/d/.staging/x/lager_driver.json'', ''x''), (''/d/.staging/x/.deps/numpy.py'', ''x'')])"
    "extract_loop (\<lambda>_. EntryWritten) ''/d/.staging/x'' [] [?a, zip_file ''.deps/numpy.py''] = (Inl (DriverStoreError 400), [(''/d/.staging/x/lager_driver.json'', ''x'')])"
    by code_simp+
  moreover have "\<not> bad_name ''lager_driver.json''" "\<not> bad_name ''./.deps/numpy.py''" "\<not> bad_name ''.deps/numpy.py''" by code_simp+
  ultimately show ?thesis
    by (simp add: extract_zip_def zip_file_def MAX_FILES_def MAX_UNPACKED_BYTES_def bundle_root_def MANIFEST_FILE_def)
qed

lemma get_driver_ok:
  assumes "get_driver decode st v = Inr m"
  shows "manifest_ok m \<and> v = VStr (m_type m) \<and> has st v"
proof -
  from assms obtain dtype b where v: "v = VStr dtype" "has st v" "describe decode dtype b = Inr (Some m)"
    by (auto simp: get_driver_def split: pyval.splits if_splits option.splits sum.splits)
  then have "bundle_manifest decode b = Inr m" "m_type m = dtype"
    by (auto simp: describe_def split: sum.splits merr.splits if_splits)
  with v show ?thesis
    by (auto simp: bundle_manifest_def load_manifest_def parse_manifest_ok split: json_file.splits option.splits)
qed

lemma base_loop_ok:
  "base_loop fs params nets = Inr bases \<Longrightarrow> (pname, sp) \<in> set fs \<Longrightarrow> f_kind sp = KNet \<Longrightarrow> map_of params pname = Some target \<Longrightarrow>
   \<exists>base\<in>set nets. (pname, base) \<in> set bases \<and> py_eq (dict_get base ''name'') target \<and> dict_get base ''role'' = VStr (f_role sp)"
proof (induction fs arbitrary: bases)
  case (Cons f fs)
  obtain q sq where f: "f = (q, sq)" by (cases f)
  from Cons.prems(1) f obtain rest where rest: "base_loop fs params nets = Inr rest" "set rest \<subseteq> set bases"
    by (auto simp: map_sum_eq_Inr split: option.splits if_splits)
  show ?case
  proof (cases "(pname, sp) = f")
    case True
    with Cons.prems(1,3,4) f obtain base where "find (has_role (f_role sp)) (matches nets target) = Some base" "(pname, base) \<in> set bases"
      by (auto simp: map_sum_eq_Inr split: option.splits)
    then show ?thesis by (auto simp: find_Some_iff matches_def has_role_def dest!: nth_mem)
  next
    case False
    with Cons.prems(2) have "(pname, sp) \<in> set fs" by auto
    from Cons.IH [OF rest(1) this Cons.prems(3,4)] rest(2) show ?thesis by blast
  qed
qed simp

text \<open>
  A resolved net is sound. When a custom net resolves, its driver's manifest is sound, its
  parameters have the declared types and bounds and every required one is there, and for every
  parameter that names a net there is a saved net of that name with the declared role.
\<close>

lemma driver_net_resolved:
  assumes "resolve decode st rec nets = Inr (m, params, bases)"
  shows "dict_get rec ''role'' = VStr (m_type m) \<and> has st (VStr (m_type m)) \<and> manifest_ok m \<and> args_ok (m_params m) params \<and>
    (\<forall>pname sp target. (pname, sp) \<in> set (m_params m) \<and> f_kind sp = KNet \<and> map_of params pname = Some target \<longrightarrow>
       (\<exists>base\<in>set nets. (pname, base) \<in> set bases \<and> py_eq (dict_get base ''name'') target \<and>
          dict_get base ''role'' = VStr (f_role sp)))"
proof -
  from assms have g: "get_driver decode st (dict_get rec ''role'') = Inr m" "coerce_fields (m_params m) (dict_get rec ''params'') = Inr params"
    "base_loop (m_params m) params nets = Inr bases"
    by (auto simp: resolve_def coerce_params_def split: sum.splits merr.splits)
  from get_driver_ok [OF g(1)] have m: "manifest_ok m" "dict_get rec ''role'' = VStr (m_type m)" "has st (VStr (m_type m))" by auto
  from m(1) have "distinct (map fst (m_params m))" "\<forall>(n, sp)\<in>set (m_params m). default_ok sp"
    by (auto simp: manifest_ok_def field_ok_def)
  with coerce_fields_ok [OF g(2)] m base_loop_ok [OF g(3)] show ?thesis by blast
qed

definition stepper_store :: dstore where
  "stepper_store = \<lparr>drivers = [(''stepper'', \<lparr>b_files = [(''lager_driver.json'', ''x''), (''driver.py'', ''x'')], b_deps_ok = True\<rparr>)],
     left_over = []\<rparr>"

definition enable_net :: dict where
  "enable_net = [(''name'', VStr ''en''), (''role'', VStr ''gpio'')]"

definition stepper_net :: dict where
  "stepper_net = [(''name'', VStr ''m1''), (''role'', VStr ''stepper''), (''params'', VDict [(''enable'', VStr ''en'')])]"

end
