(* ===== verification/Driver_Deps.thy ===== *)
theory Driver_Deps
  imports Driver_Store Py_Utf8 "HOL-Library.Char_ord" "HOL-Library.List_Lexorder"
begin

text \<open>
  The Python packages of a custom driver, \<^verbatim>\<open>box/lager/drivers/deps.py\<close>, and \<^verbatim>\<open>reinstall_deps\<close> and
  \<^verbatim>\<open>list_drivers\<close> of \<^verbatim>\<open>registry.py\<close>. The requirement parser of the \<^verbatim>\<open>packaging\<close> library, what
  distributions are installed, and pip itself are parameters. Shown: every line of the lock file
  that is handed to pip is one pinned requirement with hashes and without options, of a package the
  box does not provide, and no package appears twice; in a successful installation every declared
  package was in the lock that pip accepted or is the box's own; and a failing swap of the package directory loses the packages.
\<close>

section \<open>Requirement lines\<close>

text \<open>\<^verbatim>\<open>str.splitlines\<close>, for code points up to 255.\<close>

definition is_break :: "char \<Rightarrow> bool" where
  "is_break c = (code c \<in> {10, 11, 12, 13, 28, 29, 30, 133})"

fun py_splitlines :: "string \<Rightarrow> string \<Rightarrow> string list" where
  "py_splitlines cur [] = (if cur = [] then [] else [cur])"
| "py_splitlines cur (c # s) =
    (if code c = 13 then cur # py_splitlines [] (if take 1 s = [newline] then drop 1 s else s)
     else if is_break c then cur # py_splitlines [] s
     else py_splitlines (cur @ [c]) s)"

text \<open>\<^verbatim>\<open>str.split()\<close>.\<close>

fun split_words :: "string \<Rightarrow> string \<Rightarrow> string list" where
  "split_words cur [] = (if cur = [] then [] else [cur])"
| "split_words cur (c # s) =
    (if is_space c then (if cur = [] then [] else [cur]) @ split_words [] s else split_words (cur @ [c]) s)"

definition rstrip :: "string \<Rightarrow> string" where
  "rstrip s = rev (dropWhile is_space (rev s))"

text \<open>\<^verbatim>\<open>re.sub(r'[-_.]+', '-', name).lower()\<close>.\<close>

fun squeeze :: "bool \<Rightarrow> string \<Rightarrow> string" where
  "squeeze after [] = []"
| "squeeze after (c # s) = (if c \<in> {CHR ''-'', CHR ''_'', CHR ''.''}
     then (if after then [] else ''-'') @ squeeze True s else c # squeeze False s)"

definition pep503 :: "string \<Rightarrow> string" where
  "pep503 name = lower (squeeze False name)"

fun before_comment :: "string \<Rightarrow> string" where
  "before_comment [] = []"
| "before_comment (c # s) = (if c = CHR '' '' \<and> take 1 s = ''#'' then [] else c # before_comment s)"

definition clean_line :: "string \<Rightarrow> string" where
  "clean_line raw = (if startswith (lstrip raw) ''#'' then [] else rstrip (before_comment raw))"

fun logical_loop :: "string \<Rightarrow> string list \<Rightarrow> string list" where
  "logical_loop buf [] = (if strip buf = [] then [] else [strip buf])"
| "logical_loop buf (raw # raws) =
    (let line = clean_line raw in
     if endswith line [CHR 0x5C] then logical_loop (buf @ butlast line @ '' '') raws
     else (if strip (buf @ line) = [] then [] else [strip (buf @ line)]) @ logical_loop [] raws)"

definition logical_lines :: "string \<Rightarrow> string list" where
  "logical_lines text = logical_loop [] (py_splitlines [] text)"

section \<open>The lock file\<close>

text \<open>
  What \<^verbatim>\<open>packaging.Requirement\<close> reads from a text: the name, the sorted extras, the URL (empty when
  absent), the specifiers, which versions they contain, and what the marker evaluates to, plain
  and with an empty extra.
\<close>

record pkg_req =
  rq_name :: string
  rq_extras :: "string list"
  rq_url :: string
  rq_specs :: "(string \<times> string) list"
  rq_contains :: "string \<Rightarrow> bool"
  rq_marker :: "bool res option"
  rq_marker_extra :: "bool res option"

type_synonym requirement = "string \<Rightarrow> pkg_req option"

datatype deps_err = DepsError int | DepsRaises pyexc

record pinned =
  pn_name :: string
  pn_version :: string
  pn_line :: string

definition is_pkg_char :: "char \<Rightarrow> bool" where
  "is_pkg_char c = (is_alnum c \<or> c \<in> {CHR ''.'', CHR ''_'', CHR ''-''})"

definition PKG_NAME_RE :: rx where
  "PKG_NAME_RE = Seq (Seq (One is_alnum) (Many is_pkg_char))
     (Opt (Seq (One (is_char (CHR ''[''))) (Seq (Many (\<lambda>c. is_pkg_char c \<or> c = CHR '','' \<or> is_space c)) (One (is_char (CHR '']''))))))"

definition hash_ok :: "string \<Rightarrow> bool" where
  "hash_ok s = (take 7 s \<in> {''sha256:'', ''sha384:'', ''sha512:''} \<and> re_match (Plus is_hex) (drop 7 s))"

definition add_token :: "string \<Rightarrow> deps_err + string list \<times> string list \<Rightarrow> deps_err + string list \<times> string list" where
  "add_token tok rest = (case rest of
     Inl e \<Rightarrow> Inl e
   | Inr (spec, hashes) \<Rightarrow>
       if startswith tok ''--hash='' then (if hash_ok (drop 7 tok) then Inr (spec, tok # hashes) else Inl (DepsError 400))
       else if startswith tok ''-'' then Inl (DepsError 400)
       else Inr (tok # spec, hashes))"

fun scan_tokens :: "string list \<Rightarrow> deps_err + string list \<times> string list" where
  "scan_tokens [] = Inr ([], [])"
| "scan_tokens (t # ts) = (if t = ''--hash'' then add_token (''--hash='' @ concat (take 1 ts)) (scan_tokens (drop 1 ts))
     else add_token t (scan_tokens ts))"

definition shown_name :: "pkg_req \<Rightarrow> string" where
  "shown_name r = rq_name r @ (if rq_extras r = [] then [] else ''['' @ join_on (CHR '','') (rq_extras r) @ '']'')"

definition pins :: "pkg_req \<Rightarrow> (string \<times> string) list" where
  "pins r = filter (\<lambda>(op, v). op = ''=='' \<or> op = ''==='') (rq_specs r)"

definition is_pinned :: "pkg_req \<Rightarrow> bool" where
  "is_pinned r = (length (pins r) = 1 \<and> length (rq_specs r) = 1 \<and> CHR ''*'' \<notin> set (snd (hd (pins r))))"

text \<open>One line: \<open>None\<close> when its marker does not apply.\<close>

definition parse_line :: "requirement \<Rightarrow> string \<Rightarrow> deps_err + pinned option" where
  "parse_line Requirement line =
    (if startswith line ''-'' then Inl (DepsError 400)
     else case scan_tokens (split_words [] line) of
       Inl e \<Rightarrow> Inl e
     | Inr (spec_tokens, hashes) \<Rightarrow>
        let spec = join_on (CHR '' '') spec_tokens in
        (case Requirement spec of
           None \<Rightarrow> Inl (DepsError 400)
         | Some r \<Rightarrow>
            if \<not> re_match PKG_NAME_RE (shown_name r) then Inl (DepsError 400)
            else if rq_url r \<noteq> [] then Inl (DepsError 400)
            else if \<not> is_pinned r then Inl (DepsError 400)
            else if hashes = [] then Inl (DepsError 400)
            else (case rq_marker r of
                Some (Inl x) \<Rightarrow> Inl (DepsRaises x)
              | Some (Inr False) \<Rightarrow> Inr None
              | _ \<Rightarrow> Inr (Some \<lparr>pn_name = pep503 (rq_name r), pn_version = snd (hd (pins r)),
                       pn_line = join_on (CHR '' '') (spec # hashes)\<rparr>))))"

fun parse_loop :: "requirement \<Rightarrow> string list \<Rightarrow> string list \<Rightarrow> deps_err + pinned list" where
  "parse_loop Requirement seen [] = Inr []"
| "parse_loop Requirement seen (line # lines) = (case parse_line Requirement line of
     Inl e \<Rightarrow> Inl e
   | Inr None \<Rightarrow> parse_loop Requirement seen lines
   | Inr (Some p) \<Rightarrow> if pn_name p \<in> set seen then Inl (DepsError 400)
       else (case parse_loop Requirement (pn_name p # seen) lines of Inl e \<Rightarrow> Inl e | Inr ps \<Rightarrow> Inr (p # ps)))"

definition parse_requirements :: "requirement \<Rightarrow> string \<Rightarrow> deps_err + pinned list" where
  "parse_requirements Requirement text = parse_loop Requirement [] (logical_lines text)"

section \<open>The box's packages\<close>

text \<open>An installed distribution: its name when its metadata has one, its version, what it requires.\<close>

record dist =
  d_name :: string
  d_version :: string
  d_requires :: "string list"

definition box_packages :: "dist list \<Rightarrow> (string \<times> string) list" where
  "box_packages ds = foldl (\<lambda>m d. if d_name d = [] \<or> map_of m (pep503 (d_name d)) \<noteq> None then m
     else m @ [(pep503 (d_name d), d_version d)]) [] ds"

definition split_against_box :: "pinned list \<Rightarrow> (string \<rightharpoonup> string) \<Rightarrow> deps_err + pinned list \<times> pinned list" where
  "split_against_box reqs provided =
    (if list_ex (\<lambda>r. provided (pn_name r) \<noteq> None \<and> provided (pn_name r) \<noteq> Some (pn_version r)) reqs then Inl (DepsError 400)
     else Inr (filter (\<lambda>r. provided (pn_name r) = None) reqs, filter (\<lambda>r. provided (pn_name r) = Some (pn_version r)) reqs))"

text \<open>Whether a requirement of an installed package is missing.\<close>

definition needs :: "requirement \<Rightarrow> (string \<rightharpoonup> string) \<Rightarrow> string \<Rightarrow> bool" where
  "needs Requirement available spec = (case Requirement spec of
     None \<Rightarrow> False
   | Some r \<Rightarrow> (case rq_marker_extra r of
        Some (Inl _) \<Rightarrow> False
      | Some (Inr False) \<Rightarrow> False
      | _ \<Rightarrow> (case available (pep503 (rq_name r)) of
           None \<Rightarrow> True | Some have \<Rightarrow> rq_specs r \<noteq> [] \<and> \<not> rq_contains r have)))"

definition check_complete :: "requirement \<Rightarrow> dist list \<Rightarrow> (string \<rightharpoonup> string) \<Rightarrow> deps_err + unit" where
  "check_complete Requirement ds provided =
    (let available = provided ++ map_of (rev (map (\<lambda>d. (pep503 (d_name d), d_version d)) ds)) in
     if list_ex (\<lambda>d. list_ex (needs Requirement available) (d_requires d)) ds then Inl (DepsError 400) else Inr ())"

section \<open>Installing\<close>

datatype req_file = NoFile | NoText | Text string
datatype pip_run = PipTimeout | PipRaises pyexc | PipExit int

text \<open>
  What an installation meets: the requirements file, the box's distributions, whether the target and
  the lock file can be made and the lock file removed again, what pip does (it may not start, or its
  output may not be text), what it leaves in the target, the wheels folder and the setting of the
  environment.
\<close>

record deps_io =
  i_text :: req_file
  i_box :: "dist list"
  i_made :: bool
  i_locked :: bool
  i_unlinked :: bool
  i_lock :: string
  i_pip :: pip_run
  i_bytes :: nat
  i_dists :: "dist list"
  i_wheels :: bool
  i_offline :: string
  i_python :: string
  i_machine :: string
  i_stamped :: bool

definition MAX_DEPS_BYTES :: nat where "MAX_DEPS_BYTES = 200 * 1024 * 1024"

definition pip_command :: "deps_io \<Rightarrow> string \<Rightarrow> string \<Rightarrow> string list" where
  "pip_command io wheels target =
    [''-I'', ''-m'', ''pip'', ''install'', ''--target'', target, ''--only-binary=:all:'', ''--require-hashes'', ''--no-deps'', ''--no-compile'',
     ''--disable-pip-version-check'', ''--no-input'', ''--progress-bar'', ''off'', ''--no-warn-script-location''] @
    (if i_wheels io then [''--find-links'', wheels] else []) @
    (if lower (i_offline io) \<in> {''1'', ''true'', ''yes''} then [''--no-index''] else []) @ [''-r'', i_lock io]"

definition lock_text :: "pinned list \<Rightarrow> string" where
  "lock_text ps = join_on newline (map pn_line ps) @ [newline]"

text \<open>The stamp: packages and provided names before they are sorted.\<close>

record stamp =
  s_python :: string
  s_machine :: string
  s_packages :: "string list"
  s_provided :: "string list"

definition make_stamp :: "deps_io \<Rightarrow> pinned list \<Rightarrow> pinned list \<Rightarrow> stamp" where
  "make_stamp io to_install skipped = \<lparr>s_python = i_python io, s_machine = i_machine io,
     s_packages = map (\<lambda>r. pn_name r @ ''=='' @ pn_version r) to_install, s_provided = map pn_name skipped\<rparr>"

text \<open>The lock file is removed in a \<^verbatim>\<open>finally\<close>; an error there replaces any other.\<close>

definition run_pip :: "requirement \<Rightarrow> deps_io \<Rightarrow> (string \<rightharpoonup> string) \<Rightarrow> deps_err + unit" where
  "run_pip Requirement io provided =
    (if \<not> i_unlinked io then Inl (DepsRaises OSError)
     else case i_pip io of
       PipTimeout \<Rightarrow> Inl (DepsError 504)
     | PipRaises x \<Rightarrow> Inl (DepsRaises x)
     | PipExit rc \<Rightarrow> if rc \<noteq> 0 then Inl (DepsError 400)
         else if i_bytes io > MAX_DEPS_BYTES then Inl (DepsError 413)
         else check_complete Requirement (i_dists io) provided)"

text \<open>The answer, and the call of pip with the text of its lock file when there is one.\<close>

definition install_deps :: "requirement \<Rightarrow> deps_io \<Rightarrow> string \<Rightarrow> string \<Rightarrow> string \<Rightarrow> (deps_err + stamp) \<times> (string list \<times> string) option" where
  "install_deps Requirement io bundle requirements_name target =
    (let b = normpath bundle in
     if \<not> inside b (normpath (path_join b requirements_name)) then (Inl (DepsError 400), None)
     else case i_text io of
       NoFile \<Rightarrow> (Inl (DepsError 400), None)
     | NoText \<Rightarrow> (Inl (DepsError 400), None)
     | Text text \<Rightarrow>
        let provided = map_of (box_packages (i_box io)) in
        (case parse_requirements Requirement text of
           Inl e \<Rightarrow> (Inl e, None)
         | Inr reqs \<Rightarrow> (case split_against_box reqs provided of
              Inl e \<Rightarrow> (Inl e, None)
            | Inr (to_install, skipped) \<Rightarrow>
                if \<not> i_made io \<or> to_install \<noteq> [] \<and> \<not> i_locked io then (Inl (DepsRaises OSError), None)
                else
                  let call = (if to_install = [] then None
                        else Some (pip_command io (normpath (path_join b ''wheels'')) target, lock_text to_install)) in
                  case (if to_install = [] then Inr () else run_pip Requirement io provided) of
                    Inl e \<Rightarrow> (Inl e, call)
                  | Inr _ \<Rightarrow> if \<not> i_stamped io then (Inl (DepsRaises OSError), call)
                      else (Inr (make_stamp io to_install skipped), call))))"

text \<open>The listing of the packages: missing, stale or usable.\<close>

datatype deps_status = DMissing | DStale | DOk

definition status_deps :: "json_file \<Rightarrow> string \<Rightarrow> string \<Rightarrow> deps_status res" where
  "status_deps f python machine = (case f of
     JsonDoc (VDict d) \<Rightarrow> Inr (if dict_get d ''python'' = VStr python \<and> dict_get d ''machine'' = VStr machine then DOk else DStale)
   | JsonDoc _ \<Rightarrow> Inl AttributeError
   | _ \<Rightarrow> Inr DMissing)"

section \<open>The registry\<close>

text \<open>
  \<^verbatim>\<open>reinstall_deps\<close>: the packages are built in a staging directory and swapped in. The flags: the
  staging directory, whether there are packages, and the two renames.
\<close>

record swap_io =
  w_staged :: bool
  w_present :: bool
  w_rename_old :: bool
  w_rename_new :: bool

definition set_deps :: "string \<Rightarrow> bool \<Rightarrow> dstore \<Rightarrow> dstore" where
  "set_deps dtype ok st = st\<lparr>drivers := map (\<lambda>(t, b). (t, if t = dtype then b\<lparr>b_deps_ok := ok\<rparr> else b)) (drivers st)\<rparr>"

definition reinstall_deps :: "(string \<Rightarrow> json_file) \<Rightarrow> swap_io \<Rightarrow> deps_err + stamp \<Rightarrow> string \<Rightarrow> dstore \<Rightarrow> (derr + string list) \<times> dstore" where
  "reinstall_deps decode io installed dtype st = (case validate_type dtype of
     Inl e \<Rightarrow> (Inl e, st)
   | Inr _ \<Rightarrow> (case map_of (drivers st) dtype of
        None \<Rightarrow> (Inl (DriverStoreError 404), st)
      | Some b \<Rightarrow> (case bundle_manifest decode b of
           Inl ManifestError \<Rightarrow> (Inl (DriverStoreError 400), st)
         | Inl (Escapes x) \<Rightarrow> (Inl (DRaises x), st)
         | Inr m \<Rightarrow>
             if m_requirements m = None then (Inl (DriverStoreError 400), st)
             else if \<not> w_staged io then (Inl (DRaises OSError), st)
             else (case installed of
                 Inl (DepsError n) \<Rightarrow> (Inl (DriverStoreError n), st)
               | Inl (DepsRaises x) \<Rightarrow> (Inl (DRaises x), st)
               | Inr sp \<Rightarrow>
                   if w_present io \<and> \<not> w_rename_old io then (Inl (DRaises OSError), st)
                   else if \<not> w_rename_new io
                   then (Inl (DRaises OSError), if w_present io then set_deps dtype False st else st)
                   else (Inr (s_packages sp), set_deps dtype True st)))))"

text \<open>The names and entries of the listing, in the order of the names.\<close>

definition list_drivers :: "(string \<Rightarrow> json_file) \<Rightarrow> dstore \<Rightarrow> (string \<times> (derr + manifest option)) list" where
  "list_drivers decode st = map (\<lambda>(t, b). (t, describe decode t b))
     (sort_key fst (filter (\<lambda>(t, b). \<not> startswith t ''.'') (drivers st)))"

section \<open>Laws\<close>

text \<open>A word: not empty, without white space.\<close>

definition word :: "string \<Rightarrow> bool" where
  "word w = (w \<noteq> [] \<and> list_all (\<lambda>c. \<not> is_space c) w)"

lemma split_words_word: "list_all (\<lambda>c. \<not> is_space c) cur \<Longrightarrow> w \<in> set (split_words cur s) \<Longrightarrow> word w"
  by (induction cur s rule: split_words.induct) (auto simp: word_def split: if_splits)

definition hash_token :: "string \<Rightarrow> bool" where
  "hash_token t = (startswith t ''--hash='' \<and> hash_ok (drop 7 t))"

definition spec_token :: "string \<Rightarrow> bool" where
  "spec_token t = (word t \<and> \<not> startswith t ''-'')"

lemma scan_tokens_kinds:
  "scan_tokens ts = Inr (spec, hashes) \<Longrightarrow> \<forall>t\<in>set ts. word t \<Longrightarrow>
     (\<forall>t\<in>set spec. spec_token t) \<and> (\<forall>h\<in>set hashes. hash_token h \<and> word h)"
proof (induction ts arbitrary: spec hashes rule: scan_tokens.induct)
  case (2 t ts)
  define tok where "tok = (if t = ''--hash'' then ''--hash='' @ concat (take 1 ts) else t)"
  define rest where "rest = (if t = ''--hash'' then drop 1 ts else ts)"
  have tok: "word tok" using 2(4) by (cases ts) (auto simp: tok_def word_def is_space_def)
  obtain sp hs where r: "scan_tokens rest = Inr (sp, hs)" and a: "add_token tok (Inr (sp, hs)) = Inr (spec, hashes)"
    using 2(3) by (cases "scan_tokens rest") (auto simp: tok_def rest_def add_token_def split: if_splits)
  have "\<forall>t\<in>set rest. word t" using 2(4) by (auto simp: rest_def dest: in_set_dropD)
  with r 2(1,2) have "(\<forall>t\<in>set sp. spec_token t) \<and> (\<forall>h\<in>set hs. hash_token h \<and> word h)"
    by (cases "t = ''--hash''") (auto simp: rest_def)
  with a tok show ?case by (auto simp: add_token_def spec_token_def hash_token_def split: if_splits)
qed simp

text \<open>A line that may be handed to pip, for a package name and version.\<close>

definition lock_line :: "requirement \<Rightarrow> pinned \<Rightarrow> bool" where
  "lock_line Requirement p = (\<exists>spec hashes r. pn_line p = join_on (CHR '' '') (join_on (CHR '' '') spec # hashes) \<and>
     (\<forall>t\<in>set spec. spec_token t) \<and> hashes \<noteq> [] \<and> (\<forall>h\<in>set hashes. hash_token h \<and> word h) \<and>
     Requirement (join_on (CHR '' '') spec) = Some r \<and> rq_url r = [] \<and>
     (\<exists>op. rq_specs r = [(op, pn_version p)] \<and> op \<in> {''=='', ''===''}) \<and> CHR ''*'' \<notin> set (pn_version p) \<and> pn_name p = pep503 (rq_name r))"

lemma is_pinned_spec: "is_pinned r \<Longrightarrow> \<exists>op. rq_specs r = [(op, snd (hd (pins r)))] \<and> op \<in> {''=='', ''===''} \<and> CHR ''*'' \<notin> set (snd (hd (pins r)))"
proof -
  assume p: "is_pinned r"
  then obtain op v where v: "rq_specs r = [(op, v)]" by (auto simp: is_pinned_def length_Suc_conv)
  with p show ?thesis by (auto simp: is_pinned_def pins_def split: if_splits)
qed

lemma parse_line_lock:
  assumes "parse_line Requirement line = Inr (Some p)"
  shows "lock_line Requirement p"
proof -
  from assms obtain spec hashes where sc: "scan_tokens (split_words [] line) = Inr (spec, hashes)"
    by (auto simp: parse_line_def split: if_splits sum.splits)
  have k: "(\<forall>t\<in>set spec. spec_token t) \<and> (\<forall>h\<in>set hashes. hash_token h \<and> word h)"
    using scan_tokens_kinds [OF sc] split_words_word [of "[]"] by simp
  from assms sc obtain r where r: "Requirement (join_on (CHR '' '') spec) = Some r" "rq_url r = []" "is_pinned r" "hashes \<noteq> []"
    "p = \<lparr>pn_name = pep503 (rq_name r), pn_version = snd (hd (pins r)), pn_line = join_on (CHR '' '') (join_on (CHR '' '') spec # hashes)\<rparr>"
    by (auto simp: parse_line_def Let_def split: if_splits option.splits sum.splits bool.splits)
  from is_pinned_spec [OF r(3)] r k show ?thesis unfolding lock_line_def
    by - (rule exI [of _ spec], rule exI [of _ hashes], rule exI [of _ r], auto)
qed

lemma parse_loop_locks:
  "parse_loop Requirement seen lines = Inr ps \<Longrightarrow>
     (\<forall>p\<in>set ps. lock_line Requirement p) \<and> distinct (map pn_name ps) \<and> set (map pn_name ps) \<inter> set seen = {}"
proof (induction Requirement seen lines arbitrary: ps rule: parse_loop.induct)
  case (2 Requirement seen line lines)
  show ?case
  proof (cases "parse_line Requirement line")
    case (Inr o')
    show ?thesis
    proof (cases o')
      case None
      with 2 Inr show ?thesis by simp
    next
      case (Some p)
      with 2(3) Inr obtain ps' where ps: "pn_name p \<notin> set seen" "parse_loop Requirement (pn_name p # seen) lines = Inr ps'" "ps = p # ps'"
        by (auto split: if_splits sum.splits)
      from 2(2) [OF Inr Some ps(1,2)] parse_line_lock Inr Some ps show ?thesis by auto
    qed
  qed (use 2(3) in simp)
qed simp

lemma split_lines_line: "list_all (\<lambda>c. \<not> is_break c) l \<Longrightarrow> py_splitlines cur (l @ newline # s) = (cur @ l) # py_splitlines [] s"
  by (induction l arbitrary: cur) (auto simp: is_break_def)

lemma split_lines_joined:
  "ls \<noteq> [] \<Longrightarrow> \<forall>l\<in>set ls. list_all (\<lambda>c. \<not> is_break c) l \<Longrightarrow> py_splitlines [] (join_on newline ls @ [newline]) = ls"
proof (induction newline ls rule: join_on.induct)
  case (2 w)
  then show ?case using split_lines_line [of w "[]" "[]"] by simp
next
  case (3 w v ws)
  then have "py_splitlines [] (join_on newline (v # ws) @ [newline]) = v # ws" by simp
  with 3 split_lines_line [of w "[]" "join_on newline (v # ws) @ [newline]"] show ?case by simp
qed simp

lemma is_break_space: "is_break c \<Longrightarrow> is_space c"
  by (auto simp: is_break_def is_space_def)

lemma join_no_break: "\<not> is_break sep \<Longrightarrow> \<forall>w\<in>set ws. list_all (\<lambda>c. \<not> is_break c) w \<Longrightarrow> list_all (\<lambda>c. \<not> is_break c) (join_on sep ws)"
  by (induction sep ws rule: join_on.induct) auto

lemma lock_line_no_break: "lock_line Requirement p \<Longrightarrow> list_all (\<lambda>c. \<not> is_break c) (pn_line p)"
proof -
  assume "lock_line Requirement p"
  then obtain spec hashes where l: "pn_line p = join_on (CHR '' '') (join_on (CHR '' '') spec # hashes)"
    "\<forall>t\<in>set spec. word t" "\<forall>h\<in>set hashes. word h" by (auto simp: lock_line_def spec_token_def)
  have w: "list_all (\<lambda>c. \<not> is_break c) t" if "word t" for t using that is_break_space by (auto simp: word_def list_all_iff)
  have "\<not> is_break (CHR '' '')" by code_simp
  with l w show "list_all (\<lambda>c. \<not> is_break c) (pn_line p)" by (simp add: join_no_break)
qed

lemma split_against_box_parts:
  "split_against_box reqs provided = Inr (to_install, skipped) \<Longrightarrow>
     to_install = filter (\<lambda>r. provided (pn_name r) = None) reqs \<and> (\<forall>r\<in>set skipped. provided (pn_name r) = Some (pn_version r)) \<and>
     set reqs = set to_install \<union> set skipped"
  by (auto simp: split_against_box_def list_ex_iff split: if_splits)

lemma install_deps_parts:
  assumes "install_deps Requirement io bundle nm target = (r, call)" "call \<noteq> None"
  obtains body reqs to_install skipped where "i_text io = Text body" "parse_requirements Requirement body = Inr reqs"
    "split_against_box reqs (map_of (box_packages (i_box io))) = Inr (to_install, skipped)"
    "call = (if to_install = [] then None else Some (pip_command io (normpath (path_join (normpath bundle) ''wheels'')) target, lock_text to_install))"
    "\<forall>s. r = Inr s \<longrightarrow> s = make_stamp io to_install skipped \<and> (to_install = [] \<or> run_pip Requirement io (map_of (box_packages (i_box io))) = Inr ())"
  using assms by (auto simp: install_deps_def Let_def split: if_splits req_file.splits sum.splits)

section \<open>Properties\<close>

text \<open>
  C40. Pip is handed a lock. The lock file of an installation, read line by line, is a list of
  requirements for different packages, none of which the box provides: each line is one
  requirement without a URL, pinned to one exact version, followed by at least one hash and
  nothing else that begins with a dash; and pip is told to require hashes, to build nothing and to
  follow no dependencies. When the installation succeeds, pip exited with 0 on this lock, every
  declared package that applies to the box was in the lock or is provided by the box in the
  pinned version, and of what the packages in the target require nothing is missing. Which
  packages pip leaves in the target is pip's own promise and not stated.
\<close>

theorem lock_only_pinned:
  assumes "install_deps Requirement io bundle nm target = (r, Some (cmd, lock))"
  shows "\<exists>ps. lock = lock_text ps \<and> py_splitlines [] lock = map pn_line ps \<and> distinct (map pn_name ps) \<and>
    (\<forall>p\<in>set ps. lock_line Requirement p \<and> map_of (box_packages (i_box io)) (pn_name p) = None) \<and>
    {''--only-binary=:all:'', ''--require-hashes'', ''--no-deps''} \<subseteq> set cmd \<and>
    (\<forall>s body. r = Inr s \<and> i_text io = Text body \<longrightarrow> i_pip io = PipExit 0 \<and>
       check_complete Requirement (i_dists io) (map_of (box_packages (i_box io))) = Inr () \<and>
       (\<exists>reqs. parse_requirements Requirement body = Inr reqs \<and>
          (\<forall>q\<in>set reqs. q \<in> set ps \<or> map_of (box_packages (i_box io)) (pn_name q) = Some (pn_version q))))"
proof -
  let ?box = "map_of (box_packages (i_box io))"
  obtain body reqs ps skipped where t: "i_text io = Text body" "parse_requirements Requirement body = Inr reqs"
    and sp: "split_against_box reqs ?box = Inr (ps, skipped)"
    and c: "Some (cmd, lock) = (if ps = [] then None else Some (pip_command io (normpath (path_join (normpath bundle) ''wheels'')) target, lock_text ps))"
    and o: "\<forall>s. r = Inr s \<longrightarrow> s = make_stamp io ps skipped \<and> (ps = [] \<or> run_pip Requirement io ?box = Inr ())"
    by (rule install_deps_parts [OF assms]) simp_all
  from c have call: "ps \<noteq> []" "cmd = pip_command io (normpath (path_join (normpath bundle) ''wheels'')) target" "lock = lock_text ps"
    by (auto split: if_splits)
  with o have ok: "run_pip Requirement io ?box = Inr ()" if "r = Inr s" for s using that by blast
  note parts = split_against_box_parts [OF sp]
  from parse_loop_locks t(2) have locks: "\<forall>p\<in>set reqs. lock_line Requirement p" "distinct (map pn_name reqs)"
    by (auto simp: parse_requirements_def)
  from parts have flt: "ps = filter (\<lambda>r. ?box (pn_name r) = None) reqs" by (rule conjunct1)
  have ps: "\<forall>p\<in>set ps. lock_line Requirement p \<and> ?box (pn_name p) = None" using locks(1) unfolding flt by simp
  have dist: "distinct (map pn_name ps)" unfolding flt using locks(2) by (rule distinct_map_filter)
  have lines: "py_splitlines [] lock = map pn_line ps"
    unfolding call(3) lock_text_def using call(1) ps lock_line_no_break by (intro split_lines_joined) auto
  have flags: "{''--only-binary=:all:'', ''--require-hashes'', ''--no-deps''} \<subseteq> set cmd" unfolding call(2) pip_command_def by simp
  have done_: "i_pip io = PipExit 0 \<and> check_complete Requirement (i_dists io) ?box = Inr ()" if "r = Inr s" for s
    using ok [OF that] by (auto simp: run_pip_def split: pip_run.splits if_splits)
  have all: "\<forall>q\<in>set reqs. q \<in> set ps \<or> ?box (pn_name q) = Some (pn_version q)" using parts by blast
  show ?thesis
  proof (rule exI [of _ ps], intro conjI allI impI)
    fix s body'
    assume r: "r = Inr s \<and> i_text io = Text body'"
    then show "i_pip io = PipExit 0" "check_complete Requirement (i_dists io) ?box = Inr ()" using done_ by blast+
    from r t have "parse_requirements Requirement body' = Inr reqs" by simp
    with all show "\<exists>reqs. parse_requirements Requirement body' = Inr reqs \<and>
        (\<forall>q\<in>set reqs. q \<in> set ps \<or> ?box (pn_name q) = Some (pn_version q))" by blast
  qed (fact call(3) lines dist ps flags)+
qed

definition sample_requirement :: requirement where
  "sample_requirement s = (if s = ''foo==1.0'' then Some \<lparr>rq_name = ''foo'', rq_extras = [], rq_url = [], rq_specs = [(''=='', ''1.0'')],
     rq_contains = (\<lambda>v. v = ''1.0''), rq_marker = None, rq_marker_extra = None\<rparr> else None)"

definition sample_lock :: string where "sample_lock = ''foo==1.0 --hash=sha256:ab'' @ [newline]"

definition sample_deps :: deps_io where
  "sample_deps = \<lparr>i_text = Text sample_lock, i_box = [], i_made = True, i_locked = True, i_unlinked = True, i_lock = ''/tmp/l'', i_pip = PipExit 0, i_bytes = 10,
     i_dists = [\<lparr>d_name = ''foo'', d_version = ''1.0'', d_requires = []\<rparr>], i_wheels = False, i_offline = [], i_python = ''cp312'',
     i_machine = ''x'', i_stamped = True\<rparr>"

theorem lock_only_pinned_witness:
  "\<exists>cmd (ps :: pinned list). snd (install_deps sample_requirement sample_deps ''/d'' ''r.txt'' ''/t'') = Some (cmd, sample_lock) \<and>
     py_splitlines [] sample_lock = map pn_line ps \<and> ''--require-hashes'' \<in> set cmd"
proof -
  let ?p = "\<lparr>pn_name = ''foo'', pn_version = ''1.0'', pn_line = ''foo==1.0 --hash=sha256:ab''\<rparr>"
  have "parse_requirements sample_requirement sample_lock = Inr [?p]" by code_simp
  moreover have "inside (normpath ''/d'') (normpath (path_join (normpath ''/d'') ''r.txt''))" by code_simp
  moreover have "lock_text [?p] = sample_lock" by (simp add: lock_text_def sample_lock_def)
  ultimately have l: "map_option snd (snd (install_deps sample_requirement sample_deps ''/d'' ''r.txt'' ''/t'')) = Some sample_lock"
    by (simp add: install_deps_def sample_deps_def box_packages_def split_against_box_def Let_def split: sum.splits)
  then obtain r cmd where i: "install_deps sample_requirement sample_deps ''/d'' ''r.txt'' ''/t'' = (r, Some (cmd, sample_lock))"
    by (cases "install_deps sample_requirement sample_deps ''/d'' ''r.txt'' ''/t''") auto
  have "\<exists>ps :: pinned list. py_splitlines [] sample_lock = map pn_line ps \<and> {''--only-binary=:all:'', ''--require-hashes'', ''--no-deps''} \<subseteq> set cmd"
    using lock_only_pinned [OF i] by (elim exE conjE) (intro exI conjI)
  then obtain ps :: "pinned list" where ps: "py_splitlines [] sample_lock = map pn_line ps"
    and flags: "{''--only-binary=:all:'', ''--require-hashes'', ''--no-deps''} \<subseteq> set cmd" by (elim exE conjE)
  have req: "''--require-hashes'' \<in> set cmd" by (rule subsetD [OF flags]) simp
  have "snd (install_deps sample_requirement sample_deps ''/d'' ''r.txt'' ''/t'') = Some (cmd, sample_lock)" by (simp only: i snd_conv)
  with ps req show ?thesis by (intro exI conjI)
qed

text \<open>A failing second rename leaves a driver without packages, which then is listed as an error.\<close>

lemma set_deps_get: "map_of (drivers (set_deps dtype ok st)) dtype = map_option (\<lambda>b. b\<lparr>b_deps_ok := ok\<rparr>) (map_of (drivers st) dtype)"
proof -
  have "map_of (map (\<lambda>(t, b). (t, if t = dtype then b\<lparr>b_deps_ok := ok\<rparr> else b)) ds) dtype = map_option (\<lambda>b. b\<lparr>b_deps_ok := ok\<rparr>) (map_of ds dtype)"
    for ds :: "(string \<times> drv_bundle) list"
    by (induction ds) auto
  then show ?thesis by (simp add: set_deps_def)
qed

lemma reinstall_loses_packages:
  assumes "validate_type dtype = Inr ()" "map_of (drivers st) dtype = Some b" "bundle_manifest decode b = Inr m" "m_requirements m \<noteq> None"
  shows "\<exists>st'. reinstall_deps decode \<lparr>w_staged = True, w_present = True, w_rename_old = True, w_rename_new = False\<rparr> (Inr sp) dtype st =
      (Inl (DRaises OSError), st') \<and> map_of (drivers st') dtype = Some (b\<lparr>b_deps_ok := False\<rparr>)"
  using assms set_deps_get [of dtype False st] by (simp add: reinstall_deps_def)

end
