(* ===== verification/Binary64.thy ===== *)
theory Binary64
  imports Py_Repr
begin

text \<open>
  The decimal that \<^verbatim>\<open>repr\<close> prints of a float is read back as the same float. A number that is
  within one part in \<open>2 * 10 ^ 16\<close> of a binary64 number is rounded to it, so seventeen digits
  are enough, and the search of \<open>decimal_of\<close> always succeeds.
\<close>

section \<open>Powers\<close>

lemma pow2_powi: "pow2 e = power_int 2 e"
  by (simp add: pow2_def power_int_def inverse_eq_divide power_one_over)

lemma pow10_powi: "pow10 e = power_int 10 e"
  by (simp add: pow10_def power_int_def inverse_eq_divide power_one_over)

lemma pow2_pos [simp]: "0 < pow2 e"
  by (simp add: pow2_powi)

lemma pow10_pos [simp]: "0 < pow10 e"
  by (simp add: pow10_powi)

lemma pow2_add: "pow2 (a + b) = pow2 a * pow2 b"
  by (simp add: pow2_powi power_int_add)

lemma pow10_add: "pow10 (a + b) = pow10 a * pow10 b"
  by (simp add: pow10_powi power_int_add)

lemma pow2_le_iff [simp]: "pow2 a \<le> pow2 b \<longleftrightarrow> a \<le> b"
  using power_int_strict_increasing [of b a "2 :: rat"] power_int_increasing [of a b "2 :: rat"]
  by (auto simp: pow2_powi not_less [symmetric])

lemma pow2_less_iff [simp]: "pow2 a < pow2 b \<longleftrightarrow> a < b"
  by (simp only: not_le [symmetric] pow2_le_iff)

lemma pow2_nat: "pow2 (int n) = 2 ^ n"
  by (simp add: pow2_def)

lemma pow10_nat: "pow10 (int n) = 10 ^ n"
  by (simp add: pow10_def)

lemma pow2_shift: "pow2 (e + 53) = 9007199254740992 * pow2 e" "pow2 (e + 52) = 4503599627370496 * pow2 e"
  "pow2 (e + 51) = 2251799813685248 * pow2 e" "pow2 (e - 1) = pow2 e / 2"
  using pow2_add [of e 53] pow2_add [of e 52] pow2_add [of e 51] pow2_add [of "e - 1" 1] by (simp_all add: pow2_def)

section \<open>The exponent of the last place\<close>

lemma log2_floor_less: "n < 2 ^ Suc (log2_floor n)"
proof (induction n rule: log2_floor.induct)
  case (1 n)
  then show ?case by (cases "n < 2") (auto simp: log2_floor.simps [of n])
qed

lemma quotient_pos: "0 < x \<Longrightarrow> quotient_of x = (p, q) \<Longrightarrow> 0 < p \<and> 0 < q \<and> x = of_int p / of_int q"
  using quotient_of_denom_pos quotient_of_div
  by (metis of_int_0_less_iff zero_less_divide_iff less_asym)

lemma quotient_between:
  assumes "0 < x" "quotient_of x = (p, q)"
  shows "pow2 (int (log2_floor (nat p)) - int (log2_floor (nat q)) - 1) < x"
    "x < pow2 (int (log2_floor (nat p)) - int (log2_floor (nat q)) + 1)"
proof -
  let ?a = "log2_floor (nat p)" and ?b = "log2_floor (nat q)"
  from quotient_pos [OF assms] have pos: "0 < p" "0 < q" and x: "x = of_int p / of_int q" by auto
  have "2 ^ ?a \<le> nat p" "nat p < 2 ^ Suc ?a" "2 ^ ?b \<le> nat q" "nat q < 2 ^ Suc ?b"
    using pos by (simp_all only: log2_floor_le log2_floor_less zero_less_nat_eq)
  then have "int (2 ^ ?a) \<le> p" "p < int (2 ^ Suc ?a)" "int (2 ^ ?b) \<le> q" "q < int (2 ^ Suc ?b)" using pos by linarith+
  then have "(of_int (2 ^ ?a) :: rat) \<le> of_int p" "(of_int p :: rat) < of_int (2 ^ Suc ?a)"
    "(of_int (2 ^ ?b) :: rat) \<le> of_int q" "(of_int q :: rat) < of_int (2 ^ Suc ?b)"
    by (simp_all only: of_int_le_iff of_int_less_iff of_nat_power of_nat_numeral)
  then have b: "(2 :: rat) ^ ?a \<le> of_int p" "of_int p < (2 :: rat) ^ Suc ?a" "(2 :: rat) ^ ?b \<le> of_int q" "of_int q < (2 :: rat) ^ Suc ?b"
    by simp_all
  have e: "pow2 (int ?a - int ?b - 1) = 2 ^ ?a / 2 ^ Suc ?b" "pow2 (int ?a - int ?b + 1) = 2 ^ Suc ?a / 2 ^ ?b"
    by (simp_all add: pow2_powi power_int_add power_int_diff)
  have "2 ^ ?a / 2 ^ Suc ?b < (of_int p / of_int q :: rat)" "(of_int p / of_int q :: rat) < 2 ^ Suc ?a / 2 ^ ?b"
    using b pos by (intro frac_less2 frac_less; simp)+
  with e x show "pow2 (int ?a - int ?b - 1) < x" "x < pow2 (int ?a - int ?b + 1)" by simp_all
qed

lemma ulp_exp_bounds:
  assumes "0 < x"
  shows "x < pow2 (ulp_exp x + 53)" "- 1074 \<le> ulp_exp x" "ulp_exp x = - 1074 \<or> pow2 (ulp_exp x + 52) \<le> x"
proof -
  obtain p q where q: "quotient_of x = (p, q)" by (cases "quotient_of x")
  define d where "d = int (log2_floor (nat p)) - int (log2_floor (nat q))"
  note b = quotient_between [OF assms q, folded d_def]
  define e1 where "e1 = (if x < pow2 d then d - 53 else d - 52)"
  have u: "ulp_exp x = max e1 (- 1074)"
    using assms q by (simp add: ulp_exp_def d_def e1_def Let_def)
  have e1: "x < pow2 (e1 + 53)" "pow2 (e1 + 52) \<le> x"
    using b by (auto simp: e1_def add.commute)
  have "pow2 (e1 + 53) \<le> pow2 (ulp_exp x + 53)" by (simp add: u)
  with e1(1) show "x < pow2 (ulp_exp x + 53)" by (rule order_less_le_trans)
  show "- 1074 \<le> ulp_exp x" "ulp_exp x = - 1074 \<or> pow2 (ulp_exp x + 52) \<le> x"
    using e1(2) by (auto simp: u max_def)
qed

lemma ulp_exp_unique:
  assumes "0 < x" "x < pow2 (e + 53)" "- 1074 \<le> e" "e = - 1074 \<or> pow2 (e + 52) \<le> x"
  shows "ulp_exp x = e"
proof -
  note u = ulp_exp_bounds [OF assms(1)]
  have le: "a \<le> b" if "pow2 (a + 52) \<le> x" "x < pow2 (b + 53)" for a b
  proof -
    from order_le_less_trans [OF that] have "a + 52 < b + 53" by (simp only: pow2_less_iff)
    then show ?thesis by simp
  qed
  have "ulp_exp x \<le> e" using u(3) assms(3) le [OF _ assms(2)] by auto
  moreover have "e \<le> ulp_exp x" using assms(4) u(2) le [OF _ u(1)] by auto
  ultimately show ?thesis by simp
qed

section \<open>Rounding\<close>

lemma round_near: "\<bar>x - of_int k\<bar> < 1 / 2 \<Longrightarrow> round_half_even x = k"
proof -
  assume a: "\<bar>x - of_int k\<bar> < 1 / 2"
  show ?thesis
  proof (cases "of_int k \<le> x")
    case True
    with a have "\<lfloor>x\<rfloor> = k" by (simp add: floor_eq_iff)
    with a True show ?thesis by (simp add: round_half_even_def)
  next
    case False
    with a have f: "\<lfloor>x\<rfloor> = k - 1" by (simp add: floor_eq_iff)
    with a False show ?thesis by (simp add: round_half_even_def)
  qed
qed

text \<open>A positive number that is rounded to itself, as a multiple of its last place.\<close>

lemma binary64_pos:
  assumes "to_binary64 r = Fin r" "0 < r"
  shows "\<exists>k. r = of_int k * pow2 (ulp_exp r)" "r < 2 ^ 1024"
proof -
  let ?y = "of_int (round_half_even (r / pow2 (ulp_exp r))) * pow2 (ulp_exp r)"
  from assms have y: "(if 2 ^ 1024 \<le> ?y then PInf else if ?y \<le> - (2 ^ 1024) then NInf else Fin ?y) = Fin r"
    by (simp add: to_binary64_def Let_def)
  then have "?y = r" by (simp split: if_splits)
  then show "\<exists>k. r = of_int k * pow2 (ulp_exp r)" by metis
  show "r < 2 ^ 1024" using y \<open>?y = r\<close> by (simp split: if_splits)
qed

lemma round_half_even_minus: "round_half_even (- x) = - round_half_even x"
proof (cases "x = of_int \<lfloor>x\<rfloor>")
  case True
  then show ?thesis by (metis of_int_minus round_half_even_of_int)
next
  case False
  then have "\<lfloor>- x\<rfloor> = - \<lfloor>x\<rfloor> - 1" by linarith
  then show ?thesis by (auto simp: round_half_even_def Let_def)
qed

lemma to_binary64_minus: "to_binary64 (- x) = float_neg (to_binary64 x)"
proof -
  have "ulp_exp (- x) = ulp_exp x" by (simp add: ulp_exp_def)
  then show ?thesis by (auto simp: to_binary64_def Let_def round_half_even_minus)
qed

lemma binary64_abs: "to_binary64 r = Fin r \<Longrightarrow> to_binary64 \<bar>r\<bar> = Fin \<bar>r\<bar>"
  by (cases "0 \<le> r") (simp_all add: to_binary64_minus)

lemma to_binary64_at:
  assumes "0 < x" "ulp_exp x = e" "\<bar>x - of_int k * pow2 e\<bar> < pow2 e / 2" "0 < k" "of_int k * pow2 e < 2 ^ 1024"
  shows "to_binary64 x = Fin (of_int k * pow2 e)"
proof -
  have "x / pow2 e - of_int k = (x - of_int k * pow2 e) / pow2 e" by (simp add: diff_divide_distrib less_imp_neq [OF pow2_pos, symmetric])
  then have "\<bar>x / pow2 e - of_int k\<bar> = \<bar>x - of_int k * pow2 e\<bar> / pow2 e" by (simp add: abs_divide abs_of_pos)
  also have "\<dots> < 1 / 2" using assms(3) by (simp add: divide_less_eq)
  finally have "round_half_even (x / pow2 e) = k" by (rule round_near)
  moreover have "0 < of_int k * pow2 e" using assms(4) by simp
  moreover have "(0 :: rat) < 2 ^ 1024" by simp
  ultimately have "\<not> of_int k * pow2 e \<le> - (2 ^ 1024)" "round_half_even (x / pow2 e) = k" by linarith+
  with assms show ?thesis by (simp add: to_binary64_def Let_def)
qed

lemma to_binary64_near:
  assumes "to_binary64 r = Fin r" "0 < r" "\<bar>x - r\<bar> \<le> r / 20000000000000000"
  shows "to_binary64 x = Fin r"
proof -
  define e where "e = ulp_exp r"
  obtain k where k: "r = of_int k * pow2 e" using binary64_pos(1) [OF assms(1,2)] e_def by blast
  note big = binary64_pos(2) [OF assms(1,2)]
  note u = ulp_exp_bounds [OF assms(2), folded e_def]
  from assms(2) k have kpos: "0 < k" using pow2_pos [of e] by (simp add: zero_less_mult_iff not_less_iff_gr_or_eq)
  have x: "0 < x" using assms(2,3) by linarith
  let ?p = "pow2 e"
  have p: "0 < ?p" by simp
  have r: "r < 9007199254740992 * ?p" using u(1) pow2_shift(1) by simp
  have near: "\<bar>x - r\<bar> < ?p / 2" using assms(3) r p by linarith
  have upper: "x < pow2 (e + 53)"
  proof -
    from r k p have "k < 9007199254740992" by (simp add: of_int_less_numeral_iff)
    then have "k \<le> 9007199254740991" by simp
    then have "(of_int k :: rat) \<le> 9007199254740991" by (simp add: of_int_le_numeral_iff)
    then have "r \<le> 9007199254740991 * ?p" using k p by (simp add: mult_right_mono)
    with near show ?thesis unfolding pow2_shift(1) by linarith
  qed
  show ?thesis
  proof (cases "e = - 1074 \<or> pow2 (e + 52) \<le> x")
    case True
    then have "ulp_exp x = e" by (rule ulp_exp_unique [OF x upper u(2)])
    from to_binary64_at [OF x this _ kpos] near k big show ?thesis by simp
  next
    case False
    then have lo: "x < 4503599627370496 * ?p" "e \<noteq> - 1074" by (simp_all add: pow2_shift)
    with u(3) have hi: "4503599627370496 * ?p \<le> r" by (simp add: pow2_shift)
    from near lo hi have "r < 4503599627370497 * ?p" by linarith
    with hi k p have "4503599627370496 \<le> k" "k < 4503599627370497" by (simp_all add: of_int_less_numeral_iff of_int_numeral_le_iff)
    then have k52: "k = 4503599627370496" by simp
    with k have r52: "r = 4503599627370496 * ?p" by simp
    let ?q = "pow2 (e - 1)"
    have q: "?q = ?p / 2" by (rule pow2_shift(4))
    have rq: "r = of_int 9007199254740992 * ?q" using k k52 q by simp
    have "pow2 (e - 1 + 53) = 4503599627370496 * ?p" "pow2 (e - 1 + 52) = 2251799813685248 * ?p"
      unfolding pow2_shift q by simp_all
    then have "ulp_exp x = e - 1"
      using x lo near hi u(2) by (intro ulp_exp_unique) (auto simp: abs_less_iff)
    moreover have "\<bar>x - r\<bar> < ?q / 2" using assms(3) r52 p unfolding q by linarith
    ultimately have "to_binary64 x = Fin (of_int 9007199254740992 * ?q)"
      using to_binary64_at [OF x, of "e - 1" 9007199254740992] rq big by simp
    then show ?thesis by (simp only: rq)
  qed
qed

section \<open>Seventeen digits are enough\<close>

lemma str_of_nat_bounds: "0 < n \<Longrightarrow> 10 ^ (length (str_of_nat n) - 1) \<le> n \<and> n < 10 ^ length (str_of_nat n)"
proof (induction n rule: less_induct)
  case (less n)
  show ?case
  proof (cases "n < 10")
    case True
    with less.prems show ?thesis by (simp add: str_of_nat.simps [of n])
  next
    case False
    define l where "l = length (str_of_nat (n div 10))"
    from False less.IH [of "n div 10"] have "10 ^ (l - 1) \<le> n div 10" "n div 10 < 10 ^ l" by (simp_all add: l_def)
    moreover have "0 < l" using str_of_nat_nonempty by (simp add: l_def)
    ultimately have "10 ^ l \<le> n" "n < 10 ^ Suc l" by (cases l; simp; linarith)+
    with False show ?thesis by (simp add: str_of_nat.simps [of n] l_def)
  qed
qed

lemma quotient_decades:
  assumes "0 < x" "quotient_of x = (p, q)"
  shows "pow10 (int (length (str_of_nat (nat p))) - int (length (str_of_nat (nat q))) - 1) < x"
    "x < pow10 (int (length (str_of_nat (nat p))) - int (length (str_of_nat (nat q))) + 1)"
proof -
  obtain a where a: "length (str_of_nat (nat p)) = Suc a" using str_of_nat_nonempty by (metis length_greater_0_conv gr0_implies_Suc)
  obtain b where b: "length (str_of_nat (nat q)) = Suc b" using str_of_nat_nonempty by (metis length_greater_0_conv gr0_implies_Suc)
  from quotient_pos [OF assms] have pos: "0 < p" "0 < q" and x: "x = of_int p / of_int q" by auto
  with str_of_nat_bounds [of "nat p"] str_of_nat_bounds [of "nat q"]
  have "10 ^ a \<le> nat p" "nat p < 10 ^ Suc a" "10 ^ b \<le> nat q" "nat q < 10 ^ Suc b" by (simp_all add: a b)
  then have "int (10 ^ a) \<le> p" "p < int (10 ^ Suc a)" "int (10 ^ b) \<le> q" "q < int (10 ^ Suc b)" using pos by linarith+
  then have "(of_int (10 ^ a) :: rat) \<le> of_int p" "(of_int p :: rat) < of_int (10 ^ Suc a)"
    "(of_int (10 ^ b) :: rat) \<le> of_int q" "(of_int q :: rat) < of_int (10 ^ Suc b)"
    by (simp_all only: of_int_le_iff of_int_less_iff of_nat_power of_nat_numeral)
  then have d: "(10 :: rat) ^ a \<le> of_int p" "of_int p < (10 :: rat) ^ Suc a" "(10 :: rat) ^ b \<le> of_int q" "of_int q < (10 :: rat) ^ Suc b"
    by simp_all
  have e: "pow10 (int (Suc a) - int (Suc b) - 1) = 10 ^ a / 10 ^ Suc b" "pow10 (int (Suc a) - int (Suc b) + 1) = 10 ^ Suc a / 10 ^ b"
    by (simp_all add: pow10_powi power_int_add power_int_diff)
  have "10 ^ a / 10 ^ Suc b < (of_int p / of_int q :: rat)" "(of_int p / of_int q :: rat) < 10 ^ Suc a / 10 ^ b"
    using d pos by (intro frac_less2 frac_less; simp)+
  then show "pow10 (int (length (str_of_nat (nat p))) - int (length (str_of_nat (nat q))) - 1) < x"
    "x < pow10 (int (length (str_of_nat (nat p))) - int (length (str_of_nat (nat q))) + 1)"
    unfolding a b e x .
qed

lemma dec_exp_bounds:
  assumes "0 < r"
  shows "pow10 (dec_exp r) \<le> r" "r < pow10 (dec_exp r + 1)"
proof -
  obtain p q where q: "quotient_of r = (p, q)" by (cases "quotient_of r")
  from quotient_decades [OF assms q] show "pow10 (dec_exp r) \<le> r" "r < pow10 (dec_exp r + 1)"
    by (auto simp: dec_exp_def q Let_def add.commute)
qed

lemma digits_at_17:
  assumes "to_binary64 r = Fin r" "0 < r"
  shows "digits_at r 17 \<noteq> None"
proof -
  define u where "u = unit_at 17 r"
  have u: "0 < u" "10000000000000000 * u \<le> r"
    using dec_exp_bounds(1) [OF assms(2)] pow10_add [of "dec_exp r - 16" 16] by (simp_all add: u_def unit_at_def pow10_def)
  define lo where "lo = \<lfloor>r / u\<rfloor>"
  have "of_int lo \<le> r / u" "r / u < of_int lo + 1" unfolding lo_def by linarith+
  then have b: "of_int lo * u \<le> r" "r < (of_int lo + 1) * u" using u(1) by (simp_all add: pos_le_divide_eq pos_divide_less_eq)
  have near: "to_binary64 (of_int m * u) = Fin r" if "\<bar>of_int m * u - r\<bar> \<le> u / 2" for m
    by (rule to_binary64_near [OF assms]) (use that u in linarith)
  have "\<bar>of_int lo * u - r\<bar> \<le> u / 2 \<or> \<bar>of_int (lo + 1) * u - r\<bar> \<le> u / 2"
    using b by (simp add: algebra_simps abs_le_iff) linarith
  with near have "to_binary64 (of_int lo * u) = Fin r \<or> to_binary64 (of_int (lo + 1) * u) = Fin r" by blast
  then show ?thesis by (auto simp: digits_at_def Let_def u_def lo_def)
qed

lemma first_digits_found: "k \<in> set ks \<Longrightarrow> digits_at r k \<noteq> None \<Longrightarrow> first_digits r ks \<noteq> None"
  by (induction ks) (auto split: option.splits)

lemma first_digits_at: "first_digits r ks = Some (m, k) \<Longrightarrow> digits_at r k = Some m \<and> k \<in> set ks"
  by (induction ks) (auto split: option.splits)

lemma digits_at_ok: "digits_at r k = Some m \<Longrightarrow> to_binary64 (of_int m * unit_at k r) = Fin r \<and> (m = \<lfloor>r / unit_at k r\<rfloor> \<or> m = \<lfloor>r / unit_at k r\<rfloor> + 1)"
  by (auto simp: digits_at_def Let_def split: if_splits)

lemma repr_digits:
  assumes "to_binary64 r = Fin r" "0 < r"
  shows "\<exists>m k. first_digits r [1..<18] = Some (m, k) \<and> to_binary64 (of_int m * unit_at k r) = Fin r \<and> 0 < m \<and> 1 \<le> k"
proof -
  have "first_digits r [1..<18] \<noteq> None" by (rule first_digits_found [of 17]) (simp_all add: digits_at_17 [OF assms])
  then obtain m k where m: "first_digits r [1..<18] = Some (m, k)" by auto
  from first_digits_at [OF m] have k: "digits_at r k = Some m" "1 \<le> k" by auto
  note ok = digits_at_ok [OF k(1)]
  have "unit_at k r \<le> pow10 (dec_exp r)" unfolding unit_at_def using k(2) by (simp add: pow10_powi power_int_increasing)
  also have "\<dots> \<le> r" by (rule dec_exp_bounds(1) [OF assms(2)])
  finally have "1 \<le> r / unit_at k r" by (simp add: unit_at_def)
  then have "1 \<le> \<lfloor>r / unit_at k r\<rfloor>" by (simp add: le_floor_iff)
  with ok have "0 < m" by auto
  with m ok k show ?thesis by blast
qed

section \<open>The digits\<close>

abbreviation digits :: "string \<Rightarrow> bool" where
  "digits s \<equiv> \<forall>c\<in>set s. is_digit c"

definition num_val :: "string \<Rightarrow> nat" where
  "num_val s = nat_of_digits 0 (map digit_val s)"

lemma nat_of_digits_acc: "nat_of_digits acc ds = acc * 10 ^ length ds + nat_of_digits 0 ds"
proof (induction ds arbitrary: acc)
  case (Cons d ds)
  show ?case using Cons [of "10 * acc + d"] Cons [of d] by (simp add: algebra_simps)
qed simp

lemma num_val_append: "num_val (s @ t) = num_val s * 10 ^ length t + num_val t"
  unfolding num_val_def using nat_of_digits_acc [of "nat_of_digits 0 (map digit_val s)" "map digit_val t"]
  by (simp add: nat_of_digits_append)

lemma num_val_zeros [simp]: "num_val (replicate n (CHR ''0'')) = 0"
  by (induction n) (simp_all add: num_val_def digit_val_def)

lemma num_val_Nil [simp]: "num_val [] = 0"
  by (simp add: num_val_def)

lemma num_val_str [simp]: "num_val (str_of_nat n) = n"
  by (simp add: num_val_def nat_of_digits_str)

lemma strip_zeros_Nil [simp]: "strip_zeros [] = []"
  by (simp add: strip_zeros_def)

lemma strip_zeros_snoc: "strip_zeros (s @ [c]) = (if c = CHR ''0'' then strip_zeros s else s @ [c])"
  by (simp add: strip_zeros_def)

lemma strip_zeros_append: "\<exists>n. s = strip_zeros s @ replicate n (CHR ''0'')"
proof (induction s rule: rev_induct)
  case (snoc c s)
  then obtain n where n: "s = strip_zeros s @ replicate n (CHR ''0'')" by blast
  show ?case
  proof (cases "c = CHR ''0''")
    case True
    with n have "s @ [c] = strip_zeros (s @ [c]) @ replicate (Suc n) (CHR ''0'')"
      by (metis append.assoc replicate_append_same replicate_Suc strip_zeros_snoc)
    then show ?thesis by blast
  qed (simp add: strip_zeros_snoc exI [of _ 0])
qed simp

lemma strip_zeros_last: "strip_zeros s \<noteq> [] \<Longrightarrow> last (strip_zeros s) \<noteq> CHR ''0''"
  by (induction s rule: rev_induct) (auto simp: strip_zeros_snoc split: if_splits)

lemma str_of_nat_first: "0 < n \<Longrightarrow> hd (str_of_nat n) \<noteq> CHR ''0''"
proof (induction n rule: less_induct)
  case (less n)
  show ?case
  proof (cases "n < 10")
    case True
    have "char_of (48 + n) \<noteq> CHR ''0''"
    proof
      assume "char_of (48 + n) = CHR ''0''"
      then have "code (char_of (48 + n)) = code (CHR ''0'')" by simp
      with less.prems True show False by simp
    qed
    with True show ?thesis by (simp add: str_of_nat.simps [of n])
  next
    case False
    with less.IH [of "n div 10"] str_of_nat_nonempty [of "n div 10"] show ?thesis by (simp add: str_of_nat.simps [of n])
  qed
qed

text \<open>What \<open>decimal_of\<close> gives: digits without zeros at the ends, whose value is rounded to the number.\<close>

definition good_digits :: "string \<Rightarrow> bool" where
  "good_digits ds = (ds \<noteq> [] \<and> digits ds \<and> hd ds \<noteq> CHR ''0'' \<and> last ds \<noteq> CHR ''0'')"

lemma decimal_of_value:
  assumes "to_binary64 r = Fin r" "0 < r" "decimal_of r = (ds, pt)"
  shows "good_digits ds \<and> to_binary64 (of_nat (num_val ds) * pow10 (pt - int (length ds))) = Fin r"
proof -
  from repr_digits [OF assms(1,2)] obtain m k where m: "first_digits r [1..<18] = Some (m, k)"
    "to_binary64 (of_int m * unit_at k r) = Fin r" "0 < m" by blast
  have s: "dec_int m = str_of_nat (nat m)" using m(3) by (simp add: dec_int_def)
  from assms(3) m(1) s have ds: "ds = strip_zeros (str_of_nat (nat m))"
    and pt: "pt = int (length (str_of_nat (nat m))) + dec_exp r - int k + 1"
    by (simp_all add: decimal_of_def)
  obtain n where n: "str_of_nat (nat m) = ds @ replicate n (CHR ''0'')" using strip_zeros_append ds by blast
  have val: "nat m = num_val ds * 10 ^ n" using num_val_str [of "nat m"] by (simp add: n num_val_append)
  with m(3) have ne: "ds \<noteq> []" by (cases ds) auto
  have "digits ds" using str_of_nat_digits [of _ "nat m"] by (simp add: n)
  moreover have "hd ds \<noteq> CHR ''0''" using str_of_nat_first [of "nat m"] m(3) ne by (simp add: n)
  moreover have "last ds \<noteq> CHR ''0''" using strip_zeros_last ne ds by blast
  moreover have "of_int m * unit_at k r = of_nat (num_val ds) * pow10 (pt - int (length ds))"
  proof -
    have "(of_int m :: rat) = of_nat (nat m)" using m(3) by simp
    also have "\<dots> = of_nat (num_val ds) * pow10 (int n)" by (simp add: val pow10_nat)
    finally have "of_int m * unit_at k r = of_nat (num_val ds) * pow10 (int n + (dec_exp r - int k + 1))"
      by (simp only: unit_at_def pow10_add mult.assoc)
    moreover have "int n + (dec_exp r - int k + 1) = pt - int (length ds)" by (simp add: pt n)
    ultimately show ?thesis by simp
  qed
  ultimately show ?thesis using m(2) ne by (simp add: good_digits_def)
qed

section \<open>Reading a literal\<close>

definition exponent :: "string \<Rightarrow> int" where
  "exponent x = (case split_sign x of (neg, t) \<Rightarrow> apply_sign neg (int (num_val t)))"

lemma split_at_digits:
  "digits a \<Longrightarrow> p c \<Longrightarrow> \<forall>d. is_digit d \<longrightarrow> \<not> p d \<Longrightarrow> split_at p (a @ c # b) = (a, Some b)"
  "digits a \<Longrightarrow> \<forall>d. is_digit d \<longrightarrow> \<not> p d \<Longrightarrow> split_at p a = (a, None)"
  by (auto simp: split_at_def Let_def takeWhile_append2 dropWhile_append2 takeWhile_eq_all_conv [THEN iffD2] dropWhile_eq_Nil_conv [THEN iffD2])

lemma opt_digits_digits: "digits s \<Longrightarrow> opt_digits s = Some (map digit_val s)"
  by (simp add: opt_digits_def us_digits_digits)

text \<open>Digits, a point and digits, then an exponent or nothing.\<close>

definition mantissa :: "string \<Rightarrow> string \<Rightarrow> bool \<Rightarrow> string" where
  "mantissa ip fp point = ip @ (if point then CHR ''.'' # fp else [])"

lemma mantissa_no_exponent:
  assumes "digits ip" "digits fp"
  shows "\<forall>c\<in>set (mantissa ip fp point). c \<noteq> CHR ''e'' \<and> c \<noteq> CHR ''E''"
proof -
  have "\<not> is_digit (CHR ''e'')" "\<not> is_digit (CHR ''E'')" by (simp_all add: is_digit_def)
  with assms show ?thesis by (auto simp: mantissa_def)
qed

lemma decimal_of_literal:
  assumes "digits ip" "digits fp" "ip \<noteq> []" "point \<or> fp = []"
  shows "decimal_of_str (mantissa ip fp point) = Some (of_nat (num_val (ip @ fp)) * pow10 (- int (length fp)))"
    "split_sign x = (neg, t) \<Longrightarrow> digits t \<Longrightarrow> t \<noteq> [] \<Longrightarrow>
     decimal_of_str (mantissa ip fp point @ CHR ''e'' # x) =
       Some (of_nat (num_val (ip @ fp)) * pow10 (exponent x - int (length fp)))"
proof -
  let ?m = "mantissa ip fp point"
  let ?e = "\<lambda>c. c = CHR ''e'' \<or> c = CHR ''E''"
  have e: "\<forall>c\<in>set ?m. \<not> ?e c" using mantissa_no_exponent [OF assms(1,2)] by blast
  have dot: "\<not> is_digit (CHR ''.'')" by (simp add: is_digit_def)
  then have mant: "split_at (\<lambda>c. c = CHR ''.'') ?m = (ip, if point then Some fp else None)"
    using split_at_digits [OF assms(1), of "\<lambda>c. c = CHR ''.''"] by (auto simp: mantissa_def)
  have fp: "(case if point then Some fp else None of None \<Rightarrow> [] | Some f \<Rightarrow> f) = fp" using assms(4) by auto
  have "split_at ?e ?m = (?m, None)"
    unfolding split_at_def Let_def using e by (simp add: takeWhile_eq_all_conv [THEN iffD2] dropWhile_eq_Nil_conv [THEN iffD2])
  then show "decimal_of_str ?m = Some (of_nat (num_val (ip @ fp)) * pow10 (- int (length fp)))"
    using mant fp assms(1-3) by (simp add: decimal_of_str_def opt_digits_digits num_val_def pow10_def)
  assume x: "split_sign x = (neg, t)" "digits t" "t \<noteq> []"
  have "split_at ?e (?m @ CHR ''e'' # x) = (?m, Some x)"
    unfolding split_at_def Let_def using e by (simp add: takeWhile_append2 dropWhile_append2)
  then show "decimal_of_str (?m @ CHR ''e'' # x) = Some (of_nat (num_val (ip @ fp)) * pow10 (exponent x - int (length fp)))"
    using mant fp assms(1-3) x us_digits_digits [OF x(2), of False]
    by (simp add: decimal_of_str_def opt_digits_digits num_val_def pow10_def exponent_def Let_def)
qed

text \<open>A literal whose value is rounded to a positive float is read as this float.\<close>

lemma float_of_literal:
  assumes "decimal_of_str (c # t) = Some v" "to_binary64 v = Fin r" "is_digit c" "\<forall>d\<in>set t. \<not> is_space d"
  shows "float_of_str (c # t) = Some (Fin r)" "float_of_str (CHR ''-'' # c # t) = Some (Fin (- r))"
proof -
  have sp: "strip (c # t) = c # t" "strip (CHR ''-'' # c # t) = CHR ''-'' # c # t"
    using assms(3,4) is_digit_not_space [of c] by (auto intro!: strip_no_space simp: is_space_def)
  have sg: "split_sign (c # t) = (False, c # t)" "split_sign (CHR ''-'' # c # t) = (True, c # t)"
    using is_digit_not_sign [OF assms(3)] by (simp_all add: split_sign_def)
  have "lower_char c = c" using assms(3) by (simp add: lower_char_def is_digit_def Let_def)
  moreover have "c \<noteq> CHR ''i''" "c \<noteq> CHR ''n''" using assms(3) by (auto simp: is_digit_def)
  ultimately have "lower (c # t) \<noteq> ''inf''" "lower (c # t) \<noteq> ''infinity''" "lower (c # t) \<noteq> ''nan''" by (simp_all add: lower_def)
  with sp sg assms(1,2) show "float_of_str (c # t) = Some (Fin r)" "float_of_str (CHR ''-'' # c # t) = Some (Fin (- r))"
    by (simp_all add: float_of_str_def Let_def)
qed

section \<open>The formats of a decimal\<close>

definition dec_value :: "string \<Rightarrow> int \<Rightarrow> rat" where
  "dec_value ds pt = of_nat (num_val ds) * pow10 (pt - int (length ds))"

abbreviation zeros :: "nat \<Rightarrow> string" where
  "zeros n \<equiv> replicate n (CHR ''0'')"

lemma zero_digit [simp]: "is_digit (CHR ''0'')"
  by (simp add: is_digit_def)

lemma form_integer:
  assumes "good_digits ds" "int (length ds) \<le> pt"
  shows "decimal_of_str (ds @ zeros (nat pt - length ds)) = Some (dec_value ds pt)"
    "decimal_of_str (ds @ zeros (nat pt - length ds) @ ''.0'') = Some (dec_value ds pt)"
proof -
  let ?n = "nat pt - length ds"
  have ip: "digits (ds @ zeros ?n)" "ds @ zeros ?n \<noteq> []" using assms(1) by (auto simp: good_digits_def)
  have v: "(of_nat (num_val (ds @ zeros ?n)) :: rat) = dec_value ds pt"
    using assms(2) by (simp add: dec_value_def num_val_append pow10_def nat_diff_distrib)
  from decimal_of_literal(1) [OF ip(1), of "[]" False] ip(2) v
  show "decimal_of_str (ds @ zeros ?n) = Some (dec_value ds pt)" by (simp add: mantissa_def pow10_def)
  from decimal_of_literal(1) [OF ip(1), of "''0''" True] ip(2) v num_val_append [of "ds @ zeros ?n" "''0''"]
  show "decimal_of_str (ds @ zeros ?n @ ''.0'') = Some (dec_value ds pt)"
    by (simp add: mantissa_def pow10_def num_val_def digit_val_def)
qed

lemma form_point:
  assumes "good_digits ds" "0 < pt" "pt < int (length ds)"
  shows "decimal_of_str (take (nat pt) ds @ ''.'' @ drop (nat pt) ds) = Some (dec_value ds pt)"
proof -
  have "digits (take (nat pt) ds)" "digits (drop (nat pt) ds)" "take (nat pt) ds \<noteq> []"
    using assms by (auto simp: good_digits_def dest: in_set_takeD in_set_dropD)
  from decimal_of_literal(1) [OF this, of True] assms show ?thesis
    by (simp add: mantissa_def dec_value_def of_nat_diff)
qed

lemma form_fraction:
  assumes "good_digits ds" "pt \<le> 0"
  shows "decimal_of_str (''0.'' @ zeros (nat (- pt)) @ ds) = Some (dec_value ds pt)"
proof -
  have "digits ''0''" "digits (zeros (nat (- pt)) @ ds)" using assms by (auto simp: good_digits_def)
  note lit = decimal_of_literal(1) [OF this, of True]
  have "''0'' @ zeros (nat (- pt)) @ ds = zeros (Suc (nat (- pt))) @ ds" by simp
  then have "num_val (''0'' @ zeros (nat (- pt)) @ ds) = num_val ds" by (simp only: num_val_append num_val_zeros)
  with lit assms(2) show ?thesis by (simp add: mantissa_def dec_value_def)
qed

lemma form_exponent:
  assumes "good_digits ds" "split_sign x = (neg, t)" "digits t" "t \<noteq> []" "exponent x = pt - 1"
  shows "decimal_of_str (take 1 ds @ (if length ds = 1 then [] else CHR ''.'' # drop 1 ds) @ CHR ''e'' # x) = Some (dec_value ds pt)"
proof -
  obtain d ds' where ds: "ds = d # ds'" using assms(1) by (cases ds) (auto simp: good_digits_def)
  with assms(1) have "digits [d]" "digits ds'" by (auto simp: good_digits_def)
  from decimal_of_literal(2) [OF this, of "ds' \<noteq> []", OF _ _ assms(2-4)] show ?thesis
    using assms(5) by (auto simp: ds mantissa_def dec_value_def algebra_simps)
qed

lemma signed_exponent:
  assumes "digits z" "num_val z = 0"
  shows "split_sign ((if e < 0 then ''-'' else ''+'') @ z @ str_of_nat (nat \<bar>e\<bar>)) = (e < 0, z @ str_of_nat (nat \<bar>e\<bar>))"
    "exponent ((if e < 0 then ''-'' else ''+'') @ z @ str_of_nat (nat \<bar>e\<bar>)) = e"
  using assms by (auto simp: split_sign_def exponent_def apply_sign_def num_val_append)

section \<open>\<^verbatim>\<open>float(repr(x)) == x\<close>\<close>

lemma format_decimal_value:
  assumes "good_digits ds"
  shows "decimal_of_str (format_decimal ds pt) = Some (dec_value ds pt)"
proof (cases "-4 < pt \<and> pt \<le> 16")
  case True
  with form_integer(2) [OF assms] form_point [OF assms] form_fraction [OF assms] show ?thesis
    by (auto simp: format_decimal_def)
next
  case False
  let ?z = "if length (str_of_nat (nat \<bar>pt - 1\<bar>)) = 1 then ''0'' else []"
  have z: "digits ?z" "num_val ?z = 0" by (auto simp: num_val_def digit_val_def)
  have t: "digits (?z @ str_of_nat (nat \<bar>pt - 1\<bar>))" "?z @ str_of_nat (nat \<bar>pt - 1\<bar>) \<noteq> []"
    using z(1) str_of_nat_digits str_of_nat_nonempty by auto
  note sx = signed_exponent [OF z, of "pt - 1"]
  have "format_decimal ds pt = take 1 ds @ (if length ds = 1 then [] else CHR ''.'' # drop 1 ds) @ CHR ''e'' #
      ((if pt - 1 < 0 then ''-'' else ''+'') @ ?z @ str_of_nat (nat \<bar>pt - 1\<bar>))"
    using False unfolding format_decimal_def Let_def by auto
  with form_exponent [OF assms sx(1) t sx(2)] show ?thesis by (simp only:)
qed

text \<open>The characters of a printed number.\<close>

definition num_char :: "char \<Rightarrow> bool" where
  "num_char c = (is_digit c \<or> c = CHR ''.'' \<or> c = CHR ''e'' \<or> c = CHR ''+'' \<or> c = CHR ''-'')"

lemma num_char_simps [simp]: "num_char (CHR ''0'')" "num_char (CHR ''.'')" "num_char (CHR ''e'')" "num_char (CHR ''+'')" "num_char (CHR ''-'')"
  by (simp_all add: num_char_def)

lemma num_char_not_space: "num_char c \<Longrightarrow> \<not> is_space c"
  using is_digit_not_space by (auto simp: num_char_def is_space_def)

lemma num_char_digits:
  "digits ds \<Longrightarrow> list_all num_char ds" "digits ds \<Longrightarrow> list_all num_char (take n ds)" "digits ds \<Longrightarrow> list_all num_char (drop n ds)"
  "list_all num_char (str_of_nat k)" "list_all num_char (zeros k)"
  using str_of_nat_digits by (auto simp: list_all_iff num_char_def dest: in_set_takeD in_set_dropD)

lemma format_decimal_chars:
  assumes "good_digits ds"
  shows "list_all num_char (format_decimal ds pt)" "\<exists>c t. format_decimal ds pt = c # t \<and> is_digit c"
proof -
  obtain d ds' where ds: "ds = d # ds'" "is_digit d" using assms by (cases ds) (auto simp: good_digits_def)
  from assms have dg: "digits ds" by (simp add: good_digits_def)
  show "list_all num_char (format_decimal ds pt)"
    using num_char_digits(1) [OF dg] num_char_digits(2) [OF dg, of 1] num_char_digits(3) [OF dg, of 1]
      num_char_digits(2) [OF dg, of "nat pt"] num_char_digits(3) [OF dg, of "nat pt"] num_char_digits(4,5)
    by (simp add: format_decimal_def Let_def)
  show "\<exists>c t. format_decimal ds pt = c # t \<and> is_digit c"
    using ds by (cases "nat pt") (auto simp: format_decimal_def Let_def)
qed

lemma repr_reads_back:
  assumes "to_binary64 r = Fin r"
  shows "float_of_str (float_repr (Fin r)) = Some (Fin r)"
proof (cases "r = 0")
  case True
  have "float_of_str ''0.0'' = Some (Fin 0)" by code_simp
  with True show ?thesis by simp
next
  case False
  with binary64_abs [OF assms] have a: "to_binary64 \<bar>r\<bar> = Fin \<bar>r\<bar>" "0 < \<bar>r\<bar>" by simp_all
  obtain ds pt where d: "decimal_of \<bar>r\<bar> = (ds, pt)" by (cases "decimal_of \<bar>r\<bar>")
  from decimal_of_value [OF a d] have g: "good_digits ds" "to_binary64 (dec_value ds pt) = Fin \<bar>r\<bar>" by (simp_all add: dec_value_def)
  obtain c t where t: "format_decimal ds pt = c # t" "is_digit c" using format_decimal_chars(2) [OF g(1)] by blast
  have "\<forall>x\<in>set t. \<not> is_space x" using format_decimal_chars(1) [OF g(1), of pt] num_char_not_space by (auto simp: t list_all_iff)
  from float_of_literal [OF _ g(2) t(2) this] format_decimal_value [OF g(1), of pt] t(1) d False show ?thesis by simp
qed

end
