(* ===== verification/Jcs_Laws.thy ===== *)
theory Jcs_Laws
  imports Jcs
begin

text \<open>
  Laws of canonical JSON: the number printed is the shortest decimal of the float in the format
  of ECMAScript; a reader gets the written value back; and writing depends only on the value
  that is read back, as long as integers have at most 53 bits.
\<close>

section \<open>The digits of a number\<close>

lemma split_mantissa:
  assumes "digits ip" "digits fp" "point \<or> fp = []"
  shows "split_at (\<lambda>c. c = CHR ''e'') (mantissa ip fp point) = (mantissa ip fp point, None)"
    "split_at (\<lambda>c. c = CHR ''e'') (mantissa ip fp point @ CHR ''e'' # x) = (mantissa ip fp point, Some x)"
    "split_at (\<lambda>c. c = CHR ''.'') (mantissa ip fp point) = (ip, if point then Some fp else None)"
proof -
  have e: "\<forall>c\<in>set (mantissa ip fp point). c \<noteq> CHR ''e''" using mantissa_no_exponent [OF assms(1,2)] by blast
  then show "split_at (\<lambda>c. c = CHR ''e'') (mantissa ip fp point) = (mantissa ip fp point, None)"
    unfolding split_at_def Let_def by (simp add: takeWhile_eq_all_conv [THEN iffD2] dropWhile_eq_Nil_conv [THEN iffD2])
  from e show "split_at (\<lambda>c. c = CHR ''e'') (mantissa ip fp point @ CHR ''e'' # x) = (mantissa ip fp point, Some x)"
    unfolding split_at_def Let_def by (simp add: takeWhile_append2 dropWhile_append2)
  have "\<not> is_digit (CHR ''.'')" by (simp add: is_digit_def)
  then show "split_at (\<lambda>c. c = CHR ''.'') (mantissa ip fp point) = (ip, if point then Some fp else None)"
    using split_at_digits [OF assms(1), of "\<lambda>c. c = CHR ''.''"] by (auto simp: mantissa_def)
qed

lemma lstrip0_zeros: "lstrip0 (zeros n @ s) = lstrip0 s"
  by (induction n) (simp_all add: lstrip0_def)

lemma lstrip0_nonzero: "s \<noteq> [] \<Longrightarrow> hd s \<noteq> CHR ''0'' \<Longrightarrow> lstrip0 (s @ t) = s @ t"
  by (cases s) (simp_all add: lstrip0_def)

lemma strip_zeros_lstrip: "strip_zeros s = rev (lstrip0 (rev s))"
  by (simp add: strip_zeros_def lstrip0_def)

lemma strip_zeros_zeros: "strip_zeros (s @ zeros n) = strip_zeros s"
  by (simp add: strip_zeros_lstrip lstrip0_zeros)

lemma strip_zeros_nonempty:
  assumes "s \<noteq> []" "hd s \<noteq> CHR ''0''"
  shows "strip_zeros s \<noteq> []"
proof
  assume "strip_zeros s = []"
  then obtain n where "s = zeros n" using strip_zeros_append [of s] by auto
  with assms show False by (cases n) auto
qed

lemma strip_zeros_id: "s \<noteq> [] \<Longrightarrow> last s \<noteq> CHR ''0'' \<Longrightarrow> strip_zeros s = s"
  by (metis append_butlast_last_id strip_zeros_snoc)

text \<open>Digits and exponent of a mantissa, as the code takes them apart.\<close>

definition digits_of :: "string \<Rightarrow> string option \<Rightarrow> string" where
  "digits_of ip fr = strip_zeros (lstrip0 (ip @ or_empty fr))"

definition point_of :: "string \<Rightarrow> string option \<Rightarrow> int" where
  "point_of ip fr = (if strip_zeros (lstrip0 ip) \<noteq> [] then int (length (lstrip0 ip))
     else - (int (length (or_empty fr)) - int (length (lstrip0 (or_empty fr)))))"

lemma number_parts:
  assumes "r \<noteq> 0" "float_repr (Fin \<bar>r\<bar>) = t" "split_at (\<lambda>c. c = CHR ''e'') t = (mant, ex)"
    "split_at (\<lambda>c. c = CHR ''.'') mant = (ip, fr)" "digits_of ip fr = ds" "ds \<noteq> []"
    "(if or_empty ex = [] then Inr 0 else py_int (VStr (or_empty ex))) = Inr x"
  shows "number (Fin r) = Inr (js_format (if r < 0 then ''-'' else []) ds (point_of ip fr + x))"
  using assms by (auto simp: number_def Let_def point_of_def digits_of_def simp del: float_repr.simps py_int.simps)

lemma good_strip:
  assumes "good_digits ds"
  shows "strip_zeros ds = ds" "lstrip0 ds = ds" "lstrip0 (ds @ t) = ds @ t" "strip_zeros (ds @ zeros n) = ds"
  using assms lstrip0_nonzero [of ds "[]"] lstrip0_nonzero [of ds t] strip_zeros_id strip_zeros_zeros
  by (simp_all add: good_digits_def)

lemma integer_parts:
  assumes "good_digits ds" "int (length ds) \<le> pt"
  shows "digits_of (ds @ zeros (nat pt - length ds)) (Some ''0'') = ds" "point_of (ds @ zeros (nat pt - length ds)) (Some ''0'') = pt"
proof -
  let ?n = "nat pt - length ds"
  have "ds @ zeros ?n @ ''0'' = ds @ zeros (Suc ?n)" by (simp add: replicate_append_same)
  then show "digits_of (ds @ zeros ?n) (Some ''0'') = ds" by (simp only: digits_of_def or_empty_def option.case append_assoc good_strip [OF assms(1)])
  from assms show "point_of (ds @ zeros ?n) (Some ''0'') = pt"
    using good_strip [OF assms(1)] by (auto simp: point_of_def good_digits_def)
qed

lemma point_parts:
  assumes "good_digits ds" "0 < pt" "pt \<le> int (length ds)" "fr = Some (drop (nat pt) ds) \<or> (fr = None \<and> drop (nat pt) ds = [])"
  shows "digits_of (take (nat pt) ds) fr = ds" "point_of (take (nat pt) ds) fr = pt"
proof -
  have f: "or_empty fr = drop (nat pt) ds" using assms(4) by (auto simp: or_empty_def)
  then show "digits_of (take (nat pt) ds) fr = ds" using good_strip [OF assms(1)] by (simp add: digits_of_def)
  have t: "take (nat pt) ds \<noteq> []" "hd (take (nat pt) ds) \<noteq> CHR ''0''" using assms by (auto simp: good_digits_def)
  then have "lstrip0 (take (nat pt) ds) = take (nat pt) ds" using lstrip0_nonzero [of _ "[]"] by simp
  moreover have "strip_zeros (take (nat pt) ds) \<noteq> []" using strip_zeros_nonempty t by blast
  ultimately show "point_of (take (nat pt) ds) fr = pt" using assms(2,3) by (simp add: point_of_def)
qed

lemma fraction_parts:
  assumes "good_digits ds" "pt \<le> 0"
  shows "digits_of ''0'' (Some (zeros (nat (- pt)) @ ds)) = ds" "point_of ''0'' (Some (zeros (nat (- pt)) @ ds)) = pt"
proof -
  have "''0'' @ zeros (nat (- pt)) @ ds = zeros (Suc (nat (- pt))) @ ds" by simp
  then show "digits_of ''0'' (Some (zeros (nat (- pt)) @ ds)) = ds"
    using good_strip [OF assms(1)] by (simp only: digits_of_def or_empty_def option.case lstrip0_zeros)
  have "lstrip0 ''0'' = []" by (simp add: lstrip0_def)
  with assms(2) show "point_of ''0'' (Some (zeros (nat (- pt)) @ ds)) = pt"
    using good_strip [OF assms(1)] by (simp add: point_of_def or_empty_def lstrip0_zeros)
qed

lemma repr_exponent:
  assumes "digits z" "num_val z = 0" "length z \<le> 1" "\<bar>e\<bar> < 10 ^ 4"
  shows "py_int (VStr ((if e < 0 then ''-'' else ''+'') @ z @ str_of_nat (nat \<bar>e\<bar>))) = Inr e"
proof -
  let ?x = "(if e < 0 then ''-'' else ''+'') @ z @ str_of_nat (nat \<bar>e\<bar>)"
  let ?t = "z @ str_of_nat (nat \<bar>e\<bar>)"
  have t: "digits ?t" "?t \<noteq> []" using assms(1) str_of_nat_digits str_of_nat_nonempty by auto
  have "\<forall>c\<in>set ?x. \<not> is_space c" using t(1) is_digit_not_space by (auto simp: is_space_def)
  then have "strip ?x = ?x" by (rule strip_no_space)
  moreover have "length (str_of_nat (nat \<bar>e\<bar>)) \<le> 4" using length_str_of_nat [of "nat \<bar>e\<bar>" 4] assms(4) by simp
  then have "length ?t \<le> 4300" using assms(3) by simp
  ultimately have "int_of_str ?x = Some (apply_sign (e < 0) (int (num_val ?t)))"
    using signed_exponent(1) [OF assms(1,2), of e] us_digits_digits [OF t(1), of False] t(2)
    by (simp only: int_of_str_def) (simp add: num_val_def)
  also have "\<dots> = Some e" using assms(2) by (simp add: num_val_append apply_sign_def)
  finally show ?thesis by simp
qed

text \<open>The exponent of a binary64 number has at most three digits.\<close>

lemma pow10_le_imp: "pow10 a < pow10 b \<Longrightarrow> a < b"
  using power_int_increasing [of b a "10 :: rat"] by (auto simp: pow10_powi not_less [symmetric])

lemma binary64_small:
  assumes "to_binary64 r = Fin r" "0 < r"
  shows "pow2 (- 1074) \<le> r" "r < pow2 1024"
proof -
  define e where "e = ulp_exp r"
  obtain k where k: "r = of_int k * pow2 e" using binary64_pos(1) [OF assms] e_def by blast
  with assms(2) have "0 < k" using pow2_pos [of e] by (simp add: zero_less_mult_iff not_less_iff_gr_or_eq)
  then have "(1 :: rat) \<le> of_int k" by simp
  then have "1 * pow2 e \<le> of_int k * pow2 e" by (rule mult_right_mono) (simp add: less_imp_le)
  then have "pow2 e \<le> r" using k by simp
  moreover have "pow2 (- 1074) \<le> pow2 e" using ulp_exp_bounds(2) [OF assms(2)] e_def by simp
  ultimately show "pow2 (- 1074) \<le> r" by (rule order_trans [rotated])
  show "r < pow2 1024" using binary64_pos(2) [OF assms] by (simp add: pow2_def)
qed

lemma pow2_le_pow10: "pow2 (int n) \<le> pow10 (int n)" "pow10 (- int n) \<le> pow2 (- int n)"
proof -
  have "(2 :: rat) ^ n \<le> 10 ^ n" by (rule power_mono) simp_all
  then show "pow2 (int n) \<le> pow10 (int n)" by (simp add: pow2_nat pow10_nat)
  from \<open>(2 :: rat) ^ n \<le> 10 ^ n\<close> show "pow10 (- int n) \<le> pow2 (- int n)"
    by (simp add: pow2_powi pow10_powi power_int_minus le_imp_inverse_le)
qed

lemma binary64_dec_exp:
  assumes "to_binary64 r = Fin r" "0 < r"
  shows "- 1075 < dec_exp r" "dec_exp r < 1024"
proof -
  note b = dec_exp_bounds [OF assms(2)] and s = binary64_small [OF assms]
  have "pow10 (dec_exp r) < pow10 1024" using b(1) s(2) pow2_le_pow10(1) [of 1024] by simp
  then show "dec_exp r < 1024" by (rule pow10_le_imp)
  have "pow10 (- 1074) < pow10 (dec_exp r + 1)" using s(1) b(2) pow2_le_pow10(2) [of 1074] by simp
  then have "- 1074 < dec_exp r + 1" by (rule pow10_le_imp)
  then show "- 1075 < dec_exp r" by simp
qed

text \<open>The position of the point is within a few places of the exponent.\<close>

lemma decimal_of_point:
  assumes "to_binary64 r = Fin r" "0 < r" "decimal_of r = (ds, pt)"
  shows "\<bar>pt - 1\<bar> < 10 ^ 4"
proof -
  from repr_digits [OF assms(1,2)] obtain m k where m: "first_digits r [1..<18] = Some (m, k)" "0 < m" by blast
  from first_digits_at [OF m(1)] have k: "digits_at r k = Some m" "1 \<le> k" "k < 18" by auto
  have "r / unit_at k r < 10 ^ k"
  proof -
    have "r < pow10 (dec_exp r + 1)" by (rule dec_exp_bounds(2) [OF assms(2)])
    also have "pow10 (dec_exp r + 1) = 10 ^ k * unit_at k r"
      by (simp add: unit_at_def pow10_nat [symmetric] pow10_add [symmetric])
    finally show ?thesis by (simp add: unit_at_def pos_divide_less_eq)
  qed
  then have "\<lfloor>r / unit_at k r\<rfloor> < 10 ^ k" by (simp add: floor_less_iff)
  then have "m \<le> 10 ^ k" using digits_at_ok [OF k(1)] by auto
  then have "nat m < 10 ^ Suc k" using m(2) by (simp add: nat_less_iff)
  then have "length (str_of_nat (nat m)) \<le> Suc k" by (rule length_str_of_nat) simp
  moreover have "pt = int (length (str_of_nat (nat m))) + dec_exp r - int k + 1"
    using assms(3) m by (simp add: decimal_of_def dec_int_def)
  ultimately show ?thesis using binary64_dec_exp [OF assms(1,2)] k by simp
qed

section \<open>The text of a number\<close>

lemma number_eq:
  assumes "to_binary64 r = Fin r" "r \<noteq> 0" "decimal_of \<bar>r\<bar> = (ds, pt)"
  shows "number (Fin r) = Inr (js_format (if r < 0 then ''-'' else []) ds pt)"
proof -
  from binary64_abs [OF assms(1)] assms(2) have a: "to_binary64 \<bar>r\<bar> = Fin \<bar>r\<bar>" "0 < \<bar>r\<bar>" by simp_all
  from decimal_of_value [OF a assms(3)] have g: "good_digits ds" by blast
  then have dg: "digits ds" "ds \<noteq> []" by (simp_all add: good_digits_def)
  have repr: "float_repr (Fin \<bar>r\<bar>) = format_decimal ds pt" using assms(2,3) by simp
  have parts: "number (Fin r) = Inr (js_format (if r < 0 then ''-'' else []) ds pt)"
    if "format_decimal ds pt = mantissa ip fp point @ ex" "digits ip" "digits fp" "point \<or> fp = []"
      "digits_of ip (if point then Some fp else None) = ds" "point_of ip (if point then Some fp else None) = n"
      "ex = [] \<and> n = pt \<or> (\<exists>x. ex = CHR ''e'' # x \<and> x \<noteq> [] \<and> py_int (VStr x) = Inr (pt - n))" for ip fp point ex n
  proof -
    note sp = split_mantissa [OF that(2-4)]
    from that(7) obtain o' x where o': "split_at (\<lambda>c. c = CHR ''e'') (mantissa ip fp point @ ex) = (mantissa ip fp point, o')"
      "(if or_empty o' = [] then Inr 0 else py_int (VStr (or_empty o'))) = Inr x" "n + x = pt"
      using sp(1,2) by (auto simp: or_empty_def simp del: py_int.simps)
    from number_parts [OF assms(2) repr [unfolded that(1)] o'(1) sp(3) that(5) dg(2) o'(2)] that(6) o'(3) show ?thesis by simp
  qed
  show ?thesis
  proof (cases "-4 < pt \<and> pt \<le> 16")
    case True
    consider "pt \<le> 0" | "int (length ds) \<le> pt" "0 < pt" | "0 < pt" "pt < int (length ds)" by linarith
    then show ?thesis
    proof cases
      case 1
      with True fraction_parts [OF g 1] dg show ?thesis
        by (intro parts [of "''0''" "zeros (nat (- pt)) @ ds" True "[]" pt]) (auto simp: format_decimal_def mantissa_def)
    next
      case 2
      with True integer_parts [OF g 2(1)] dg show ?thesis
        by (intro parts [of "ds @ zeros (nat pt - length ds)" "''0''" True "[]" pt]) (auto simp: format_decimal_def mantissa_def)
    next
      case 3
      with True point_parts [OF g, of pt "Some (drop (nat pt) ds)"] dg show ?thesis
        by (intro parts [of "take (nat pt) ds" "drop (nat pt) ds" True "[]" pt])
          (auto simp: format_decimal_def mantissa_def dest: in_set_takeD in_set_dropD)
    qed
  next
    case False
    let ?z = "if length (str_of_nat (nat \<bar>pt - 1\<bar>)) = 1 then ''0'' else []"
    let ?x = "(if pt - 1 < 0 then ''-'' else ''+'') @ ?z @ str_of_nat (nat \<bar>pt - 1\<bar>)"
    have z: "digits ?z" "num_val ?z = 0" "length ?z \<le> 1" by (auto simp: num_val_def digit_val_def)
    have x: "py_int (VStr ?x) = Inr (pt - 1)" by (rule repr_exponent [OF z decimal_of_point [OF a assms(3)]])
    have f: "format_decimal ds pt = mantissa (take 1 ds) (drop 1 ds) (length ds \<noteq> 1) @ CHR ''e'' # ?x"
      using False unfolding format_decimal_def Let_def mantissa_def by auto
    have l: "nat 1 = 1" "0 < length ds" using dg(2) by simp_all
    have "digits_of (take 1 ds) (if length ds \<noteq> 1 then Some (drop 1 ds) else None) = ds"
      "point_of (take 1 ds) (if length ds \<noteq> 1 then Some (drop 1 ds) else None) = 1"
      using point_parts [OF g, of 1 "if length ds \<noteq> 1 then Some (drop 1 ds) else None"] l by auto
    with f x dg show ?thesis
      by (intro parts [of "take 1 ds" "drop 1 ds" "length ds \<noteq> 1" "CHR ''e'' # ?x" 1])
        (auto simp del: py_int.simps dest: in_set_takeD in_set_dropD)
  qed
qed

lemma js_format_sign: "js_format sign ds n = sign @ js_format [] ds n"
  by (simp add: js_format_def Let_def)

lemma js_format_value:
  assumes "good_digits ds"
  shows "decimal_of_str (js_format [] ds n) = Some (dec_value ds n)"
proof (cases "-6 < n \<and> n \<le> 21")
  case True
  with form_integer(1) [OF assms, of n] form_point [OF assms, of n] form_fraction [OF assms, of n] show ?thesis
    by (auto simp: js_format_def Let_def)
next
  case False
  let ?x = "(if n - 1 < 0 then ''-'' else ''+'') @ [] @ str_of_nat (nat \<bar>n - 1\<bar>)"
  note sx = signed_exponent [of "[]" "n - 1"]
  have "digits ([] @ str_of_nat (nat \<bar>n - 1\<bar>))" "[] @ str_of_nat (nat \<bar>n - 1\<bar>) \<noteq> []" using str_of_nat_digits str_of_nat_nonempty by auto
  from form_exponent [OF assms sx(1) this sx(2)]
  have "decimal_of_str (take 1 ds @ (if length ds = 1 then [] else CHR ''.'' # drop 1 ds) @ CHR ''e'' # ?x) = Some (dec_value ds n)" by simp
  moreover have "js_format [] ds n = take 1 ds @ (if length ds = 1 then [] else CHR ''.'' # drop 1 ds) @ CHR ''e'' # ?x"
    using False by (auto simp: js_format_def Let_def)
  ultimately show ?thesis by (simp only:)
qed

lemma js_format_chars:
  assumes "good_digits ds"
  shows "list_all num_char (js_format [] ds n)" "\<exists>c t. js_format [] ds n = c # t \<and> is_digit c"
proof -
  obtain d ds' where ds: "ds = d # ds'" "is_digit d" using assms by (cases ds) (auto simp: good_digits_def)
  from assms have dg: "digits ds" by (simp add: good_digits_def)
  show "list_all num_char (js_format [] ds n)"
    using num_char_digits(1) [OF dg] num_char_digits(2) [OF dg, of 1] num_char_digits(3) [OF dg, of 1]
      num_char_digits(2) [OF dg, of "nat n"] num_char_digits(3) [OF dg, of "nat n"] num_char_digits(4,5)
    by (simp add: js_format_def Let_def)
  show "\<exists>c t. js_format [] ds n = c # t \<and> is_digit c"
    using ds by (cases "nat n") (auto simp: js_format_def Let_def)
qed

text \<open>The text of a finite number: characters of numbers, read back as the same float.\<close>

definition number_text :: "string \<Rightarrow> bool" where
  "number_text t = (list_all num_char t \<and> t \<noteq> [] \<and> (is_digit (hd t) \<or> hd t = CHR ''-''))"

lemma number_reads_back:
  assumes "to_binary64 r = Fin r"
  shows "\<exists>t. number (Fin r) = Inr t \<and> number_text t \<and> float_of_str t = Some (Fin r)"
proof (cases "r = 0")
  case True
  have "float_of_str ''0'' = Some (Fin 0)" by code_simp
  with True show ?thesis by (simp add: number_def number_text_def)
next
  case False
  from binary64_abs [OF assms(1)] False have a: "to_binary64 \<bar>r\<bar> = Fin \<bar>r\<bar>" "0 < \<bar>r\<bar>" by simp_all
  obtain ds pt where d: "decimal_of \<bar>r\<bar> = (ds, pt)" by (cases "decimal_of \<bar>r\<bar>")
  from decimal_of_value [OF a d] have g: "good_digits ds" "to_binary64 (dec_value ds pt) = Fin \<bar>r\<bar>" by (simp_all add: dec_value_def)
  obtain c t where t: "js_format [] ds pt = c # t" "is_digit c" using js_format_chars(2) [OF g(1)] by blast
  have ch: "list_all num_char (c # t)" using js_format_chars(1) [OF g(1), of pt] by (simp add: t)
  then have "\<forall>x\<in>set t. \<not> is_space x" using num_char_not_space by (auto simp: list_all_iff)
  from float_of_literal [OF _ g(2) t(2) this] js_format_value [OF g(1), of pt] t(1)
  have "float_of_str (c # t) = Some (Fin \<bar>r\<bar>)" "float_of_str (CHR ''-'' # c # t) = Some (Fin (- \<bar>r\<bar>))" by simp_all
  with number_eq [OF assms False d] t ch show ?thesis
    by (cases "r < 0") (auto simp: js_format_sign [of "''-''"] number_text_def)
qed

section \<open>Integers\<close>

lemma dec_int_reads_back: "number_text (dec_int i) \<and> float_of_str (dec_int i) = Some (to_binary64 (of_int i))"
proof -
  let ?s = "str_of_nat (nat \<bar>i\<bar>)"
  have dg: "digits ?s" "?s \<noteq> []" using str_of_nat_digits str_of_nat_nonempty by auto
  then have "decimal_of_str ?s = Some (of_nat (nat \<bar>i\<bar>))"
    using decimal_of_literal(1) [of ?s "[]" False] by (simp add: mantissa_def pow10_def)
  then have d: "decimal_of_str ?s = Some (of_int \<bar>i\<bar>)" by simp
  obtain c t where s: "?s = c # t" "is_digit c" using dg by (cases ?s) auto
  have lo: "lower_char c = c" using s(2) by (simp add: lower_char_def is_digit_def Let_def)
  have "c \<noteq> CHR ''i''" "c \<noteq> CHR ''n''" using s(2) by (auto simp: is_digit_def)
  with lo have "lower ?s \<noteq> ''inf''" "lower ?s \<noteq> ''infinity''" "lower ?s \<noteq> ''nan''" by (simp_all add: s lower_def)
  with d have "float_of_str (dec_int i) = Some (if i < 0 then float_neg (to_binary64 (of_int \<bar>i\<bar>)) else to_binary64 (of_int \<bar>i\<bar>))"
    by (simp add: float_of_str_def split_sign_dec_int Let_def)
  moreover have "number_text (dec_int i)"
    using num_char_digits(4) [of "nat \<bar>i\<bar>"] s by (auto simp: number_text_def dec_int_def)
  ultimately show ?thesis by (simp add: to_binary64_minus [symmetric])
qed

text \<open>Of the integers, only the number itself is rounded to an integer of at most 53 bits.\<close>

lemma rounds_to_small:
  assumes "to_binary64 (of_int j) = Fin (of_int i)" "0 < i" "i < 2 ^ 53" "0 < j"
  shows "j = i"
proof (cases "j < 2 ^ 53")
  case True
  with assms(1,4) to_binary64_int [of j] show ?thesis by simp
next
  case False
  define e where "e = ulp_exp (of_int j)"
  have j: "(9007199254740992 :: rat) \<le> of_int j" using False by (simp add: of_int_numeral_le_iff)
  then have pos: "0 < (of_int j :: rat)" by simp
  note u = ulp_exp_bounds [OF pos, folded e_def]
  have "pow2 53 < pow2 (e + 53)" using j u(1) by (simp add: pow2_def)
  then have e: "1 \<le> e" by (simp only: pow2_less_iff)
  with u(3) have "4503599627370496 * pow2 e \<le> of_int j" by (auto simp: pow2_shift)
  then have "4503599627370496 \<le> of_int j / pow2 e" by (simp add: pos_le_divide_eq)
  then have "4503599627370496 \<le> \<lfloor>of_int j / pow2 e\<rfloor>" by (simp add: le_floor_iff)
  then have "4503599627370496 \<le> round_half_even (of_int j / pow2 e)" by (auto simp: round_half_even_def Let_def)
  then have "(4503599627370496 :: rat) \<le> of_int (round_half_even (of_int j / pow2 e))" by (simp add: of_int_numeral_le_iff)
  moreover have "pow2 1 \<le> pow2 e" using e by simp
  then have "2 \<le> pow2 e" by (simp add: pow2_def)
  ultimately have "4503599627370496 * 2 \<le> of_int (round_half_even (of_int j / pow2 e)) * pow2 e" by (intro mult_mono) auto
  moreover have "of_int (round_half_even (of_int j / pow2 e)) * pow2 e = of_int i"
    using assms(1,4) by (auto simp: to_binary64_def Let_def e_def [symmetric] split: if_splits)
  moreover have "(of_int i :: rat) < 9007199254740992" using assms(3) by (simp add: of_int_less_numeral_iff)
  ultimately show ?thesis by simp
qed

lemma str_of_num_val: "digits s \<Longrightarrow> s \<noteq> [] \<Longrightarrow> hd s \<noteq> CHR ''0'' \<Longrightarrow> str_of_nat (num_val s) = s"
proof (induction s rule: rev_induct)
  case (snoc c s)
  have c: "digit_val c < 10" "char_of (48 + digit_val c) = c" using snoc.prems(1) by (auto simp: is_digit_def digit_val_def)
  have v: "num_val (s @ [c]) = 10 * num_val s + digit_val c" by (simp add: num_val_append) (simp add: num_val_def)
  show ?case
  proof (cases "s = []")
    case True
    with v c show ?thesis by (simp add: str_of_nat.simps)
  next
    case False
    with snoc have IH: "str_of_nat (num_val s) = s" by simp
    have "num_val s \<noteq> 0"
    proof
      assume "num_val s = 0"
      moreover have "str_of_nat 0 = ''0''" by code_simp
      ultimately have "s = ''0''" using IH by simp
      with snoc.prems(3) show False by simp
    qed
    with c have "str_of_nat (10 * num_val s + digit_val c) = str_of_nat (num_val s) @ [char_of (48 + digit_val c)]"
      by (simp add: str_of_nat.simps [of "10 * num_val s + digit_val c"])
    with v c IH show ?thesis by simp
  qed
qed simp

lemma dec_exp_nat:
  assumes "0 < n"
  shows "dec_exp (of_nat n) = int (length (str_of_nat n)) - 1"
proof -
  let ?l = "length (str_of_nat n)"
  have l: "0 < ?l" using str_of_nat_nonempty by simp
  from str_of_nat_bounds [OF assms] have "10 ^ (?l - 1) \<le> n" "n < 10 ^ ?l" by auto
  then have "of_nat (10 ^ (?l - 1)) \<le> (of_nat n :: rat)" "(of_nat n :: rat) < of_nat (10 ^ ?l)" by (simp_all only: of_nat_le_iff of_nat_less_iff)
  then have b: "pow10 (int (?l - 1)) \<le> of_nat n" "of_nat n < pow10 (int ?l)" by (simp_all add: pow10_nat)
  have pos: "0 < (of_nat n :: rat)" using assms by simp
  note d = dec_exp_bounds [OF pos]
  have "dec_exp (of_nat n) < int ?l" using d(1) b(2) by (intro pow10_le_imp) simp
  moreover have "int (?l - 1) < dec_exp (of_nat n) + 1" using d(2) b(1) by (intro pow10_le_imp) simp
  ultimately show ?thesis using l by simp
qed

lemma first_digits_least:
  "first_digits r ks = Some (m, k) \<Longrightarrow> j \<in> set ks \<Longrightarrow> digits_at r j \<noteq> None \<Longrightarrow> sorted ks \<Longrightarrow> k \<le> j"
  by (induction ks) (auto split: option.splits)

lemma decimal_of_nat:
  assumes "0 < n" "n < 2 ^ 53" "decimal_of (of_nat n) = (ds, pt)"
  shows "int (length ds) \<le> pt \<and> pt \<le> 21 \<and> ds @ zeros (nat pt - length ds) = str_of_nat n"
proof -
  let ?r = "of_nat n :: rat" and ?l = "length (str_of_nat n)"
  have r: "to_binary64 ?r = Fin ?r" "0 < ?r" using to_binary64_int [of "int n"] assms(1,2) by simp_all
  have E: "dec_exp ?r = int ?l - 1" by (rule dec_exp_nat [OF assms(1)])
  have l: "0 < ?l" "?l \<le> 16"
    using str_of_nat_nonempty length_str_of_nat [of n 16] assms(2) by simp_all
  from repr_digits [OF r] obtain m k where m: "first_digits ?r [1..<18] = Some (m, k)" "0 < m" by blast
  from first_digits_at [OF m(1)] have k: "digits_at ?r k = Some m" "1 \<le> k" by auto
  have one: "unit_at ?l ?r = 1" by (simp add: unit_at_def E pow10_def)
  with r have "digits_at ?r ?l \<noteq> None" by (auto simp: digits_at_def Let_def)
  from first_digits_least [OF m(1) _ this] l have kl: "k \<le> ?l" by simp
  have u: "unit_at k ?r = 10 ^ (?l - k)" using kl by (simp add: unit_at_def E pow10_nat [symmetric] of_nat_diff)
  have "to_binary64 (of_int (m * 10 ^ (?l - k))) = Fin (of_int (int n))" using digits_at_ok [OF k(1)] u by simp
  then have "m * 10 ^ (?l - k) = int n" by (rule rounds_to_small) (use assms(1,2) m(2) in simp_all)
  then have "nat (m * 10 ^ (?l - k)) = n" by simp
  then have n: "n = nat m * 10 ^ (?l - k)" using m(2) by (simp add: nat_mult_distrib nat_power_eq)
  let ?s = "str_of_nat (nat m)"
  have nv: "num_val (?s @ zeros (?l - k)) = n" unfolding num_val_append num_val_str num_val_zeros length_replicate n [symmetric] by simp
  have "str_of_nat (num_val (?s @ zeros (?l - k))) = ?s @ zeros (?l - k)"
    using str_of_nat_first [of "nat m"] str_of_nat_digits str_of_nat_nonempty m(2) by (intro str_of_num_val) auto
  then have sn: "str_of_nat n = ?s @ zeros (?l - k)" unfolding nv .
  from assms(3) m have ds: "ds = strip_zeros ?s" and pt: "pt = int (length ?s) + dec_exp ?r - int k + 1"
    by (simp_all add: decimal_of_def dec_int_def)
  obtain q where q: "?s = ds @ zeros q" using strip_zeros_append ds by blast
  have "?l = length ds + q + (?l - k)" using arg_cong [OF sn, of length] q by simp
  then have "pt = int ?l" "?l - length ds = q + (?l - k)" "length ds \<le> ?l" using pt E q kl by simp_all
  with l sn q show ?thesis by (simp add: replicate_add)
qed

lemma number_of_int:
  assumes "\<bar>i\<bar> < 2 ^ 53"
  shows "number (Fin (of_int i)) = Inr (dec_int i)"
proof (cases "i = 0")
  case True
  have "dec_int 0 = ''0''" by code_simp
  with True show ?thesis by (simp add: number_def)
next
  case False
  have b: "to_binary64 (of_int i) = Fin (of_int i)" by (rule to_binary64_int [OF assms])
  obtain ds pt where d: "decimal_of \<bar>of_int i\<bar> = (ds, pt)" by (cases "decimal_of \<bar>of_int i\<bar>")
  have "\<bar>of_int i :: rat\<bar> = of_nat (nat \<bar>i\<bar>)" by simp
  from decimal_of_nat [of "nat \<bar>i\<bar>", OF _ _ d [unfolded this]] False assms
  have "int (length ds) \<le> pt" "pt \<le> 21" "ds @ zeros (nat pt - length ds) = str_of_nat (nat \<bar>i\<bar>)" by (simp_all add: nat_less_iff)
  then have "js_format sign ds pt = sign @ str_of_nat (nat \<bar>i\<bar>)" for sign by (simp add: js_format_def)
  with number_eq [OF b _ d] False show ?thesis by (simp add: dec_int_def)
qed

end
