(* ===== verification/Jcs_Props.thy ===== *)
theory Jcs_Props
  imports Jcs_Laws "HOL-Library.Multiset"
begin

text \<open>
  A reader of JSON texts, the values it distinguishes, and the two properties of canonical JSON:
  the reader gets the value back, and equal values have equal bytes.
\<close>

section \<open>The values of JSON\<close>

text \<open>What a JSON text denotes when numbers are binary64: members in the order of the text.\<close>

datatype jtree =
    JNull
  | JBool bool
  | JNum pyfloat
  | JStr string
  | JArr "jtree list"
  | JObj "(string \<times> jtree) list"

function denotes :: "pyval \<Rightarrow> jtree" where
  "denotes VNone = JNull"
| "denotes (VBool b) = JBool b"
| "denotes (VInt i) = JNum (to_binary64 (of_int i))"
| "denotes (VFloat f) = JNum f"
| "denotes (VStr s) = JStr s"
| "denotes (VList vs) = JArr (map denotes vs)"
| "denotes (VDict d) = JObj (map (\<lambda>(k, v). (k, denotes v)) (members d))"
  by pat_completeness auto

termination denotes
  by (relation "measure size") (auto dest: size_member size_item)

section \<open>The reader\<close>

text \<open>The rest of a string literal after its opening quote.\<close>

definition hex_val_of :: "char \<Rightarrow> nat option" where
  "hex_val_of c = (if is_digit c then Some (code c - 48) else if 97 \<le> code c \<and> code c \<le> 102 then Some (code c - 87) else None)"

definition unescape :: "char \<Rightarrow> char option" where
  "unescape c = (if c = QUOTE \<or> c = BS \<or> c = CHR ''/'' then Some c
     else map_option char_of (map_of [(CHR ''b'', 8 :: nat), (CHR ''t'', 9), (CHR ''n'', 10), (CHR ''f'', 12), (CHR ''r'', 13)] c))"

fun read_string :: "string \<Rightarrow> (string \<times> string) option" where
  "read_string [] = None"
| "read_string (c # s) =
    (if c = QUOTE then Some ([], s)
     else if c = BS then (case s of
         [] \<Rightarrow> None
       | x # r \<Rightarrow> if x = CHR ''u'' then (case r of
             a # b # h # l # q \<Rightarrow> (case (hex_val_of h, hex_val_of l, a = CHR ''0'' \<and> b = CHR ''0'') of
                 (Some m, Some n, True) \<Rightarrow> map_option (apfst (Cons (char_of (16 * m + n)))) (read_string q)
               | _ \<Rightarrow> None)
           | _ \<Rightarrow> None)
         else (case unescape x of None \<Rightarrow> None | Some y \<Rightarrow> map_option (apfst (Cons y)) (read_string r)))
     else if code c < 32 then None
     else map_option (apfst (Cons c)) (read_string s))"

definition read_number :: "string \<Rightarrow> (jtree \<times> string) option" where
  "read_number s = map_option (\<lambda>f. (JNum f, dropWhile num_char s)) (float_of_str (takeWhile num_char s))"

text \<open>Values, the items of an array and the members of an object; every call takes fuel.\<close>

fun read_value :: "nat \<Rightarrow> string \<Rightarrow> (jtree \<times> string) option"
  and read_items :: "nat \<Rightarrow> string \<Rightarrow> (jtree list \<times> string) option"
  and read_members :: "nat \<Rightarrow> string \<Rightarrow> ((string \<times> jtree) list \<times> string) option" where
  "read_value 0 s = None"
| "read_value (Suc n) s =
    (if startswith s ''null'' then Some (JNull, drop 4 s)
     else if startswith s ''true'' then Some (JBool True, drop 4 s)
     else if startswith s ''false'' then Some (JBool False, drop 5 s)
     else (case s of
         [] \<Rightarrow> None
       | c # r \<Rightarrow>
          if c = QUOTE then map_option (apfst JStr) (read_string r)
          else if c = CHR ''['' then (if startswith r '']'' then Some (JArr [], drop 1 r) else map_option (apfst JArr) (read_items n r))
          else if c = CHR ''{'' then (if startswith r ''}'' then Some (JObj [], drop 1 r) else map_option (apfst JObj) (read_members n r))
          else read_number s))"
| "read_items 0 s = None"
| "read_items (Suc n) s = (case read_value n s of
     None \<Rightarrow> None
   | Some (v, r) \<Rightarrow> (case r of
        [] \<Rightarrow> None
      | c # r' \<Rightarrow> if c = CHR '']'' then Some ([v], r') else if c = CHR '','' then map_option (apfst (Cons v)) (read_items n r') else None))"
| "read_members 0 s = None"
| "read_members (Suc n) s = (case s of
     [] \<Rightarrow> None
   | q # s' \<Rightarrow> if q \<noteq> QUOTE then None else (case read_string s' of
        Some (k, c # r) \<Rightarrow> if c \<noteq> CHR '':'' then None else (case read_value n r of
            Some (v, d # r') \<Rightarrow> if d = CHR ''}'' then Some ([(k, v)], r')
              else if d = CHR '','' then map_option (apfst (Cons (k, v))) (read_members n r') else None
          | _ \<Rightarrow> None)
      | _ \<Rightarrow> None))"

definition read_json :: "byte list \<Rightarrow> jtree option" where
  "read_json bs = (case utf8_read bs of
     None \<Rightarrow> None
   | Some s \<Rightarrow> (case read_value (Suc (length s)) s of Some (v, []) \<Rightarrow> Some v | _ \<Rightarrow> None))"

section \<open>Reading strings\<close>

lemma hex_digit_read: "n < 16 \<Longrightarrow> hex_val_of (hex_digit n) = Some n"
  by (simp add: hex_digit_def hex_val_of_def is_digit_def code_char)

lemma read_escape: "read_string (escape c @ s) = map_option (apfst (Cons c)) (read_string s)"
proof -
  have bs: "code BS = 92" "code QUOTE = 34" "BS \<noteq> QUOTE" by code_simp+
  have u: "unescape (CHR ''b'') = Some (char_of (8 :: nat))" "unescape (CHR ''t'') = Some (char_of (9 :: nat))"
    "unescape (CHR ''n'') = Some (char_of (10 :: nat))" "unescape (CHR ''f'') = Some (char_of (12 :: nat))"
    "unescape (CHR ''r'') = Some (char_of (13 :: nat))" "unescape QUOTE = Some QUOTE" "unescape BS = Some BS"
    by (simp_all add: unescape_def QUOTE_def BS_def)
  have nq: "CHR ''u'' \<noteq> QUOTE" "QUOTE \<noteq> CHR ''u''" "BS \<noteq> CHR ''u''" by code_simp+
  have eq: "char_of n = c" if "code c = n" for n using that by (metis char_of_char)
  have h: "16 * (code c div 16) + code c mod 16 = code c" by simp
  show ?thesis
    using bs u nq h hex_digit_read [of "code c div 16"] hex_digit_read [of "code c mod 16"]
    by (auto simp: escape_def eq split: if_splits)
qed

lemma read_string_back: "read_string (concat (map escape s) @ QUOTE # r) = Some (s, r)"
  by (induction s) (simp_all add: read_escape)

section \<open>Reading values\<close>

text \<open>Floats are binary64 numbers and keys are distinct, as in Python.\<close>

fun json_ok :: "pyval \<Rightarrow> bool" where
  "json_ok (VFloat f) = (case f of Fin r \<Rightarrow> to_binary64 r = Fin r | _ \<Rightarrow> True)"
| "json_ok (VList vs) = list_all json_ok vs"
| "json_ok (VDict d) = (distinct (map fst d) \<and> list_all (\<lambda>(k, v). json_ok v) d)"
| "json_ok _ = True"

text \<open>What may follow a value.\<close>

definition delim :: "string \<Rightarrow> bool" where
  "delim r = (r = [] \<or> \<not> num_char (hd r))"

lemma delim_simps [simp]: "delim []" "delim (CHR '','' # r)" "delim (CHR '']'' # r)" "delim (CHR ''}'' # r)"
  by (simp_all add: delim_def num_char_def is_digit_def)

definition value_start :: "string \<Rightarrow> bool" where
  "value_start t = (t \<noteq> [] \<and> (is_digit (hd t) \<or> hd t \<in> {CHR ''-'', CHR ''n'', CHR ''t'', CHR ''f'', QUOTE, CHR ''['', CHR ''{''}))"

lemma res_map_list_all2: "res_map f xs = Inr ys \<Longrightarrow> list_all2 (\<lambda>x y. f x = Inr y) xs ys"
  by (induction xs arbitrary: ys) (auto simp: res_bind_eq_Inr)

lemma number_ok: "json_ok (VFloat f) \<Longrightarrow> number f = Inr t \<Longrightarrow> number_text t \<and> float_of_str t = Some f"
  using number_reads_back by (cases f) (fastforce simp: number_def)+

lemma number_text_start: "number_text t \<Longrightarrow> value_start t"
  by (auto simp: number_text_def value_start_def)

lemma write_start:
  assumes "write_value v = Inr t" "json_ok v"
  shows "value_start t"
proof (cases v)
  case (VInt i)
  with assms(1) have "t = dec_int i" by (simp split: if_splits)
  with dec_int_reads_back show ?thesis by (simp add: number_text_start)
next
  case (VFloat f)
  with assms number_ok [of f t] show ?thesis by (simp add: number_text_start del: json_ok.simps)
qed (use assms(1) in \<open>auto simp: res_bind_eq_Inr json_string_def value_start_def split: if_splits\<close>)

lemma startswith_Cons: "startswith (c # s) (p # ps) \<longleftrightarrow> c = p \<and> startswith s ps"
  by (auto simp: startswith_def)

lemma read_number_back:
  assumes "number_text t" "float_of_str t = Some f" "delim r"
  shows "read_value (Suc n) (t @ r) = Some (JNum f, r)"
proof -
  obtain c s where t: "t = c # s" using assms(1) by (cases t) (auto simp: number_text_def)
  have c: "is_digit c \<or> c = CHR ''-''" and nc: "list_all num_char t" using assms(1) by (auto simp: t number_text_def)
  have q: "\<not> is_digit (CHR ''n'')" "\<not> is_digit (CHR ''t'')" "\<not> is_digit (CHR ''f'')" "\<not> is_digit QUOTE" "\<not> is_digit (CHR ''['')"
    "\<not> is_digit (CHR ''{'')" "QUOTE \<noteq> CHR ''-''" by code_simp+
  have "takeWhile num_char (t @ r) = t" "dropWhile num_char (t @ r) = r"
    using nc assms(3) by (cases r; auto simp: list_all_iff delim_def takeWhile_append2 dropWhile_append2)+
  then have "read_number (t @ r) = Some (JNum f, r)" using assms(2) by (simp add: read_number_def)
  with c q show ?thesis by (auto simp: t startswith_Cons)
qed

lemma read_items_back:
  assumes "list_all2 (\<lambda>v p. value_start p \<and> (\<forall>n r. delim r \<longrightarrow> length p \<le> n \<longrightarrow> read_value n (p @ r) = Some (denotes v, r))) vs ps"
    "vs \<noteq> []" "length (join_on (CHR '','') ps) < n"
  shows "read_items n (join_on (CHR '','') ps @ CHR '']'' # r) = Some (map denotes vs, r)"
  using assms
proof (induction vs ps arbitrary: n rule: list_all2_induct)
  case (Cons v vs p ps)
  obtain n' where n: "n = Suc n'" using Cons.prems(2) by (cases n) auto
  show ?case
  proof (cases ps)
    case Nil
    with Cons n show ?thesis by simp
  next
    case (Cons p' ps')
    with Cons.IH [of n'] Cons.hyps Cons.prems n have "read_items n' (join_on (CHR '','') ps @ CHR '']'' # r) = Some (map denotes vs, r)" by auto
    with Cons Cons.hyps(1) Cons.prems n show ?thesis by simp
  qed
qed simp

lemma read_members_back:
  assumes "list_all2 (\<lambda>(k, v) p. \<exists>t. p = json_string k @ CHR '':'' # t \<and>
       (\<forall>n r. delim r \<longrightarrow> length t \<le> n \<longrightarrow> read_value n (t @ r) = Some (denotes v, r))) d ps"
    "d \<noteq> []" "length (join_on (CHR '','') ps) < n"
  shows "read_members n (join_on (CHR '','') ps @ CHR ''}'' # r) = Some (map (\<lambda>(k, v). (k, denotes v)) d, r)"
  using assms
proof (induction d ps arbitrary: n rule: list_all2_induct)
  case (Cons kv d p ps)
  obtain n' where n: "n = Suc n'" using Cons.prems(2) by (cases n) auto
  obtain k v where kv: "kv = (k, v)" by (cases kv)
  with Cons.hyps(1) obtain t where p: "p = json_string k @ CHR '':'' # t"
    and t: "\<And>n r. delim r \<Longrightarrow> length t \<le> n \<Longrightarrow> read_value n (t @ r) = Some (denotes v, r)" by auto
  have len: "length t < length p" by (simp add: p json_string_def)
  have str: "read_string (concat (map escape k) @ QUOTE # x) = Some (k, x)" for x by (rule read_string_back)
  show ?case
  proof (cases ps)
    case Nil
    with Cons kv n t [of "CHR ''}'' # r" n'] len show ?thesis by (simp add: p json_string_def str)
  next
    case (Cons p' ps')
    let ?rest = "join_on (CHR '','') ps @ CHR ''}'' # r"
    from Cons Cons.IH [of n'] Cons.hyps Cons.prems n
    have "read_members n' ?rest = Some (map (\<lambda>(k, v). (k, denotes v)) d, r)" by auto
    moreover have "length t \<le> n'" using len Cons Cons.prems n by simp
    ultimately show ?thesis using t [of "CHR '','' # ?rest" n'] Cons kv n by (simp add: p json_string_def str)
  qed
qed simp

lemma join_on_start: "ps \<noteq> [] \<Longrightarrow> hd ps \<noteq> [] \<Longrightarrow> \<exists>s. join_on sep ps = hd (hd ps) # s"
  by (cases "(sep, ps)" rule: join_on.cases) (auto simp: neq_Nil_conv)

lemma read_back:
  "write_value v = Inr t \<Longrightarrow> json_ok v \<Longrightarrow> delim r \<Longrightarrow> length t \<le> n \<Longrightarrow> read_value n (t @ r) = Some (denotes v, r)"
proof (induction v arbitrary: t r n rule: write_value.induct)
  case (3 i)
  then obtain n' where "n = Suc n'" by (cases n) (auto split: if_splits)
  moreover have "t = dec_int i" using "3.prems"(1) by (simp split: if_splits)
  ultimately show ?case using dec_int_reads_back [of i] read_number_back "3.prems"(3) by (simp del: read_value.simps)
next
  case (4 f)
  then have t: "number_text t" "float_of_str t = Some f" using number_ok by simp_all
  then obtain n' where "n = Suc n'" using "4.prems"(4) by (cases n) (auto simp: number_text_def)
  with t read_number_back "4.prems"(3) show ?case by (simp del: read_value.simps)
next
  case (5 s)
  then obtain n' where n: "n = Suc n'" by (cases n) (auto simp: json_string_def)
  have "QUOTE \<noteq> CHR ''n''" "QUOTE \<noteq> CHR ''t''" "QUOTE \<noteq> CHR ''f''" by code_simp+
  moreover have "t = QUOTE # concat (map escape s) @ [QUOTE]" using "5.prems"(1) by (simp add: json_string_def)
  ultimately show ?case by (simp add: n startswith_Cons read_string_back)
next
  case (6 vs)
  then obtain ps where ps: "res_map write_value vs = Inr ps" "t = CHR ''['' # join_on (CHR '','') ps @ '']''" by (auto simp: res_bind_eq_Inr)
  then obtain n' where n: "n = Suc n'" "length (join_on (CHR '','') ps) < n'" using "6.prems"(4) by (cases n) auto
  have ok: "\<forall>v\<in>set vs. json_ok v" using "6.prems"(2) by (simp add: list_all_iff)
  note w = res_map_list_all2 [OF ps(1)]
  have items: "list_all2 (\<lambda>v p. value_start p \<and> (\<forall>n r. delim r \<longrightarrow> length p \<le> n \<longrightarrow> read_value n (p @ r) = Some (denotes v, r))) vs ps"
    using w by (rule list.rel_mono_strong) (use "6.IH" ok write_start in blast)
  have q: "CHR ''['' \<noteq> QUOTE" by code_simp
  show ?case
  proof (cases vs)
    case Nil
    with w have "ps = []" by simp
    with Nil ps n q show ?thesis by (simp add: startswith_Cons startswith_def)
  next
    case (Cons v vs')
    with w items obtain p ps' where p: "ps = p # ps'" "value_start p" by (cases ps) auto
    then obtain s where "join_on (CHR '','') ps = hd p # s" using join_on_start [of ps] by (auto simp: value_start_def)
    moreover have "hd p \<noteq> CHR '']''" using p(2) by (auto simp: value_start_def is_digit_def QUOTE_def)
    ultimately have "\<not> startswith (join_on (CHR '','') ps @ CHR '']'' # r) '']''" by (simp add: startswith_Cons)
    with read_items_back [OF items _ n(2), of r] Cons n ps q show ?thesis by (simp add: startswith_Cons)
  qed
next
  case (7 d)
  then obtain ps where ps: "res_map (\<lambda>(k, v). res_bind (write_value v) (\<lambda>t. Inr (json_string k @ CHR '':'' # t))) (members d) = Inr ps"
    "t = CHR ''{'' # join_on (CHR '','') ps @ ''}''" by (auto simp: res_bind_eq_Inr)
  then obtain n' where n: "n = Suc n'" "length (join_on (CHR '','') ps) < n'" using "7.prems"(4) by (cases n) auto
  have ok: "\<forall>(k, v)\<in>set (members d). json_ok v" using "7.prems"(2) by (simp add: list_all_iff)
  note w = res_map_list_all2 [OF ps(1)]
  have mem: "list_all2 (\<lambda>(k, v) p. \<exists>t. p = json_string k @ CHR '':'' # t \<and>
       (\<forall>n r. delim r \<longrightarrow> length t \<le> n \<longrightarrow> read_value n (t @ r) = Some (denotes v, r))) (members d) ps"
    using w by (rule list.rel_mono_strong) (use "7.IH" ok in \<open>fastforce simp: res_bind_eq_Inr\<close>)
  have q: "CHR ''{'' \<noteq> QUOTE" "QUOTE \<noteq> CHR ''}''" by code_simp+
  show ?case
  proof (cases "members d")
    case Nil
    with w have "ps = []" by simp
    with Nil ps n q show ?thesis by (simp add: startswith_Cons startswith_def)
  next
    case (Cons kv d')
    with mem obtain p ps' where p: "ps = p # ps'" "p \<noteq> []" "hd p = QUOTE" by (cases ps) (auto simp: json_string_def)
    then obtain s where "join_on (CHR '','') ps = QUOTE # s" using join_on_start [of ps] by auto
    with q have "\<not> startswith (join_on (CHR '','') ps @ CHR ''}'' # r) ''}''" by (simp add: startswith_Cons)
    with read_members_back [OF mem _ n(2), of r] Cons n ps q show ?thesis by (simp add: startswith_Cons)
  qed
qed (auto simp: startswith_Cons startswith_def neq_Nil_conv dest!: Suc_le_D split: if_splits)

section \<open>Bytes\<close>

lemma canonical_read:
  assumes "json_ok v" "canonicalize v = Inr bs"
  shows "read_json bs = Some (denotes v)"
proof -
  from assms(2) obtain t where t: "write_value v = Inr t" "bs = concat (map utf8_char t)" by (cases "write_value v") (auto simp: canonicalize_def)
  from read_back [OF t(1) assms(1), of "[]" "Suc (length t)"] t(2) show ?thesis by (simp add: read_json_def utf8_read_back del: read_value.simps)
qed

section \<open>Equal values have equal bytes\<close>

fun small_ints :: "pyval \<Rightarrow> bool" where
  "small_ints (VInt i) = (\<bar>i\<bar> < 2 ^ 53)"
| "small_ints (VList vs) = list_all small_ints vs"
| "small_ints (VDict d) = list_all (\<lambda>(k, v). small_ints v) d"
| "small_ints _ = True"

text \<open>The text of a value of JSON.\<close>

lemma size_jitem: "v \<in> set vs \<Longrightarrow> size v < size (JArr vs)"
  by (induction vs) auto

lemma size_jmember: "(k, v) \<in> set ms \<Longrightarrow> size v < size (JObj ms)"
  by (induction ms) auto

function render :: "jtree \<Rightarrow> string res" where
  "render JNull = Inr ''null''"
| "render (JBool b) = Inr (if b then ''true'' else ''false'')"
| "render (JNum f) = number f"
| "render (JStr s) = Inr (json_string s)"
| "render (JArr vs) = res_bind (res_map render vs) (\<lambda>ps. Inr (CHR ''['' # join_on (CHR '','') ps @ '']''))"
| "render (JObj ms) = res_bind (res_map (\<lambda>(k, v). res_bind (render v) (\<lambda>t. Inr (json_string k @ CHR '':'' # t))) ms)
     (\<lambda>ps. Inr (CHR ''{'' # join_on (CHR '','') ps @ ''}''))"
  by pat_completeness auto

termination render
  by (relation "measure size") (auto dest: size_jitem size_jmember)

lemma res_map_map: "res_map f (map g xs) = res_map (f \<circ> g) xs"
  by (induction xs) simp_all

lemma write_render: "small_ints v \<Longrightarrow> write_value v = render (denotes v)"
proof (induction v rule: write_value.induct)
  case (3 i)
  then have i: "\<bar>i\<bar> < 2 ^ 53" by simp
  then have "length (str_of_nat (nat \<bar>i\<bar>)) \<le> 16" by (intro length_str_of_nat) simp_all
  with i show ?case using number_of_int to_binary64_int by simp
next
  case (6 vs)
  then have "res_map write_value vs = res_map (render \<circ> denotes) vs" by (intro res_map_cong) (auto simp: list_all_iff)
  then show ?case by (simp add: res_map_map)
next
  case (7 d)
  then have "res_map (\<lambda>(k, v). res_bind (write_value v) (\<lambda>t. Inr (json_string k @ CHR '':'' # t))) (members d) =
      res_map ((\<lambda>(k, v). res_bind (render v) (\<lambda>t. Inr (json_string k @ CHR '':'' # t))) \<circ> (\<lambda>(k, v). (k, denotes v))) (members d)"
    by (intro res_map_cong) (auto simp: list_all_iff)
  then show ?case by (simp add: res_map_map)
qed simp_all

lemma utf16_units_inj: "inj utf16_units"
proof (rule injI)
  fix s t
  assume eq: "utf16_units s = utf16_units t"
  have "utf16_units s = concat (map (\<lambda>c. [0, code c]) s)" for s
    using code_less by (simp add: utf16_units_def utf16_be_def comp_def less_trans [OF code_less])
  with eq have "concat (map (\<lambda>c. [0, code c]) s) = concat (map (\<lambda>c. [0, code c]) t)" by simp
  then show "s = t"
  proof (induction s arbitrary: t)
    case (Cons c s)
    then obtain d t' where "t = d # t'" by (cases t) auto
    with Cons show ?case by simp
  qed (auto simp: concat_eq_Nil_conv)
qed

lemma members_unique:
  assumes "distinct (map fst d)" "distinct (map fst d')" "set d = set d'"
  shows "members d = members d'"
proof -
  from assms have "mset d = mset d'" by (simp add: set_eq_iff_mset_eq_distinct distinct_map)
  moreover have "inj_on (utf16_units \<circ> fst) (set d)"
    using assms(1) utf16_units_inj by (intro comp_inj_on) (auto simp: distinct_map inj_on_def inj_def)
  ultimately show ?thesis by (intro sort_key_inj_key_eq) (simp_all add: mset_sort)
qed

lemma canonical_render: "small_ints v \<Longrightarrow> canonicalize v = map_sum id (concat \<circ> map utf8_char) (render (denotes v))"
  by (simp add: canonicalize_def write_render)

lemma canonical_dict:
  assumes "distinct (map fst d)" "distinct (map fst d')" "set d = set d'"
  shows "canonicalize (VDict d) = canonicalize (VDict d')"
  using members_unique [OF assms] by (simp add: canonicalize_def)

text \<open>Above 53 bits an integer is written in full: two that JSON does not distinguish are written differently.\<close>

lemma big_ints_differ:
  "denotes (VInt (2 ^ 54)) = denotes (VInt (2 ^ 54 + 1)) \<and> canonicalize (VInt (2 ^ 54)) \<noteq> canonicalize (VInt (2 ^ 54 + 1))"
proof
  have r: "to_binary64 x = Fin 18014398509481984" if "x = 18014398509481984 \<or> x = 18014398509481985" for x
  proof -
    have "ulp_exp x = 2" using that by (intro ulp_exp_unique) (auto simp: pow2_def)
    with that show ?thesis using to_binary64_at [of x 2 4503599627370496] by (auto simp: pow2_def)
  qed
  then show "denotes (VInt (2 ^ 54)) = denotes (VInt (2 ^ 54 + 1))" by simp
  obtain s t where st: "s = str_of_nat 18014398509481984" "t = str_of_nat 18014398509481985" by blast
  then have "length s \<le> 17" "length t \<le> 17" by (simp_all add: length_str_of_nat)
  then have w: "write_value (VInt (2 ^ 54)) = Inr s" "write_value (VInt (2 ^ 54 + 1)) = Inr t"
    by (simp_all add: st dec_int_def)
  have "s \<noteq> t" unfolding st using str_of_nat_inj [of 18014398509481984 18014398509481985] by auto
  then have "utf8_read (concat (map utf8_char s)) \<noteq> utf8_read (concat (map utf8_char t))" by (simp add: utf8_read_back)
  with w show "canonicalize (VInt (2 ^ 54)) \<noteq> canonicalize (VInt (2 ^ 54 + 1))" by (auto simp: canonicalize_def)
qed

section \<open>Properties\<close>

text \<open>
  C26. Canonical bytes hold the whole value. Reading the canonical bytes of a value as JSON, with
  numbers as binary64, gives the value back: every member, string and number, the shortest
  decimal of every float included. So two values with the same bytes, and hence the same hashed
  content, are the same JSON value.
\<close>

theorem canonical_round_trip:
  assumes "json_ok v" and "canonicalize v = Inr bs"
  shows "read_json bs = Some (denotes v) \<and> (\<forall>w. json_ok w \<and> canonicalize w = Inr bs \<longrightarrow> denotes w = denotes v)"
  using canonical_read [OF assms] canonical_read by (metis option.inject)

definition limits_doc :: pyval where
  "limits_doc = VDict [(''v'', VFloat (Fin 5)), (''n'', VList [VInt (-3), VNone, VStr [CHR 0x22, CHR 0xE9]])]"

definition limits_doc' :: pyval where
  "limits_doc' = VDict [(''n'', VList [VFloat (Fin (-3)), VNone, VStr [CHR 0x22, CHR 0xE9]]), (''v'', VInt 5)]"

lemma limits_doc_facts:
  "json_ok limits_doc" "json_ok limits_doc'" "small_ints limits_doc" "small_ints limits_doc'"
  "denotes limits_doc = denotes limits_doc'" "\<exists>bs. canonicalize limits_doc = Inr bs"
proof -
  have k: "utf16_units ''n'' < utf16_units ''v''" by (simp add: utf16_units_def utf16_be_def)
  have len: "length (str_of_nat 3) = 1" by code_simp
  have i: "to_binary64 5 = Fin 5" "to_binary64 (-3) = Fin (-3)"
    using to_binary64_int [of 5] to_binary64_int [of "-3"] by simp_all
  then show "json_ok limits_doc" "json_ok limits_doc'" "small_ints limits_doc" "small_ints limits_doc'"
    by (simp_all add: limits_doc_def limits_doc'_def)
  show "denotes limits_doc = denotes limits_doc'" using k i
    by (simp add: limits_doc_def limits_doc'_def sort_key_def order.strict_implies_order not_le)
  have "number (Fin 5) = Inr (dec_int 5)" using number_of_int [of 5] by simp
  then have "\<exists>t. write_value limits_doc = Inr t" using len
    by (simp add: limits_doc_def sort_key_def)
  then show "\<exists>bs. canonicalize limits_doc = Inr bs" by (auto simp: canonicalize_def)
qed

theorem canonical_round_trip_witness:
  "\<exists>bs. canonicalize limits_doc = Inr bs \<and> read_json bs = Some (denotes limits_doc)"
  using canonical_round_trip [OF limits_doc_facts(1)] limits_doc_facts(6) by blast

text \<open>
  C27. The canonical form is canonical. Two values whose integers have at most 53 bits have the
  same canonical bytes exactly when they are the same JSON value: the order in which the keys of
  an object were inserted does not matter, nor does writing a whole number as an integer or as a
  float, and nothing else is identified. A value that has no canonical form (a NaN or an
  infinity in it) has the same error as any other with the same meaning.
\<close>

theorem canonical_equal:
  assumes "json_ok v" "json_ok w" and "small_ints v" "small_ints w"
  shows "(denotes v = denotes w \<longrightarrow> canonicalize v = canonicalize w) \<and>
         (canonicalize v = Inr bs \<and> canonicalize w = Inr bs \<longrightarrow> denotes v = denotes w)"
proof (intro conjI impI)
  show "canonicalize v = canonicalize w" if "denotes v = denotes w" using canonical_render assms(3,4) that by simp
  show "denotes v = denotes w" if "canonicalize v = Inr bs \<and> canonicalize w = Inr bs"
    using canonical_read [OF assms(1)] canonical_read [OF assms(2)] that by (metis option.inject)
qed

theorem canonical_equal_witness: "canonicalize limits_doc = canonicalize limits_doc'"
  using canonical_equal [OF limits_doc_facts(1,2,3,4)] limits_doc_facts(5) by blast

end
