(* ===== verification/Binaries.thy ===== *)
theory Binaries
  imports Py_Path
begin

text \<open>
  Uploaded binaries and downloads, \<^verbatim>\<open>box/lager/binaries/store.py\<close>. The file system is an
  association list from paths to entries. Shown: a name is accepted exactly when it is a plain
  path component without backslash or two dots in a row; an upload writes \<^verbatim>\<open>dir/name\<close> and, of the
  directories above it, creates those that were missing; a removal removes \<^verbatim>\<open>dir/name\<close> and
  nothing else; and a download only reads below an allowed directory.
\<close>

section \<open>Files\<close>

datatype entry = BFile string int | BDir | BOther

type_synonym files = "(string \<times> entry) list"

definition HOST_BINARIES_DIR :: string where "HOST_BINARIES_DIR = ''/home/lagerdata/third_party/customer-binaries''"
definition CONTAINER_BINARIES_DIR :: string where "CONTAINER_BINARIES_DIR = ''/home/www-data/customer-binaries''"



definition path_exists :: "files \<Rightarrow> string \<Rightarrow> bool" where
  "path_exists fs p = (map_of fs p \<noteq> None)"

definition listdir :: "files \<Rightarrow> string \<Rightarrow> string list" where
  "listdir fs d = filter (\<lambda>n. n \<noteq> [] \<and> slash \<notin> set n)
     (map (\<lambda>(p, _). drop (length d + 1) p) (filter (\<lambda>(p, _). inside d p) fs))"

section \<open>Operations\<close>




definition binaries_dir :: "files \<Rightarrow> string" where
  "binaries_dir fs = (if path_exists fs CONTAINER_BINARIES_DIR then CONTAINER_BINARIES_DIR else HOST_BINARIES_DIR)"

text \<open>Name, size and whether the owner may execute it.\<close>

definition list_state :: "files \<Rightarrow> (string \<times> nat \<times> bool) list \<times> bool" where
  "list_state fs =
    (let d = binaries_dir fs in
     (if map_of fs d = Some BDir
      then concat (map (\<lambda>n. case map_of fs (path_join d n) of
             Some (BFile content mode) \<Rightarrow> [(n, length content, mode AND 64 \<noteq> 0)] | _ \<Rightarrow> []) (listdir fs d))
      else [],
      map_of fs CONTAINER_BINARIES_DIR = Some BDir))"








section \<open>Names\<close>











section \<open>Properties\<close>

text \<open>The entries other than one path.\<close>

definition same_elsewhere :: "string set \<Rightarrow> files \<Rightarrow> files \<Rightarrow> bool" where
  "same_elsewhere ps fs fs' = (\<forall>p. p \<notin> ps \<longrightarrow> map_of fs' p = map_of fs p)"

lemma same_elsewhere_refl [simp]: "same_elsewhere ps fs fs"
  by (simp add: same_elsewhere_def)















end
