(* ===== verification/Iso_Time.thy ===== *)
theory Iso_Time
  imports Py_Builtins
begin

text \<open>
  Clock readings and the ISO 8601 texts the lock file carries. A reading of
  \<^verbatim>\<open>datetime.now(timezone.utc)\<close> is an integer number of microseconds since 1970; the
  proleptic Gregorian calendar is computed as CPython's \<^verbatim>\<open>datetime\<close> does. The model
  of \<^verbatim>\<open>datetime.fromisoformat\<close> covers the calendar-date forms (\<^verbatim>\<open>YYYY-MM-DD\<close> and
  \<^verbatim>\<open>YYYYMMDD\<close>, any one-character separator, a time of day with or without colons and
  fraction, an offset or \<^verbatim>\<open>Z\<close>); ISO week dates are read as invalid.

  \<open>parse_iso_now_utc_iso\<close> is the round trip that the lock's expiry rests on: the time
  stamp that is written is read back as the same second.
\<close>

section \<open>The calendar\<close>

definition is_leap :: "int \<Rightarrow> bool" where
  "is_leap y = (y mod 4 = 0 \<and> (y mod 100 \<noteq> 0 \<or> y mod 400 = 0))"

definition days_before_year :: "int \<Rightarrow> int" where
  "days_before_year y = (let p = y - 1 in p * 365 + p div 4 - p div 100 + p div 400)"

definition month_starts :: "int list" where
  "month_starts = [0, 0, 31, 59, 90, 120, 151, 181, 212, 243, 273, 304, 334]"

definition month_lengths :: "int list" where
  "month_lengths = [0, 31, 28, 31, 30, 31, 30, 31, 31, 30, 31, 30, 31]"

definition days_before_month :: "bool \<Rightarrow> int \<Rightarrow> int" where
  "days_before_month leap m = month_starts ! nat m + (if m > 2 \<and> leap then 1 else 0)"

definition days_in_month :: "bool \<Rightarrow> int \<Rightarrow> int" where
  "days_in_month leap m = month_lengths ! nat m + (if m = 2 \<and> leap then 1 else 0)"

definition ymd2ord :: "int \<Rightarrow> int \<Rightarrow> int \<Rightarrow> int" where
  "ymd2ord y m d = days_before_year y + days_before_month (is_leap y) m + d"

definition month_day :: "bool \<Rightarrow> int \<Rightarrow> int \<times> int" where
  "month_day leap r = (let m = (r + 50) div 32; pre = days_before_month leap m in
     if pre > r then (m - 1, r - (pre - days_in_month leap (m - 1)) + 1)
     else (m, r - pre + 1))"

definition ord2ymd :: "int \<Rightarrow> int \<times> int \<times> int" where
  "ord2ymd n = (let n0 = n - 1;
      n400 = n0 div 146097; r400 = n0 mod 146097;
      n100 = r400 div 36524; r100 = r400 mod 36524;
      n4 = r100 div 1461; r4 = r100 mod 1461;
      n1 = r4 div 365; r1 = r4 mod 365;
      year = n400 * 400 + 1 + n100 * 100 + n4 * 4 + n1
    in if n1 = 4 \<or> n100 = 4 then (year - 1, 12, 31)
       else (case month_day (n1 = 3 \<and> (n4 \<noteq> 24 \<or> n100 = 3)) r1 of (m, d) \<Rightarrow> (year, m, d)))"

definition valid_md :: "bool \<Rightarrow> int \<Rightarrow> int \<Rightarrow> bool" where
  "valid_md leap m d = (1 \<le> m \<and> m \<le> 12 \<and> 1 \<le> d \<and> d \<le> days_in_month leap m)"

text \<open>The day of the year and (month, day): a check of the 365 and the 366 days.\<close>

definition month_day_ok :: "bool \<Rightarrow> int \<Rightarrow> bool" where
  "month_day_ok leap r = (case month_day leap r of (m, d) \<Rightarrow>
     days_before_month leap m + d = r + 1 \<and> valid_md leap m d)"

lemma month_day_table:
  "list_all (month_day_ok False) (map int [0..<365])"
  "list_all (month_day_ok True) (map int [0..<366])"
  by code_simp+

lemma month_day_correct:
  assumes "0 \<le> r" and "r < (if leap then 366 else 365)"
  shows "month_day_ok leap r"
proof -
  have "r \<in> set (map int [0..<(if leap then 366 else 365)])"
    using assms by (auto simp: image_iff intro: bexI [of _ "nat r"])
  with month_day_table show ?thesis by (cases leap) (auto simp: list_all_iff)
qed

text \<open>The leap-year rule and the days before a year, in terms of the mixed-radix digits.\<close>

lemma days_before_year_digits:
  assumes "0 \<le> b" "b < 4" "0 \<le> c" "c < 25" "0 \<le> d" "d < 4"
  shows "days_before_year (400 * a + 100 * b + 4 * c + d + 1) =
           146097 * a + 36524 * b + 1461 * c + 365 * d"
proof -
  have "(400 * a + 100 * b + 4 * c + d) div 4 = 100 * a + 25 * b + c"
    using assms by (intro int_div_pos_eq [where r = d]) auto
  moreover have "(400 * a + 100 * b + 4 * c + d) div 100 = 4 * a + b"
    using assms by (intro int_div_pos_eq [where r = "4 * c + d"]) auto
  moreover have "(400 * a + 100 * b + 4 * c + d) div 400 = a"
    using assms by (intro int_div_pos_eq [where r = "100 * b + 4 * c + d"]) auto
  ultimately show ?thesis by (simp add: days_before_year_def Let_def)
qed

lemma is_leap_digits:
  assumes "0 \<le> b" "b < 4" "0 \<le> c" "c < 25" "0 \<le> d" "d < 4"
  shows "is_leap (400 * a + 100 * b + 4 * c + d + 1) \<longleftrightarrow> d = 3 \<and> (c \<noteq> 24 \<or> b = 3)"
proof -
  let ?y = "400 * a + 100 * b + 4 * c + d + 1"
  have 1: "?y mod 4 = (if d = 3 then 0 else d + 1)"
    using assms by (intro int_mod_pos_eq [where q = "100 * a + 25 * b + c + (if d = 3 then 1 else 0)"])
      auto
  have 2: "?y mod 100 = (if c = 24 \<and> d = 3 then 0 else 4 * c + d + 1)"
    using assms by (intro int_mod_pos_eq [where q = "4 * a + b + (if c = 24 \<and> d = 3 then 1 else 0)"])
      auto
  have 3: "?y mod 400 = (if b = 3 \<and> c = 24 \<and> d = 3 then 0 else 100 * b + 4 * c + d + 1)"
    using assms by (intro int_mod_pos_eq [where q = "a + (if b = 3 \<and> c = 24 \<and> d = 3 then 1 else 0)"])
      auto
  show ?thesis using assms by (auto simp: is_leap_def 1 2 3)
qed

definition date_ok :: "int \<Rightarrow> int \<times> int \<times> int \<Rightarrow> bool" where
  "date_ok n ymd = (case ymd of (y, m, d) \<Rightarrow> ymd2ord y m d = n \<and> valid_md (is_leap y) m d)"

lemma date_ok_year_end:
  assumes "0 \<le> b" "b < 4" "0 \<le> c" "c < 25" "c \<noteq> 24 \<or> b = 3"
  shows "date_ok (146097 * a + 36524 * b + 1461 * c + 1461)
                 (400 * a + 100 * b + 4 * c + 4, 12, 31)"
  using days_before_year_digits [of b c 3 a] is_leap_digits [of b c 3 a] assms
  by (simp add: date_ok_def ymd2ord_def valid_md_def days_before_month_def days_in_month_def
      month_starts_def month_lengths_def add.commute add.left_commute)

lemma ord2ymd_correct: "date_ok n (ord2ymd n)"
proof -
  define n0 a r400 b r100 c r4 d r1 where defs: "n0 = n - 1" "a = n0 div 146097"
    "r400 = n0 mod 146097" "b = r400 div 36524" "r100 = r400 mod 36524" "c = r100 div 1461"
    "r4 = r100 mod 1461" "d = r4 div 365" "r1 = r4 mod 365"
  have n0: "n0 = 146097 * a + r400" and r400: "0 \<le> r400" "r400 < 146097" by (auto simp: defs)
  have r400e: "r400 = 36524 * b + r100" and r100: "0 \<le> r100" "r100 < 36524" by (auto simp: defs)
  have r100e: "r100 = 1461 * c + r4" and r4: "0 \<le> r4" "r4 < 1461" by (auto simp: defs)
  have r4e: "r4 = 365 * d + r1" and r1: "0 \<le> r1" "r1 < 365" by (auto simp: defs)
  have b: "0 \<le> b" "b \<le> 4" and c: "0 \<le> c" "c < 25" and d: "0 \<le> d" "d \<le> 4"
    using r400 r400e r100 r100e r4 r4e r1 by linarith+
  show ?thesis
  proof (cases "d = 4 \<or> b = 4")
    case True
    then have o: "ord2ymd n = (a * 400 + b * 100 + c * 4 + d, 12, 31)"
      by (simp add: ord2ymd_def Let_def flip: defs)
    show ?thesis
    proof (cases "b = 4")
      case True
      with r400 r400e r100 have "r100 = 0" by linarith
      with r100e r4 c have "c = 0" "r4 = 0" by linarith+
      with r4e r1 d have "d = 0" "r1 = 0" by linarith+
      note z = \<open>c = 0\<close> this
      from z True o n0 r400e r100e r4e defs(1) show ?thesis
        using date_ok_year_end [of 3 24 a] by (simp add: algebra_simps)
    next
      case False
      with True r1 r4 r4e have "d = 4" "r1 = 0" by linarith+
      moreover from this r100 r100e r4e have "c \<noteq> 24" by linarith
      ultimately show ?thesis
        using False o n0 r400e r100e r4e defs(1) b c date_ok_year_end [of b c a]
        by (simp add: algebra_simps)
    qed
  next
    case False
    with b d have b': "b < 4" and d': "d < 4" by linarith+
    let ?y = "400 * a + 100 * b + 4 * c + d + 1"
    have l: "is_leap ?y \<longleftrightarrow> d = 3 \<and> (c \<noteq> 24 \<or> b = 3)"
      and dby: "days_before_year ?y = 146097 * a + 36524 * b + 1461 * c + 365 * d"
      using is_leap_digits days_before_year_digits b b' c d d' by auto
    have "month_day_ok (is_leap ?y) r1"
      using month_day_correct r1 by (cases "is_leap ?y") auto
    moreover have "ord2ymd n = (case month_day (is_leap ?y) r1 of (m, x) \<Rightarrow> (?y, m, x))"
      using False l by (simp add: ord2ymd_def Let_def algebra_simps flip: defs)
    ultimately show ?thesis
      using dby n0 r400e r100e r4e defs(1)
      by (auto simp: month_day_ok_def date_ok_def ymd2ord_def split: prod.splits)
  qed
qed

subsection \<open>The years of the dates\<close>

lemma days_before_year_mono: "y \<le> y' \<Longrightarrow> days_before_year y \<le> days_before_year y'"
proof -
  assume "y \<le> y'"
  define p p' where pp: "p = y - 1" "p' = y' - 1"
  then have le: "p \<le> p'" using \<open>y \<le> y'\<close> by simp
  then have q: "p div 4 \<le> p' div 4" by (rule zdiv_mono1) simp
  have "q - q div 25 \<le> q' - q' div 25" if "q \<le> q'" for q q' :: int
  proof (cases "q = q'")
    case False
    have "25 * (q' div 25) \<le> q'" "q < 25 * (q div 25) + 25"
      using pos_mod_bound [of 25 q] pos_mod_sign [of 25 q'] div_mult_mod_eq [of q 25]
        div_mult_mod_eq [of q' 25] by linarith+
    with that False show ?thesis by linarith
  qed simp
  moreover have dd: "k div 100 = k div 4 div 25" for k :: int
    using zdiv_zmult2_eq [of 25 k 4] by simp
  ultimately have "p div 4 - p div 100 \<le> p' div 4 - p' div 100"
    using q by (simp only: dd)
  moreover have "p div 400 \<le> p' div 400" using le by (rule zdiv_mono1) simp
  ultimately show ?thesis using le by (simp add: days_before_year_def Let_def flip: pp)
qed

lemma month_cases:
  assumes "1 \<le> (m::int)" and "m \<le> 12"
  shows "m \<in> {1, 2, 3, 4, 5, 6, 7, 8, 9, 10, 11, 12}"
  using assms by (simp, presburger)

lemma day_of_year_le:
  assumes "valid_md leap m d"
  shows "0 < days_before_month leap m + d" and "days_before_month leap m + d \<le> 366"
    and "d \<le> 31" and "1 \<le> d"
proof -
  from assms have "1 \<le> m" "m \<le> 12" and d: "1 \<le> d" "d \<le> days_in_month leap m"
    by (auto simp: valid_md_def)
  from month_cases [OF this(1,2)] d
  have "0 < days_before_month leap m + d \<and> days_before_month leap m + d \<le> 366 \<and> d \<le> 31 \<and> 1 \<le> d"
    by (auto simp: days_before_month_def days_in_month_def month_starts_def month_lengths_def
        split: if_splits)
  then show "0 < days_before_month leap m + d" "days_before_month leap m + d \<le> 366"
    "d \<le> 31" "1 \<le> d" by auto
qed

lemma year_range:
  assumes "date_ok n (y, m, d)" and "1 \<le> n" and "n \<le> 3652059"
  shows "1 \<le> y" and "y \<le> 9999"
proof -
  from assms(1) have n: "days_before_year y + (days_before_month (is_leap y) m + d) = n"
    and v: "valid_md (is_leap y) m d" by (auto simp: date_ok_def ymd2ord_def)
  note doy = day_of_year_le(1,2) [OF v]
  show "1 \<le> y"
  proof (rule ccontr)
    assume "\<not> 1 \<le> y"
    then have "days_before_year y \<le> days_before_year 0" by (intro days_before_year_mono) simp
    also have "\<dots> = - 366" by (simp add: days_before_year_def)
    finally show False using n doy assms(2) by linarith
  qed
  show "y \<le> 9999"
  proof (rule ccontr)
    assume "\<not> y \<le> 9999"
    then have "days_before_year 10000 \<le> days_before_year y" by (intro days_before_year_mono) simp
    moreover have "days_before_year 10000 = 3652059" by (simp add: days_before_year_def)
    ultimately show False using n doy assms(3) by linarith
  qed
qed

section \<open>Writing a time stamp\<close>

definition digit_char :: "int \<Rightarrow> char" where
  "digit_char k = char_of (48 + nat k)"

definition pad2 :: "int \<Rightarrow> string" where
  "pad2 n = [digit_char (n div 10), digit_char (n mod 10)]"

definition pad4 :: "int \<Rightarrow> string" where
  "pad4 n = pad2 (n div 100) @ pad2 (n mod 100)"

definition usec :: int where
  "usec = 1000000"

definition epoch_ord :: int where
  "epoch_ord = 719163"

text \<open>\<^verbatim>\<open>_now_utc_iso\<close>: the reading \<open>t\<close> in the format \<^verbatim>\<open>%Y-%m-%dT%H:%M:%SZ\<close>.\<close>

definition now_utc_iso :: "int \<Rightarrow> string" where
  "now_utc_iso t = (let s = t div usec; sod = s mod 86400 in
     case ord2ymd (epoch_ord + s div 86400) of (y, m, d) \<Rightarrow>
       pad4 y @ ''-'' @ pad2 m @ ''-'' @ pad2 d @ ''T'' @ pad2 (sod div 3600) @ '':'' @
       pad2 (sod mod 3600 div 60) @ '':'' @ pad2 (sod mod 60) @ ''Z'')"

section \<open>Reading a time stamp\<close>

fun take_digits :: "nat \<Rightarrow> int \<Rightarrow> string \<Rightarrow> (int \<times> string) option" where
  "take_digits 0 acc s = Some (acc, s)"
| "take_digits (Suc k) acc [] = None"
| "take_digits (Suc k) acc (c # cs) =
     (if is_digit c then take_digits k (10 * acc + int (digit_val c)) cs else None)"

definition parse_frac :: "string \<Rightarrow> int option" where
  "parse_frac s = (case s of
      [] \<Rightarrow> Some 0
    | c # ds \<Rightarrow>
        if c \<in> {CHR ''.'', CHR '',''} \<and> ds \<noteq> [] \<and> list_all is_digit ds
        then map_option fst (take_digits 6 0 (ds @ replicate (6 - length ds) (CHR ''0'')))
        else None)"

text \<open>\<^verbatim>\<open>HH[:MM[:SS[.f+]]]\<close>, or the same without colons: hour, minute, second, microsecond.\<close>

definition parse_hms :: "string \<Rightarrow> (int \<times> int \<times> int \<times> int) option" where
  "parse_hms s = (case take_digits 2 0 s of None \<Rightarrow> None | Some (h, s1) \<Rightarrow>
     if s1 = [] then Some (h, 0, 0, 0)
     else let sep = (hd s1 = CHR '':'') in
       (case take_digits 2 0 (if sep then tl s1 else s1) of None \<Rightarrow> None | Some (m, s2) \<Rightarrow>
         if s2 = [] then Some (h, m, 0, 0)
         else if sep \<and> hd s2 \<noteq> CHR '':'' then None
         else (case take_digits 2 0 (if sep then tl s2 else s2) of None \<Rightarrow> None | Some (x, s3) \<Rightarrow>
           (case parse_frac s3 of None \<Rightarrow> None | Some us \<Rightarrow> Some (h, m, x, us)))))"

definition hms_usec :: "int \<times> int \<times> int \<times> int \<Rightarrow> int" where
  "hms_usec q = (case q of (h, m, s, us) \<Rightarrow> ((h * 60 + m) * 60 + s) * usec + us)"

definition parse_date :: "string \<Rightarrow> (int \<times> string) option" where
  "parse_date s = (case take_digits 4 0 s of None \<Rightarrow> None | Some (y, s1) \<Rightarrow>
     let sep = (s1 \<noteq> [] \<and> hd s1 = CHR ''-'') in
     (case take_digits 2 0 (if sep then tl s1 else s1) of None \<Rightarrow> None | Some (m, s2) \<Rightarrow>
       if sep \<and> (s2 = [] \<or> hd s2 \<noteq> CHR ''-'') then None
       else (case take_digits 2 0 (if sep then tl s2 else s2) of None \<Rightarrow> None | Some (d, s3) \<Rightarrow>
         if 1 \<le> y \<and> valid_md (is_leap y) m d then Some (ymd2ord y m d, s3) else None)))"

datatype pydt = Aware int | Naive int

definition is_tz :: "char \<Rightarrow> bool" where
  "is_tz c = (c \<in> {CHR ''+'', CHR ''-'', CHR ''Z''})"

definition fromisoformat :: "string \<Rightarrow> pydt option" where
  "fromisoformat s = (case parse_date s of None \<Rightarrow> None | Some (n, rest) \<Rightarrow>
     let day = (n - epoch_ord) * 86400 * usec in
     (case rest of [] \<Rightarrow> Some (Naive day) | _ # ts \<Rightarrow>
       (case parse_hms (takeWhile (\<lambda>c. \<not> is_tz c) ts) of None \<Rightarrow> None | Some (h, m, x, us) \<Rightarrow>
         if h \<ge> 24 \<or> m \<ge> 60 \<or> x \<ge> 60 then None
         else let loc = day + hms_usec (h, m, x, us) in
           (case dropWhile (\<lambda>c. \<not> is_tz c) ts of
              [] \<Rightarrow> Some (Naive loc)
            | z # zs \<Rightarrow>
                if z = CHR ''Z'' then (if zs = [] then Some (Aware loc) else None)
                else (case parse_hms zs of None \<Rightarrow> None | Some q \<Rightarrow>
                  let off = hms_usec q in
                  if off \<ge> 86400 * usec then None
                  else Some (Aware (loc - (if z = CHR ''-'' then - off else off))))))))"

text \<open>
  \<^verbatim>\<open>_parse_iso\<close>. A falsy value is no date; \<^verbatim>\<open>value.endswith\<close> on a truthy value that
  is not a string raises \<^verbatim>\<open>AttributeError\<close>, which the handler does not catch.
\<close>

definition parse_iso :: "pyval \<Rightarrow> pydt option res" where
  "parse_iso v = (if \<not> truthy v then Inr None else
     (case v of VStr s \<Rightarrow>
        Inr (fromisoformat (if endswith s ''Z'' then butlast s @ ''+00:00'' else s))
      | _ \<Rightarrow> Inl AttributeError))"

lemma parse_iso_Z [simp]: "parse_iso (VStr (b @ ''Z'')) = Inr (fromisoformat (b @ ''+00:00''))"
  by (simp add: parse_iso_def)

section \<open>The round trip\<close>

lemma code_digit_char: "0 \<le> k \<Longrightarrow> k < 10 \<Longrightarrow> code (digit_char k) = 48 + nat k"
  by (simp add: digit_char_def of_char_of)

lemma digit_char_digit [simp]:
  "0 \<le> k \<Longrightarrow> k < 10 \<Longrightarrow> is_digit (digit_char k)"
  "0 \<le> k \<Longrightarrow> k < 10 \<Longrightarrow> int (digit_val (digit_char k)) = k"
  by (simp_all add: is_digit_def digit_val_def code_digit_char)

lemma digit_char_not_tz [simp]: "0 \<le> k \<Longrightarrow> k < 10 \<Longrightarrow> \<not> is_tz (digit_char k)"
proof
  assume k: "0 \<le> k" "k < 10" and "is_tz (digit_char k)"
  then have "code (digit_char k) \<in> {43, 45, 90}" by (auto simp: is_tz_def)
  with code_digit_char [OF k] k show False by auto
qed

lemma take_digits_pad2 [simp]:
  "0 \<le> n \<Longrightarrow> n < 100 \<Longrightarrow> take_digits 2 a (pad2 n @ s) = Some (100 * a + n, s)"
  by (simp add: pad2_def numeral_2_eq_2)

lemma take_digits_add:
  "take_digits (j + k) a s =
     (case take_digits j a s of None \<Rightarrow> None | Some (b, r) \<Rightarrow> take_digits k b r)"
  by (induction j a s rule: take_digits.induct) auto

lemma take_digits_pad4 [simp]:
  "0 \<le> n \<Longrightarrow> n < 10000 \<Longrightarrow> take_digits 4 0 (pad4 n @ s) = Some (n, s)"
  using take_digits_add [of 2 2 0 "pad4 n @ s"] by (simp add: pad4_def)

lemma pad2_not_tz [simp]: "0 \<le> n \<Longrightarrow> n < 100 \<Longrightarrow> c \<in> set (pad2 n) \<Longrightarrow> \<not> is_tz c"
  by (auto simp: pad2_def)

lemma parse_hms_pad2:
  assumes "0 \<le> h" "h < 100" "0 \<le> m" "m < 100" "0 \<le> x" "x < 100"
  shows "parse_hms (pad2 h @ '':'' @ pad2 m @ '':'' @ pad2 x) = Some (h, m, x, 0)"
  using assms take_digits_pad2 [of x 0 "[]"]
  by (simp add: parse_hms_def parse_frac_def)

lemma fromisoformat_utc:
  assumes date: "date_ok n (y, mo, d)" and n: "1 \<le> n" "n \<le> 3652059"
    and t: "0 \<le> h" "h < 24" "0 \<le> mi" "mi < 60" "0 \<le> x" "x < 60"
  shows "fromisoformat (pad4 y @ ''-'' @ pad2 mo @ ''-'' @ pad2 d @ ''T'' @
           (pad2 h @ '':'' @ pad2 mi @ '':'' @ pad2 x) @ ''+00:00'') =
         Some (Aware ((n - epoch_ord) * 86400 * usec + hms_usec (h, mi, x, 0)))"
proof -
  have y: "1 \<le> y" "y \<le> 9999" using year_range [OF date n] by auto
  have v: "valid_md (is_leap y) mo d" and no: "ymd2ord y mo d = n"
    using date by (auto simp: date_ok_def)
  have md: "1 \<le> mo" "mo \<le> 12" "1 \<le> d" "d \<le> 31"
    using v day_of_year_le [OF v] by (auto simp: valid_md_def)
  let ?tm = "pad2 h @ '':'' @ pad2 mi @ '':'' @ pad2 x"
  have tz: "\<not> is_tz c" if "c \<in> set ?tm" for c
    using that t by (auto simp: is_tz_def [of "CHR '':''"])
  have "parse_date (pad4 y @ ''-'' @ pad2 mo @ ''-'' @ pad2 d @ ''T'' @ ?tm @ ''+00:00'') =
          Some (n, ''T'' @ ?tm @ ''+00:00'')"
    using y md v no by (simp add: parse_date_def)
  moreover have "takeWhile (\<lambda>c. \<not> is_tz c) (?tm @ ''+00:00'') = ?tm"
    using tz by (subst takeWhile_append2) (auto simp: is_tz_def)
  moreover have "dropWhile (\<lambda>c. \<not> is_tz c) (?tm @ ''+00:00'') = ''+00:00''"
    using tz by (subst dropWhile_append2) (auto simp: is_tz_def)
  moreover have "parse_hms ''00:00'' = Some (0, 0, 0, 0)" by code_simp
  moreover have "parse_hms ?tm = Some (h, mi, x, 0)" using parse_hms_pad2 t by simp
  ultimately show ?thesis using t by (simp add: fromisoformat_def hms_usec_def usec_def)
qed

lemma sexagesimal: "(a::int) = b * 60 + c \<Longrightarrow> h * 3600 + a = s \<Longrightarrow> (h * 60 + b) * 60 + c = s"
  by simp

text \<open>The range of the clock: from 1970 to the end of the year 9999.\<close>

definition clock_ok :: "int \<Rightarrow> bool" where
  "clock_ok t = (0 \<le> t \<and> t < 253402300800 * usec)"

theorem parse_iso_now_utc_iso:
  assumes "clock_ok t"
  shows "parse_iso (VStr (now_utc_iso t)) = Inr (Some (Aware (t - t mod usec)))"
proof -
  define s where "s = t div usec"
  define sod where "sod = s mod 86400"
  define n where "n = epoch_ord + s div 86400"
  obtain y mo d where ymd: "ord2ymd n = (y, mo, d)" by (cases "ord2ymd n") auto
  have s: "0 \<le> s" "s < 253402300800"
    using assms by (auto simp: clock_ok_def s_def usec_def)
  then have n: "1 \<le> n" "n \<le> 3652059" by (auto simp: n_def epoch_ord_def)
  have date: "date_ok n (y, mo, d)" using ord2ymd_correct [of n] ymd by simp
  have sod: "0 \<le> sod" "sod < 86400" by (auto simp: sod_def)
  let ?h = "sod div 3600" and ?m = "sod mod 3600 div 60" and ?x = "sod mod 60"
  have hms: "0 \<le> ?h" "?h < 24" "0 \<le> ?m" "?m < 60" "0 \<le> ?x" "?x < 60"
    using sod by auto
  let ?body = "pad4 y @ ''-'' @ pad2 mo @ ''-'' @ pad2 d @ ''T'' @
                 (pad2 ?h @ '':'' @ pad2 ?m @ '':'' @ pad2 ?x)"
  have iso: "now_utc_iso t = ?body @ ''Z''"
    using ymd by (simp add: now_utc_iso_def Let_def s_def n_def sod_def)
  have eq: "parse_iso (VStr (now_utc_iso t)) = Inr (fromisoformat (?body @ ''+00:00''))"
    unfolding iso by (rule parse_iso_Z)
  have sum: "(n - epoch_ord) * 86400 + ((?h * 60 + ?m) * 60 + ?x) = s"
  proof -
    have "sod mod 3600 mod 60 = ?x" by (rule mod_mod_cancel) simp
    then have "sod mod 3600 = ?m * 60 + ?x"
      using div_mult_mod_eq [of "sod mod 3600" 60] by simp
    then have "(?h * 60 + ?m) * 60 + ?x = sod"
      by (rule sexagesimal) (rule div_mult_mod_eq)
    then show ?thesis by (simp add: n_def sod_def)
  qed
  have "(n - epoch_ord) * 86400 * usec + hms_usec (?h, ?m, ?x, 0) = s * usec"
    unfolding hms_usec_def by (simp add: sum [symmetric] algebra_simps)
  also have "\<dots> = t - t mod usec" by (simp add: s_def minus_mod_eq_div_mult)
  finally show ?thesis using fromisoformat_utc [OF date n hms] eq by simp
qed

end
