(* ===== verification/Lock_State.thy ===== *)
theory Lock_State
  imports Iso_Time
begin

text \<open>
  The box lock (\<^verbatim>\<open>box/lager/lock_state.py\<close>): the lock file, the primitives that read,
  replace and remove it, the normalisation of a request payload and the four public
  operations \<^verbatim>\<open>status\<close>, \<^verbatim>\<open>acquire\<close>, \<^verbatim>\<open>heartbeat\<close> and \<^verbatim>\<open>release\<close>.

  The state is the content of \<^verbatim>\<open>lock.json\<close> and the number of temporary files left
  beside it. An operation returns its HTTP status and body, or the exception that escapes,
  together with the new state: an exception can follow a change of the file. Each system
  call that may fail is a flag of \<open>io\<close>. Clock readings are arguments: \<open>tc\<close> for the
  expiry check, \<open>ts\<close> for the stamp that is written. An error text is a constructor that
  carries the value the text is formatted from.
\<close>

section \<open>State\<close>

record lockfs =
  lock_json :: json_file
  tmp_files :: nat

record io =
  guard_ok :: bool
  mkdirs_ok :: bool
  mkstemp_ok :: bool
  fchmod_ok :: bool
  dump_ok :: bool
  fsync_ok :: bool
  replace_ok :: bool
  rmtmp_ok :: bool
  rmlock_ok :: bool

definition io_good :: io where
  "io_good = \<lparr>guard_ok = True, mkdirs_ok = True, mkstemp_ok = True, fchmod_ok = True,
     dump_ok = True, fsync_ok = True, replace_ok = True, rmtmp_ok = True, rmlock_ok = True\<rparr>"

datatype lock_err = UserRequired | LockedBy pyval | BoxNotLocked

datatype body = Obj dict | Err lock_err | ErrLock lock_err dict

type_synonym reply = "nat \<times> body"

section \<open>Reading and writing the lock file\<close>

definition read_lock_raw :: "lockfs \<Rightarrow> dict option res" where
  "read_lock_raw fs = (case lock_json fs of
      Missing \<Rightarrow> Inr None
    | NotJson \<Rightarrow> Inr None
    | Unreadable \<Rightarrow> Inl OSError
    | NotUtf8 \<Rightarrow> Inl UnicodeDecodeError
    | JsonDoc v \<Rightarrow> (case v of
          VDict d \<Rightarrow> Inr (if truthy (dict_get d ''locked'') then Some d else None)
        | _ \<Rightarrow> Inr None))"

text \<open>
  The difference \<^verbatim>\<open>total_seconds()\<close> is kept exact; its rounding to a double cannot turn the
  comparison with a whole number of seconds for differences below \<open>2 ^ 32\<close> seconds.
\<close>

definition is_expired :: "int \<Rightarrow> dict \<Rightarrow> bool res" where
  "is_expired now d = (let ttl = dict_get d ''ttl_seconds'' in
     if ttl = VNone then Inr False
     else res_bind (parse_iso (py_or (dict_get d ''last_heartbeat'') (dict_get d ''locked_at'')))
       (\<lambda>last. case last of
           None \<Rightarrow> Inr False
         | Some (Naive _) \<Rightarrow> Inl TypeError
         | Some (Aware t) \<Rightarrow> (case num_of ttl of
               None \<Rightarrow> Inl TypeError
             | Some x \<Rightarrow> Inr (float_gt (Fin (of_int (now - t) / of_int usec)) x))))"

definition clear_lock :: "io \<Rightarrow> lockfs \<Rightarrow> unit res \<times> lockfs" where
  "clear_lock io fs = (if lock_json fs = Missing then (Inr (), fs)
     else if rmlock_ok io then (Inr (), fs\<lparr>lock_json := Missing\<rparr>)
     else (Inl OSError, fs))"

definition read_lock :: "io \<Rightarrow> int \<Rightarrow> lockfs \<Rightarrow> dict option res \<times> lockfs" where
  "read_lock io now fs = (case read_lock_raw fs of
      Inl e \<Rightarrow> (Inl e, fs)
    | Inr None \<Rightarrow> (Inr None, fs)
    | Inr (Some d) \<Rightarrow> (case is_expired now d of
          Inl e \<Rightarrow> (Inl e, fs)
        | Inr True \<Rightarrow> (case clear_lock io fs of
              (Inl e, fs') \<Rightarrow> (Inl e, fs')
            | (Inr _, fs') \<Rightarrow> (Inr None, fs'))
        | Inr False \<Rightarrow> (Inr (Some d), fs)))"

definition write_lock :: "io \<Rightarrow> dict \<Rightarrow> lockfs \<Rightarrow> unit res \<times> lockfs" where
  "write_lock io d fs =
     (if \<not> mkdirs_ok io \<or> \<not> mkstemp_ok io then (Inl OSError, fs)
      else let with_tmp = fs\<lparr>tmp_files := Suc (tmp_files fs)\<rparr> in
        if fchmod_ok io \<and> dump_ok io \<and> fsync_ok io \<and> replace_ok io
        then (Inr (), with_tmp\<lparr>lock_json := JsonDoc (VDict d), tmp_files := tmp_files fs\<rparr>)
        else (Inl OSError, if rmtmp_ok io then with_tmp\<lparr>tmp_files := tmp_files fs\<rparr> else with_tmp))"

definition with_guard :: "io \<Rightarrow> lockfs \<Rightarrow> ('a res \<times> lockfs) \<Rightarrow> 'a res \<times> lockfs" where
  "with_guard io fs body = (if guard_ok io then body else (Inl OSError, fs))"

section \<open>Payload normalisation\<close>

definition normalize_holder_type :: "pyval \<Rightarrow> string \<Rightarrow> string" where
  "normalize_holder_type v dflt = (case v of
      VStr s \<Rightarrow> if s \<noteq> [] then s else dflt
    | _ \<Rightarrow> dflt)"

text \<open>An infinite float is not caught: \<^verbatim>\<open>int()\<close> raises \<^verbatim>\<open>OverflowError\<close> on it.\<close>

definition normalize_ttl :: "pyval \<Rightarrow> int option \<Rightarrow> int option res" where
  "normalize_ttl v dflt = (case v of
      VNone \<Rightarrow> Inr None
    | VStr s \<Rightarrow> if lower s \<in> {''null'', ''none'', ''''} then Inr None
               else (case py_int v of Inr i \<Rightarrow> Inr (Some (max 1 i)) | Inl _ \<Rightarrow> Inr dflt)
    | _ \<Rightarrow> (case py_int v of
          Inr i \<Rightarrow> Inr (Some (max 1 i))
        | Inl e \<Rightarrow> if e = TypeError \<or> e = ValueError then Inr dflt else Inl e))"

fun opt_int :: "int option \<Rightarrow> pyval" where
  "opt_int None = VNone"
| "opt_int (Some i) = VInt i"

text \<open>
  The classification and the time to live of an \<^verbatim>\<open>acquire\<close>; \<open>None\<close> is the sentinel
  \<^verbatim>\<open>_UNSET\<close>.
\<close>

definition norm_request :: "pyval option \<Rightarrow> pyval option \<Rightarrow> (string \<times> int option) res" where
  "norm_request ht ttl =
     (if ht = None \<and> ttl = None then Inr (''user'', None)
      else let nht = normalize_holder_type (case ht of None \<Rightarrow> VNone | Some v \<Rightarrow> v) ''ephemeral'' in
        (case ttl of
           None \<Rightarrow> Inr (nht, if nht = ''user'' then None else Some 1800)
         | Some v \<Rightarrow> res_bind (normalize_ttl v (Some 1800)) (\<lambda>n. Inr (nht, n))))"

section \<open>The public operations\<close>

definition status :: "io \<Rightarrow> int \<Rightarrow> lockfs \<Rightarrow> reply res \<times> lockfs" where
  "status io tc fs = (case with_guard io fs (read_lock io tc fs) of
      (Inl e, fs') \<Rightarrow> (Inl e, fs')
    | (Inr (Some d), fs') \<Rightarrow> (Inr (200, Obj d), fs')
    | (Inr None, fs') \<Rightarrow> (Inr (200, Obj [(''locked'', VBool False)]), fs'))"

definition is_auto :: "pyval \<Rightarrow> bool" where
  "is_auto v = (py_eq v (VStr ''ephemeral'') \<or> py_eq v (VStr ''ci''))"

definition refreshed :: "dict \<Rightarrow> pyval \<Rightarrow> string \<Rightarrow> int option \<Rightarrow> int \<Rightarrow> dict" where
  "refreshed d user nht nttl ts =
     (let d' = dict_set (dict_set (dict_set d ''locked'' (VBool True)) ''user'' user)
                 ''last_heartbeat'' (VStr (now_utc_iso ts))
      in if is_auto (dict_get d ''holder_type'')
         then dict_set (dict_set d' ''holder_type'' (VStr nht)) ''ttl_seconds'' (opt_int nttl)
         else d')"

definition fresh_lock :: "pyval \<Rightarrow> string \<Rightarrow> int option \<Rightarrow> int \<Rightarrow> dict" where
  "fresh_lock user nht nttl ts =
     [(''locked'', VBool True), (''user'', user), (''holder_type'', VStr nht),
      (''locked_at'', VStr (now_utc_iso ts)), (''last_heartbeat'', VStr (now_utc_iso ts)),
      (''ttl_seconds'', opt_int nttl)]"

text \<open>A refusal names the holder: \<^verbatim>\<open>existing["user"]\<close> raises when the key is absent.\<close>

definition refuse :: "nat \<Rightarrow> dict \<Rightarrow> reply res" where
  "refuse st d = res_bind (dict_item d ''user'') (\<lambda>u. Inr (st, ErrLock (LockedBy u) d))"

definition acquire :: "io \<Rightarrow> int \<Rightarrow> int \<Rightarrow> pyval \<Rightarrow> pyval option \<Rightarrow> pyval option \<Rightarrow> lockfs \<Rightarrow>
    reply res \<times> lockfs" where
  "acquire io tc ts user ht ttl fs =
     (if \<not> truthy user then (Inr (400, Err UserRequired), fs)
      else case norm_request ht ttl of
        Inl e \<Rightarrow> (Inl e, fs)
      | Inr (nht, nttl) \<Rightarrow>
          (case with_guard io fs (read_lock io tc fs) of
             (Inl e, fs1) \<Rightarrow> (Inl e, fs1)
           | (Inr ex, fs1) \<Rightarrow>
               let prev = (case ex of None \<Rightarrow> VNone | Some d \<Rightarrow> dict_get d ''user'');
                   new_lock = (case ex of None \<Rightarrow> fresh_lock user nht nttl ts
                                        | Some d \<Rightarrow> refreshed d user nht nttl ts)
               in (case ex of
                     Some d \<Rightarrow>
                       if \<not> py_eq (dict_get d ''user'') user then (refuse 409 d, fs1)
                       else (case write_lock io new_lock fs1 of
                          (Inl e, fs2) \<Rightarrow> (Inl e, fs2)
                        | (Inr _, fs2) \<Rightarrow>
                            (Inr (200, Obj (dict_set new_lock ''previous_user'' prev)), fs2))
                   | None \<Rightarrow>
                       (case write_lock io new_lock fs1 of
                          (Inl e, fs2) \<Rightarrow> (Inl e, fs2)
                        | (Inr _, fs2) \<Rightarrow>
                            (Inr (200, Obj (dict_set new_lock ''previous_user'' prev)), fs2)))))"

definition heartbeat :: "io \<Rightarrow> int \<Rightarrow> int \<Rightarrow> pyval \<Rightarrow> lockfs \<Rightarrow> reply res \<times> lockfs" where
  "heartbeat io tc ts user fs =
     (if \<not> truthy user then (Inr (400, Err UserRequired), fs)
      else case with_guard io fs (read_lock io tc fs) of
        (Inl e, fs1) \<Rightarrow> (Inl e, fs1)
      | (Inr None, fs1) \<Rightarrow> (Inr (404, Err BoxNotLocked), fs1)
      | (Inr (Some d), fs1) \<Rightarrow>
          if \<not> py_eq (dict_get d ''user'') user then (refuse 403 d, fs1)
          else let d' = dict_set d ''last_heartbeat'' (VStr (now_utc_iso ts)) in
            (case write_lock io d' fs1 of
               (Inl e, fs2) \<Rightarrow> (Inl e, fs2)
             | (Inr _, fs2) \<Rightarrow> (Inr (200, Obj d'), fs2)))"

definition release :: "io \<Rightarrow> int \<Rightarrow> pyval \<Rightarrow> bool \<Rightarrow> lockfs \<Rightarrow> reply res \<times> lockfs" where
  "release io tc user force fs =
     (if \<not> truthy user then (Inr (400, Err UserRequired), fs)
      else case with_guard io fs (read_lock io tc fs) of
        (Inl e, fs1) \<Rightarrow> (Inl e, fs1)
      | (Inr None, fs1) \<Rightarrow>
          (Inr (200, Obj [(''locked'', VBool False), (''message'', VStr ''Box is already unlocked'')]), fs1)
      | (Inr (Some d), fs1) \<Rightarrow>
          if \<not> py_eq (dict_get d ''user'') user \<and> \<not> force then (refuse 403 d, fs1)
          else (case clear_lock io fs1 of
               (Inl e, fs2) \<Rightarrow> (Inl e, fs2)
             | (Inr _, fs2) \<Rightarrow>
                 (Inr (200, Obj [(''locked'', VBool False), (''message'', VStr ''Box unlocked'')]), fs2)))"

section \<open>Requests\<close>

datatype req =
    Status
  | Acquire pyval "pyval option" "pyval option"
  | Heartbeat pyval
  | Release pyval bool

fun exec_req :: "io \<Rightarrow> int \<Rightarrow> int \<Rightarrow> req \<Rightarrow> lockfs \<Rightarrow> reply res \<times> lockfs" where
  "exec_req io tc ts Status fs = status io tc fs"
| "exec_req io tc ts (Acquire u ht ttl) fs = acquire io tc ts u ht ttl fs"
| "exec_req io tc ts (Heartbeat u) fs = heartbeat io tc ts u fs"
| "exec_req io tc ts (Release u force) fs = release io tc u force fs"

subsection \<open>The HTTP entry points\<close>

text \<open>
  The request body on either port: absent, not JSON, or a JSON value. Port 5000
  (\<^verbatim>\<open>python/service.py\<close>) decodes it itself; port 9000 (\<^verbatim>\<open>lock_handler.py\<close>) sees what
  Flask's \<^verbatim>\<open>request.get_json(silent=True)\<close> makes of it, the parameter \<open>get_json\<close>.
\<close>

datatype http_body = NoBody | BadJson | JsonBody pyval

datatype hbody = BadRequest string | LockBody body

definition parse_lock_body :: "(http_body \<Rightarrow> pyval option) \<Rightarrow> http_body \<Rightarrow> string + dict" where
  "parse_lock_body get_json b = (case get_json b of
      None \<Rightarrow> Inr []
    | Some VNone \<Rightarrow> Inr []
    | Some (VDict d) \<Rightarrow> Inr d
    | Some _ \<Rightarrow> Inl ''Expected a JSON object'')"

definition lock_request_body :: "http_body \<Rightarrow> string + dict" where
  "lock_request_body b = (case b of
      NoBody \<Rightarrow> Inr []
    | BadJson \<Rightarrow> Inl ''Invalid JSON''
    | JsonBody (VDict d) \<Rightarrow> Inr d
    | JsonBody _ \<Rightarrow> Inl ''Expected a JSON object'')"

datatype route = GetLock | PostLock | PostHeartbeat | PostUnlock

definition route_req :: "route \<Rightarrow> dict \<Rightarrow> req" where
  "route_req r d = (case r of
      GetLock \<Rightarrow> Status
    | PostLock \<Rightarrow> Acquire (dict_get d ''user'') (map_of d ''holder_type'') (map_of d ''ttl_seconds'')
    | PostHeartbeat \<Rightarrow> Heartbeat (dict_get d ''user'')
    | PostUnlock \<Rightarrow> Release (dict_get d ''user'') (truthy (dict_get d ''force'')))"

definition lock_reply :: "reply res \<times> lockfs \<Rightarrow> (nat \<times> hbody) res \<times> lockfs" where
  "lock_reply x = (case x of
      (Inl e, fs) \<Rightarrow> (Inl e, fs)
    | (Inr (c, b), fs) \<Rightarrow> (Inr (c, LockBody b), fs))"

definition lock_routes_9000 :: "(http_body \<Rightarrow> pyval option) \<Rightarrow> io \<Rightarrow> int \<Rightarrow> int \<Rightarrow> route \<Rightarrow>
    http_body \<Rightarrow> lockfs \<Rightarrow> (nat \<times> hbody) res \<times> lockfs" where
  "lock_routes_9000 get_json io tc ts r b fs =
     (if r = GetLock then lock_reply (status io tc fs)
      else case parse_lock_body get_json b of
        Inl msg \<Rightarrow> (Inr (400, BadRequest msg), fs)
      | Inr d \<Rightarrow> lock_reply (exec_req io tc ts (route_req r d) fs))"

text \<open>\<^verbatim>\<open>_handle_lock_status\<close> adds the legacy field \<^verbatim>\<open>busy\<close> when it is not there.\<close>

definition set_default :: "dict \<Rightarrow> string \<Rightarrow> pyval \<Rightarrow> dict" where
  "set_default d k v = (if dict_has d k then d else dict_set d k v)"

definition add_busy :: "body \<Rightarrow> body" where
  "add_busy b = (case b of Obj d \<Rightarrow> Obj (set_default d ''busy'' (VBool False)) | _ \<Rightarrow> b)"

definition lock_routes_5000 :: "io \<Rightarrow> int \<Rightarrow> int \<Rightarrow> route \<Rightarrow> http_body \<Rightarrow> lockfs \<Rightarrow>
    (nat \<times> hbody) res \<times> lockfs" where
  "lock_routes_5000 io tc ts r b fs =
     (if r = GetLock then
        lock_reply (case status io tc fs of
            (Inl e, fs') \<Rightarrow> (Inl e, fs')
          | (Inr (c, x), fs') \<Rightarrow> (Inr (c, add_busy x), fs'))
      else case lock_request_body b of
        Inl msg \<Rightarrow> (Inr (400, BadRequest msg), fs)
      | Inr d \<Rightarrow> lock_reply (exec_req io tc ts (route_req r d) fs))"

end
