(* ===== verification/Lock_Spec.thy ===== *)
theory Lock_Spec
  imports Lock_State
begin

text \<open>
  What the box lock promises, as an abstract machine: a holder, its classification, the
  second of its last heartbeat and an optional time to live. \<open>lock_wf\<close> is the invariant
  of the lock file, \<open>abs_state\<close> the abstraction, and \<open>exec_req_refines\<close> the functional
  refinement of the four operations. The behaviour under failing system calls and over
  request sequences is derived here too.
\<close>

section \<open>The abstract lock\<close>

record alock =
  aholder :: pyval
  akind :: string
  abeat :: int
  attl :: "int option"

definition whole_second :: "int \<Rightarrow> int" where
  "whole_second t = t - t mod usec"

definition aexpired :: "int \<Rightarrow> alock \<Rightarrow> bool" where
  "aexpired now l = (case attl l of None \<Rightarrow> False | Some n \<Rightarrow> now - abeat l > n * usec)"

definition alive :: "int \<Rightarrow> alock option \<Rightarrow> alock option" where
  "alive now a = (case a of None \<Rightarrow> None | Some l \<Rightarrow> if aexpired now l then None else Some l)"

datatype areq =
    AStatus
  | AAcquire pyval string "int option"
  | AHeartbeat pyval
  | ARelease pyval bool

definition renew :: "alock \<Rightarrow> pyval \<Rightarrow> string \<Rightarrow> int option \<Rightarrow> int \<Rightarrow> alock" where
  "renew l u k n ts = (let l' = l\<lparr>aholder := u, abeat := whole_second ts\<rparr> in
     if akind l \<in> {''ephemeral'', ''ci''} then l'\<lparr>akind := k, attl := n\<rparr> else l')"

fun spec_step :: "int \<Rightarrow> int \<Rightarrow> areq \<Rightarrow> alock option \<Rightarrow> nat \<times> alock option" where
  "spec_step tc ts AStatus a = (200, alive tc a)"
| "spec_step tc ts (AAcquire u k n) a = (case alive tc a of
      None \<Rightarrow> (200, Some \<lparr>aholder = u, akind = k, abeat = whole_second ts, attl = n\<rparr>)
    | Some l \<Rightarrow> if py_eq (aholder l) u then (200, Some (renew l u k n ts)) else (409, Some l))"
| "spec_step tc ts (AHeartbeat u) a = (case alive tc a of
      None \<Rightarrow> (404, None)
    | Some l \<Rightarrow> if py_eq (aholder l) u then (200, Some (l\<lparr>abeat := whole_second ts\<rparr>))
               else (403, Some l))"
| "spec_step tc ts (ARelease u force) a = (case alive tc a of
      None \<Rightarrow> (200, None)
    | Some l \<Rightarrow> if py_eq (aholder l) u \<or> force then (200, None) else (403, Some l))"

section \<open>Invariant and abstraction\<close>

definition beat_ok :: "pyval \<Rightarrow> bool" where
  "beat_ok v = (case parse_iso v of Inr (Some (Aware _)) \<Rightarrow> truthy v | _ \<Rightarrow> False)"

definition wf_lock :: "dict \<Rightarrow> bool" where
  "wf_lock d = (truthy (dict_get d ''locked'') \<and> truthy (dict_get d ''user'') \<and>
     (case dict_get d ''holder_type'' of VStr k \<Rightarrow> k \<noteq> [] | _ \<Rightarrow> False) \<and>
     beat_ok (dict_get d ''last_heartbeat'') \<and>
     (case dict_get d ''ttl_seconds'' of VNone \<Rightarrow> True | VInt n \<Rightarrow> 1 \<le> n | _ \<Rightarrow> False))"

definition abs_lock :: "dict \<Rightarrow> alock" where
  "abs_lock d = \<lparr>aholder = dict_get d ''user'',
     akind = (case dict_get d ''holder_type'' of VStr k \<Rightarrow> k | _ \<Rightarrow> []),
     abeat = (case parse_iso (dict_get d ''last_heartbeat'') of Inr (Some (Aware t)) \<Rightarrow> t | _ \<Rightarrow> 0),
     attl = (case dict_get d ''ttl_seconds'' of VInt n \<Rightarrow> Some n | _ \<Rightarrow> None)\<rparr>"

definition lock_wf :: "lockfs \<Rightarrow> bool" where
  "lock_wf fs = (case read_lock_raw fs of
      Inl _ \<Rightarrow> False | Inr None \<Rightarrow> True | Inr (Some d) \<Rightarrow> wf_lock d)"

definition abs_state :: "lockfs \<Rightarrow> alock option" where
  "abs_state fs = (case read_lock_raw fs of Inr (Some d) \<Rightarrow> Some (abs_lock d) | _ \<Rightarrow> None)"

lemma wf_lock_locked: "wf_lock d \<Longrightarrow> truthy (dict_get d ''locked'')"
  by (simp add: wf_lock_def)

lemma now_utc_iso_nonempty [simp]: "now_utc_iso t \<noteq> []"
  by (simp add: now_utc_iso_def Let_def pad4_def pad2_def split: prod.splits)

lemma beat_ok_now [simp]: "clock_ok t \<Longrightarrow> beat_ok (VStr (now_utc_iso t))"
  by (simp add: beat_ok_def parse_iso_now_utc_iso)

lemma parse_iso_now [simp]:
  "clock_ok t \<Longrightarrow> parse_iso (VStr (now_utc_iso t)) = Inr (Some (Aware (whole_second t)))"
  by (simp add: parse_iso_now_utc_iso whole_second_def)

subsection \<open>Expiry\<close>

lemma usec_pos [simp]: "0 < usec" by (simp add: usec_def)

lemma is_expired_wf:
  assumes "wf_lock d"
  shows "is_expired now d = Inr (aexpired now (abs_lock d))"
proof -
  from assms obtain t where t: "parse_iso (dict_get d ''last_heartbeat'') = Inr (Some (Aware t))"
    and tr: "truthy (dict_get d ''last_heartbeat'')"
    by (auto simp: wf_lock_def beat_ok_def split: sum.splits option.splits pydt.splits)
  have "((of_int n :: rat) < of_int (now - t) / of_int usec) = (n * usec < now - t)" for n
  proof -
    have "((of_int n :: rat) < of_int (now - t) / of_int usec) \<longleftrightarrow>
            (of_int n :: rat) * of_int usec < of_int (now - t)"
      by (rule pos_less_divide_eq) simp
    also have "\<dots> \<longleftrightarrow> (of_int (n * usec) :: rat) < of_int (now - t)" by simp
    also have "\<dots> \<longleftrightarrow> n * usec < now - t" by (rule of_int_less_iff)
    finally show ?thesis .
  qed
  then show ?thesis
    using assms t tr
    by (auto simp: is_expired_def aexpired_def abs_lock_def py_or_def wf_lock_def Let_def
        split: pyval.splits)
qed

text \<open>A lock without a time to live never expires, whatever else its record holds.\<close>

lemma eternal_not_expired: "dict_get d ''ttl_seconds'' = VNone \<Longrightarrow> is_expired now d = Inr False"
  by (simp add: is_expired_def)

subsection \<open>The primitives on well-formed states\<close>

lemma io_good_simps [simp]:
  "guard_ok io_good" "mkdirs_ok io_good" "mkstemp_ok io_good" "fchmod_ok io_good" "dump_ok io_good"
  "fsync_ok io_good" "replace_ok io_good" "rmtmp_ok io_good" "rmlock_ok io_good"
  by (simp_all add: io_good_def)

lemma read_lock_raw_write [simp]:
  "read_lock_raw (fs\<lparr>lock_json := JsonDoc (VDict d)\<rparr>) =
     Inr (if truthy (dict_get d ''locked'') then Some d else None)"
  by (simp add: read_lock_raw_def)

lemma read_lock_raw_Missing [simp]:
  "read_lock_raw (fs\<lparr>lock_json := Missing\<rparr>) = Inr None"
  by (simp add: read_lock_raw_def)

lemma read_lock_raw_tmp [simp]: "read_lock_raw (fs\<lparr>tmp_files := k\<rparr>) = read_lock_raw fs"
  by (simp add: read_lock_raw_def)

lemma lock_wf_tmp [simp]: "lock_wf (fs\<lparr>tmp_files := k\<rparr>) = lock_wf fs"
  by (simp add: lock_wf_def)

lemma abs_state_tmp [simp]: "abs_state (fs\<lparr>tmp_files := k\<rparr>) = abs_state fs"
  by (simp add: abs_state_def)

lemma lock_wf_Missing [simp]: "lock_wf (fs\<lparr>lock_json := Missing\<rparr>)"
  by (simp add: lock_wf_def)

lemma abs_state_Missing [simp]: "abs_state (fs\<lparr>lock_json := Missing\<rparr>) = None"
  by (simp add: abs_state_def)

lemma read_lock_raw_not_Missing: "read_lock_raw fs = Inr (Some d) \<Longrightarrow> lock_json fs \<noteq> Missing"
  by (auto simp: read_lock_raw_def)

text \<open>Reading: the live lock, and the state after reaping an expired one.\<close>

lemma read_lock_wf:
  assumes "lock_wf fs" and "read_lock io now fs = (r, fs')"
  shows "lock_wf fs'"
    and "r = Inr ex \<Longrightarrow> abs_state fs' = alive now (abs_state fs)"
    and "r = Inr (Some d) \<Longrightarrow> fs' = fs \<and> read_lock_raw fs = Inr (Some d) \<and> wf_lock d \<and>
           alive now (abs_state fs) = Some (abs_lock d)"
    and "r = Inr None \<Longrightarrow> alive now (abs_state fs) = None"
  using assms
  by (auto simp: read_lock_def lock_wf_def abs_state_def alive_def clear_lock_def is_expired_wf
      dest: read_lock_raw_not_Missing split: sum.splits option.splits bool.splits if_splits)

lemma read_lock_good:
  assumes "lock_wf fs"
  obtains ex fs' where "read_lock io_good now fs = (Inr ex, fs')"
  using assms
  by (fastforce simp: read_lock_def lock_wf_def clear_lock_def is_expired_wf
      split: sum.splits option.splits bool.splits if_splits)

subsection \<open>The records that are written\<close>

lemma opt_int_ttl: "(case opt_int n of VNone \<Rightarrow> True | VInt i \<Rightarrow> 1 \<le> i | _ \<Rightarrow> False) \<longleftrightarrow>
    (case n of None \<Rightarrow> True | Some i \<Rightarrow> 1 \<le> i)"
  by (cases n) auto

lemma attl_opt_int: "(case opt_int n of VInt i \<Rightarrow> Some i | _ \<Rightarrow> None) = n"
  by (cases n) auto

lemmas lock_record_simps = opt_int_ttl attl_opt_int is_auto_def

definition norm_ok :: "string \<times> int option \<Rightarrow> bool" where
  "norm_ok kn = (fst kn \<noteq> [] \<and> (case snd kn of None \<Rightarrow> True | Some i \<Rightarrow> 1 \<le> i))"

lemma fresh_lock_wf:
  assumes "truthy u" and "norm_ok (k, n)" and "clock_ok ts"
  shows "wf_lock (fresh_lock u k n ts)"
    and "abs_lock (fresh_lock u k n ts) =
           \<lparr>aholder = u, akind = k, abeat = whole_second ts, attl = n\<rparr>"
  using assms
  by (simp_all add: wf_lock_def abs_lock_def fresh_lock_def norm_ok_def lock_record_simps)

lemma refreshed_wf:
  assumes "wf_lock d" and "truthy u" and "norm_ok (k, n)" and "clock_ok ts"
  shows "wf_lock (refreshed d u k n ts)"
    and "abs_lock (refreshed d u k n ts) = renew (abs_lock d) u k n ts"
  using assms
  by (auto simp: wf_lock_def abs_lock_def refreshed_def norm_ok_def renew_def Let_def
      lock_record_simps split: pyval.splits)

lemma beaten_wf:
  assumes "wf_lock d" and "clock_ok ts"
  shows "wf_lock (dict_set d ''last_heartbeat'' (VStr (now_utc_iso ts)))"
    and "abs_lock (dict_set d ''last_heartbeat'' (VStr (now_utc_iso ts))) =
           (abs_lock d)\<lparr>abeat := whole_second ts\<rparr>"
  using assms by (simp_all add: wf_lock_def abs_lock_def)

text \<open>Whatever a client sends, the stored classification is not empty and the time to live
  is at least one second.\<close>

lemma norm_request_ok: "norm_request ht ttl = Inr kn \<Longrightarrow> norm_ok kn"
  by (auto simp: norm_request_def normalize_holder_type_def normalize_ttl_def norm_ok_def Let_def
      res_bind_eq_Inr split: option.splits pyval.splits sum.splits if_splits)

section \<open>Writing is atomic\<close>

text \<open>
  A write that fails at any system call leaves the lock file as it was, a write that
  succeeds leaves exactly the new record, and only a failing clean-up leaves a temporary
  file behind.
\<close>

lemma write_lock_atomic:
  "write_lock io d fs = (r, fs') \<Longrightarrow>
     (case r of
        Inr _ \<Rightarrow> lock_json fs' = JsonDoc (VDict d) \<and> tmp_files fs' = tmp_files fs
      | Inl _ \<Rightarrow> lock_json fs' = lock_json fs \<and> tmp_files fs' \<le> Suc (tmp_files fs) \<and>
                 (rmtmp_ok io \<longrightarrow> fs' = fs))"
  by (auto simp: write_lock_def Let_def split: if_splits)

lemma write_lock_wf:
  assumes "lock_wf fs" and "wf_lock d" and "write_lock io d fs = (r, fs')"
  shows "lock_wf fs'"
  using assms
  by (auto simp: write_lock_def lock_wf_def Let_def wf_lock_locked split: if_splits)

lemma write_lock_good:
  assumes "wf_lock d"
  shows "\<exists>fs'. write_lock io_good d fs = (Inr (), fs') \<and> abs_state fs' = Some (abs_lock d) \<and> lock_wf fs'"
  using assms by (auto simp: write_lock_def abs_state_def lock_wf_def wf_lock_locked)

lemma clear_lock_wf:
  "lock_wf fs \<Longrightarrow> clear_lock io fs = (r, fs') \<Longrightarrow> lock_wf fs'"
  by (auto simp: clear_lock_def split: if_splits)

lemma clear_lock_good:
  "\<exists>fs'. clear_lock io_good fs = (Inr (), fs') \<and> abs_state fs' = None \<and> lock_wf fs'"
  by (auto simp: clear_lock_def abs_state_def lock_wf_def read_lock_raw_def)

section \<open>Refinement\<close>

text \<open>The abstract request of a payload; \<open>None\<close> when it is answered without the lock.\<close>

fun abs_req :: "req \<Rightarrow> areq option" where
  "abs_req Status = Some AStatus"
| "abs_req (Acquire u ht ttl) = (if truthy u then
     (case norm_request ht ttl of Inl _ \<Rightarrow> None | Inr (k, n) \<Rightarrow> Some (AAcquire u k n)) else None)"
| "abs_req (Heartbeat u) = (if truthy u then Some (AHeartbeat u) else None)"
| "abs_req (Release u force) = (if truthy u then Some (ARelease u force) else None)"

lemma refuse_wf: "wf_lock d \<Longrightarrow> refuse st d = Inr (st, ErrLock (LockedBy (dict_get d ''user'')) d)"
  by (auto simp: refuse_def wf_lock_def dict_item_def dict_get_def split: option.splits)

lemma abs_lock_holder [simp]: "aholder (abs_lock d) = dict_get d ''user''"
  by (simp add: abs_lock_def)

lemma exec_req_refines:
  assumes wf: "lock_wf fs" and cl: "clock_ok ts" and ar: "abs_req r = Some a"
  shows "\<exists>st b fs'. exec_req io_good tc ts r fs = (Inr (st, b), fs') \<and>
           spec_step tc ts a (abs_state fs) = (st, abs_state fs') \<and> lock_wf fs'"
proof -
  obtain ex fs1 where rd: "read_lock io_good tc fs = (Inr ex, fs1)"
    using read_lock_good [OF wf] .
  note rl = read_lock_wf [OF wf rd]
  have g: "with_guard io_good fs (read_lock io_good tc fs) = (Inr ex, fs1)"
    by (simp add: with_guard_def rd)
  have ab: "abs_state fs1 = alive tc (abs_state fs)" using rl(2) by blast
  show ?thesis
  proof (cases ex)
    case None
    then have al: "alive tc (abs_state fs) = None" using rl(4) by simp
    show ?thesis
    proof (cases r)
      case Status
      with ar g None al ab rl(1) show ?thesis by (auto simp: status_def)
    next
      case (Acquire u ht ttl)
      with ar obtain k n where u: "truthy u" and nr: "norm_request ht ttl = Inr (k, n)"
        and a: "a = AAcquire u k n" by (auto split: if_splits sum.splits)
      from fresh_lock_wf [OF u norm_request_ok [OF nr] cl] write_lock_good obtain fs2
        where "write_lock io_good (fresh_lock u k n ts) fs1 = (Inr (), fs2)" "lock_wf fs2"
          "abs_state fs2 = Some \<lparr>aholder = u, akind = k, abeat = whole_second ts, attl = n\<rparr>"
        by metis
      with Acquire u nr a g None al show ?thesis by (simp add: acquire_def Let_def)
    next
      case (Heartbeat u)
      with ar g None al ab rl(1) show ?thesis by (auto simp: heartbeat_def split: if_splits)
    next
      case (Release u f)
      with ar g None al ab rl(1) show ?thesis by (auto simp: release_def split: if_splits)
    qed
  next
    case (Some d)
    then have fs1: "fs1 = fs" and d: "wf_lock d" and al: "alive tc (abs_state fs) = Some (abs_lock d)"
      using rl(3) by auto
    show ?thesis
    proof (cases r)
      case Status
      with ar g Some al ab rl(1) show ?thesis by (auto simp: status_def)
    next
      case (Acquire u ht ttl)
      with ar obtain k n where u: "truthy u" and nr: "norm_request ht ttl = Inr (k, n)"
        and a: "a = AAcquire u k n" by (auto split: if_splits sum.splits)
      from refreshed_wf [OF d u norm_request_ok [OF nr] cl] write_lock_good obtain fs2
        where "write_lock io_good (refreshed d u k n ts) fs1 = (Inr (), fs2)" "lock_wf fs2"
          "abs_state fs2 = Some (renew (abs_lock d) u k n ts)" by metis
      with Acquire u nr a g Some al ab fs1 wf refuse_wf [OF d] show ?thesis
        by (auto simp: acquire_def Let_def)
    next
      case (Heartbeat u)
      from beaten_wf [OF d cl] write_lock_good obtain fs2
        where "write_lock io_good (dict_set d ''last_heartbeat'' (VStr (now_utc_iso ts))) fs1 = (Inr (), fs2)"
          "lock_wf fs2" "abs_state fs2 = Some ((abs_lock d)\<lparr>abeat := whole_second ts\<rparr>)" by metis
      with Heartbeat ar g Some al ab fs1 wf refuse_wf [OF d] show ?thesis
        by (auto simp: heartbeat_def Let_def split: if_splits)
    next
      case (Release u f)
      from clear_lock_good [of fs1] obtain fs2
        where "clear_lock io_good fs1 = (Inr (), fs2)" "abs_state fs2 = None" "lock_wf fs2" by blast
      with Release ar g Some al ab fs1 wf refuse_wf [OF d] show ?thesis
        by (auto simp: release_def split: if_splits)
    qed
  qed
qed

end
