(* ===== verification/Lock_Runs.thy ===== *)
theory Lock_Runs
  imports Lock_Spec
begin

text \<open>
  The box lock over whole histories of requests, with any system call failing at any
  point: the file invariant is kept, a request of another client changes nothing, and a
  reservation stays until its holder or a forced unlock releases it. The phases of a
  request (checks before the guard, reading under the guard, finishing under the guard)
  are separated here for the interleavings of \<open>Lock_Interleaving\<close>.
\<close>

section \<open>The phases of a request\<close>

text \<open>What is answered before the guard is taken.\<close>

fun pre_check :: "req \<Rightarrow> reply res option" where
  "pre_check Status = None"
| "pre_check (Acquire u ht ttl) = (if \<not> truthy u then Some (Inr (400, Err UserRequired))
     else (case norm_request ht ttl of Inl e \<Rightarrow> Some (Inl e) | Inr _ \<Rightarrow> None))"
| "pre_check (Heartbeat u) = (if truthy u then None else Some (Inr (400, Err UserRequired)))"
| "pre_check (Release u force) = (if truthy u then None else Some (Inr (400, Err UserRequired)))"

definition put :: "io \<Rightarrow> dict \<Rightarrow> body \<Rightarrow> lockfs \<Rightarrow> reply res \<times> lockfs" where
  "put io d b fs = (case write_lock io d fs of
      (Inl e, fs') \<Rightarrow> (Inl e, fs') | (Inr _, fs') \<Rightarrow> (Inr (200, b), fs'))"

definition unlocked :: "string \<Rightarrow> dict" where
  "unlocked msg = [(''locked'', VBool False), (''message'', VStr msg)]"

text \<open>What is done under the guard with the lock that was read.\<close>

fun finish :: "io \<Rightarrow> int \<Rightarrow> req \<Rightarrow> dict option \<Rightarrow> lockfs \<Rightarrow> reply res \<times> lockfs" where
  "finish io ts Status ex fs =
     (Inr (200, Obj (case ex of None \<Rightarrow> [(''locked'', VBool False)] | Some d \<Rightarrow> d)), fs)"
| "finish io ts (Acquire u ht ttl) ex fs = (case norm_request ht ttl of
      Inl e \<Rightarrow> (Inl e, fs)
    | Inr (k, n) \<Rightarrow> (case ex of
          None \<Rightarrow> let nl = fresh_lock u k n ts in
            put io nl (Obj (dict_set nl ''previous_user'' VNone)) fs
        | Some d \<Rightarrow> if \<not> py_eq (dict_get d ''user'') u then (refuse 409 d, fs)
            else let nl = refreshed d u k n ts in
              put io nl (Obj (dict_set nl ''previous_user'' (dict_get d ''user''))) fs))"
| "finish io ts (Heartbeat u) ex fs = (case ex of
      None \<Rightarrow> (Inr (404, Err BoxNotLocked), fs)
    | Some d \<Rightarrow> if \<not> py_eq (dict_get d ''user'') u then (refuse 403 d, fs)
        else let d' = dict_set d ''last_heartbeat'' (VStr (now_utc_iso ts)) in put io d' (Obj d') fs)"
| "finish io ts (Release u force) ex fs = (case ex of
      None \<Rightarrow> (Inr (200, Obj (unlocked ''Box is already unlocked'')), fs)
    | Some d \<Rightarrow> if \<not> py_eq (dict_get d ''user'') u \<and> \<not> force then (refuse 403 d, fs)
        else (case clear_lock io fs of
            (Inl e, fs') \<Rightarrow> (Inl e, fs')
          | (Inr _, fs') \<Rightarrow> (Inr (200, Obj (unlocked ''Box unlocked'')), fs')))"

definition guarded :: "io \<Rightarrow> int \<Rightarrow> int \<Rightarrow> req \<Rightarrow> lockfs \<Rightarrow> reply res \<times> lockfs" where
  "guarded io tc ts r fs = (case read_lock io tc fs of
      (Inl e, fs1) \<Rightarrow> (Inl e, fs1)
    | (Inr ex, fs1) \<Rightarrow> finish io ts r ex fs1)"

text \<open>Every operation of \<open>Lock_State\<close> is its three phases in a row.\<close>

lemma exec_req_phases:
  "exec_req io tc ts r fs = (case pre_check r of
      Some rep \<Rightarrow> (rep, fs)
    | None \<Rightarrow> if guard_ok io then guarded io tc ts r fs else (Inl OSError, fs))"
proof (cases "read_lock io tc fs")
  case (Pair rd fs1)
  then show ?thesis
    by (cases r)
      (auto simp: status_def acquire_def heartbeat_def release_def guarded_def with_guard_def
        put_def unlocked_def Let_def split: sum.splits option.splits prod.splits)
qed

section \<open>The invariant under failures\<close>

lemma put_wf: "lock_wf fs \<Longrightarrow> wf_lock d \<Longrightarrow> put io d b fs = (x, fs') \<Longrightarrow> lock_wf fs'"
  by (auto simp: put_def dest: write_lock_wf split: prod.splits sum.splits)

lemma finish_wf:
  assumes "lock_wf fs" and "\<And>d. ex = Some d \<Longrightarrow> wf_lock d" and "clock_ok ts"
    and "pre_check r = None" and "finish io ts r ex fs = (x, fs')"
  shows "lock_wf fs'"
proof (cases r)
  case Status
  with assms show ?thesis by simp
next
  case (Acquire u ht ttl)
  with assms(4) obtain k n where u: "truthy u" and nr: "norm_request ht ttl = Inr (k, n)"
    by (auto split: if_splits sum.splits)
  note ok = norm_request_ok [OF nr]
  show ?thesis
    using assms Acquire u nr fresh_lock_wf(1) [OF u ok assms(3)] refreshed_wf(1) [OF _ u ok assms(3)]
    by (auto simp: Let_def intro: put_wf split: option.splits if_splits)
next
  case (Heartbeat u)
  with assms beaten_wf(1) show ?thesis
    by (auto simp: Let_def intro: put_wf split: option.splits if_splits)
next
  case (Release u f)
  with assms show ?thesis
    by (auto dest: clear_lock_wf split: option.splits if_splits prod.splits sum.splits)
qed

lemma guarded_wf:
  assumes "lock_wf fs" and "clock_ok ts" and "pre_check r = None" and "guarded io tc ts r fs = (x, fs')"
  shows "lock_wf fs'"
proof -
  obtain rd fs1 where rd: "read_lock io tc fs = (rd, fs1)" by fastforce
  note rl = read_lock_wf [OF assms(1) rd]
  show ?thesis
  proof (cases rd)
    case (Inl e)
    with rd rl(1) assms(4) show ?thesis by (simp add: guarded_def)
  next
    case (Inr ex)
    have "\<And>d. ex = Some d \<Longrightarrow> wf_lock d" using rl(3) Inr by blast
    from finish_wf [OF rl(1) this assms(2,3)] rd Inr assms(4) show ?thesis
      by (simp add: guarded_def)
  qed
qed

lemma exec_req_wf:
  assumes "lock_wf fs" and "clock_ok ts"
  shows "lock_wf (snd (exec_req io tc ts r fs))"
proof (cases "pre_check r")
  case None
  obtain x fs' where g: "guarded io tc ts r fs = (x, fs')" by fastforce
  from guarded_wf [OF assms None g] g None assms(1) show ?thesis
    by (simp add: exec_req_phases)
next
  case (Some rep)
  with assms show ?thesis by (simp add: exec_req_phases)
qed

section \<open>Histories\<close>

type_synonym event = "io \<times> int \<times> int \<times> req"

fun run :: "event list \<Rightarrow> lockfs \<Rightarrow> reply res list \<times> lockfs" where
  "run [] fs = ([], fs)"
| "run ((io, tc, ts, r) # es) fs = (case exec_req io tc ts r fs of
      (x, fs') \<Rightarrow> (case run es fs' of (xs, fs'') \<Rightarrow> (x # xs, fs'')))"

lemma run_append:
  "run (es @ es') fs = (case run es fs of (xs, fs') \<Rightarrow>
     (case run es' fs' of (ys, fs'') \<Rightarrow> (xs @ ys, fs'')))"
  by (induction es fs rule: run.induct) (auto split: prod.splits)

lemma run_length: "length (fst (run es fs)) = length es"
  by (induction es fs rule: run.induct) (auto split: prod.splits)

definition clocks_ok :: "event list \<Rightarrow> bool" where
  "clocks_ok es = list_all (\<lambda>(io, tc, ts, r). clock_ok ts) es"

lemma run_wf: "lock_wf fs \<Longrightarrow> clocks_ok es \<Longrightarrow> lock_wf (snd (run es fs))"
proof (induction es arbitrary: fs)
  case (Cons e es)
  obtain io tc ts r where e: "e = (io, tc, ts, r)" by (cases e) auto
  with Cons.prems have "lock_wf (snd (exec_req io tc ts r fs))"
    by (auto simp: clocks_ok_def intro: exec_req_wf)
  with Cons.IH Cons.prems e show ?case
    by (fastforce simp: clocks_ok_def split: prod.splits)
qed simp

section \<open>Requests of other clients\<close>

text \<open>The live record: what \<^verbatim>\<open>_read_lock\<close> returns without reaping.\<close>

definition live :: "int \<Rightarrow> lockfs \<Rightarrow> dict \<Rightarrow> bool" where
  "live now fs d = (read_lock_raw fs = Inr (Some d) \<and> is_expired now d = Inr False)"

fun req_user :: "req \<Rightarrow> pyval" where
  "req_user Status = VNone"
| "req_user (Acquire u ht ttl) = u"
| "req_user (Heartbeat u) = u"
| "req_user (Release u force) = u"

fun is_forced :: "req \<Rightarrow> bool" where
  "is_forced (Release u force) = force"
| "is_forced _ = False"

lemma read_lock_live: "live now fs d \<Longrightarrow> read_lock io now fs = (Inr (Some d), fs)"
  by (simp add: live_def read_lock_def)

lemma foreign_finish:
  assumes "\<not> py_eq (dict_get d ''user'') (req_user r)" and "\<not> is_forced r" and "r \<noteq> Status"
    and "pre_check r = None"
  shows "\<exists>st. finish io ts r (Some d) fs = (refuse st d, fs) \<and> st \<in> {403, 409}"
  using assms by (cases r) (auto split: sum.splits if_splits)

lemma refuse_not_200: "st \<noteq> 200 \<Longrightarrow> refuse st d \<noteq> Inr (200, b)"
  by (cases "dict_item d ''user''") (auto simp: refuse_def)

text \<open>
  While a lock is live, a request of anybody else that is not a forced unlock is refused
  and leaves the file as it is, under every failure of a system call.
\<close>

lemma foreign_request_frame:
  assumes "live tc fs d" and "\<not> py_eq (dict_get d ''user'') (req_user r)" and "\<not> is_forced r"
    and "r \<noteq> Status" and "exec_req io tc ts r fs = (x, fs')"
  shows "fs' = fs \<and> (\<forall>b. x \<noteq> Inr (200, b))"
proof (cases "pre_check r")
  case None
  from foreign_finish [OF assms(2-4) None, of io ts fs] obtain st
    where "finish io ts r (Some d) fs = (refuse st d, fs)" "st \<in> {403, 409}" by blast
  with assms(1,5) None refuse_not_200 [of 403 d] refuse_not_200 [of 409 d] show ?thesis
    by (auto simp: exec_req_phases guarded_def read_lock_live split: if_splits)
next
  case (Some rep)
  then have "\<forall>b. rep \<noteq> Inr (200, b)"
    by (cases r) (auto split: if_splits sum.splits)
  with assms(5) Some show ?thesis by (auto simp: exec_req_phases)
qed

section \<open>Reservations\<close>

text \<open>A record held by \<open>u\<close> that has no time to live and no automatic classification.\<close>

definition reserved :: "string \<Rightarrow> lockfs \<Rightarrow> bool" where
  "reserved u fs = (\<exists>d. read_lock_raw fs = Inr (Some d) \<and> dict_get d ''user'' = VStr u \<and>
     dict_get d ''ttl_seconds'' = VNone \<and> \<not> is_auto (dict_get d ''holder_type''))"

definition keeps :: "string \<Rightarrow> req \<Rightarrow> bool" where
  "keeps u r = (case r of Release v force \<Rightarrow> v \<noteq> VStr u \<and> \<not> force | _ \<Rightarrow> True)"

lemma put_reserved:
  assumes "put io d b fs = (x, fs')" and "reserved u fs"
    and "truthy (dict_get d ''locked'')" and "dict_get d ''user'' = VStr u"
    and "dict_get d ''ttl_seconds'' = VNone" and "\<not> is_auto (dict_get d ''holder_type'')"
  shows "reserved u fs'"
  using assms
  by (auto simp: put_def write_lock_def reserved_def Let_def split: prod.splits sum.splits if_splits)

lemma reserved_live:
  assumes "reserved u fs"
  obtains d where "live tc fs d" "dict_get d ''user'' = VStr u" "dict_get d ''ttl_seconds'' = VNone"
    "\<not> is_auto (dict_get d ''holder_type'')" "truthy (dict_get d ''locked'')"
proof -
  from assms obtain d where d: "read_lock_raw fs = Inr (Some d)" "dict_get d ''user'' = VStr u"
    "dict_get d ''ttl_seconds'' = VNone" "\<not> is_auto (dict_get d ''holder_type'')"
    by (auto simp: reserved_def)
  moreover from d(1) have "truthy (dict_get d ''locked'')"
    by (auto simp: read_lock_raw_def split: json_file.splits pyval.splits if_splits)
  ultimately show ?thesis using that by (simp add: live_def eternal_not_expired)
qed

lemma reserved_step:
  assumes "reserved u fs" and "keeps u r"
  shows "reserved u (snd (exec_req io tc ts r fs))"
proof -
  obtain d where d: "live tc fs d" "dict_get d ''user'' = VStr u" "dict_get d ''ttl_seconds'' = VNone"
    "\<not> is_auto (dict_get d ''holder_type'')" "truthy (dict_get d ''locked'')"
    using reserved_live [OF assms(1)] .
  have put: "reserved u fs'" if "put io (refreshed d (VStr u) k n ts) b fs = (x, fs')" for k n b x fs'
    using put_reserved [OF that assms(1)] d(2-) by (simp add: refreshed_def Let_def)
  have beat: "reserved u fs'"
    if "put io (dict_set d ''last_heartbeat'' v) b fs = (x, fs')" for v b x fs'
    using put_reserved [OF that assms(1)] d(2-) by simp
  have "reserved u fs'" if "finish io ts r (Some d) fs = (x, fs')" for x fs'
    using that assms d(2) put beat
    by (cases r) (auto simp: keeps_def Let_def split: sum.splits if_splits)
  then have "reserved u (snd (finish io ts r (Some d) fs))"
    by (metis surjective_pairing)
  then show ?thesis
    using assms(1) d(1)
    by (auto simp: exec_req_phases guarded_def read_lock_live split: option.splits prod.splits)
qed

lemma reserved_run:
  "reserved u fs \<Longrightarrow> list_all (\<lambda>(io, tc, ts, r). keeps u r) es \<Longrightarrow> reserved u (snd (run es fs))"
proof (induction es arbitrary: fs)
  case (Cons e es)
  obtain io tc ts r where e: "e = (io, tc, ts, r)" by (cases e) auto
  with Cons.prems have "reserved u (snd (exec_req io tc ts r fs))" by (auto intro: reserved_step)
  with Cons.IH Cons.prems e show ?case by (fastforce split: prod.splits)
qed simp

end
