(* ===== verification/Lock_Interleaving.thy ===== *)
theory Lock_Interleaving
  imports Lock_Runs
begin

text \<open>
  Concurrent lock requests (\<^verbatim>\<open>FileGuard\<close> of \<^verbatim>\<open>box/lager/lock_state.py\<close>). The services on
  ports 5000 and 9000 are separate processes that share \<^verbatim>\<open>lock.json\<close>; every operation
  takes an exclusive \<^verbatim>\<open>flock\<close> on a side file first. Each request is a process that answers
  early, waits for the guard, reads, finishes, and leaves the guard; the steps of the processes
  interleave freely. The ghost field \<open>hist\<close> records the answers in the order they became
  final.
\<close>

section \<open>Processes and steps\<close>

datatype pstate = Ready | Entered | HasRead "dict option" | Leaving "reply res" | Done "reply res"

record world =
  fsys :: lockfs
  guard :: "nat option"
  procs :: "nat \<Rightarrow> pstate"
  hist :: "(nat \<times> reply res) list"

definition idle_world :: "lockfs \<Rightarrow> world" where
  "idle_world fs = \<lparr>fsys = fs, guard = None, procs = (\<lambda>_. Ready), hist = []\<rparr>"

definition after_read :: "dict option res \<Rightarrow> pstate" where
  "after_read rd = (case rd of Inl e \<Rightarrow> Leaving (Inl e) | Inr ex \<Rightarrow> HasRead ex)"

inductive lstep :: "(nat \<Rightarrow> event) \<Rightarrow> world \<Rightarrow> world \<Rightarrow> bool" for jobs where
  early: "\<lbrakk>procs w p = Ready; jobs p = (io, tc, ts, r); pre_check r = Some x\<rbrakk> \<Longrightarrow>
    lstep jobs w (w\<lparr>procs := (procs w)(p := Done x), hist := hist w @ [(p, x)]\<rparr>)"
| enter_fail: "\<lbrakk>procs w p = Ready; jobs p = (io, tc, ts, r); pre_check r = None; \<not> guard_ok io\<rbrakk> \<Longrightarrow>
    lstep jobs w (w\<lparr>procs := (procs w)(p := Done (Inl OSError)), hist := hist w @ [(p, Inl OSError)]\<rparr>)"
| enter: "\<lbrakk>procs w p = Ready; jobs p = (io, tc, ts, r); pre_check r = None; guard_ok io; guard w = None\<rbrakk> \<Longrightarrow>
    lstep jobs w (w\<lparr>guard := Some p, procs := (procs w)(p := Entered)\<rparr>)"
| read: "\<lbrakk>procs w p = Entered; jobs p = (io, tc, ts, r); read_lock io tc (fsys w) = (rd, fs')\<rbrakk> \<Longrightarrow>
    lstep jobs w (w\<lparr>fsys := fs', procs := (procs w)(p := after_read rd)\<rparr>)"
| finish: "\<lbrakk>procs w p = HasRead ex; jobs p = (io, tc, ts, r); finish io ts r ex (fsys w) = (x, fs')\<rbrakk> \<Longrightarrow>
    lstep jobs w (w\<lparr>fsys := fs', procs := (procs w)(p := Leaving x)\<rparr>)"
| leave: "procs w p = Leaving x \<Longrightarrow>
    lstep jobs w (w\<lparr>guard := None, procs := (procs w)(p := Done x), hist := hist w @ [(p, x)]\<rparr>)"

inductive_cases lstepE: "lstep jobs w w'"

section \<open>Serialisability\<close>

text \<open>
  The invariant relates a state to the sequential run of the finished requests, in the
  order of \<open>hist\<close>: outside the guard the file is the run's file, and inside it the file
  and the process's progress are the phases of one more sequential request.
\<close>

definition in_guard :: "pstate \<Rightarrow> bool" where
  "in_guard s = (case s of Ready \<Rightarrow> False | Done _ \<Rightarrow> False | _ \<Rightarrow> True)"

definition progress :: "event \<Rightarrow> pstate \<Rightarrow> lockfs \<Rightarrow> lockfs \<Rightarrow> bool" where
  "progress e s fsL fs = (case e of (io, tc, ts, r) \<Rightarrow> pre_check r = None \<and> guard_ok io \<and>
     (case s of Entered \<Rightarrow> fs = fsL
      | HasRead ex \<Rightarrow> read_lock io tc fsL = (Inr ex, fs)
      | Leaving x \<Rightarrow> guarded io tc ts r fsL = (x, fs)
      | _ \<Rightarrow> False))"

definition done_ok :: "world \<Rightarrow> bool" where
  "done_ok w = (distinct (map fst (hist w)) \<and>
     (\<forall>p x. procs w p = Done x \<longleftrightarrow> (p, x) \<in> set (hist w)))"

definition seq_run :: "(nat \<Rightarrow> event) \<Rightarrow> (nat \<times> reply res) list \<Rightarrow> lockfs \<Rightarrow> reply res list \<times> lockfs" where
  "seq_run jobs h fs = run (map (\<lambda>(p, _). jobs p) h) fs"

definition serial_inv :: "(nat \<Rightarrow> event) \<Rightarrow> lockfs \<Rightarrow> world \<Rightarrow> bool" where
  "serial_inv jobs fs0 w = (done_ok w \<and>
     fst (seq_run jobs (hist w) fs0) = map snd (hist w) \<and>
     (case guard w of
        None \<Rightarrow> fsys w = snd (seq_run jobs (hist w) fs0) \<and> (\<forall>p. \<not> in_guard (procs w p))
      | Some p \<Rightarrow> progress (jobs p) (procs w p) (snd (seq_run jobs (hist w) fs0)) (fsys w) \<and>
                  (\<forall>q. in_guard (procs w q) \<longrightarrow> q = p)))"

lemma in_guard_simps [simp]:
  "\<not> in_guard Ready" "\<not> in_guard (Done x)" "in_guard Entered" "in_guard (HasRead ex)"
  "in_guard (Leaving x)" "in_guard (after_read rd)"
  by (simp_all add: in_guard_def after_read_def split: sum.split)

lemma seq_run_snoc:
  assumes "jobs p = (io, tc, ts, r)" and "exec_req io tc ts r (snd (seq_run jobs h fs)) = (x, fs')"
    and "fst (seq_run jobs h fs) = map snd h"
  shows "seq_run jobs (h @ [(p, x)]) fs = (map snd (h @ [(p, x)]), fs')"
  using assms by (auto simp: seq_run_def run_append split: prod.splits)

lemma done_ok_add:
  assumes "done_ok w" and "\<And>x. procs w p \<noteq> Done x"
  shows "done_ok (w\<lparr>guard := g, procs := (procs w)(p := Done x), hist := hist w @ [(p, x)]\<rparr>)"
    and "done_ok (w\<lparr>procs := (procs w)(p := Done x), hist := hist w @ [(p, x)]\<rparr>)"
  using assms by (auto simp: done_ok_def)

lemma done_ok_keep:
  assumes "done_ok w" and "\<And>x. procs w p \<noteq> Done x" and "\<And>x. s \<noteq> Done x"
  shows "done_ok (w\<lparr>guard := g, procs := (procs w)(p := s)\<rparr>)"
    and "done_ok (w\<lparr>fsys := fs', procs := (procs w)(p := s)\<rparr>)"
  using assms by (auto simp: done_ok_def)

lemma after_read_not_Done [simp]: "after_read rd \<noteq> Done x"
  by (simp add: after_read_def split: sum.split)

lemma progress_in_guard: "progress e s fsL fs \<Longrightarrow> in_guard s"
  by (auto simp: progress_def in_guard_def split: pstate.splits)

lemma progress_read:
  "progress (io, tc, ts, r) Entered fsL fs \<Longrightarrow> read_lock io tc fs = (rd, fs') \<Longrightarrow>
     progress (io, tc, ts, r) (after_read rd) fsL fs'"
  by (auto simp: progress_def after_read_def guarded_def split: sum.split)

lemma progress_finish:
  "progress (io, tc, ts, r) (HasRead ex) fsL fs \<Longrightarrow> finish io ts r ex fs = (x, fs') \<Longrightarrow>
     progress (io, tc, ts, r) (Leaving x) fsL fs'"
  by (auto simp: progress_def guarded_def)

lemma progress_leave:
  "progress (io, tc, ts, r) (Leaving x) fsL fs \<Longrightarrow> exec_req io tc ts r fsL = (x, fs)"
  by (auto simp: progress_def exec_req_phases)

text \<open>A process inside the guard is the one the guard names.\<close>

lemma inv_in_guard:
  assumes "serial_inv jobs fs0 w" and "in_guard (procs w p)"
  shows "guard w = Some p" "progress (jobs p) (procs w p) (snd (seq_run jobs (hist w) fs0)) (fsys w)"
  using assms by (auto simp: serial_inv_def split: option.splits)

lemma serial_inv_start: "serial_inv jobs fs0 (idle_world fs0)"
  by (simp add: serial_inv_def idle_world_def done_ok_def seq_run_def)

lemma serial_inv_answer:
  assumes inv: "serial_inv jobs fs0 w" and p: "procs w p = Ready" "jobs p = (io, tc, ts, r)"
    and ex: "\<And>fs. exec_req io tc ts r fs = (x, fs)"
  shows "serial_inv jobs fs0 (w\<lparr>procs := (procs w)(p := Done x), hist := hist w @ [(p, x)]\<rparr>)"
proof -
  have rep: "fst (seq_run jobs (hist w) fs0) = map snd (hist w)" and d: "done_ok w"
    using inv by (auto simp: serial_inv_def)
  note s = seq_run_snoc [OF p(2) ex rep]
  have "guard w = Some q \<Longrightarrow> q \<noteq> p" for q
    using inv p by (auto simp: serial_inv_def progress_def)
  then show ?thesis
    using inv p s done_ok_add(2) [OF d, of p x]
    by (auto simp: serial_inv_def split: option.splits)
qed

lemma serial_inv_step:
  assumes "lstep jobs w w'" and inv: "serial_inv jobs fs0 w"
  shows "serial_inv jobs fs0 w'"
  using assms(1)
proof cases
  case (early p io tc ts r x)
  then show ?thesis using serial_inv_answer [OF inv] by (simp add: exec_req_phases)
next
  case (enter_fail p io tc ts r)
  then show ?thesis using serial_inv_answer [OF inv] by (simp add: exec_req_phases)
next
  case (enter p io tc ts r)
  then show ?thesis
    using inv done_ok_keep(1) [of w p Entered "Some p"] by (auto simp: serial_inv_def progress_def)
next
  case (read p io tc ts r rd fs')
  then have g: "guard w = Some p" and pr: "progress (jobs p) Entered (snd (seq_run jobs (hist w) fs0)) (fsys w)"
    using inv_in_guard [OF inv, of p] by auto
  from progress_read [OF pr [unfolded read] read(4)] read show ?thesis
    using inv g done_ok_keep(2) [of w p "after_read rd" fs'] by (auto simp: serial_inv_def)
next
  case (finish p ex io tc ts r x fs')
  then have g: "guard w = Some p" and pr: "progress (jobs p) (HasRead ex) (snd (seq_run jobs (hist w) fs0)) (fsys w)"
    using inv_in_guard [OF inv, of p] by auto
  from progress_finish [OF pr [unfolded finish] finish(4)] finish show ?thesis
    using inv g done_ok_keep(2) [of w p "Leaving x" fs'] by (auto simp: serial_inv_def)
next
  case (leave p x)
  obtain io tc ts r where j: "jobs p = (io, tc, ts, r)" by (cases "jobs p") auto
  from leave have g: "guard w = Some p"
    and pr: "progress (jobs p) (Leaving x) (snd (seq_run jobs (hist w) fs0)) (fsys w)"
    using inv_in_guard [OF inv, of p] by auto
  have rep: "fst (seq_run jobs (hist w) fs0) = map snd (hist w)" and d: "done_ok w"
    using inv by (auto simp: serial_inv_def)
  from seq_run_snoc [OF j progress_leave [OF pr [unfolded j]] rep] leave show ?thesis
    using inv g done_ok_add(1) [OF d, where p = p and g = None and x = x] by (auto simp: serial_inv_def)
qed

lemma serial_inv_reachable: "(lstep jobs)\<^sup>*\<^sup>* (idle_world fs0) w \<Longrightarrow> serial_inv jobs fs0 w"
  by (induction rule: rtranclp_induct) (auto intro: serial_inv_start serial_inv_step)

section \<open>No request gets stuck\<close>

text \<open>Until every request is answered some step is possible: nobody waits for a guard that
  is never given back.\<close>

lemma lstep_in_guard: "in_guard (procs w p) \<Longrightarrow> \<exists>w'. lstep jobs w w'"
proof -
  assume g: "in_guard (procs w p)"
  obtain io tc ts r where j: "jobs p = (io, tc, ts, r)" by (cases "jobs p") auto
  show ?thesis
  proof (cases "procs w p")
    case Entered
    obtain rd fs' where "read_lock io tc (fsys w) = (rd, fs')" by fastforce
    from lstep.read [where jobs = jobs, OF Entered j this] show ?thesis by blast
  next
    case (HasRead ex)
    obtain x fs' where "Lock_Runs.finish io ts r ex (fsys w) = (x, fs')" by fastforce
    from lstep.finish [where jobs = jobs, OF HasRead j this] show ?thesis by blast
  next
    case (Leaving x)
    from lstep.leave [OF this] show ?thesis by blast
  qed (use g in auto)
qed

lemma not_stuck:
  assumes "serial_inv jobs fs0 w" and "\<And>x. procs w p \<noteq> Done x"
  shows "\<exists>w'. lstep jobs w w'"
proof (cases "\<exists>q. in_guard (procs w q)")
  case True
  then show ?thesis using lstep_in_guard by blast
next
  case False
  then have free: "guard w = None"
    using assms(1) by (auto simp: serial_inv_def dest: progress_in_guard split: option.splits)
  from False have "\<not> in_guard (procs w p)" by blast
  with assms(2) have ready: "procs w p = Ready" by (cases "procs w p") auto
  obtain io tc ts r where j: "jobs p = (io, tc, ts, r)" by (cases "jobs p") auto
  show ?thesis
  proof (cases "pre_check r")
    case (Some x)
    from early [where jobs = jobs, OF ready j this] show ?thesis by blast
  next
    case None
    from enter [where jobs = jobs, OF ready j None _ free]
      enter_fail [where jobs = jobs, OF ready j None] show ?thesis by blast
  qed
qed

section \<open>One reservation\<close>

text \<open>The payload of \<^verbatim>\<open>lager boxes lock\<close>: no classification, no time to live.\<close>

abbreviation lock_cmd :: "string \<Rightarrow> req" where
  "lock_cmd u \<equiv> Acquire (VStr u) None None"

fun lock_user :: "event \<Rightarrow> string option" where
  "lock_user (io, tc, ts, Acquire (VStr u) None None) = Some u"
| "lock_user _ = None"

definition granted :: "reply res \<Rightarrow> bool" where
  "granted x = (case x of Inr (c, b) \<Rightarrow> c = 200 | Inl _ \<Rightarrow> False)"

lemma lock_user_Some: "lock_user e = Some u \<Longrightarrow> \<exists>io tc ts. e = (io, tc, ts, lock_cmd u)"
  by (induction e rule: lock_user.induct) auto

lemma lock_free:
  assumes "read_lock_raw fs = Inr None" and "exec_req io tc ts (lock_cmd u) fs = (x, fs')"
  shows "if granted x then reserved u fs' else read_lock_raw fs' = Inr None"
  using assms
  by (auto simp: exec_req_phases guarded_def read_lock_def norm_request_def put_def write_lock_def
      Let_def fresh_lock_def granted_def reserved_def is_auto_def split: if_splits)

lemma lock_reserved:
  assumes "reserved v fs" and "exec_req io tc ts (lock_cmd u) fs = (x, fs')"
  shows "reserved v fs' \<and> (granted x \<longrightarrow> u = v)"
proof -
  have "reserved v fs'" using reserved_step [OF assms(1), of "lock_cmd u" io tc ts] assms(2)
    by (simp add: keeps_def)
  moreover obtain d where "live tc fs d" "dict_get d ''user'' = VStr v"
    using reserved_live [OF assms(1)] by blast
  then have "u \<noteq> v \<Longrightarrow> \<not> granted x"
    using foreign_request_frame [of tc fs d "lock_cmd u" io ts x fs'] assms(2)
    by (auto simp: granted_def split: sum.splits)
  ultimately show ?thesis by blast
qed

definition lock_only :: "event list \<Rightarrow> bool" where
  "lock_only es = list_all (\<lambda>e. lock_user e \<noteq> None) es"

definition only_user :: "string \<Rightarrow> event list \<Rightarrow> reply res list \<Rightarrow> bool" where
  "only_user v es xs = (\<forall>(e, x) \<in> set (zip es xs). granted x \<longrightarrow> lock_user e = Some v)"

lemma only_userD:
  "only_user v es xs \<Longrightarrow> (e, x) \<in> set (zip es xs) \<Longrightarrow> granted x \<Longrightarrow> lock_user e = Some v"
  by (auto simp: only_user_def)

lemma only_user_reserved:
  "reserved v fs \<Longrightarrow> lock_only es \<Longrightarrow> only_user v es (fst (run es fs))"
proof (induction es arbitrary: fs)
  case (Cons e es)
  then obtain u io tc ts where e: "e = (io, tc, ts, lock_cmd u)"
    by (auto simp: lock_only_def dest: lock_user_Some)
  obtain x fs' where x: "exec_req io tc ts (lock_cmd u) fs = (x, fs')" by fastforce
  with lock_reserved [OF Cons.prems(1) x] Cons.IH [of fs'] Cons.prems(2) e show ?case
    by (auto simp: only_user_def lock_only_def split: prod.splits)
qed (simp add: only_user_def)

lemma only_user_free:
  "read_lock_raw fs = Inr None \<Longrightarrow> lock_only es \<Longrightarrow> \<exists>v. only_user v es (fst (run es fs))"
proof (induction es arbitrary: fs)
  case (Cons e es)
  then obtain u io tc ts where e: "e = (io, tc, ts, lock_cmd u)"
    by (auto simp: lock_only_def dest: lock_user_Some)
  obtain x fs' where x: "exec_req io tc ts (lock_cmd u) fs = (x, fs')" by fastforce
  have rest: "lock_only es" using Cons.prems(2) by (simp add: lock_only_def)
  show ?case
  proof (cases "granted x")
    case True
    with lock_free [OF Cons.prems(1) x] only_user_reserved rest
    have "only_user u es (fst (run es fs'))" by auto
    with e x show ?thesis by (auto simp: only_user_def split: prod.splits intro!: exI [of _ u])
  next
    case False
    with lock_free [OF Cons.prems(1) x] Cons.IH [of fs'] rest
    obtain v where "only_user v es (fst (run es fs'))" by auto
    with e x False show ?thesis by (auto simp: only_user_def split: prod.splits intro!: exI [of _ v])
  qed
qed (simp add: only_user_def)

lemma hist_zip:
  assumes "fst (seq_run jobs h fs0) = map snd h" and "(p, x) \<in> set h"
  shows "(jobs p, x) \<in> set (zip (map (\<lambda>(p, _). jobs p) h) (fst (seq_run jobs h fs0)))"
  using assms(2) unfolding assms(1) by (force simp: zip_map_map zip_same_conv_map)

lemma one_reservation:
  assumes inv: "serial_inv jobs fs0 w" and free: "read_lock_raw fs0 = Inr None"
    and jobs: "\<And>p. lock_user (jobs p) \<noteq> None"
    and "procs w p = Done x" "granted x" "procs w q = Done y" "granted y"
  shows "lock_user (jobs p) = lock_user (jobs q)"
proof -
  let ?es = "map (\<lambda>(p, _). jobs p) (hist w)"
  have rep: "fst (seq_run jobs (hist w) fs0) = map snd (hist w)" and d: "done_ok w"
    using inv by (auto simp: serial_inv_def)
  have "lock_only ?es" using jobs by (auto simp: lock_only_def list_all_iff)
  from only_user_free [OF free this] obtain v where v: "only_user v ?es (fst (seq_run jobs (hist w) fs0))"
    by (auto simp: seq_run_def)
  from d assms(4,6) have "(p, x) \<in> set (hist w)" "(q, y) \<in> set (hist w)" by (auto simp: done_ok_def)
  from this [THEN hist_zip [OF rep]] have "lock_user (jobs p) = Some v" "lock_user (jobs q) = Some v"
    using only_userD [OF v] assms(5,7) by blast+
  then show ?thesis by simp
qed

section \<open>A request without competition\<close>

text \<open>The steps of one process that finds the guard free.\<close>

lemma solo:
  assumes "guard w = None" "procs w p = Ready" and j: "jobs p = (io, tc, ts, r)"
    and "pre_check r = None" "guard_ok io" and rd: "read_lock io tc (fsys w) = (Inr ex, fs1)"
    and fin: "Lock_Runs.finish io ts r ex fs1 = (x, fs2)"
  shows "(lstep jobs)\<^sup>*\<^sup>* w (w\<lparr>fsys := fs2, procs := (procs w)(p := Done x), hist := hist w @ [(p, x)]\<rparr>)"
proof -
  let ?w1 = "w\<lparr>guard := Some p, procs := (procs w)(p := Entered)\<rparr>"
  let ?w2 = "?w1\<lparr>fsys := fs1, procs := (procs ?w1)(p := after_read (Inr ex))\<rparr>"
  let ?w3 = "?w2\<lparr>fsys := fs2, procs := (procs ?w2)(p := Leaving x)\<rparr>"
  let ?w4 = "?w3\<lparr>guard := None, procs := (procs ?w3)(p := Done x), hist := hist ?w3 @ [(p, x)]\<rparr>"
  have "lstep jobs w ?w1" using assms by (intro lstep.enter [where jobs = jobs]) auto
  moreover have "lstep jobs ?w1 ?w2" using j rd by (intro lstep.read [where jobs = jobs]) auto
  moreover have "lstep jobs ?w2 ?w3" using j fin
    by (intro lstep.finish [where jobs = jobs]) (auto simp: after_read_def)
  moreover have "lstep jobs ?w3 ?w4" by (intro lstep.leave) simp
  ultimately have "(lstep jobs)\<^sup>*\<^sup>* w ?w4" by (meson converse_rtranclp_into_rtranclp rtranclp.rtrancl_refl)
  moreover have "?w4 = w\<lparr>fsys := fs2, procs := (procs w)(p := Done x), hist := hist w @ [(p, x)]\<rparr>"
    using assms(1) by simp
  ultimately show ?thesis by simp
qed

end
