(* ===== verification/Job_Lock.thy ===== *)
theory Job_Lock
  imports Lock_Runs
begin

text \<open>
  The lock of a detached job (\<^verbatim>\<open>box/lager/python/job_lock.py\<close>): \<^verbatim>\<open>DetachedJobLock\<close>
  heartbeats the holder its job was launched with and releases at the end. The object and the
  lock file are the state; the timer thread's loop is cut at its two blocking points, the
  wait on the stop event and the heartbeat call, so that \<^verbatim>\<open>stop()\<close> from another thread
  can come between them. The two calls into \<^verbatim>\<open>lock_state\<close> are arguments, and the locale
  \<open>lock_service\<close> states what the job relies on of them.
\<close>

section \<open>The object\<close>

datatype thread = NotStarted | Waiting | Beating | Ended

record job_lock =
  holder :: pyval
  stop_set :: bool
  thread :: thread

definition init :: "pyval \<Rightarrow> job_lock" where
  "init h = \<lparr>holder = h, stop_set = False, thread = NotStarted\<rparr>"

definition start :: "job_lock \<Rightarrow> job_lock" where
  "start j = (if \<not> truthy (holder j) \<or> thread j \<noteq> NotStarted then j else j\<lparr>thread := Waiting\<rparr>)"

type_synonym 's lock_call = "pyval \<Rightarrow> 's \<Rightarrow> reply res \<times> 's"

definition stop :: "'s lock_call \<Rightarrow> bool \<Rightarrow> job_lock \<Rightarrow> 's \<Rightarrow> job_lock \<times> 's" where
  "stop rel do_release j s = (let j' = j\<lparr>stop_set := True\<rparr> in
     if \<not> truthy (holder j) then (j', s)
     else if do_release then (j', snd (rel (holder j) s))
     else (j', s))"

text \<open>One pass of the loop: the wait ends it when the event is set, and a heartbeat ends it
  when it raises or answers anything but 200.\<close>

definition run_wait :: "job_lock \<Rightarrow> job_lock" where
  "run_wait j = (if thread j = Waiting
     then j\<lparr>thread := (if stop_set j then Ended else Beating)\<rparr> else j)"

definition run_beat :: "'s lock_call \<Rightarrow> job_lock \<Rightarrow> 's \<Rightarrow> job_lock \<times> 's" where
  "run_beat hb j s = (if thread j \<noteq> Beating then (j, s)
     else case hb (holder j) s of
       (Inl e, s') \<Rightarrow> (j\<lparr>thread := Ended\<rparr>, s')
     | (Inr (c, body), s') \<Rightarrow>
         (j\<lparr>thread := (if c \<noteq> 200 then Ended else Waiting)\<rparr>, s'))"

section \<open>Operations in sequence\<close>

datatype jop = JStart | JWait | JBeat | JStop bool

fun job_step :: "'s lock_call \<Rightarrow> 's lock_call \<Rightarrow> jop \<Rightarrow> job_lock \<times> 's \<Rightarrow> job_lock \<times> 's" where
  "job_step hb rel JStart (j, s) = (start j, s)"
| "job_step hb rel JWait (j, s) = (run_wait j, s)"
| "job_step hb rel JBeat (j, s) = run_beat hb j s"
| "job_step hb rel (JStop r) (j, s) = stop rel r j s"

fun job_run :: "('e \<Rightarrow> 's lock_call) \<Rightarrow> ('e \<Rightarrow> 's lock_call) \<Rightarrow> ('e \<times> jop) list \<Rightarrow>
    job_lock \<times> 's \<Rightarrow> job_lock \<times> 's" where
  "job_run hb rel [] js = js"
| "job_run hb rel ((e, jo) # ops) js = job_run hb rel ops (job_step (hb e) (rel e) jo js)"

lemmas job_defs = init_def start_def stop_def run_wait_def run_beat_def Let_def

lemma job_step_holder [simp]: "holder (fst (job_step hb rel jo js)) = holder (fst js)"
  by (cases "(hb, rel, jo, js)" rule: job_step.cases)
    (auto simp: job_defs split: prod.splits sum.splits)

lemma job_run_holder [simp]: "holder (fst (job_run hb rel ops js)) = holder (fst js)"
  by (induction hb rel ops js rule: job_run.induct) simp_all

text \<open>A thread that ended stays ended, and only a releasing stop touches the lock then.\<close>

lemma ended_step:
  assumes "thread j = Ended"
  shows "thread (fst (job_step hb rel jo (j, s))) = Ended"
    and "jo \<noteq> JStop True \<Longrightarrow> snd (job_step hb rel jo (j, s)) = s"
  using assms by (cases jo; simp add: job_defs)+

lemma ended_run:
  "thread j = Ended \<Longrightarrow> list_all (\<lambda>(e, jo). jo \<noteq> JStop True) ops \<Longrightarrow>
     snd (job_run hb rel ops (j, s)) = s \<and> thread (fst (job_run hb rel ops (j, s))) = Ended"
proof (induction ops arbitrary: j s)
  case (Cons op ops)
  obtain e jo where op: "op = (e, jo)" by (cases op)
  obtain j' s' where st: "job_step (hb e) (rel e) jo (j, s) = (j', s')" by fastforce
  with ended_step(1) [OF Cons.prems(1), of "hb e" "rel e" jo s]
    ended_step(2) [OF Cons.prems(1), of jo "hb e" "rel e" s] Cons.prems(2) op
  have "thread j' = Ended" "s' = s" by auto
  with Cons.IH [of j' s'] Cons.prems(2) op st show ?case by simp
qed simp

text \<open>Without a holder the object is inert.\<close>

definition idle :: "job_lock \<Rightarrow> bool" where
  "idle j = (\<not> truthy (holder j) \<and> thread j = NotStarted)"

lemma idle_step:
  "idle (fst js) \<Longrightarrow> idle (fst (job_step hb rel jo js)) \<and> snd (job_step hb rel jo js) = snd js"
  by (cases "(hb, rel, jo, js)" rule: job_step.cases) (auto simp: idle_def job_defs)

lemma idle_run: "idle (fst js) \<Longrightarrow> snd (job_run hb rel ops js) = snd js"
  by (induction hb rel ops js rule: job_run.induct) (auto simp: idle_step)

section \<open>What the job relies on\<close>

text \<open>
  \<open>cur e s\<close> is the holder of the live lock at the time of \<open>e\<close>. A call for somebody
  else's lock changes nothing and is not answered 200, and a heartbeat on no lock is not
  answered 200.
\<close>

locale lock_service =
  fixes hb :: "'e \<Rightarrow> 's lock_call" and rel :: "'e \<Rightarrow> 's lock_call"
    and cur :: "'e \<Rightarrow> 's \<Rightarrow> pyval option"
  assumes hb_foreign: "cur e s = Some v \<Longrightarrow> \<not> py_eq v u \<Longrightarrow> hb e u s = (x, s') \<Longrightarrow>
      s' = s \<and> x \<noteq> Inr (200, b)"
    and rel_foreign: "cur e s = Some v \<Longrightarrow> \<not> py_eq v u \<Longrightarrow> rel e u s = (x, s') \<Longrightarrow> s' = s"
    and hb_none: "cur e s = None \<Longrightarrow> hb e u s = (x, s') \<Longrightarrow> x \<noteq> Inr (200, b)"
begin

lemma step_foreign:
  assumes "cur e s = Some v" and "\<not> py_eq v (holder j)"
  shows "snd (job_step (hb e) (rel e) jo (j, s)) = s"
proof (cases jo)
  case JBeat
  obtain x s' where "hb e (holder j) s = (x, s')" by fastforce
  with JBeat hb_foreign [OF assms] show ?thesis
    by (auto simp: run_beat_def split: sum.splits)
next
  case (JStop r)
  obtain x s' where "rel e (holder j) s = (x, s')" by fastforce
  with JStop rel_foreign [OF assms] show ?thesis by (auto simp: stop_def Let_def)
qed simp_all

lemma run_foreign:
  assumes "\<And>e. e \<in> fst ` set ops \<Longrightarrow> cur e s = Some v \<and> \<not> py_eq v (holder j)"
  shows "snd (job_run hb rel ops (j, s)) = s"
  using assms
proof (induction ops arbitrary: j)
  case (Cons op ops)
  obtain e jo where op: "op = (e, jo)" by (cases op)
  obtain j' s' where st: "job_step (hb e) (rel e) jo (j, s) = (j', s')" by fastforce
  from Cons.prems [of e] op have "snd (job_step (hb e) (rel e) jo (j, s)) = s"
    by (auto intro: step_foreign)
  with st have s': "s' = s" by simp
  moreover have "holder j' = holder j" using job_step_holder [of "hb e" "rel e" jo "(j, s)"] st by simp
  ultimately show ?case using Cons.IH [of j'] Cons.prems op st by auto
qed simp

lemma beat_continues:
  assumes "thread j = Beating" and "run_beat (hb e) j s = (j', s')" and "thread j' \<noteq> Ended"
  shows "\<exists>v. cur e s = Some v \<and> py_eq v (holder j)"
proof -
  obtain x s1 where hb: "hb e (holder j) s = (x, s1)" by fastforce
  with assms obtain b where x: "x = Inr (200, b)"
    by (auto simp: run_beat_def split: sum.splits if_splits)
  show ?thesis
  proof (cases "cur e s")
    case None
    from hb_none [OF None hb] x show ?thesis by blast
  next
    case (Some v)
    from hb_foreign [OF Some _ hb] x show ?thesis using Some by blast
  qed
qed

end

section \<open>The lock of the box provides it\<close>

type_synonym env = "io \<times> int \<times> int"

fun hb_call :: "env \<Rightarrow> lockfs lock_call" where
  "hb_call (io, tc, ts) u fs = heartbeat io tc ts u fs"

fun rel_call :: "env \<Rightarrow> lockfs lock_call" where
  "rel_call (io, tc, ts) u fs = release io tc u False fs"

fun live_holder :: "env \<Rightarrow> lockfs \<Rightarrow> pyval option" where
  "live_holder (io, tc, ts) fs = (case read_lock_raw fs of
      Inr (Some d) \<Rightarrow> if is_expired tc d = Inr False then Some (dict_get d ''user'') else None
    | _ \<Rightarrow> None)"

lemma live_holder_Some:
  "live_holder (io, tc, ts) fs = Some v \<longleftrightarrow> (\<exists>d. live tc fs d \<and> dict_get d ''user'' = v)"
  by (auto simp: live_def split: sum.splits option.splits)

lemma call_foreign:
  assumes "live_holder (io, tc, ts) fs = Some v" and "\<not> py_eq v (req_user r)" "\<not> is_forced r" "r \<noteq> Status"
    and "exec_req io tc ts r fs = (x, fs')"
  shows "fs' = fs \<and> x \<noteq> Inr (200, b)"
proof -
  from assms(1) obtain d where "live tc fs d" "dict_get d ''user'' = v"
    unfolding live_holder_Some by blast
  with foreign_request_frame [of tc fs d r io ts x fs'] assms(2-) show ?thesis by blast
qed

lemma heartbeat_no_lock:
  assumes "live_holder (io, tc, ts) fs = None" and "heartbeat io tc ts u fs = (x, fs')"
  shows "x \<noteq> Inr (200, b)"
  using assms
  by (auto simp: heartbeat_def with_guard_def read_lock_def clear_lock_def Let_def
      split: sum.splits option.splits bool.splits if_splits prod.splits)

interpretation box_lock: lock_service hb_call rel_call live_holder
proof unfold_locales
  fix e :: env and s s' :: lockfs and v u x b
  obtain io tc ts where e: "e = (io, tc, ts)" by (cases e)
  show "live_holder e s = Some v \<Longrightarrow> \<not> py_eq v u \<Longrightarrow> hb_call e u s = (x, s') \<Longrightarrow> s' = s \<and> x \<noteq> Inr (200, b)"
    using call_foreign [of io tc ts s v "Heartbeat u" x s' b] e by simp
  show "live_holder e s = Some v \<Longrightarrow> \<not> py_eq v u \<Longrightarrow> rel_call e u s = (x, s') \<Longrightarrow> s' = s"
    using call_foreign [of io tc ts s v "Release u False" x s' b] e by simp
  show "live_holder e s = None \<Longrightarrow> hb_call e u s = (x, s') \<Longrightarrow> x \<noteq> Inr (200, b)"
    using heartbeat_no_lock [of io tc ts s u x s' b] e by simp
qed

section \<open>Heartbeats keep the lock\<close>

text \<open>
  \<open>held u n t fs\<close>: the file is well formed and holds a lock of \<open>u\<close> with time to live
  \<open>n\<close>, last beaten at \<open>t\<close>. A heartbeat of \<open>u\<close> counts (\<open>beats\<close>) when its system calls
  succeed; one whose guard or write fails is an event like any other. In a timely history
  no request comes more than \<open>n\<close> seconds after the last heartbeat that counts, and every
  request is a heartbeat of \<open>u\<close>, a status query, or comes from another client without
  force; their system calls may fail. So \<open>u\<close> neither releases nor reacquires the lock,
  and nobody forces it.
\<close>

definition held :: "string \<Rightarrow> int \<Rightarrow> int \<Rightarrow> lockfs \<Rightarrow> bool" where
  "held u n t fs = (lock_wf fs \<and> (case abs_state fs of None \<Rightarrow> False
     | Some l \<Rightarrow> aholder l = VStr u \<and> attl l = Some n \<and> abeat l = t))"

definition io_writes :: "io \<Rightarrow> bool" where
  "io_writes io = (guard_ok io \<and> mkdirs_ok io \<and> mkstemp_ok io \<and> fchmod_ok io \<and> dump_ok io \<and>
     fsync_ok io \<and> replace_ok io)"

definition beats :: "string \<Rightarrow> event \<Rightarrow> bool" where
  "beats u e = (case e of (io, tc, ts, r) \<Rightarrow> r = Heartbeat (VStr u) \<and> io_writes io)"

definition next_beat :: "string \<Rightarrow> event \<Rightarrow> int \<Rightarrow> int" where
  "next_beat u e t = (if beats u e then whole_second (fst (snd (snd e))) else t)"

definition timely_event :: "string \<Rightarrow> int \<Rightarrow> int \<Rightarrow> event \<Rightarrow> bool" where
  "timely_event u n t e = (case e of (io, tc, ts, r) \<Rightarrow> tc \<le> t + n * usec \<and>
     (if r = Heartbeat (VStr u) then clock_ok ts
      else r = Status \<or> \<not> py_eq (VStr u) (req_user r) \<and> \<not> is_forced r))"

fun timely :: "string \<Rightarrow> int \<Rightarrow> int \<Rightarrow> event list \<Rightarrow> bool" where
  "timely u n t [] = True"
| "timely u n t (e # es) = (timely_event u n t e \<and> timely u n (next_beat u e t) es)"

fun last_beat :: "string \<Rightarrow> int \<Rightarrow> event list \<Rightarrow> int" where
  "last_beat u t [] = t"
| "last_beat u t (e # es) = last_beat u (next_beat u e t) es"

lemma held_live:
  assumes "held u n t fs" and "tc \<le> t + n * usec"
  obtains d where "live tc fs d" "dict_get d ''user'' = VStr u" "wf_lock d" "abs_lock d = the (abs_state fs)"
proof -
  from assms(1) obtain d where d: "read_lock_raw fs = Inr (Some d)" "wf_lock d"
    and a: "aholder (abs_lock d) = VStr u" "attl (abs_lock d) = Some n" "abeat (abs_lock d) = t"
    by (auto simp: held_def lock_wf_def abs_state_def split: sum.splits option.splits)
  then have "is_expired tc d = Inr False"
    using is_expired_wf [OF d(2), of tc] assms(2) by (simp add: aexpired_def)
  with d a that show ?thesis by (simp add: live_def abs_state_def)
qed

lemma held_json: "lock_json fs' = lock_json fs \<Longrightarrow> held u n t fs' = held u n t fs"
  by (simp add: held_def lock_wf_def abs_state_def read_lock_raw_def)

lemma live_heartbeat_writes:
  assumes "live tc fs d" and "io_writes io"
  shows "heartbeat io tc ts v fs = heartbeat io_good tc ts v fs"
  using assms by (simp add: heartbeat_def with_guard_def read_lock_live write_lock_def io_writes_def)

lemma live_heartbeat_fails:
  assumes "live tc fs d" and "dict_get d ''user'' = VStr u" and "u \<noteq> []" and "\<not> io_writes io"
    and "heartbeat io tc ts (VStr u) fs = (x, fs')"
  shows "x = Inl OSError \<and> lock_json fs' = lock_json fs"
  using assms
  by (auto simp: heartbeat_def with_guard_def read_lock_live write_lock_def io_writes_def Let_def
      split: if_splits)

lemma held_beat_good:
  assumes "held u n t fs" and "tc \<le> t + n * usec" and "clock_ok ts" and "u \<noteq> []"
  shows "\<exists>b fs'. exec_req io_good tc ts (Heartbeat (VStr u)) fs = (Inr (200, b), fs') \<and>
           held u n (whole_second ts) fs'"
proof -
  obtain l where l: "abs_state fs = Some l" "aholder l = VStr u" "attl l = Some n" "abeat l = t" "lock_wf fs"
    using assms(1) by (auto simp: held_def split: option.splits)
  with assms(2) have "alive tc (Some l) = Some l" by (simp add: alive_def aexpired_def)
  then have sp: "spec_step tc ts (AHeartbeat (VStr u)) (abs_state fs) = (200, Some (l\<lparr>abeat := whole_second ts\<rparr>))"
    using l by simp
  have "abs_req (Heartbeat (VStr u)) = Some (AHeartbeat (VStr u))" using assms(4) by simp
  from exec_req_refines [OF l(5) assms(3) this, of tc] sp obtain b fs'
    where ex: "exec_req io_good tc ts (Heartbeat (VStr u)) fs = (Inr (200, b), fs')" "lock_wf fs'"
      and ab: "abs_state fs' = Some (l\<lparr>abeat := whole_second ts\<rparr>)"
    by (metis prod.inject)
  from ex(2) ab l have "held u n (whole_second ts) fs'" by (simp add: held_def)
  with ex(1) show ?thesis by blast
qed

lemma held_beat:
  assumes "held u n t fs" and "tc \<le> t + n * usec" and "clock_ok ts" and "u \<noteq> []" and "io_writes io"
  shows "\<exists>b fs'. exec_req io tc ts (Heartbeat (VStr u)) fs = (Inr (200, b), fs') \<and>
           held u n (whole_second ts) fs'"
proof -
  obtain d where d: "live tc fs d" using held_live [OF assms(1,2)] by blast
  show ?thesis
    using held_beat_good [OF assms(1-4)] by (simp add: live_heartbeat_writes [OF d assms(5)])
qed

lemma held_beat_fails:
  assumes "held u n t fs" and "tc \<le> t + n * usec" and "u \<noteq> []" and "\<not> io_writes io"
    and "exec_req io tc ts (Heartbeat (VStr u)) fs = (x, fs')"
  shows "x = Inl OSError \<and> held u n t fs'"
proof -
  obtain d where d: "live tc fs d" "dict_get d ''user'' = VStr u"
    using held_live [OF assms(1,2)] by blast
  have "x = Inl OSError \<and> lock_json fs' = lock_json fs"
    using live_heartbeat_fails [OF d assms(3,4)] assms(5) by simp
  with assms(1) held_json [of fs' fs] show ?thesis by simp
qed

lemma held_other:
  assumes "held u n t fs" and "tc \<le> t + n * usec"
    and "r = Status \<or> \<not> py_eq (VStr u) (req_user r) \<and> \<not> is_forced r"
    and "exec_req io tc ts r fs = (x, fs')"
  shows "fs' = fs \<and> (r \<noteq> Status \<longrightarrow> (\<forall>b. x \<noteq> Inr (200, b)))"
proof -
  obtain d where d: "live tc fs d" "dict_get d ''user'' = VStr u" using held_live [OF assms(1,2)] by blast
  show ?thesis
  proof (cases "r = Status")
    case True
    with d(1) assms(4) show ?thesis
      by (auto simp: exec_req_phases guarded_def read_lock_live split: if_splits)
  next
    case False
    with foreign_request_frame [OF d(1), of r io ts x fs'] d(2) assms(3,4) show ?thesis by auto
  qed
qed

definition answer_ok :: "string \<Rightarrow> event \<Rightarrow> reply res \<Rightarrow> bool" where
  "answer_ok u e x = (case e of (io, tc, ts, r) \<Rightarrow>
     if beats u e then \<exists>b. x = Inr (200, b) else r = Status \<or> (\<forall>b. x \<noteq> Inr (200, b)))"

lemma held_step:
  assumes "held u n t fs" and "timely_event u n t (io, tc, ts, r)" and "u \<noteq> []"
    and "exec_req io tc ts r fs = (x, fs')"
  shows "answer_ok u (io, tc, ts, r) x \<and> held u n (next_beat u (io, tc, ts, r) t) fs'"
proof -
  have tc: "tc \<le> t + n * usec" using assms(2) by (simp add: timely_event_def)
  consider (beat) "r = Heartbeat (VStr u)" "io_writes io" | (fail) "r = Heartbeat (VStr u)" "\<not> io_writes io"
    | (other) "r \<noteq> Heartbeat (VStr u)" by blast
  then show ?thesis
  proof cases
    case beat
    with held_beat [OF assms(1) tc _ assms(3), of ts io] assms(2,4) show ?thesis
      by (auto simp: timely_event_def beats_def next_beat_def answer_ok_def)
  next
    case fail
    with held_beat_fails [OF assms(1) tc assms(3), of io ts x fs'] assms(4) show ?thesis
      by (auto simp: beats_def next_beat_def answer_ok_def)
  next
    case other
    with held_other [OF assms(1) tc _ assms(4)] assms(1,2) show ?thesis
      by (auto simp: timely_event_def beats_def next_beat_def answer_ok_def)
  qed
qed

lemma held_run:
  "held u n t fs \<Longrightarrow> timely u n t es \<Longrightarrow> u \<noteq> [] \<Longrightarrow>
     list_all2 (answer_ok u) es (fst (run es fs)) \<and> held u n (last_beat u t es) (snd (run es fs))"
proof (induction es arbitrary: t fs)
  case (Cons e es)
  obtain io tc ts r where e: "e = (io, tc, ts, r)" by (cases e) auto
  obtain x fs' where x: "exec_req io tc ts r fs = (x, fs')" by fastforce
  have st: "answer_ok u e x \<and> held u n (next_beat u e t) fs'"
    using held_step [OF Cons.prems(1) _ Cons.prems(3) x] Cons.prems(2) e by simp
  then have "list_all2 (answer_ok u) es (fst (run es fs')) \<and>
      held u n (last_beat u (next_beat u e t) es) (snd (run es fs'))"
    using Cons.IH [of "next_beat u e t" fs'] Cons.prems(2,3) by simp
  with st e x show ?case by (cases "run es fs'") simp
qed simp

end
