(* ===== verification/Safety.thy ===== *)
theory Safety
  imports Nets_Cache
begin

text \<open>
  The per-net interlocks (\<^verbatim>\<open>box/lager/safety.py\<close>): ceilings on setpoints and trips,
  refusal of commands that turn a protection off, the fixed-window call cap, and the hard-tier
  entry point \<^verbatim>\<open>check_invocation\<close> that identifies the net of a request. The saved nets
  come through a \<open>net_access\<close>, so that everything about the interlocks is proved from the
  laws of \<open>net_store\<close> and holds of the cache by its interpretation. \<open>rd i\<close> is the nets
  file as the \<open>i\<close>-th access of one call sees it, \<open>env\<close> the process environment,
  \<open>now\<close> the reading of \<^verbatim>\<open>time.monotonic()\<close>. An exception class is a constructor of
  \<open>refusal\<close>; \<open>Raised\<close> is an exception of the language that escapes.
\<close>

section \<open>Refusals and tables\<close>

datatype refusal =
    SafetyViolation string string pyfloat pyfloat string
  | ProtectionOffRefused string string pyfloat string
  | RateLimitExceeded string string int pyfloat
  | UnidentifiedNet string
  | DestructiveOperationRefused string string
  | Raised pyexc

text \<open>The \<^verbatim>\<open>reason\<close> field of \<^verbatim>\<open>as_dict\<close>.\<close>

fun reason :: "refusal \<Rightarrow> string option" where
  "reason (SafetyViolation _ _ _ _ _) = Some ''safety_limit_exceeded''"
| "reason (ProtectionOffRefused _ _ _ _) = Some ''safety_protection_off_refused''"
| "reason (RateLimitExceeded _ _ _ _) = Some ''safety_rate_limit_exceeded''"
| "reason (UnidentifiedNet _) = Some ''safety_net_unidentified''"
| "reason (DestructiveOperationRefused _ _) = Some ''safety_destructive_refused''"
| "reason (Raised _) = None"

definition VALUE_LIMITS :: "((string \<times> string) \<times> string) list" where
  "VALUE_LIMITS =
    [((''power-supply'', ''voltage''), ''max_voltage''),
     ((''power-supply'', ''ovp''), ''max_voltage''),
     ((''power-supply'', ''current''), ''max_current''),
     ((''power-supply'', ''ocp''), ''max_current''),
     ((''power-supply-2q'', ''voltage''), ''max_voltage''),
     ((''power-supply-2q'', ''ovp''), ''max_voltage''),
     ((''power-supply-2q'', ''current''), ''max_current''),
     ((''power-supply-2q'', ''ocp''), ''max_current''),
     ((''battery'', ''voc''), ''max_voltage''),
     ((''battery'', ''voltage_full''), ''max_voltage''),
     ((''battery'', ''voltage_empty''), ''max_voltage''),
     ((''battery'', ''ovp''), ''max_voltage''),
     ((''battery'', ''current_limit''), ''max_current''),
     ((''battery'', ''ocp''), ''max_current''),
     ((''eload'', ''set_current''), ''max_current''),
     ((''eload'', ''set_voltage''), ''max_voltage'')]"

definition RATE_LIMITED_FUNCTIONS :: "string list" where
  "RATE_LIMITED_FUNCTIONS =
     map (\<lambda>((role, function), key). function) VALUE_LIMITS @
     [''clear_ovp'', ''clear_ocp'', ''enable'', ''disable'']"

definition GUARDED_ROLES :: "string list" where
  "GUARDED_ROLES = map (\<lambda>((role, function), key). role) VALUE_LIMITS"

definition PROTECTION_OFF :: "(string \<times> string) list" where
  "PROTECTION_OFF =
    [(''disable_ocp'', ''max_current''),
     (''disable_overcurrent_protection'', ''max_current''),
     (''disable_ovp'', ''max_voltage''),
     (''disable_overvoltage_protection'', ''max_voltage'')]"

definition POSSIBLY_GUARDED_FUNCTIONS :: "string list" where
  "POSSIBLY_GUARDED_FUNCTIONS = RATE_LIMITED_FUNCTIONS @
     map (\<lambda>((role, function), key). function) VALUE_LIMITS @ map fst PROTECTION_OFF"

section \<open>The call cap\<close>

definition env_float :: "(string \<Rightarrow> string option) \<Rightarrow> string \<Rightarrow> pyfloat \<Rightarrow> pyfloat" where
  "env_float env name dflt = (case env name of
      None \<Rightarrow> dflt
    | Some raw \<Rightarrow> if raw = [] then dflt
        else (case py_float (VStr raw) of
            Inl e \<Rightarrow> dflt
          | Inr parsed \<Rightarrow> if float_gt parsed (Fin 0) then parsed else dflt))"

definition env_int :: "(string \<Rightarrow> string option) \<Rightarrow> string \<Rightarrow> int \<Rightarrow> int" where
  "env_int env name dflt = (case env name of
      None \<Rightarrow> dflt
    | Some raw \<Rightarrow> if raw = [] then dflt
        else (case py_int (VStr raw) of
            Inl e \<Rightarrow> dflt
          | Inr parsed \<Rightarrow> if 0 < parsed then parsed else dflt))"

definition rate_window_seconds :: "(string \<Rightarrow> string option) \<Rightarrow> pyfloat" where
  "rate_window_seconds env = env_float env ''LAGER_SAFETY_RATE_WINDOW'' (Fin 10)"

definition rate_max_calls :: "(string \<Rightarrow> string option) \<Rightarrow> int" where
  "rate_max_calls env = env_int env ''LAGER_SAFETY_RATE_MAX'' 60"

type_synonym rates = "(string \<times> string) \<rightharpoonup> (rat \<times> int)"

definition reset_rate_state :: "rates \<Rightarrow> rates" where
  "reset_rate_state rs = Map.empty"

definition float_ge :: "pyfloat \<Rightarrow> pyfloat \<Rightarrow> bool" where
  "float_ge a b = (float_gt a b \<or> float_eq a b)"

text \<open>\<^verbatim>\<open>now - window_start >= window\<close>, with the subtraction rounded to a double.\<close>

definition window_over :: "pyfloat \<Rightarrow> rat \<Rightarrow> rat \<Rightarrow> bool" where
  "window_over window now ws = float_ge (to_binary64 (now - ws)) window"

definition check_rate :: "(string \<Rightarrow> string option) \<Rightarrow> rat \<Rightarrow> string \<Rightarrow> string \<Rightarrow> rates \<Rightarrow>
    (refusal + unit) \<times> rates" where
  "check_rate env now net fn rs =
     (let window = rate_window_seconds env; max_calls = rate_max_calls env;
          (ws0, count0) = (case rs (net, fn) of None \<Rightarrow> (now, 0) | Some wc \<Rightarrow> wc);
          (ws, count) = (if window_over window now ws0 then (now, 0) else (ws0, count0));
          rs' = rs((net, fn) \<mapsto> (ws, count + 1))
      in (if max_calls < count + 1 then Inl (RateLimitExceeded net fn max_calls window) else Inr (), rs'))"

section \<open>Reading the saved nets\<close>

definition limits_of :: "dict option \<Rightarrow> dict option" where
  "limits_of r = (case r of
      None \<Rightarrow> None
    | Some d \<Rightarrow> (case dict_get d ''safety_limits'' of
          VDict l \<Rightarrow> if l = [] then None else Some l
        | _ \<Rightarrow> None))"

definition limits_for_net :: "('f, 'c) net_access \<Rightarrow> string \<Rightarrow> 'f \<Rightarrow> 'c \<Rightarrow> dict option res \<times> 'c" where
  "limits_for_net S n f c = (if n = [] then (Inr None, c)
     else case find_net S n f c of
       (Inl e, c') \<Rightarrow> (Inl e, c')
     | (Inr r, c') \<Rightarrow> (Inr (limits_of r), c'))"

definition role_of :: "dict option \<Rightarrow> string option" where
  "role_of r = (case r of
      None \<Rightarrow> None
    | Some d \<Rightarrow> (case dict_get d ''role'' of VStr s \<Rightarrow> Some s | _ \<Rightarrow> None))"

definition role_for_net :: "('f, 'c) net_access \<Rightarrow> string \<Rightarrow> 'f \<Rightarrow> 'c \<Rightarrow> string option res \<times> 'c" where
  "role_for_net S n f c = (if n = [] then (Inr None, c)
     else case find_net S n f c of
       (Inl e, c') \<Rightarrow> (Inl e, c')
     | (Inr r, c') \<Rightarrow> (Inr (role_of r), c'))"

fun scan_limits :: "pyval list \<Rightarrow> bool res" where
  "scan_limits [] = Inr False"
| "scan_limits (VDict d # ns) = (if limits_of (Some d) \<noteq> None then Inr True else scan_limits ns)"
| "scan_limits (_ # ns) = Inl AttributeError"

definition any_limits_configured :: "('f, 'c) net_access \<Rightarrow> 'f \<Rightarrow> 'c \<Rightarrow> bool res \<times> 'c" where
  "any_limits_configured S f c = (case all_nets S f c of
      (Inl e, c') \<Rightarrow> (Inl e, c')
    | (Inr ns, c') \<Rightarrow> (scan_limits ns, c'))"

fun scan_address :: "pyval \<Rightarrow> pyval \<Rightarrow> pyval list \<Rightarrow> string option res" where
  "scan_address a ch [] = Inr None"
| "scan_address a ch (VDict d # ns) =
     (if \<not> py_eq (dict_get d ''address'') a then scan_address a ch ns
      else if ch \<noteq> VNone \<and> \<not> py_eq (dict_get d ''channel'') ch then scan_address a ch ns
      else (case dict_get d ''name'' of
          VStr s \<Rightarrow> if s \<noteq> [] then Inr (Some s) else scan_address a ch ns
        | _ \<Rightarrow> scan_address a ch ns))"
| "scan_address a ch (_ # ns) = Inl AttributeError"

definition resolve_net_name :: "('f, 'c) net_access \<Rightarrow> pyval \<Rightarrow> 'f \<Rightarrow> 'c \<Rightarrow> string option res \<times> 'c" where
  "resolve_net_name S info f c = (case info of
      VDict d \<Rightarrow>
        let by_address =
          (if \<not> truthy (dict_get d ''address'') then (Inr None, c)
           else case all_nets S f c of
             (Inl e, c') \<Rightarrow> (Inl e, c')
           | (Inr ns, c') \<Rightarrow> (scan_address (dict_get d ''address'') (dict_get d ''channel'') ns, c'))
        in (case dict_get d ''name'' of
              VStr s \<Rightarrow> if s \<noteq> [] then (Inr (Some s), c) else by_address
            | _ \<Rightarrow> by_address)
    | _ \<Rightarrow> (Inr None, c))"

section \<open>The value checks\<close>

definition is_guarded :: "string option \<Rightarrow> string \<Rightarrow> bool" where
  "is_guarded role fn = (case role of
      None \<Rightarrow> False
    | Some r \<Rightarrow> if r = [] then False
        else if map_of VALUE_LIMITS (r, fn) \<noteq> None \<or> map_of PROTECTION_OFF fn \<noteq> None then True
        else r \<in> set GUARDED_ROLES \<and> fn \<in> set RATE_LIMITED_FUNCTIONS)"

definition coerce_float :: "pyval \<Rightarrow> pyfloat option res" where
  "coerce_float v = (case v of
      VNone \<Rightarrow> Inr None
    | VBool b \<Rightarrow> Inr None
    | _ \<Rightarrow> (case py_float v of
          Inr x \<Rightarrow> Inr (Some x)
        | Inl e \<Rightarrow> if e = TypeError \<or> e = ValueError then Inr None else Inl e))"

definition is_number :: "pyval \<Rightarrow> bool" where
  "is_number v = (case v of VInt i \<Rightarrow> True | VFloat x \<Rightarrow> True | _ \<Rightarrow> False)"

definition enforce :: "string \<Rightarrow> string \<Rightarrow> dict \<Rightarrow> string \<Rightarrow> pyfloat option \<Rightarrow> refusal + unit" where
  "enforce net fn limits key requested = (case requested of
      None \<Rightarrow> Inr ()
    | Some x \<Rightarrow>
        let configured = dict_get limits key in
        if \<not> is_number configured then Inr ()
        else (case py_float configured of
            Inl e \<Rightarrow> Inl (Raised e)
          | Inr mx \<Rightarrow> if float_gt (float_abs x) mx then Inl (SafetyViolation net key mx x fn)
                      else Inr ()))"

definition extract_value :: "pyval \<Rightarrow> pyval \<Rightarrow> pyfloat option res" where
  "extract_value args kwargs =
     (let positional = (case args of VList (a # _) \<Rightarrow> a | _ \<Rightarrow> VNone);
          candidate = (case kwargs of
              VDict k \<Rightarrow> if dict_get k ''value'' \<noteq> VNone then dict_get k ''value'' else positional
            | _ \<Rightarrow> positional)
      in coerce_float candidate)"

definition raised :: "'a res \<Rightarrow> refusal + 'a" where
  "raised r = (case r of Inl e \<Rightarrow> Inl (Raised e) | Inr x \<Rightarrow> Inr x)"

definition then_check :: "refusal + 'a \<Rightarrow> ('a \<Rightarrow> refusal + 'b) \<Rightarrow> refusal + 'b" where
  "then_check a b = (case a of Inl e \<Rightarrow> Inl e | Inr x \<Rightarrow> b x)"

definition check_trip :: "string \<Rightarrow> string \<Rightarrow> dict \<Rightarrow> pyval \<Rightarrow> string \<Rightarrow> string \<Rightarrow> refusal + unit" where
  "check_trip net fn limits kwargs trip key = (case kwargs of
      VDict k \<Rightarrow> if dict_get k trip = VNone then Inr ()
        else then_check (raised (coerce_float (dict_get k trip)))
          (enforce net (fn @ ''('' @ trip @ ''=)'') limits key)
    | _ \<Rightarrow> Inr ())"

text \<open>The checks of a command against the limits of its net, before the call cap.\<close>

definition check_values :: "string \<Rightarrow> string \<Rightarrow> string \<Rightarrow> dict \<Rightarrow> pyval \<Rightarrow> pyval \<Rightarrow> refusal + unit" where
  "check_values net fn role limits args kwargs =
     then_check
       (case map_of PROTECTION_OFF fn of
          None \<Rightarrow> Inr ()
        | Some key \<Rightarrow> if is_number (dict_get limits key)
            then (case py_float (dict_get limits key) of
                Inl e \<Rightarrow> Inl (Raised e)
              | Inr mx \<Rightarrow> Inl (ProtectionOffRefused net key mx fn))
            else Inr ())
     (\<lambda>_. then_check
       (case map_of VALUE_LIMITS (role, fn) of
          None \<Rightarrow> Inr ()
        | Some key \<Rightarrow> then_check (raised (extract_value args kwargs)) (enforce net fn limits key))
     (\<lambda>_. then_check (check_trip net fn limits kwargs ''ovp'' ''max_voltage'')
     (\<lambda>_. check_trip net fn limits kwargs ''ocp'' ''max_current'')))"

record 'c guard_state =
  cache :: 'c
  rates :: rates

definition check :: "('f, 'c) net_access \<Rightarrow> (string \<Rightarrow> string option) \<Rightarrow> rat \<Rightarrow> (nat \<Rightarrow> 'f) \<Rightarrow>
    string option \<Rightarrow> string \<Rightarrow> pyval \<Rightarrow> pyval \<Rightarrow> string option \<Rightarrow> 'c guard_state \<Rightarrow>
    (refusal + unit) \<times> 'c guard_state" where
  "check S env now rd net_name fn args kwargs role st =
     (let net = (case net_name of None \<Rightarrow> [] | Some n \<Rightarrow> n) in
      case (case role of Some r \<Rightarrow> (Inr (Some r), cache st) | None \<Rightarrow> role_for_net S net (rd 1) (cache st)) of
        (Inl e, c1) \<Rightarrow> (Inl (Raised e), st\<lparr>cache := c1\<rparr>)
      | (Inr rl, c1) \<Rightarrow>
          if \<not> is_guarded rl fn then (Inr (), st\<lparr>cache := c1\<rparr>)
          else (case limits_for_net S net (rd 2) c1 of
              (Inl e, c2) \<Rightarrow> (Inl (Raised e), st\<lparr>cache := c2\<rparr>)
            | (Inr None, c2) \<Rightarrow> (Inr (), st\<lparr>cache := c2\<rparr>)
            | (Inr (Some limits), c2) \<Rightarrow>
                (case check_values net fn (case rl of None \<Rightarrow> [] | Some r \<Rightarrow> r) limits args kwargs of
                   Inl x \<Rightarrow> (Inl x, st\<lparr>cache := c2\<rparr>)
                 | Inr _ \<Rightarrow>
                     if fn \<in> set RATE_LIMITED_FUNCTIONS
                     then (case check_rate env now net fn (rates st) of
                             (r, rs') \<Rightarrow> (r, st\<lparr>cache := c2, rates := rs'\<rparr>))
                     else (Inr (), st\<lparr>cache := c2\<rparr>))))"

section \<open>Entry points\<close>

definition check_invocation :: "('f, 'c) net_access \<Rightarrow> (string \<Rightarrow> string option) \<Rightarrow> rat \<Rightarrow> (nat \<Rightarrow> 'f) \<Rightarrow>
    pyval \<Rightarrow> string \<Rightarrow> pyval \<Rightarrow> pyval \<Rightarrow> 'c guard_state \<Rightarrow> (refusal + unit) \<times> 'c guard_state" where
  "check_invocation S env now rd info fn args kwargs st =
     (case resolve_net_name S info (rd 0) (cache st) of
        (Inl e, c') \<Rightarrow> (Inl (Raised e), st\<lparr>cache := c'\<rparr>)
      | (Inr None, c') \<Rightarrow>
          if fn \<in> set POSSIBLY_GUARDED_FUNCTIONS
          then (case any_limits_configured S (rd 1) c' of
              (Inl e, c'') \<Rightarrow> (Inl (Raised e), st\<lparr>cache := c''\<rparr>)
            | (Inr b, c'') \<Rightarrow> (if b then Inl (UnidentifiedNet fn) else Inr (), st\<lparr>cache := c''\<rparr>))
          else (Inr (), st\<lparr>cache := c'\<rparr>)
      | (Inr (Some n), c') \<Rightarrow> check S env now rd (Some n) fn args kwargs None (st\<lparr>cache := c'\<rparr>))"

definition check_destructive :: "('f, 'c) net_access \<Rightarrow> (nat \<Rightarrow> 'f) \<Rightarrow> pyval \<Rightarrow> string \<Rightarrow> 'c \<Rightarrow>
    (refusal + unit) \<times> 'c" where
  "check_destructive S rd net operation c =
     (case resolve_net_name S net (rd 0) c of
        (Inl e, c') \<Rightarrow> (Inl (Raised e), c')
      | (Inr None, c') \<Rightarrow> (Inr (), c')
      | (Inr (Some n), c') \<Rightarrow> (case limits_for_net S n (rd 1) c' of
            (Inl e, c'') \<Rightarrow> (Inl (Raised e), c'')
          | (Inr None, c'') \<Rightarrow> (Inr (), c'')
          | (Inr (Some limits), c'') \<Rightarrow>
              (if dict_get limits ''allow_destructive'' = VBool False
               then Inl (DestructiveOperationRefused n operation) else Inr (), c'')))"

section \<open>What the value checks let through\<close>

text \<open>
  \<open>obeys l key rq\<close>: the requested value is a number, or no number at all, and does not
  exceed the ceiling under \<open>key\<close> where that is a number.
\<close>

definition obeys :: "dict \<Rightarrow> string \<Rightarrow> pyfloat option res \<Rightarrow> bool" where
  "obeys l key rq = (case rq of
      Inl _ \<Rightarrow> False
    | Inr None \<Rightarrow> True
    | Inr (Some x) \<Rightarrow> \<not> is_number (dict_get l key) \<or>
        (\<exists>mx. py_float (dict_get l key) = Inr mx \<and> \<not> float_gt (float_abs x) mx))"

definition trip_value :: "pyval \<Rightarrow> string \<Rightarrow> pyfloat option res" where
  "trip_value kwargs trip = (case kwargs of VDict k \<Rightarrow> coerce_float (dict_get k trip) | _ \<Rightarrow> Inr None)"

lemma float_gt_Fin: "float_gt (float_abs (Fin v)) (Fin m) \<longleftrightarrow> m < \<bar>v\<bar>"
  by simp

lemma then_check_Inr [simp]: "then_check a b = Inr y \<longleftrightarrow> (\<exists>x. a = Inr x \<and> b x = Inr y)"
  by (cases a) (auto simp: then_check_def)

lemma then_check_simps [simp]: "then_check (Inl e) b = Inl e" "then_check (Inr x) b = b x"
  by (simp_all add: then_check_def)

lemma raised_Inr [simp]: "raised r = Inr x \<longleftrightarrow> r = Inr x"
  by (cases r) (auto simp: raised_def)

lemma enforce_Inr: "enforce net fn l key rq = Inr () \<longleftrightarrow> obeys l key (Inr rq)"
  by (auto simp: enforce_def obeys_def Let_def split: option.splits sum.splits)

lemma checked_Inr:
  "(\<exists>x. rq = Inr x \<and> enforce net fn l key x = Inr ()) \<longleftrightarrow> obeys l key rq"
  by (cases rq) (auto simp: enforce_Inr obeys_def)

lemma check_trip_Inr: "check_trip net fn l kwargs trip key = Inr () \<longleftrightarrow> obeys l key (trip_value kwargs trip)"
  by (auto simp: check_trip_def trip_value_def enforce_Inr coerce_float_def obeys_def
      split: pyval.splits sum.splits if_splits)

definition within_limits :: "string \<Rightarrow> string \<Rightarrow> dict \<Rightarrow> pyval \<Rightarrow> pyval \<Rightarrow> bool" where
  "within_limits fn role l args kwargs =
     ((\<forall>key. map_of PROTECTION_OFF fn = Some key \<longrightarrow> \<not> is_number (dict_get l key)) \<and>
      (\<forall>key. map_of VALUE_LIMITS (role, fn) = Some key \<longrightarrow> obeys l key (extract_value args kwargs)) \<and>
      obeys l ''max_voltage'' (trip_value kwargs ''ovp'') \<and>
      obeys l ''max_current'' (trip_value kwargs ''ocp''))"

lemma check_values_Inr:
  "check_values net fn role l args kwargs = Inr () \<longleftrightarrow> within_limits fn role l args kwargs"
  by (auto simp: check_values_def within_limits_def check_trip_Inr checked_Inr
      split: option.splits sum.splits if_splits)

section \<open>The interlocks over a lawful store\<close>

lemma is_guarded_role: "is_guarded rl fn \<Longrightarrow> \<exists>role. rl = Some role \<and> role \<noteq> []"
  by (auto simp: is_guarded_def split: option.splits if_splits)

context net_store
begin

lemma limits_lookup:
  assumes "ok f c" and "n \<noteq> []"
  shows "\<exists>c'. limits_for_net S n f c = (Inr (limits_of (last_named n (recs f))), c') \<and> ok f c'"
  using find_net [OF assms] assms(2) by (auto simp: limits_for_net_def)

lemma role_lookup:
  assumes "ok f c" and "n \<noteq> []"
  shows "\<exists>c'. role_for_net S n f c = (Inr (role_of (last_named n (recs f))), c') \<and> ok f c'"
  using find_net [OF assms] assms(2) by (auto simp: role_for_net_def)

text \<open>A guarded command on a net with limits is decided by the value checks and, when
  they pass, by the call cap; a command the checks refuse does not count against the cap.\<close>

lemma check_decides:
  assumes "ok f c" and "n \<noteq> []"
    and role: "role_of (last_named n (recs f)) = Some role" and g: "is_guarded (Some role) fn"
    and lm: "limits_of (last_named n (recs f)) = Some l"
  shows "\<exists>c'. ok f c' \<and> check S env now (\<lambda>_. f) (Some n) fn args kwargs None \<lparr>cache = c, rates = rs\<rparr> =
    (case check_values n fn role l args kwargs of
       Inl x \<Rightarrow> (Inl x, \<lparr>cache = c', rates = rs\<rparr>)
     | Inr _ \<Rightarrow> if fn \<in> set RATE_LIMITED_FUNCTIONS
         then (fst (check_rate env now n fn rs), \<lparr>cache = c', rates = snd (check_rate env now n fn rs)\<rparr>)
         else (Inr (), \<lparr>cache = c', rates = rs\<rparr>))"
proof -
  obtain c1 where c1: "role_for_net S n f c = (Inr (Some role), c1)" "ok f c1"
    using role_lookup [OF assms(1,2)] role by auto
  obtain c2 where c2: "limits_for_net S n f c1 = (Inr (Some l), c2)" "ok f c2"
    using limits_lookup [OF c1(2) assms(2)] lm by auto
  from c1 c2 g show ?thesis
    by (auto simp: check_def split: sum.splits prod.splits intro!: exI [of _ c2])
qed

text \<open>Without limits on the net a command passes and nothing is counted.\<close>

lemma check_unlimited:
  assumes "ok f c" and "n \<noteq> []" and "limits_of (last_named n (recs f)) = None"
  shows "\<exists>c'. ok f c' \<and> check S env now (\<lambda>_. f) (Some n) fn args kwargs None \<lparr>cache = c, rates = rs\<rparr> =
    (Inr (), \<lparr>cache = c', rates = rs\<rparr>)"
proof -
  obtain c1 where c1: "role_for_net S n f c = (Inr (role_of (last_named n (recs f))), c1)" "ok f c1"
    using role_lookup [OF assms(1,2)] by auto
  obtain c2 where c2: "limits_for_net S n f c1 = (Inr None, c2)" "ok f c2"
    using limits_lookup [OF c1(2) assms(2)] assms(3) by auto
  from c1 c2 show ?thesis by (auto simp: check_def)
qed

lemma invocation_named:
  assumes "dict_get d ''name'' = VStr n" and "n \<noteq> []"
  shows "check_invocation S env now rd (VDict d) fn args kwargs st =
    check S env now rd (Some n) fn args kwargs None st"
  using assms by (simp add: check_invocation_def resolve_net_name_def Let_def)

lemma scan_limits_recs:
  "records_ok ns \<Longrightarrow> scan_limits ns = Inr (\<exists>d. VDict d \<in> set ns \<and> limits_of (Some d) \<noteq> None)"
  by (induction ns rule: scan_limits.induct) (auto simp: records_ok_def)

text \<open>A command that may be guarded and names no net is refused as soon as one net has limits.\<close>

lemma invocation_unidentified:
  assumes "ok f c" and "fn \<in> set POSSIBLY_GUARDED_FUNCTIONS"
    and "resolve_net_name S info f c = (Inr None, c0)" and "ok f c0"
  shows "fst (check_invocation S env now (\<lambda>_. f) info fn args kwargs \<lparr>cache = c, rates = rs\<rparr>) =
    (if \<exists>d. VDict d \<in> set (recs f) \<and> limits_of (Some d) \<noteq> None then Inl (UnidentifiedNet fn) else Inr ())"
proof -
  obtain c1 where "all_nets S f c0 = (Inr (recs f), c1)" using all_nets [OF assms(4)] by blast
  then have "any_limits_configured S f c0 =
      (Inr (\<exists>d. VDict d \<in> set (recs f) \<and> limits_of (Some d) \<noteq> None), c1)"
    using scan_limits_recs [OF recs_ok [OF assms(4)]] by (simp add: any_limits_configured_def)
  with assms(2,3) show ?thesis by (simp add: check_invocation_def)
qed

lemma destructive_decides:
  assumes "ok f c" and "dict_get d ''name'' = VStr n" and "n \<noteq> []"
  shows "fst (check_destructive S (\<lambda>_. f) (VDict d) oper c) =
    (case limits_of (last_named n (recs f)) of
       None \<Rightarrow> Inr ()
     | Some l \<Rightarrow> if dict_get l ''allow_destructive'' = VBool False
         then Inl (DestructiveOperationRefused n oper) else Inr ())"
proof -
  obtain c' where "limits_for_net S n f c = (Inr (limits_of (last_named n (recs f))), c')"
    using limits_lookup [OF assms(1,3)] by blast
  with assms(2,3) show ?thesis
    by (simp add: check_destructive_def resolve_net_name_def Let_def split: option.split)
qed

end

section \<open>The request cannot carry limits\<close>

text \<open>Only \<^verbatim>\<open>name\<close>, \<^verbatim>\<open>address\<close> and \<^verbatim>\<open>channel\<close> of the request matter.\<close>

lemma resolve_net_name_keys:
  assumes "\<And>k. k \<in> {''name'', ''address'', ''channel''} \<Longrightarrow> dict_get d k = dict_get d' k"
  shows "resolve_net_name S (VDict d) f c = resolve_net_name S (VDict d') f c"
proof -
  have "dict_get d ''name'' = dict_get d' ''name''" "dict_get d ''address'' = dict_get d' ''address''"
    "dict_get d ''channel'' = dict_get d' ''channel''" using assms by blast+
  then show ?thesis by (simp only: resolve_net_name_def pyval.case)
qed

lemma check_invocation_keys:
  assumes "\<And>k. k \<in> {''name'', ''address'', ''channel''} \<Longrightarrow> dict_get d k = dict_get d' k"
  shows "check_invocation S env now rd (VDict d) fn args kwargs st =
    check_invocation S env now rd (VDict d') fn args kwargs st"
  by (simp only: check_invocation_def resolve_net_name_keys [OF assms])

section \<open>The call cap over a sequence of calls\<close>

fun rate_run :: "(string \<Rightarrow> string option) \<Rightarrow> string \<Rightarrow> string \<Rightarrow> rat list \<Rightarrow> rates \<Rightarrow> bool list \<times> rates" where
  "rate_run env net fn [] rs = ([], rs)"
| "rate_run env net fn (t # ts) rs = (case check_rate env t net fn rs of
      (r, rs') \<Rightarrow> (case rate_run env net fn ts rs' of (bs, rs'') \<Rightarrow> ((r = Inr ()) # bs, rs'')))"

definition same_window :: "(string \<Rightarrow> string option) \<Rightarrow> rat \<Rightarrow> rat list \<Rightarrow> bool" where
  "same_window env ws ts = list_all (\<lambda>t. \<not> window_over (rate_window_seconds env) t ws) ts"

lemma rate_max_pos: "0 < rate_max_calls env"
  by (auto simp: rate_max_calls_def env_int_def split: option.splits sum.splits)

lemma check_rate_in_window:
  assumes "rs (net, fn) = Some (ws, k)" and "\<not> window_over (rate_window_seconds env) t ws"
  shows "check_rate env t net fn rs =
    (if rate_max_calls env < k + 1
     then Inl (RateLimitExceeded net fn (rate_max_calls env) (rate_window_seconds env)) else Inr (),
     rs((net, fn) \<mapsto> (ws, k + 1)))"
  using assms by (simp add: check_rate_def Let_def)

lemma rate_run_window:
  assumes "rs (net, fn) = Some (ws, k)" and "same_window env ws ts"
  shows "fst (rate_run env net fn ts rs) =
           map (\<lambda>i. k + 1 + int i \<le> rate_max_calls env) [0..<length ts] \<and>
         snd (rate_run env net fn ts rs) (net, fn) = Some (ws, k + int (length ts))"
  using assms
proof (induction ts arbitrary: rs k)
  case (Cons t ts)
  define rs' where "rs' = rs((net, fn) \<mapsto> (ws, k + 1))"
  have st: "check_rate env t net fn rs =
    (if rate_max_calls env < k + 1
     then Inl (RateLimitExceeded net fn (rate_max_calls env) (rate_window_seconds env)) else Inr (), rs')"
    using check_rate_in_window [of rs net fn ws k env t] Cons.prems by (simp add: same_window_def rs'_def)
  have rs': "rs' (net, fn) = Some (ws, k + 1)" by (simp add: rs'_def)
  have ih: "fst (rate_run env net fn ts rs') =
       map (\<lambda>i. (k + 1) + 1 + int i \<le> rate_max_calls env) [0..<length ts] \<and>
     snd (rate_run env net fn ts rs') (net, fn) = Some (ws, (k + 1) + int (length ts))"
    using Cons.IH [of rs' "k + 1"] rs' Cons.prems by (simp add: same_window_def)
  have "map (\<lambda>i. k + 1 + int i \<le> rate_max_calls env) [0..<length (t # ts)] =
      (k + 1 \<le> rate_max_calls env) # map (\<lambda>i. (k + 1) + 1 + int i \<le> rate_max_calls env) [0..<length ts]"
    by (simp add: upt_conv_Cons map_Suc_upt [symmetric] del: upt_Suc) (simp add: algebra_simps)
  with st ih show ?case by (cases "rate_run env net fn ts rs'") (simp add: algebra_simps)
qed simp

text \<open>A call after the window is over starts a new window with this call counted.\<close>

lemma check_rate_opens:
  assumes "case rs (net, fn) of None \<Rightarrow> True | Some (ws, k) \<Rightarrow> window_over (rate_window_seconds env) t ws"
  shows "check_rate env t net fn rs = (Inr (), rs((net, fn) \<mapsto> (t, 1)))"
  using assms rate_max_pos [of env] by (auto simp: check_rate_def Let_def split: option.splits)

lemma rate_run_opens:
  assumes "case rs (net, fn) of None \<Rightarrow> True | Some (ws, k) \<Rightarrow> window_over (rate_window_seconds env) t ws"
    and "same_window env t ts"
  shows "fst (rate_run env net fn (t # ts) rs) =
    map (\<lambda>i. int i < rate_max_calls env) [0..<Suc (length ts)]"
proof -
  have "fst (rate_run env net fn ts (rs((net, fn) \<mapsto> (t, 1)))) =
      map (\<lambda>i. 1 + 1 + int i \<le> rate_max_calls env) [0..<length ts]"
    using rate_run_window [of "rs((net, fn) \<mapsto> (t, 1))" net fn t 1 env ts] assms(2) by simp
  moreover have "map (\<lambda>i. int i < rate_max_calls env) [0..<Suc (length ts)] =
      True # map (\<lambda>i. 1 + 1 + int i \<le> rate_max_calls env) [0..<length ts]"
    using rate_max_pos [of env]
    by (simp add: upt_conv_Cons map_Suc_upt [symmetric] del: upt_Suc) auto
  ultimately show ?thesis using check_rate_opens [where rs = rs and net = net and fn = fn, OF assms(1)]
    by (auto split: prod.splits)
qed

text \<open>Other nets and other functions keep their counters.\<close>

lemma check_rate_frame:
  "k \<noteq> (net, fn) \<Longrightarrow> snd (check_rate env t net fn rs) k = rs k"
  by (simp add: check_rate_def Let_def split: prod.split)

end
