(* ===== verification/Crc16.thy ===== *)
theory Crc16
  imports Lager_Prelude
begin

text \<open>
  The 16-bit check value with polynomial \<^verbatim>\<open>0x1021\<close> that two components compute: the
  serial framing through \<^verbatim>\<open>binascii.crc_hqx\<close>, and BluFi with a table of its own. The
  register is defined bit by bit; the lemmas show that it is linear and injective, which is
  what the detection results of the two components rest on.
\<close>

section \<open>The register\<close>

text \<open>\<^verbatim>\<open>binascii.crc_hqx\<close>: polynomial \<^verbatim>\<open>0x1021\<close>, most significant bit first.\<close>

definition crc_bit :: "16 word \<Rightarrow> 16 word" where
  "crc_bit c = (if bit c 15 then push_bit 1 c XOR 0x1021 else push_bit 1 c)"

definition crc_byte :: "16 word \<Rightarrow> byte \<Rightarrow> 16 word" where
  "crc_byte c b = (crc_bit ^^ 8) (c XOR push_bit 8 (ucast b))"

fun crc_hqx :: "byte list \<Rightarrow> 16 word \<Rightarrow> 16 word" where
  "crc_hqx [] c = c"
| "crc_hqx (b # bs) c = crc_hqx bs (crc_byte c b)"

section \<open>Injectivity\<close>

text \<open>One step of the register is injective, because the polynomial is odd.\<close>

lemma bit_0x1021_0: "bit (0x1021 :: 16 word) 0"
  by simp

lemma bit_push_1: "n < 16 \<Longrightarrow> bit (push_bit 1 (c :: 16 word)) n = (0 < n \<and> bit c (n - 1))"
  by (subst bit_push_bit_iff) (auto simp: Suc_le_eq)

lemma bit_crc_bit:
  "n < 16 \<Longrightarrow> bit (crc_bit c) n = ((0 < n \<and> bit c (n - 1)) \<noteq> (bit c 15 \<and> bit (0x1021 :: 16 word) n))"
  unfolding crc_bit_def by (cases "bit c 15") (simp_all only: bit_xor_iff bit_push_1 if_True if_False, blast+)

lemma crc_bit_inj: "crc_bit c = crc_bit d \<longleftrightarrow> c = d"
proof
  assume eq: "crc_bit c = crc_bit d"
  have top: "bit c 15 = bit d 15"
    using arg_cong [OF eq, of "\<lambda>w. bit w 0"] bit_crc_bit [of 0 c] bit_crc_bit [of 0 d] bit_0x1021_0
    by simp
  show "c = d"
  proof (rule bit_word_eqI)
    fix n assume n: "n < LENGTH(16)"
    show "bit c n = bit d n"
    proof (cases "n = 15")
      case True
      with top show ?thesis by simp
    next
      case False
      with n have "Suc n < 16" by simp
      with top arg_cong [OF eq, of "\<lambda>w. bit w (Suc n)"] bit_crc_bit [of "Suc n" c] bit_crc_bit [of "Suc n" d]
      show ?thesis by auto
    qed
  qed
qed simp

lemma crc_bits_inj: "(crc_bit ^^ k) c = (crc_bit ^^ k) d \<longleftrightarrow> c = d"
  by (induction k) (auto simp: crc_bit_inj)

lemma xor_cancel_right: "a XOR c = b XOR c \<longleftrightarrow> a = (b :: 'a::len word)"
  by (metis xor.assoc xor_self_eq xor.right_neutral)

lemma crc_byte_inj_left: "crc_byte c b = crc_byte d b \<longleftrightarrow> c = d"
  by (simp add: crc_byte_def crc_bits_inj xor_cancel_right)

lemma push_ucast_inj: "push_bit 8 (ucast a :: 16 word) = push_bit 8 (ucast b) \<longleftrightarrow> a = (b :: byte)"
proof
  assume eq: "push_bit 8 (ucast a :: 16 word) = push_bit 8 (ucast b)"
  show "a = b"
  proof (rule bit_word_eqI)
    fix n assume "n < LENGTH(8)"
    then show "bit a n = bit b n"
      using arg_cong [OF eq, of "\<lambda>w. bit w (n + 8)"] by (simp add: bit_simps)
  qed
qed simp

lemma crc_byte_inj_right: "crc_byte c a = crc_byte c b \<longleftrightarrow> a = b"
  by (simp add: crc_byte_def crc_bits_inj push_ucast_inj xor_cancel_right xor.commute [of c])

lemma crc_hqx_inj: "crc_hqx bs c = crc_hqx bs d \<longleftrightarrow> c = d"
  by (induction bs arbitrary: c d) (auto simp: crc_byte_inj_left)

lemma crc_hqx_append: "crc_hqx (as @ bs) c = crc_hqx bs (crc_hqx as c)"
  by (induction as arbitrary: c) auto

text \<open>Changing one byte of the data always changes the check value.\<close>

lemma crc_hqx_one_byte:
  assumes "i < length bs" and "bs ! i \<noteq> v"
  shows "crc_hqx (bs[i := v]) c \<noteq> crc_hqx bs c"
proof -
  have "bs = take i bs @ bs ! i # drop (Suc i) bs"
    using assms(1) by (rule id_take_nth_drop)
  moreover have "bs[i := v] = take i bs @ v # drop (Suc i) bs"
    using assms(1) by (rule upd_conv_take_nth_drop)
  ultimately have "crc_hqx (bs[i := v]) c = crc_hqx (drop (Suc i) bs) (crc_byte (crc_hqx (take i bs) c) v)"
    and "crc_hqx bs c = crc_hqx (drop (Suc i) bs) (crc_byte (crc_hqx (take i bs) c) (bs ! i))"
    by (metis crc_hqx_append crc_hqx.simps(2))+
  with assms(2) show ?thesis by (auto simp: crc_hqx_inj crc_byte_inj_right)
qed

section \<open>Linearity\<close>

lemma crc_bit_xor: "crc_bit (a XOR b) = crc_bit a XOR crc_bit b"
proof (rule bit_word_eqI)
  fix n assume "n < LENGTH(16)"
  then have n: "n < 16" by simp
  show "bit (crc_bit (a XOR b)) n = bit (crc_bit a XOR crc_bit b) n"
    unfolding bit_xor_iff bit_crc_bit [OF n] by auto
qed

lemma crc_bits_xor: "(crc_bit ^^ k) (a XOR b) = (crc_bit ^^ k) a XOR (crc_bit ^^ k) b"
  by (induction k) (auto simp: crc_bit_xor)

text \<open>A register whose upper bits are clear is only shifted.\<close>

lemma crc_bits_low:
  assumes "\<And>n. 8 \<le> n \<Longrightarrow> \<not> bit x n" and "k \<le> 8"
  shows "(crc_bit ^^ k) x = push_bit k x"
  using assms(2)
proof (induction k)
  case (Suc k)
  then have "(crc_bit ^^ Suc k) x = crc_bit (push_bit k x)" by simp
  moreover have "\<not> bit (push_bit k x) 15"
    using assms(1) [of "15 - k"] Suc.prems by (simp add: bit_push_bit_iff)
  then have "crc_bit (push_bit k x) = push_bit 1 (push_bit k x)" by (simp only: crc_bit_def if_False)
  ultimately show ?case by (simp only: push_bit_push_bit plus_1_eq_Suc)
qed simp

end
