(* ===== verification/Hdlc.thy ===== *)
theory Hdlc
  imports Crc16
begin

text \<open>
  The HDLC framing of the serial link (\<^verbatim>\<open>cli/simple_hdlc.py\<close>): the frame check
  sequence (over the register of \<open>Crc16\<close>), the encoder with byte stuffing, and the decoder as a state machine over received
  bytes. Bytes are \<open>8 word\<close>, the check value is a \<open>16 word\<close>. The decoder's callbacks are
  the two lists of delivered payloads and reported errors.
\<close>

section \<open>Frame check sequence\<close>

definition calcCRC :: "byte list \<Rightarrow> byte list" where
  "calcCRC data = (let crc = crc_hqx data 0xFFFF in [ucast (drop_bit 8 crc), ucast crc])"

section \<open>Encoder\<close>

fun stuff :: "byte list \<Rightarrow> byte list" where
  "stuff [] = []"
| "stuff (b # bs) = (if b = 0x7E \<or> b = 0x7D then 0x7D # (b XOR 0x20) # stuff bs else b # stuff bs)"

definition encode :: "byte list \<Rightarrow> byte list" where
  "encode bs = [0x7E] @ stuff (bs @ calcCRC bs) @ [0x7E]"

section \<open>Frames\<close>

datatype fstate = STATE_READ | STATE_ESCAPE

record frame =
  finished :: bool
  error :: bool
  state :: fstate
  data :: "byte list"
  crc :: "byte list"

definition new_frame :: frame where
  "new_frame = \<lparr>finished = False, error = False, state = STATE_READ, data = [], crc = []\<rparr>"

definition addByte :: "byte \<Rightarrow> frame \<Rightarrow> frame" where
  "addByte b f =
     (if b = 0x7D then f\<lparr>state := STATE_ESCAPE\<rparr>
      else if state f = STATE_ESCAPE then f\<lparr>state := STATE_READ, data := data f @ [b XOR 0x20]\<rparr>
      else f\<lparr>data := data f @ [b]\<rparr>)"

text \<open>The slices \<^verbatim>\<open>data[-2:]\<close> and \<^verbatim>\<open>data[:-2]\<close>, total on short lists as in Python.\<close>

definition finish :: "frame \<Rightarrow> frame" where
  "finish f = f\<lparr>crc := drop (length (data f) - 2) (data f),
                data := take (length (data f) - 2) (data f), finished := True\<rparr>"

definition checkCRC :: "frame \<Rightarrow> bool \<times> frame" where
  "checkCRC f = (if crc f = calcCRC (data f) then (True, f) else (False, f\<lparr>error := True\<rparr>))"

section \<open>Decoder\<close>

record hdlc =
  current_frame :: "frame option"
  last_frame :: "frame option"
  frames :: "byte list list"
  errors :: "byte list list"

definition new_hdlc :: hdlc where
  "new_hdlc = \<lparr>current_frame = None, last_frame = None, frames = [], errors = []\<rparr>"

definition onFrame :: "frame \<Rightarrow> hdlc \<Rightarrow> hdlc" where
  "onFrame f h = h\<lparr>last_frame := Some f, frames := frames h @ [data f]\<rparr>"

definition onError :: "frame \<Rightarrow> hdlc \<Rightarrow> hdlc" where
  "onError f h = h\<lparr>last_frame := Some f, errors := errors h @ [data f]\<rparr>"

definition validate :: "frame \<Rightarrow> hdlc \<Rightarrow> bool \<times> hdlc" where
  "validate f h =
     (if finished f \<and> \<not> error f then (True, (onFrame f h)\<lparr>current_frame := None\<rparr>)
      else if finished f then (True, (onError f h)\<lparr>current_frame := None\<rparr>)
      else (False, h\<lparr>current_frame := Some f\<rparr>))"

definition readByte :: "byte \<Rightarrow> hdlc \<Rightarrow> bool \<times> hdlc" where
  "readByte b h =
     (if b = 0x7E
      then (case current_frame h of
              None \<Rightarrow> validate new_frame h
            | Some f \<Rightarrow> if length (data f) < 1 then validate new_frame h
                       else validate (snd (checkCRC (finish f))) h)
      else (case current_frame h of
              None \<Rightarrow> (False, h)
            | Some f \<Rightarrow> validate (if \<not> finished f then addByte b f else f) h))"

definition feed :: "byte list \<Rightarrow> hdlc \<Rightarrow> hdlc" where
  "feed bs h = fold (\<lambda>b h. snd (readByte b h)) bs h"

lemma feed_simps [simp]:
  "feed [] h = h" "feed (b # bs) h = feed bs (snd (readByte b h))"
  "feed (as @ bs) h = feed bs (feed as h)"
  by (simp_all add: feed_def)

section \<open>Stuffing\<close>

lemma xor_32_neq: "b = 0x7E \<or> b = 0x7D \<Longrightarrow> b XOR 0x20 \<noteq> (0x7E :: byte) \<and> b XOR 0x20 \<noteq> 0x7D"
  by auto

lemma xor_32_twice [simp]: "(b XOR 0x20) XOR 0x20 = (b :: byte)"
  by (simp add: xor.assoc)

text \<open>No flag byte inside a frame.\<close>

lemma stuff_no_flag: "0x7E \<notin> set (stuff bs)"
  by (induction bs) auto

lemma stuff_length: "length bs \<le> length (stuff bs) \<and> length (stuff bs) \<le> 2 * length bs"
  by (induction bs) auto

lemma length_calcCRC [simp]: "length (calcCRC bs) = 2"
  by (simp add: calcCRC_def Let_def)

text \<open>Reading stuffed bytes into an open frame appends the bytes they stand for.\<close>

lemma readByte_open:
  "current_frame h = Some f \<Longrightarrow> \<not> finished f \<Longrightarrow> b \<noteq> 0x7E \<Longrightarrow>
     snd (readByte b h) = h\<lparr>current_frame := Some (addByte b f)\<rparr> \<and> \<not> finished (addByte b f)"
  by (simp add: readByte_def validate_def addByte_def)

lemma feed_stuff:
  "current_frame h = Some f \<Longrightarrow> \<not> finished f \<Longrightarrow> state f = STATE_READ \<Longrightarrow>
     feed (stuff bs) h = h\<lparr>current_frame := Some (f\<lparr>data := data f @ bs\<rparr>)\<rparr>"
proof (induction bs arbitrary: h f)
  case (Cons b bs)
  show ?case
  proof (cases "b = 0x7E \<or> b = 0x7D")
    case True
    let ?f1 = "f\<lparr>state := STATE_ESCAPE\<rparr>" and ?f2 = "f\<lparr>data := data f @ [b]\<rparr>"
    have 1: "snd (readByte 0x7D h) = h\<lparr>current_frame := Some ?f1\<rparr>"
      using readByte_open [OF Cons.prems(1,2), of "0x7D"] by (simp add: addByte_def)
    have 2: "snd (readByte (b XOR 0x20) (h\<lparr>current_frame := Some ?f1\<rparr>)) = h\<lparr>current_frame := Some ?f2\<rparr>"
      using readByte_open [of "h\<lparr>current_frame := Some ?f1\<rparr>" ?f1 "b XOR 0x20"] xor_32_neq [OF True] Cons.prems
      by (simp add: addByte_def)
    from Cons.IH [of "h\<lparr>current_frame := Some ?f2\<rparr>" ?f2] Cons.prems True 1 2 show ?thesis by simp
  next
    case False
    let ?f1 = "f\<lparr>data := data f @ [b]\<rparr>"
    have "snd (readByte b h) = h\<lparr>current_frame := Some ?f1\<rparr>"
      using readByte_open [OF Cons.prems(1,2), of b] False Cons.prems(3) by (simp add: addByte_def)
    with Cons.IH [of "h\<lparr>current_frame := Some ?f1\<rparr>" ?f1] Cons.prems False show ?thesis by simp
  qed
qed simp

section \<open>Round trip\<close>

text \<open>Between frames: no frame, or a frame without a byte yet.\<close>

definition between :: "hdlc \<Rightarrow> bool" where
  "between h = (case current_frame h of None \<Rightarrow> True | Some f \<Rightarrow> data f = [])"

lemma feed_flag_between:
  "between h \<Longrightarrow> snd (readByte 0x7E h) = h\<lparr>current_frame := Some new_frame\<rparr>"
  by (auto simp: between_def readByte_def validate_def new_frame_def split: option.splits)

definition ok_frame :: "byte list \<Rightarrow> frame" where
  "ok_frame bs = \<lparr>finished = True, error = False, state = STATE_READ, data = bs, crc = calcCRC bs\<rparr>"

lemma feed_encode:
  assumes "between h"
  shows "feed (encode bs) h =
    h\<lparr>current_frame := None, last_frame := Some (ok_frame bs), frames := frames h @ [bs]\<rparr>"
proof -
  let ?f = "new_frame\<lparr>data := bs @ calcCRC bs\<rparr>"
  have "feed (stuff (bs @ calcCRC bs)) (h\<lparr>current_frame := Some new_frame\<rparr>) = h\<lparr>current_frame := Some ?f\<rparr>"
    using feed_stuff [of "h\<lparr>current_frame := Some new_frame\<rparr>" new_frame "bs @ calcCRC bs"]
    by (simp add: new_frame_def)
  moreover have "snd (readByte 0x7E (h\<lparr>current_frame := Some ?f\<rparr>)) =
      h\<lparr>current_frame := None, last_frame := Some (ok_frame bs), frames := frames h @ [bs]\<rparr>"
    by (simp add: readByte_def finish_def checkCRC_def validate_def onFrame_def new_frame_def ok_frame_def)
  ultimately show ?thesis by (simp add: encode_def feed_flag_between [OF assms])
qed

text \<open>A stream of frames with noise free of flag bytes between them.\<close>

fun stream :: "(byte list \<times> byte list) list \<Rightarrow> byte list" where
  "stream [] = []"
| "stream ((noise, bs) # rest) = noise @ encode bs @ stream rest"

lemma feed_noise:
  "current_frame h = None \<Longrightarrow> 0x7E \<notin> set noise \<Longrightarrow> feed noise h = h"
  by (induction noise) (auto simp: readByte_def)

lemma feed_stream:
  "current_frame h = None \<Longrightarrow> list_all (\<lambda>(noise, bs). 0x7E \<notin> set noise) xs \<Longrightarrow>
     frames (feed (stream xs) h) = frames h @ map snd xs \<and> errors (feed (stream xs) h) = errors h \<and>
     current_frame (feed (stream xs) h) = None"
proof (induction xs arbitrary: h)
  case (Cons x xs)
  obtain noise bs where x: "x = (noise, bs)" by (cases x)
  have b: "between h" using Cons.prems(1) by (simp add: between_def)
  let ?h = "h\<lparr>current_frame := None, last_frame := Some (ok_frame bs), frames := frames h @ [bs]\<rparr>"
  have "feed (stream (x # xs)) h = feed (stream xs) ?h"
    using feed_noise [OF Cons.prems(1), of noise] feed_encode [OF b, of bs] Cons.prems(2) x by simp
  with Cons.IH [of ?h] Cons.prems(2) x show ?case by simp
qed simp

section \<open>Resynchronisation\<close>

text \<open>The decoder never keeps a finished frame.\<close>

definition hdlc_wf :: "hdlc \<Rightarrow> bool" where
  "hdlc_wf h = (case current_frame h of None \<Rightarrow> True | Some f \<Rightarrow> \<not> finished f)"

lemma readByte_wf: "hdlc_wf h \<Longrightarrow> hdlc_wf (snd (readByte b h))"
  by (auto simp: hdlc_wf_def readByte_def validate_def onFrame_def onError_def new_frame_def
      split: option.splits)

lemma feed_wf: "hdlc_wf h \<Longrightarrow> hdlc_wf (feed bs h)"
  by (induction bs arbitrary: h) (auto simp: readByte_wf)

lemma flag_ends:
  assumes "\<not> between h"
  shows "current_frame (snd (readByte 0x7E h)) = None"
  using assms
  by (auto simp: between_def readByte_def validate_def finish_def checkCRC_def onFrame_def onError_def
      split: option.splits)

text \<open>
  From any state of the decoder, at most the frame in progress and the next one are lost:
  after one encoded frame the decoder is between frames.
\<close>

lemma feed_encode_between: "between (feed (encode bs) h)"
proof (cases "between h")
  case True
  then show ?thesis using feed_encode [of h bs] by (simp add: between_def)
next
  case False
  let ?h = "snd (readByte 0x7E h)"
  have "feed (stuff (bs @ calcCRC bs)) ?h = ?h"
    using feed_noise [OF flag_ends [OF False]] stuff_no_flag by simp
  moreover have "between ?h" using flag_ends [OF False] by (simp add: between_def)
  ultimately show ?thesis
    using feed_flag_between [of ?h] by (simp add: encode_def between_def new_frame_def)
qed

section \<open>What the check sequence detects\<close>

lemma calcCRC_inj: "calcCRC as = calcCRC bs \<longleftrightarrow> crc_hqx as 0xFFFF = crc_hqx bs 0xFFFF"
proof
  assume eq: "calcCRC as = calcCRC bs"
  show "crc_hqx as 0xFFFF = crc_hqx bs 0xFFFF"
  proof (rule bit_word_eqI)
    fix n assume n: "n < LENGTH(16)"
    from eq have hi: "(ucast (drop_bit 8 (crc_hqx as 0xFFFF)) :: byte) = ucast (drop_bit 8 (crc_hqx bs 0xFFFF))"
      and lo: "(ucast (crc_hqx as 0xFFFF) :: byte) = ucast (crc_hqx bs 0xFFFF)"
      by (auto simp: calcCRC_def Let_def)
    show "bit (crc_hqx as 0xFFFF) n = bit (crc_hqx bs 0xFFFF) n"
    proof (cases "n < 8")
      case True
      with arg_cong [OF lo, of "\<lambda>w. bit w n"] show ?thesis by (simp add: bit_simps)
    next
      case False
      with n have "n - 8 < 8" "8 + (n - 8) = n" by simp_all
      with arg_cong [OF hi, of "\<lambda>w. bit w (n - 8)"] show ?thesis by (simp add: bit_simps)
    qed
  qed
qed (simp add: calcCRC_def)

text \<open>A received frame whose data differ from the sent data in one byte fails the check.\<close>

lemma checkCRC_one_byte:
  assumes "i < length bs" and "bs ! i \<noteq> v"
  shows "checkCRC (f\<lparr>data := bs[i := v], crc := calcCRC bs\<rparr>) =
    (False, f\<lparr>data := bs[i := v], crc := calcCRC bs, error := True\<rparr>)"
  using crc_hqx_one_byte [OF assms, of "0xFFFF"] calcCRC_inj [of bs "bs[i := v]"]
  by (simp add: checkCRC_def)

end
