(* ===== verification/Blufi_Wire.thy ===== *)
theory Blufi_Wire
  imports Crc16
begin

text \<open>
  The wire format of BluFi (\<^verbatim>\<open>box/lager/blufi/framectrl.py\<close>, \<^verbatim>\<open>security/crc.py\<close> and
  the packet builder and the packet reader of \<^verbatim>\<open>client.py\<close>): type and frame-control
  bytes, the table-driven checksum, and the header, payload and checksum of one packet. AES
  (the \<^verbatim>\<open>cryptography\<close> package) is the record \<open>cipher\<close> of two functions of key,
  initialisation vector and data; \<open>cipher_ok\<close> states what is used of it: decryption undoes
  encryption and the length is kept.
\<close>

section \<open>Type and frame control\<close>

text \<open>Python integers; the header bytes are range-checked where they are written.\<close>

definition getTypeValue :: "int \<Rightarrow> int \<Rightarrow> int" where
  "getTypeValue type subtype = (push_bit 2 subtype) OR type"

definition getPackageType :: "int \<Rightarrow> int" where
  "getPackageType typeValue = typeValue AND 3"

definition getSubType :: "int \<Rightarrow> int" where
  "getSubType typeValue = drop_bit 2 (typeValue AND 252)"

definition fc_check :: "int \<Rightarrow> nat \<Rightarrow> bool" where
  "fc_check v position = ((drop_bit position v) AND 1 = 1)"

definition isEncrypted :: "int \<Rightarrow> bool" where "isEncrypted v = fc_check v 0"
definition isChecksum :: "int \<Rightarrow> bool" where "isChecksum v = fc_check v 1"
definition isAckRequirement :: "int \<Rightarrow> bool" where "isAckRequirement v = fc_check v 3"
definition hasFrag :: "int \<Rightarrow> bool" where "hasFrag v = fc_check v 4"

definition DIRECTION_OUTPUT :: int where "DIRECTION_OUTPUT = 0"
definition DIRECTION_INPUT :: int where "DIRECTION_INPUT = 1"

definition getFrameCTRLValue :: "bool \<Rightarrow> bool \<Rightarrow> int \<Rightarrow> bool \<Rightarrow> bool \<Rightarrow> int" where
  "getFrameCTRLValue encrypted checksum direction requireAck frag =
     (let frame = (0 :: int);
          frame = (if encrypted then frame OR push_bit 0 1 else frame);
          frame = (if checksum then frame OR push_bit 1 1 else frame);
          frame = (if direction = DIRECTION_INPUT then frame OR push_bit 2 1 else frame);
          frame = (if requireAck then frame OR push_bit 3 1 else frame);
          frame = (if frag then frame OR push_bit 4 1 else frame)
      in frame)"

lemma frame_ctrl_fields:
  "isEncrypted (getFrameCTRLValue e c d a f) = e" "isChecksum (getFrameCTRLValue e c d a f) = c"
  "isAckRequirement (getFrameCTRLValue e c d a f) = a" "hasFrag (getFrameCTRLValue e c d a f) = f"
  "0 \<le> getFrameCTRLValue e c d a f \<and> getFrameCTRLValue e c d a f < 32"
  by (cases e; cases c; cases "d = DIRECTION_INPUT"; cases a; cases f;
      simp add: getFrameCTRLValue_def isEncrypted_def isChecksum_def isAckRequirement_def hasFrag_def
        fc_check_def Let_def)+

lemma type_value_fields:
  assumes "0 \<le> t" "t < 4" "0 \<le> s" "s < 64"
  shows "getPackageType (getTypeValue t s) = t" "getSubType (getTypeValue t s) = s"
    "0 \<le> getTypeValue t s \<and> getTypeValue t s < 256"
proof -
  have or: "getTypeValue t s = 4 * s + t"
  proof -
    have "push_bit 2 s AND t = 0"
    proof (rule bit_eqI)
      fix n
      have "t = take_bit 2 t" using assms by (simp add: take_bit_int_eq_self)
      then have "\<not> bit t n" if "2 \<le> n" using that by (metis bit_take_bit_iff not_less)
      then show "bit (push_bit 2 s AND t) n = bit (0 :: int) n"
        by (auto simp: bit_and_iff bit_push_bit_iff)
    qed
    then have "push_bit 2 s OR t = push_bit 2 s + t" by (simp add: disjunctive_add_eq_or)
    then show ?thesis by (simp add: getTypeValue_def push_bit_eq_mult)
  qed
  have m: "x AND 3 = x mod 4" "drop_bit 2 (x AND 252) = (x div 4) mod 64" for x :: int
  proof -
    show "x AND 3 = x mod 4" using take_bit_eq_mask [of 2 x] by (simp add: take_bit_eq_mod mask_eq_exp_minus_1)
    have "drop_bit 2 (x AND 252) = drop_bit 2 x AND drop_bit 2 252" by (simp only: drop_bit_and)
    also have "\<dots> = drop_bit 2 x AND mask 6" by (simp add: mask_eq_exp_minus_1)
    also have "\<dots> = (x div 4) mod 64"
      by (simp only: take_bit_eq_mask [symmetric]) (simp add: take_bit_eq_mod drop_bit_eq_div)
    finally show "drop_bit 2 (x AND 252) = (x div 4) mod 64" .
  qed
  show "0 \<le> getTypeValue t s \<and> getTypeValue t s < 256"
    using assms unfolding or by linarith
  have "(4 * s + t) mod 4 = t" "(4 * s + t) div 4 = s"
    using assms int_mod_pos_eq [of "4 * s + t" 4 s t] int_div_pos_eq [of "4 * s + t" 4 s t] by simp_all
  moreover have "s mod 64 = s" using assms by simp
  ultimately have "(4 * s + t) mod 4 = t" "((4 * s + t) div 4) mod 64 = s" by (simp_all only:)
  then show "getPackageType (getTypeValue t s) = t" "getSubType (getTypeValue t s) = s"
    unfolding or getPackageType_def getSubType_def m .
qed

section \<open>Checksum\<close>

definition CRC_TB :: "16 word list" where
  "CRC_TB =
    [0x0000, 0x1021, 0x2042, 0x3063, 0x4084, 0x50a5, 0x60c6, 0x70e7,
     0x8108, 0x9129, 0xa14a, 0xb16b, 0xc18c, 0xd1ad, 0xe1ce, 0xf1ef,
     0x1231, 0x0210, 0x3273, 0x2252, 0x52b5, 0x4294, 0x72f7, 0x62d6,
     0x9339, 0x8318, 0xb37b, 0xa35a, 0xd3bd, 0xc39c, 0xf3ff, 0xe3de,
     0x2462, 0x3443, 0x0420, 0x1401, 0x64e6, 0x74c7, 0x44a4, 0x5485,
     0xa56a, 0xb54b, 0x8528, 0x9509, 0xe5ee, 0xf5cf, 0xc5ac, 0xd58d,
     0x3653, 0x2672, 0x1611, 0x0630, 0x76d7, 0x66f6, 0x5695, 0x46b4,
     0xb75b, 0xa77a, 0x9719, 0x8738, 0xf7df, 0xe7fe, 0xd79d, 0xc7bc,
     0x48c4, 0x58e5, 0x6886, 0x78a7, 0x0840, 0x1861, 0x2802, 0x3823,
     0xc9cc, 0xd9ed, 0xe98e, 0xf9af, 0x8948, 0x9969, 0xa90a, 0xb92b,
     0x5af5, 0x4ad4, 0x7ab7, 0x6a96, 0x1a71, 0x0a50, 0x3a33, 0x2a12,
     0xdbfd, 0xcbdc, 0xfbbf, 0xeb9e, 0x9b79, 0x8b58, 0xbb3b, 0xab1a,
     0x6ca6, 0x7c87, 0x4ce4, 0x5cc5, 0x2c22, 0x3c03, 0x0c60, 0x1c41,
     0xedae, 0xfd8f, 0xcdec, 0xddcd, 0xad2a, 0xbd0b, 0x8d68, 0x9d49,
     0x7e97, 0x6eb6, 0x5ed5, 0x4ef4, 0x3e13, 0x2e32, 0x1e51, 0x0e70,
     0xff9f, 0xefbe, 0xdfdd, 0xcffc, 0xbf1b, 0xaf3a, 0x9f59, 0x8f78,
     0x9188, 0x81a9, 0xb1ca, 0xa1eb, 0xd10c, 0xc12d, 0xf14e, 0xe16f,
     0x1080, 0x00a1, 0x30c2, 0x20e3, 0x5004, 0x4025, 0x7046, 0x6067,
     0x83b9, 0x9398, 0xa3fb, 0xb3da, 0xc33d, 0xd31c, 0xe37f, 0xf35e,
     0x02b1, 0x1290, 0x22f3, 0x32d2, 0x4235, 0x5214, 0x6277, 0x7256,
     0xb5ea, 0xa5cb, 0x95a8, 0x8589, 0xf56e, 0xe54f, 0xd52c, 0xc50d,
     0x34e2, 0x24c3, 0x14a0, 0x0481, 0x7466, 0x6447, 0x5424, 0x4405,
     0xa7db, 0xb7fa, 0x8799, 0x97b8, 0xe75f, 0xf77e, 0xc71d, 0xd73c,
     0x26d3, 0x36f2, 0x0691, 0x16b0, 0x6657, 0x7676, 0x4615, 0x5634,
     0xd94c, 0xc96d, 0xf90e, 0xe92f, 0x99c8, 0x89e9, 0xb98a, 0xa9ab,
     0x5844, 0x4865, 0x7806, 0x6827, 0x18c0, 0x08e1, 0x3882, 0x28a3,
     0xcb7d, 0xdb5c, 0xeb3f, 0xfb1e, 0x8bf9, 0x9bd8, 0xabbb, 0xbb9a,
     0x4a75, 0x5a54, 0x6a37, 0x7a16, 0x0af1, 0x1ad0, 0x2ab3, 0x3a92,
     0xfd2e, 0xed0f, 0xdd6c, 0xcd4d, 0xbdaa, 0xad8b, 0x9de8, 0x8dc9,
     0x7c26, 0x6c07, 0x5c64, 0x4c45, 0x3ca2, 0x2c83, 0x1ce0, 0x0cc1,
     0xef1f, 0xff3e, 0xcf5d, 0xdf7c, 0xaf9b, 0xbfba, 0x8fd9, 0x9ff8,
     0x6e17, 0x7e36, 0x4e55, 0x5e74, 0x2e93, 0x3eb2, 0x0ed1, 0x1ef0]"

fun crc_table_loop :: "16 word \<Rightarrow> byte list \<Rightarrow> 16 word" where
  "crc_table_loop crc [] = crc"
| "crc_table_loop crc (b # bs) =
     crc_table_loop (CRC_TB ! unat (drop_bit 8 crc XOR ucast b) XOR push_bit 8 crc) bs"

definition calcCRC :: "16 word \<Rightarrow> byte list \<Rightarrow> 16 word" where
  "calcCRC crc pByte = NOT (crc_table_loop (NOT crc) pByte)"

lemma length_CRC_TB: "length CRC_TB = 256"
  by (simp add: CRC_TB_def)

fun doubles :: "16 word list \<Rightarrow> 16 word list \<Rightarrow> bool" where
  "doubles [] ys = (ys = [])"
| "doubles (x # xs) (y # z # ys) = (y = crc_bit x \<and> z = crc_bit x XOR 0x1021 \<and> doubles xs ys)"
| "doubles _ _ = False"

lemma CRC_TB_doubles: "doubles (take 128 CRC_TB) CRC_TB"
  by code_simp

lemma doubles_nth:
  "doubles xs ys \<Longrightarrow> i < length xs \<Longrightarrow>
     ys ! (2 * i) = crc_bit (xs ! i) \<and> ys ! Suc (2 * i) = crc_bit (xs ! i) XOR 0x1021"
proof (induction xs ys arbitrary: i rule: doubles.induct)
  case (2 x xs y z ys)
  then show ?case by (cases i) auto
qed auto

definition crc_entry :: "nat \<Rightarrow> 16 word" where
  "crc_entry n = (crc_bit ^^ 8) (push_bit 8 (of_nat n))"

lemma bit_of_nat_small: "n < 2 ^ k \<Longrightarrow> k \<le> m \<Longrightarrow> \<not> bit (of_nat n :: 'a::len word) m"
  by (auto simp: bit_of_nat_iff dest: bit_nat_iff [THEN iffD1])
    (metis bit_take_bit_iff linorder_not_less take_bit_nat_eq_self)

lemma crc_entry_double:
  assumes "n < 128"
  shows "crc_entry (2 * n) = crc_bit (crc_entry n)"
proof -
  have "\<not> bit (push_bit 8 (of_nat n :: 16 word)) 15"
    using bit_of_nat_small [of n 7 7] assms by (simp add: bit_push_bit_iff)
  then have "crc_bit (push_bit 8 (of_nat n)) = push_bit 1 (push_bit 8 (of_nat n))"
    by (simp only: crc_bit_def if_False)
  also have "\<dots> = push_bit 8 (of_nat (2 * n))"
    by (simp only: push_bit_push_bit) (simp add: push_bit_eq_mult)
  finally show ?thesis unfolding crc_entry_def by (metis funpow_swap1)
qed

lemma crc_entry_double_1:
  assumes "n < 128"
  shows "crc_entry (Suc (2 * n)) = crc_bit (crc_entry n) XOR 0x1021"
proof -
  have "of_nat (Suc (2 * n)) = (of_nat (2 * n) XOR 1 :: 16 word)"
    by (simp add: xor_one_eq)
  then have "crc_entry (Suc (2 * n)) = crc_entry (2 * n) XOR crc_entry 1"
    by (simp only: crc_entry_def push_bit_xor crc_bits_xor of_nat_1)
  moreover have "crc_entry 1 = 0x1021" by code_simp
  ultimately show ?thesis using crc_entry_double [OF assms] by simp
qed

text \<open>Entry \<open>n\<close> of the table is eight steps of the register on \<open>n\<close> in its upper byte.\<close>

lemma CRC_TB_entry: "n < 256 \<Longrightarrow> CRC_TB ! n = crc_entry n"
proof (induction n rule: less_induct)
  case (less n)
  show ?case
  proof (cases "n = 0")
    case True
    then show ?thesis by (simp add: CRC_TB_def crc_entry_def crc_bit_def eval_nat_numeral)
  next
    case False
    define i where "i = n div 2"
    have i: "i < n" "i < 128" "i < length (take 128 CRC_TB)"
      using False less.prems by (auto simp: i_def length_CRC_TB)
    have "CRC_TB ! i = crc_entry i" using less.IH i by simp
    with doubles_nth [OF CRC_TB_doubles i(3)] i(2) crc_entry_double crc_entry_double_1
    have "CRC_TB ! (2 * i) = crc_entry (2 * i)" "CRC_TB ! Suc (2 * i) = crc_entry (Suc (2 * i))"
      by simp_all
    moreover have "n = 2 * i \<or> n = Suc (2 * i)" by (auto simp: i_def)
    ultimately show ?thesis by metis
  qed
qed

lemma unat_less_bits:
  fixes w :: "'a::len word"
  assumes "\<And>n. k \<le> n \<Longrightarrow> \<not> bit w n"
  shows "unat w < 2 ^ k"
proof -
  have "take_bit k w = w"
  proof (rule bit_eqI)
    fix n
    show "bit (take_bit k w) n = bit w n"
      using assms [of n] by (cases "k \<le> n") (auto simp: bit_take_bit_iff)
  qed
  then have "unat w = take_bit k (unat w)" by (metis unsigned_take_bit_eq)
  then show ?thesis using take_bit_nat_less_exp [of k "unat w"] by simp
qed

lemma crc_table_step:
  "CRC_TB ! unat (drop_bit 8 c XOR ucast b) XOR push_bit 8 c = crc_byte c b"
proof -
  let ?h = "drop_bit 8 c XOR ucast b :: 16 word"
  have hi: "\<not> bit ?h n" if "8 \<le> n" for n
    using that bit_imp_le_length [of c "n + 8"] bit_imp_le_length [of b n]
    by (auto simp: bit_xor_iff bit_drop_bit_eq bit_ucast_iff add.commute)
  then have "unat ?h < 256" using unat_less_bits [of 8 ?h] by simp
  then have "CRC_TB ! unat ?h = (crc_bit ^^ 8) (push_bit 8 ?h)"
    by (simp add: CRC_TB_entry crc_entry_def)
  moreover have low: "(crc_bit ^^ 8) (take_bit 8 c) = push_bit 8 (take_bit 8 c)"
    by (rule crc_bits_low) (auto simp: bit_take_bit_iff)
  moreover have "push_bit 8 (take_bit 8 c) = push_bit 8 c"
    by (rule bit_word_eqI) (auto simp: bit_push_bit_iff bit_take_bit_iff)
  moreover have "push_bit 8 ?h XOR take_bit 8 c = c XOR push_bit 8 (ucast b)"
    by (rule bit_word_eqI)
      (auto simp: bit_push_bit_iff bit_take_bit_iff bit_xor_iff bit_drop_bit_eq not_le)
  ultimately show ?thesis by (metis crc_byte_def crc_bits_xor)
qed

text \<open>The table computes the bitwise register on complemented values.\<close>

lemma calcCRC_bitwise: "calcCRC crc bs = NOT (crc_hqx bs (NOT crc))"
proof -
  have "crc_table_loop c bs = crc_hqx bs c" for c
    by (induction bs arbitrary: c) (simp_all add: crc_table_step)
  then show ?thesis by (simp add: calcCRC_def)
qed

section \<open>Packets\<close>

record cipher =
  encrypt :: "byte list option \<Rightarrow> byte list \<Rightarrow> byte list \<Rightarrow> byte list res"
  decrypt :: "byte list option \<Rightarrow> byte list \<Rightarrow> byte list \<Rightarrow> byte list res"

definition cipher_ok :: "cipher \<Rightarrow> byte list option \<Rightarrow> bool" where
  "cipher_ok C key = (\<forall>iv d. length iv = 16 \<longrightarrow> (\<exists>d'. encrypt C key iv d = Inr d' \<and>
     length d' = length d \<and> decrypt C key iv d' = Inr d))"

definition generateAESIV :: "int \<Rightarrow> byte list" where
  "generateAESIV seq = word_of_int (seq AND 255) # replicate 15 0"

text \<open>\<^verbatim>\<open>bytes([i])\<close>.\<close>

definition to_byte :: "int \<Rightarrow> byte res" where
  "to_byte i = (if 0 \<le> i \<and> i < 256 then Inr (word_of_int i) else Inl ValueError)"

definition pack_H :: "16 word \<Rightarrow> byte list" where
  "pack_H w = [ucast w, ucast (drop_bit 8 w)]"

definition packet_crc :: "byte \<Rightarrow> byte \<Rightarrow> byte list \<Rightarrow> 16 word" where
  "packet_crc sq len d = (let crc = calcCRC 0 [sq, len] in if d \<noteq> [] then calcCRC crc d else crc)"

definition getPostBytes :: "cipher \<Rightarrow> byte list option \<Rightarrow> int \<Rightarrow> bool \<Rightarrow> bool \<Rightarrow> bool \<Rightarrow> bool \<Rightarrow> int \<Rightarrow>
    byte list \<Rightarrow> byte list res" where
  "getPostBytes C key type encr checksum requireAck frag sequence d =
     (let dataLength = int (length d);
          frameCtrl = getFrameCTRLValue encr checksum DIRECTION_OUTPUT requireAck frag
      in res_bind (to_byte type) (\<lambda>t. res_bind (to_byte frameCtrl) (\<lambda>f.
         res_bind (to_byte sequence) (\<lambda>sq. res_bind (to_byte dataLength) (\<lambda>len.
           let checksumBytes = (if checksum then pack_H (packet_crc sq len d) else [])
           in res_bind (if encr \<and> 0 < dataLength then encrypt C key (generateAESIV sequence) d else Inr d)
                (\<lambda>d'. Inr ([t, f, sq, len] @ d' @ checksumBytes)))))))"

text \<open>
  What the reader of a packet gets out of it. The fields are read in the order of
  \<^verbatim>\<open>_parseNotificationLocked\<close>; \<open>None\<close> is a packet dropped for its checksum.
\<close>

record packet =
  pk_type :: int
  pk_ctrl :: int
  pk_seq :: int
  pk_data :: "byte list"

definition checksum_ok :: "byte list \<Rightarrow> byte \<Rightarrow> byte \<Rightarrow> byte list \<Rightarrow> bool" where
  "checksum_ok raw sq len d =
     (let crc = calcCRC (calcCRC 0 [sq, len]) d
      in raw ! (length raw - 1) = ucast (drop_bit 8 crc) \<and> raw ! (length raw - 2) = ucast crc)"

definition read_packet :: "cipher \<Rightarrow> byte list option \<Rightarrow> byte list \<Rightarrow> packet option res" where
  "read_packet C key raw =
     (if length raw < 4 then Inl IndexError
      else let t = raw ! 0; f = uint (raw ! 1); sq = raw ! 2; len = raw ! 3;
               d0 = take (unat len) (drop 4 raw)
           in res_bind (if isEncrypted f then decrypt C key (generateAESIV (uint sq)) d0 else Inr d0)
             (\<lambda>d. if isChecksum f \<and> \<not> checksum_ok raw sq len d then Inr None
                  else Inr (Some \<lparr>pk_type = uint t, pk_ctrl = f, pk_seq = uint sq, pk_data = d\<rparr>)))"

section \<open>One packet, written and read\<close>

lemma to_byte_Inr: "to_byte i = Inr b \<longleftrightarrow> 0 \<le> i \<and> i < 256 \<and> b = word_of_int i"
  by (auto simp: to_byte_def)

lemma uint_to_byte: "to_byte i = Inr b \<Longrightarrow> uint b = i"
  by (auto simp: to_byte_Inr uint_word_of_int_eq take_bit_int_eq_self)

lemma unat_to_byte: "to_byte (int n) = Inr b \<Longrightarrow> unat b = n"
  using uint_to_byte [of "int n" b] by (simp add: unat_eq_nat_uint)

lemma length_iv [simp]: "length (generateAESIV seq) = 16"
  by (simp add: generateAESIV_def)

lemma calcCRC_Nil [simp]: "calcCRC crc [] = crc"
  by (simp add: calcCRC_bitwise)

lemma packet_crc_eq: "packet_crc sq len d = calcCRC (calcCRC 0 [sq, len]) d"
  by (simp add: packet_crc_def Let_def)

lemma checksum_ok_built: "checksum_ok (pre @ pack_H (packet_crc sq len d)) sq len d"
  by (simp add: checksum_ok_def packet_crc_eq pack_H_def nth_append Let_def)

lemma cipher_okD:
  "cipher_ok C key \<Longrightarrow> length iv = 16 \<Longrightarrow>
     \<exists>d'. encrypt C key iv d = Inr d' \<and> length d' = length d \<and> decrypt C key iv d' = Inr d"
  by (simp add: cipher_ok_def)

lemma sealed_opens:
  assumes "encr \<Longrightarrow> cipher_ok C key" and "length iv = 16"
  shows "\<exists>d'. (if encr \<and> 0 < int (length d) then encrypt C key iv d else Inr d) = Inr d' \<and>
    length d' = length d \<and> (if encr then decrypt C key iv d' else Inr d') = Inr d"
proof (cases encr)
  case True
  then obtain d' where d': "encrypt C key iv d = Inr d'" "length d' = length d" "decrypt C key iv d' = Inr d"
    using cipher_okD [OF assms] by blast
  show ?thesis
  proof (cases "d = []")
    case True
    with d' have "decrypt C key iv [] = Inr []" by simp
    with True show ?thesis by simp
  next
    case False
    with True d' show ?thesis by simp
  qed
qed simp

lemma getPostBytes_ok:
  assumes "0 \<le> type" "type < 256" "0 \<le> sequence" "sequence < 256" "length d < 256"
    and "encr \<Longrightarrow> cipher_ok C key"
  shows "\<exists>pk. getPostBytes C key type encr checksum requireAck frag sequence d = Inr pk"
proof -
  obtain d' where d': "(if encr \<and> 0 < int (length d) then encrypt C key (generateAESIV sequence) d else Inr d) = Inr d'"
    using sealed_opens [OF assms(6) length_iv, where d = d] by blast
  have "to_byte type = Inr (word_of_int type)" "to_byte sequence = Inr (word_of_int sequence)"
    "to_byte (int (length d)) = Inr (word_of_int (int (length d)))"
    "to_byte (getFrameCTRLValue encr checksum DIRECTION_OUTPUT requireAck frag) =
      Inr (word_of_int (getFrameCTRLValue encr checksum DIRECTION_OUTPUT requireAck frag))"
    using assms(1-5) frame_ctrl_fields(5) [of encr checksum DIRECTION_OUTPUT requireAck frag]
    by (simp_all add: to_byte_def)
  then show ?thesis unfolding getPostBytes_def Let_def d' by (simp only: res_bind_Inr) blast
qed

text \<open>A packet that was built is read back with the same type, control bits, sequence
  number and data.\<close>

lemma read_packet_built:
  assumes "getPostBytes C key type encr checksum requireAck frag sequence d = Inr pk"
    and "encr \<Longrightarrow> cipher_ok C key"
  shows "read_packet C key pk = Inr (Some \<lparr>pk_type = type,
    pk_ctrl = getFrameCTRLValue encr checksum DIRECTION_OUTPUT requireAck frag,
    pk_seq = sequence, pk_data = d\<rparr>)"
proof -
  let ?fc = "getFrameCTRLValue encr checksum DIRECTION_OUTPUT requireAck frag"
  obtain t f sq len d' where b: "to_byte type = Inr t" "to_byte ?fc = Inr f" "to_byte sequence = Inr sq"
      "to_byte (int (length d)) = Inr len"
    and d': "(if encr \<and> 0 < int (length d) then encrypt C key (generateAESIV sequence) d else Inr d) = Inr d'"
    and pk: "pk = ([t, f, sq, len] @ d') @ (if checksum then pack_H (packet_crc sq len d) else [])"
    using assms(1) by (auto simp: getPostBytes_def res_bind_eq_Inr Let_def)
  note u = b(1) [THEN uint_to_byte] b(2) [THEN uint_to_byte] b(3) [THEN uint_to_byte] b(4) [THEN unat_to_byte]
  have dec: "(if encr then decrypt C key (generateAESIV sequence) d' else Inr d') = Inr d"
    and len: "length d' = length d"
    using sealed_opens [OF assms(2) length_iv, where d = d] d' by (metis sum.inject(2))+
  have "take (unat len) (drop 4 pk) = d'" using u(4) len by (simp add: pk)
  moreover have "checksum \<Longrightarrow> checksum_ok pk sq len d"
    unfolding pk by (simp only: if_True checksum_ok_built)
  moreover have "4 \<le> length pk" "pk ! 0 = t" "pk ! 1 = f" "pk ! 2 = sq" "pk ! 3 = len"
    by (simp_all add: pk)
  ultimately show ?thesis
    using u dec by (cases encr) (simp_all add: read_packet_def Let_def frame_ctrl_fields)
qed

section \<open>Damaged packets\<close>

lemma calcCRC_one_byte:
  "i < length bs \<Longrightarrow> bs ! i \<noteq> v \<Longrightarrow> calcCRC c (bs[i := v]) \<noteq> calcCRC c bs"
  using crc_hqx_one_byte [of i bs v "NOT c"] by (metis calcCRC_bitwise bit.double_compl)

lemma crc_halves:
  assumes "ucast (drop_bit 8 a) = (ucast (drop_bit 8 b) :: byte)" and "ucast a = (ucast b :: byte)"
  shows "a = (b :: 16 word)"
proof (rule bit_word_eqI)
  fix n assume n: "n < LENGTH(16)"
  show "bit a n = bit b n"
  proof (cases "n < 8")
    case True
    with arg_cong [OF assms(2), of "\<lambda>w. bit w n"] show ?thesis by (simp add: bit_simps)
  next
    case False
    with n have "n - 8 < 8" "8 + (n - 8) = n" by simp_all
    with arg_cong [OF assms(1), of "\<lambda>w. bit w (n - 8)"] show ?thesis by (simp add: bit_simps)
  qed
qed

lemma checksum_ok_iff:
  "checksum_ok (pre @ pack_H c) sq len d \<longleftrightarrow> c = calcCRC (calcCRC 0 [sq, len]) d"
  by (auto simp: checksum_ok_def pack_H_def nth_append Let_def intro: crc_halves)

text \<open>A packet with a checksum is dropped when one byte of its data has changed.\<close>

lemma damaged_dropped:
  assumes "getPostBytes C key type False True requireAck frag sequence d = Inr pk"
    and "i < length d" and "d ! i \<noteq> v"
  shows "read_packet C key (pk[4 + i := v]) = Inr None"
proof -
  let ?fc = "getFrameCTRLValue False True DIRECTION_OUTPUT requireAck frag"
  obtain t f sq len where b: "to_byte ?fc = Inr f" "to_byte (int (length d)) = Inr len"
    and pk: "pk = [t, f, sq, len] @ d @ pack_H (packet_crc sq len d)"
    using assms(1) by (auto simp: getPostBytes_def res_bind_eq_Inr Let_def)
  have upd: "pk[4 + i := v] = ([t, f, sq, len] @ d[i := v]) @ pack_H (packet_crc sq len d)"
    using assms(2) by (simp add: pk list_update_append numeral_eq_Suc)
  have bad: "\<not> checksum_ok (pk[4 + i := v]) sq len (d[i := v])"
    unfolding upd checksum_ok_iff packet_crc_eq
    using calcCRC_one_byte [OF assms(2,3), of "calcCRC 0 [sq, len]"] by metis
  have "take (unat len) (drop 4 (pk[4 + i := v])) = d[i := v]"
    using unat_to_byte [OF b(2)] by (simp add: upd)
  moreover have "4 \<le> length (pk[4 + i := v])" "pk[4 + i := v] ! 1 = f" "pk[4 + i := v] ! 2 = sq"
    "pk[4 + i := v] ! 3 = len" by (simp_all add: upd)
  ultimately show ?thesis
    using bad uint_to_byte [OF b(1)] by (simp add: read_packet_def Let_def frame_ctrl_fields)
qed

end
