(* ===== verification/Blufi_Client.thy ===== *)
theory Blufi_Client
  imports Blufi_Wire
begin

text \<open>
  The BluFi client (\<^verbatim>\<open>box/lager/blufi/client.py\<close> and \<^verbatim>\<open>security/crypto.py\<close>): the key
  exchange, fragmentation of outgoing data, reassembly and dispatch of incoming packets, and
  the requests built on them. The state is the part of the object the protocol uses. Three
  things come from outside and are arguments: \<open>C\<close> the cipher, \<open>md5\<close> the digest and
  \<open>link\<close> one \<^verbatim>\<open>write_gatt_char\<close> together with the notifications handled before it
  returns. The ghost field \<open>sent\<close> collects what was written. A text is kept as its UTF-8
  bytes, the version as the two numbers it is formatted from.
\<close>

section \<open>Key exchange\<close>

definition DH_P :: int where
  "DH_P = 0xcf5cf5c38419a724957ff5dd323b9c45c3cdd261eb740f69aa94b8bb1a5c96409153bd76b24222d03274e4725a5406092e9e82e9135c643cae98132b0d95f7d65347c68afc1e677da90e51bbab5f5cf429c291b4ba39c6b2dc5e8c7231e46aa7728e87664532cdf547be20c9a3fa8342be6e34371a27c06f7dc0edddd2f86373"

record blufi_crypto =
  privKey :: "int option"
  pub_y :: int

definition new_crypto :: blufi_crypto where
  "new_crypto = \<lparr>privKey = None, pub_y = 0\<rparr>"

text \<open>\<open>r\<close> is the result of \<^verbatim>\<open>secrets.randbelow(p - 3)\<close>.\<close>

definition genKeys :: "int \<Rightarrow> blufi_crypto \<Rightarrow> blufi_crypto" where
  "genKeys r c = c\<lparr>privKey := Some (r + 2), pub_y := 2 ^ nat (r + 2) mod DH_P\<rparr>"

fun int_from_bytes :: "byte list \<Rightarrow> int \<Rightarrow> int" where
  "int_from_bytes [] acc = acc"
| "int_from_bytes (b # bs) acc = int_from_bytes bs (256 * acc + uint b)"

fun big_endian :: "nat \<Rightarrow> int \<Rightarrow> byte list" where
  "big_endian 0 i = []"
| "big_endian (Suc n) i = big_endian n (i div 256) @ [word_of_int i]"

definition int_to_bytes :: "int \<Rightarrow> nat \<Rightarrow> byte list res" where
  "int_to_bytes i n = (if 0 \<le> i \<and> i < 256 ^ n then Inr (big_endian n i) else Inl OverflowError)"

definition deriveSharedKey :: "(byte list \<Rightarrow> byte list) \<Rightarrow> blufi_crypto \<Rightarrow> byte list \<Rightarrow> byte list res" where
  "deriveSharedKey md5 c peer = (case privKey c of
      None \<Rightarrow> Inl ValueError
    | Some k \<Rightarrow> let y = int_from_bytes peer 0 in
        if y \<le> 1 \<or> DH_P - 1 \<le> y then Inl ValueError
        else res_bind (int_to_bytes (y ^ nat k mod DH_P) 128) (\<lambda>s. Inr (md5 s)))"

definition getPBytes :: "byte list" where "getPBytes = big_endian 128 DH_P"
definition getGBytes :: "byte list" where "getGBytes = [2]"
definition getYBytes :: "blufi_crypto \<Rightarrow> byte list res" where "getYBytes c = int_to_bytes (pub_y c) 256"

section \<open>The client's state\<close>

record wifi_state =
  opMode :: int
  staConn :: int
  softAPConn :: int

record blufi =
  connected :: bool
  notify_en :: bool
  mSendSequence :: int
  mReadSequence :: int
  mEncrypted :: bool
  mChecksum :: bool
  mRequireAck :: bool
  crypto :: "blufi_crypto option"
  mAESKey :: "byte list option"
  rxPubKeyBuf :: "byte list"
  version :: "(int \<times> int) option"
  wifiState :: wifi_state
  ssidList :: "(byte list \<times> int) list"
  ssidListEvent :: bool
  secEvent :: bool
  mAck :: "int list"
  rxBuf :: "byte list"
  mPackageLengthLimit :: int
  mBlufiMTU :: int
  sent :: "byte list list"

definition reset_state :: "blufi \<Rightarrow> blufi" where
  "reset_state st = st\<lparr>connected := False, notify_en := False, mSendSequence := - 1,
     mReadSequence := - 1, mEncrypted := False, mChecksum := False, crypto := None, mAESKey := None,
     rxPubKeyBuf := [], version := None,
     wifiState := \<lparr>opMode = - 1, staConn = - 1, softAPConn = - 1\<rparr>\<rparr>"

definition new_client :: blufi where
  "new_client = \<lparr>connected = False, notify_en = False, mSendSequence = - 1, mReadSequence = - 1,
     mEncrypted = False, mChecksum = False, mRequireAck = False, crypto = None, mAESKey = None,
     rxPubKeyBuf = [], version = None, wifiState = \<lparr>opMode = - 1, staConn = - 1, softAPConn = - 1\<rparr>,
     ssidList = [], ssidListEvent = False, secEvent = False, mAck = [], rxBuf = [],
     mPackageLengthLimit = - 1, mBlufiMTU = - 1, sent = []\<rparr>"

definition setPostPackageLengthLimit :: "int \<Rightarrow> blufi \<Rightarrow> blufi" where
  "setPostPackageLengthLimit lengthLimit st =
     (if lengthLimit \<le> 0 then st\<lparr>mPackageLengthLimit := - 1\<rparr>
      else st\<lparr>mPackageLengthLimit := max (lengthLimit - 4) 20\<rparr>)"

definition generateSendSequence :: "blufi \<Rightarrow> int \<times> blufi" where
  "generateSendSequence st = (let s = (mSendSequence st + 1) AND 255 in (s, st\<lparr>mSendSequence := s\<rparr>))"

section \<open>Incoming data\<close>

type_synonym outcome = "unit res \<times> blufi"

definition parsePublicKey :: "(byte list \<Rightarrow> byte list) \<Rightarrow> byte list \<Rightarrow> blufi \<Rightarrow> outcome" where
  "parsePublicKey md5 d st =
     (let st1 = st\<lparr>rxPubKeyBuf := rxPubKeyBuf st @ d\<rparr> in
      case crypto st1 of
        None \<Rightarrow> (Inl AttributeError, st1)
      | Some c \<Rightarrow> (case deriveSharedKey md5 c (rxPubKeyBuf st1) of
            Inl e \<Rightarrow> (Inl e, st1)
          | Inr k \<Rightarrow> (Inr (), st1\<lparr>mAESKey := Some k, secEvent := True\<rparr>)))"

definition parseVersion :: "byte list \<Rightarrow> blufi \<Rightarrow> outcome" where
  "parseVersion d st = (case d of
      a # b # _ \<Rightarrow> (Inr (), st\<lparr>version := Some (uint a, uint b)\<rparr>)
    | _ \<Rightarrow> (Inl IndexError, st))"

definition parseWifiState :: "byte list \<Rightarrow> blufi \<Rightarrow> outcome" where
  "parseWifiState d st = (case d of
      a # b # c # _ \<Rightarrow>
        (Inr (), st\<lparr>wifiState := \<lparr>opMode = uint a, staConn = uint b, softAPConn = uint c\<rparr>\<rparr>)
    | _ \<Rightarrow> (Inr (), st))"

text \<open>Strict UTF-8, as \<^verbatim>\<open>bytes.decode()\<close> accepts it.\<close>

definition cont :: "byte \<Rightarrow> bool" where
  "cont b = (0x80 \<le> b \<and> b \<le> 0xBF)"

fun utf8_ok :: "byte list \<Rightarrow> bool" where
  "utf8_ok [] = True"
| "utf8_ok (a # bs) =
     (if a < 0x80 then utf8_ok bs
      else if 0xC2 \<le> a \<and> a \<le> 0xDF then (case bs of b # r \<Rightarrow> cont b \<and> utf8_ok r | _ \<Rightarrow> False)
      else if 0xE0 \<le> a \<and> a \<le> 0xEF then (case bs of
        b # c # r \<Rightarrow> cont b \<and> (a = 0xE0 \<longrightarrow> 0xA0 \<le> b) \<and> (a = 0xED \<longrightarrow> b \<le> 0x9F) \<and> cont c \<and> utf8_ok r
      | _ \<Rightarrow> False)
      else if 0xF0 \<le> a \<and> a \<le> 0xF4 then (case bs of
        b # c # d # r \<Rightarrow> cont b \<and> (a = 0xF0 \<longrightarrow> 0x90 \<le> b) \<and> (a = 0xF4 \<longrightarrow> b \<le> 0x8F) \<and>
          cont c \<and> cont d \<and> utf8_ok r
      | _ \<Rightarrow> False)
      else False)"

text \<open>The loop over the list of access points; the bytes left are \<^verbatim>\<open>readLeft\<close> many.\<close>

function scan_loop :: "byte list \<Rightarrow> (byte list \<times> int) list \<Rightarrow> unit res \<times> (byte list \<times> int) list" where
  "scan_loop bs acc = (case bs of
      [] \<Rightarrow> (Inr (), acc)
    | l # r \<Rightarrow>
        if unat l < 1 then (Inr (), acc)
        else (case r of
            [] \<Rightarrow> (Inl StructError, acc)
          | s # r' \<Rightarrow>
              let n = unat l - 1; ssid = take n r' in
              if length ssid \<noteq> n then (Inr (), acc)
              else scan_loop (drop n r') (if utf8_ok ssid then acc @ [(ssid, sint s)] else acc)))"
  by pat_completeness auto
termination
  by (relation "measure (\<lambda>(bs, acc). length bs)") auto

declare scan_loop.simps [simp del]

definition parseWifiScanList :: "byte list \<Rightarrow> blufi \<Rightarrow> outcome" where
  "parseWifiScanList d st = (case scan_loop d [] of
      (Inl e, l) \<Rightarrow> (Inl e, st\<lparr>ssidList := l\<rparr>)
    | (Inr _, l) \<Rightarrow> (Inr (), st\<lparr>ssidList := l, ssidListEvent := True\<rparr>))"

definition receiveAck :: "int \<Rightarrow> blufi \<Rightarrow> bool \<times> blufi" where
  "receiveAck sequence st = (case mAck st of
      [] \<Rightarrow> (False, st)
    | a # as \<Rightarrow> (a = sequence, st\<lparr>mAck := as\<rparr>))"

definition parseAck :: "byte list \<Rightarrow> blufi \<Rightarrow> outcome" where
  "parseAck d st = (Inr (), st\<lparr>mAck := mAck st @ [case d of [] \<Rightarrow> 256 | b # _ \<Rightarrow> uint b]\<rparr>)"

definition parseCtrlData :: "int \<Rightarrow> byte list \<Rightarrow> blufi \<Rightarrow> outcome" where
  "parseCtrlData subType d st = (if subType = 0 then parseAck d st else (Inr (), st))"

definition parseDataData :: "(byte list \<Rightarrow> byte list) \<Rightarrow> int \<Rightarrow> byte list \<Rightarrow> blufi \<Rightarrow> outcome" where
  "parseDataData md5 subType d st =
     (if subType = 0x00 then parsePublicKey md5 d st
      else if subType = 0x10 then parseVersion d st
      else if subType = 0x0f then parseWifiState d st
      else if subType = 0x11 then (Inr (), snd (parseWifiScanList d st))
      else (Inr (), st))"

text \<open>
  What follows the last fragment: dispatch on the package type, and the buffer is emptied
  unless the dispatch raised.
\<close>

definition deliver :: "(byte list \<Rightarrow> byte list) \<Rightarrow> int \<Rightarrow> blufi \<Rightarrow> outcome" where
  "deliver md5 type st =
     (case (if getPackageType type = 0 then parseCtrlData (getSubType type) (rxBuf st) st
            else if getPackageType type = 1 then parseDataData md5 (getSubType type) (rxBuf st) st
            else (Inr (), st)) of
        (Inl e, st') \<Rightarrow> (Inl e, st')
      | (Inr _, st') \<Rightarrow> (Inr (), st'\<lparr>rxBuf := []\<rparr>))"

definition parseNotification :: "cipher \<Rightarrow> (byte list \<Rightarrow> byte list) \<Rightarrow> byte list \<Rightarrow> blufi \<Rightarrow> outcome" where
  "parseNotification C md5 raw st =
     (if length raw < 3 then (Inl IndexError, st)
      else let st1 = st\<lparr>mReadSequence := mReadSequence st + 1\<rparr> in
        case read_packet C (mAESKey st1) raw of
          Inl e \<Rightarrow> (Inl e, st1)
        | Inr None \<Rightarrow> (Inr (), st1)
        | Inr (Some pk) \<Rightarrow>
            let frag = hasFrag (pk_ctrl pk);
                st2 = st1\<lparr>rxBuf := rxBuf st1 @ (if frag then drop 2 (pk_data pk) else pk_data pk)\<rparr>
            in if frag then (Inr (), st2) else deliver md5 (pk_type pk) st2)"

section \<open>Outgoing data\<close>

type_synonym link = "byte list \<Rightarrow> blufi \<Rightarrow> unit res \<times> blufi"

definition postNonData :: "cipher \<Rightarrow> link \<Rightarrow> bool \<Rightarrow> bool \<Rightarrow> bool \<Rightarrow> int \<Rightarrow> blufi \<Rightarrow> bool res \<times> blufi" where
  "postNonData C link encr checksum requireAck type st =
     (let (sq, st1) = generateSendSequence st in
      case getPostBytes C (mAESKey st1) type encr checksum requireAck False sq [] of
        Inl e \<Rightarrow> (Inl e, st1)
      | Inr pk \<Rightarrow> (case link pk st1 of
            (Inl e, st2) \<Rightarrow> (Inl e, st2)
          | (Inr _, st2) \<Rightarrow> (Inr True, st2)))"

text \<open>The next chunk: a full buffer, and a rest of one or two bytes is read along with it.\<close>

definition next_chunk :: "nat \<Rightarrow> byte list \<Rightarrow> byte list \<times> byte list" where
  "next_chunk n bs = (let a = take n bs; r = drop n bs in
     if 0 < length r \<and> length r \<le> 2 then (a @ take n r, drop n r) else (a, r))"

definition frag_body :: "byte list \<Rightarrow> byte list \<Rightarrow> byte list res" where
  "frag_body chunk r = (if r = [] then Inr chunk
     else let total = length chunk + length r in
       if total < 65536 then Inr (pack_H (of_nat total) @ chunk) else Inl StructError)"

lemma next_chunk_append:
  assumes "next_chunk n bs = (a, r)"
  shows "a @ r = bs"
proof -
  have "(take n bs @ take n (drop n bs)) @ drop n (drop n bs) = bs" "take n bs @ drop n bs = bs"
    by (simp_all only: append.assoc append_take_drop_id)
  with assms show ?thesis unfolding next_chunk_def Let_def by (metis prod.inject)
qed

lemma next_chunk_shorter: "next_chunk n bs = (a, r) \<Longrightarrow> 0 < n \<Longrightarrow> bs \<noteq> [] \<Longrightarrow> length r < length bs"
  by (auto simp: next_chunk_def Let_def split: if_splits)

function post_loop :: "cipher \<Rightarrow> link \<Rightarrow> nat \<Rightarrow> bool \<Rightarrow> bool \<Rightarrow> bool \<Rightarrow> int \<Rightarrow> byte list \<Rightarrow> blufi \<Rightarrow>
    bool res \<times> blufi" where
  "post_loop C link n encr checksum requireAck type bs st =
     (if n = 0 \<or> bs = [] then (Inr True, st)
      else let (chunk, r) = next_chunk n bs;
               (sq, st1) = generateSendSequence st
           in case res_bind (frag_body chunk r)
                (getPostBytes C (mAESKey st1) type encr checksum requireAck (r \<noteq> []) sq) of
                Inl e \<Rightarrow> (Inl e, st1)
              | Inr pk \<Rightarrow> (case link pk st1 of
                    (Inl e, st2) \<Rightarrow> (Inl e, st2)
                  | (Inr _, st2) \<Rightarrow>
                      if r \<noteq> [] \<and> requireAck
                      then (case receiveAck sq st2 of
                          (False, st3) \<Rightarrow> (Inr False, st3)
                        | (True, st3) \<Rightarrow> post_loop C link n encr checksum requireAck type r st3)
                      else post_loop C link n encr checksum requireAck type r st2))"
  by pat_completeness auto
termination
  by (relation "measure (\<lambda>(C, link, n, e, c, a, t, bs, st). length bs)")
    (auto dest: next_chunk_shorter sym)

declare post_loop.simps [simp del]

definition data_limit :: "bool \<Rightarrow> blufi \<Rightarrow> int" where
  "data_limit checksum st =
     (let pkgLengthLimit = (if mPackageLengthLimit st > 0 then mPackageLengthLimit st
                            else if mBlufiMTU st > 0 then mBlufiMTU st else 20);
          l = pkgLengthLimit - 4 - 2
      in if checksum then l - 2 else l)"

definition postContainData :: "cipher \<Rightarrow> link \<Rightarrow> bool \<Rightarrow> bool \<Rightarrow> bool \<Rightarrow> int \<Rightarrow> byte list \<Rightarrow> blufi \<Rightarrow>
    bool res \<times> blufi" where
  "postContainData C link encr checksum requireAck type d st =
     (let l = data_limit checksum st in
      if l < 0 then (Inl ValueError, st)
      else post_loop C link (nat l) encr checksum requireAck type d st)"

definition post :: "cipher \<Rightarrow> link \<Rightarrow> bool \<Rightarrow> bool \<Rightarrow> bool \<Rightarrow> int \<Rightarrow> byte list \<Rightarrow> blufi \<Rightarrow> outcome" where
  "post C link encr checksum requireAck type d st =
     (let st1 = (if requireAck \<and> \<not> notify_en st then st\<lparr>mReadSequence := mReadSequence st + 1\<rparr> else st);
          (r, st2) = (if d = [] then postNonData C link encr checksum requireAck type st1
                      else postContainData C link encr checksum requireAck type d st1)
      in (res_bind r (\<lambda>_. Inr ()), st2))"

section \<open>Requests\<close>

definition and_then :: "outcome \<Rightarrow> (blufi \<Rightarrow> outcome) \<Rightarrow> outcome" where
  "and_then x f = (case x of (Inl e, st) \<Rightarrow> (Inl e, st) | (Inr _, st) \<Rightarrow> f st)"

definition len_bytes :: "int \<Rightarrow> byte list" where
  "len_bytes n = [word_of_int (drop_bit 8 n AND 255), word_of_int (n AND 255)]"

definition len_prefixed :: "byte list \<Rightarrow> byte list" where
  "len_prefixed bs = len_bytes (int (length bs)) @ bs"

definition postNegotiateSecurity :: "cipher \<Rightarrow> link \<Rightarrow> blufi \<Rightarrow> outcome" where
  "postNegotiateSecurity C link st = (case crypto st of
      None \<Rightarrow> (Inl AttributeError, st)
    | Some c \<Rightarrow> (case getYBytes c of
          Inl e \<Rightarrow> (Inl e, st)
        | Inr kBytes \<Rightarrow>
            let type = getTypeValue 1 0x00;
                pgkLength = int (length getPBytes + length getGBytes + length kBytes + 6)
            in and_then
                 (post C link False False (mRequireAck st) type ([0x00] @ len_bytes pgkLength) st)
                 (\<lambda>st. post C link False False (mRequireAck st) type
                    ([0x01] @ len_prefixed getPBytes @ len_prefixed getGBytes @ len_prefixed kBytes) st)))"

definition postSetSecurity :: "cipher \<Rightarrow> link \<Rightarrow> bool \<Rightarrow> bool \<Rightarrow> bool \<Rightarrow> bool \<Rightarrow> blufi \<Rightarrow> outcome" where
  "postSetSecurity C link ctrlEncrypted ctrlChecksum dataEncrypted dataChecksum st =
     (let d = (0 :: byte);
          d = (if dataChecksum then d OR 1 else d);
          d = (if dataEncrypted then d OR 2 else d);
          d = (if ctrlChecksum then d OR 16 else d);
          d = (if ctrlEncrypted then d OR 32 else d)
      in post C link False dataChecksum (mRequireAck st) (getTypeValue 0 0x01) [d] st)"

text \<open>\<open>wait\<close> is what the notifications of the five seconds of waiting do to the client.\<close>

definition negotiateSecurity :: "cipher \<Rightarrow> link \<Rightarrow> (blufi \<Rightarrow> blufi) \<Rightarrow> int \<Rightarrow> blufi \<Rightarrow> outcome" where
  "negotiateSecurity C link wait r st =
     and_then (postNegotiateSecurity C link
                 (st\<lparr>crypto := Some (genKeys r new_crypto), secEvent := False\<rparr>))
       (\<lambda>st1. let st2 = wait st1 in
          if \<not> secEvent st2 then (Inl SecurityError, st2)
          else and_then (postSetSecurity C link False False True True st2)
                 (\<lambda>st3. (Inr (), st3\<lparr>mEncrypted := True, mChecksum := True\<rparr>)))"

definition requestVersion :: "cipher \<Rightarrow> link \<Rightarrow> blufi \<Rightarrow> outcome" where
  "requestVersion C link st =
     post C link (mEncrypted st) (mChecksum st) False (getTypeValue 0 0x07) [] st"

definition requestDeviceStatus :: "cipher \<Rightarrow> link \<Rightarrow> blufi \<Rightarrow> outcome" where
  "requestDeviceStatus C link st =
     post C link (mEncrypted st) (mChecksum st) False (getTypeValue 0 0x05) [] st"

definition requestDeviceScan :: "cipher \<Rightarrow> link \<Rightarrow> (blufi \<Rightarrow> blufi) \<Rightarrow> blufi \<Rightarrow> outcome" where
  "requestDeviceScan C link wait st =
     (let st = st\<lparr>ssidListEvent := False\<rparr> in
      and_then (post C link (mEncrypted st) (mChecksum st) False (getTypeValue 0 0x09) [] st)
        (\<lambda>st. (Inr (), wait st)))"

definition postDeviceMode :: "cipher \<Rightarrow> link \<Rightarrow> int \<Rightarrow> blufi \<Rightarrow> outcome" where
  "postDeviceMode C link mode st = (case int_to_bytes mode 1 of
      Inl e \<Rightarrow> (Inl e, st)
    | Inr d \<Rightarrow> post C link (mEncrypted st) (mChecksum st) True (getTypeValue 0 0x02) d st)"

definition postStaWifiInfo :: "cipher \<Rightarrow> link \<Rightarrow> byte list \<Rightarrow> byte list \<Rightarrow> blufi \<Rightarrow> outcome" where
  "postStaWifiInfo C link ssid pass st =
     and_then (post C link (mEncrypted st) (mChecksum st) (mRequireAck st) (getTypeValue 1 0x02) ssid st)
     (\<lambda>st. and_then (post C link (mEncrypted st) (mChecksum st) (mRequireAck st) (getTypeValue 1 0x03) pass st)
     (\<lambda>st. post C link False False (mRequireAck st) (getTypeValue 0 0x03) [] st))"

definition postCustomData :: "cipher \<Rightarrow> link \<Rightarrow> byte list \<Rightarrow> blufi \<Rightarrow> outcome" where
  "postCustomData C link d st =
     post C link (mEncrypted st) (mChecksum st) (mRequireAck st) (getTypeValue 1 0x13) d st"

section \<open>Fragmentation and reassembly\<close>

text \<open>
  A device that takes every packet and, when acknowledgements are asked for, acknowledges
  each at once; and a second client that reads the same packets.
\<close>

definition dev_link :: "bool \<Rightarrow> link" where
  "dev_link ack pk st = (Inr (), st\<lparr>sent := sent st @ [pk],
     mAck := (if ack then mAck st @ [uint (pk ! 2)] else mAck st)\<rparr>)"

definition receive :: "cipher \<Rightarrow> (byte list \<Rightarrow> byte list) \<Rightarrow> byte list list \<Rightarrow> blufi \<Rightarrow> blufi" where
  "receive C md5 pks r = fold (\<lambda>pk r. snd (parseNotification C md5 pk r)) pks r"

lemma receive_simps [simp]:
  "receive C md5 [] r = r" "receive C md5 (pk # pks) r = receive C md5 pks (snd (parseNotification C md5 pk r))"
  by (simp_all add: receive_def)

lemma and_255: "(x :: int) AND 255 = x mod 256"
  using take_bit_eq_mask [of 8 x] by (simp add: take_bit_eq_mod mask_eq_exp_minus_1)

lemma generateSendSequence_range:
  "generateSendSequence st = (sq, st') \<Longrightarrow>
     0 \<le> sq \<and> sq < 256 \<and> sq = (mSendSequence st + 1) mod 256 \<and> st' = st\<lparr>mSendSequence := sq\<rparr>"
  by (auto simp: generateSendSequence_def Let_def and_255)

lemma getPostBytes_shape:
  assumes "getPostBytes C key type encr checksum ack frag sq d = Inr pk" and "encr \<Longrightarrow> cipher_ok C key"
  shows "uint (pk ! 2) = sq" "length pk = 4 + length d + (if checksum then 2 else 0)"
proof -
  obtain t f s len d' where b: "to_byte sq = Inr s"
    and d': "(if encr \<and> 0 < int (length d) then encrypt C key (generateAESIV sq) d else Inr d) = Inr d'"
    and pk: "pk = [t, f, s, len] @ d' @ (if checksum then pack_H (packet_crc s len d) else [])"
    using assms(1) by (auto simp: getPostBytes_def res_bind_eq_Inr Let_def)
  have "length d' = length d"
    using sealed_opens [OF assms(2) length_iv, where d = d] d' by (metis sum.inject(2))
  then show "uint (pk ! 2) = sq" "length pk = 4 + length d + (if checksum then 2 else 0)"
    using uint_to_byte [OF b] by (simp_all add: pk pack_H_def)
qed

lemma parse_built:
  assumes "getPostBytes C key type encr checksum ack frag sq d = Inr pk" and "encr \<Longrightarrow> cipher_ok C key"
    and "mAESKey r = key"
  shows "parseNotification C md5 pk r =
    (let r' = r\<lparr>mReadSequence := mReadSequence r + 1, rxBuf := rxBuf r @ (if frag then drop 2 d else d)\<rparr>
     in if frag then (Inr (), r') else deliver md5 type r')"
  using read_packet_built [OF assms(1,2)] getPostBytes_shape(2) [OF assms(1,2)] assms(3)
  by (simp add: parseNotification_def frame_ctrl_fields Let_def)

lemma next_chunk_bounds:
  assumes "next_chunk n bs = (a, r)" and "2 \<le> n"
  shows "r \<noteq> [] \<Longrightarrow> length a = n" "r = [] \<Longrightarrow> length a \<le> n + 2"
  using assms by (auto simp: next_chunk_def Let_def split: if_splits)

text \<open>The packet of one pass of the loop.\<close>

lemma chunk_packet:
  assumes nc: "next_chunk n bs = (a, r)" and n: "2 \<le> n" "n + 2 < 256" and len: "length bs < 65536"
    and t: "0 \<le> type" "type < 256" and sq: "0 \<le> sq" "sq < 256" and c: "encr \<Longrightarrow> cipher_ok C key"
  obtains d pk where "frag_body a r = Inr d"
    "getPostBytes C key type encr checksum ack (r \<noteq> []) sq d = Inr pk"
    "(if r \<noteq> [] then drop 2 d else d) = a" "length pk \<le> n + 6 + (if checksum then 2 else 0)"
proof -
  have ar: "length a + length r < 65536" using next_chunk_append [OF nc] len by auto
  define d where "d = (if r = [] then a else pack_H (of_nat (length a + length r)) @ a)"
  have d: "frag_body a r = Inr d" using ar by (simp add: frag_body_def d_def Let_def)
  have dl: "length d \<le> n + 2" using next_chunk_bounds [OF nc n(1)] by (simp add: d_def pack_H_def)
  then have "length d < 256" using n(2) by simp
  then obtain pk where pk: "getPostBytes C key type encr checksum ack (r \<noteq> []) sq d = Inr pk"
    using getPostBytes_ok [OF t sq _ c] by blast
  have "length pk \<le> n + 6 + (if checksum then 2 else 0)"
    using getPostBytes_shape(2) [OF pk c] dl by simp
  with that [OF d pk] show ?thesis by (simp add: d_def pack_H_def)
qed

lemma post_loop_step:
  assumes "next_chunk n bs = (a, r)" "0 < n" "bs \<noteq> []" "generateSendSequence st = (sq, st1)"
    and "frag_body a r = Inr d" "getPostBytes C (mAESKey st1) type encr checksum ack (r \<noteq> []) sq d = Inr pk"
    and "encr \<Longrightarrow> cipher_ok C (mAESKey st1)" and "ack \<Longrightarrow> mAck st1 = []"
  shows "post_loop C (dev_link ack) n encr checksum ack type bs st =
    post_loop C (dev_link ack) n encr checksum ack type r
      (st1\<lparr>sent := sent st1 @ [pk], mAck := (if ack \<and> r = [] then [sq] else mAck st1)\<rparr>)"
  using assms getPostBytes_shape(1) [OF assms(6,7)]
  by (subst post_loop.simps) (auto simp: dev_link_def receiveAck_def)

lemma post_loop_device:
  assumes "2 \<le> n" "n + 2 < 256" "0 \<le> type" "type < 256" "encr \<Longrightarrow> cipher_ok C key"
    and "length bs < 65536" "bs \<noteq> []" "mAESKey st = key" "mAESKey r = key" "ack \<Longrightarrow> mAck st = []"
  shows "\<exists>pks st'. post_loop C (dev_link ack) n encr checksum ack type bs st = (Inr True, st') \<and>
    sent st' = sent st @ pks \<and> mAck st' = (if ack then [mSendSequence st'] else mAck st) \<and>
    receive C md5 pks r = snd (deliver md5 type
      (r\<lparr>mReadSequence := mReadSequence r + int (length pks), rxBuf := rxBuf r @ bs\<rparr>)) \<and>
    (\<forall>pk \<in> set pks. length pk \<le> n + 6 + (if checksum then 2 else 0))"
  using assms(6-)
proof (induction bs arbitrary: st r rule: length_induct)
  case (1 bs)
  obtain a rest where nc: "next_chunk n bs = (a, rest)" by fastforce
  obtain sq st1 where gs: "generateSendSequence st = (sq, st1)" by fastforce
  note sq = generateSendSequence_range [OF gs]
  have key: "mAESKey st1 = key" and ack1: "ack \<Longrightarrow> mAck st1 = []" using sq 1 by auto
  have sq': "0 \<le> sq" "sq < 256" using sq by auto
  obtain d pk where d: "frag_body a rest = Inr d"
    and pk: "getPostBytes C key type encr checksum ack (rest \<noteq> []) sq d = Inr pk"
    and da: "(if rest \<noteq> [] then drop 2 d else d) = a" and pl: "length pk \<le> n + 6 + (if checksum then 2 else 0)"
    using chunk_packet [OF nc assms(1,2) "1.prems"(1) assms(3,4) sq' assms(5)] .
  let ?st2 = "st1\<lparr>sent := sent st1 @ [pk], mAck := (if ack \<and> rest = [] then [sq] else mAck st1)\<rparr>"
  have n0: "0 < n" using assms(1) by simp
  have step: "post_loop C (dev_link ack) n encr checksum ack type bs st =
      post_loop C (dev_link ack) n encr checksum ack type rest ?st2"
    using post_loop_step [OF nc n0 "1.prems"(2) gs d] key pk assms(5) ack1 by metis
  let ?r = "r\<lparr>mReadSequence := mReadSequence r + 1, rxBuf := rxBuf r @ a\<rparr>"
  have rd: "parseNotification C md5 pk r = (if rest \<noteq> [] then (Inr (), ?r) else deliver md5 type ?r)"
    using parse_built [OF pk assms(5) "1.prems"(4)] da by (simp add: Let_def)
  have bs: "a @ rest = bs" using next_chunk_append [OF nc] .
  show ?case
  proof (cases "rest = []")
    case True
    then have "post_loop C (dev_link ack) n encr checksum ack type bs st = (Inr True, ?st2)"
      using step by (simp add: post_loop.simps)
    with True rd bs pl sq 1 show ?thesis by (intro exI [of _ "[pk]"] exI [of _ ?st2]) simp
  next
    case False
    have sh: "length rest < length bs" using next_chunk_shorter [OF nc n0 "1.prems"(2)] .
    have "\<exists>pks st'. post_loop C (dev_link ack) n encr checksum ack type rest ?st2 = (Inr True, st') \<and>
        sent st' = sent ?st2 @ pks \<and> mAck st' = (if ack then [mSendSequence st'] else mAck ?st2) \<and>
        receive C md5 pks ?r = snd (deliver md5 type
          (?r\<lparr>mReadSequence := mReadSequence ?r + int (length pks), rxBuf := rxBuf ?r @ rest\<rparr>)) \<and>
        (\<forall>pk \<in> set pks. length pk \<le> n + 6 + (if checksum then 2 else 0))"
      using "1.IH" [rule_format, of rest ?st2 ?r] sh False key ack1 1 by simp
    then obtain pks st' where "post_loop C (dev_link ack) n encr checksum ack type rest ?st2 = (Inr True, st')"
        "sent st' = sent ?st2 @ pks" "mAck st' = (if ack then [mSendSequence st'] else mAck ?st2)"
      and "receive C md5 pks ?r = snd (deliver md5 type
          (?r\<lparr>mReadSequence := mReadSequence ?r + int (length pks), rxBuf := rxBuf ?r @ rest\<rparr>))"
        "\<forall>pk \<in> set pks. length pk \<le> n + 6 + (if checksum then 2 else 0)" by blast
    with False rd bs pl sq step show ?thesis
      by (intro exI [of _ "pk # pks"] exI [of _ st']) (auto simp: algebra_simps)
  qed
qed

section \<open>Acknowledgements\<close>

text \<open>
  The acknowledgement of a last fragment is never taken from the queue, so the next transfer
  of several fragments stops after its first packet.
\<close>

lemma succ_mod_neq: "(x + 1) mod 256 \<noteq> (x :: int)"
proof
  assume eq: "(x + 1) mod 256 = x"
  then have x: "0 \<le> x" "x < 256" using pos_mod_bound [of 256 "x + 1"] pos_mod_sign [of 256 "x + 1"] by simp_all
  show False
  proof (cases "x = 255")
    case False
    with x have "(x + 1) mod 256 = x + 1" by (intro mod_pos_pos_trivial) auto
    with eq show False by simp
  qed (use eq in simp)
qed

lemma stale_ack_stops:
  assumes "2 \<le> n" "n + 2 < 256" "0 \<le> type" "type < 256" "encr \<Longrightarrow> cipher_ok C (mAESKey st)"
    and "n + 2 < length bs" "length bs < 65536" and "mAck st = [mSendSequence st]"
  shows "\<exists>pk st'. post_loop C (dev_link True) n encr checksum True type bs st = (Inr False, st') \<and>
    sent st' = sent st @ [pk]"
proof -
  obtain a rest where nc: "next_chunk n bs = (a, rest)" by fastforce
  have rest: "rest \<noteq> []" using nc assms(1,6) by (auto simp: next_chunk_def Let_def split: if_splits)
  obtain sq st1 where gs: "generateSendSequence st = (sq, st1)" by fastforce
  note sq = generateSendSequence_range [OF gs]
  have sq': "0 \<le> sq" "sq < 256" and key: "mAESKey st1 = mAESKey st" using sq by auto
  obtain d pk where d: "frag_body a rest = Inr d"
    and pk: "getPostBytes C (mAESKey st) type encr checksum True (rest \<noteq> []) sq d = Inr pk"
    using chunk_packet [OF nc assms(1,2,7,3,4) sq' assms(5)] by metis
  have "mSendSequence st \<noteq> sq" using sq succ_mod_neq [of "mSendSequence st"] by auto
  moreover have "bs \<noteq> []" "n \<noteq> 0" using assms(1,6) by auto
  ultimately show ?thesis
    using nc gs d pk key rest sq assms(8)
    by (subst post_loop.simps) (simp add: dev_link_def receiveAck_def)
qed

section \<open>The key exchange agrees\<close>

lemma int_from_bytes_append:
  "int_from_bytes (as @ bs) acc = int_from_bytes bs (int_from_bytes as acc)"
  by (induction as arbitrary: acc) auto

lemma int_from_big_endian: "0 \<le> i \<Longrightarrow> i < 256 ^ n \<Longrightarrow> int_from_bytes (big_endian n i) 0 = i"
proof (induction n arbitrary: i)
  case (Suc n)
  have "int_from_bytes (big_endian n (i div 256)) 0 = i div 256"
    using Suc by (intro Suc.IH) auto
  moreover have "uint (word_of_int i :: byte) = i mod 256"
    by (simp add: uint_word_of_int_eq take_bit_eq_mod)
  ultimately show ?case by (simp add: int_from_bytes_append)
qed simp

lemma int_to_from: "int_to_bytes i n = Inr bs \<Longrightarrow> int_from_bytes bs 0 = i"
  by (auto simp: int_to_bytes_def int_from_big_endian split: if_splits)

lemma DH_P_bound: "0 < DH_P" "DH_P < 256 ^ 128"
  by (simp_all add: DH_P_def)

definition in_range :: "blufi_crypto \<Rightarrow> bool" where
  "in_range c = (1 < pub_y c \<and> pub_y c < DH_P - 1)"

lemma getYBytes_ok: "in_range c \<Longrightarrow> \<exists>bs. getYBytes c = Inr bs \<and> int_from_bytes bs 0 = pub_y c"
proof -
  assume "in_range c"
  then have "0 \<le> pub_y c" "pub_y c < 256 ^ 256"
    using DH_P_bound by (auto simp: in_range_def)
  then show ?thesis by (simp add: getYBytes_def int_to_bytes_def int_from_big_endian)
qed

lemma derive_in_range:
  assumes "privKey c = Some k" and "int_from_bytes peer 0 = y" "1 < y" "y < DH_P - 1"
  shows "deriveSharedKey md5 c peer = Inr (md5 (big_endian 128 (y ^ nat k mod DH_P)))"
proof -
  have "0 \<le> y ^ nat k mod DH_P" "y ^ nat k mod DH_P < 256 ^ 128"
    using order_less_trans [OF pos_mod_bound [OF DH_P_bound(1)] DH_P_bound(2)] DH_P_bound(1)
    by (simp_all only: pos_mod_sign)
  with assms show ?thesis by (simp add: deriveSharedKey_def Let_def int_to_bytes_def)
qed

lemma genKeys_pub: "pub_y (genKeys r c) = 2 ^ nat (r + 2) mod DH_P"
  by (simp add: genKeys_def)

lemma shared_key_agrees:
  assumes a: "a = genKeys ra new_crypto" and b: "b = genKeys rb new_crypto"
    and "in_range a" "in_range b" "getYBytes a = Inr ya" "getYBytes b = Inr yb"
  shows "deriveSharedKey md5 a yb = deriveSharedKey md5 b ya \<and> (\<exists>k. deriveSharedKey md5 a yb = Inr (md5 k))"
proof -
  have ya: "int_from_bytes ya 0 = pub_y a" and yb: "int_from_bytes yb 0 = pub_y b"
    using getYBytes_ok assms(3-6) by fastforce+
  have "pub_y b ^ nat (ra + 2) mod DH_P = 2 ^ (nat (rb + 2) * nat (ra + 2)) mod DH_P"
    and "pub_y a ^ nat (rb + 2) mod DH_P = 2 ^ (nat (ra + 2) * nat (rb + 2)) mod DH_P"
    by (simp_all only: a b genKeys_pub power_mod power_mult)
  then have eq: "pub_y b ^ nat (ra + 2) mod DH_P = pub_y a ^ nat (rb + 2) mod DH_P"
    by (simp only: mult.commute)
  have "privKey a = Some (ra + 2)" "privKey b = Some (rb + 2)" by (simp_all add: a b genKeys_def)
  with derive_in_range [of a _ yb "pub_y b" md5] derive_in_range [of b _ ya "pub_y a" md5] ya yb eq assms(3,4)
  show ?thesis by (auto simp: in_range_def)
qed

section \<open>The list of access points\<close>

text \<open>An access point as the device encodes it: length, signal strength, name.\<close>

definition encode_ap :: "byte list \<times> byte \<Rightarrow> byte list" where
  "encode_ap ap = (case ap of (ssid, s) \<Rightarrow> [of_nat (length ssid + 1), s] @ ssid)"

definition ap_ok :: "byte list \<times> byte \<Rightarrow> bool" where
  "ap_ok ap = (length (fst ap) \<le> 254 \<and> utf8_ok (fst ap))"

lemma scan_loop_encoded:
  "list_all ap_ok aps \<Longrightarrow> scan_loop (concat (map encode_ap aps)) acc =
     (Inr (), acc @ map (\<lambda>(ssid, s). (ssid, sint s)) aps)"
proof (induction aps arbitrary: acc)
  case Nil
  then show ?case by (simp add: scan_loop.simps)
next
  case (Cons ap aps)
  obtain ssid s where ap: "ap = (ssid, s)" by (cases ap)
  have "unat (of_nat (length ssid + 1) :: byte) = length ssid + 1"
    using Cons.prems ap by (simp add: unat_of_nat ap_ok_def del: of_nat_add of_nat_Suc)
  moreover have "encode_ap ap = of_nat (length ssid + 1) # s # ssid" by (simp add: ap encode_ap_def)
  moreover have "utf8_ok ssid" "list_all ap_ok aps" using Cons.prems ap by (simp_all add: ap_ok_def [of "(ssid, s)"])
  ultimately show ?case
    using Cons.IH [of "acc @ [(ssid, sint s)]"] ap
    by (subst scan_loop.simps) (simp add: Let_def del: of_nat_add of_nat_Suc)
qed

end
