(* ===== verification/Binary32.thy ===== *)
theory Binary32
  imports Lager_Prelude
begin

text \<open>
  The format \<^verbatim>\<open>f\<close> of \<^verbatim>\<open>struct\<close>: a Python float, kept as its 64-bit pattern, is rounded to the
  nearest binary32 number, ties to even, and an infinite result of a finite number raises
  \<^verbatim>\<open>OverflowError\<close>; reading it back widens it. Shown: what is read back packs to the same bits,
  so a second round trip changes nothing, and the significand is rounded to the nearest.
\<close>

section \<open>Patterns\<close>

definition d_sign :: "int \<Rightarrow> int" where "d_sign v = v div 2 ^ 63"
definition d_exp :: "int \<Rightarrow> int" where "d_exp v = v div 2 ^ 52 mod 2 ^ 11"
definition d_frac :: "int \<Rightarrow> int" where "d_frac v = v mod 2 ^ 52"

definition dbl :: "int \<Rightarrow> int \<Rightarrow> int \<Rightarrow> int" where
  "dbl s e m = (s * 2 ^ 11 + e) * 2 ^ 52 + m"

definition f_sign :: "int \<Rightarrow> int" where "f_sign p = p div 2 ^ 31"
definition f_exp :: "int \<Rightarrow> int" where "f_exp p = p div 2 ^ 23 mod 2 ^ 8"
definition f_frac :: "int \<Rightarrow> int" where "f_frac p = p mod 2 ^ 23"

definition sgl :: "int \<Rightarrow> int \<Rightarrow> int" where
  "sgl s mag = s * 2 ^ 31 + mag"

section \<open>Packing and unpacking\<close>

text \<open>Division by a power of two, to the nearest, ties to even.\<close>

definition round_even :: "int \<Rightarrow> nat \<Rightarrow> int" where
  "round_even x k = (let q = x div 2 ^ k; r = x mod 2 ^ k in
     if 2 ^ k < 2 * r \<or> 2 * r = 2 ^ k \<and> odd q then q + 1 else q)"

text \<open>
  The exponent of a double is 896 above that of the single; below the smallest normal single
  the significand is shifted further. A quiet bit is set in what is not a number.
\<close>

definition pack_float :: "int \<Rightarrow> int res" where
  "pack_float v = (let s = d_sign v; e = d_exp v; m = d_frac v in
     if e = 2047
     then Inr (sgl s (255 * 2 ^ 23 + (if m = 0 then 0 else 2 ^ 22 + m div 2 ^ 29 mod 2 ^ 22)))
     else let sig = (if e = 0 then m else 2 ^ 52 + m); e1 = max e 1;
              mag = max 0 (e1 - 897) * 2 ^ 23 + round_even sig (nat (29 + max 0 (897 - e1))) in
       if 255 * 2 ^ 23 \<le> mag then Inl OverflowError else Inr (sgl s mag))"

fun ilog2 :: "nat \<Rightarrow> nat" where
  "ilog2 m = (if m \<le> 1 then 0 else Suc (ilog2 (m div 2)))"

declare ilog2.simps [simp del]

definition unpack_float :: "int \<Rightarrow> int" where
  "unpack_float p = (let s = f_sign p; e = f_exp p; m = f_frac p; k = ilog2 (nat m) in
     if e = 255 then dbl s 2047 (if m = 0 then 0 else 2 ^ 51 + m mod 2 ^ 22 * 2 ^ 29)
     else if 0 < e then dbl s (e + 896) (m * 2 ^ 29)
     else if m = 0 then dbl s 0 0
     else dbl s (int k + 874) ((m - 2 ^ k) * 2 ^ (52 - k)))"

section \<open>Laws\<close>

lemma dbl_parts:
  assumes "0 \<le> e" "e < 2 ^ 11" "0 \<le> m" "m < 2 ^ 52"
  shows "d_sign (dbl s e m) = s" "d_exp (dbl s e m) = e" "d_frac (dbl s e m) = m"
proof -
  have q: "dbl s e m div 2 ^ 52 = s * 2 ^ 11 + e" using assms by (simp add: dbl_def)
  have "dbl s e m div 2 ^ 63 = dbl s e m div 2 ^ 52 div 2 ^ 11" by (simp add: zdiv_zmult2_eq [symmetric])
  also have "\<dots> = s" unfolding q using assms by simp
  finally show "d_sign (dbl s e m) = s" unfolding d_sign_def .
  show "d_exp (dbl s e m) = e" unfolding d_exp_def q using assms by simp
  have "dbl s e m mod 2 ^ 52 = m mod 2 ^ 52"
    unfolding dbl_def by (rule mod_mult_self3)
  then show "d_frac (dbl s e m) = m" using assms by (simp add: d_frac_def)
qed

lemma dbl_range:
  assumes "s \<in> {0, 1}" "0 \<le> e" "e < 2 ^ 11" "0 \<le> m" "m < 2 ^ 52"
  shows "0 \<le> dbl s e m \<and> dbl s e m < 2 ^ 64"
  using assms by (auto simp: dbl_def)

lemma single_parts:
  assumes "0 \<le> p" "p < 2 ^ 32"
  shows "f_sign p \<in> {0, 1}" "0 \<le> f_exp p" "f_exp p < 256" "0 \<le> f_frac p" "f_frac p < 2 ^ 23"
    and "p = sgl (f_sign p) (f_exp p * 2 ^ 23 + f_frac p)"
proof -
  have "f_sign p < 2" "0 \<le> f_sign p" using assms by (simp_all add: f_sign_def div_less_iff_less_mult)
  then show "f_sign p \<in> {0, 1}" by auto
  show "0 \<le> f_exp p" "f_exp p < 256" "0 \<le> f_frac p" "f_frac p < 2 ^ 23" by (simp_all add: f_exp_def f_frac_def)
  have "p div 2 ^ 31 = p div 2 ^ 23 div 2 ^ 8" by (simp add: zdiv_zmult2_eq [symmetric])
  then have "p div 2 ^ 23 = f_sign p * 2 ^ 8 + f_exp p" by (simp add: f_sign_def f_exp_def)
  then show "p = sgl (f_sign p) (f_exp p * 2 ^ 23 + f_frac p)"
    using div_mult_mod_eq [of p "2 ^ 23"] by (simp add: sgl_def f_frac_def)
qed

lemma round_even_exact: "round_even (x * 2 ^ k) k = x"
  by (simp add: round_even_def Let_def)

text \<open>The rounded number is half a unit away at most.\<close>

lemma round_even_near: "2 * \<bar>round_even x k * 2 ^ k - x\<bar> \<le> 2 ^ k"
proof -
  have x: "x = x div 2 ^ k * 2 ^ k + x mod 2 ^ k" by (simp only: div_mult_mod_eq)
  have r: "0 \<le> x mod 2 ^ k" "x mod 2 ^ k < 2 ^ k" by simp_all
  show ?thesis
  proof (cases "2 ^ k < 2 * (x mod 2 ^ k) \<or> 2 * (x mod 2 ^ k) = 2 ^ k \<and> odd (x div 2 ^ k)")
    case True
    then have "round_even x k * 2 ^ k - x = 2 ^ k - x mod 2 ^ k"
      using x by (simp add: round_even_def Let_def algebra_simps)
    moreover have "2 ^ k \<le> 2 * (x mod 2 ^ k)" using True by auto
    moreover have "\<bar>2 ^ k - x mod 2 ^ k\<bar> = 2 ^ k - x mod 2 ^ k"
      by (rule abs_of_nonneg) (simp only: diff_ge_0_iff_ge less_imp_le [OF r(2)])
    ultimately show ?thesis by simp
  next
    case False
    then have "round_even x k * 2 ^ k - x = - (x mod 2 ^ k)"
      using x by (simp add: round_even_def Let_def algebra_simps)
    moreover have "\<bar>- (x mod 2 ^ k)\<bar> = x mod 2 ^ k" by simp
    moreover have "2 * (x mod 2 ^ k) \<le> 2 ^ k" using False by (simp add: not_less)
    ultimately show ?thesis by simp
  qed
qed

lemma ilog2_bounds: "1 \<le> m \<Longrightarrow> 2 ^ ilog2 m \<le> m \<and> m < 2 ^ Suc (ilog2 m)"
proof (induction m rule: ilog2.induct)
  case (1 m)
  show ?case
  proof (cases "m \<le> 1")
    case True
    with 1 have "m = 1" by simp
    then show ?thesis by (simp add: ilog2.simps)
  next
    case False
    with 1 have "2 ^ ilog2 (m div 2) \<le> m div 2 \<and> m div 2 < 2 ^ Suc (ilog2 (m div 2))" by simp
    with False show ?thesis by (simp add: ilog2.simps [of m]) linarith
  qed
qed

lemma sgl_parts:
  assumes "0 \<le> mag" "mag < 2 ^ 31"
  shows "f_exp (sgl s mag) = mag div 2 ^ 23" "f_frac (sgl s mag) = mag mod 2 ^ 23"
proof -
  have e: "sgl s mag = mag + s * 2 ^ 8 * 2 ^ 23" by (simp add: sgl_def)
  have "sgl s mag div 2 ^ 23 = s * 2 ^ 8 + mag div 2 ^ 23" unfolding e by simp
  moreover have "mag div 2 ^ 23 < 2 ^ 8" using assms by (simp add: div_less_iff_less_mult)
  moreover have "0 \<le> mag div 2 ^ 23" using assms by (simp add: pos_imp_zdiv_nonneg_iff)
  ultimately show "f_exp (sgl s mag) = mag div 2 ^ 23" unfolding f_exp_def by simp
  show "f_frac (sgl s mag) = mag mod 2 ^ 23" unfolding f_frac_def e by (rule mod_mult_self1)
qed

text \<open>A quiet pattern: a number, an infinity, or not a number with the quiet bit.\<close>

definition single_ok :: "int \<Rightarrow> bool" where
  "single_ok p = (0 \<le> p \<and> p < 2 ^ 32 \<and> (f_exp p = 255 \<and> f_frac p \<noteq> 0 \<longrightarrow> 2 ^ 22 \<le> f_frac p))"

definition double_ok :: "int \<Rightarrow> bool" where
  "double_ok v = (0 \<le> v \<and> v < 2 ^ 64)"

lemma double_parts:
  assumes "double_ok v"
  shows "d_sign v \<in> {0, 1}" "0 \<le> d_exp v" "0 \<le> d_frac v" "d_frac v < 2 ^ 52"
proof -
  have v: "0 \<le> v" "v < 2 * 2 ^ 63" using assms by (simp_all add: double_ok_def)
  have "d_sign v < 2" using zdiv_mono1 [of v "2 * 2 ^ 63 - 1" "2 ^ 63"] v(2) by (simp add: d_sign_def)
  moreover have "0 \<le> d_sign v" using v(1) by (simp add: d_sign_def pos_imp_zdiv_nonneg_iff)
  ultimately have "d_sign v < 2" "0 \<le> d_sign v" by auto
  then show "d_sign v \<in> {0, 1}" by auto
  show "0 \<le> d_exp v" "0 \<le> d_frac v" "d_frac v < 2 ^ 52" by (simp_all add: d_exp_def d_frac_def)
qed

lemma round_even_pos: "0 \<le> x \<Longrightarrow> 0 \<le> round_even x k"
  by (simp add: round_even_def Let_def pos_imp_zdiv_nonneg_iff)

lemma sgl_ok:
  assumes "s \<in> {0, 1}" "0 \<le> mag" "mag < 2 ^ 31" "255 * 2 ^ 23 < mag \<Longrightarrow> 255 * 2 ^ 23 + 2 ^ 22 \<le> mag"
  shows "single_ok (sgl s mag)"
proof -
  have "0 \<le> sgl s mag" "sgl s mag < 2 ^ 32" using assms(1-3) by (auto simp: sgl_def)
  moreover have "2 ^ 22 \<le> mag mod 2 ^ 23" if "mag div 2 ^ 23 = 255" "mag mod 2 ^ 23 \<noteq> 0"
  proof -
    have m: "mag = 255 * 2 ^ 23 + mag mod 2 ^ 23" using that(1) div_mult_mod_eq [of mag "2 ^ 23"] by simp
    moreover have "0 < mag mod 2 ^ 23" using that(2) by (simp add: order_less_le)
    ultimately show ?thesis using assms(4) by linarith
  qed
  ultimately show ?thesis using sgl_parts [OF assms(2,3)] by (simp add: single_ok_def)
qed

lemma pack_float_ok:
  assumes "double_ok v" "pack_float v = Inr p"
  shows "single_ok p"
proof (cases "d_exp v = 2047")
  case True
  let ?n = "if d_frac v = 0 then 0 else 2 ^ 22 + d_frac v div 2 ^ 29 mod 2 ^ 22"
  have p: "p = sgl (d_sign v) (255 * 2 ^ 23 + ?n)" using assms(2) True by (simp add: pack_float_def Let_def)
  have n: "0 \<le> ?n" "?n < 2 ^ 23" "?n \<noteq> 0 \<longrightarrow> 2 ^ 22 \<le> ?n"
    using pos_mod_bound [of "2 ^ 22" "d_frac v div 2 ^ 29"] pos_mod_sign [of "2 ^ 22" "d_frac v div 2 ^ 29"]
    by (cases "d_frac v = 0"; simp)+
  show ?thesis unfolding p using n by (intro sgl_ok double_parts(1) [OF assms(1)]) auto
next
  case False
  let ?sig = "if d_exp v = 0 then d_frac v else 2 ^ 52 + d_frac v" and ?e1 = "max (d_exp v) 1"
  let ?mag = "max 0 (?e1 - 897) * 2 ^ 23 + round_even ?sig (nat (29 + max 0 (897 - ?e1)))"
  have p: "p = sgl (d_sign v) ?mag" "\<not> 255 * 2 ^ 23 \<le> ?mag"
    using assms(2) False by (auto simp: pack_float_def Let_def split: if_splits)
  have "0 \<le> round_even ?sig (nat (29 + max 0 (897 - ?e1)))" using double_parts [OF assms(1)] by (intro round_even_pos) simp
  then have "0 \<le> ?mag" by simp
  moreover have "single_ok (sgl (d_sign v) mag)" if "0 \<le> mag" "\<not> 255 * 2 ^ 23 \<le> mag" for mag
    using that by (intro sgl_ok double_parts(1) [OF assms(1)]) auto
  ultimately show ?thesis using p by blast
qed

text \<open>What is read back packs to the same bits.\<close>

lemma pack_exact:
  assumes "0 < e" "e < 2047" "0 \<le> m" "m < 2 ^ 52"
    and "2 ^ 52 + m = x * 2 ^ nat (29 + max 0 (897 - e))" and "max 0 (e - 897) * 2 ^ 23 + x < 255 * 2 ^ 23"
  shows "pack_float (dbl s e m) = Inr (sgl s (max 0 (e - 897) * 2 ^ 23 + x))"
proof -
  have parts: "d_sign (dbl s e m) = s" "d_exp (dbl s e m) = e" "d_frac (dbl s e m) = m"
    using assms(1-4) by (simp_all add: dbl_parts)
  have "max e 1 = e" using assms(1) by simp
  moreover have "round_even (2 ^ 52 + m) (nat (29 + max 0 (897 - e))) = x" unfolding assms(5) by (rule round_even_exact)
  ultimately show ?thesis
    unfolding pack_float_def Let_def parts using assms(1,2,6) by (simp only: if_False if_True simp_thms) simp
qed

lemma subnormal_parts:
  assumes "0 < m" "m < 2 ^ 23"
  defines "k \<equiv> ilog2 (nat m)"
  shows "k \<le> 22" "0 \<le> (m - 2 ^ k) * 2 ^ (52 - k)" "(m - 2 ^ k) * 2 ^ (52 - k) < 2 ^ 52"
    and "2 ^ 52 + (m - 2 ^ k) * 2 ^ (52 - k) = m * 2 ^ (52 - k)"
proof -
  have b: "2 ^ k \<le> nat m" "nat m < 2 ^ Suc k" using ilog2_bounds [of "nat m"] assms(1) by (auto simp: k_def)
  then have b': "2 ^ k \<le> m" "m < 2 * 2 ^ k" using assms(1) by (simp_all add: le_nat_iff nat_less_iff)
  have "(2 :: int) ^ k < 2 ^ 23" using b'(1) assms(2) by linarith
  then show k: "k \<le> 22" using power_less_imp_less_exp [of "2 :: int" k 23] by simp
  then have p: "(2 :: int) ^ 52 = 2 ^ k * 2 ^ (52 - k)" by (simp flip: power_add)
  show "0 \<le> (m - 2 ^ k) * 2 ^ (52 - k)" using b'(1) by simp
  have "(m - 2 ^ k) * 2 ^ (52 - k) < 2 ^ k * 2 ^ (52 - k)" using b'(2) by (intro mult_strict_right_mono) auto
  then show "(m - 2 ^ k) * 2 ^ (52 - k) < 2 ^ 52" unfolding p .
  show "2 ^ 52 + (m - 2 ^ k) * 2 ^ (52 - k) = m * 2 ^ (52 - k)" unfolding p by (simp only: algebra_simps)
qed

lemma pack_unpack_float:
  assumes "single_ok p"
  shows "pack_float (unpack_float p) = Inr p"
proof -
  let ?s = "f_sign p" and ?e = "f_exp p" and ?m = "f_frac p" and ?k = "ilog2 (nat (f_frac p))"
  have r: "0 \<le> p" "p < 2 ^ 32" and q: "?e = 255 \<Longrightarrow> ?m \<noteq> 0 \<Longrightarrow> 2 ^ 22 \<le> ?m"
    using assms by (auto simp: single_ok_def)
  note sp = single_parts [OF r]
  consider (inf) "?e = 255" "?m = 0" | (nan) "?e = 255" "?m \<noteq> 0" | (norm) "0 < ?e" "?e < 255"
    | (zero) "?e = 0" "?m = 0" | (sub) "?e = 0" "0 < ?m" using sp(2-5) by linarith
  then have "pack_float (unpack_float p) = Inr (sgl ?s (?e * 2 ^ 23 + ?m))"
  proof cases
    case inf
    then show ?thesis by (simp add: unpack_float_def pack_float_def Let_def dbl_parts)
  next
    case nan
    have "?m mod 2 ^ 22 = (?m - 2 ^ 22) mod 2 ^ 22" by (simp only: minus_mod_self2)
    also have "\<dots> = ?m - 2 ^ 22" using q nan sp(5) by (intro mod_pos_pos_trivial) simp_all
    finally have "?m mod 2 ^ 22 = ?m - 2 ^ 22" .
    moreover have "(2 ^ 51 + (?m - 2 ^ 22) * 2 ^ 29) div 2 ^ 29 = ?m" by simp
    ultimately show ?thesis using nan q sp(5)
      by (simp add: unpack_float_def pack_float_def Let_def dbl_parts)
  next
    case norm
    then have "pack_float (dbl ?s (?e + 896) (?m * 2 ^ 29)) = Inr (sgl ?s (max 0 (?e + 896 - 897) * 2 ^ 23 + (2 ^ 23 + ?m)))"
      using sp by (intro pack_exact) auto
    with norm show ?thesis by (simp add: unpack_float_def Let_def algebra_simps)
  next
    case zero
    then show ?thesis by (simp add: unpack_float_def pack_float_def Let_def dbl_parts round_even_def)
  next
    case sub
    note sb = subnormal_parts [OF sub(2) sp(5)]
    have n: "nat (29 + max 0 (897 - (int ?k + 874))) = 52 - ?k" "max 0 (int ?k + 874 - 897) = 0" using sb(1) by auto
    have "pack_float (dbl ?s (int ?k + 874) ((?m - 2 ^ ?k) * 2 ^ (52 - ?k))) =
        Inr (sgl ?s (max 0 (int ?k + 874 - 897) * 2 ^ 23 + ?m))"
      using sb sp(5) by (intro pack_exact; simp only: n) auto
    with sub show ?thesis unfolding n by (simp add: unpack_float_def Let_def)
  qed
  then show ?thesis using sp(6) by simp
qed

lemma unpack_float_ok:
  assumes "0 \<le> p" "p < 2 ^ 32"
  shows "double_ok (unpack_float p)"
proof -
  note sp = single_parts [OF assms]
  have d: "double_ok (dbl (f_sign p) e m)" if "0 \<le> e" "e < 2 ^ 11" "0 \<le> m" "m < 2 ^ 52" for e m
    unfolding double_ok_def by (rule dbl_range [OF sp(1) that])
  have n: "0 \<le> f_frac p mod 2 ^ 22" "f_frac p mod 2 ^ 22 < 2 ^ 22" by simp_all
  have sub: "double_ok (dbl (f_sign p) (int k + 874) ((f_frac p - 2 ^ k) * 2 ^ (52 - k)))"
    if "k = ilog2 (nat (f_frac p))" "f_frac p \<noteq> 0" for k
    using subnormal_parts [OF _ sp(5)] that sp(4) by (intro d) auto
  show ?thesis unfolding unpack_float_def Let_def using sp n by (auto intro!: d sub)
qed

section \<open>The nearest number\<close>

text \<open>
  The magnitude of a finite double in units of \<^verbatim>\<open>2 ** -1074\<close>, and of the magnitude bits of a
  finite single in units of \<^verbatim>\<open>2 ** -149\<close>.
\<close>

definition dval :: "int \<Rightarrow> int" where
  "dval v = (if d_exp v = 0 then d_frac v else 2 ^ 52 + d_frac v) * 2 ^ nat (max (d_exp v) 1 - 1)"

definition sval :: "int \<Rightarrow> int" where
  "sval mag = (if mag div 2 ^ 23 = 0 then mag else 2 ^ 23 + mag mod 2 ^ 23) * 2 ^ nat (max (mag div 2 ^ 23) 1 - 1)"

text \<open>The distance of neighbouring singles at the exponent of a double.\<close>

definition ulp32 :: "int \<Rightarrow> int" where
  "ulp32 v = 2 ^ nat (29 + max 896 (max (d_exp v) 1 - 1))"

lemma near_bounds:
  assumes "2 * \<bar>a - x\<bar> \<le> (p :: int)"
  shows "x \<le> b \<Longrightarrow> 2 * a \<le> 2 * b + p" "b \<le> x \<Longrightarrow> 2 * b - p \<le> 2 * a"
  using assms by presburger+

lemma round_even_le:
  assumes "x \<le> y * 2 ^ k" shows "round_even x k \<le> y"
proof -
  have p: "(0 :: int) < 2 ^ k" by simp
  have "2 * (round_even x k * 2 ^ k) \<le> 2 * (y * 2 ^ k) + 2 ^ k" by (rule near_bounds(1) [OF round_even_near assms])
  also have "\<dots> < 2 * ((y + 1) * 2 ^ k)" using p by (simp add: algebra_simps)
  finally have "round_even x k * 2 ^ k < (y + 1) * 2 ^ k" by simp
  then show ?thesis using mult_less_cancel_right_pos [OF p] by simp
qed

lemma round_even_ge:
  assumes "y * 2 ^ k \<le> x" shows "y \<le> round_even x k"
proof -
  have p: "(0 :: int) < 2 ^ k" by simp
  have "2 * ((y - 1) * 2 ^ k) < 2 * (y * 2 ^ k) - 2 ^ k" using p by (simp add: algebra_simps)
  also have "\<dots> \<le> 2 * (round_even x k * 2 ^ k)" by (rule near_bounds(2) [OF round_even_near assms])
  finally have "(y - 1) * 2 ^ k < round_even x k * 2 ^ k" by simp
  then show ?thesis using mult_less_cancel_right_pos [OF p] by simp
qed

text \<open>A carry out of the significand raises the exponent and leaves the value.\<close>

lemma sval_carry:
  assumes "0 \<le> R" "R \<le> 2 ^ 24" "0 \<le> j" "0 < j \<Longrightarrow> 2 ^ 23 \<le> R"
  shows "sval (j * 2 ^ 23 + R) = R * 2 ^ nat j"
proof -
  consider (low) "R < 2 ^ 23" | (mid) "2 ^ 23 \<le> R" "R < 2 ^ 24" | (top) "R = 2 ^ 24" using assms(2) by linarith
  then show ?thesis
  proof cases
    case low
    with assms have "j = 0" by linarith
    with low assms(1) show ?thesis by (simp add: sval_def)
  next
    case mid
    then have "(j * 2 ^ 23 + R) div 2 ^ 23 = j + 1" "(j * 2 ^ 23 + R) mod 2 ^ 23 = R - 2 ^ 23" 
      using int_div_pos_eq [of "j * 2 ^ 23 + R" "2 ^ 23" "j + 1" "R - 2 ^ 23"]
        int_mod_pos_eq [of "j * 2 ^ 23 + R" "2 ^ 23" "j + 1" "R - 2 ^ 23"] by (simp_all add: algebra_simps)
    with assms(3) show ?thesis by (simp add: sval_def)
  next
    case top
    then have "(j * 2 ^ 23 + R) div 2 ^ 23 = j + 2" "(j * 2 ^ 23 + R) mod 2 ^ 23 = 0"
      using int_div_pos_eq [of "j * 2 ^ 23 + R" "2 ^ 23" "j + 2" 0]
        int_mod_pos_eq [of "j * 2 ^ 23 + R" "2 ^ 23" "j + 2" 0] by (simp_all add: algebra_simps)
    with assms(3) show ?thesis unfolding sval_def top by (simp add: nat_add_distrib)
  qed
qed

lemma dval_unpack:
  assumes "0 \<le> mag" "mag < 255 * 2 ^ 23" "s \<in> {0, 1}"
  shows "dval (unpack_float (sgl s mag)) = sval mag * 2 ^ 925 \<and> d_sign (unpack_float (sgl s mag)) = s"
proof -
  have m31: "mag < 2 ^ 31" using assms(2) by simp
  have p: "f_exp (sgl s mag) = mag div 2 ^ 23" "f_frac (sgl s mag) = mag mod 2 ^ 23" by (rule sgl_parts [OF assms(1) m31])+
  have sg: "f_sign (sgl s mag) = s" using assms(1) m31 by (simp add: f_sign_def sgl_def)
  have m: "0 \<le> mag mod 2 ^ 23" "mag mod 2 ^ 23 < 2 ^ 23" by simp_all
  have e: "0 \<le> mag div 2 ^ 23" "mag div 2 ^ 23 < 255" using assms(1,2) by (simp_all add: pos_imp_zdiv_nonneg_iff div_less_iff_less_mult)
  define E F where "E = mag div 2 ^ 23" and "F = mag mod 2 ^ 23"
  consider (norm) "0 < E" | (zero) "E = 0" "F = 0" | (sub) "E = 0" "0 < F" using e m unfolding E_def F_def by linarith
  then show ?thesis
  proof cases
    case norm
    have u: "unpack_float (sgl s mag) = dbl s (E + 896) (F * 2 ^ 29)"
      using norm e(2) p sg by (simp add: unpack_float_def Let_def E_def F_def)
    have d: "d_sign (dbl s (E + 896) (F * 2 ^ 29)) = s" "d_exp (dbl s (E + 896) (F * 2 ^ 29)) = E + 896"
        "d_frac (dbl s (E + 896) (F * 2 ^ 29)) = F * 2 ^ 29"
      using norm e(2) m by (intro dbl_parts; simp add: E_def F_def)+
    have n: "nat (max (E + 896) 1 - 1) = nat (E - 1) + 896" using norm by auto
    have "dval (dbl s (E + 896) (F * 2 ^ 29)) = (2 ^ 23 + F) * 2 ^ 29 * 2 ^ (nat (E - 1) + 896)"
      unfolding dval_def d n using norm by simp
    also have "\<dots> = (2 ^ 23 + F) * 2 ^ nat (E - 1) * 2 ^ 925" by (simp add: power_add)
    finally show ?thesis using norm by (simp only: u d sval_def E_def [symmetric] F_def [symmetric]) (simp add: max_def)
  next
    case zero
    then have "mag = 0" using div_mult_mod_eq [of mag "2 ^ 23"] by (simp add: E_def F_def)
    moreover have "unpack_float (sgl s mag) = dbl s 0 0" using zero p sg by (simp add: unpack_float_def Let_def E_def F_def)
    ultimately show ?thesis by (simp add: dval_def sval_def dbl_parts)
  next
    case sub
    define k where "k = ilog2 (nat F)"
    have f: "0 < F" "F < 2 ^ 23" using sub m by (simp_all add: F_def)
    note sb = subnormal_parts [OF f, folded k_def]
    have u: "unpack_float (sgl s mag) = dbl s (int k + 874) ((F - 2 ^ k) * 2 ^ (52 - k))"
      using sub p sg by (simp add: unpack_float_def Let_def E_def F_def k_def)
    have d: "d_sign (dbl s (int k + 874) ((F - 2 ^ k) * 2 ^ (52 - k))) = s"
        "d_exp (dbl s (int k + 874) ((F - 2 ^ k) * 2 ^ (52 - k))) = int k + 874"
        "d_frac (dbl s (int k + 874) ((F - 2 ^ k) * 2 ^ (52 - k))) = (F - 2 ^ k) * 2 ^ (52 - k)"
      using sb(1-3) by (intro dbl_parts; simp)+
    have n: "nat (max (int k + 874) 1 - 1) = k + 873" by auto
    have "dval (unpack_float (sgl s mag)) = F * 2 ^ (52 - k) * 2 ^ (k + 873)"
      unfolding u dval_def d n using sb(4) by simp
    also have "\<dots> = F * 2 ^ 925" using sb(1) by (simp only: mult.assoc power_add [symmetric]) simp
    moreover have "F = mag" using sub(1) div_mult_mod_eq [of mag "2 ^ 23"] by (simp add: E_def F_def)
    ultimately show ?thesis using sub(1) d(1) u by (simp add: sval_def E_def)
  qed
qed

text \<open>
  Packing keeps the sign and takes a single half a unit away at most: the nearest.
\<close>

lemma pack_float_near:
  assumes v: "double_ok v" "d_exp v \<noteq> 2047" and p: "pack_float v = Inr p"
  shows "d_sign (unpack_float p) = d_sign v \<and> 2 * \<bar>dval (unpack_float p) - dval v\<bar> \<le> ulp32 v"
proof -
  note vp = double_parts [OF v(1)]
  define sig e1 where "sig = (if d_exp v = 0 then d_frac v else 2 ^ 52 + d_frac v)" and "e1 = max (d_exp v) 1"
  define k j where "k = nat (29 + max 0 (897 - e1))" and "j = max 0 (e1 - 897)"
  define R where "R = round_even sig k"
  have pm: "p = sgl (d_sign v) (j * 2 ^ 23 + R)" "j * 2 ^ 23 + R < 255 * 2 ^ 23"
    using p v(2) by (auto simp: pack_float_def Let_def sig_def e1_def k_def j_def R_def not_le split: if_splits)
  have sig: "0 \<le> sig" "sig \<le> 2 ^ 53" using vp by (auto simp: sig_def)
  have k29: "29 \<le> k" by (simp add: k_def)
  have R0: "0 \<le> R" unfolding R_def by (rule round_even_pos [OF sig(1)])
  have "(2 :: int) ^ 53 \<le> 2 ^ 24 * 2 ^ k"
    using power_increasing [OF k29, of "2 :: int"] by (simp add: power_add [symmetric])
  then have R24: "R \<le> 2 ^ 24" unfolding R_def using sig(2) by (intro round_even_le) linarith
  have R23: "2 ^ 23 \<le> R" if "0 < j"
  proof -
    have "k = 29" "d_exp v \<noteq> 0" using that by (auto simp: k_def j_def e1_def)
    then show ?thesis unfolding R_def sig_def using vp by (intro round_even_ge) simp
  qed
  have j0: "0 \<le> j" by (simp add: j_def)
  have mag0: "0 \<le> j * 2 ^ 23 + R" using R0 j0 by simp
  have u: "dval (unpack_float p) = R * 2 ^ nat j * 2 ^ 925" "d_sign (unpack_float p) = d_sign v"
    using dval_unpack [OF mag0 pm(2) vp(1)] sval_carry [OF R0 R24 j0 R23] by (simp_all add: pm(1))
  have n: "nat j + 925 = k + nat (e1 - 1)" by (auto simp: j_def k_def e1_def)
  have "dval (unpack_float p) = R * 2 ^ k * 2 ^ nat (e1 - 1)"
    unfolding u(1) mult.assoc power_add [symmetric] n ..
  moreover have "dval v = sig * 2 ^ nat (e1 - 1)" by (simp add: dval_def sig_def e1_def)
  ultimately have "dval (unpack_float p) - dval v = (R * 2 ^ k - sig) * 2 ^ nat (e1 - 1)"
    by (simp only: left_diff_distrib)
  then have "2 * \<bar>dval (unpack_float p) - dval v\<bar> = 2 * \<bar>R * 2 ^ k - sig\<bar> * 2 ^ nat (e1 - 1)" by (simp add: abs_mult)
  also have "\<dots> \<le> 2 ^ k * 2 ^ nat (e1 - 1)" unfolding R_def by (rule mult_right_mono [OF round_even_near]) simp
  also have "\<dots> = ulp32 v"
  proof -
    have "k + nat (e1 - 1) = nat (29 + max 896 (max (d_exp v) 1 - 1))" by (auto simp: k_def e1_def)
    then show ?thesis by (simp only: ulp32_def power_add [symmetric])
  qed
  finally show ?thesis using u(2) by simp
qed

section \<open>Through the format and back\<close>

definition narrow :: "int \<Rightarrow> int res" where
  "narrow v = res_bind (pack_float v) (\<lambda>p. Inr (unpack_float p))"

text \<open>
  What comes back for a double: the sign and the class, for a finite one the nearest number,
  and the double itself when a single represents it.
\<close>

definition near32 :: "int \<Rightarrow> int \<Rightarrow> bool" where
  "near32 v w = (d_sign w = d_sign v \<and>
     (if d_exp v = 2047 then d_exp w = 2047 \<and> (d_frac w = 0 \<longleftrightarrow> d_frac v = 0)
      else 2 * \<bar>dval w - dval v\<bar> \<le> ulp32 v) \<and>
     (\<forall>p. single_ok p \<and> v = unpack_float p \<longrightarrow> w = v))"

lemma narrow_stable:
  assumes "double_ok v" "pack_float v = Inr p"
  shows "pack_float (unpack_float p) = Inr p" "double_ok (unpack_float p)" "0 \<le> p" "p < 2 ^ 32"
proof -
  have ok: "single_ok p" by (rule pack_float_ok [OF assms])
  then show "pack_float (unpack_float p) = Inr p" by (rule pack_unpack_float)
  show r: "0 \<le> p" "p < 2 ^ 32" using ok by (simp_all add: single_ok_def)
  then show "double_ok (unpack_float p)" by (rule unpack_float_ok)
qed

lemma special_kept:
  assumes "double_ok v" "d_exp v = 2047" "pack_float v = Inr p"
  shows "d_sign (unpack_float p) = d_sign v \<and> d_exp (unpack_float p) = 2047 \<and>
    (d_frac (unpack_float p) = 0 \<longleftrightarrow> d_frac v = 0)"
proof -
  define n where "n = (if d_frac v = 0 then 0 else 2 ^ 22 + d_frac v div 2 ^ 29 mod 2 ^ 22)"
  have n: "0 \<le> n" "n < 2 ^ 23" "n = 0 \<longleftrightarrow> d_frac v = 0"
    using pos_mod_bound [of "2 ^ 22" "d_frac v div 2 ^ 29"] pos_mod_sign [of "2 ^ 22" "d_frac v div 2 ^ 29"]
    by (cases "d_frac v = 0"; simp add: n_def)+
  have p: "p = sgl (d_sign v) (255 * 2 ^ 23 + n)" using assms(2,3) by (simp add: pack_float_def Let_def n_def)
  have "0 \<le> 255 * 2 ^ 23 + n" "255 * 2 ^ 23 + n < 2 ^ 31" using n by simp_all
  note sp = sgl_parts [OF this, of "d_sign v"]
  moreover have "(255 * 2 ^ 23 + n) div 2 ^ 23 = 255" "(255 * 2 ^ 23 + n) mod 2 ^ 23 = n"
    using n(1,2) int_div_pos_eq [of "255 * 2 ^ 23 + n" "2 ^ 23" 255 n] int_mod_pos_eq [of "255 * 2 ^ 23 + n" "2 ^ 23" 255 n]
    by simp_all
  ultimately have "f_exp p = 255" "f_frac p = n" by (simp_all only: p)
  moreover have "f_sign p = d_sign v" using n(1,2) by (simp add: p f_sign_def sgl_def)
  moreover have "0 \<le> n mod 2 ^ 22" "n mod 2 ^ 22 < 2 ^ 22" by simp_all
  moreover have "0 < 2 ^ 51 + n mod 2 ^ 22 * 2 ^ 29" by (intro add_pos_nonneg) simp_all
  then have "2 ^ 51 + n mod 2 ^ 22 * 2 ^ 29 \<noteq> 0" by (rule less_imp_neq [THEN not_sym])
  ultimately show ?thesis using n(3) by (simp add: unpack_float_def Let_def dbl_parts)
qed

lemma narrow_near:
  assumes "double_ok v" "pack_float v = Inr p"
  shows "near32 v (unpack_float p)"
proof -
  have "unpack_float p = v" if "single_ok q" "v = unpack_float q" for q
    using pack_unpack_float [OF that(1)] that(2) assms(2) by simp
  then have "\<forall>q. single_ok q \<and> v = unpack_float q \<longrightarrow> unpack_float p = v" by blast
  then show ?thesis
    using special_kept [OF assms(1) _ assms(2)] pack_float_near [OF assms(1) _ assms(2)]
    unfolding near32_def by (cases "d_exp v = 2047") (simp_all only: if_True if_False simp_thms)
qed

lemma narrow_error: "narrow v = Inl e \<Longrightarrow> e = OverflowError"
  by (auto simp: narrow_def pack_float_def Let_def res_bind_def split: if_splits)

end
