(* ===== verification/Lscp.thy ===== *)
theory Lscp
  imports Crc16 Binary32
begin

text \<open>
  The codec of oscilloscope capture frames (\<^verbatim>\<open>box/lager/measurement/scope/lscp.py\<close>):
  header, channel descriptors and samples. A layout of \<^verbatim>\<open>struct\<close> is the list of its
  field widths, little-endian and without padding. A Python float is kept as its 64 bits: the
  interval is written as it is, a channel's scale and offset go through the 32 bits of
  \<open>Binary32\<close>. Samples are the \<^verbatim>\<open>int16\<close> counts. A channel label is its code point.
\<close>

section \<open>Fixed layouts\<close>

fun le_bytes :: "nat \<Rightarrow> int \<Rightarrow> byte list" where
  "le_bytes 0 v = []"
| "le_bytes (Suc n) v = word_of_int v # le_bytes n (v div 256)"

fun le_int :: "byte list \<Rightarrow> int" where
  "le_int [] = 0"
| "le_int (b # bs) = uint b + 256 * le_int bs"

fun pack :: "nat list \<Rightarrow> int list \<Rightarrow> byte list res" where
  "pack [] [] = Inr []"
| "pack (w # ws) (v # vs) = (if 0 \<le> v \<and> v < 256 ^ w
     then res_bind (pack ws vs) (\<lambda>bs. Inr (le_bytes w v @ bs)) else Inl StructError)"
| "pack _ _ = Inl StructError"

fun unpack :: "nat list \<Rightarrow> byte list \<Rightarrow> int list" where
  "unpack [] bs = []"
| "unpack (w # ws) bs = le_int (take w bs) # unpack ws (drop w bs)"

lemma length_le_bytes [simp]: "length (le_bytes n v) = n"
  by (induction n arbitrary: v) auto

lemma le_int_le_bytes: "0 \<le> v \<Longrightarrow> v < 256 ^ n \<Longrightarrow> le_int (le_bytes n v) = v"
proof (induction n arbitrary: v)
  case (Suc n)
  have "le_int (le_bytes n (v div 256)) = v div 256" using Suc by (intro Suc.IH) auto
  moreover have "uint (word_of_int v :: byte) = v mod 256"
    by (simp add: uint_word_of_int_eq take_bit_eq_mod)
  ultimately show ?case by simp
qed simp

lemma le_int_range: "0 \<le> le_int bs \<and> le_int bs < 256 ^ length bs"
proof (induction bs)
  case (Cons b bs)
  have "0 \<le> uint b" "uint b < 256" using uint_lt2p [of b] by simp_all
  moreover have "(256 :: int) ^ length (b # bs) = 256 * 256 ^ length bs" by simp
  ultimately show ?case using Cons by (simp only: le_int.simps) linarith
qed simp

lemma pack_unpack:
  "pack ws vs = Inr bs \<Longrightarrow> length bs = sum_list ws \<and> unpack ws (bs @ rest) = vs"
  by (induction ws vs arbitrary: bs rule: pack.induct)
    (auto simp: res_bind_eq_Inr le_int_le_bytes split: if_splits)

definition fits :: "nat list \<Rightarrow> int list \<Rightarrow> bool" where
  "fits ws vs = list_all2 (\<lambda>w v. 0 \<le> v \<and> v < 256 ^ w) ws vs"

lemma pack_fits: "fits ws vs \<Longrightarrow> \<exists>bs. pack ws vs = Inr bs"
  by (induction ws vs rule: pack.induct) (auto simp: fits_def)

lemma unpack_fits: "sum_list ws \<le> length bs \<Longrightarrow> fits ws (unpack ws bs)"
proof (induction ws bs rule: unpack.induct)
  case (2 w ws bs)
  have "length (take w bs) = w" "sum_list ws \<le> length (drop w bs)" using "2.prems" by auto
  with "2.IH" le_int_range [of "take w bs"] show ?case by (auto simp: fits_def)
qed (simp add: fits_def)

section \<open>Frames\<close>

definition MAGIC :: int where "MAGIC = 0x5043534C"
definition VERSION :: int where "VERSION = 1"
definition HEADER_SIZE :: nat where "HEADER_SIZE = 64"
definition CHANNEL_DESC_SIZE :: nat where "CHANNEL_DESC_SIZE = 16"

definition HEADER :: "nat list" where
  "HEADER = [4, 2, 2, 8, 8, 8, 4, 4, 4, 1, 1, 2, 4]"

definition CHANNEL :: "nat list" where
  "CHANNEL = [1, 1, 1, 1, 4, 4, 4]"

datatype lscp_error =
    TooShort nat nat | BadMagic int | BadVersion int | PayloadMismatch int nat | NoSuchChannel
  | PyError pyexc

record channel_frame =
  channel :: int
  range_code :: int
  coupling :: string
  scale_v_per_count :: int
  offset_v :: int

record capture_frame =
  seq :: int
  capture_mono_ns :: int
  sample_interval_ns :: int
  pre_trigger_samples :: int
  post_trigger_samples :: int
  samples_per_channel :: int
  resolution_bits :: int
  overflow_mask :: int
  flags :: int
  channels :: "channel_frame list"
  samples :: "16 word list"
  screen_samples :: int

definition triggered :: "capture_frame \<Rightarrow> bool" where
  "triggered f = ((flags f AND 1) \<noteq> 0)"

definition streaming :: "capture_frame \<Rightarrow> bool" where
  "streaming f = ((flags f AND 2) \<noteq> 0)"

definition is_envelope :: "capture_frame \<Rightarrow> bool" where
  "is_envelope f = ((flags f AND 4) \<noteq> 0)"

text \<open>A label in upper case is compared with the channel's code point.\<close>

fun channel_index_from :: "int \<Rightarrow> int \<Rightarrow> channel_frame list \<Rightarrow> int option" where
  "channel_index_from i lab [] = None"
| "channel_index_from i lab (c # cs) = (if channel c = lab then Some i else channel_index_from (i + 1) lab cs)"

definition channel_index :: "int \<Rightarrow> capture_frame \<Rightarrow> int option" where
  "channel_index lab f = channel_index_from 0 lab (channels f)"

text \<open>A slice with Python's treatment of negative and large bounds.\<close>

definition py_slice :: "'a list \<Rightarrow> int \<Rightarrow> int \<Rightarrow> 'a list" where
  "py_slice xs a b = (let n = int (length xs);
      norm = (\<lambda>i. if i < 0 then max 0 (i + n) else min i n)
    in take (nat (norm b - norm a)) (drop (nat (norm a)) xs))"

definition counts :: "int \<Rightarrow> capture_frame \<Rightarrow> lscp_error + 16 word list" where
  "counts index f = (if int (length (channels f)) \<le> index then Inl NoSuchChannel
     else let n = samples_per_channel f in Inr (py_slice (samples f) (index * n) ((index + 1) * n)))"

definition counts_of :: "int \<Rightarrow> capture_frame \<Rightarrow> lscp_error + 16 word list" where
  "counts_of lab f = (case channel_index lab f of None \<Rightarrow> Inl NoSuchChannel | Some i \<Rightarrow> counts i f)"

definition overflowed :: "int \<Rightarrow> capture_frame \<Rightarrow> bool res" where
  "overflowed index f = (if index < 0 then Inl ValueError
     else Inr ((overflow_mask f AND push_bit (nat index) 1) \<noteq> 0))"

section \<open>Decoding\<close>

definition peek_seq :: "byte list \<Rightarrow> lscp_error + int" where
  "peek_seq buf =
     (if length buf < HEADER_SIZE then Inl (TooShort HEADER_SIZE (length buf))
      else let h = unpack HEADER buf in
        if h ! 0 \<noteq> MAGIC then Inl (BadMagic (h ! 0))
        else if h ! 1 \<noteq> VERSION then Inl (BadVersion (h ! 1))
        else Inr (h ! 3))"

definition coupling_name :: "int \<Rightarrow> string" where
  "coupling_name c = (if c = 1 then ''AC'' else if c = 2 then ''GND'' else ''DC'')"

definition channel_of :: "int list \<Rightarrow> channel_frame" where
  "channel_of v = \<lparr>channel = 65 + v ! 0, range_code = v ! 1, coupling = coupling_name (v ! 2),
     scale_v_per_count = unpack_float (v ! 4), offset_v = unpack_float (v ! 5)\<rparr>"

definition decode_channels :: "nat \<Rightarrow> byte list \<Rightarrow> channel_frame list" where
  "decode_channels n buf =
     map (\<lambda>i. channel_of (unpack CHANNEL (drop (HEADER_SIZE + i * CHANNEL_DESC_SIZE) buf))) [0..<n]"

fun le_samples :: "byte list \<Rightarrow> 16 word list" where
  "le_samples (a # b # bs) = word_of_int (le_int [a, b]) # le_samples bs"
| "le_samples _ = []"

definition decode :: "byte list \<Rightarrow> lscp_error + capture_frame" where
  "decode buf =
     (if length buf < HEADER_SIZE then Inl (TooShort HEADER_SIZE (length buf))
      else let h = unpack HEADER buf; channel_count = nat (h ! 9);
               descriptors_end = HEADER_SIZE + channel_count * CHANNEL_DESC_SIZE
        in if h ! 0 \<noteq> MAGIC then Inl (BadMagic (h ! 0))
           else if h ! 1 \<noteq> VERSION then Inl (BadVersion (h ! 1))
           else if length buf < descriptors_end then Inl (TooShort descriptors_end (length buf))
           else let expected = (h ! 8) * int channel_count * 2; payload = drop descriptors_end buf
             in if int (length payload) \<noteq> expected then Inl (PayloadMismatch expected (length payload))
                else Inr \<lparr>seq = h ! 3, capture_mono_ns = h ! 4, sample_interval_ns = h ! 5,
                  pre_trigger_samples = h ! 6, post_trigger_samples = h ! 7,
                  samples_per_channel = h ! 8, resolution_bits = h ! 10, overflow_mask = h ! 11,
                  flags = h ! 2, channels = decode_channels channel_count buf,
                  samples = le_samples payload, screen_samples = h ! 12\<rparr>)"

section \<open>Encoding\<close>

definition coupling_code :: "string \<Rightarrow> int" where
  "coupling_code s = (if s = ''AC'' then 1 else if s = ''GND'' then 2 else 0)"

definition header_values :: "capture_frame \<Rightarrow> int list" where
  "header_values f = [MAGIC, VERSION, flags f, seq f, capture_mono_ns f, sample_interval_ns f,
     pre_trigger_samples f, post_trigger_samples f, samples_per_channel f,
     int (length (channels f)), resolution_bits f, overflow_mask f, screen_samples f]"

definition channel_values :: "channel_frame \<Rightarrow> int list" where
  "channel_values c = [channel c - 65, range_code c, coupling_code (coupling c), 0]"

text \<open>The fields of a descriptor in their order: four bytes, two floats and the padding.\<close>

definition pack_channel :: "channel_frame \<Rightarrow> byte list res" where
  "pack_channel c = res_bind (pack [1, 1, 1, 1] (channel_values c)) (\<lambda>bs.
     res_bind (pack_float (scale_v_per_count c)) (\<lambda>s. res_bind (pack_float (offset_v c)) (\<lambda>v.
       res_bind (pack [4, 4, 4] [s, v, 0]) (\<lambda>fs. Inr (bs @ fs)))))"

definition sample_bytes :: "16 word list \<Rightarrow> byte list" where
  "sample_bytes ss = concat (map (\<lambda>s. le_bytes 2 (uint s)) ss)"

definition encode :: "capture_frame \<Rightarrow> byte list res" where
  "encode f = res_bind (pack HEADER (header_values f)) (\<lambda>h.
     res_bind (res_map pack_channel (channels f)) (\<lambda>cs.
       Inr (h @ replicate (HEADER_SIZE - length h) 0 @ concat cs @ sample_bytes (samples f))))"

section \<open>Round trip\<close>

lemma le_samples_bytes [simp]: "le_samples (sample_bytes ss) = ss"
proof (induction ss)
  case (Cons s ss)
  have r: "0 \<le> uint s" "uint s < 256 ^ 2" using uint_lt2p [of s] by simp_all
  obtain a b where ab: "le_bytes 2 (uint s) = [a, b]" by (simp add: numeral_eq_Suc)
  have "le_int [a, b] = uint s" using le_int_le_bytes [OF r] ab by simp
  then have "word_of_int (le_int [a, b]) = s" by simp
  with Cons ab show ?case by (simp add: sample_bytes_def)
qed (simp add: sample_bytes_def)

lemma length_sample_bytes [simp]: "length (sample_bytes ss) = 2 * length ss"
  by (induction ss) (auto simp: sample_bytes_def)

lemma sum_HEADER: "sum_list HEADER = 52" and sum_CHANNEL: "sum_list CHANNEL = 16"
  by (simp_all add: HEADER_def CHANNEL_def)

definition channel_ok :: "channel_frame \<Rightarrow> bool" where
  "channel_ok c = (fits [1, 1, 1, 1] (channel_values c) \<and> coupling c \<in> {''DC'', ''AC'', ''GND''} \<and>
     double_ok (scale_v_per_count c) \<and> double_ok (offset_v c))"

definition frame_ok :: "capture_frame \<Rightarrow> bool" where
  "frame_ok f = (fits HEADER (header_values f) \<and> list_all channel_ok (channels f) \<and>
     int (length (samples f)) = samples_per_channel f * int (length (channels f)))"

text \<open>A descriptor after its floats went through 32 bits, and how far it is from the first.\<close>

definition narrow_channel :: "channel_frame \<Rightarrow> channel_frame res" where
  "narrow_channel c = res_bind (narrow (scale_v_per_count c)) (\<lambda>s. res_bind (narrow (offset_v c)) (\<lambda>v.
     Inr (c\<lparr>scale_v_per_count := s, offset_v := v\<rparr>)))"

definition near_channel :: "channel_frame \<Rightarrow> channel_frame \<Rightarrow> bool" where
  "near_channel c c' = (channel c' = channel c \<and> range_code c' = range_code c \<and> coupling c' = coupling c \<and>
     near32 (scale_v_per_count c) (scale_v_per_count c') \<and> near32 (offset_v c) (offset_v c'))"

lemma pack_append:
  "pack ws vs = Inr a \<Longrightarrow> pack ws' vs' = Inr b \<Longrightarrow> pack (ws @ ws') (vs @ vs') = Inr (a @ b)"
  by (induction ws vs arbitrary: a rule: pack.induct) (auto simp: res_bind_eq_Inr split: if_splits)

lemma channel_overflow:
  assumes "channel_ok c" "narrow_channel c = Inl e"
  shows "pack_channel c = Inl e \<and> e = OverflowError"
proof -
  obtain bs where bs: "pack [1, 1, 1, 1] (channel_values c) = Inr bs"
    using assms(1) pack_fits by (auto simp: channel_ok_def)
  have "e = OverflowError" using assms(2) narrow_error by (auto simp: narrow_channel_def res_bind_def split: sum.splits)
  then show ?thesis using assms(2) bs
    by (auto simp: pack_channel_def narrow_channel_def narrow_def res_bind_def split: sum.splits)
qed

lemma channel_packed:
  assumes ok: "channel_ok c" and c': "narrow_channel c = Inr c'"
  shows "\<exists>b. pack_channel c = Inr b \<and> pack_channel c' = Inr b \<and> length b = 16 \<and>
    (\<forall>r. channel_of (unpack CHANNEL (b @ r)) = c') \<and> channel_ok c' \<and> near_channel c c'"
proof -
  obtain s v where s: "pack_float (scale_v_per_count c) = Inr s" and v: "pack_float (offset_v c) = Inr v"
    and c'_eq: "c' = c\<lparr>scale_v_per_count := unpack_float s, offset_v := unpack_float v\<rparr>"
    using c' by (auto simp: narrow_channel_def narrow_def res_bind_eq_Inr)
  have dok: "double_ok (scale_v_per_count c)" "double_ok (offset_v c)" using ok by (simp_all add: channel_ok_def)
  note ns = narrow_stable [OF dok(1) s] and nv = narrow_stable [OF dok(2) v]
  obtain bs where bs: "pack [1, 1, 1, 1] (channel_values c) = Inr bs"
    using ok pack_fits by (auto simp: channel_ok_def)
  have "fits [4, 4, 4] [s, v, 0]" using ns(3,4) nv(3,4) by (simp add: fits_def)
  then obtain fs where fs: "pack [4, 4, 4] [s, v, 0] = Inr fs" using pack_fits by blast
  have vals: "channel_values c' = channel_values c" by (simp add: c'_eq channel_values_def)
  have all: "pack CHANNEL (channel_values c @ [s, v, 0]) = Inr (bs @ fs)"
    using pack_append [OF bs fs] by (simp add: CHANNEL_def)
  have "pack_channel c = Inr (bs @ fs)" using bs s v fs by (simp add: pack_channel_def)
  moreover have "pack_channel c' = Inr (bs @ fs)"
    using bs ns(1) nv(1) fs by (simp add: pack_channel_def vals) (simp add: c'_eq)
  moreover have "length (bs @ fs) = 16" using pack_unpack [OF all] by (simp add: sum_CHANNEL)
  moreover have "channel_of (unpack CHANNEL ((bs @ fs) @ r)) = c'" for r
  proof -
    have "unpack CHANNEL ((bs @ fs) @ r) = channel_values c @ [s, v, 0]" using pack_unpack [OF all] by blast
    then show ?thesis using ok
      by (auto simp: channel_of_def channel_values_def channel_ok_def coupling_name_def coupling_code_def c'_eq)
  qed
  moreover have "channel_ok c'" using ok ns(2) nv(2) by (simp add: channel_ok_def vals) (simp add: c'_eq)
  moreover have "near_channel c c'" using narrow_near [OF dok(1) s] narrow_near [OF dok(2) v]
    by (simp add: near_channel_def c'_eq)
  ultimately show ?thesis by blast
qed

text \<open>The descriptors of a frame: the first that overflows, or all of them packed.\<close>

lemma channels_overflow:
  assumes "list_all channel_ok cs" "res_map narrow_channel cs = Inl e"
  shows "res_map pack_channel cs = Inl e \<and> e = OverflowError"
  using assms
proof (induction cs)
  case (Cons c cs)
  show ?case
  proof (cases "narrow_channel c")
    case (Inl e')
    with Cons.prems channel_overflow [of c e'] show ?thesis by simp
  next
    case (Inr c')
    with Cons.prems have "res_map narrow_channel cs = Inl e" by (auto simp: res_bind_def split: sum.splits)
    with Cons Inr channel_packed [of c c'] show ?thesis by auto
  qed
qed simp

lemma channels_packed:
  assumes "list_all channel_ok cs" "res_map narrow_channel cs = Inr cs'"
  shows "\<exists>bss. res_map pack_channel cs = Inr bss \<and> res_map pack_channel cs' = Inr bss \<and>
    list_all2 (\<lambda>b c. length b = 16 \<and> (\<forall>r. channel_of (unpack CHANNEL (b @ r)) = c)) bss cs' \<and>
    list_all channel_ok cs' \<and> list_all2 near_channel cs cs'"
  using assms
proof (induction cs arbitrary: cs')
  case (Cons c cs)
  then obtain d ds where d: "narrow_channel c = Inr d" and ds: "res_map narrow_channel cs = Inr ds"
    and cs': "cs' = d # ds" by (auto simp: res_bind_eq_Inr)
  obtain bss where ih: "res_map pack_channel cs = Inr bss" "res_map pack_channel ds = Inr bss"
      "list_all2 (\<lambda>b c. length b = 16 \<and> (\<forall>r. channel_of (unpack CHANNEL (b @ r)) = c)) bss ds"
      "list_all channel_ok ds" "list_all2 near_channel cs ds"
    using Cons.IH [OF _ ds] Cons.prems(1) by auto
  obtain b where "pack_channel c = Inr b" "pack_channel d = Inr b" "length b = 16"
      "\<forall>r. channel_of (unpack CHANNEL (b @ r)) = d" "channel_ok d" "near_channel c d"
    using channel_packed [OF _ d] Cons.prems(1) by auto
  with ih show ?case by (simp add: cs')
qed simp

lemma decode_channels_shift:
  assumes "length pre = HEADER_SIZE"
  shows "decode_channels n (pre @ bs) =
    map (\<lambda>i. channel_of (unpack CHANNEL (drop (i * CHANNEL_DESC_SIZE) bs))) [0..<n]"
  using assms by (simp add: decode_channels_def)

lemma packed_channels:
  assumes "list_all2 (\<lambda>b c. length b = 16 \<and> (\<forall>r. channel_of (unpack CHANNEL (b @ r)) = c)) bss cs"
  shows "length (concat bss) = length cs * CHANNEL_DESC_SIZE \<and>
    map (\<lambda>i. channel_of (unpack CHANNEL (drop (i * CHANNEL_DESC_SIZE) (concat bss @ rest)))) [0..<length cs] = cs"
  using assms
proof (induction bss cs rule: list_all2_induct)
  case (Cons b bs c cs)
  have ih: "length (concat bs) = length cs * CHANNEL_DESC_SIZE"
      "map (\<lambda>i. channel_of (unpack CHANNEL (drop (i * CHANNEL_DESC_SIZE) (concat bs @ rest)))) [0..<length cs] = cs"
    using Cons.IH by auto
  let ?f = "\<lambda>i. channel_of (unpack CHANNEL (drop (i * CHANNEL_DESC_SIZE) (b @ concat bs @ rest)))"
  have "map ?f [0..<length (c # cs)] = ?f 0 # map (\<lambda>i. ?f (Suc i)) [0..<length cs]"
    by (simp add: upt_conv_Cons map_Suc_upt [symmetric] del: upt_Suc)
  moreover have "?f 0 = c" using Cons.hyps(1) by simp
  moreover have "?f (Suc i) = channel_of (unpack CHANNEL (drop (i * CHANNEL_DESC_SIZE) (concat bs @ rest)))" for i
    using Cons.hyps(1) by (simp add: CHANNEL_DESC_SIZE_def)
  ultimately show ?case using ih Cons.hyps(1) by (simp add: CHANNEL_DESC_SIZE_def)
qed simp

lemma decode_encode:
  assumes ok: "frame_ok f" and cs: "res_map narrow_channel (channels f) = Inr cs"
  shows "\<exists>bs. encode f = Inr bs \<and> encode (f\<lparr>channels := cs\<rparr>) = Inr bs \<and> decode bs = Inr (f\<lparr>channels := cs\<rparr>)"
proof -
  have lc: "length cs = length (channels f)" by (rule res_map_length [OF cs])
  then have hv: "header_values (f\<lparr>channels := cs\<rparr>) = header_values f" by (simp add: header_values_def)
  obtain h where h: "pack HEADER (header_values f) = Inr h" using ok pack_fits by (auto simp: frame_ok_def)
  have "list_all channel_ok (channels f)" using ok by (simp add: frame_ok_def)
  from channels_packed [OF this cs] obtain bss where bss: "res_map pack_channel (channels f) = Inr bss"
      "res_map pack_channel cs = Inr bss"
    and each: "list_all2 (\<lambda>b c. length b = 16 \<and> (\<forall>r. channel_of (unpack CHANNEL (b @ r)) = c)) bss cs" by blast
  define hd where "hd = h @ replicate (HEADER_SIZE - length h) 0"
  define bs where "bs = hd @ concat bss @ sample_bytes (samples f)"
  have lh: "length h = 52" and uh: "unpack HEADER bs = header_values f"
    using pack_unpack [OF h] by (simp_all add: sum_HEADER bs_def hd_def)
  have lhd: "length hd = HEADER_SIZE" using lh by (simp add: hd_def HEADER_SIZE_def)
  have enc: "encode f = Inr bs" "encode (f\<lparr>channels := cs\<rparr>) = Inr bs"
    using h bss hv by (simp_all add: encode_def bs_def hd_def)
  have lb: "length (concat bss) = length (channels f) * CHANNEL_DESC_SIZE"
    using packed_channels [OF each] lc by simp
  have ch: "decode_channels (length (channels f)) bs = cs"
    unfolding bs_def decode_channels_shift [OF lhd] lc [symmetric] by (rule conjunct2 [OF packed_channels [OF each]])
  have "drop (HEADER_SIZE + length (channels f) * CHANNEL_DESC_SIZE) bs = sample_bytes (samples f)"
    unfolding bs_def using lhd lb by simp
  moreover have "length bs = HEADER_SIZE + length (channels f) * CHANNEL_DESC_SIZE + 2 * length (samples f)"
    unfolding bs_def length_append using lhd lb by simp
  moreover have "int (2 * length (samples f)) = samples_per_channel f * int (length (channels f)) * 2"
    using ok by (simp add: frame_ok_def)
  ultimately have "decode bs = Inr (f\<lparr>channels := cs\<rparr>)"
    using uh ch by (simp add: decode_def header_values_def Let_def)
  with enc show ?thesis by blast
qed

lemma encode_overflow:
  assumes ok: "frame_ok f" and cs: "res_map narrow_channel (channels f) = Inl e"
  shows "encode f = Inl e \<and> e = OverflowError"
proof -
  obtain h where h: "pack HEADER (header_values f) = Inr h" using ok pack_fits by (auto simp: frame_ok_def)
  have "list_all channel_ok (channels f)" using ok by (simp add: frame_ok_def)
  from channels_overflow [OF this cs] h show ?thesis by (simp add: encode_def)
qed

section \<open>Decoded frames are well formed\<close>

lemma length_le_samples: "length (le_samples bs) = length bs div 2"
  by (induction bs rule: le_samples.induct) auto

lemma channel_of_ok:
  assumes "16 \<le> length bs"
  shows "channel_ok (channel_of (unpack CHANNEL bs))"
proof -
  have "fits CHANNEL (unpack CHANNEL bs)" using unpack_fits [of CHANNEL bs] assms by (simp add: sum_CHANNEL)
  then show ?thesis
    by (simp add: channel_ok_def fits_def channel_of_def channel_values_def coupling_name_def
        coupling_code_def CHANNEL_def unpack_float_ok)
qed

lemma decode_ok:
  assumes "decode buf = Inr f"
  shows "frame_ok f"
proof -
  let ?h = "unpack HEADER buf"
  let ?n = "nat (?h ! 9)"
  let ?p = "drop (HEADER_SIZE + ?n * CHANNEL_DESC_SIZE) buf"
  have len: "HEADER_SIZE \<le> length buf" "HEADER_SIZE + ?n * CHANNEL_DESC_SIZE \<le> length buf"
    and pl: "int (length ?p) = ?h ! 8 * int ?n * 2" and mg: "?h ! 0 = MAGIC" "?h ! 1 = VERSION"
    and f: "f = \<lparr>seq = ?h ! 3, capture_mono_ns = ?h ! 4, sample_interval_ns = ?h ! 5,
          pre_trigger_samples = ?h ! 6, post_trigger_samples = ?h ! 7, samples_per_channel = ?h ! 8,
          resolution_bits = ?h ! 10, overflow_mask = ?h ! 11, flags = ?h ! 2,
          channels = decode_channels ?n buf, samples = le_samples ?p, screen_samples = ?h ! 12\<rparr>"
    using assms by (auto simp: decode_def Let_def not_less split: if_splits)
  have fit: "fits HEADER ?h" using unpack_fits [of HEADER buf] len(1) by (simp add: sum_HEADER HEADER_SIZE_def)
  have n: "int ?n = ?h ! 9" using fit by (simp add: fits_def HEADER_def)
  have "header_values f = ?h"
    using mg n by (simp add: header_values_def f decode_channels_def HEADER_def)
  with fit have "fits HEADER (header_values f)" by simp
  moreover have "list_all channel_ok (channels f)"
  proof -
    have "16 \<le> length (drop (HEADER_SIZE + i * CHANNEL_DESC_SIZE) buf)" if "i < ?n" for i
    proof -
      have "Suc i * CHANNEL_DESC_SIZE \<le> ?n * CHANNEL_DESC_SIZE" using that by (intro mult_le_mono1) simp
      with len(2) show ?thesis by (simp add: CHANNEL_DESC_SIZE_def)
    qed
    then show ?thesis by (simp add: f decode_channels_def list_all_iff channel_of_ok)
  qed
  moreover have "int (length (samples f)) = samples_per_channel f * int (length (channels f))"
    using pl by (simp add: f length_le_samples decode_channels_def zdiv_int)
  ultimately show ?thesis by (simp add: frame_ok_def)
qed

lemma peek_seq_decode:
  assumes "decode buf = Inr f"
  shows "peek_seq buf = Inr (seq f)"
  using assms by (auto simp: decode_def peek_seq_def Let_def split: if_splits)

section \<open>The samples of a channel\<close>

lemma py_slice_nat:
  "a \<le> b \<Longrightarrow> b \<le> length xs \<Longrightarrow> py_slice xs (int a) (int b) = take (b - a) (drop a xs)"
  by (simp add: py_slice_def Let_def nat_diff_distrib)

lemma counts_slice:
  assumes "frame_ok f" and "i < length (channels f)"
  shows "counts (int i) f = Inr (take (nat (samples_per_channel f))
    (drop (i * nat (samples_per_channel f)) (samples f)))"
proof -
  define n where "n = nat (samples_per_channel f)"
  have n: "samples_per_channel f = int n"
    using assms(1) by (auto simp: n_def frame_ok_def fits_def header_values_def HEADER_def)
  have ls: "length (samples f) = n * length (channels f)"
    using assms(1) n unfolding frame_ok_def by (metis of_nat_eq_iff of_nat_mult)
  have "Suc i * n \<le> n * length (channels f)" using assms(2) by (metis Suc_leI mult.commute mult_le_mono1)
  then have "py_slice (samples f) (int (i * n)) (int (Suc i * n)) = take n (drop (i * n) (samples f))"
    using py_slice_nat [of "i * n" "Suc i * n" "samples f"] ls by simp
  moreover have "int (i * n) = int i * int n" "int (Suc i * n) = (int i + 1) * int n"
    by (simp_all add: algebra_simps)
  ultimately have "py_slice (samples f) (int i * int n) ((int i + 1) * int n) = take n (drop (i * n) (samples f))"
    by metis
  with assms(2) show ?thesis by (simp add: counts_def n Let_def)
qed

lemma concat_slices:
  "length xs = k * n \<Longrightarrow> concat (map (\<lambda>i. take n (drop (i * n) xs)) [0..<k]) = xs"
proof (induction k arbitrary: xs)
  case (Suc k)
  have "concat (map (\<lambda>i. take n (drop (i * n) (drop n xs))) [0..<k]) = drop n xs"
    using Suc.IH [of "drop n xs"] Suc.prems by simp
  moreover have "map (\<lambda>i. take n (drop (i * n) xs)) [0..<Suc k] =
      take n xs # map (\<lambda>i. take n (drop (i * n) (drop n xs))) [0..<k]"
    by (simp add: upt_conv_Cons map_Suc_upt [symmetric] add.commute del: upt_Suc)
  ultimately show ?case by simp
qed simp

text \<open>The channels' slices are the samples, each once and in order.\<close>

lemma counts_partition:
  assumes "frame_ok f"
  shows "\<exists>parts. map (\<lambda>i. counts (int i) f) [0..<length (channels f)] = map Inr parts \<and>
    concat parts = samples f \<and> list_all (\<lambda>p. int (length p) = samples_per_channel f) parts"
proof -
  define n where "n = nat (samples_per_channel f)"
  have n: "samples_per_channel f = int n"
    using assms by (auto simp: n_def frame_ok_def fits_def header_values_def HEADER_def)
  have ls: "length (samples f) = length (channels f) * n"
    using assms n unfolding frame_ok_def by (metis of_nat_eq_iff of_nat_mult mult.commute)
  let ?parts = "map (\<lambda>i. take n (drop (i * n) (samples f))) [0..<length (channels f)]"
  have "map (\<lambda>i. counts (int i) f) [0..<length (channels f)] = map Inr ?parts"
    using counts_slice [OF assms] by (simp add: n_def [symmetric])
  moreover have "length (take n (drop (i * n) (samples f))) = n" if "i < length (channels f)" for i
  proof -
    have "Suc i * n \<le> length (samples f)" using that unfolding ls by (intro mult_le_mono1) simp
    then show ?thesis by simp
  qed
  then have "list_all (\<lambda>p. int (length p) = samples_per_channel f) ?parts"
    by (simp add: list_all_iff n)
  ultimately show ?thesis using concat_slices [OF ls] by blast
qed

end
