(* ===== verification/Box_Config.thy ===== *)
theory Box_Config
  imports Py_Regex "HOL-Library.Char_ord" "HOL-Library.List_Lexorder"
begin

text \<open>
  The box configuration, \<^verbatim>\<open>box/lager/box_config/config.py\<close>: the format checks of package
  names, keys and USB ids, the document validator with one constructor of \<open>cfg_error\<close> per
  message (its arguments are what the message quotes), the typed configuration with its
  conversions from and to a document, and the file operations.
\<close>

section \<open>Tables and expressions\<close>

definition SCHEMA_VERSION :: int where "SCHEMA_VERSION = 1"

definition DEFAULT_NETWORK_MODE :: string where "DEFAULT_NETWORK_MODE = ''lagernet''"

definition NETWORK_MODES :: "string list" where "NETWORK_MODES = [''lagernet'', ''host'']"

definition RESERVED_CONTAINER_PATHS :: "(string \<times> string) list" where
  "RESERVED_CONTAINER_PATHS =
    [(''/tmp'', ''shared host /tmp''),
     (''/dev'', ''host device tree''),
     (''/sys/bus/usb'', ''USB device topology''),
     (''/sys/devices'', ''device topology''),
     (''/var/run/dbus'', ''host dbus socket''),
     (''/etc/lager'', ''lager config (where box_config.json itself lives)''),
     (''/home/www-data/.ssh'', ''lagerdata'' @ [CHR 0x27] @ ''s authorized_keys (incoming SSH auth)''),
     (''/host/etc/hostname'', ''host hostname''),
     (''/opt/SEGGER'', ''SEGGER J-Link tools''),
     (''/opt/picoscope/lib'', ''PicoScope libraries''),
     (''/opt/rust/cargo'', ''named volume persisting user cargo crates''),
     (''/home/www-data/.npm-global'', ''named volume persisting user npm packages'')]"

definition RESERVED_PATH_ALTERNATIVES :: "(string \<times> string) list" where
  "RESERVED_PATH_ALTERNATIVES = [(''/home/www-data/.ssh'', ''/home/www-data/.ssh-git'')]"

definition suggest_alternative :: "string \<Rightarrow> string option" where
  "suggest_alternative container_path = map_of RESERVED_PATH_ALTERNATIVES container_path"

abbreviation among :: "string \<Rightarrow> char \<Rightarrow> bool" where
  "among cs c \<equiv> c \<in> set cs"

definition VOLUME_NAME_RE :: rx where
  "VOLUME_NAME_RE = Seq (One is_alnum) (Plus (\<lambda>c. is_alnum c \<or> among ''_.-'' c))"

definition ENV_KEY_RE :: rx where
  "ENV_KEY_RE = Seq (One (\<lambda>c. is_az c \<or> is_AZ c \<or> among ''_'' c)) (Many (\<lambda>c. is_alnum c \<or> among ''_'' c))"

definition PIP_SPEC_RE :: rx where
  "PIP_SPEC_RE =
     Seq (One (\<lambda>c. is_az c \<or> is_AZ c)) (Seq (Many (\<lambda>c. is_alnum c \<or> among ''-_.'' c))
     (Seq (Opt (Seq (One (among ''['')) (Seq (Plus (\<lambda>c. is_alnum c \<or> among ''-_,'' c \<or> is_space c)) (One (among '']'')))))
     (Opt (Seq (Alt (Seq (One (among ''<>=!~'')) (Opt (One (among ''='')))) (One (among ''@'')))
               (Plus (\<lambda>c. is_alnum c \<or> among ''.-_,*<>=!~@'' c \<or> is_space c))))))"

definition PIP_NAME_RE :: rx where
  "PIP_NAME_RE = Plus (\<lambda>c. is_alnum c \<or> among ''-_.'' c)"

definition APT_NAME_RE :: rx where
  "APT_NAME_RE = Seq (One is_lownum) (Many (\<lambda>c. is_lownum c \<or> among ''+-.'' c))"

definition SYSCTL_KEY_RE :: rx where
  "SYSCTL_KEY_RE = Seq (One (\<lambda>c. is_az c \<or> is_AZ c)) (Many (\<lambda>c. is_alnum c \<or> among ''_.'' c))"

definition CARGO_NAME_RE :: rx where
  "CARGO_NAME_RE = Seq (One is_lownum) (Many (\<lambda>c. is_lownum c \<or> among ''_-'' c))"

definition CARGO_SPEC_RE :: rx where
  "CARGO_SPEC_RE = Seq (One is_lownum) (Seq (Many (\<lambda>c. is_lownum c \<or> among ''_-'' c))
     (Opt (Seq (One (among ''@'')) (Plus (\<lambda>c. is_alnum c \<or> among ''.+-'' c)))))"

definition NPM_SCOPE_RE :: rx where
  "NPM_SCOPE_RE = Seq (One (among ''@'')) (Seq (One is_lownum)
     (Seq (Many (\<lambda>c. is_lownum c \<or> among ''._-'' c)) (One (among ''/''))))"

definition NPM_NAME_RE :: rx where
  "NPM_NAME_RE = Seq (Opt NPM_SCOPE_RE) (Seq (One is_lownum) (Many (\<lambda>c. is_lownum c \<or> among ''._-'' c)))"

definition NPM_SPEC_RE :: rx where
  "NPM_SPEC_RE = Seq (Opt NPM_SCOPE_RE) (Seq (One is_lownum) (Seq (Many (\<lambda>c. is_lownum c \<or> among ''._-'' c))
     (Opt (Seq (One (among ''@'')) (Plus (\<lambda>c. is_alnum c \<or> among ''.+-~^*<>=|'' c \<or> is_space c))))))"

definition UDEV_HEXID_RE :: rx where
  "UDEV_HEXID_RE = Seq (One is_hex) (Seq (One is_hex) (Seq (One is_hex) (One is_hex)))"

definition UDEV_MODE_RE :: rx where
  "UDEV_MODE_RE = Seq (One (among ''0'')) (Seq (One is_octal) (Seq (One is_octal) (One is_octal)))"

section \<open>Format checks\<close>

definition dashed :: "string \<Rightarrow> string" where
  "dashed = map (\<lambda>c. if c = CHR ''_'' then CHR ''-'' else c)"

definition base_name :: "rx \<Rightarrow> string \<Rightarrow> string" where
  "base_name r pkg = (case re_group r pkg of None \<Rightarrow> pkg | Some b \<Rightarrow> b)"

definition normalize_pip_name :: "string \<Rightarrow> string" where
  "normalize_pip_name pkg = dashed (lower (base_name PIP_NAME_RE pkg))"

definition normalize_cargo_name :: "string \<Rightarrow> string" where
  "normalize_cargo_name pkg = dashed (lower (base_name CARGO_NAME_RE pkg))"

definition normalize_npm_name :: "string \<Rightarrow> string" where
  "normalize_npm_name pkg = lower (base_name NPM_NAME_RE pkg)"

text \<open>A check answers \<open>None\<close> for \<^verbatim>\<open>(True, None)\<close> and \<open>Some reason\<close> for \<^verbatim>\<open>(False, reason)\<close>.\<close>

definition blank :: "pyval \<Rightarrow> bool" where
  "blank v = (case v of VStr s \<Rightarrow> strip s = [] | _ \<Rightarrow> True)"

fun text_of :: "pyval \<Rightarrow> string" where
  "text_of (VStr s) = s"
| "text_of _ = []"

definition validate_pip_format :: "pyval \<Rightarrow> string option" where
  "validate_pip_format pkg =
    (if blank pkg then Some ''package name cannot be empty''
     else if among ''0123456789.-_'' (hd (text_of pkg)) then Some ''package name must start with a letter''
     else if \<not> re_match PIP_SPEC_RE (text_of pkg) then Some ''invalid package specification format''
     else None)"

definition validate_apt_format :: "pyval \<Rightarrow> string option" where
  "validate_apt_format pkg =
    (if blank pkg then Some ''package name cannot be empty''
     else if \<not> re_match APT_NAME_RE (text_of pkg)
     then Some ''invalid Debian package name (must match [a-z0-9][a-z0-9+-.]*)'' else None)"

definition validate_sysctl_key :: "pyval \<Rightarrow> string option" where
  "validate_sysctl_key key =
    (if blank key then Some ''sysctl key cannot be empty''
     else if \<not> re_match SYSCTL_KEY_RE (text_of key)
     then Some ''invalid sysctl key (must match [a-zA-Z][a-zA-Z0-9_.]*)'' else None)"

definition validate_cargo_format :: "pyval \<Rightarrow> string option" where
  "validate_cargo_format pkg =
    (if blank pkg then Some ''package name cannot be empty''
     else if \<not> re_match CARGO_SPEC_RE (text_of pkg)
     then Some ''invalid cargo crate spec (must match [a-z0-9][a-z0-9_-]*(@version)?)'' else None)"

definition validate_npm_format :: "pyval \<Rightarrow> string option" where
  "validate_npm_format pkg =
    (if blank pkg then Some ''package name cannot be empty''
     else if 214 < length (text_of pkg) then Some ''npm package name exceeds 214 chars''
     else if \<not> re_match NPM_SPEC_RE (text_of pkg)
     then Some ''invalid npm package spec (must be lowercase name, optional @scope/, optional @version)'' else None)"

definition validate_env_key :: "pyval \<Rightarrow> string option" where
  "validate_env_key key =
    (if blank key then Some ''env key cannot be empty''
     else if \<not> re_match ENV_KEY_RE (text_of key)
     then Some ''invalid env variable name (must match [A-Za-z_][A-Za-z0-9_]*)''
     else if key = VStr ''PATH''
     then Some (''env key '' @ [CHR 0x27] @ ''PATH'' @ [CHR 0x27] @ '' is not allowed; use '' @ [CHR 0x27] @
       ''PATH_PREPEND'' @ [CHR 0x27] @ '' to extend PATH inside the container'')
     else None)"

fun normalize_udev_id :: "pyval \<Rightarrow> pyval" where
  "normalize_udev_id (VStr s) = VStr (lower (if startswith (lower s) ''0x'' then drop 2 s else s))"
| "normalize_udev_id v = v"

definition hex_id :: "pyval \<Rightarrow> bool" where
  "hex_id v = (case normalize_udev_id v of VStr s \<Rightarrow> re_match UDEV_HEXID_RE s | _ \<Rightarrow> False)"

definition validate_udev_format :: "pyval \<Rightarrow> pyval \<Rightarrow> pyval \<Rightarrow> string option" where
  "validate_udev_format vid pid mode =
    (if \<not> hex_id vid then Some ''vendor id must be 4 hex digits (e.g. 1209)''
     else if \<not> hex_id pid then Some ''product id must be 4 hex digits (e.g. 0001)''
     else if (case mode of VStr m \<Rightarrow> \<not> re_match UDEV_MODE_RE m | _ \<Rightarrow> True) then Some ''mode must be an octal like 0660''
     else None)"

section \<open>Validation of a document\<close>

fun typename :: "pyval \<Rightarrow> string" where
  "typename VNone = ''null''"
| "typename (VBool _) = ''bool''"
| "typename (VInt _) = ''int''"
| "typename (VFloat _) = ''float''"
| "typename (VStr _) = ''string''"
| "typename (VList _) = ''array''"
| "typename (VDict _) = ''object''"

datatype cfg_error =
    TopLevel string
  | MissingVersion
  | UnsupportedVersion pyval
  | NotArray string string
  | NotObject string string
  | ItemNotObject string nat string
  | ItemNotString string nat string
  | ItemMissing string nat string
  | FieldNotString string nat string string
  | FieldNotBool string nat string string
  | FieldNotAbsolute string nat string string
  | FieldIsRoot string nat string
  | FieldDuplicates string nat string string nat
  | BadVolumeName nat string
  | Collides nat string nat
  | Reserved nat string string "string option"
  | BadEnvName string
  | EnvPath
  | EnvNotString string string
  | BadItem string nat string string
  | DuplicateItem string nat string nat "string option"
  | BadSysctlKey string string
  | SysctlNotString string string
  | SysctlNewline string
  | BadUdevRule nat pyval pyval string
  | DuplicateUdevRule nat pyval pyval nat
  | NetworkNotString string
  | UnknownNetwork string

text \<open>The checks of a field that has to be a string, and of one that has to be a path.\<close>

definition need_string :: "string \<Rightarrow> nat \<Rightarrow> string \<Rightarrow> pyval \<Rightarrow> cfg_error list" where
  "need_string sect i key v = (case v of
     VNone \<Rightarrow> [ItemMissing sect i key] | VStr _ \<Rightarrow> [] | _ \<Rightarrow> [FieldNotString sect i key (typename v)])"

definition need_bool :: "string \<Rightarrow> nat \<Rightarrow> dict \<Rightarrow> string \<Rightarrow> cfg_error list" where
  "need_bool sect i d key = (case map_of d key of
     None \<Rightarrow> [] | Some (VBool _) \<Rightarrow> [] | Some v \<Rightarrow> [FieldNotBool sect i key (typename v)])"

definition need_path :: "string \<Rightarrow> nat \<Rightarrow> string \<Rightarrow> string \<Rightarrow> cfg_error list" where
  "need_path sect i key p =
     (if startswith p ''/'' then [] else [FieldNotAbsolute sect i key p]) @
     (if p = ''/'' then [FieldIsRoot sect i key] else [])"

fun mounts_loop :: "nat \<Rightarrow> (string \<times> nat) list \<Rightarrow> pyval list \<Rightarrow> cfg_error list" where
  "mounts_loop i seen [] = []"
| "mounts_loop i seen (VDict m # ms) =
    (let host = dict_get m ''host''; container = dict_get m ''container'' in
     need_string ''mounts'' i ''host'' host @
     need_string ''mounts'' i ''container'' container @
     need_bool ''mounts'' i m ''readonly'' @
     (case host of VStr h \<Rightarrow> need_path ''mounts'' i ''host'' h | _ \<Rightarrow> []) @
     (case container of
        VStr c \<Rightarrow> need_path ''mounts'' i ''container'' c @
          (case map_of seen c of
             Some j \<Rightarrow> FieldDuplicates ''mounts'' i ''container'' c j # mounts_loop (Suc i) seen ms
           | None \<Rightarrow> mounts_loop (Suc i) ((c, i) # seen) ms)
      | _ \<Rightarrow> mounts_loop (Suc i) seen ms))"
| "mounts_loop i seen (m # ms) = ItemNotObject ''mounts'' i (typename m) # mounts_loop (Suc i) seen ms"

text \<open>A section that may be absent or null, and otherwise has to be an array or an object.\<close>

definition array_section :: "dict \<Rightarrow> string \<Rightarrow> (pyval list \<Rightarrow> cfg_error list) \<Rightarrow> cfg_error list" where
  "array_section raw key f = (case dict_get raw key of
     VNone \<Rightarrow> [] | VList xs \<Rightarrow> f xs | v \<Rightarrow> [NotArray key (typename v)])"

definition object_section :: "dict \<Rightarrow> string \<Rightarrow> (dict \<Rightarrow> cfg_error list) \<Rightarrow> cfg_error list" where
  "object_section raw key f = (case dict_get raw key of
     VNone \<Rightarrow> [] | VDict d \<Rightarrow> f d | v \<Rightarrow> [NotObject key (typename v)])"

definition validate_mounts :: "dict \<Rightarrow> cfg_error list" where
  "validate_mounts raw = array_section raw ''mounts'' (mounts_loop 0 [])"

fun volumes_loop :: "nat \<Rightarrow> (string \<times> nat) list \<Rightarrow> pyval list \<Rightarrow> cfg_error list" where
  "volumes_loop i seen [] = []"
| "volumes_loop i seen (VDict v # vs) =
    (let name = dict_get v ''name''; container = dict_get v ''container'';
         (es, seen') = (case name of
            VStr n \<Rightarrow> if \<not> re_match VOLUME_NAME_RE n then ([BadVolumeName i n], seen)
              else (case map_of seen n of
                  Some j \<Rightarrow> ([FieldDuplicates ''volumes'' i ''name'' n j], seen)
                | None \<Rightarrow> ([], (n, i) # seen))
          | _ \<Rightarrow> (need_string ''volumes'' i ''name'' name, seen)) in
     es @ need_string ''volumes'' i ''container'' container @
     (case container of VStr c \<Rightarrow> need_path ''volumes'' i ''container'' c | _ \<Rightarrow> []) @
     volumes_loop (Suc i) seen' vs)"
| "volumes_loop i seen (v # vs) = ItemNotObject ''volumes'' i (typename v) # volumes_loop (Suc i) seen vs"

definition validate_volumes :: "dict \<Rightarrow> cfg_error list" where
  "validate_volumes raw = array_section raw ''volumes'' (volumes_loop 0 [])"

text \<open>The container path of a mount or volume, when the item is an object that has one.\<close>

definition container_of :: "pyval \<Rightarrow> string option" where
  "container_of v = (case v of
     VDict d \<Rightarrow> (case dict_get d ''container'' of VStr c \<Rightarrow> Some c | _ \<Rightarrow> None) | _ \<Rightarrow> None)"

fun mount_containers :: "nat \<Rightarrow> (string \<times> nat) list \<Rightarrow> pyval list \<Rightarrow> (string \<times> nat) list" where
  "mount_containers j acc [] = acc"
| "mount_containers j acc (m # ms) = mount_containers (Suc j) (case container_of m of
     Some c \<Rightarrow> if map_of acc c = None then (c, j) # acc else acc | None \<Rightarrow> acc) ms"

fun cross_loop :: "nat \<Rightarrow> (string \<times> nat) list \<Rightarrow> pyval list \<Rightarrow> cfg_error list" where
  "cross_loop i mc [] = []"
| "cross_loop i mc (v # vs) = (case container_of v of
     Some c \<Rightarrow> (case map_of mc c of Some j \<Rightarrow> [Collides i c j] | None \<Rightarrow> []) | None \<Rightarrow> []) @
     cross_loop (Suc i) mc vs"

definition validate_cross_path_collisions :: "dict \<Rightarrow> cfg_error list" where
  "validate_cross_path_collisions raw = (case (dict_get raw ''mounts'', dict_get raw ''volumes'') of
     (VList ms, VList vs) \<Rightarrow> cross_loop 0 (mount_containers 0 [] ms) vs | _ \<Rightarrow> [])"

fun reserved_loop :: "nat \<Rightarrow> pyval list \<Rightarrow> cfg_error list" where
  "reserved_loop i [] = []"
| "reserved_loop i (m # ms) = (case container_of m of
     Some c \<Rightarrow> (case map_of RESERVED_CONTAINER_PATHS c of
        Some purpose \<Rightarrow> [Reserved i c purpose (suggest_alternative c)] | None \<Rightarrow> []) | None \<Rightarrow> []) @
     reserved_loop (Suc i) ms"

definition validate_reserved_paths :: "dict \<Rightarrow> cfg_error list" where
  "validate_reserved_paths raw = (case dict_get raw ''mounts'' of VList ms \<Rightarrow> reserved_loop 0 ms | _ \<Rightarrow> [])"

definition env_item :: "string \<times> pyval \<Rightarrow> cfg_error list" where
  "env_item kv = (case kv of (k, v) \<Rightarrow>
     if \<not> re_match ENV_KEY_RE k then [BadEnvName k]
     else (if k = ''PATH'' then [EnvPath] else []) @
       (case v of VStr _ \<Rightarrow> [] | _ \<Rightarrow> [EnvNotString k (typename v)]))"

definition validate_env :: "dict \<Rightarrow> cfg_error list" where
  "validate_env raw = object_section raw ''env'' (\<lambda>env. concat (map env_item env))"

text \<open>The loop that the four package lists share, with their check, key and message.\<close>

fun pkg_loop :: "string \<Rightarrow> (pyval \<Rightarrow> string option) \<Rightarrow> (string \<Rightarrow> string) \<Rightarrow> bool \<Rightarrow> nat \<Rightarrow> (string \<times> nat) list \<Rightarrow>
    pyval list \<Rightarrow> cfg_error list" where
  "pkg_loop sect chk key say i seen [] = []"
| "pkg_loop sect chk key say i seen (VStr p # ps) = (case chk (VStr p) of
     Some reason \<Rightarrow> BadItem sect i p reason # pkg_loop sect chk key say (Suc i) seen ps
   | None \<Rightarrow> (case map_of seen (key p) of
       Some j \<Rightarrow> DuplicateItem sect i p j (if say then Some (key p) else None) # pkg_loop sect chk key say (Suc i) seen ps
     | None \<Rightarrow> pkg_loop sect chk key say (Suc i) ((key p, i) # seen) ps))"
| "pkg_loop sect chk key say i seen (v # ps) =
     ItemNotString sect i (typename v) # pkg_loop sect chk key say (Suc i) seen ps"

definition validate_pip_packages :: "dict \<Rightarrow> cfg_error list" where
  "validate_pip_packages raw = array_section raw ''pip_packages''
     (pkg_loop ''pip_packages'' validate_pip_format normalize_pip_name True 0 [])"

definition validate_apt_packages :: "dict \<Rightarrow> cfg_error list" where
  "validate_apt_packages raw = array_section raw ''apt_packages''
     (pkg_loop ''apt_packages'' validate_apt_format lower False 0 [])"

definition validate_cargo_packages :: "dict \<Rightarrow> cfg_error list" where
  "validate_cargo_packages raw = array_section raw ''cargo_packages''
     (pkg_loop ''cargo_packages'' validate_cargo_format normalize_cargo_name True 0 [])"

definition validate_npm_packages :: "dict \<Rightarrow> cfg_error list" where
  "validate_npm_packages raw = array_section raw ''npm_packages''
     (pkg_loop ''npm_packages'' validate_npm_format normalize_npm_name True 0 [])"

definition sysctl_item :: "string \<times> pyval \<Rightarrow> cfg_error list" where
  "sysctl_item kv = (case kv of (k, v) \<Rightarrow> (case validate_sysctl_key (VStr k) of
     Some reason \<Rightarrow> [BadSysctlKey k reason]
   | None \<Rightarrow> (case v of VStr s \<Rightarrow> if newline \<in> set s then [SysctlNewline k] else []
       | _ \<Rightarrow> [SysctlNotString k (typename v)])))"

definition validate_sysctl :: "dict \<Rightarrow> cfg_error list" where
  "validate_sysctl raw = object_section raw ''sysctl'' (\<lambda>d. concat (map sysctl_item d))"

definition validate_network_mode :: "dict \<Rightarrow> cfg_error list" where
  "validate_network_mode raw = (case dict_get raw ''network_mode'' of
     VNone \<Rightarrow> []
   | VStr m \<Rightarrow> if m \<in> set NETWORK_MODES then [] else [UnknownNetwork m]
   | v \<Rightarrow> [NetworkNotString (typename v)])"

definition udev_mode :: "dict \<Rightarrow> pyval" where
  "udev_mode r = (case map_of r ''mode'' of Some v \<Rightarrow> v | None \<Rightarrow> VStr ''0660'')"

fun udev_loop :: "nat \<Rightarrow> ((pyval \<times> pyval) \<times> nat) list \<Rightarrow> pyval list \<Rightarrow> cfg_error list" where
  "udev_loop i seen [] = []"
| "udev_loop i seen (VDict r # rs) =
    (let vid = dict_get r ''vid''; pid = dict_get r ''pid'' in
     (if vid = VNone then [ItemMissing ''udev_rules'' i ''vid''] else []) @
     (if pid = VNone then [ItemMissing ''udev_rules'' i ''pid''] else []) @
     need_bool ''udev_rules'' i r ''usbtmc'' @
     (if vid = VNone \<or> pid = VNone then udev_loop (Suc i) seen rs
      else case validate_udev_format vid pid (udev_mode r) of
        Some reason \<Rightarrow> BadUdevRule i vid pid reason # udev_loop (Suc i) seen rs
      | None \<Rightarrow> let key = (normalize_udev_id vid, normalize_udev_id pid) in
          (case map_of seen key of
             Some j \<Rightarrow> DuplicateUdevRule i vid pid j # udev_loop (Suc i) seen rs
           | None \<Rightarrow> udev_loop (Suc i) ((key, i) # seen) rs)))"
| "udev_loop i seen (r # rs) = ItemNotObject ''udev_rules'' i (typename r) # udev_loop (Suc i) seen rs"

definition validate_udev_rules :: "dict \<Rightarrow> cfg_error list" where
  "validate_udev_rules raw = array_section raw ''udev_rules'' (udev_loop 0 [])"

definition validate_version :: "dict \<Rightarrow> cfg_error list" where
  "validate_version raw = (let v = dict_get raw ''version'' in
     if v = VNone then [MissingVersion]
     else if \<not> py_eq v (VInt SCHEMA_VERSION) then [UnsupportedVersion v] else [])"

definition validate_doc :: "pyval \<Rightarrow> cfg_error list" where
  "validate_doc doc = (case doc of
     VDict raw \<Rightarrow> validate_version raw @ validate_mounts raw @ validate_volumes raw @
       validate_cross_path_collisions raw @ validate_reserved_paths raw @ validate_env raw @
       validate_pip_packages raw @ validate_apt_packages raw @ validate_sysctl raw @
       validate_cargo_packages raw @ validate_npm_packages raw @ validate_udev_rules raw @
       validate_network_mode raw
   | _ \<Rightarrow> [TopLevel (typename doc)])"

section \<open>The typed configuration\<close>

record mount =
  mhost :: string
  mcontainer :: string
  readonly :: bool

record volume =
  vname :: string
  vcontainer :: string

record udev_rule =
  rule_vid :: string
  rule_pid :: string
  rule_mode :: string
  usbtmc :: bool

record box_config =
  cfg_version :: int
  mounts :: "mount list"
  volumes :: "volume list"
  env_vars :: "(string \<times> string) list"
  pip_packages :: "string list"
  apt_packages :: "string list"
  sysctl :: "(string \<times> string) list"
  cargo_packages :: "string list"
  npm_packages :: "string list"
  udev_rules :: "udev_rule list"
  network_mode :: pyval
  extras :: dict

datatype cfg_exc =
    Invalid "cfg_error list"
  | NewerVersion pyval
  | Raised pyexc

text \<open>
  \<^verbatim>\<open>migrate_raw\<close>: the table of migrations is empty, so a document of an older cfg_version is
  returned as it is by the first round of the loop.
\<close>

definition int_of_version :: "pyval \<Rightarrow> int option" where
  "int_of_version v = (case v of VInt i \<Rightarrow> Some i | VBool b \<Rightarrow> Some (if b then 1 else 0) | _ \<Rightarrow> None)"

definition migrate_raw :: "pyval \<Rightarrow> cfg_exc + pyval" where
  "migrate_raw raw = (case raw of
     VDict d \<Rightarrow> (case int_of_version (dict_get d ''version'') of
        None \<Rightarrow> Inr raw
      | Some v \<Rightarrow> if SCHEMA_VERSION < v then Inl (NewerVersion (dict_get d ''version'')) else Inr raw)
   | _ \<Rightarrow> Inr raw)"

text \<open>
  What \<^verbatim>\<open>for x in v\<close> and \<^verbatim>\<open>list(v)\<close> iterate over, and \<^verbatim>\<open>dict(v)\<close> of an object or a
  null. A value that a validated document has as a string is read as one.
\<close>

fun py_iter :: "pyval \<Rightarrow> pyval list res" where
  "py_iter (VList xs) = Inr xs"
| "py_iter (VStr s) = Inr (map (\<lambda>c. VStr [c]) s)"
| "py_iter (VDict d) = Inr (map (VStr \<circ> fst) d)"
| "py_iter _ = Inl TypeError"

definition str_val :: "pyval \<Rightarrow> string res" where
  "str_val v = (case v of VStr s \<Rightarrow> Inr s | _ \<Rightarrow> Inl TypeError)"

definition str_list :: "pyval \<Rightarrow> string list res" where
  "str_list v = res_bind (py_iter v) (res_map str_val)"

definition str_dict :: "pyval \<Rightarrow> (string \<times> string) list res" where
  "str_dict v = (case v of
     VDict d \<Rightarrow> res_map (\<lambda>(k, w). res_bind (str_val w) (\<lambda>s. Inr (k, s))) d
   | _ \<Rightarrow> Inl TypeError)"

definition get_or :: "dict \<Rightarrow> string \<Rightarrow> pyval \<Rightarrow> pyval" where
  "get_or d k v = (case map_of d k of Some w \<Rightarrow> w | None \<Rightarrow> v)"

definition mount_of :: "pyval \<Rightarrow> mount res" where
  "mount_of v = (case v of
     VDict m \<Rightarrow> res_bind (res_bind (dict_item m ''host'') str_val) (\<lambda>h.
       res_bind (res_bind (dict_item m ''container'') str_val) (\<lambda>c.
       Inr \<lparr>mhost = h, mcontainer = c, readonly = truthy (get_or m ''readonly'' (VBool False))\<rparr>))
   | _ \<Rightarrow> Inl TypeError)"

definition volume_of :: "pyval \<Rightarrow> volume res" where
  "volume_of v = (case v of
     VDict m \<Rightarrow> res_bind (res_bind (dict_item m ''name'') str_val) (\<lambda>n.
       res_bind (res_bind (dict_item m ''container'') str_val) (\<lambda>c. Inr \<lparr>vname = n, vcontainer = c\<rparr>))
   | _ \<Rightarrow> Inl TypeError)"

definition udev_of :: "dict \<Rightarrow> udev_rule res" where
  "udev_of u = res_bind (str_val (normalize_udev_id (get_or u ''vid'' (VStr [])))) (\<lambda>v.
     res_bind (str_val (normalize_udev_id (get_or u ''pid'' (VStr [])))) (\<lambda>p.
     res_bind (str_val (udev_mode u)) (\<lambda>m.
     Inr \<lparr>rule_vid = v, rule_pid = p, rule_mode = m, usbtmc = truthy (get_or u ''usbtmc'' (VBool False))\<rparr>)))"

fun objects :: "pyval list \<Rightarrow> dict list" where
  "objects [] = []"
| "objects (VDict d # vs) = d # objects vs"
| "objects (v # vs) = objects vs"

definition FIRST_CLASS_KEYS :: "string list" where
  "FIRST_CLASS_KEYS = [''version'', ''mounts'', ''volumes'', ''env'', ''pip_packages'', ''apt_packages'',
     ''sysctl'', ''cargo_packages'', ''npm_packages'', ''udev_rules'', ''network_mode'']"

definition build_config :: "dict \<Rightarrow> box_config res" where
  "build_config raw =
    res_bind (res_bind (py_iter (get_or raw ''mounts'' (VList []))) (res_map mount_of)) (\<lambda>ms.
    res_bind (res_bind (py_iter (get_or raw ''volumes'' (VList []))) (res_map volume_of)) (\<lambda>vs.
    res_bind (str_dict (get_or raw ''env'' (VDict []))) (\<lambda>en.
    res_bind (str_list (get_or raw ''pip_packages'' (VList []))) (\<lambda>pip.
    res_bind (str_list (get_or raw ''apt_packages'' (VList []))) (\<lambda>apt.
    res_bind (str_dict (get_or raw ''sysctl'' (VDict []))) (\<lambda>sc.
    res_bind (str_list (get_or raw ''cargo_packages'' (VList []))) (\<lambda>cargo.
    res_bind (str_list (get_or raw ''npm_packages'' (VList []))) (\<lambda>npm.
    res_bind (res_bind (py_iter (get_or raw ''udev_rules'' (VList []))) (res_map udev_of \<circ> objects)) (\<lambda>us.
    res_bind (res_bind (dict_item raw ''version'') py_int) (\<lambda>v.
    Inr \<lparr>cfg_version = v, mounts = ms, volumes = vs, env_vars = en, pip_packages = pip, apt_packages = apt,
      sysctl = sc, cargo_packages = cargo, npm_packages = npm, udev_rules = us,
      network_mode = get_or raw ''network_mode'' (VStr DEFAULT_NETWORK_MODE),
      extras = filter (\<lambda>(k, _). k \<notin> set FIRST_CLASS_KEYS) raw\<rparr>))))))))))"

definition from_dict :: "pyval \<Rightarrow> cfg_exc + box_config" where
  "from_dict doc = (case migrate_raw doc of
     Inl e \<Rightarrow> Inl e
   | Inr raw \<Rightarrow> if validate_doc raw \<noteq> [] then Inl (Invalid (validate_doc raw))
       else (case raw of
          VDict d \<Rightarrow> (case build_config d of Inl e \<Rightarrow> Inl (Raised e) | Inr c \<Rightarrow> Inr c)
        | _ \<Rightarrow> Inl (Raised AttributeError)))"

definition mount_dict :: "mount \<Rightarrow> pyval" where
  "mount_dict m = VDict [(''host'', VStr (mhost m)), (''container'', VStr (mcontainer m)), (''readonly'', VBool (readonly m))]"

definition volume_dict :: "volume \<Rightarrow> pyval" where
  "volume_dict v = VDict [(''name'', VStr (vname v)), (''container'', VStr (vcontainer v))]"

definition udev_dict :: "udev_rule \<Rightarrow> pyval" where
  "udev_dict u = VDict [(''vid'', VStr (rule_vid u)), (''pid'', VStr (rule_pid u)), (''mode'', VStr (rule_mode u)), (''usbtmc'', VBool (usbtmc u))]"

definition strs :: "string list \<Rightarrow> pyval" where "strs xs = VList (map VStr xs)"

definition str_items :: "(string \<times> string) list \<Rightarrow> pyval" where
  "str_items d = VDict (map (\<lambda>(k, v). (k, VStr v)) d)"

definition base_dict :: "box_config \<Rightarrow> dict" where
  "base_dict c = [(''version'', VInt (cfg_version c)), (''mounts'', VList (map mount_dict (mounts c))),
     (''volumes'', VList (map volume_dict (volumes c))), (''env'', str_items (env_vars c)),
     (''pip_packages'', strs (pip_packages c)), (''apt_packages'', strs (apt_packages c)),
     (''sysctl'', str_items (sysctl c)), (''cargo_packages'', strs (cargo_packages c)),
     (''npm_packages'', strs (npm_packages c)), (''udev_rules'', VList (map udev_dict (udev_rules c)))] @
     (if \<not> py_eq (network_mode c) (VStr DEFAULT_NETWORK_MODE) then [(''network_mode'', network_mode c)] else [])"

definition to_dict :: "box_config \<Rightarrow> dict" where
  "to_dict c = foldl (\<lambda>out (k, v). dict_set out k v) (base_dict c) (extras c)"

text \<open>
  \<^verbatim>\<open>compute_hash\<close>: the serialised text depends on the document with all keys sorted, and
  \<open>digest\<close> stands for the SHA-256 of that text.
\<close>

primrec json_sorted :: "pyval \<Rightarrow> pyval" where
  "json_sorted VNone = VNone"
| "json_sorted (VBool b) = VBool b"
| "json_sorted (VInt i) = VInt i"
| "json_sorted (VFloat f) = VFloat f"
| "json_sorted (VStr s) = VStr s"
| "json_sorted (VList xs) = VList (map json_sorted xs)"
| "json_sorted (VDict d) = VDict (sort_key fst (map (map_prod id json_sorted) d))"

definition compute_hash :: "(pyval \<Rightarrow> string) \<Rightarrow> box_config \<Rightarrow> string" where
  "compute_hash digest c = digest (json_sorted (VDict (to_dict c)))"

definition init_default :: box_config where
  "init_default = \<lparr>cfg_version = SCHEMA_VERSION, mounts = [],
     volumes = [\<lparr>vname = ''box-tools'', vcontainer = ''/opt/box-tools''\<rparr>], env_vars = [], pip_packages = [],
     apt_packages = [], sysctl = [], cargo_packages = [], npm_packages = [], udev_rules = [],
     network_mode = VStr DEFAULT_NETWORK_MODE, extras = []\<rparr>"

end
