(* ===== verification/Box_Render.thy ===== *)
theory Box_Render
  imports Box_Config Atomic_File
begin

text \<open>
  Files and rendered artifacts of the box configuration: the atomic writers and readers of
  \<^verbatim>\<open>box_config/config.py\<close>, the \<^verbatim>\<open>docker\<close> arguments and udev rules, and the four
  \<^verbatim>\<open>box_config/render_*.py\<close> scripts. \<open>shell_words\<close> states how a POSIX shell reads the
  words of an array assignment (blanks, unquoted characters without special meaning, single
  quotes, double quotes); the rendered text is measured against it.
\<close>

section \<open>Files\<close>

definition atomic_write_json :: "wio \<Rightarrow> pyval \<Rightarrow> json_file slot \<Rightarrow> (write_err + unit) \<times> json_file slot" where
  "atomic_write_json io payload = replace_file RawOSError io (JsonDoc payload)"

definition write_atomic :: "wio \<Rightarrow> string \<Rightarrow> string slot \<Rightarrow> (write_err + unit) \<times> string slot" where
  "write_atomic io body = replace_file RenderWriteError io body"

datatype text_file = TMissing | TUnreadable | TText string

definition write_applied_hash :: "wio \<Rightarrow> string \<Rightarrow> text_file slot \<Rightarrow> (write_err + unit) \<times> text_file slot" where
  "write_applied_hash io value = replace_file RawOSError io (TText value)"

definition read_applied_hash :: "text_file \<Rightarrow> string option res" where
  "read_applied_hash f = (case f of
     TMissing \<Rightarrow> Inr None | TUnreadable \<Rightarrow> Inl OSError
   | TText t \<Rightarrow> Inr (if strip t = [] then None else Some (strip t)))"

definition save :: "wio \<Rightarrow> box_config \<Rightarrow> json_file slot \<Rightarrow> (write_err + unit) \<times> json_file slot" where
  "save io c = atomic_write_json io (VDict (to_dict c))"

definition load :: "json_file \<Rightarrow> cfg_exc + box_config option" where
  "load f = (case f of
     Missing \<Rightarrow> Inr None
   | Unreadable \<Rightarrow> Inl (Raised OSError)
   | NotUtf8 \<Rightarrow> Inl (Raised UnicodeDecodeError)
   | NotJson \<Rightarrow> Inl (Raised ValueError)
   | JsonDoc raw \<Rightarrow> map_sum id Some (from_dict raw))"

definition write_applied_snapshot :: "wio \<Rightarrow> box_config \<Rightarrow> json_file slot \<Rightarrow> (write_err + unit) \<times> json_file slot" where
  "write_applied_snapshot io c = atomic_write_json io (VDict (to_dict c))"

definition read_applied_snapshot :: "json_file \<Rightarrow> box_config option res" where
  "read_applied_snapshot f = (case f of
     Missing \<Rightarrow> Inr None
   | NotJson \<Rightarrow> Inr None
   | Unreadable \<Rightarrow> Inl OSError
   | NotUtf8 \<Rightarrow> Inl UnicodeDecodeError
   | JsonDoc raw \<Rightarrow> (case from_dict raw of
        Inr c \<Rightarrow> Inr (Some c) | Inl (Raised e) \<Rightarrow> Inl e | Inl _ \<Rightarrow> Inr None))"

section \<open>Shell quoting\<close>

abbreviation squote :: char where "squote \<equiv> CHR 0x27"
abbreviation dquote :: char where "dquote \<equiv> CHR 0x22"

definition shell_safe :: "char \<Rightarrow> bool" where
  "shell_safe c = (is_alnum c \<or> c \<in> set ''_@%+=:,./-'')"

definition shlex_quote :: "string \<Rightarrow> string" where
  "shlex_quote s =
    (if s = [] then [squote, squote]
     else if list_all shell_safe s then s
     else squote # concat (map (\<lambda>c. if c = squote then [squote, dquote, squote, dquote, squote] else [c]) s) @ [squote])"

text \<open>How a shell reads words; \<open>None\<close> for text outside this part of its syntax.\<close>

datatype sh_mode = Between | Bare string | InSingle string | InDouble string

fun shell_step :: "sh_mode \<Rightarrow> string \<Rightarrow> string list option" where
  "shell_step Between [] = Some []"
| "shell_step (Bare w) [] = Some [rev w]"
| "shell_step _ [] = None"
| "shell_step Between (c # s) =
    (if c = CHR '' '' then shell_step Between s
     else if c = squote then shell_step (InSingle []) s
     else if c = dquote then shell_step (InDouble []) s
     else if shell_safe c then shell_step (Bare [c]) s else None)"
| "shell_step (Bare w) (c # s) =
    (if c = CHR '' '' then map_option ((#) (rev w)) (shell_step Between s)
     else if c = squote then shell_step (InSingle w) s
     else if c = dquote then shell_step (InDouble w) s
     else if shell_safe c then shell_step (Bare (c # w)) s else None)"
| "shell_step (InSingle w) (c # s) = (if c = squote then shell_step (Bare w) s else shell_step (InSingle (c # w)) s)"
| "shell_step (InDouble w) (c # s) =
    (if c = dquote then shell_step (Bare w) s
     else if shell_safe c \<or> c = squote then shell_step (InDouble (c # w)) s else None)"

definition shell_words :: "string \<Rightarrow> string list option" where
  "shell_words s = (if CHR 0x00 \<in> set s then None else shell_step Between s)"

section \<open>Arguments of the container\<close>

definition mount_spec :: "mount \<Rightarrow> string" where
  "mount_spec m = mhost m @ '':'' @ mcontainer m @ (if readonly m then '':ro'' else [])"

definition mount_docker_arg :: "mount \<Rightarrow> string" where
  "mount_docker_arg m = ''-v '' @ shlex_quote (mount_spec m)"

definition volume_docker_arg :: "volume \<Rightarrow> string" where
  "volume_docker_arg v = ''-v '' @ shlex_quote (vname v @ '':'' @ vcontainer v)"

definition docker_mount_args :: "box_config \<Rightarrow> string list" where
  "docker_mount_args c = map mount_docker_arg (mounts c) @ map volume_docker_arg (volumes c)"

definition docker_env_args :: "box_config \<Rightarrow> string list" where
  "docker_env_args c = map (\<lambda>(k, v). ''--env '' @ shlex_quote (k @ ''='' @ v)) (env_vars c)"

definition to_rule_lines :: "udev_rule \<Rightarrow> string list" where
  "to_rule_lines u =
    [''# vid:pid '' @ rule_vid u @ '':'' @ rule_pid u @ '' (added via '' @ [CHR 0x60] @ ''lager box-config udev'' @ [CHR 0x60] @ '')'',
     ''SUBSYSTEM=='' @ [dquote] @ ''usb'' @ [dquote] @ '', ATTRS{idVendor}=='' @ [dquote] @ rule_vid u @ [dquote] @
     '', ATTRS{idProduct}=='' @ [dquote] @ rule_pid u @ [dquote] @ '', MODE='' @ [dquote] @ rule_mode u @ [dquote] @
     '', GROUP='' @ [dquote] @ ''lager'' @ [dquote]] @
    (if usbtmc u then
      [''ACTION=='' @ [dquote] @ ''bind'' @ [dquote] @ '', SUBSYSTEM=='' @ [dquote] @ ''usb'' @ [dquote] @
       '', DRIVER=='' @ [dquote] @ ''usbtmc'' @ [dquote] @ '', ATTRS{idVendor}=='' @ [dquote] @ rule_vid u @ [dquote] @
       '', ATTRS{idProduct}=='' @ [dquote] @ rule_pid u @ [dquote] @ '', RUN+='' @ [dquote] @ ''/bin/sh -c '' @ [squote] @
       ''echo %k > /sys/bus/usb/drivers/usbtmc/unbind 2>/dev/null || true'' @ [squote] @ [dquote]]
     else [])"

fun join_words :: "string list \<Rightarrow> string" where
  "join_words [] = []"
| "join_words [w] = w"
| "join_words (w # ws) = w @ '' '' @ join_words ws"

definition bash_array :: "string \<Rightarrow> string list \<Rightarrow> string" where
  "bash_array name items = name @ ''=('' @ join_words (map shlex_quote items) @ '')'' @ [newline]"

definition bash_scalar :: "string \<Rightarrow> string \<Rightarrow> string" where
  "bash_scalar name value = name @ ''='' @ shlex_quote value @ [newline]"

definition applied_network_mode :: "json_file \<Rightarrow> pyval" where
  "applied_network_mode f = (case read_applied_snapshot f of
     Inr (Some snap) \<Rightarrow> network_mode snap | _ \<Rightarrow> VStr DEFAULT_NETWORK_MODE)"

definition effective_network :: "string option \<Rightarrow> pyval \<Rightarrow> json_file \<Rightarrow> pyval \<times> pyval" where
  "effective_network confirm desired applied =
    (if \<not> py_eq desired (VStr ''host'') \<or> confirm = Some ''1'' then (desired, VStr [])
     else if py_eq (applied_network_mode applied) (VStr ''host'') then (desired, VStr [])
     else (VStr DEFAULT_NETWORK_MODE, desired))"

definition mount_args :: "box_config \<Rightarrow> string list" where
  "mount_args c = concat (map (\<lambda>m. [''-v'', mount_spec m]) (mounts c)) @
     concat (map (\<lambda>v. [''-v'', vname v @ '':'' @ vcontainer v]) (volumes c))"

definition env_args :: "box_config \<Rightarrow> string list" where
  "env_args c = concat (map (\<lambda>(k, v). [''--env'', k @ ''='' @ v]) (env_vars c))"

definition HEADER_ARGS :: string where
  "HEADER_ARGS = ''# Rendered by render_docker_args.py - do not edit by hand'' @ [newline]"

text \<open>
  What \<^verbatim>\<open>shlex.quote\<close> quotes: \<^verbatim>\<open>None\<close> is false and gives the two quotes of an empty word,
  like the empty string; another value that is not a string raises.
\<close>

definition quote_val :: "pyval \<Rightarrow> string res" where
  "quote_val v = (case v of VNone \<Rightarrow> Inr [] | VStr s \<Rightarrow> Inr s | _ \<Rightarrow> Inl TypeError)"

definition render_body :: "string option \<Rightarrow> json_file \<Rightarrow> box_config \<Rightarrow> string res" where
  "render_body confirm applied c = (let (network, pending) = effective_network confirm (network_mode c) applied in
     res_bind (quote_val network) (\<lambda>n. res_bind (quote_val pending) (\<lambda>p.
       Inr (HEADER_ARGS @ bash_array ''BOX_CONFIG_MOUNTS'' (mount_args c) @ bash_array ''BOX_CONFIG_ENV'' (env_args c) @
         bash_array ''BOX_CONFIG_HOST_PATHS'' (map mhost (mounts c)) @ bash_scalar ''BOX_CONFIG_NETWORK'' n @
         bash_scalar ''BOX_CONFIG_NETWORK_PENDING'' p))))"

definition empty_body :: string where
  "empty_body = HEADER_ARGS @ ''BOX_CONFIG_MOUNTS=()'' @ [newline] @ ''BOX_CONFIG_ENV=()'' @ [newline] @
     ''BOX_CONFIG_HOST_PATHS=()'' @ [newline] @ bash_scalar ''BOX_CONFIG_NETWORK'' DEFAULT_NETWORK_MODE @
     bash_scalar ''BOX_CONFIG_NETWORK_PENDING'' []"

section \<open>The render scripts\<close>

text \<open>
  \<open>main\<close> of a script: an exit status, or the exception that leaves it. \<open>finish_write\<close> is
  the write with the status that follows it and the handler of \<^verbatim>\<open>RenderWriteError\<close>.
\<close>

definition finish_write :: "wio \<Rightarrow> string \<Rightarrow> int \<Rightarrow> string slot \<Rightarrow> int res \<times> string slot" where
  "finish_write io body status out = (case write_atomic io body out of
     (Inr _, out') \<Rightarrow> (Inr status, out')
   | (Inl RenderWriteError, out') \<Rightarrow> (Inr 1, out')
   | (Inl RawOSError, out') \<Rightarrow> (Inl OSError, out'))"

definition render_args_main :: "wio \<Rightarrow> string option \<Rightarrow> nat \<Rightarrow> json_file \<Rightarrow> json_file \<Rightarrow> string slot \<Rightarrow> int res \<times> string slot" where
  "render_args_main io confirm argc config applied out =
    (if argc < 3 then (Inr 2, out)
     else case config of
       Missing \<Rightarrow> finish_write io empty_body 0 out
     | NotJson \<Rightarrow> finish_write io empty_body 1 out
     | Unreadable \<Rightarrow> (Inl OSError, out)
     | NotUtf8 \<Rightarrow> (Inl UnicodeDecodeError, out)
     | JsonDoc raw \<Rightarrow> (case from_dict raw of
         Inl (Raised e) \<Rightarrow> (Inl e, out)
       | Inl _ \<Rightarrow> finish_write io empty_body 1 out
       | Inr c \<Rightarrow> (case render_body confirm applied c of
           Inl e \<Rightarrow> (Inl e, out) | Inr body \<Rightarrow> finish_write io body 0 out)))"

definition render_list_main :: "string \<Rightarrow> (box_config \<Rightarrow> string list) \<Rightarrow> wio \<Rightarrow> nat \<Rightarrow> json_file \<Rightarrow> string slot \<Rightarrow>
    int res \<times> string slot" where
  "render_list_main header sel io argc config out =
    (if argc < 3 then (Inr 2, out)
     else case config of
       Missing \<Rightarrow> finish_write io header 0 out
     | NotJson \<Rightarrow> (Inr 1, out)
     | Unreadable \<Rightarrow> (Inl OSError, out)
     | NotUtf8 \<Rightarrow> (Inl UnicodeDecodeError, out)
     | JsonDoc raw \<Rightarrow> (case from_dict raw of
         Inl (Raised e) \<Rightarrow> (Inl e, out)
       | Inl _ \<Rightarrow> (Inr 1, out)
       | Inr c \<Rightarrow> finish_write io (header @ concat (map (\<lambda>p. p @ [newline]) (sort (sel c)))) 0 out))"

definition list_header :: "string \<Rightarrow> string \<Rightarrow> string" where
  "list_header what cmd = ''# User-installed '' @ what @ '', rendered from /etc/lager/box_config.json'' @ [newline] @
     ''# Edit via '' @ [CHR 0x60] @ ''lager box-config '' @ cmd @ '' add/remove'' @ [CHR 0x60] @ '', then '' @ [CHR 0x60] @
     ''lager box-config apply'' @ [CHR 0x60] @ ''.'' @ [newline] @
     ''# Manual edits to this file are overwritten on the next apply.'' @ [newline, newline]"

definition render_pip_main :: "wio \<Rightarrow> nat \<Rightarrow> json_file \<Rightarrow> string slot \<Rightarrow> int res \<times> string slot" where
  "render_pip_main = render_list_main (list_header ''packages'' ''pip'') pip_packages"

definition render_cargo_main :: "wio \<Rightarrow> nat \<Rightarrow> json_file \<Rightarrow> string slot \<Rightarrow> int res \<times> string slot" where
  "render_cargo_main = render_list_main (list_header ''cargo crates'' ''cargo'') cargo_packages"

definition render_npm_main :: "wio \<Rightarrow> nat \<Rightarrow> json_file \<Rightarrow> string slot \<Rightarrow> int res \<times> string slot" where
  "render_npm_main = render_list_main (list_header ''npm packages'' ''npm'') npm_packages"

end
