(* ===== verification/Box_Config_Laws.thy ===== *)
theory Box_Config_Laws
  imports Box_Render
begin

text \<open>
  Laws of the box configuration. \<open>config_ok\<close> says what a typed configuration promises;
  \<open>from_dict_ok\<close> shows that every accepted document gives one, \<open>from_to_dict\<close> that every
  such configuration is accepted again and unchanged after \<open>to_dict\<close>. The lemmas on the
  loops of the validator are stated twice, from an accepted document to the typed list and
  back from the typed list.
\<close>

named_theorems cfg_loops \<open>the loops of the validator on rendered items\<close>

section \<open>What an accepted configuration promises\<close>

definition abs_path :: "string \<Rightarrow> bool" where
  "abs_path p \<longleftrightarrow> startswith p ''/'' \<and> p \<noteq> ''/''"

text \<open>
  The items of a list have distinct keys, none of them seen before: what every loop of the
  validator checks with its dictionary of seen keys.
\<close>

definition keys_ok :: "('a \<Rightarrow> 'k) \<Rightarrow> ('k \<times> nat) list \<Rightarrow> 'a list \<Rightarrow> bool" where
  "keys_ok key seen xs \<longleftrightarrow> distinct (map key xs) \<and> list_all (\<lambda>x. map_of seen (key x) = None) xs"

lemma keys_ok_Nil [simp]: "keys_ok key seen []"
  by (simp add: keys_ok_def)

lemma keys_ok_Cons:
  "keys_ok key seen (x # xs) \<longleftrightarrow> map_of seen (key x) = None \<and> keys_ok key ((key x, i) # seen) xs"
  by (auto simp: keys_ok_def list_all_iff) (metis image_eqI)

definition mounts_ok :: "(string \<times> nat) list \<Rightarrow> mount list \<Rightarrow> bool" where
  "mounts_ok seen ms \<longleftrightarrow> list_all (\<lambda>m. abs_path (mhost m) \<and> abs_path (mcontainer m)) ms \<and> keys_ok mcontainer seen ms"

definition volumes_ok :: "(string \<times> nat) list \<Rightarrow> volume list \<Rightarrow> bool" where
  "volumes_ok seen vs \<longleftrightarrow> list_all (\<lambda>v. re_match VOLUME_NAME_RE (vname v) \<and> abs_path (vcontainer v)) vs \<and> keys_ok vname seen vs"

definition pkgs_ok :: "(pyval \<Rightarrow> string option) \<Rightarrow> (string \<Rightarrow> string) \<Rightarrow> (string \<times> nat) list \<Rightarrow> string list \<Rightarrow> bool" where
  "pkgs_ok chk key seen ps \<longleftrightarrow> list_all (\<lambda>p. chk (VStr p) = None) ps \<and> keys_ok key seen ps"

definition rule_ok :: "udev_rule \<Rightarrow> bool" where
  "rule_ok u \<longleftrightarrow> re_match UDEV_HEXID_RE (rule_vid u) \<and> re_match UDEV_HEXID_RE (rule_pid u) \<and> re_match UDEV_MODE_RE (rule_mode u) \<and>
     lower (rule_vid u) = rule_vid u \<and> lower (rule_pid u) = rule_pid u"

definition rules_ok :: "((pyval \<times> pyval) \<times> nat) list \<Rightarrow> udev_rule list \<Rightarrow> bool" where
  "rules_ok seen us \<longleftrightarrow> list_all rule_ok us \<and> keys_ok (\<lambda>u. (VStr (rule_vid u), VStr (rule_pid u))) seen us"

definition env_ok :: "(string \<times> string) list \<Rightarrow> bool" where
  "env_ok d \<longleftrightarrow> list_all (\<lambda>(k, v). re_match ENV_KEY_RE k \<and> k \<noteq> ''PATH'') d"

definition sysctl_ok :: "(string \<times> string) list \<Rightarrow> bool" where
  "sysctl_ok d \<longleftrightarrow> list_all (\<lambda>(k, v). validate_sysctl_key (VStr k) = None \<and> newline \<notin> set v) d"

definition config_ok :: "box_config \<Rightarrow> bool" where
  "config_ok c \<longleftrightarrow> cfg_version c = SCHEMA_VERSION \<and> mounts_ok [] (mounts c) \<and> volumes_ok [] (volumes c) \<and>
     list_all (\<lambda>m. map_of RESERVED_CONTAINER_PATHS (mcontainer m) = None) (mounts c) \<and>
     list_all (\<lambda>v. vcontainer v \<notin> mcontainer ` set (mounts c)) (volumes c) \<and>
     env_ok (env_vars c) \<and> sysctl_ok (sysctl c) \<and>
     pkgs_ok validate_pip_format normalize_pip_name [] (pip_packages c) \<and>
     pkgs_ok validate_apt_format lower [] (apt_packages c) \<and>
     pkgs_ok validate_cargo_format normalize_cargo_name [] (cargo_packages c) \<and>
     pkgs_ok validate_npm_format normalize_npm_name [] (npm_packages c) \<and>
     rules_ok [] (udev_rules c) \<and> network_mode c \<in> insert VNone (VStr ` set NETWORK_MODES) \<and>
     list_all (\<lambda>(k, v). k \<notin> set FIRST_CLASS_KEYS) (extras c)"

section \<open>Mounts and volumes\<close>

lemma need_string_Nil: "need_string sect i key v = [] \<longleftrightarrow> (\<exists>s. v = VStr s)"
  by (cases v) (simp_all add: need_string_def)

lemma need_path_Nil: "need_path sect i key p = [] \<longleftrightarrow> abs_path p"
  by (auto simp: need_path_def abs_path_def)

lemma dict_get_item: "dict_get d k = VStr s \<Longrightarrow> dict_item d k = Inr (VStr s)"
  by (auto simp: dict_get_def dict_item_def split: option.splits)

lemma mounts_loop_typed:
  "mounts_loop i seen xs = [] \<Longrightarrow> \<exists>ms. res_map mount_of xs = Inr ms \<and> mounts_ok seen ms \<and>
     map container_of xs = map (Some \<circ> mcontainer) ms"
proof (induction xs arbitrary: i seen)
  case Nil
  then show ?case by (simp add: mounts_ok_def)
next
  case (Cons x xs)
  then obtain m where x: "x = VDict m" by (cases x) auto
  with Cons.prems obtain h c where hc: "dict_get m ''host'' = VStr h" "dict_get m ''container'' = VStr c"
    "abs_path h" "abs_path c" "map_of seen c = None" "mounts_loop (Suc i) ((c, i) # seen) xs = []"
    by (auto simp: Let_def need_string_Nil need_path_Nil split: option.splits)
  from Cons.IH [OF hc(6)] obtain ms where ms: "res_map mount_of xs = Inr ms"
    "mounts_ok ((c, i) # seen) ms" "map container_of xs = map (Some \<circ> mcontainer) ms" by blast
  let ?m = "\<lparr>mhost = h, mcontainer = c, readonly = truthy (get_or m ''readonly'' (VBool False))\<rparr>"
  have "mount_of (VDict m) = Inr ?m"
    using dict_get_item [OF hc(1)] dict_get_item [OF hc(2)] by (simp add: mount_of_def str_val_def)
  moreover have "mounts_ok seen (?m # ms)"
    using hc ms(2) by (simp add: mounts_ok_def keys_ok_Cons [where i = i])
  moreover have "container_of x = Some c" using hc(2) x by (simp add: container_of_def)
  ultimately show ?case using ms x by auto
qed

lemma mounts_loop_dicts [cfg_loops]: "mounts_ok seen ms \<Longrightarrow> mounts_loop i seen (map mount_dict ms) = []"
proof (induction ms arbitrary: i seen)
  case (Cons m ms)
  then show ?case
    by (simp add: mount_dict_def Let_def need_string_Nil need_path_Nil mounts_ok_def need_bool_def keys_ok_Cons [where i = i])
qed simp

lemma mount_of_dict [simp]: "mount_of (mount_dict m) = Inr m"
  by (simp add: mount_of_def mount_dict_def dict_item_def str_val_def get_or_def)

lemma volumes_loop_typed:
  "volumes_loop i seen xs = [] \<Longrightarrow> \<exists>vs. res_map volume_of xs = Inr vs \<and> volumes_ok seen vs \<and>
     map container_of xs = map (Some \<circ> vcontainer) vs"
proof (induction xs arbitrary: i seen)
  case Nil
  then show ?case by (simp add: volumes_ok_def)
next
  case (Cons x xs)
  then obtain d where x: "x = VDict d" by (cases x) auto
  from Cons.prems have "\<exists>n. dict_get d ''name'' = VStr n"
    by (cases "dict_get d ''name''") (simp_all add: x Let_def need_string_def)
  then obtain n where n: "dict_get d ''name'' = VStr n" by blast
  with Cons.prems x obtain c where nc: "dict_get d ''container'' = VStr c" "re_match VOLUME_NAME_RE n"
    "abs_path c" "map_of seen n = None" "volumes_loop (Suc i) ((n, i) # seen) xs = []"
    by (auto simp: Let_def need_string_Nil need_path_Nil split: option.splits if_splits)
  from Cons.IH [OF nc(5)] obtain vs where vs: "res_map volume_of xs = Inr vs"
    "volumes_ok ((n, i) # seen) vs" "map container_of xs = map (Some \<circ> vcontainer) vs" by blast
  have "volume_of (VDict d) = Inr \<lparr>vname = n, vcontainer = c\<rparr>"
    using dict_get_item [OF n] dict_get_item [OF nc(1)] by (simp add: volume_of_def str_val_def)
  moreover have "volumes_ok seen (\<lparr>vname = n, vcontainer = c\<rparr> # vs)"
    using nc vs(2) by (simp add: volumes_ok_def keys_ok_Cons [where i = i])
  moreover have "container_of x = Some c" using nc(1) x by (simp add: container_of_def)
  ultimately show ?case using vs x by auto
qed

lemma volumes_loop_dicts [cfg_loops]: "volumes_ok seen vs \<Longrightarrow> volumes_loop i seen (map volume_dict vs) = []"
proof (induction vs arbitrary: i seen)
  case (Cons v vs)
  then show ?case
    by (simp add: volume_dict_def Let_def need_string_Nil need_path_Nil volumes_ok_def keys_ok_Cons [where i = i])
qed simp

lemma volume_of_dict [simp]: "volume_of (volume_dict v) = Inr v"
  by (simp add: volume_of_def volume_dict_def dict_item_def str_val_def)

lemma container_of_dicts [simp]:
  "container_of (mount_dict m) = Some (mcontainer m)" "container_of (volume_dict v) = Some (vcontainer v)"
  by (simp_all add: container_of_def mount_dict_def volume_dict_def)

section \<open>Collisions and reserved paths\<close>

lemma mount_containers_dom:
  "map_of (mount_containers j acc xs) c = None \<longleftrightarrow> map_of acc c = None \<and> Some c \<notin> set (map container_of xs)"
  by (induction xs arbitrary: j acc) (auto split: option.splits if_splits)

lemma cross_loop_Nil:
  "cross_loop i mc xs = [] \<longleftrightarrow> (\<forall>c. Some c \<in> set (map container_of xs) \<longrightarrow> map_of mc c = None)"
  by (induction xs arbitrary: i) (auto split: option.splits)

lemma reserved_loop_Nil:
  "reserved_loop i xs = [] \<longleftrightarrow> (\<forall>c. Some c \<in> set (map container_of xs) \<longrightarrow> map_of RESERVED_CONTAINER_PATHS c = None)"
  by (induction xs arbitrary: i) (auto split: option.splits)

section \<open>Keys, packages and rules\<close>

lemma env_items_typed:
  "concat (map env_item d) = [] \<Longrightarrow> \<exists>e. str_dict (VDict d) = Inr e \<and> env_ok e"
proof (induction d)
  case Nil
  then show ?case by (simp add: str_dict_def env_ok_def)
next
  case (Cons kv d)
  then obtain e where e: "str_dict (VDict d) = Inr e" "env_ok e" by auto
  obtain k v where kv: "kv = (k, v)" by fastforce
  with Cons.prems obtain s where "v = VStr s" "re_match ENV_KEY_RE k" "k \<noteq> ''PATH''"
    by (cases v) (auto simp: env_item_def split: if_splits)
  with e kv show ?case by (auto simp: str_dict_def str_val_def env_ok_def)
qed

lemma env_items_back [cfg_loops]: "env_ok e \<Longrightarrow> concat (map env_item (map (\<lambda>(k, v). (k, VStr v)) e)) = []"
  by (induction e) (auto simp: env_ok_def env_item_def)

lemma sysctl_items_typed:
  "concat (map sysctl_item d) = [] \<Longrightarrow> \<exists>e. str_dict (VDict d) = Inr e \<and> sysctl_ok e"
proof (induction d)
  case Nil
  then show ?case by (simp add: str_dict_def sysctl_ok_def)
next
  case (Cons kv d)
  then obtain e where e: "str_dict (VDict d) = Inr e" "sysctl_ok e" by auto
  obtain k v where kv: "kv = (k, v)" by fastforce
  with Cons.prems obtain s where "v = VStr s" "validate_sysctl_key (VStr k) = None" "newline \<notin> set s"
    by (cases v) (auto simp: sysctl_item_def split: option.splits if_splits)
  with e kv show ?case by (auto simp: str_dict_def str_val_def sysctl_ok_def)
qed

lemma sysctl_items_back [cfg_loops]: "sysctl_ok e \<Longrightarrow> concat (map sysctl_item (map (\<lambda>(k, v). (k, VStr v)) e)) = []"
  by (induction e) (auto simp: sysctl_ok_def sysctl_item_def)

lemma str_dict_items [simp]: "str_dict (str_items d) = Inr d"
proof -
  have "res_map (\<lambda>(k, w). res_bind (str_val w) (\<lambda>s. Inr (k, s))) (map (\<lambda>(k, v). (k, VStr v)) d) = Inr d"
    by (induction d) (auto simp: str_val_def)
  then show ?thesis by (simp add: str_dict_def str_items_def)
qed

lemma str_list_strs [simp]: "str_list (strs xs) = Inr xs"
proof -
  have "res_map str_val (map VStr xs) = Inr xs" by (induction xs) (simp_all add: str_val_def)
  then show ?thesis by (simp add: str_list_def strs_def)
qed

lemma pkg_loop_typed:
  "pkg_loop sect chk key say i seen xs = [] \<Longrightarrow> \<exists>ps. str_list (VList xs) = Inr ps \<and> pkgs_ok chk key seen ps"
proof (induction xs arbitrary: i seen)
  case Nil
  then show ?case by (simp add: str_list_def pkgs_ok_def)
next
  case (Cons x xs)
  then obtain p where x: "x = VStr p" by (cases x) auto
  with Cons.prems have p: "chk (VStr p) = None" "map_of seen (key p) = None"
    "pkg_loop sect chk key say (Suc i) ((key p, i) # seen) xs = []"
    by (auto split: option.splits)
  from Cons.IH [OF p(3)] obtain ps where "str_list (VList xs) = Inr ps" "pkgs_ok chk key ((key p, i) # seen) ps" by blast
  with p x have "str_list (VList (x # xs)) = Inr (p # ps) \<and> pkgs_ok chk key seen (p # ps)"
    by (simp add: str_list_def str_val_def pkgs_ok_def keys_ok_Cons [where i = i])
  then show ?case by blast
qed

lemma pkg_loop_strs [cfg_loops]: "pkgs_ok chk key seen ps \<Longrightarrow> pkg_loop sect chk key say i seen (map VStr ps) = []"
proof (induction ps arbitrary: i seen)
  case (Cons p ps)
  then show ?case by (simp add: pkgs_ok_def keys_ok_Cons [where i = i])
qed simp

section \<open>USB rules\<close>

lemma hex_not_prefix: "re_match UDEV_HEXID_RE s \<Longrightarrow> \<not> startswith (lower s) ''0x''"
proof
  assume m: "re_match UDEV_HEXID_RE s" and p: "startswith (lower s) ''0x''"
  from m obtain a b t where s: "s = a # b # t" "is_hex b"
    by (auto simp: re_match_lang UDEV_HEXID_RE_def)
  with p have "lower_char b = CHR ''x''" by (simp add: startswith_def lower_def)
  with \<open>is_hex b\<close> show False
    by (auto simp: lower_char_def is_hex_def is_digit_def Let_def split: if_splits)
qed

lemma normalize_rule [simp]: "rule_ok u \<Longrightarrow> normalize_udev_id (VStr (rule_vid u)) = VStr (rule_vid u)"
  "rule_ok u \<Longrightarrow> normalize_udev_id (VStr (rule_pid u)) = VStr (rule_pid u)"
  using hex_not_prefix [of "rule_vid u"] hex_not_prefix [of "rule_pid u"] by (auto simp: rule_ok_def)

lemma validate_udev_rule: "rule_ok u \<Longrightarrow> validate_udev_format (VStr (rule_vid u)) (VStr (rule_pid u)) (VStr (rule_mode u)) = None"
  by (simp add: validate_udev_format_def hex_id_def del: normalize_udev_id.simps) (simp add: rule_ok_def)

lemma normalized_lower: "normalize_udev_id v = VStr s \<Longrightarrow> lower s = s"
  by (cases v) auto

lemma udev_loop_typed:
  "udev_loop i seen xs = [] \<Longrightarrow> \<exists>us. res_map udev_of (objects xs) = Inr us \<and> rules_ok seen us"
proof (induction xs arbitrary: i seen)
  case Nil
  then show ?case by (simp add: rules_ok_def)
next
  case (Cons x xs)
  then obtain d where x: "x = VDict d" by (cases x) auto
  let ?v = "dict_get d ''vid''" and ?p = "dict_get d ''pid''"
  have none: "?v \<noteq> VNone" "?p \<noteq> VNone" using Cons.prems x by (auto simp: Let_def split: if_splits)
  with Cons.prems x have ok: "validate_udev_format ?v ?p (udev_mode d) = None"
    "map_of seen (normalize_udev_id ?v, normalize_udev_id ?p) = None"
    "udev_loop (Suc i) (((normalize_udev_id ?v, normalize_udev_id ?p), i) # seen) xs = []"
    by (auto simp: Let_def split: option.splits)
  from ok(1) obtain v p m where vpm: "normalize_udev_id ?v = VStr v" "normalize_udev_id ?p = VStr p" "udev_mode d = VStr m"
    "re_match UDEV_HEXID_RE v" "re_match UDEV_HEXID_RE p" "re_match UDEV_MODE_RE m"
    by (auto simp: validate_udev_format_def hex_id_def split: if_splits pyval.splits)
  let ?u = "\<lparr>rule_vid = v, rule_pid = p, rule_mode = m, usbtmc = truthy (get_or d ''usbtmc'' (VBool False))\<rparr>"
  have get: "get_or d ''vid'' (VStr []) = ?v" "get_or d ''pid'' (VStr []) = ?p"
    using none by (auto simp: get_or_def dict_get_def split: option.splits)
  from Cons.IH [OF ok(3)] vpm(1,2) obtain us where us: "res_map udev_of (objects xs) = Inr us"
    "rules_ok (((VStr v, VStr p), i) # seen) us" by auto
  have "udev_of d = Inr ?u" using vpm get by (simp add: udev_of_def str_val_def)
  moreover have "rule_ok ?u" using vpm normalized_lower by (auto simp: rule_ok_def)
  ultimately show ?case
    using us x ok(2) vpm(1,2) by (auto simp: rules_ok_def keys_ok_Cons [where i = i])
qed

lemma udev_loop_dicts [cfg_loops]: "rules_ok seen us \<Longrightarrow> udev_loop i seen (map udev_dict us) = []"
proof (induction us arbitrary: i seen)
  case (Cons u us)
  then have "rule_ok u" "udev_mode [(''vid'', VStr (rule_vid u)), (''pid'', VStr (rule_pid u)), (''mode'', VStr (rule_mode u)), (''usbtmc'', VBool (usbtmc u))] = VStr (rule_mode u)"
    by (simp_all add: rules_ok_def udev_mode_def)
  with Cons show ?case
    by (simp add: udev_dict_def Let_def need_bool_def validate_udev_rule rules_ok_def keys_ok_Cons [where i = i]
        del: normalize_udev_id.simps)
qed simp

lemma udev_of_dict: "rule_ok u \<Longrightarrow>
  udev_of [(''vid'', VStr (rule_vid u)), (''pid'', VStr (rule_pid u)), (''mode'', VStr (rule_mode u)), (''usbtmc'', VBool (usbtmc u))] = Inr u"
  by (simp add: udev_of_def get_or_def udev_mode_def str_val_def del: normalize_udev_id.simps)

lemma udev_of_dicts: "rules_ok seen us \<Longrightarrow> res_map udev_of (objects (map udev_dict us)) = Inr us"
  by (induction us) (auto simp: rules_ok_def keys_ok_def udev_dict_def udev_of_dict)

section \<open>From documents to configurations\<close>

lemma array_section_iter:
  assumes "array_section raw key f = []" "f [] = []" "py_iter (get_or raw key (VList [])) = Inr xs"
  shows "get_or raw key (VList []) = VList xs \<and> f xs = []"
  using assms by (auto simp: array_section_def get_or_def dict_get_def split: option.splits pyval.splits)

lemma object_section_iter:
  assumes "object_section raw key f = []" "f [] = []" "str_dict (get_or raw key (VDict [])) = Inr e"
  shows "\<exists>d. get_or raw key (VDict []) = VDict d \<and> f d = []"
  using assms by (auto simp: object_section_def get_or_def dict_get_def str_dict_def split: option.splits pyval.splits)

lemma pkg_section_ok:
  assumes "array_section raw key (pkg_loop sect chk canon say 0 []) = []" "str_list (get_or raw key (VList [])) = Inr ps"
  shows "pkgs_ok chk canon [] ps"
proof -
  from assms(2) obtain xs where it: "py_iter (get_or raw key (VList [])) = Inr xs"
    by (auto simp: str_list_def res_bind_eq_Inr)
  from array_section_iter [OF assms(1) _ it] have "get_or raw key (VList []) = VList xs" "pkg_loop sect chk canon say 0 [] xs = []"
    by simp_all
  with pkg_loop_typed [of sect chk canon say 0 "[]" xs] assms(2) show ?thesis by auto
qed

lemma get_or_list: "get_or raw key (VList []) = VList xs \<Longrightarrow> dict_get raw key = VList xs \<or> xs = []"
  by (auto simp: get_or_def dict_get_def split: option.splits)

lemma version_one:
  "validate_version raw = [] \<Longrightarrow> res_bind (dict_item raw ''version'') py_int = Inr n \<Longrightarrow> n = SCHEMA_VERSION"
  by (cases "dict_get raw ''version''")
    (auto simp: validate_version_def Let_def SCHEMA_VERSION_def dict_item_get float_eq_def trunc_def split: if_splits)

lemma build_config_ok:
  assumes "validate_doc (VDict raw) = []" "build_config raw = Inr c"
  shows "config_ok c"
proof -
  from assms(2) obtain xs ys zs ms vs us where b:
    "py_iter (get_or raw ''mounts'' (VList [])) = Inr xs" "res_map mount_of xs = Inr ms" "mounts c = ms"
    "py_iter (get_or raw ''volumes'' (VList [])) = Inr ys" "res_map volume_of ys = Inr vs" "volumes c = vs"
    "py_iter (get_or raw ''udev_rules'' (VList [])) = Inr zs" "res_map udev_of (objects zs) = Inr us" "udev_rules c = us"
    and d: "str_dict (get_or raw ''env'' (VDict [])) = Inr (env_vars c)" "str_dict (get_or raw ''sysctl'' (VDict [])) = Inr (sysctl c)"
    and p: "str_list (get_or raw ''pip_packages'' (VList [])) = Inr (pip_packages c)"
      "str_list (get_or raw ''apt_packages'' (VList [])) = Inr (apt_packages c)"
      "str_list (get_or raw ''cargo_packages'' (VList [])) = Inr (cargo_packages c)"
      "str_list (get_or raw ''npm_packages'' (VList [])) = Inr (npm_packages c)"
    and r: "res_bind (dict_item raw ''version'') py_int = Inr (cfg_version c)"
      "network_mode c = get_or raw ''network_mode'' (VStr DEFAULT_NETWORK_MODE)"
      "extras c = filter (\<lambda>(k, _). k \<notin> set FIRST_CLASS_KEYS) raw"
    unfolding build_config_def by (auto simp: res_bind_eq_Inr)
  note v = assms(1) [unfolded validate_doc_def, simplified]
  have m: "get_or raw ''mounts'' (VList []) = VList xs" "mounts_loop 0 [] xs = []"
    using array_section_iter [OF _ _ b(1), of "mounts_loop 0 []"] v by (simp_all add: validate_mounts_def)
  have w: "get_or raw ''volumes'' (VList []) = VList ys" "volumes_loop 0 [] ys = []"
    using array_section_iter [OF _ _ b(4), of "volumes_loop 0 []"] v by (simp_all add: validate_volumes_def)
  have u: "udev_loop 0 [] zs = []"
    using array_section_iter [OF _ _ b(7), of "udev_loop 0 []"] v by (simp add: validate_udev_rules_def)
  have ms: "mounts_ok [] ms" "map container_of xs = map (Some \<circ> mcontainer) ms"
    using mounts_loop_typed [OF m(2)] b(2) by auto
  have vs: "volumes_ok [] vs" "map container_of ys = map (Some \<circ> vcontainer) vs"
    using volumes_loop_typed [OF w(2)] b(5) by auto
  have "reserved_loop 0 xs = []" using v get_or_list [OF m(1)] by (auto simp: validate_reserved_paths_def)
  then have res: "list_all (\<lambda>m. map_of RESERVED_CONTAINER_PATHS (mcontainer m) = None) ms"
    using ms(2) by (auto simp: reserved_loop_Nil list_all_iff)
  have "cross_loop 0 (mount_containers 0 [] xs) ys = [] \<or> xs = [] \<or> ys = []"
    using v get_or_list [OF m(1)] get_or_list [OF w(1)] by (auto simp: validate_cross_path_collisions_def)
  then have cross: "list_all (\<lambda>v. vcontainer v \<notin> mcontainer ` set ms) vs"
    using ms(2) vs(2) by (auto simp: cross_loop_Nil mount_containers_dom list_all_iff image_iff)
  have env_vars: "env_ok (env_vars c)" and sys: "sysctl_ok (sysctl c)"
    using object_section_iter [OF _ _ d(1), of "\<lambda>e. concat (map env_item e)"]
      object_section_iter [OF _ _ d(2), of "\<lambda>e. concat (map sysctl_item e)"] env_items_typed sysctl_items_typed v d
    by (fastforce simp: validate_env_def validate_sysctl_def)+
  have rules: "rules_ok [] us" using udev_loop_typed [OF u] b(8) by auto
  have net: "network_mode c \<in> insert VNone (VStr ` set NETWORK_MODES)"
    using v r(2) by (auto simp: validate_network_mode_def get_or_def dict_get_def NETWORK_MODES_def DEFAULT_NETWORK_MODE_def
        split: option.splits pyval.splits if_splits)
  have ver: "cfg_version c = SCHEMA_VERSION"
    using v r(1) version_one [of raw "cfg_version c"] by simp
  have "list_all (\<lambda>(k, v). k \<notin> set FIRST_CLASS_KEYS) (extras c)" using r(3) by (auto simp: list_all_iff)
  with ms vs res cross env_vars sys rules net ver b p v show ?thesis
    by (auto simp: config_ok_def validate_pip_packages_def validate_apt_packages_def validate_cargo_packages_def
        validate_npm_packages_def intro: pkg_section_ok)
qed

lemma from_dict_Inr:
  "from_dict doc = Inr c \<Longrightarrow> \<exists>raw. doc = VDict raw \<and> validate_doc doc = [] \<and> build_config raw = Inr c"
  by (auto simp: from_dict_def migrate_raw_def split: pyval.splits sum.splits if_splits option.splits)

lemma from_dict_ok: "from_dict doc = Inr c \<Longrightarrow> config_ok c"
  using from_dict_Inr build_config_ok by blast

lemma from_dict_network:
  assumes "from_dict (VDict raw) = Inr c"
  shows "network_mode c = get_or raw ''network_mode'' (VStr DEFAULT_NETWORK_MODE)"
  using from_dict_Inr [OF assms] by (auto simp: build_config_def res_bind_eq_Inr)

text \<open>
  A USB identifier of an accepted rule is four lower-case hexadecimal digits, with one
  newline after them at most: the expression ends in \<^verbatim>\<open>$\<close>.
\<close>

definition usb_id :: "string \<Rightarrow> bool" where
  "usb_id s \<longleftrightarrow> list_all is_hex (take 4 s) \<and> 4 \<le> length s \<and> drop 4 s \<in> {[], [newline]}"

lemma hexid_shape: "re_match UDEV_HEXID_RE s \<Longrightarrow> usb_id s"
  by (auto simp: re_match_def UDEV_HEXID_RE_def usb_id_def split: list.splits if_splits)

lemma rules_usb_ids: "config_ok c \<Longrightarrow> list_all (\<lambda>u. usb_id (rule_vid u) \<and> usb_id (rule_pid u)) (udev_rules c)"
  by (auto simp: config_ok_def rules_ok_def rule_ok_def list_all_iff intro: hexid_shape)

section \<open>And back\<close>

lemma foldl_dict_set_append:
  "distinct (map fst ex) \<Longrightarrow> fst ` set ex \<inter> fst ` set d = {} \<Longrightarrow>
   foldl (\<lambda>out (k, v). dict_set out k v) d ex = d @ ex"
proof (induction ex arbitrary: d)
  case (Cons kv ex)
  obtain k v where kv: "kv = (k, v)" by fastforce
  have new: "AList.update k v d = d @ [(k, v)]" if "k \<notin> fst ` set d" for d :: dict
    using that by (induction d) auto
  from Cons.prems kv have "foldl (\<lambda>out (k, v). dict_set out k v) (d @ [(k, v)]) ex = (d @ [(k, v)]) @ ex"
    by (intro Cons.IH) auto
  with kv new Cons.prems show ?case by (simp add: dict_set_def)
qed simp

lemma base_dict_keys: "fst ` set (base_dict c) \<subseteq> set FIRST_CLASS_KEYS"
  by (auto simp: base_dict_def FIRST_CLASS_KEYS_def)

lemma to_dict_append:
  assumes "config_ok c" "distinct (map fst (extras c))"
  shows "to_dict c = base_dict c @ extras c"
proof -
  have "fst ` set (extras c) \<inter> set FIRST_CLASS_KEYS = {}"
    using assms(1) by (auto simp: config_ok_def list_all_iff)
  then show ?thesis
    unfolding to_dict_def using assms(2) base_dict_keys by (intro foldl_dict_set_append) blast+
qed

lemma map_of_to_dict:
  assumes "config_ok c" "distinct (map fst (extras c))" "k \<in> set FIRST_CLASS_KEYS"
  shows "map_of (to_dict c) k = map_of (base_dict c) k"
proof -
  have "map_of (extras c) k = None"
    using assms(1,3) by (auto simp: config_ok_def list_all_iff map_of_eq_None_iff)
  then show ?thesis by (auto simp: to_dict_append [OF assms(1,2)] map_add_def split: option.splits)
qed

lemmas section_defs = validate_version_def validate_mounts_def validate_volumes_def validate_cross_path_collisions_def
  validate_reserved_paths_def validate_env_def validate_pip_packages_def validate_apt_packages_def validate_sysctl_def
  validate_cargo_packages_def validate_npm_packages_def validate_udev_rules_def array_section_def object_section_def

lemma res_map_dicts: "res_map mount_of (map mount_dict ms) = Inr ms" "res_map volume_of (map volume_dict vs) = Inr vs"
  by (induction ms, simp_all) (induction vs, simp_all)

lemma base_dict_lookups:
  "map_of (base_dict c) ''version'' = Some (VInt (cfg_version c))"
  "map_of (base_dict c) ''mounts'' = Some (VList (map mount_dict (mounts c)))"
  "map_of (base_dict c) ''volumes'' = Some (VList (map volume_dict (volumes c)))"
  "map_of (base_dict c) ''env'' = Some (str_items (env_vars c))"
  "map_of (base_dict c) ''pip_packages'' = Some (strs (pip_packages c))"
  "map_of (base_dict c) ''apt_packages'' = Some (strs (apt_packages c))"
  "map_of (base_dict c) ''sysctl'' = Some (str_items (sysctl c))"
  "map_of (base_dict c) ''cargo_packages'' = Some (strs (cargo_packages c))"
  "map_of (base_dict c) ''npm_packages'' = Some (strs (npm_packages c))"
  "map_of (base_dict c) ''udev_rules'' = Some (VList (map udev_dict (udev_rules c)))"
  "map_of (base_dict c) ''network_mode'' =
    (if network_mode c = VStr DEFAULT_NETWORK_MODE then None else Some (network_mode c))"
  by (simp_all add: base_dict_def)

lemma first_class [simp]:
  "''version'' \<in> set FIRST_CLASS_KEYS" "''mounts'' \<in> set FIRST_CLASS_KEYS" "''volumes'' \<in> set FIRST_CLASS_KEYS"
  "''env'' \<in> set FIRST_CLASS_KEYS" "''pip_packages'' \<in> set FIRST_CLASS_KEYS" "''apt_packages'' \<in> set FIRST_CLASS_KEYS"
  "''sysctl'' \<in> set FIRST_CLASS_KEYS" "''cargo_packages'' \<in> set FIRST_CLASS_KEYS" "''npm_packages'' \<in> set FIRST_CLASS_KEYS"
  "''udev_rules'' \<in> set FIRST_CLASS_KEYS" "''network_mode'' \<in> set FIRST_CLASS_KEYS"
  by (simp_all add: FIRST_CLASS_KEYS_def)

lemma to_dict_lookups:
  assumes "config_ok c" "distinct (map fst (extras c))" "k \<in> set FIRST_CLASS_KEYS"
  shows "dict_get (to_dict c) k = dict_get (base_dict c) k" "get_or (to_dict c) k v = get_or (base_dict c) k v"
    "dict_item (to_dict c) k = dict_item (base_dict c) k"
  using map_of_to_dict [OF assms] by (simp_all add: dict_get_def get_or_def dict_item_def)

lemma to_dict_valid:
  assumes ok: "config_ok c" and ex: "distinct (map fst (extras c))"
  shows "validate_doc (VDict (to_dict c)) = []"
proof -
  note l = to_dict_lookups(1) [OF ok ex] dict_get_def [of "base_dict c"] base_dict_lookups
  note k = ok [unfolded config_ok_def]
  have "validate_version (to_dict c) = []" using k by (simp add: section_defs l Let_def float_eq_def)
  moreover have "validate_mounts (to_dict c) = []" "validate_volumes (to_dict c) = []" "validate_udev_rules (to_dict c) = []"
    using k by (simp_all add: section_defs l cfg_loops)
  moreover have "validate_reserved_paths (to_dict c) = []" "validate_cross_path_collisions (to_dict c) = []"
    using k by (auto simp: section_defs l reserved_loop_Nil cross_loop_Nil mount_containers_dom list_all_iff)
  moreover have "validate_env (to_dict c) = []" "validate_sysctl (to_dict c) = []"
    using k env_items_back [of "env_vars c"] sysctl_items_back [of "sysctl c"]
    by (simp_all add: section_defs l str_items_def)
  moreover have "validate_pip_packages (to_dict c) = []" "validate_apt_packages (to_dict c) = []"
    "validate_cargo_packages (to_dict c) = []" "validate_npm_packages (to_dict c) = []"
    using k by (simp_all add: section_defs l strs_def cfg_loops)
  moreover have "validate_network_mode (to_dict c) = []"
    using k by (auto simp: validate_network_mode_def l)
  ultimately show ?thesis by (simp add: validate_doc_def)
qed

lemma to_dict_build:
  assumes ok: "config_ok c" and ex: "distinct (map fst (extras c))"
  shows "build_config (to_dict c) = Inr c"
proof -
  note l = to_dict_lookups [OF ok ex] get_or_def [of "base_dict c"] dict_item_def [of "base_dict c"] base_dict_lookups
  have "res_map udev_of (objects (map udev_dict (udev_rules c))) = Inr (udev_rules c)"
    using ok by (auto simp: config_ok_def intro: udev_of_dicts)
  moreover have "filter (\<lambda>(k, _). k \<notin> set FIRST_CLASS_KEYS) (to_dict c) = extras c"
  proof -
    have "filter (\<lambda>(k, _). k \<notin> set FIRST_CLASS_KEYS) (base_dict c) = []"
      using base_dict_keys [of c] by (fastforce simp: filter_empty_conv)
    moreover have "filter (\<lambda>(k, _). k \<notin> set FIRST_CLASS_KEYS) (extras c) = extras c"
      using ok by (simp add: config_ok_def list_all_iff filter_id_conv)
    ultimately show ?thesis by (simp add: to_dict_append [OF ok ex])
  qed
  ultimately show ?thesis by (simp add: build_config_def l res_map_dicts)
qed

lemma from_to_dict:
  assumes "config_ok c" "distinct (map fst (extras c))"
  shows "from_dict (VDict (to_dict c)) = Inr c"
proof -
  have "dict_get (to_dict c) ''version'' = VInt SCHEMA_VERSION"
    using to_dict_lookups(1) [OF assms, of "''version''"] assms(1) by (simp add: dict_get_def base_dict_lookups config_ok_def)
  then show ?thesis
    using to_dict_valid [OF assms] to_dict_build [OF assms]
    by (simp add: from_dict_def migrate_raw_def int_of_version_def)
qed

lemma from_dict_extras: "from_dict (VDict raw) = Inr c \<Longrightarrow> distinct (map fst raw) \<Longrightarrow> distinct (map fst (extras c))"
  using from_dict_Inr [of "VDict raw" c] by (auto simp: build_config_def res_bind_eq_Inr distinct_map_filter)

section \<open>Files\<close>

lemma save_load:
  assumes "config_ok c" "distinct (map fst (extras c))" "save io c s = (Inr (), s')"
  shows "load (target s') = Inr (Some c) \<and> read_applied_snapshot (target s') = Inr (Some c)"
  using assms from_to_dict [OF assms(1,2)]
  by (auto simp: save_def atomic_write_json_def replace_file_def load_def read_applied_snapshot_def split: if_splits)

end
