(* ===== verification/Box_Render_Laws.thy ===== *)
theory Box_Render_Laws
  imports Box_Config_Laws
begin

text \<open>
  Laws of the rendered artifacts: a shell that reads the rendered arrays gets exactly the
  arguments of the configuration, whatever characters they contain, and a start of the
  container uses the host network only after a confirmed or applied switch.
\<close>

section \<open>Quoting\<close>

lemma shell_safe_plain: "shell_safe c \<Longrightarrow> c \<noteq> CHR '' '' \<and> c \<noteq> squote \<and> c \<noteq> dquote"
  by (auto simp: shell_safe_def is_alnum_def is_az_def is_AZ_def is_digit_def)

lemma shell_bare: "list_all shell_safe s \<Longrightarrow> shell_step (Bare w) (s @ t) = shell_step (Bare (rev s @ w)) t"
  by (induction s arbitrary: w) (auto dest: shell_safe_plain)

lemma shell_single:
  "shell_step (InSingle w)
     (concat (map (\<lambda>c. if c = squote then [squote, dquote, squote, dquote, squote] else [c]) s) @ squote # t) =
   shell_step (Bare (rev s @ w)) t"
  by (induction s arbitrary: w) auto

lemma shell_quoted: "shell_step Between (shlex_quote s @ t) = shell_step (Bare (rev s)) t"
proof (cases "s = [] \<or> \<not> list_all shell_safe s")
  case True
  then show ?thesis using shell_single [of "[]" s t] by (auto simp: shlex_quote_def)
next
  case False
  then obtain c u where "s = c # u" "shell_safe c" "list_all shell_safe u" by (cases s) auto
  then show ?thesis using shell_safe_plain [of c] shell_bare [of u "[c]" t] False by (auto simp: shlex_quote_def)
qed

lemma shell_joined: "shell_step Between (join_words (map shlex_quote ws)) = Some ws"
proof (induction ws rule: join_words.induct)
  case (2 w)
  then show ?case using shell_quoted [of w "[]"] by simp
next
  case (3 w v ws)
  then show ?case using shell_quoted [of w "CHR '' '' # join_words (map shlex_quote (v # ws))"] by simp
qed simp

lemma shlex_quote_chars: "set (shlex_quote s) \<subseteq> set s \<union> {squote, dquote}"
  by (auto simp: shlex_quote_def)

lemma join_words_chars: "set (join_words ws) \<subseteq> (\<Union>w\<in>set ws. set w) \<union> {CHR '' ''}"
  by (induction ws rule: join_words.induct) auto

definition no_nul :: "string list \<Rightarrow> bool" where
  "no_nul ws \<longleftrightarrow> list_all (\<lambda>w. CHR 0x00 \<notin> set w) ws"

lemma shell_words_joined: "no_nul ws \<Longrightarrow> shell_words (join_words (map shlex_quote ws)) = Some ws"
proof -
  assume "no_nul ws"
  then have "CHR 0x00 \<notin> set (join_words (map shlex_quote ws))"
    using join_words_chars [of "map shlex_quote ws"] shlex_quote_chars by (fastforce simp: no_nul_def list_all_iff)
  then show ?thesis by (simp add: shell_words_def shell_joined)
qed

lemma shell_words_quoted: "CHR 0x00 \<notin> set s \<Longrightarrow> shell_words (shlex_quote s) = Some [s]"
  using shell_words_joined [of "[s]"] by (simp add: no_nul_def)

text \<open>
  A text assigns words to a shell array or a word to a shell variable.
\<close>

definition sets_array :: "string \<Rightarrow> string list \<Rightarrow> string \<Rightarrow> bool" where
  "sets_array name ws line \<longleftrightarrow> (\<exists>body. line = name @ ''=('' @ body @ '')'' @ [newline] \<and> shell_words body = Some ws)"

definition sets_scalar :: "string \<Rightarrow> string \<Rightarrow> string \<Rightarrow> bool" where
  "sets_scalar name w line \<longleftrightarrow> (\<exists>body. line = name @ ''='' @ body @ [newline] \<and> shell_words body = Some [w])"

lemma bash_array_sets: "no_nul ws \<Longrightarrow> sets_array name ws (bash_array name ws)"
  unfolding sets_array_def bash_array_def using shell_words_joined by blast

lemma bash_scalar_sets: "CHR 0x00 \<notin> set w \<Longrightarrow> sets_scalar name w (bash_scalar name w)"
  unfolding sets_scalar_def bash_scalar_def using shell_words_quoted by blast

section \<open>Networks\<close>

lemma effective_network_host:
  assumes "effective_network confirm desired applied = (n, p)"
  shows "(n = VStr ''host'' \<longrightarrow> desired = VStr ''host'' \<and> (confirm = Some ''1'' \<or>
      (\<exists>raw snap. applied = JsonDoc raw \<and> from_dict raw = Inr snap \<and> network_mode snap = VStr ''host''))) \<and>
    (if p = VStr [] then n = desired else p = desired \<and> n = VStr DEFAULT_NETWORK_MODE)"
proof -
  have "\<exists>raw snap. applied = JsonDoc raw \<and> from_dict raw = Inr snap \<and> network_mode snap = VStr ''host''"
    if "applied_network_mode applied = VStr ''host''"
    using that by (auto simp: applied_network_mode_def read_applied_snapshot_def DEFAULT_NETWORK_MODE_def
        split: sum.splits option.splits json_file.splits cfg_exc.splits)
  then show ?thesis
    using assms by (auto simp: effective_network_def DEFAULT_NETWORK_MODE_def split: if_splits)
qed

lemma network_strings:
  assumes "effective_network confirm (network_mode c) applied = (n, p)" "config_ok c" "network_mode c \<noteq> VNone"
  shows "\<exists>nw pw. n = VStr nw \<and> p = VStr pw \<and> nw \<in> set NETWORK_MODES \<and> CHR 0x00 \<notin> set nw \<and> CHR 0x00 \<notin> set pw"
proof -
  from assms(2,3) obtain d where "network_mode c = VStr d" "d = ''lagernet'' \<or> d = ''host''"
    by (auto simp: config_ok_def NETWORK_MODES_def)
  then have "effective_network confirm (VStr d) applied = (n, p)" "d \<in> {''lagernet'', ''host''}"
    using assms(1) by auto
  then have "n \<in> {VStr ''lagernet'', VStr ''host''}" "p \<in> {VStr [], VStr ''host''}"
    by (auto simp: effective_network_def DEFAULT_NETWORK_MODE_def split: if_splits)
  then show ?thesis by (auto simp: NETWORK_MODES_def)
qed

lemma render_body_sets:
  assumes "config_ok c" "network_mode c \<noteq> VNone" "no_nul (mount_args c)" "no_nul (env_args c)" "no_nul (map mhost (mounts c))"
  shows "\<exists>ms es hs ns ps nw pw. render_body confirm applied c = Inr (HEADER_ARGS @ ms @ es @ hs @ ns @ ps) \<and>
    effective_network confirm (network_mode c) applied = (VStr nw, VStr pw) \<and>
    sets_array ''BOX_CONFIG_MOUNTS'' (mount_args c) ms \<and> sets_array ''BOX_CONFIG_ENV'' (env_args c) es \<and>
    sets_array ''BOX_CONFIG_HOST_PATHS'' (map mhost (mounts c)) hs \<and>
    sets_scalar ''BOX_CONFIG_NETWORK'' nw ns \<and> sets_scalar ''BOX_CONFIG_NETWORK_PENDING'' pw ps"
proof -
  obtain n p where np: "effective_network confirm (network_mode c) applied = (n, p)" by fastforce
  from network_strings [OF np assms(1,2)] obtain nw pw where w: "n = VStr nw" "p = VStr pw"
    "CHR 0x00 \<notin> set nw" "CHR 0x00 \<notin> set pw" by blast
  have "render_body confirm applied c = Inr (HEADER_ARGS @ bash_array ''BOX_CONFIG_MOUNTS'' (mount_args c) @
      bash_array ''BOX_CONFIG_ENV'' (env_args c) @ bash_array ''BOX_CONFIG_HOST_PATHS'' (map mhost (mounts c)) @
      bash_scalar ''BOX_CONFIG_NETWORK'' nw @ bash_scalar ''BOX_CONFIG_NETWORK_PENDING'' pw)"
    using np w by (simp add: render_body_def quote_val_def)
  with np w show ?thesis
    using bash_array_sets [OF assms(3)] bash_array_sets [OF assms(4)] bash_array_sets [OF assms(5)]
      bash_scalar_sets [OF w(3)] bash_scalar_sets [OF w(4)] by blast
qed

section \<open>Null sections\<close>

text \<open>
  A section that is null passes validation but is not a default: building the configuration
  iterates over it and raises.
\<close>

lemma null_section_raises:
  "validate_doc (VDict [(''version'', VInt 1), (''mounts'', VNone)]) = [] \<and>
   from_dict (VDict [(''version'', VInt 1), (''mounts'', VNone)]) = Inl (Raised TypeError)"
proof -
  have v: "validate_doc (VDict [(''version'', VInt 1), (''mounts'', VNone)]) = []"
    by (simp add: validate_doc_def section_defs validate_network_mode_def SCHEMA_VERSION_def Let_def float_eq_def)
  moreover have "build_config [(''version'', VInt 1), (''mounts'', VNone)] = Inl TypeError"
    by (simp add: build_config_def get_or_def)
  ultimately show ?thesis
    by (simp add: from_dict_def migrate_raw_def int_of_version_def SCHEMA_VERSION_def)
qed

text \<open>A null network mode is accepted too, and so is a newline after a USB identifier.\<close>

lemma null_network_mode_accepted:
  "\<exists>c. from_dict (VDict [(''version'', VInt 1), (''network_mode'', VNone)]) = Inr c \<and> network_mode c = VNone"
proof -
  let ?raw = "[(''version'', VInt 1), (''network_mode'', VNone)]"
  have v: "validate_doc (VDict ?raw) = []"
    by (simp add: validate_doc_def section_defs validate_network_mode_def SCHEMA_VERSION_def Let_def float_eq_def)
  have "\<exists>c. build_config ?raw = Inr c"
    by (simp add: build_config_def get_or_def dict_item_def str_dict_def str_list_def)
  with v obtain c where "from_dict (VDict ?raw) = Inr c"
    by (auto simp: from_dict_def migrate_raw_def int_of_version_def SCHEMA_VERSION_def)
  with from_dict_network [OF this] show ?thesis by (auto simp: get_or_def)
qed

lemma null_network_mode_rendered:
  assumes "network_mode c = VNone"
  shows "\<exists>pre. render_body confirm applied c =
    Inr (pre @ bash_scalar ''BOX_CONFIG_NETWORK'' [] @ bash_scalar ''BOX_CONFIG_NETWORK_PENDING'' [])"
  using assms by (simp add: render_body_def effective_network_def quote_val_def)

lemma usb_id_newline_accepted: "re_match UDEV_HEXID_RE (''04d8'' @ [newline])"
  by code_simp

end
