(* ===== verification/Spec2Isabelle.thy ===== *)
theory Spec2Isabelle
  imports Device_Assign Breakpoint Driver_Deps Jcs_Props Job_Files Reap Binaries Driver_Store Lock_Interleaving Job_Lock Safety Hdlc Blufi_Client Quiesce Lscp Box_Render_Laws Nets_Store Erase_Range
    Run_Record_Props
begin

text \<open>
  Verification of the lager box software (\<^verbatim>\<open>box/lager\<close>, with the parts of \<^verbatim>\<open>cli\<close> that
  speak its protocols). A box is a small computer wired to a bench of instruments and a device
  under test. Clients reserve it through its lock, run jobs on it, and reach instruments
  through named nets; the box refuses settings that its owner has declared unsafe, and keeps a
  record of every run. This development models the parts that decide who has the box, what may
  be sent to an instrument, what is recorded of a run and what the client sees of it, when the
  bench is free again, how bytes are framed on serial and Bluetooth links and in captures, and
  how the container of the box is configured.

  \<^bold>\<open>Foundations.\<close> \<open>Lager_Prelude\<close>: Python values as \<open>json.load\<close> produces them,
  dictionaries with insertion order, exceptions as values of a sum type. \<open>Py_Builtins\<close>:
  strings, \<^verbatim>\<open>int()\<close>, \<^verbatim>\<open>float()\<close> with rounding to binary64. \<open>Py_Regex\<close>: the used part of
  \<^verbatim>\<open>re\<close> as a backtracking matcher, proved against the language of the expression.
  \<open>Py_Utf8\<close>: UTF-8 with its decoder. \<open>Crc16\<close>: the bitwise 16-bit register that both link protocols use. \<open>Atomic_File\<close>: the
  replacement of a file through a temporary one, each system call of which may fail.

  \<^bold>\<open>The lock.\<close> \<open>Iso_Time\<close> (time stamps), \<open>Lock_State\<close> (\<^verbatim>\<open>lock_state.py\<close>, and the
  endpoints of \<^verbatim>\<open>http_handlers/lock_handler.py\<close> and \<^verbatim>\<open>python/service.py\<close>): the lock file
  is a record, every system call that may fail is a flag of the environment of a request.
  \<open>Lock_Spec\<close> states the abstract lock and proves the refinement (C1), \<open>Lock_Runs\<close> the
  histories of requests (C4, C5), \<open>Lock_Interleaving\<close> the concurrent requests as an
  inductive step relation under the file guard, with serialisability, mutual exclusion and
  progress (C2, C3). \<open>Job_Lock\<close> (\<^verbatim>\<open>python/job_lock.py\<close>) is a client of the lock: its
  lemmas are proved in the locale \<open>lock_service\<close> and reach the code through its
  interpretation (C6, C7). The lemma \<open>lock_ports_agree\<close> compares the two ports.

  \<^bold>\<open>Interlocks and nets.\<close> \<open>Nets_Cache\<close> (\<^verbatim>\<open>cache.py\<close>) keeps the saved nets with their index; the
  locale \<open>net_store\<close> is what a client may rely on, and C11 shows that the cache answers as
  the file would. \<open>Safety\<close> (\<^verbatim>\<open>safety.py\<close>) is proved in that locale: ceilings, protection,
  call cap, unidentified nets and destructive operations (C8 to C10), and the NaN setpoint
  that passes. \<open>Nets_Store\<close> (\<^verbatim>\<open>nets/net.py\<close>) writes the saved nets through the cache and \<open>Scope_Migration\<close> (\<^verbatim>\<open>nets/scope_migration.py\<close>) converts old oscilloscope nets
  when they are read (C25).

  \<^bold>\<open>Assigned instruments.\<close> \<open>Serial_Id\<close> (\<^verbatim>\<open>devices/serial_id.py\<close>): addresses of serial cables, the connected cables as the tree of
  devices shows them, and the way from a saved identity to the tty it has now (C36). \<open>Device_Assign\<close>
  (\<^verbatim>\<open>devices/catalog.py\<close>, \<^verbatim>\<open>custom_store.py\<close>, \<^verbatim>\<open>assign.py\<close>): the assignment of cables to instruments of the catalogue, with the nets
  that go when an assignment goes, over the saved nets of \<open>Nets_Store\<close> (C35). The files of \<^verbatim>\<open>/sys\<close> and
  \<^verbatim>\<open>/dev\<close> are inputs, and a look at whether one of them exists does not fail.

  \<^bold>\<open>Links and captures.\<close> \<open>Hdlc\<close> (\<^verbatim>\<open>cli/simple_hdlc.py\<close>; C12), \<open>Blufi_Wire\<close> and
  \<open>Blufi_Client\<close> (\<^verbatim>\<open>blufi/\<close>; C13), \<open>Lscp\<close> (\<^verbatim>\<open>measurement/scope/lscp.py\<close>; C15), whose
  32-bit floats are rounded in \<open>Binary32\<close>.
  AES and MD5 are parameters; the hypothesis on the cipher is that decryption undoes
  encryption and keeps the length, as a stream mode does.

  \<^bold>\<open>Handing over.\<close> \<open>Quiesce\<close> (\<^verbatim>\<open>exec/quiesce.py\<close>): process trees read from
  \<^verbatim>\<open>/proc\<close>, the registry of processes being reaped and the wait for a clear bench (C14).
  A wait is run over the list of its polls; the lemma \<open>wait_bounded_and_honest\<close> says that it has answered once a poll
  falls on or after its deadline.

  \<^bold>\<open>Configuration.\<close> \<open>Box_Config\<close> (\<^verbatim>\<open>box_config/config.py\<close>: format checks, validator, typed
  configuration), \<open>Box_Render\<close> (its files and the \<^verbatim>\<open>render_*.py\<close> scripts),
  \<open>Box_Config_Laws\<close> and \<open>Box_Render_Laws\<close> (C16 to C18). A message of the validator is a
  constructor with the values it quotes. How a shell reads words is the definition
  \<open>shell_words\<close>, the part of POSIX quoting that the rendered text uses.

  \<^bold>\<open>Runs.\<close> \<open>Output_Stream\<close>: the frames in which \<^verbatim>\<open>exec/process.py\<close> sends a job's output, the
  client's parser of them (\<^verbatim>\<open>cli/core/matchers.py\<close>), the output channel and its decoder
  (\<^verbatim>\<open>core.py\<close>, \<^verbatim>\<open>cli/core/utils.py\<close>). \<open>Run_Record\<close> (\<^verbatim>\<open>python/run_record.py\<close>): the store of
  records as a record of maps, one definition per operation with the failures of its file
  operations as inputs. \<open>Run_Record_Laws\<close> holds the laws of the operations,
  \<open>Run_Record_Runs\<close> the step relation of a box that accepts, logs, finishes, cancels,
  crashes and sweeps runs in any order, with its invariant, \<open>Run_Record_Facts\<close> the facts on
  assertions, fetches and logs, and \<open>Run_Record_Props\<close> the properties C19 to C23: no accepted
  run is lost; retained bytes are the hashed bytes of a file that did not change between the
  two reads of it, and of one that did the step relation records both; client and box agree on
  the log as long as its writes succeed. The collector may discard bytes at any moment.

  \<^bold>\<open>Canonical JSON.\<close> \<open>Binary64\<close>: rounding to binary64, and that the shortest decimal of a float,
  of at most 17 digits, is read back as the float. \<open>Jcs\<close> (\<^verbatim>\<open>util/jcs.py\<close>): the bytes under the hashes
  of run records. \<open>Jcs_Laws\<close> holds the laws of written numbers, \<open>Jcs_Props\<close> a reader of JSON and the
  properties C26 and C27.

  \<^bold>\<open>Jobs.\<close> \<open>Reap\<close> (\<^verbatim>\<open>exec/process.py\<close>, \<^verbatim>\<open>python/executor.py\<close>): the wait for an interrupted script,
  the escalation of signals and the kill of a job found through \<^verbatim>\<open>/proc\<close>, as the list of its calls in their order
  (C30, C31), inside the registry of \<open>Quiesce\<close>. \<open>Job_Files\<close>: the log and the
  status file of a detached job, written by its thread through a buffered file and read by a
  reattached client in any interleaving (C28, C29). \<open>Job_Ids\<close>
  (\<^verbatim>\<open>python/executor.py\<close>): the id of a job, its directory, its argument vector and its environment block.
  \<open>Job_Service\<close> (\<^verbatim>\<open>python/service.py\<close>): an upload from its multipart fields to the accepted run, its
  record and its registry entry, and the kill and attach requests (C32, C33).
  \<open>Breakpoint\<close> (\<^verbatim>\<open>breakpoint.py\<close>): a paused script and continue requests as a step relation
  over the two files they share, each call of which may fail (C34).

  \<^bold>\<open>Files of requests and custom drivers.\<close> \<open>Py_Path\<close>: the path functions of \<^verbatim>\<open>posixpath\<close>, and what
  a test for a directory prefix shows of a normalised path. \<open>Binaries\<close>
  (\<^verbatim>\<open>binaries/store.py\<close>; C37). \<open>Py_Repr\<close>: \<^verbatim>\<open>str\<close> and \<^verbatim>\<open>repr\<close> of a float. \<open>Driver_Manifest\<close>
  (\<^verbatim>\<open>drivers/manifest.py\<close>): the manifest of a custom driver and the check of the arguments of
  a call (C38). \<open>Driver_Store\<close> (\<^verbatim>\<open>drivers/registry.py\<close>, \<^verbatim>\<open>loader.py\<close>): unpacking and
  installing bundles, with the writes of an extraction that fails, and resolving a custom net to its driver, parameters and base nets
  (C39). \<open>Driver_Deps\<close> (\<^verbatim>\<open>drivers/deps.py\<close>): the
  requirements of a bundle, the lock file that pip is given and the exchange of the installed packages
  (C40); the parser of one requirement (\<^verbatim>\<open>packaging\<close>) is a parameter.

  \<^bold>\<open>Erasing.\<close> \<open>Erase_Range\<close> (\<^verbatim>\<open>debug/erase_bounds.py\<close> and its users in \<^verbatim>\<open>debug/\<close>): the range of
  a flash erase from the request to the backend (C24).

  \<^bold>\<open>Bounds.\<close> Clocks are integers of microseconds; the statements on time stamps hold for
  1970 to 9999, what four-digit years can hold. Strings are of code points 0 to 255. The
  loops of the modelled code are recursive functions proved to terminate, except the decoder
  of the output channel: it runs on fuel, of which one turn more than there are objects is
  enough when every object is whole, and C22 shows that no fuel is enough when one is not.

  \<^bold>\<open>Not modelled.\<close> The transport of requests (Flask, sockets), the start of
  subprocesses (unpacking of uploads, pip, Popen), the decoder of multipart bodies (a parameter), the description of box and code inside a run
  record (inputs of the model), the
  process of a custom driver, debugger sessions, instrument drivers (SCPI and vendor
  libraries), the command line and its terminal interfaces, floating-point conversions of
  captures (numpy), Bluetooth connections (bleak), and the text of log and error messages.
\<close>

section \<open>The box lock\<close>

text \<open>
  C1. Functional refinement. On a well-formed lock file, with no system call failing and a
  clock of the years 1970 to 9999, every lock request that passes the argument checks
  answers and changes the file exactly as the abstract lock (holder, kind, last heartbeat,
  time to live) prescribes, and leaves a well-formed file.
\<close>

theorem lock_refines_spec:
  assumes "lock_wf fs" and "clock_ok ts" and "abs_req r = Some a"
  shows "\<exists>st b fs'. exec_req io_good tc ts r fs = (Inr (st, b), fs') \<and>
    spec_step tc ts a (abs_state fs) = (st, abs_state fs') \<and> lock_wf fs'"
  using assms by (rule exec_req_refines)

definition empty_fs :: lockfs where
  "empty_fs = \<lparr>lock_json = Missing, tmp_files = 0\<rparr>"

lemma empty_fs_wf [simp]: "lock_wf empty_fs"
  by (simp add: empty_fs_def lock_wf_def read_lock_raw_def)

lemma clock_0 [simp]: "clock_ok 0"
  by code_simp

lemma norm_legacy [simp]: "norm_request None None = Inr (''user'', None)"
  by (simp add: norm_request_def)

theorem lock_refines_spec_witness:
  "\<exists>st b fs'. exec_req io_good 0 0 (Acquire (VStr ''ann'') None None) empty_fs = (Inr (st, b), fs') \<and>
    spec_step 0 0 (AAcquire (VStr ''ann'') ''user'' None) (abs_state empty_fs) = (st, abs_state fs') \<and>
    lock_wf fs'"
  by (rule lock_refines_spec) simp_all

text \<open>
  C2. Serialisability. Whatever the order in which concurrent lock requests interleave, when
  the guard is free the lock file and all answers given so far are those of running the
  answered requests one after the other, each once, in the order they were answered.
\<close>

theorem lock_serialisable:
  assumes "(lstep jobs)\<^sup>*\<^sup>* (idle_world fs0) w" and "guard w = None"
  shows "run (map (\<lambda>(p, _). jobs p) (hist w)) fs0 = (map snd (hist w), fsys w) \<and>
    distinct (map fst (hist w)) \<and> (\<forall>p x. (procs w p = Done x) = ((p, x) \<in> set (hist w)))"
  using serial_inv_reachable [OF assms(1)] assms(2)
  by (auto simp: serial_inv_def seq_run_def done_ok_def intro: prod_eqI)

text \<open>Two requests for the same reservation, one after the other.\<close>

definition ann_jobs :: "nat \<Rightarrow> event" where
  "ann_jobs p = (io_good, 0, 0, lock_cmd ''ann'')"

definition ann_lock :: dict where
  "ann_lock = fresh_lock (VStr ''ann'') ''user'' None 0"

definition ann_fs :: lockfs where
  "ann_fs = \<lparr>lock_json = JsonDoc (VDict ann_lock), tmp_files = 0\<rparr>"

definition ann_reply :: "pyval \<Rightarrow> reply res" where
  "ann_reply prev = Inr (200, Obj (dict_set ann_lock ''previous_user'' prev))"

definition ann_world :: world where
  "ann_world = (idle_world empty_fs)\<lparr>fsys := ann_fs,
     procs := (procs (idle_world empty_fs))(0 := Done (ann_reply VNone), 1 := Done (ann_reply (VStr ''ann''))),
     hist := [(0, ann_reply VNone), (1, ann_reply (VStr ''ann''))]\<rparr>"

lemma ann_refreshed: "refreshed ann_lock (VStr ''ann'') ''user'' None 0 = ann_lock"
  by (simp add: refreshed_def ann_lock_def fresh_lock_def is_auto_def dict_set_def)

lemma ann_reachable: "(lstep ann_jobs)\<^sup>*\<^sup>* (idle_world empty_fs) ann_world"
proof -
  let ?w1 = "(idle_world empty_fs)\<lparr>fsys := ann_fs,
    procs := (procs (idle_world empty_fs))(0 := Done (ann_reply VNone)),
    hist := hist (idle_world empty_fs) @ [(0, ann_reply VNone)]\<rparr>"
  have "(lstep ann_jobs)\<^sup>*\<^sup>* (idle_world empty_fs) ?w1"
    by (rule solo [where io = io_good and tc = 0 and ts = 0 and r = "lock_cmd ''ann''" and ex = None and ?fs1.0 = empty_fs])
      (simp_all add: idle_world_def ann_jobs_def read_lock_def read_lock_raw_def empty_fs_def put_def
        write_lock_def ann_fs_def ann_reply_def ann_lock_def Let_def)
  moreover have "(lstep ann_jobs)\<^sup>*\<^sup>* ?w1 (?w1\<lparr>fsys := ann_fs, procs := (procs ?w1)(1 := Done (ann_reply (VStr ''ann''))),
      hist := hist ?w1 @ [(1, ann_reply (VStr ''ann''))]\<rparr>)"
    by (rule solo [where io = io_good and tc = 0 and ts = 0 and r = "lock_cmd ''ann''" and ex = "Some ann_lock" and ?fs1.0 = ann_fs])
      (simp_all add: idle_world_def ann_jobs_def read_lock_def read_lock_raw_def put_def ann_refreshed
        write_lock_def ann_fs_def ann_reply_def Let_def, simp_all add: ann_lock_def fresh_lock_def is_expired_def)
  moreover have "?w1\<lparr>fsys := ann_fs, procs := (procs ?w1)(1 := Done (ann_reply (VStr ''ann''))),
      hist := hist ?w1 @ [(1, ann_reply (VStr ''ann''))]\<rparr> = ann_world"
    by (simp add: ann_world_def idle_world_def)
  ultimately show ?thesis by (metis rtranclp_trans)
qed

theorem lock_serialisable_witness:
  "run [ann_jobs 0, ann_jobs 1] empty_fs = ([ann_reply VNone, ann_reply (VStr ''ann'')], ann_fs)"
proof -
  have "guard ann_world = None" by (simp add: ann_world_def idle_world_def)
  from lock_serialisable [OF ann_reachable this] show ?thesis
    by (simp add: ann_world_def idle_world_def)
qed

text \<open>
  C3. Mutual exclusion of reservations. When any number of clients concurrently ask for a
  reservation of a free box, under any interleaving and any failures of system calls, two
  requests that are both granted are of the same user.
\<close>

theorem one_reservation_granted:
  assumes "(lstep jobs)\<^sup>*\<^sup>* (idle_world fs0) w" and "read_lock_raw fs0 = Inr None"
    and "\<And>p. lock_user (jobs p) \<noteq> None"
    and "procs w p = Done x" "granted x" "procs w q = Done y" "granted y"
  shows "lock_user (jobs p) = lock_user (jobs q)"
  using one_reservation [OF serial_inv_reachable [OF assms(1)] assms(2-)] .

theorem one_reservation_granted_witness:
  "lock_user (ann_jobs 0) = lock_user (ann_jobs 1)"
proof (rule one_reservation_granted [OF ann_reachable])
  show "read_lock_raw empty_fs = Inr None" by (simp add: empty_fs_def read_lock_raw_def)
  show "procs ann_world 0 = Done (ann_reply VNone)" "procs ann_world 1 = Done (ann_reply (VStr ''ann''))"
    by (simp_all add: ann_world_def idle_world_def)
qed (simp_all add: ann_jobs_def granted_def ann_reply_def)

text \<open>
  C4. Invariant under faults. Any history of requests, with any system call failing at any
  point, takes a well-formed lock file to a well-formed one: the stored record always names
  a holder, a kind, a readable heartbeat in UTC and a time to live of at least one second or
  none.
\<close>

theorem lock_file_stays_wf:
  assumes "lock_wf fs" and "clocks_ok es"
  shows "lock_wf (snd (run es fs))"
  using assms by (rule run_wf)

theorem lock_file_stays_wf_witness:
  "lock_wf (snd (run [(io_good\<lparr>replace_ok := False\<rparr>, 0, 0, Acquire (VStr ''ann'') None None),
     (io_good, 0, 0, Acquire (VStr ''bob'') (Some (VStr ''ci'')) (Some (VInt 0)))] empty_fs))"
  by (rule lock_file_stays_wf) (simp_all add: clocks_ok_def)

text \<open>
  C5. A reservation persists. A record without time to live that is not an automatic lock
  stays its holder's through any history of requests, whatever fails, except when the
  holder unlocks or somebody forces an unlock.
\<close>

theorem reservation_survives:
  assumes "reserved u fs" and "list_all (\<lambda>(io, tc, ts, r). keeps u r) es"
  shows "reserved u (snd (run es fs))"
  using assms by (rule reserved_run)

lemma ann_reserved: "reserved ''ann'' ann_fs"
  by (simp add: reserved_def ann_fs_def read_lock_raw_def ann_lock_def fresh_lock_def is_auto_def)

theorem reservation_survives_witness:
  "reserved ''ann'' (snd (run [(io_good, 9999999999999999, 0, Acquire (VStr ''bob'') None None),
     (io_good, 0, 0, Release (VStr ''bob'') False)] ann_fs))"
  by (rule reservation_survives [OF ann_reserved]) (simp add: keeps_def)

text \<open>
  Requests of others. While a lock is live, a request of another client other than a
  status query or a forced unlock is not answered 200 and leaves the file as it is, also
  when system calls fail.
\<close>

lemma foreign_request_refused:
  assumes "live tc fs d" and "\<not> py_eq (dict_get d ''user'') (req_user r)" and "\<not> is_forced r"
    and "r \<noteq> Status" and "exec_req io tc ts r fs = (x, fs')"
  shows "fs' = fs \<and> (\<forall>b. x \<noteq> Inr (200, b))"
  using assms by (rule foreign_request_frame)

text \<open>
  Atomic replacement. A write of the lock file that fails at any system call leaves the
  previous content, one that succeeds leaves exactly the new record, and a temporary file is
  left behind only when its removal fails too.
\<close>

lemma lock_write_atomic:
  "case write_lock io d fs of
     (Inr _, fs') \<Rightarrow> lock_json fs' = JsonDoc (VDict d) \<and> tmp_files fs' = tmp_files fs
   | (Inl _, fs') \<Rightarrow> lock_json fs' = lock_json fs \<and>
       tmp_files fs' = tmp_files fs + (if mkdirs_ok io \<and> mkstemp_ok io \<and> \<not> rmtmp_ok io then 1 else 0)"
  by (auto simp: write_lock_def Let_def)

text \<open>
  C6. Heartbeats keep a lock. Take a history in which every request is a heartbeat of the
  holder, a status query, or an unforced request of another user (so the holder does not
  release or reacquire, and nobody forces an unlock), and no request comes later than the
  time to live after the holder's last successful heartbeat. Then every heartbeat whose
  system calls succeed is answered 200, a failing one is an error that leaves the lock as it
  was, no other client gets a 200, whichever of its calls fail, and the holder still has the
  lock at the end, beaten at the last successful heartbeat's second.
\<close>

theorem heartbeats_keep_lock:
  assumes "held u n t fs" and "timely u n t es" and "u \<noteq> []"
  shows "list_all2 (answer_ok u) es (fst (run es fs)) \<and> held u n (last_beat u t es) (snd (run es fs))"
  using assms by (rule held_run)

definition ci_fs :: lockfs where
  "ci_fs = \<lparr>lock_json = JsonDoc (VDict (fresh_lock (VStr ''ann'') ''ci'' (Some 60) 0)), tmp_files = 0\<rparr>"

lemma ci_held: "held ''ann'' 60 0 ci_fs"
proof -
  let ?d = "fresh_lock (VStr ''ann'') ''ci'' (Some 60) 0"
  have wf: "wf_lock ?d" "abs_lock ?d = \<lparr>aholder = VStr ''ann'', akind = ''ci'', abeat = whole_second 0, attl = Some 60\<rparr>"
    using fresh_lock_wf [of "VStr ''ann''" "''ci''" "Some 60" 0] by (simp_all add: norm_ok_def)
  moreover have "read_lock_raw ci_fs = Inr (Some ?d)"
    by (simp add: ci_fs_def read_lock_raw_def fresh_lock_def)
  ultimately show ?thesis by (simp add: held_def lock_wf_def abs_state_def whole_second_def)
qed

theorem heartbeats_keep_lock_witness:
  "held ''ann'' 60 (50 * usec) (snd (run [(io_good, 50 * usec, 50 * usec, Heartbeat (VStr ''ann'')),
     (io_good\<lparr>replace_ok := False\<rparr>, 80 * usec, 80 * usec, Heartbeat (VStr ''ann'')),
     (io_good, 100 * usec, 100 * usec, Acquire (VStr ''bob'') None None)] ci_fs))"
proof -
  let ?es = "[(io_good, 50 * usec, 50 * usec, Heartbeat (VStr ''ann'')),
     (io_good\<lparr>replace_ok := False\<rparr>, 80 * usec, 80 * usec, Heartbeat (VStr ''ann'')),
     (io_good, 100 * usec, 100 * usec, Acquire (VStr ''bob'') None None)]"
  have "timely ''ann'' 60 0 ?es"
    by (simp add: timely_event_def beats_def next_beat_def io_writes_def clock_ok_def whole_second_def usec_def)
  from heartbeats_keep_lock [OF ci_held this] show ?thesis
    by (simp add: next_beat_def beats_def io_writes_def whole_second_def usec_def)
qed

text \<open>
  No request is stuck. In every reachable state of the interleaved requests, as long as
  one request is unanswered some step is possible: the guard is always given back.
\<close>

lemma lock_requests_progress:
  assumes "(lstep jobs)\<^sup>*\<^sup>* (idle_world fs0) w" and "\<forall>x. procs w p \<noteq> Done x"
  shows "\<exists>w'. lstep jobs w w'"
  using not_stuck [OF serial_inv_reachable [OF assms(1)]] assms(2) by blast

text \<open>
  C7. A detached job touches only its own lock. While somebody else's lock is live,
  nothing the job does (start, heartbeat, stop with or without release) changes the lock
  file.
\<close>

theorem job_leaves_foreign_lock:
  assumes "\<forall>e \<in> fst ` set ops. live_holder e fs = Some v \<and> \<not> py_eq v h"
  shows "snd (job_run hb_call rel_call ops (Job_Lock.init h, fs)) = fs"
  by (rule box_lock.run_foreign [where v = v]) (use assms in \<open>auto simp: Job_Lock.init_def\<close>)

theorem job_leaves_foreign_lock_witness:
  "snd (job_run hb_call rel_call [((io_good, 5, 5), JStart), ((io_good, 5, 5), JWait),
     ((io_good, 6, 6), JBeat), ((io_good, 7, 7), JStop True)] (Job_Lock.init (VStr ''bob''), ann_fs)) = ann_fs"
  by (rule job_leaves_foreign_lock [where v = "VStr ''ann''"])
    (simp add: ann_fs_def read_lock_raw_def ann_lock_def fresh_lock_def is_expired_def)

text \<open>
  A detached job stops rather than fights. After a heartbeat the timer goes on only
  when the live lock was the job's own; otherwise the thread has ended, and from then on only
  a releasing stop touches the lock file.
\<close>

lemma job_stops_when_lost:
  assumes "thread j = Beating" and "run_beat (hb_call e) j fs = (j', fs')"
  shows "if thread j' = Ended
    then \<forall>ops. list_all (\<lambda>(e, jo). jo \<noteq> JStop True) ops \<longrightarrow> snd (job_run hb_call rel_call ops (j', fs')) = fs'
    else \<exists>v. live_holder e fs = Some v \<and> py_eq v (holder j)"
proof (cases "thread j' = Ended")
  case True
  with ended_run [OF True, of _ hb_call rel_call fs'] show ?thesis by simp
next
  case False
  with box_lock.beat_continues [OF assms False] show ?thesis by simp
qed

text \<open>
  Time stamps read back. The text that is written for a clock between 1970 and 9999 is
  parsed as the same second in UTC, which is what expiry is measured from.
\<close>

lemma timestamp_round_trip:
  assumes "clock_ok t"
  shows "parse_iso (VStr (now_utc_iso t)) = Inr (Some (Aware (t - t mod usec)))"
  using assms by (rule parse_iso_now_utc_iso)

text \<open>
  Both ports agree. For an empty body or a JSON object, the lock endpoints on ports 5000
  and 9000 leave the same file and give the same status; on the three POST routes the
  whole answer is the same. The hypotheses are Flask's documented \<^verbatim>\<open>get_json(silent=True)\<close>:
  no body gives \<^verbatim>\<open>None\<close>, a JSON body its value.
\<close>

lemma lock_ports_agree:
  assumes "get_json NoBody = None" and "\<And>v. get_json (JsonBody v) = Some v"
    and "b = NoBody \<or> (\<exists>d. b = JsonBody (VDict d))"
  shows "snd (lock_routes_9000 get_json io tc ts r b fs) = snd (lock_routes_5000 io tc ts r b fs) \<and>
    map_sum id fst (fst (lock_routes_9000 get_json io tc ts r b fs)) =
      map_sum id fst (fst (lock_routes_5000 io tc ts r b fs)) \<and>
    (r \<noteq> GetLock \<longrightarrow> lock_routes_9000 get_json io tc ts r b fs = lock_routes_5000 io tc ts r b fs)"
proof (cases "r = GetLock")
  case True
  then show ?thesis
    by (auto simp: lock_routes_9000_def lock_routes_5000_def lock_reply_def split: prod.splits sum.splits)
next
  case False
  have "parse_lock_body get_json b = lock_request_body b"
    using assms by (auto simp: parse_lock_body_def lock_request_body_def)
  with False show ?thesis by (simp add: lock_routes_9000_def lock_routes_5000_def)
qed

definition sample_get_json :: "http_body \<Rightarrow> pyval option" where
  "sample_get_json b = (case b of JsonBody v \<Rightarrow> Some v | _ \<Rightarrow> None)"

section \<open>Safety interlocks and the nets cache\<close>

text \<open>
  C8. Ceilings hold on the hard tier. For a request that names a saved net, a setpoint
  whose absolute value exceeds the configured ceiling is refused with that ceiling and that
  value, whatever else the request carries, and does not count against the call cap.
\<close>

theorem over_limit_refused:
  assumes "coherent f c" and "dict_get d ''name'' = VStr n" "n \<noteq> []"
    and "role_of (last_named n (file_nets f)) = Some role" "limits_of (last_named n (file_nets f)) = Some l"
    and "map_of VALUE_LIMITS (role, fn) = Some key" and "map_of PROTECTION_OFF fn = None" and "role \<noteq> []"
    and "is_number (dict_get l key)" "py_float (dict_get l key) = Inr (Fin m)"
    and "extract_value args kwargs = Inr (Some (Fin v))" "m < \<bar>v\<bar>"
  shows "\<exists>c'. check_invocation nets_cache_access env now (\<lambda>_. f) (VDict d) fn args kwargs \<lparr>cache = c, rates = rs\<rparr> =
    (Inl (SafetyViolation n key (Fin m) (Fin v) fn), \<lparr>cache = c', rates = rs\<rparr>)"
proof -
  have g: "is_guarded (Some role) fn" using assms(6,8) by (simp add: is_guarded_def)
  have "check_values n fn role l args kwargs = Inl (SafetyViolation n key (Fin m) (Fin v) fn)"
    using assms(6,7,9-) by (simp add: check_values_def raised_def enforce_def Let_def)
  with cache_store.check_decides [OF assms(1,3,4) g assms(5), of env now args kwargs rs] show ?thesis
    unfolding cache_store.invocation_named [OF assms(2,3)] by auto
qed

definition vdd_net :: dict where
  "vdd_net = [(''name'', VStr ''vdd''), (''role'', VStr ''power-supply''),
     (''address'', VStr ''USB0''), (''safety_limits'', VDict [(''max_voltage'', VInt 4), (''allow_destructive'', VBool False)])]"

definition vdd_file :: nets_file where
  "vdd_file = \<lparr>fstat = MTime 5, fdoc = JsonDoc (VList [VDict vdd_net])\<rparr>"

lemma vdd_coherent: "coherent vdd_file init_cache"
  by (simp add: coherent_def file_ok_def vdd_file_def init_cache_def file_nets_def records_ok_def vdd_net_def)

lemma vdd_record [simp]: "last_named ''vdd'' (file_nets vdd_file) = Some vdd_net"
  by (simp add: last_named_def file_nets_def vdd_file_def named_def vdd_net_def)

lemma vdd_role [simp]: "role_of (Some vdd_net) = Some ''power-supply''"
  by (simp add: role_of_def vdd_net_def)

lemma vdd_limits [simp]:
  "limits_of (Some vdd_net) = Some [(''max_voltage'', VInt 4), (''allow_destructive'', VBool False)]"
  by (simp add: limits_of_def vdd_net_def)

lemma four_exact: "to_binary64 (of_int 4) = Fin 4" "to_binary64 (of_int 24) = Fin 24"
  using to_binary64_int [of 4] to_binary64_int [of 24] by simp_all

lemma voltage_limit [simp]: "map_of VALUE_LIMITS (''power-supply'', ''voltage'') = Some ''max_voltage''"
  "map_of PROTECTION_OFF ''voltage'' = None"
  by (simp_all add: VALUE_LIMITS_def PROTECTION_OFF_def)

theorem over_limit_refused_witness:
  "fst (check_invocation nets_cache_access Map.empty 0 (\<lambda>_. vdd_file)
     (VDict [(''name'', VStr ''vdd''), (''safety_limits'', VDict [])]) ''voltage'' (VList [VInt (- 24)]) VNone
     \<lparr>cache = init_cache, rates = Map.empty\<rparr>) =
   Inl (SafetyViolation ''vdd'' ''max_voltage'' (Fin 4) (Fin (- 24)) ''voltage'')"
proof -
  let ?d = "[(''name'', VStr ''vdd''), (''safety_limits'', VDict [])]"
  have v: "extract_value (VList [VInt (- 24)]) VNone = Inr (Some (Fin (- 24)))"
    using to_binary64_int [of "- 24"] by (simp add: extract_value_def coerce_float_def)
  have l: "is_number (dict_get [(''max_voltage'', VInt 4), (''allow_destructive'', VBool False)] ''max_voltage'')"
    "py_float (dict_get [(''max_voltage'', VInt 4), (''allow_destructive'', VBool False)] ''max_voltage'') = Inr (Fin 4)"
    using four_exact by (simp_all add: is_number_def)
  from over_limit_refused [OF vdd_coherent, of ?d "''vdd''" "''power-supply''" _ "''voltage''" "''max_voltage''" 4
      "VList [VInt (- 24)]" VNone "- 24" Map.empty 0 Map.empty] l v
  show ?thesis by auto
qed

text \<open>
  C9. Exact decision. A guarded command on a net with limits passes the hard tier if and only
  if it turns off no protection behind a configured ceiling, its setpoint and both inline
  trips stay within the ceilings, and the call cap of the net and command is not exceeded.
\<close>

theorem passes_iff_within_limits:
  assumes "coherent f c" and "dict_get d ''name'' = VStr n" "n \<noteq> []"
    and "role_of (last_named n (file_nets f)) = Some role" "limits_of (last_named n (file_nets f)) = Some l"
    and "is_guarded (Some role) fn"
  shows "fst (check_invocation nets_cache_access env now (\<lambda>_. f) (VDict d) fn args kwargs
      \<lparr>cache = c, rates = rs\<rparr>) = Inr () \<longleftrightarrow>
    within_limits fn role l args kwargs \<and>
    (fn \<in> set RATE_LIMITED_FUNCTIONS \<longrightarrow> fst (check_rate env now n fn rs) = Inr ())"
proof -
  obtain c' where "check_invocation nets_cache_access env now (\<lambda>_. f) (VDict d) fn args kwargs \<lparr>cache = c, rates = rs\<rparr> =
      (case check_values n fn role l args kwargs of
         Inl x \<Rightarrow> (Inl x, \<lparr>cache = c', rates = rs\<rparr>)
       | Inr _ \<Rightarrow> if fn \<in> set RATE_LIMITED_FUNCTIONS
           then (fst (check_rate env now n fn rs), \<lparr>cache = c', rates = snd (check_rate env now n fn rs)\<rparr>)
           else (Inr (), \<lparr>cache = c', rates = rs\<rparr>))"
    using cache_store.check_decides [OF assms(1,3,4,6,5)]
    unfolding cache_store.invocation_named [OF assms(2,3)] by blast
  then show ?thesis
    unfolding check_values_Inr [of n, symmetric] by (auto split: sum.splits)
qed

theorem passes_iff_within_limits_witness:
  "fst (check_invocation nets_cache_access Map.empty 0 (\<lambda>_. vdd_file) (VDict [(''name'', VStr ''vdd'')])
      ''voltage'' (VList [VInt 4]) (VDict [(''ovp'', VInt 24)]) \<lparr>cache = init_cache, rates = Map.empty\<rparr>) \<noteq> Inr ()"
proof -
  have "is_guarded (Some ''power-supply'') ''voltage''" by (simp add: is_guarded_def)
  moreover have "\<not> within_limits ''voltage'' ''power-supply''
      [(''max_voltage'', VInt 4), (''allow_destructive'', VBool False)] (VList [VInt 4]) (VDict [(''ovp'', VInt 24)])"
    using four_exact
    by (simp add: within_limits_def obeys_def trip_value_def coerce_float_def is_number_def)
  ultimately show ?thesis
    using passes_iff_within_limits [OF vdd_coherent, of "[(''name'', VStr ''vdd'')]" "''vdd''" "''power-supply''"
        _ "''voltage''" Map.empty 0 "VList [VInt 4]" "VDict [(''ovp'', VInt 24)]" Map.empty] by auto
qed

text \<open>
  A request cannot carry its own limits. Two requests that agree on \<^verbatim>\<open>name\<close>,
  \<^verbatim>\<open>address\<close> and \<^verbatim>\<open>channel\<close> are decided the same way, with the same effect on the cache
  and the counters.
\<close>

lemma request_carries_no_limits:
  assumes "\<And>k. k \<in> {''name'', ''address'', ''channel''} \<Longrightarrow> dict_get d k = dict_get d' k"
  shows "check_invocation nets_cache_access env now rd (VDict d) fn args kwargs st =
    check_invocation nets_cache_access env now rd (VDict d') fn args kwargs st"
  using assms by (rule check_invocation_keys)

text \<open>
  C10. The call cap is exact. Counting from a call that opens a window, of the calls that
  fall into that window exactly the first \<^verbatim>\<open>LAGER_SAFETY_RATE_MAX\<close> pass.
\<close>

theorem rate_cap_exact:
  assumes "case rs (net, fn) of None \<Rightarrow> True | Some (ws, k) \<Rightarrow> window_over (rate_window_seconds env) t ws"
    and "same_window env t ts"
  shows "fst (rate_run env net fn (t # ts) rs) =
    map (\<lambda>i. int i < rate_max_calls env) [0..<Suc (length ts)]"
  using assms by (rule rate_run_opens)

definition rate_env :: "string \<Rightarrow> string option" where
  "rate_env = [''LAGER_SAFETY_RATE_MAX'' \<mapsto> ''2'']"

theorem rate_cap_exact_witness:
  "fst (rate_run rate_env ''vdd'' ''voltage'' [0, 1, 2] Map.empty) = [True, True, False]"
proof -
  have "rate_max_calls rate_env = 2" by code_simp
  moreover have "same_window rate_env 0 [1, 2]"
    using to_binary64_int [of 1] to_binary64_int [of 2]
    by (simp add: same_window_def window_over_def rate_window_seconds_def env_float_def rate_env_def float_ge_def float_eq_def)
  ultimately show ?thesis
    using rate_cap_exact [where rs = Map.empty and net = "''vdd''" and fn = "''voltage''" and env = rate_env
        and t = 0 and ts = "[1, 2]"] by (simp add: upt_rec)
qed

text \<open>
  Unidentified nets. A command that could be guarded on some net, sent without anything
  that identifies its net, is refused exactly when some saved net declares limits.
\<close>

lemma unidentified_refused:
  assumes "coherent f c" and "fn \<in> set POSSIBLY_GUARDED_FUNCTIONS"
    and "resolve_net_name nets_cache_access info f c = (Inr None, c0)" and "coherent f c0"
  shows "fst (check_invocation nets_cache_access env now (\<lambda>_. f) info fn args kwargs \<lparr>cache = c, rates = rs\<rparr>) =
    (if \<exists>d. VDict d \<in> set (file_nets f) \<and> limits_of (Some d) \<noteq> None then Inl (UnidentifiedNet fn) else Inr ())"
  using assms by (rule cache_store.invocation_unidentified)

text \<open>
  Destructive operations. Erase and flash on a named net are refused exactly when the
  saved record says \<^verbatim>\<open>allow_destructive: false\<close>.
\<close>

lemma destructive_refused_iff:
  assumes "coherent f c" and "dict_get d ''name'' = VStr n" and "n \<noteq> []"
  shows "fst (check_destructive nets_cache_access (\<lambda>_. f) (VDict d) oper c) =
    (case limits_of (last_named n (file_nets f)) of
       None \<Rightarrow> Inr ()
     | Some l \<Rightarrow> if dict_get l ''allow_destructive'' = VBool False
         then Inl (DestructiveOperationRefused n oper) else Inr ())"
  using assms by (rule cache_store.destructive_decides)

text \<open>
  C11. The cache is transparent. For any sequence of lookups, invalidations and edits, where
  every edit leaves a readable list of records with a later modification time, the cache
  answers as if the file were read at every access: the last record of a name, the record of a
  name and role, or all records.
\<close>

theorem cache_transparent:
  assumes "cache_inv hi f c" and "edits_ok hi ops"
  shows "cache_run ops (f, c) = direct_run ops f"
  using assms by (rule cache_run_direct)

theorem cache_transparent_witness:
  "cache_run [Find ''vdd'', Edit (vdd_file\<lparr>fstat := MTime 6, fdoc := JsonDoc (VList [])\<rparr>), Find ''vdd'', GetAll]
     (vdd_file, init_cache) = [AFind (Some vdd_net), ANone, AFind None, AAll []]"
proof -
  let ?f = "vdd_file\<lparr>fstat := MTime 6, fdoc := JsonDoc (VList [])\<rparr>"
  have "cache_inv 5 vdd_file init_cache"
    using vdd_coherent by (simp add: cache_inv_def vdd_file_def init_cache_def)
  from cache_transparent [OF this, of "[Find ''vdd'', Edit ?f, Find ''vdd'', GetAll]"] show ?thesis
    by (simp del: cache_run.simps add: file_ok_def file_nets_def [of ?f]
        records_ok_def last_named_def [of _ "[]"])
qed

text \<open>
  A setpoint of NaN passes a ceiling: the comparison with the limit is false, so a net
  limited to 4 V accepts the command.
\<close>

lemma nan_setpoint_passes:
  "fst (check_invocation nets_cache_access Map.empty 0 (\<lambda>_. vdd_file) (VDict [(''name'', VStr ''vdd'')])
     ''voltage'' (VList [VFloat NaN]) VNone \<lparr>cache = init_cache, rates = Map.empty\<rparr>) = Inr ()"
proof -
  have v: "check_values ''vdd'' ''voltage'' ''power-supply''
      [(''max_voltage'', VInt 4), (''allow_destructive'', VBool False)] (VList [VFloat NaN]) VNone = Inr ()"
    using four_exact
    by (simp add: check_values_Inr within_limits_def obeys_def extract_value_def coerce_float_def trip_value_def)
  have g: "is_guarded (Some ''power-supply'') ''voltage''" by (simp add: is_guarded_def)
  have r: "fst (check_rate Map.empty 0 ''vdd'' ''voltage'' Map.empty) = Inr ()"
    using check_rate_opens [where rs = Map.empty and net = "''vdd''" and fn = "''voltage''"] by simp
  from cache_store.check_decides [OF vdd_coherent, of "''vdd''" "''power-supply''" "''voltage''" _
      Map.empty 0 "VList [VFloat NaN]" VNone Map.empty] g v r
  show ?thesis
    by (subst cache_store.invocation_named [where n = "''vdd''"]) (auto split: if_splits)
qed

section \<open>Link protocols\<close>

text \<open>
  C12. HDLC round trip. A decoder between frames that is fed any sequence of encoded frames,
  with bytes other than the flag between them, delivers exactly the payloads in order and
  reports no error.
\<close>

theorem hdlc_stream_round_trip:
  assumes "current_frame h = None" and "list_all (\<lambda>(noise, bs). 0x7E \<notin> set noise) xs"
  shows "frames (feed (stream xs) h) = frames h @ map snd xs \<and> errors (feed (stream xs) h) = errors h"
  using feed_stream [OF assms] by blast

theorem hdlc_stream_round_trip_witness:
  "frames (feed (stream [([0, 0x7D], [0x7E, 0x7D, 1]), ([], []), ([5], [0xFF])]) new_hdlc) =
     [[0x7E, 0x7D, 1], [], [0xFF]]"
  using hdlc_stream_round_trip [of new_hdlc "[([0, 0x7D], [0x7E, 0x7D, 1]), ([], []), ([5], [0xFF])]"]
  by (simp add: new_hdlc_def)

text \<open>
  HDLC resynchronises. Whatever the decoder received before, of two encoded frames the
  second is delivered as the last payload.
\<close>

lemma hdlc_resynchronises:
  "last (frames (feed (Hdlc.encode a @ Hdlc.encode b) h)) = b"
  using feed_encode [OF feed_encode_between [of a h], of b] by simp

text \<open>
  HDLC detects a damaged byte. A received frame whose data differ from the sent data in
  one byte fails the check and is marked as an error.
\<close>

lemma hdlc_detects_damage:
  assumes "i < length bs" and "bs ! i \<noteq> v"
  shows "checkCRC (f\<lparr>data := bs[i := v], crc := Hdlc.calcCRC bs\<rparr>) =
    (False, f\<lparr>data := bs[i := v], crc := Hdlc.calcCRC bs, error := True\<rparr>)"
  using assms by (rule checkCRC_one_byte)

text \<open>
  The BluFi checksum table. The table-driven checksum equals the bit-by-bit register of
  polynomial \<^verbatim>\<open>0x1021\<close> on complemented values, for every start value and every input.
\<close>

lemma blufi_table_is_bitwise:
  "Blufi_Wire.calcCRC c bs = NOT (crc_hqx bs (NOT c))"
  by (rule calcCRC_bitwise)

text \<open>
  C13. BluFi transfer round trip. Data of 1 to 65535 bytes posted with any combination of
  encryption, checksum and acknowledgement, to a device that takes (and acknowledges) every
  packet, is split into packets none of which is longer than the limit, and a client with the
  same key that reads these packets dispatches exactly this data once, with its type. The
  hypothesis on the cipher is that of a length-preserving mode: decryption undoes encryption.
\<close>

theorem blufi_transfer_round_trip:
  assumes "8 \<le> data_limit checksum st" "data_limit checksum st < 254" "0 \<le> type" "type < 256"
    and "encr \<longrightarrow> cipher_ok C key" and "length bs < 65536" "bs \<noteq> []"
    and "mAESKey st = key" "mAESKey r = key" "ack \<longrightarrow> mAck st = []"
  shows "\<exists>pks st'. postContainData C (dev_link ack) encr checksum ack type bs st = (Inr True, st') \<and>
    sent st' = sent st @ pks \<and>
    receive C md5 pks r = snd (deliver md5 type
      (r\<lparr>mReadSequence := mReadSequence r + int (length pks), rxBuf := rxBuf r @ bs\<rparr>)) \<and>
    (\<forall>pk \<in> set pks. int (length pk) \<le> data_limit checksum st + 6 + (if checksum then 2 else 0))"
proof -
  let ?n = "nat (data_limit checksum st)"
  have n: "2 \<le> ?n" "?n + 2 < 256" "int ?n = data_limit checksum st" using assms(1,2) by auto
  have "postContainData C (dev_link ack) encr checksum ack type bs st =
      post_loop C (dev_link ack) ?n encr checksum ack type bs st"
    using assms(1) by (simp add: postContainData_def Let_def)
  moreover have "\<exists>pks st'. post_loop C (dev_link ack) ?n encr checksum ack type bs st = (Inr True, st') \<and>
      sent st' = sent st @ pks \<and> mAck st' = (if ack then [mSendSequence st'] else mAck st) \<and>
      receive C md5 pks r = snd (deliver md5 type
        (r\<lparr>mReadSequence := mReadSequence r + int (length pks), rxBuf := rxBuf r @ bs\<rparr>)) \<and>
      (\<forall>pk \<in> set pks. length pk \<le> ?n + 6 + (if checksum then 2 else 0))"
    by (rule post_loop_device) (use assms n in auto)
  moreover have "int k \<le> data_limit checksum st + 6 + (if checksum then 2 else 0)"
    if "k \<le> ?n + 6 + (if checksum then 2 else 0)" for k
    using that n(3) by (auto split: if_splits)
  ultimately show ?thesis by metis
qed

definition xor_cipher :: cipher where
  "xor_cipher = \<lparr>encrypt = (\<lambda>k iv d. Inr (map (\<lambda>b. b XOR hd iv) d)),
     decrypt = (\<lambda>k iv d. Inr (map (\<lambda>b. b XOR hd iv) d))\<rparr>"

lemma xor_cipher_ok: "cipher_ok xor_cipher key"
  by (simp add: cipher_ok_def xor_cipher_def comp_def xor.assoc)

theorem blufi_transfer_round_trip_witness:
  "\<exists>pks st'. postContainData xor_cipher (dev_link True) True True True 77 (replicate 100 7) new_client = (Inr True, st') \<and>
    sent st' = pks \<and>
    receive xor_cipher (\<lambda>x. x) pks new_client = snd (deliver (\<lambda>x. x) 77
      (new_client\<lparr>mReadSequence := int (length pks) - 1, rxBuf := replicate 100 7\<rparr>)) \<and>
    (\<forall>pk \<in> set pks. int (length pk) \<le> 20)"
proof -
  have "data_limit True new_client = 12" by (simp add: data_limit_def new_client_def)
  moreover have "mAESKey new_client = None" "mAck new_client = []" "sent new_client = []"
    "mReadSequence new_client = - 1" "rxBuf new_client = []" by (simp_all add: new_client_def)
  ultimately show ?thesis
    using blufi_transfer_round_trip [of True new_client 77 True xor_cipher None "replicate 100 7" new_client True "\<lambda>x. x"]
      xor_cipher_ok by simp
qed

text \<open>
  BluFi key agreement. Two parties that draw private exponents and exchange public keys
  in the accepted range derive the same key, the digest of the same shared secret.
\<close>

lemma blufi_keys_agree:
  assumes "in_range (genKeys ra new_crypto)" "in_range (genKeys rb new_crypto)"
    and "getYBytes (genKeys ra new_crypto) = Inr ya" "getYBytes (genKeys rb new_crypto) = Inr yb"
  shows "deriveSharedKey md5 (genKeys ra new_crypto) yb = deriveSharedKey md5 (genKeys rb new_crypto) ya \<and>
    (\<exists>k. deriveSharedKey md5 (genKeys ra new_crypto) yb = Inr (md5 k))"
  using shared_key_agrees [OF refl refl assms] .

text \<open>
  BluFi drops damaged packets. A packet sent with a checksum and one byte of its data
  changed on the way is dropped by the reader.
\<close>

lemma blufi_drops_damaged:
  assumes "getPostBytes C key type False True requireAck frag sequence d = Inr pk"
    and "i < length d" and "d ! i \<noteq> v"
  shows "read_packet C key (pk[4 + i := v]) = Inr None"
  using assms by (rule damaged_dropped)

text \<open>
  A left-over acknowledgement stops the next transfer. When the queue still holds the
  acknowledgement of the last packet of an acknowledged transfer, as it does after every such
  transfer, the next acknowledged transfer of several packets gives up after its first
  packet.
\<close>

lemma blufi_stale_ack:
  assumes "2 \<le> n" "n + 2 < 256" "0 \<le> type" "type < 256" "encr \<longrightarrow> cipher_ok C (mAESKey st)"
    and "n + 2 < length bs" "length bs < 65536" and "mAck st = [mSendSequence st]"
  shows "\<exists>pk st'. post_loop C (dev_link True) n encr checksum True type bs st = (Inr False, st') \<and>
    sent st' = sent st @ [pk]"
  using stale_ack_stops [OF assms(1-4) _ assms(6-)] assms(5) by blast

text \<open>
  The list of access points. A list encoded as the device does (length, signal strength,
  name in UTF-8) is parsed into exactly these names and strengths, and the waiting request is
  woken.
\<close>

lemma wifi_list_parsed:
  assumes "list_all ap_ok aps"
  shows "parseWifiScanList (concat (map encode_ap aps)) st =
    (Inr (), st\<lparr>ssidList := map (\<lambda>(ssid, s). (ssid, sint s)) aps, ssidListEvent := True\<rparr>)"
  using scan_loop_encoded [OF assms, of "[]"] by (simp add: parseWifiScanList_def)

section \<open>Handing over the bench\<close>

text \<open>
  The process tree. The tree that the progress watchdog looks at is exactly the process
  and its descendants along the parent links read from \<^verbatim>\<open>/proc\<close>; the search ends also
  when the links, read while processes come and go, contain a cycle.
\<close>

lemma process_tree_descendants:
  "process_tree stat entries pid = (child_rel (parent_links stat entries))\<^sup>* `` {pid}"
  by (simp add: process_tree_def tree_loop_reachable)

text \<open>
  C14. The bench is not handed over early. While a process that entered the registry at
  \<open>t0\<close> lives, has not been given up after 90 seconds and is not taken out by its reaper, the
  wait before the next job never answers that the bench is clear; if it gives up, it reports
  that process.
\<close>

theorem bench_not_handed_over:
  assumes "reg_ok reg" and "map_of reg pid = Some t0" and "list_all (holds t0 pid) ps"
  shows "case fst (wait_until_clear t1 timeout ps reg) of
    None \<Rightarrow> True | Some (b, pids) \<Rightarrow> \<not> b \<and> pid \<in> set pids"
  unfolding wait_until_clear_def using assms by (rule wait_loop_blocked)

definition quiet_poll :: "rat \<Rightarrow> poll" where
  "quiet_poll t = \<lparr>others = (\<lambda>r. r), reap_now = t, live_pids = (\<lambda>p. p = 42), check_now = t\<rparr>"

lemma not_stuck_2: "\<not> stuck 1 0" "\<not> stuck 2 0"
  using to_binary64_int [of 1] to_binary64_int [of 2] by (simp_all add: stuck_def STUCK_AFTER_S_def)

theorem bench_not_handed_over_witness:
  "case fst (wait_until_clear 0 1 [quiet_poll 1, quiet_poll 2] [(42, 0), (43, 0)]) of
    None \<Rightarrow> True | Some (b, pids) \<Rightarrow> \<not> b \<and> 42 \<in> set pids"
  by (rule bench_not_handed_over [where ?t0.0 = 0])
    (simp_all add: reg_ok_def holds_def quiet_poll_def not_stuck_2)

text \<open>
  The wait is bounded, and a positive answer is meant: once a poll falls on or after
  the deadline the wait has answered, and when it says clear the registry is empty.
\<close>

lemma wait_bounded_and_honest:
  assumes "\<exists>p \<in> set ps. \<not> float_gt (to_binary64 (t1 + max 0 timeout)) (Fin (check_now p))"
  shows "\<exists>b pids reg'. wait_until_clear t1 timeout ps reg = (Some (b, pids), reg') \<and>
    (b \<longrightarrow> pids = [] \<and> reg' = [])"
proof -
  obtain x reg' where w: "wait_until_clear t1 timeout ps reg = (x, reg')" by fastforce
  with wait_loop_returns [OF assms, of reg] obtain b pids where "x = Some (b, pids)"
    by (auto simp: wait_until_clear_def)
  with w wait_loop_clear [of "to_binary64 (t1 + max 0 timeout)" ps reg pids reg'] show ?thesis
    by (auto simp: wait_until_clear_def)
qed

section \<open>Capture frames\<close>

text \<open>
  C15. Capture frames round trip. A well-formed frame has header fields in range, floats of
  64 bits and as many samples as it announces. The scale and the offset of a channel are
  written in 32 bits. Where one of them is a finite number that rounds beyond the largest
  single, encoding raises \<^verbatim>\<open>OverflowError\<close>. Otherwise the frame is encoded and decoding the bytes
  gives it back, with every other field and all samples, each scale and offset being the
  nearest single with the same sign, which is the number itself when a single represents it;
  infinities come back and what is not a number stays so. Encoding the decoded frame gives
  the same bytes.
\<close>

theorem lscp_round_trip:
  assumes "frame_ok f"
  shows "case res_map narrow_channel (channels f) of
      Inl e \<Rightarrow> Lscp.encode f = Inl e \<and> e = OverflowError
    | Inr cs \<Rightarrow> list_all2 near_channel (channels f) cs \<and>
        (\<exists>bs. Lscp.encode f = Inr bs \<and> Lscp.decode bs = Inr (f\<lparr>channels := cs\<rparr>) \<and>
          Lscp.encode (f\<lparr>channels := cs\<rparr>) = Inr bs)"
proof (cases "res_map narrow_channel (channels f)")
  case (Inl e)
  then show ?thesis using encode_overflow [OF assms] by simp
next
  case (Inr cs)
  have "list_all channel_ok (channels f)" using assms by (simp add: frame_ok_def)
  from channels_packed [OF this Inr] have "list_all2 near_channel (channels f) cs" by blast
  with Inr decode_encode [OF assms Inr] show ?thesis by auto
qed

text \<open>A scale of 1.0 and one of 0.00125, the bits of which change, and then one of 1e39.\<close>

definition sample_channel :: "int \<Rightarrow> int \<Rightarrow> channel_frame" where
  "sample_channel lab sc = \<lparr>channel = lab, range_code = 3, coupling = ''AC'', scale_v_per_count = sc,
     offset_v = 13826050856027422720\<rparr>"

definition sample_frame :: "channel_frame list \<Rightarrow> capture_frame" where
  "sample_frame cs = \<lparr>seq = 7, capture_mono_ns = 1000, sample_interval_ns = 4611686018427387904,
     pre_trigger_samples = 1, post_trigger_samples = 1, samples_per_channel = 2, resolution_bits = 8,
     overflow_mask = 2, flags = 1, channels = cs, samples = [1, - 1, 0x8000, 300], screen_samples = 0\<rparr>"

lemma sample_frame_ok:
  assumes "double_ok a" "double_ok b"
  shows "frame_ok (sample_frame [sample_channel 65 a, sample_channel 66 b])"
  using assms by (simp add: frame_ok_def fits_def header_values_def HEADER_def sample_frame_def channel_ok_def
      channel_values_def coupling_code_def MAGIC_def VERSION_def sample_channel_def double_ok_def)

lemma sample_narrow:
  "narrow_channel (sample_channel lab 4607182418800017408) = Inr (sample_channel lab 4607182418800017408)"
  "narrow_channel (sample_channel lab 4563407430421976187) = Inr (sample_channel lab 4563407430293127168)"
  "narrow_channel (sample_channel lab 5190260616003865117) = Inl OverflowError"
  by (simp_all add: narrow_channel_def sample_channel_def narrow_def pack_float_def unpack_float_def Let_def
      d_sign_def d_exp_def d_frac_def f_sign_def f_exp_def f_frac_def round_even_def sgl_def dbl_def)

theorem lscp_round_trip_witness:
  "(\<exists>bs. Lscp.encode (sample_frame [sample_channel 65 4607182418800017408, sample_channel 66 4563407430421976187]) = Inr bs \<and>
      Lscp.decode bs = Inr (sample_frame [sample_channel 65 4607182418800017408, sample_channel 66 4563407430293127168])) \<and>
    Lscp.encode (sample_frame [sample_channel 65 4607182418800017408, sample_channel 66 5190260616003865117]) = Inl OverflowError"
proof -
  have d: "double_ok 4607182418800017408" "double_ok 4563407430421976187" "double_ok 5190260616003865117"
    by (simp_all add: double_ok_def)
  have u: "channels (sample_frame cs) = cs" "sample_frame cs\<lparr>channels := cs'\<rparr> = sample_frame cs'" for cs cs'
    by (simp_all add: sample_frame_def)
  show ?thesis
    using lscp_round_trip [OF sample_frame_ok [OF d(1,2)]] lscp_round_trip [OF sample_frame_ok [OF d(1,3)]]
    by (auto simp: u sample_narrow)
qed

text \<open>
  What is decoded is well formed. Every frame the decoder accepts has all fields in
  range and as many samples as its header announces, so it can be encoded again, and peeking
  at the sequence number of its bytes gives the same number.
\<close>

lemma lscp_decoded_ok:
  assumes "Lscp.decode buf = Inr f"
  shows "frame_ok f \<and> peek_seq buf = Inr (seq f)"
  using decode_ok [OF assms] peek_seq_decode [OF assms] by blast

text \<open>
  The samples of the channels. In a well-formed frame the counts of the channels, taken
  in order, are all samples of the frame, each channel having the announced number.
\<close>

lemma lscp_channels_partition:
  assumes "frame_ok f"
  shows "\<exists>parts. map (\<lambda>i. counts (int i) f) [0..<length (channels f)] = map Inr parts \<and>
    concat parts = samples f \<and> list_all (\<lambda>p. int (length p) = samples_per_channel f) parts"
  using assms by (rule counts_partition)

section \<open>Box configuration\<close>

text \<open>
  C16. What an accepted configuration promises. Every document that is accepted gives a
  configuration of the current version whose mounts have absolute paths, distinct container
  paths and none of the reserved ones, whose volumes have distinct names and no container
  path of a mount, whose variables, packages and rules match the module's expressions and
  have no duplicates up to their normal form, and whose network mode is a known one, or
  null exactly when the document carries an explicit null. The expressions end in \<^verbatim>\<open>$\<close>, so
  a USB identifier is four lower-case hexadecimal digits with at most one newline after
  them.
\<close>

theorem accepted_config_ok:
  assumes "from_dict doc = Inr c"
  shows "config_ok c \<and> list_all (\<lambda>u. usb_id (rule_vid u) \<and> usb_id (rule_pid u)) (udev_rules c) \<and>
    (\<exists>raw. doc = VDict raw \<and> (network_mode c = VNone \<longleftrightarrow> map_of raw ''network_mode'' = Some VNone))"
proof -
  obtain raw where raw: "doc = VDict raw" using from_dict_Inr [OF assms] by blast
  have "network_mode c = VNone \<longleftrightarrow> map_of raw ''network_mode'' = Some VNone"
    using from_dict_network [of raw c] assms raw by (simp add: get_or_def split: option.splits)
  with raw from_dict_ok [OF assms] rules_usb_ids show ?thesis by blast
qed

definition ssh_mount :: mount where
  "ssh_mount = \<lparr>mhost = ''/home/ann/.ssh'', mcontainer = ''/home/www-data/.ssh-git'', readonly = True\<rparr>"

definition sample_config :: box_config where
  "sample_config = init_default\<lparr>mounts := [ssh_mount], env_vars := [(''TOKEN'', ''it'' @ [CHR 0x27] @ ''s $x;'')],
     network_mode := VStr ''host'', extras := [(''hooks'', VList [])]\<rparr>"

lemma sample_config_fields [simp]:
  "mounts sample_config = [ssh_mount]" "extras sample_config = [(''hooks'', VList [])]"
  "network_mode sample_config = VStr ''host''" "env_vars sample_config = [(''TOKEN'', ''it'' @ [CHR 0x27] @ ''s $x;'')]"
  "volumes sample_config = volumes init_default"
  by (simp_all add: sample_config_def)

lemma sample_config_ok: "config_ok sample_config"
proof -
  have "re_match VOLUME_NAME_RE ''box-tools''" "re_match ENV_KEY_RE ''TOKEN''" by code_simp+
  then show ?thesis
    by (simp add: config_ok_def sample_config_def init_default_def ssh_mount_def mounts_ok_def volumes_ok_def keys_ok_def
        abs_path_def startswith_def RESERVED_CONTAINER_PATHS_def env_ok_def sysctl_ok_def pkgs_ok_def rules_ok_def
        NETWORK_MODES_def FIRST_CLASS_KEYS_def)
qed

lemma sample_config_read: "from_dict (VDict (to_dict sample_config)) = Inr sample_config"
  by (rule from_to_dict [OF sample_config_ok]) simp

theorem accepted_config_ok_witness:
  "from_dict (VDict (to_dict sample_config)) = Inr sample_config \<and> config_ok sample_config \<and>
   map_of (to_dict sample_config) ''network_mode'' \<noteq> Some VNone"
  using accepted_config_ok [OF sample_config_read] sample_config_read by simp

text \<open>
  C17. Saving keeps a configuration. Whatever document a configuration was read from, unknown
  sections included, when it is saved successfully, reading the file again gives the same
  configuration, and a save that fails leaves the file as it was.
\<close>

theorem config_survives_save:
  assumes "from_dict (VDict raw) = Inr c" and "distinct (map fst raw)"
  shows "case save io c s of
    (Inr _, s') \<Rightarrow> load (target s') = Inr (Some c) | (Inl _, s') \<Rightarrow> target s' = target s"
proof (cases "save io c s")
  case (Pair r s')
  show ?thesis
  proof (cases r)
    case (Inr u)
    then show ?thesis
      using save_load [OF from_dict_ok [OF assms(1)] from_dict_extras [OF assms], of io s s'] Pair by simp
  next
    case (Inl e)
    then show ?thesis
      using Pair replace_file_atomic [where err = RawOSError and io = io and x = "JsonDoc (VDict (to_dict c))" and s = s]
      by (simp add: save_def atomic_write_json_def)
  qed
qed

definition good_wio :: wio where
  "good_wio = \<lparr>dir_ok = True, open_ok = True, write_ok = True, rename_ok = True, unlink_ok = True\<rparr>"

theorem config_survives_save_witness:
  "load (target (snd (save good_wio sample_config \<lparr>target = Missing, tmp_left = False\<rparr>))) = Inr (Some sample_config)"
proof -
  have "distinct (map fst (to_dict sample_config))"
    using to_dict_append [OF sample_config_ok] by (simp add: base_dict_def DEFAULT_NETWORK_MODE_def)
  from config_survives_save [OF sample_config_read this, where io = good_wio and s = "\<lparr>target = Missing, tmp_left = False\<rparr>"]
  show ?thesis by (simp add: save_def atomic_write_json_def replace_file_def good_wio_def)
qed

text \<open>
  C18. The rendered arguments are exact. For an accepted configuration with a network mode
  and no NUL character, the rendered file assigns to the three arrays, as a shell reads them,
  exactly the mount arguments, the environment arguments and the host paths, whatever quotes,
  blanks or metacharacters they contain, and to the two scalars the chosen network and the
  withheld one.
\<close>

theorem rendered_args_exact:
  assumes "from_dict doc = Inr c" "network_mode c \<noteq> VNone"
    and "no_nul (mount_args c)" "no_nul (env_args c)" "no_nul (map mhost (mounts c))"
  shows "\<exists>ms es hs ns ps nw pw. render_body confirm applied c = Inr (HEADER_ARGS @ ms @ es @ hs @ ns @ ps) \<and>
    effective_network confirm (network_mode c) applied = (VStr nw, VStr pw) \<and>
    sets_array ''BOX_CONFIG_MOUNTS'' (mount_args c) ms \<and> sets_array ''BOX_CONFIG_ENV'' (env_args c) es \<and>
    sets_array ''BOX_CONFIG_HOST_PATHS'' (map mhost (mounts c)) hs \<and>
    sets_scalar ''BOX_CONFIG_NETWORK'' nw ns \<and> sets_scalar ''BOX_CONFIG_NETWORK_PENDING'' pw ps"
  using render_body_sets [OF from_dict_ok [OF assms(1)] assms(2-)] .

theorem rendered_args_exact_witness:
  "\<exists>ms es rest. render_body None Missing sample_config = Inr (HEADER_ARGS @ ms @ es @ rest) \<and>
    sets_array ''BOX_CONFIG_MOUNTS'' [''-v'', ''/home/ann/.ssh:/home/www-data/.ssh-git:ro'', ''-v'', ''box-tools:/opt/box-tools''] ms \<and>
    sets_array ''BOX_CONFIG_ENV'' [''--env'', ''TOKEN=it'' @ [CHR 0x27] @ ''s $x;''] es"
proof -
  have m: "mount_args sample_config = [''-v'', ''/home/ann/.ssh:/home/www-data/.ssh-git:ro'', ''-v'', ''box-tools:/opt/box-tools'']"
    and e: "env_args sample_config = [''--env'', ''TOKEN=it'' @ [CHR 0x27] @ ''s $x;'']"
    and h: "map mhost (mounts sample_config) = [''/home/ann/.ssh'']"
    by (simp_all add: mount_args_def env_args_def mount_spec_def ssh_mount_def init_default_def)
  have "network_mode sample_config \<noteq> VNone" by simp
  from rendered_args_exact [OF sample_config_read this, of None Missing] m e h show ?thesis
    by (auto simp: no_nul_def)
qed

text \<open>
  The host network needs a confirmed switch. A start of the container gets the host
  network only when the configuration asks for it and the switch is confirmed for this start
  or the last applied configuration already had it; otherwise the default network is used and
  the configured one reported as withheld.
\<close>

lemma host_network_guarded:
  assumes "effective_network confirm desired applied = (n, p)"
  shows "(n = VStr ''host'' \<longrightarrow> desired = VStr ''host'' \<and> (confirm = Some ''1'' \<or>
      (\<exists>raw snap. applied = JsonDoc raw \<and> from_dict raw = Inr snap \<and> network_mode snap = VStr ''host''))) \<and>
    (if p = VStr [] then n = desired else p = desired \<and> n = VStr DEFAULT_NETWORK_MODE)"
  using assms by (rule effective_network_host)

end
